(* ===== verification/Prelude.thy ===== *)
theory Prelude
  imports Complex_Main "HOL-Library.AList" "HOL-Library.Char_ord" "HOL-Library.List_Lexorder"
    "HOL-Library.Product_Lexorder" "HOL-Library.Multiset"
begin

section \<open>Prelude: Python values, dictionaries, strings and results\<close>

text \<open>
  The notions every component of the library shares.
  \<^item> A Python \<open>str\<close> is a \<^typ>\<open>string\<close>: a character stands for one code point, so the model
    covers the code points below 256.
  \<^item> A Python \<open>float\<close> is a rational number (\<open>pyfloat\<close>): every finite double is one; the rounding
    of the arithmetic, NaN and the infinities are outside the model.
  \<^item> A Python \<open>int\<close> is an \<^typ>\<open>int\<close>.
  \<^item> A \<open>dict\<close> is an association list in insertion order with distinct keys: assignment to a present
    key keeps its place, assignment to a new key appends (\<open>AList.update\<close>), \<open>del\<close> removes the pair.
  \<^item> A JSON-like dynamic value (\<open>Any\<close>) is a value of \<open>json\<close>; Python's \<open>None\<close> is \<open>JNull\<close>.
  \<^item> A call that may raise returns \<open>exn + 'a\<close>, with \<open>Inl\<close> for the exception.
\<close>

named_theorems dict_simps \<open>lookup equations of insertion-ordered dictionaries\<close>
named_theorems inv_intros \<open>preservation of the invariants of the components\<close>
named_theorems result_simps \<open>equations of the result monad\<close>

type_synonym pyfloat = rat
type_synonym account_id = string
type_synonym 'v dict = "(string \<times> 'v) list"

subsection \<open>Dictionaries\<close>

abbreviation dict_get :: "('k \<times> 'v) list \<Rightarrow> 'k \<Rightarrow> 'v option" where
  "dict_get d k \<equiv> map_of d k"

abbreviation dict_set :: "('k \<times> 'v) list \<Rightarrow> 'k \<Rightarrow> 'v \<Rightarrow> ('k \<times> 'v) list" where
  "dict_set d k v \<equiv> AList.update k v d"

abbreviation dict_del :: "('k \<times> 'v) list \<Rightarrow> 'k \<Rightarrow> ('k \<times> 'v) list" where
  "dict_del d k \<equiv> AList.delete k d"

abbreviation dict_keys :: "('k \<times> 'v) list \<Rightarrow> 'k list" where
  "dict_keys d \<equiv> map fst d"

abbreviation dict_values :: "('k \<times> 'v) list \<Rightarrow> 'v list" where
  "dict_values d \<equiv> map snd d"

definition dict_ok :: "('k \<times> 'v) list \<Rightarrow> bool" where
  "dict_ok d \<longleftrightarrow> distinct (map fst d)"

definition dict_update :: "('k \<times> 'v) list \<Rightarrow> ('k \<times> 'v) list \<Rightarrow> ('k \<times> 'v) list" where
  \<comment> \<open>\<open>d.update(e)\<close> and the literal \<open>{**d, **e}\<close>\<close>
  "dict_update d e = fold (\<lambda>(k, v) acc. AList.update k v acc) e d"

definition dict_getd :: "('k \<times> 'v) list \<Rightarrow> 'k \<Rightarrow> 'v \<Rightarrow> 'v" where
  \<comment> \<open>\<open>d.get(k, default)\<close>\<close>
  "dict_getd d k v = (case map_of d k of None \<Rightarrow> v | Some w \<Rightarrow> w)"

subsection \<open>Dynamic values\<close>

datatype json =
    JNull
  | JBool bool
  | JInt int
  | JFloat pyfloat
  | JStr string
  | JList "json list"
  | JObj "(string \<times> json) list"

fun truthy :: "json \<Rightarrow> bool" where
  "truthy JNull = False"
| "truthy (JBool b) = b"
| "truthy (JInt i) = (i \<noteq> 0)"
| "truthy (JFloat r) = (r \<noteq> 0)"
| "truthy (JStr s) = (s \<noteq> [])"
| "truthy (JList xs) = (xs \<noteq> [])"
| "truthy (JObj d) = (d \<noteq> [])"

definition obj_get :: "(string \<times> json) list \<Rightarrow> string \<Rightarrow> json" where
  \<comment> \<open>\<open>d.get(k)\<close>: a missing key reads as \<open>None\<close>\<close>
  "obj_get d k = dict_getd d k JNull"

subsection \<open>Exceptions and results\<close>

text \<open>
  The exceptions of the Python language the modelled code raises or catches. The
  exception classes of the program itself are in the theories of their components.
\<close>

datatype py_error =
    ValueError string
  | TypeError string
  | KeyError string
  | AttributeError string
  | RuntimeError string
  | IndexError string

definition bind_result :: "'e + 'a \<Rightarrow> ('a \<Rightarrow> 'e + 'b) \<Rightarrow> 'e + 'b" where
  "bind_result r f = (case r of Inl e \<Rightarrow> Inl e | Inr x \<Rightarrow> f x)"

definition map_ok :: "('a \<Rightarrow> 'b) \<Rightarrow> 'e + 'a \<Rightarrow> 'e + 'b" where
  "map_ok f r = bind_result r (\<lambda>x. Inr (f x))"

fun map_result :: "('a \<Rightarrow> 'e + 'b) \<Rightarrow> 'a list \<Rightarrow> 'e + 'b list" where
  "map_result f [] = Inr []"
| "map_result f (x # xs) =
     bind_result (f x) (\<lambda>y. bind_result (map_result f xs) (\<lambda>ys. Inr (y # ys)))"

subsection \<open>Strings\<close>

definition is_space :: "char \<Rightarrow> bool" where
  \<comment> \<open>\<open>str.isspace\<close> on the first 256 code points\<close>
  "is_space c \<longleftrightarrow> (let n = (of_char c :: nat) in (9 \<le> n \<and> n \<le> 13) \<or> (28 \<le> n \<and> n \<le> 32) \<or> n = 133 \<or> n = 160)"

definition lstrip_chars :: "(char \<Rightarrow> bool) \<Rightarrow> string \<Rightarrow> string" where
  "lstrip_chars p s = dropWhile p s"

definition rstrip_chars :: "(char \<Rightarrow> bool) \<Rightarrow> string \<Rightarrow> string" where
  "rstrip_chars p s = rev (dropWhile p (rev s))"

definition strip :: "string \<Rightarrow> string" where
  "strip s = rstrip_chars is_space (lstrip_chars is_space s)"

fun startswith :: "string \<Rightarrow> string \<Rightarrow> bool" where
  "startswith s [] = True"
| "startswith [] (p # ps) = False"
| "startswith (c # cs) (p # ps) = (c = p \<and> startswith cs ps)"

definition endswith :: "string \<Rightarrow> string \<Rightarrow> bool" where
  "endswith s p = startswith (rev s) (rev p)"

definition partition_char :: "char \<Rightarrow> string \<Rightarrow> string \<times> bool \<times> string" where
  \<comment> \<open>\<open>s.partition(c)\<close> for a one-character separator: what is before the first \<open>c\<close>,
     whether there is one, and what is after it\<close>
  "partition_char c s =
     (case dropWhile (\<lambda>x. x \<noteq> c) s of
        [] \<Rightarrow> (s, False, [])
      | _ # rest \<Rightarrow> (takeWhile (\<lambda>x. x \<noteq> c) s, True, rest))"

fun split_char :: "char \<Rightarrow> string \<Rightarrow> string list" where
  \<comment> \<open>\<open>s.split(c)\<close> for a one-character separator\<close>
  "split_char c [] = [[]]"
| "split_char c (x # xs) =
     (if x = c then [] # split_char c xs
      else (case split_char c xs of [] \<Rightarrow> [[x]] | y # ys \<Rightarrow> (x # y) # ys))"

fun join :: "string \<Rightarrow> string list \<Rightarrow> string" where
  \<comment> \<open>\<open>sep.join(parts)\<close>\<close>
  "join sep [] = []"
| "join sep [x] = x"
| "join sep (x # y # ys) = x @ sep @ join sep (y # ys)"

definition lower_char :: "char \<Rightarrow> char" where
  "lower_char c = (let n = (of_char c :: nat) in
     if (65 \<le> n \<and> n \<le> 90) \<or> (192 \<le> n \<and> n \<le> 222 \<and> n \<noteq> 215) then char_of (n + 32) else c)"

definition lower :: "string \<Rightarrow> string" where
  "lower s = map lower_char s"

definition upper_char :: "char \<Rightarrow> char" where
  "upper_char c = (let n = (of_char c :: nat) in if 97 \<le> n \<and> n \<le> 122 then char_of (n - 32) else c)"

definition upper_ascii :: "string \<Rightarrow> string" where
  \<comment> \<open>\<open>str.upper\<close> on ASCII text\<close>
  "upper_ascii s = map upper_char s"

fun string_of_nat :: "nat \<Rightarrow> string" where
  "string_of_nat n =
     (if n < 10 then [char_of (48 + n)] else string_of_nat (n div 10) @ [char_of (48 + n mod 10)])"

declare string_of_nat.simps [simp del]

definition string_of_int :: "int \<Rightarrow> string" where
  "string_of_int i = (if i < 0 then CHR ''-'' # string_of_nat (nat (- i)) else string_of_nat (nat i))"

definition hex_digit :: "nat \<Rightarrow> char" where
  "hex_digit n = (if n < 10 then char_of (48 + n) else char_of (87 + n))"

definition repr_char :: "char \<Rightarrow> char \<Rightarrow> string" where
  "repr_char q c =
     (let n = (of_char c :: nat) in
      if c = q \<or> n = 92 then [CHR 0x5C, c]
      else if n = 9 then [CHR 0x5C, CHR ''t'']
      else if n = 10 then [CHR 0x5C, CHR ''n'']
      else if n = 13 then [CHR 0x5C, CHR ''r'']
      else if n < 32 \<or> (127 \<le> n \<and> n \<le> 160) \<or> n = 173
        then [CHR 0x5C, CHR ''x'', hex_digit (n div 16), hex_digit (n mod 16)]
      else [c])"

definition repr_str :: "string \<Rightarrow> string" where
  \<comment> \<open>\<open>repr(s)\<close> of a string: single quotes unless only they occur in it\<close>
  "repr_str s =
     (let q = (if CHR 0x27 \<in> set s \<and> CHR 0x22 \<notin> set s then CHR 0x22 else CHR 0x27)
      in [q] @ concat (map (repr_char q) s) @ [q])"

fun py_repr :: "(pyfloat \<Rightarrow> string) \<Rightarrow> json \<Rightarrow> string" where
  \<comment> \<open>\<open>repr(v)\<close>; the printing of floats is the parameter \<open>fr\<close>\<close>
  "py_repr fr JNull = ''None''"
| "py_repr fr (JBool b) = (if b then ''True'' else ''False'')"
| "py_repr fr (JInt i) = string_of_int i"
| "py_repr fr (JFloat r) = fr r"
| "py_repr fr (JStr s) = repr_str s"
| "py_repr fr (JList xs) = ''['' @ join '', '' (map (py_repr fr) xs) @ '']''"
| "py_repr fr (JObj d) =
     ''{'' @ join '', '' (map (\<lambda>(k, v). repr_str k @ '': '' @ py_repr fr v) d) @ ''}''"

fun py_str :: "(pyfloat \<Rightarrow> string) \<Rightarrow> json \<Rightarrow> string" where
  "py_str fr (JStr s) = s"
| "py_str fr v = py_repr fr v"

definition is_digit :: "char \<Rightarrow> bool" where
  "is_digit c \<longleftrightarrow> (let n = (of_char c :: nat) in 48 \<le> n \<and> n \<le> 57)"

definition isdigit_char :: "char \<Rightarrow> bool" where
  \<comment> \<open>\<open>str.isdigit\<close> on the first 256 code points: the superscripts one, two and three are digits too\<close>
  "isdigit_char c \<longleftrightarrow> is_digit c \<or> (of_char c :: nat) \<in> {178, 179, 185}"

definition digit_val :: "char \<Rightarrow> nat" where
  "digit_val c = of_char c - 48"

function scan_digits :: "string \<Rightarrow> nat list \<times> string" where
  \<comment> \<open>the longest digit run, with single underscores allowed between digits\<close>
  "scan_digits [] = ([], [])"
| "scan_digits (c # cs) =
     (if is_digit c
      then (let (ds, r) = (if cs \<noteq> [] \<and> hd cs = CHR ''_'' \<and> tl cs \<noteq> [] \<and> is_digit (hd (tl cs))
                           then scan_digits (tl cs) else scan_digits cs)
            in (digit_val c # ds, r))
      else ([], c # cs))"
  by pat_completeness auto
termination
  by (relation "measure length") auto

definition nat_of_digits :: "nat list \<Rightarrow> nat" where
  "nat_of_digits ds = foldl (\<lambda>a d. 10 * a + d) 0 ds"

definition scan_sign :: "string \<Rightarrow> int \<times> string" where
  "scan_sign s = (case s of
       [] \<Rightarrow> (1, [])
     | c # cs \<Rightarrow> if c = CHR ''-'' then (- 1, cs) else if c = CHR ''+'' then (1, cs) else (1, s))"

definition int_of_string :: "string \<Rightarrow> int option" where
  \<comment> \<open>\<open>int(s)\<close>: \<open>None\<close> is the \<open>ValueError\<close>\<close>
  "int_of_string s =
     (let (sg, t) = scan_sign (strip s); (ds, r) = scan_digits t
      in if ds \<noteq> [] \<and> r = [] then Some (sg * int (nat_of_digits ds)) else None)"

definition scan_exponent :: "string \<Rightarrow> int option" where
  \<comment> \<open>the optional exponent that ends a float literal\<close>
  "scan_exponent s = (case s of
       [] \<Rightarrow> Some 0
     | c # cs \<Rightarrow>
         if c = CHR ''e'' \<or> c = CHR ''E''
         then (let (sg, t) = scan_sign cs; (ds, r) = scan_digits t
               in if ds \<noteq> [] \<and> r = [] then Some (sg * int (nat_of_digits ds)) else None)
         else None)"

definition scale10 :: "rat \<Rightarrow> int \<Rightarrow> rat" where
  "scale10 m e = (if 0 \<le> e then m * 10 ^ nat e else m / 10 ^ nat (- e))"

definition float_of_string :: "string \<Rightarrow> pyfloat option" where
  \<comment> \<open>\<open>float(s)\<close> for the decimal literals: \<open>None\<close> is the \<open>ValueError\<close>\<close>
  "float_of_string s =
     (let (sg, t) = scan_sign (strip s);
          (is, r) = scan_digits t;
          (fs, r') = (if r \<noteq> [] \<and> hd r = CHR ''.'' then scan_digits (tl r) else ([], r))
      in if is = [] \<and> fs = [] then None
         else map_option (\<lambda>e. scale10 (of_int (sg * int (nat_of_digits (is @ fs)))) (e - int (length fs)))
                (scan_exponent r'))"

fun py_float :: "json \<Rightarrow> py_error + pyfloat" where
  \<comment> \<open>\<open>float(v)\<close>\<close>
  "py_float (JFloat r) = Inr r"
| "py_float (JInt i) = Inr (of_int i)"
| "py_float (JBool b) = Inr (if b then 1 else 0)"
| "py_float (JStr s) = (case float_of_string s of
       Some r \<Rightarrow> Inr r | None \<Rightarrow> Inl (ValueError (''could not convert string to float: '' @ repr_str s)))"
| "py_float _ = Inl (TypeError ''float() argument must be a string or a real number'')"

fun py_int :: "json \<Rightarrow> py_error + int" where
  \<comment> \<open>\<open>int(v)\<close>\<close>
  "py_int (JInt i) = Inr i"
| "py_int (JFloat r) = Inr (if 0 \<le> r then \<lfloor>r\<rfloor> else \<lceil>r\<rceil>)"
| "py_int (JBool b) = Inr (if b then 1 else 0)"
| "py_int (JStr s) = (case int_of_string s of
       Some i \<Rightarrow> Inr i | None \<Rightarrow> Inl (ValueError (''invalid literal for int() with base 10: '' @ repr_str s)))"
| "py_int _ = Inl (TypeError ''int() argument must be a string, a bytes-like object or a real number'')"

definition dict_at :: "json dict \<Rightarrow> string \<Rightarrow> py_error + json" where
  \<comment> \<open>\<open>d[k]\<close>\<close>
  "dict_at d k = (case dict_get d k of None \<Rightarrow> Inl (KeyError k) | Some v \<Rightarrow> Inr v)"

definition or_default :: "string option \<Rightarrow> string \<Rightarrow> string" where
  \<comment> \<open>\<open>x or d\<close> for an optional string: both \<open>None\<close> and the empty string give \<open>d\<close>\<close>
  "or_default x d = (case x of None \<Rightarrow> d | Some s \<Rightarrow> if s = [] then d else s)"

subsection \<open>Minimum by a key\<close>

fun min_by :: "('a \<Rightarrow> 'k::linorder) \<Rightarrow> 'a \<Rightarrow> 'a list \<Rightarrow> 'a" where
  \<comment> \<open>\<open>min(x, *xs, key=f)\<close>: the first element whose key is least\<close>
  "min_by f x [] = x"
| "min_by f x (y # ys) = min_by f (if f y < f x then y else x) ys"

subsection \<open>Lemmas on dictionaries\<close>

lemma dict_ok_simps [simp]:
  "dict_ok []"
  "dict_ok d \<Longrightarrow> dict_ok (AList.update k v d)"
  "dict_ok d \<Longrightarrow> dict_ok (AList.delete k d)"
  "dict_ok d \<Longrightarrow> dict_ok (filter p d)"
  by (auto simp: dict_ok_def distinct_update distinct_delete distinct_map_filter)

lemma map_of_dict_set [simp, dict_simps]:
  "map_of (AList.update k v d) k' = (if k' = k then Some v else map_of d k')"
  by (simp add: update_conv')

lemma map_of_dict_del [simp, dict_simps]:
  "map_of (AList.delete k d) k' = (if k' = k then None else map_of d k')"
  by (simp add: delete_conv')

lemma dict_keys_set [simp]: "set (map fst (AList.update k v d)) = insert k (set (map fst d))"
  using dom_update [of k v d] by (auto simp: dom_map_of_conv_image_fst)

lemma dict_set_subset: "set (AList.update k v d) \<subseteq> insert (k, v) (set d)"
  by (induction d) auto

lemma dict_get_in_iff: "dict_ok d \<Longrightarrow> map_of d k = Some v \<longleftrightarrow> (k, v) \<in> set d"
  by (simp add: dict_ok_def)

lemma map_of_filter_val:
  "dict_ok d \<Longrightarrow> map_of (filter (\<lambda>(k, v). P v) d) k =
     (case map_of d k of Some v \<Rightarrow> if P v then Some v else None | None \<Rightarrow> None)"
proof (induction d)
  case Nil
  then show ?case by simp
next
  case (Cons p d)
  obtain a b where p: "p = (a, b)" by (cases p)
  have "map_of d a = None" if "a = k" using Cons.prems p by (simp add: dict_ok_def map_of_eq_None_iff)
  with Cons p show ?case by (auto simp: dict_ok_def split: option.splits)
qed

lemma map_of_map_val: "map_of (map (\<lambda>(k, v). (k, f v)) d) k = map_option f (map_of d k)"
  by (induction d) auto

lemma dict_ok_map_val [simp]: "dict_ok (map (\<lambda>(k, v). (k, f v)) d) = dict_ok d"
  by (simp add: dict_ok_def comp_def case_prod_unfold)

lemma map_of_dict_update [dict_simps]:
  "map_of (dict_update d e) k = (case map_of (rev e) k of Some v \<Rightarrow> Some v | None \<Rightarrow> map_of d k)"
  unfolding dict_update_def
proof (induction e arbitrary: d)
  case Nil
  then show ?case by simp
next
  case (Cons p e)
  obtain a b where p: "p = (a, b)" by (cases p)
  from Cons p show ?case by (auto simp: map_add_Some_iff map_add_def split: option.splits)
qed

lemma map_of_rev_dict [simp]: "dict_ok e \<Longrightarrow> map_of (rev e) = map_of e"
  unfolding dict_ok_def by (rule map_of_inject_set [THEN iffD2]) (auto simp: rev_map [symmetric])

lemma dict_ok_update [simp]: "dict_ok d \<Longrightarrow> dict_ok (dict_update d e)"
  unfolding dict_update_def by (induction e arbitrary: d) auto

lemma dict_getd_simps [simp]:
  "dict_getd [] k v = v"
  "dict_getd (AList.update k w d) k' v = (if k' = k then w else dict_getd d k' v)"
  "dict_getd ((a, b) # d) k v = (if a = k then b else dict_getd d k v)"
  by (auto simp: dict_getd_def)

lemma obj_get_simps [simp]:
  "obj_get [] k = JNull"
  "obj_get (AList.update k w d) k' = (if k' = k then w else obj_get d k')"
  "obj_get ((a, b) # d) k = (if a = k then b else obj_get d k)"
  by (auto simp: obj_get_def)

subsection \<open>Lemmas on results\<close>

lemma bind_result_simps [simp, result_simps]:
  "bind_result (Inl e) f = Inl e"
  "bind_result (Inr x) f = f x"
  by (simp_all add: bind_result_def)

lemma bind_result_Inr_iff: "bind_result r f = Inr y \<longleftrightarrow> (\<exists>x. r = Inr x \<and> f x = Inr y)"
  by (cases r) auto

lemma map_result_Inr: "map_result f xs = Inr ys \<Longrightarrow> length ys = length xs"
  by (induction xs arbitrary: ys) (auto simp: bind_result_Inr_iff)

lemma map_result_all:
  "(\<And>x. x \<in> set xs \<Longrightarrow> f x = Inr (g x)) \<Longrightarrow> map_result f xs = Inr (map g xs)"
  by (induction xs) auto

subsection \<open>Lemmas on strings and minima\<close>

lemma min_by_in: "min_by f x xs \<in> insert x (set xs)"
proof (induction xs arbitrary: x)
  case Nil
  then show ?case by simp
next
  case (Cons y ys)
  have "min_by f (if f y < f x then y else x) ys \<in> insert (if f y < f x then y else x) (set ys)"
    by (rule Cons.IH)
  then show ?case by (auto split: if_splits)
qed

lemma min_by_least: "y \<in> insert x (set xs) \<Longrightarrow> f (min_by f x xs) \<le> f y"
proof (induction xs arbitrary: x y)
  case Nil
  then show ?case by simp
next
  case (Cons z zs)
  let ?m = "if f z < f x then z else x"
  have m: "f (min_by f ?m zs) \<le> f ?m" by (rule Cons.IH) simp
  from Cons.prems consider "y = x" | "y = z" | "y \<in> set zs" by auto
  then show ?case
  proof cases
    case 3
    then have "f (min_by f ?m zs) \<le> f y" by (intro Cons.IH) simp
    then show ?thesis by simp
  qed (use m in \<open>auto split: if_splits\<close>)
qed

lemma startswith_iff: "startswith s p \<longleftrightarrow> take (length p) s = p"
  by (induction s p rule: startswith.induct) auto

lemma or_default_neq [simp]: "d \<noteq> [] \<Longrightarrow> or_default x d \<noteq> []"
  by (auto simp: or_default_def split: option.splits)

lemma partition_char_sep:
  "partition_char c s = (a, True, b) \<longleftrightarrow> s = a @ c # b \<and> c \<notin> set a"
proof
  assume *: "partition_char c s = (a, True, b)"
  then obtain x where d: "dropWhile (\<lambda>x. x \<noteq> c) s = x # b" and a: "a = takeWhile (\<lambda>x. x \<noteq> c) s"
    by (auto simp: partition_char_def split: list.splits)
  from d have "x = c" using hd_dropWhile [of "\<lambda>x. x \<noteq> c" s] by simp
  with d a takeWhile_dropWhile_id [of "\<lambda>x. x \<noteq> c" s] have "s = a @ c # b" by simp
  moreover from a have "c \<notin> set a" by (auto dest: set_takeWhileD)
  ultimately show "s = a @ c # b \<and> c \<notin> set a" by simp
next
  assume *: "s = a @ c # b \<and> c \<notin> set a"
  then have "\<forall>x\<in>set a. x \<noteq> c" by auto
  with * show "partition_char c s = (a, True, b)"
    by (simp add: partition_char_def takeWhile_append2 dropWhile_append2 del: takeWhile_eq_all_conv)
qed

lemma partition_char_nosep: "c \<notin> set s \<Longrightarrow> partition_char c s = (s, False, [])"
  by (simp add: partition_char_def list.case_eq_if)

subsection \<open>Decimal numerals\<close>

definition decimal_val :: "string \<Rightarrow> nat" where
  "decimal_val s = foldl (\<lambda>a c. 10 * a + digit_val c) 0 s"

lemma digit_char: "d < 10 \<Longrightarrow> of_char (char_of (48 + d) :: char) = 48 + d \<and> digit_val (char_of (48 + d)) = d"
  by (simp add: digit_val_def)

lemma decimal_val_of_nat [simp]: "decimal_val (string_of_nat n) = n"
proof (induction n rule: string_of_nat.induct)
  case (1 n)
  show ?case
  proof (cases "n < 10")
    case True
    then show ?thesis by (subst string_of_nat.simps) (simp add: decimal_val_def digit_char)
  next
    case False
    with 1 show ?thesis by (subst string_of_nat.simps) (simp add: decimal_val_def digit_char)
  qed
qed

lemma string_of_nat_inj [simp]: "string_of_nat m = string_of_nat n \<longleftrightarrow> m = n"
  by (metis decimal_val_of_nat)

lemma split_char_no_sep: "x \<in> set (split_char c s) \<Longrightarrow> c \<notin> set x \<and> set x \<subseteq> set s"
proof (induction c s arbitrary: x rule: split_char.induct)
  case (1 c)
  then show ?case by simp
next
  case (2 c y ys)
  show ?case
  proof (cases "y = c")
    case True
    then show ?thesis using 2 by fastforce
  next
    case False
    then show ?thesis using 2 by (cases "split_char c ys") fastforce+
  qed
qed

lemma split_char_not_empty: "split_char c s \<noteq> []"
  by (cases s) (auto split: list.splits)

end
