(* ===== verification/Storage_KV.thy ===== *)
theory Storage_KV
  imports Prelude
begin

section \<open>Key-value state storage\<close>

text \<open>
  The namespaced map of \<^verbatim>\<open>claude_ai/storage/kv/\<close>: the contract of \<^verbatim>\<open>BaseStorage\<close> as the
  locale \<open>base_storage\<close>, its inherited operation \<^verbatim>\<open>clear\<close>, and the in-process backend
  \<^verbatim>\<open>MemoryStorage\<close>, which is proved to meet the contract. The clients of a storage (the trackers of the orchestrator,
  the batch store) take the four operations as one record, the way the Python classes take a
  \<^verbatim>\<open>BaseStorage\<close> object, and are verified inside the locale.
\<close>

record 's storage_ops =
  op_get :: "'s \<Rightarrow> string \<Rightarrow> string \<Rightarrow> json"
  op_set :: "'s \<Rightarrow> string \<Rightarrow> string \<Rightarrow> json \<Rightarrow> 's"
  op_delete :: "'s \<Rightarrow> string \<Rightarrow> string \<Rightarrow> 's"
  op_items :: "'s \<Rightarrow> string \<Rightarrow> json dict"

definition AFFINITY :: string where
  "AFFINITY = ''affinity''"

definition PARKING :: string where
  "PARKING = ''parking''"

definition storage_clear :: "'s storage_ops \<Rightarrow> 's \<Rightarrow> string \<Rightarrow> 's" where
  \<comment> \<open>\<open>BaseStorage.clear\<close>: delete every key of a snapshot of the namespace\<close>
  "storage_clear st s ns = fold (\<lambda>k acc. op_delete st acc ns k) (dict_keys (op_items st s ns)) s"

subsection \<open>The in-process backend\<close>

type_synonym mem_storage = "json dict dict"

definition mem_get :: "mem_storage \<Rightarrow> string \<Rightarrow> string \<Rightarrow> json" where
  "mem_get s ns k = obj_get (dict_getd s ns []) k"

definition mem_set :: "mem_storage \<Rightarrow> string \<Rightarrow> string \<Rightarrow> json \<Rightarrow> mem_storage" where
  "mem_set s ns k v = dict_set s ns (dict_set (dict_getd s ns []) k v)"

definition mem_delete :: "mem_storage \<Rightarrow> string \<Rightarrow> string \<Rightarrow> mem_storage" where
  "mem_delete s ns k =
     (case dict_get s ns of None \<Rightarrow> s | Some d \<Rightarrow> dict_set s ns (dict_del d k))"

definition mem_items :: "mem_storage \<Rightarrow> string \<Rightarrow> json dict" where
  "mem_items s ns = dict_getd s ns []"

definition mem_ops :: "mem_storage storage_ops" where
  "mem_ops = \<lparr>op_get = mem_get, op_set = mem_set, op_delete = mem_delete, op_items = mem_items\<rparr>"

definition mem_inv :: "mem_storage \<Rightarrow> bool" where
  "mem_inv s \<longleftrightarrow> dict_ok s \<and> list_all (\<lambda>(ns, d). dict_ok d) s"

subsection \<open>The contract\<close>

locale base_storage =
  fixes st :: "'s storage_ops"
    and inv :: "'s \<Rightarrow> bool"
  assumes items_ok: "inv s \<Longrightarrow> dict_ok (op_items st s ns)"
    and get_items: "inv s \<Longrightarrow> op_get st s ns k = obj_get (op_items st s ns) k"
    and items_set: "inv s \<Longrightarrow> map_of (op_items st (op_set st s ns k v) ns') =
          (if ns' = ns then (map_of (op_items st s ns))(k \<mapsto> v) else map_of (op_items st s ns'))"
    and items_delete: "inv s \<Longrightarrow> map_of (op_items st (op_delete st s ns k) ns') =
          (if ns' = ns then (map_of (op_items st s ns))(k := None) else map_of (op_items st s ns'))"
    and inv_set: "inv s \<Longrightarrow> inv (op_set st s ns k v)"
    and inv_delete: "inv s \<Longrightarrow> inv (op_delete st s ns k)"
begin

lemmas storage_simps = items_set items_delete inv_set inv_delete

lemma get_set: "inv s \<Longrightarrow> op_get st (op_set st s ns k v) ns' k' =
    (if ns' = ns \<and> k' = k then v else op_get st s ns' k')"
  by (simp add: get_items storage_simps obj_get_def dict_getd_def)

lemma get_delete: "inv s \<Longrightarrow> op_get st (op_delete st s ns k) ns' k' =
    (if ns' = ns \<and> k' = k then JNull else op_get st s ns' k')"
  by (simp add: get_items storage_simps obj_get_def dict_getd_def)

lemma delete_keys:
  "inv s \<Longrightarrow> inv (fold (\<lambda>k acc. op_delete st acc ns k) ks s) \<and>
     map_of (op_items st (fold (\<lambda>k acc. op_delete st acc ns k) ks s) ns') =
       (if ns' = ns then (map_of (op_items st s ns)) |` (- set ks) else map_of (op_items st s ns'))"
proof (induction ks arbitrary: s)
  case Nil
  then show ?case by (simp add: restrict_map_def)
next
  case (Cons k ks)
  then have "inv (op_delete st s ns k)" by (simp add: inv_delete)
  from Cons.IH [OF this] Cons.prems show ?case
    by (auto simp: storage_simps restrict_map_def fun_eq_iff)
qed

lemma clear_inv: "inv s \<Longrightarrow> inv (storage_clear st s ns)"
  by (simp add: storage_clear_def delete_keys)

lemma clear_items: "inv s \<Longrightarrow> map_of (op_items st (storage_clear st s ns) ns') =
    (if ns' = ns then Map.empty else map_of (op_items st s ns'))"
  by (auto simp: storage_clear_def delete_keys restrict_map_def fun_eq_iff map_of_eq_None_iff)

end

lemma mem_inv_inner: "mem_inv s \<Longrightarrow> dict_ok (dict_getd s ns [])"
  by (auto simp: mem_inv_def dict_getd_def list_all_iff split: option.splits dest: map_of_SomeD)

lemma mem_inv_update: "mem_inv s \<Longrightarrow> dict_ok d \<Longrightarrow> mem_inv (dict_set s ns d)"
  using dict_set_subset [of ns d s] by (auto simp: mem_inv_def list_all_iff)

interpretation mem: base_storage mem_ops mem_inv
proof unfold_locales
  fix s :: mem_storage and ns k v ns'
  assume inv: "mem_inv s"
  note inner = mem_inv_inner [OF inv]
  show "dict_ok (op_items mem_ops s ns)"
    by (simp add: mem_ops_def mem_items_def inner)
  show "op_get mem_ops s ns k = obj_get (op_items mem_ops s ns) k"
    by (simp add: mem_ops_def mem_items_def mem_get_def)
  show "map_of (op_items mem_ops (op_set mem_ops s ns k v) ns') =
      (if ns' = ns then (map_of (op_items mem_ops s ns))(k \<mapsto> v) else map_of (op_items mem_ops s ns'))"
    by (auto simp: mem_ops_def mem_items_def mem_set_def fun_eq_iff)
  show "map_of (op_items mem_ops (op_delete mem_ops s ns k) ns') =
      (if ns' = ns then (map_of (op_items mem_ops s ns))(k := None) else map_of (op_items mem_ops s ns'))"
    by (auto simp: mem_ops_def mem_items_def mem_delete_def fun_eq_iff dict_getd_def split: option.splits)
  show "mem_inv (op_set mem_ops s ns k v)"
    by (simp add: mem_ops_def mem_set_def mem_inv_update inv inner)
  show "mem_inv (op_delete mem_ops s ns k)"
    using inner [of ns] inv
    by (auto simp: mem_ops_def mem_delete_def dict_getd_def split: option.splits intro!: mem_inv_update)
qed

lemma mem_inv_empty [simp]: "mem_inv []"
  by (simp add: mem_inv_def)

end
