(* ===== verification/Affinity.thy ===== *)
theory Affinity
  imports Storage_KV
begin

section \<open>Sticky routing: the affinity tracker\<close>

text \<open>
  \<^verbatim>\<open>claude_ai/orchestrator/affinity.py\<close>: pins of an affinity key (a conversation) to the
  account that owns it, kept in memory and mirrored into a storage. The state is the pair of the
  in-memory dictionary \<^verbatim>\<open>_pin\<close> and the optional storage \<^verbatim>\<open>_store\<close>, which the
  orchestrator shares with its other trackers.
\<close>

type_synonym pins = "account_id dict"

definition aff_load :: "(pyfloat \<Rightarrow> string) \<Rightarrow> 's storage_ops \<Rightarrow> pins \<Rightarrow> 's option \<Rightarrow> pins" where
  "aff_load fr st p so =
     (case so of None \<Rightarrow> p | Some s \<Rightarrow> map (\<lambda>(k, v). (k, py_str fr v)) (op_items st s AFFINITY))"

definition aff_get :: "pins \<Rightarrow> string \<Rightarrow> account_id option" where
  "aff_get p k = dict_get p k"

definition aff_pin ::
  "'s storage_ops \<Rightarrow> pins \<times> 's option \<Rightarrow> string \<Rightarrow> account_id \<Rightarrow> pins \<times> 's option" where
  "aff_pin st t k a =
     (if dict_get (fst t) k = Some a then t
      else (dict_set (fst t) k a, map_option (\<lambda>s. op_set st s AFFINITY k (JStr a)) (snd t)))"

definition aff_unpin :: "'s storage_ops \<Rightarrow> pins \<times> 's option \<Rightarrow> string \<Rightarrow> pins \<times> 's option" where
  "aff_unpin st t k =
     (dict_del (fst t) k, map_option (\<lambda>s. op_delete st s AFFINITY k) (snd t))"

definition aff_drop_account ::
  "'s storage_ops \<Rightarrow> pins \<times> 's option \<Rightarrow> account_id \<Rightarrow> pins \<times> 's option" where
  \<comment> \<open>the loop runs over a snapshot of the keys pinned to the account\<close>
  "aff_drop_account st t a =
     fold (\<lambda>k t'. aff_unpin st t' k) (map fst (filter (\<lambda>(k, v). v = a) (fst t))) t"

definition aff_all :: "pins \<Rightarrow> pins" where
  "aff_all p = p"

subsection \<open>Specification: a finite map that survives a restart\<close>

datatype aff_op = Pin string account_id | Unpin string | DropAccount account_id

fun aff_step :: "'s storage_ops \<Rightarrow> pins \<times> 's option \<Rightarrow> aff_op \<Rightarrow> pins \<times> 's option" where
  "aff_step st t (Pin k a) = aff_pin st t k a"
| "aff_step st t (Unpin k) = aff_unpin st t k"
| "aff_step st t (DropAccount a) = aff_drop_account st t a"

definition aff_run :: "'s storage_ops \<Rightarrow> pins \<times> 's option \<Rightarrow> aff_op list \<Rightarrow> pins \<times> 's option" where
  "aff_run st t ops = foldl (aff_step st) t ops"

fun aff_spec_step :: "(string \<rightharpoonup> account_id) \<Rightarrow> aff_op \<Rightarrow> (string \<rightharpoonup> account_id)" where
  "aff_spec_step m (Pin k a) = m(k \<mapsto> a)"
| "aff_spec_step m (Unpin k) = m(k := None)"
| "aff_spec_step m (DropAccount a) = (\<lambda>k. if m k = Some a then None else m k)"

definition aff_spec_run :: "(string \<rightharpoonup> account_id) \<Rightarrow> aff_op list \<Rightarrow> (string \<rightharpoonup> account_id)" where
  "aff_spec_run m ops = foldl aff_spec_step m ops"

subsection \<open>The tracker implements the specification and mirrors it\<close>

lemma aff_unpin_pins: "map_of (fst (aff_unpin st t k)) = (map_of (fst t))(k := None)"
  by (auto simp: aff_unpin_def)

lemma aff_unpin_fold_pins:
  "map_of (fst (fold (\<lambda>k t. aff_unpin st t k) ks t)) = map_of (fst t) |` (- set ks)"
  by (induction ks arbitrary: t) (auto simp: aff_unpin_pins restrict_map_def fun_eq_iff)

lemma aff_unpin_ok [simp]: "dict_ok (fst t) \<Longrightarrow> dict_ok (fst (aff_unpin st t k))"
  by (simp add: aff_unpin_def)

lemma aff_unpin_dict_ok: "dict_ok (fst t) \<Longrightarrow> dict_ok (fst (fold (\<lambda>k t. aff_unpin st t k) ks t))"
  by (induction ks arbitrary: t) auto

lemma keys_of_account:
  "dict_ok p \<Longrightarrow> k \<in> set (map fst (filter (\<lambda>(k, v). v = a) p)) \<longleftrightarrow> map_of p k = Some a"
  by (force simp: dict_get_in_iff)

lemma aff_drop_account_pins:
  "dict_ok (fst t) \<Longrightarrow> map_of (fst (aff_drop_account st t a)) =
     (\<lambda>k. if map_of (fst t) k = Some a then None else map_of (fst t) k)"
  unfolding aff_drop_account_def
  by (simp add: aff_unpin_fold_pins restrict_map_def keys_of_account fun_eq_iff del: set_map)

lemma aff_step_dict_ok [inv_intros]: "dict_ok (fst t) \<Longrightarrow> dict_ok (fst (aff_step st t x))"
  by (cases x) (auto simp: aff_pin_def aff_drop_account_def aff_unpin_dict_ok)

lemma aff_step_refines:
  "dict_ok (fst t) \<Longrightarrow> map_of (fst (aff_step st t x)) = aff_spec_step (map_of (fst t)) x"
  by (cases x) (auto simp: aff_pin_def aff_unpin_pins aff_drop_account_pins fun_eq_iff)

lemma aff_run_refines:
  "dict_ok (fst t) \<Longrightarrow> dict_ok (fst (aff_run st t xs)) \<and>
     map_of (fst (aff_run st t xs)) = aff_spec_run (map_of (fst t)) xs"
  unfolding aff_run_def aff_spec_run_def
  by (induction xs arbitrary: t) (auto simp: aff_step_dict_ok aff_step_refines)

context base_storage
begin

definition aff_mirror :: "pins \<times> 's option \<Rightarrow> bool" where
  \<comment> \<open>the storage holds exactly the pins\<close>
  "aff_mirror t \<longleftrightarrow> dict_ok (fst t) \<and> (\<forall>s. snd t = Some s \<longrightarrow> inv s \<and>
     (\<forall>k. map_of (op_items st s AFFINITY) k = map_option JStr (map_of (fst t) k)))"

lemma aff_unpin_mirror: "aff_mirror t \<Longrightarrow> aff_mirror (aff_unpin st t k)"
  by (auto simp: aff_mirror_def aff_unpin_def storage_simps)

lemma aff_unpin_fold_mirror: "aff_mirror t \<Longrightarrow> aff_mirror (fold (\<lambda>k t. aff_unpin st t k) ks t)"
  by (induction ks arbitrary: t) (auto simp: aff_unpin_mirror)

lemma aff_step_mirror: "aff_mirror t \<Longrightarrow> aff_mirror (aff_step st t x)"
proof (cases x)
  case (Pin k a)
  assume "aff_mirror t"
  with Pin show ?thesis by (auto simp: aff_mirror_def aff_pin_def storage_simps)
qed (auto simp: aff_unpin_mirror aff_unpin_fold_mirror aff_drop_account_def)

lemma aff_run_mirror: "aff_mirror t \<Longrightarrow> aff_mirror (aff_run st t xs)"
  unfolding aff_run_def by (induction xs arbitrary: t) (auto simp: aff_step_mirror)

lemma aff_load_mirror:
  "aff_mirror t \<Longrightarrow> snd t = Some s \<Longrightarrow> map_of (aff_load fr st p (Some s)) = map_of (fst t)"
  by (auto simp: aff_mirror_def aff_load_def map_of_map_val fun_eq_iff option.map_comp comp_def option.map_ident)

lemma aff_restart:
  assumes "inv s" and "\<And>k. map_of (op_items st s AFFINITY) k = None"
  shows "map_of (aff_load fr st [] (snd (aff_run st ([], Some s) xs))) = aff_spec_run Map.empty xs"
proof -
  let ?t = "aff_run st ([], Some s) xs"
  have "aff_mirror ([], Some s)" using assms by (simp add: aff_mirror_def)
  then have m: "aff_mirror ?t" by (rule aff_run_mirror)
  have "snd (aff_step st t x) \<noteq> None" if "snd t \<noteq> None" for t :: "pins \<times> 's option" and x
  proof -
    have "snd (fold (\<lambda>k t. aff_unpin st t k) ks t) \<noteq> None" if "snd t \<noteq> None"
      for ks and t :: "pins \<times> 's option"
      using that by (induction ks arbitrary: t) (auto simp: aff_unpin_def)
    then show ?thesis using that by (cases x) (auto simp: aff_pin_def aff_unpin_def aff_drop_account_def)
  qed
  then have "snd ?t \<noteq> None"
    unfolding aff_run_def by (induction xs rule: rev_induct) auto
  then obtain s' where s': "snd ?t = Some s'" by blast
  have "map_of (aff_load fr st [] (Some s')) = map_of (fst ?t)" using m s' by (rule aff_load_mirror)
  with aff_run_refines [of "([], Some s)" st xs] s' show ?thesis by simp
qed

end

subsection \<open>Properties\<close>

text \<open>
  Pins survive a restart. Whatever sequence of pins, unpins and account removals the tracker performs on an
  in-process storage with no pins, a new tracker that loads the storage routes every key as the
  abstract map does after the same sequence.
\<close>

theorem affinity_survives_restart:
  assumes "mem_inv s" and "mem_items s AFFINITY = []"
  shows "map_of (aff_load fr mem_ops [] (snd (aff_run mem_ops ([], Some s) ops))) = aff_spec_run Map.empty ops"
  using mem.aff_restart [of s fr ops] assms by (simp add: mem_ops_def)

theorem affinity_survives_restart_witness:
  "map_of (aff_load (\<lambda>r. []) mem_ops [] (snd (aff_run mem_ops ([], Some [])
      [Pin ''c1'' ''a'', Pin ''c2'' ''b'', DropAccount ''a'']))) =
    aff_spec_run Map.empty [Pin ''c1'' ''a'', Pin ''c2'' ''b'', DropAccount ''a'']"
  by (rule affinity_survives_restart) (simp_all add: mem_items_def dict_getd_def)

end
