(* ===== verification/Stream_Model.thy ===== *)
theory Stream_Model
  imports Prelude
begin

section \<open>Stream event models\<close>

text \<open>
  The typed server-sent events of \<^verbatim>\<open>claude_ai/models/streaming.py\<close>: one constructor per
  \<^verbatim>\<open>StreamEvent\<close> subclass (\<open>PlainEvent\<close> is the base class itself, which the code falls back
  to), records for the nested models, and the wire names of
  \<^verbatim>\<open>claude_ai/enums/stream.py\<close>. Every event carries the raw payload it was built from.
\<close>

datatype stream_event_type =
    MESSAGE_START
  | CONTENT_BLOCK_START
  | CONTENT_BLOCK_DELTA
  | CONTENT_BLOCK_STOP
  | MESSAGE_DELTA
  | MESSAGE_STOP
  | MESSAGE_LIMIT

fun stream_event_type_value :: "stream_event_type \<Rightarrow> string" where
  "stream_event_type_value MESSAGE_START = ''message_start''"
| "stream_event_type_value CONTENT_BLOCK_START = ''content_block_start''"
| "stream_event_type_value CONTENT_BLOCK_DELTA = ''content_block_delta''"
| "stream_event_type_value CONTENT_BLOCK_STOP = ''content_block_stop''"
| "stream_event_type_value MESSAGE_DELTA = ''message_delta''"
| "stream_event_type_value MESSAGE_STOP = ''message_stop''"
| "stream_event_type_value MESSAGE_LIMIT = ''message_limit''"

record message_start_data =
  msd_id :: string
  msd_type :: string
  msd_role :: string
  msd_model :: string
  msd_parent_uuid :: "string option"
  msd_uuid :: "string option"
  msd_content :: "json list"
  msd_stop_reason :: "string option"
  msd_trace_id :: "string option"
  msd_request_id :: "string option"

datatype block_delta =
    TextDelta string
  | ThinkingDelta string
  | ThinkingSummaryDelta string
  | InputJsonDelta string
  | ToolUseBlockUpdate "json dict option" "string option"
  | CitationStartDelta "json dict"
  | CitationEndDelta
  | DictDelta "json dict"   \<comment> \<open>the untyped alternative of the union\<close>

record stop_delta =
  sd_stop_reason :: "string option"
  sd_stop_sequence :: "string option"

record limit_window_state =
  lw_status :: string
  lw_resets_at :: "int option"
  lw_utilization :: pyfloat

record message_limit_info =
  ml_type :: string
  ml_resetsAt :: "int option"
  ml_remaining :: "int option"
  ml_perModelLimit :: "int option"
  ml_representativeClaim :: "string option"
  ml_overageDisabledReason :: "string option"
  ml_overageInUse :: bool
  ml_windows :: "limit_window_state dict"

datatype stream_event =
    MessageStart "json dict" message_start_data "string option"
  | ContentBlockStart "json dict" int "json dict"
  | ContentBlockDelta "json dict" int block_delta
  | ContentBlockStop "json dict" int "string option"
  | MessageDelta "json dict" stop_delta int          \<comment> \<open>\<open>usage.output_tokens\<close>\<close>
  | MessageStop "json dict"
  | MessageLimit "json dict" message_limit_info
  | PlainEvent string "json dict"

fun event_type_of :: "stream_event \<Rightarrow> string" where
  \<comment> \<open>the field \<open>type\<close>\<close>
  "event_type_of (MessageStart _ _ _) = stream_event_type_value MESSAGE_START"
| "event_type_of (ContentBlockStart _ _ _) = stream_event_type_value CONTENT_BLOCK_START"
| "event_type_of (ContentBlockDelta _ _ _) = stream_event_type_value CONTENT_BLOCK_DELTA"
| "event_type_of (ContentBlockStop _ _ _) = stream_event_type_value CONTENT_BLOCK_STOP"
| "event_type_of (MessageDelta _ _ _) = stream_event_type_value MESSAGE_DELTA"
| "event_type_of (MessageStop _) = stream_event_type_value MESSAGE_STOP"
| "event_type_of (MessageLimit _ _) = stream_event_type_value MESSAGE_LIMIT"
| "event_type_of (PlainEvent t _) = t"

definition limit_window_dump :: "limit_window_state \<Rightarrow> json dict" where
  \<comment> \<open>\<open>LimitWindowState.model_dump()\<close>\<close>
  "limit_window_dump w =
     [(''status'', JStr (lw_status w)),
      (''resets_at'', case lw_resets_at w of None \<Rightarrow> JNull | Some i \<Rightarrow> JInt i),
      (''utilization'', JFloat (lw_utilization w))]"

end
