(* ===== verification/Events.thy ===== *)
theory Events
  imports Stream_Model
begin

section \<open>Bus events\<close>

text \<open>
  The event classes of \<^verbatim>\<open>claude_ai/events/\<close>. The fields of \<^verbatim>\<open>BaseEvent\<close> are the record
  \<open>event\<close>; the class and the fields of a subclass are its body. The \<open>type\<close> field is data (a
  subclass only gives it a default), so it is a field of its own.
\<close>

datatype event_body =
    BaseBody
  | AccountExpiredEvent string                                   \<comment> \<open>reason\<close>
  | AccountParkedEvent "pyfloat option" string                   \<comment> \<open>until, reason\<close>
  | StreamChunkEvent string "stream_event option"                \<comment> \<open>conv uuid, event\<close>
  | AssistantMessageStartedEvent string string "string option" string
      \<comment> \<open>conv uuid, message uuid, parent uuid, model\<close>
  | AssistantMessageCompleteEvent string string string string "string option" int
      \<comment> \<open>conv uuid, message uuid, text, thinking, stop reason, output tokens\<close>
  | LimitUpdatedEvent "json dict dict" "string option" bool
      \<comment> \<open>windows, representative claim, overage in use\<close>
  | ProxyInvalidEvent string string                              \<comment> \<open>proxy url, reason\<close>

record event =
  ev_type :: string
  ev_account_id :: "account_id option"
  ev_occurred_at :: pyfloat
  ev_body :: event_body

datatype event_class =
    CBaseEvent
  | CAccountExpiredEvent
  | CAccountParkedEvent
  | CStreamChunkEvent
  | CAssistantMessageStartedEvent
  | CAssistantMessageCompleteEvent
  | CLimitUpdatedEvent
  | CProxyInvalidEvent

fun class_of_body :: "event_body \<Rightarrow> event_class" where
  "class_of_body BaseBody = CBaseEvent"
| "class_of_body (AccountExpiredEvent _) = CAccountExpiredEvent"
| "class_of_body (AccountParkedEvent _ _) = CAccountParkedEvent"
| "class_of_body (StreamChunkEvent _ _) = CStreamChunkEvent"
| "class_of_body (AssistantMessageStartedEvent _ _ _ _) = CAssistantMessageStartedEvent"
| "class_of_body (AssistantMessageCompleteEvent _ _ _ _ _ _) = CAssistantMessageCompleteEvent"
| "class_of_body (LimitUpdatedEvent _ _ _) = CLimitUpdatedEvent"
| "class_of_body (ProxyInvalidEvent _ _) = CProxyInvalidEvent"

fun default_type :: "event_class \<Rightarrow> string" where
  "default_type CBaseEvent = []"
| "default_type CAccountExpiredEvent = ''account.expired''"
| "default_type CAccountParkedEvent = ''account.parked''"
| "default_type CStreamChunkEvent = ''stream.chunk''"
| "default_type CAssistantMessageStartedEvent = ''message.started''"
| "default_type CAssistantMessageCompleteEvent = ''message.complete''"
| "default_type CLimitUpdatedEvent = ''limit.updated''"
| "default_type CProxyInvalidEvent = ''proxy.invalid''"

definition mk_event :: "pyfloat \<Rightarrow> account_id option \<Rightarrow> event_body \<Rightarrow> event" where
  \<comment> \<open>a subclass instance built with its default \<open>type\<close> and the current time\<close>
  "mk_event now acc b =
     \<lparr>ev_type = default_type (class_of_body b), ev_account_id = acc, ev_occurred_at = now, ev_body = b\<rparr>"

definition is_instance :: "event \<Rightarrow> event_class \<Rightarrow> bool" where
  \<comment> \<open>\<open>isinstance(event, cls)\<close>: every event class derives directly from \<open>BaseEvent\<close>\<close>
  "is_instance e c \<longleftrightarrow> c = CBaseEvent \<or> c = class_of_body (ev_body e)"

end
