(* ===== verification/Errors.thy ===== *)
theory Errors
  imports Prelude
begin

section \<open>The exception hierarchy of the SDK\<close>

text \<open>
  The exception classes of \<^verbatim>\<open>claude_ai/exceptions.py\<close>, the pool exception
  \<^verbatim>\<open>NoAvailableAccounts\<close> of \<^verbatim>\<open>claude_ai/orchestrator/scheduling.py\<close>, and the status
  table with \<^verbatim>\<open>raise_for_status\<close>. A subclass of \<^verbatim>\<open>APIError\<close> adds no field but
  \<open>retry_after\<close>, so one record with a class tag covers them all.
\<close>

datatype api_class =
    APIError
  | BadRequestError
  | AuthError
  | ForbiddenError
  | NotFoundError
  | RateLimitError
  | ServerError

record api_error =
  api_class :: api_class
  api_status_code :: int
  api_detail :: string
  api_request_url :: string
  api_request_method :: string
  api_error_code :: "string option"
  api_retry_after :: "pyfloat option"

datatype exn =
    Api api_error
  | StreamError string string string     \<comment> \<open>event type, raw data, reason\<close>
  | SessionError string string           \<comment> \<open>reason, session id\<close>
  | NetworkError string string           \<comment> \<open>url, text of the original exception\<close>
  | NoAvailableAccounts "pyfloat option" \<comment> \<open>soonest release; a \<open>RuntimeError\<close>\<close>
  | Py py_error
  | OtherException string string         \<comment> \<open>class name and message of any other exception\<close>

fun py_error_str :: "py_error \<Rightarrow> string" where
  "py_error_str (ValueError m) = m"
| "py_error_str (TypeError m) = m"
| "py_error_str (KeyError m) = repr_str m"
| "py_error_str (AttributeError m) = m"
| "py_error_str (RuntimeError m) = m"
| "py_error_str (IndexError m) = m"

fun exn_str :: "exn \<Rightarrow> string" where
  \<comment> \<open>\<open>str(exc)\<close>: the message handed to the base class\<close>
  "exn_str (Api e) = ''['' @ string_of_int (api_status_code e) @ ''] '' @ api_detail e"
| "exn_str (StreamError t raw reason) =
     ''Stream error on event '' @ [CHR 0x27] @ t @ [CHR 0x27] @ '': '' @ reason"
| "exn_str (SessionError reason sid) = reason"
| "exn_str (NetworkError url orig) = ''Network error: '' @ url"
| "exn_str (NoAvailableAccounts r) = ''no available accounts (all parked or quarantined)''"
| "exn_str (Py e) = py_error_str e"
| "exn_str (OtherException cls m) = m"

definition STATUS_MAP :: "(int \<times> api_class) list" where
  "STATUS_MAP =
     [(400, BadRequestError), (401, AuthError), (403, ForbiddenError), (404, NotFoundError),
      (429, RateLimitError), (500, ServerError), (502, ServerError), (503, ServerError)]"

definition raise_for_status :: "int \<Rightarrow> string \<Rightarrow> exn" where
  \<comment> \<open>the exception that \<open>raise_for_status(status_code, detail)\<close> raises; every call site passes
     these two arguments only, so the keyword fields keep their defaults\<close>
  "raise_for_status status detail =
     Api \<lparr>api_class = dict_getd STATUS_MAP status APIError, api_status_code = status,
          api_detail = detail, api_request_url = [], api_request_method = [],
          api_error_code = None, api_retry_after = None\<rparr>"

fun is_api :: "exn \<Rightarrow> bool" where
  "is_api (Api e) = True"
| "is_api _ = False"

fun is_runtime_error :: "exn \<Rightarrow> bool" where
  \<comment> \<open>\<open>isinstance(exc, RuntimeError)\<close>\<close>
  "is_runtime_error (NoAvailableAccounts r) = True"
| "is_runtime_error (Py (RuntimeError m)) = True"
| "is_runtime_error _ = False"

definition api_of_class :: "api_class \<Rightarrow> int \<Rightarrow> string \<Rightarrow> pyfloat option \<Rightarrow> exn" where
  \<comment> \<open>an \<open>APIError\<close> of the given class as a task may raise it\<close>
  "api_of_class c status detail ra =
     Api \<lparr>api_class = c, api_status_code = status, api_detail = detail, api_request_url = [],
          api_request_method = [], api_error_code = None, api_retry_after = ra\<rparr>"

lemma raise_for_status_fields:
  obtains e where "raise_for_status s d = Api e" and "api_status_code e = s" and "api_detail e = d"
    and "api_retry_after e = None"
  by (simp add: raise_for_status_def)

lemma raise_for_status_class:
  "raise_for_status s d = Api e \<Longrightarrow> api_class e = RateLimitError \<longleftrightarrow> s = 429"
  "raise_for_status s d = Api e \<Longrightarrow> api_class e = AuthError \<longleftrightarrow> s = 401"
  "raise_for_status s d = Api e \<Longrightarrow> api_class e = ForbiddenError \<longleftrightarrow> s = 403"
  by (auto simp: raise_for_status_def STATUS_MAP_def split: if_splits)

end
