(* ===== verification/Availability.thy ===== *)
theory Availability
  imports Storage_KV Events Errors
begin

section \<open>Rate-limit parking and quarantine: the availability tracker\<close>

text \<open>
  \<^verbatim>\<open>claude_ai/orchestrator/scheduling.py\<close>: an account is \<^emph>\<open>parked\<close> until an epoch
  time, or \<^emph>\<open>quarantined\<close> until it is released. The dictionary \<^verbatim>\<open>_parked\<close> is the
  in-memory state; \<^verbatim>\<open>park\<close>, \<^verbatim>\<open>quarantine\<close> and \<^verbatim>\<open>release\<close> also write the
  storage, while \<^verbatim>\<open>is_available\<close> drops an expired park from memory only. The clock reading
  \<^verbatim>\<open>time.time()\<close> is an argument of every operation that takes it.
\<close>

record park_state =
  ps_until :: "pyfloat option"   \<comment> \<open>epoch seconds; \<open>None\<close> is indefinite\<close>
  ps_reason :: string
  ps_quarantined :: bool

record avail =
  av_parked :: "park_state dict"
  av_threshold :: pyfloat
  av_default_cooldown :: pyfloat

definition coerce_epoch :: "json \<Rightarrow> pyfloat option" where
  \<comment> \<open>\<open>_coerce_epoch\<close>: tolerate millisecond epochs; not a number is \<open>None\<close>\<close>
  "coerce_epoch v =
     (case py_float v of
        Inl e \<Rightarrow> None
      | Inr secs \<Rightarrow> Some (if secs > 10 ^ 12 then secs / 1000 else secs))"

definition park_to_json :: "park_state \<Rightarrow> json" where
  \<comment> \<open>\<open>asdict(state)\<close>\<close>
  "park_to_json p =
     JObj [(''until'', case ps_until p of None \<Rightarrow> JNull | Some r \<Rightarrow> JFloat r),
           (''reason'', JStr (ps_reason p)),
           (''quarantined'', JBool (ps_quarantined p))]"

definition park_of_json :: "json \<Rightarrow> py_error + park_state" where
  \<comment> \<open>the \<open>ParkState(...)\<close> that \<open>load\<close> builds from a stored row; a row of another shape than
     \<open>_set\<close> writes (no object, an ill-typed field) is an error\<close>
  "park_of_json v =
     (case v of
        JObj d \<Rightarrow>
          (let q = truthy (dict_getd d ''quarantined'' (JBool False))
           in case (obj_get d ''until'', dict_getd d ''reason'' (JStr [])) of
                (JNull, JStr r) \<Rightarrow> Inr \<lparr>ps_until = None, ps_reason = r, ps_quarantined = q\<rparr>
              | (JFloat u, JStr r) \<Rightarrow> Inr \<lparr>ps_until = Some u, ps_reason = r, ps_quarantined = q\<rparr>
              | (JInt u, JStr r) \<Rightarrow> Inr \<lparr>ps_until = Some (of_int u), ps_reason = r, ps_quarantined = q\<rparr>
              | _ \<Rightarrow> Inl (TypeError ''park row''))
      | _ \<Rightarrow> Inl (AttributeError ''get''))"

definition park_live :: "pyfloat \<Rightarrow> park_state \<Rightarrow> bool" where
  \<comment> \<open>the test of \<open>load\<close>: \<open>state.quarantined or (state.until is not None and state.until > now)\<close>\<close>
  "park_live now p \<longleftrightarrow> ps_quarantined p \<or> (case ps_until p of None \<Rightarrow> False | Some u \<Rightarrow> u > now)"

fun av_load_rows ::
  "'s storage_ops \<Rightarrow> pyfloat \<Rightarrow> json dict \<Rightarrow> avail \<times> 's \<Rightarrow> py_error + avail \<times> 's" where
  "av_load_rows st now [] t = Inr t"
| "av_load_rows st now ((a, v) # rows) t =
     bind_result (park_of_json v) (\<lambda>p.
       av_load_rows st now rows
         (if park_live now p
          then ((fst t)\<lparr>av_parked := dict_set (av_parked (fst t)) a p\<rparr>, snd t)
          else (fst t, op_delete st (snd t) PARKING a)))"

definition av_load ::
  "'s storage_ops \<Rightarrow> pyfloat \<Rightarrow> avail \<times> 's option \<Rightarrow> py_error + avail \<times> 's option" where
  "av_load st now t =
     (case snd t of
        None \<Rightarrow> Inr t
      | Some s \<Rightarrow>
          bind_result (av_load_rows st now (op_items st s PARKING) (fst t, s))
            (\<lambda>(t', s'). Inr (t', Some s')))"

definition av_is_available :: "avail \<Rightarrow> account_id \<Rightarrow> pyfloat \<Rightarrow> bool \<times> avail" where
  "av_is_available t a now =
     (case dict_get (av_parked t) a of
        None \<Rightarrow> (True, t)
      | Some p \<Rightarrow>
          if ps_quarantined p then (False, t)
          else (case ps_until p of
                  None \<Rightarrow> (False, t)
                | Some u \<Rightarrow> if now \<ge> u then (True, t\<lparr>av_parked := dict_del (av_parked t) a\<rparr>)
                            else (False, t)))"

definition av_set ::
  "'s storage_ops \<Rightarrow> avail \<times> 's option \<Rightarrow> account_id \<Rightarrow> park_state \<Rightarrow> avail \<times> 's option" where
  "av_set st t a p =
     ((fst t)\<lparr>av_parked := dict_set (av_parked (fst t)) a p\<rparr>,
      map_option (\<lambda>s. op_set st s PARKING a (park_to_json p)) (snd t))"

definition av_park ::
  "'s storage_ops \<Rightarrow> pyfloat \<Rightarrow> avail \<times> 's option \<Rightarrow> account_id \<Rightarrow> pyfloat option \<Rightarrow> string
     \<Rightarrow> avail \<times> 's option" where
  "av_park st now t a until reason =
     (let u = (case until of
                 None \<Rightarrow> now + av_default_cooldown (fst t)
               | Some u \<Rightarrow> if u \<le> now then now + av_default_cooldown (fst t) else u)
      in av_set st t a \<lparr>ps_until = Some u, ps_reason = reason, ps_quarantined = False\<rparr>)"

definition av_quarantine ::
  "'s storage_ops \<Rightarrow> avail \<times> 's option \<Rightarrow> account_id \<Rightarrow> string \<Rightarrow> avail \<times> 's option" where
  "av_quarantine st t a reason =
     av_set st t a \<lparr>ps_until = None, ps_reason = reason, ps_quarantined = True\<rparr>"

definition av_release ::
  "'s storage_ops \<Rightarrow> avail \<times> 's option \<Rightarrow> account_id \<Rightarrow> avail \<times> 's option" where
  "av_release st t a =
     ((fst t)\<lparr>av_parked := dict_del (av_parked (fst t)) a\<rparr>,
      map_option (\<lambda>s. op_delete st s PARKING a) (snd t))"

definition av_soonest_release :: "avail \<Rightarrow> pyfloat option" where
  "av_soonest_release t =
     (case List.map_filter (\<lambda>p. if ps_quarantined p then None else ps_until p) (dict_values (av_parked t)) of
        [] \<Rightarrow> None
      | u # us \<Rightarrow> Some (min_by id u us))"

definition av_on_limit ::
  "'s storage_ops \<Rightarrow> pyfloat \<Rightarrow> avail \<times> 's option \<Rightarrow> account_id option \<Rightarrow> json dict dict
     \<Rightarrow> py_error + avail \<times> 's option" where
  \<comment> \<open>\<open>on_limit\<close>: the fields \<open>account_id\<close> and \<open>windows\<close> of a \<open>LimitUpdatedEvent\<close>\<close>
  "av_on_limit st now t acc windows =
     (let h5 = dict_getd windows ''5h'' [];
          d7 = dict_getd windows ''7d'' [];
          a = or_default acc ''default''
      in bind_result (py_float (dict_getd h5 ''utilization'' (JFloat 0))) (\<lambda>u5.
           if u5 \<ge> av_threshold (fst t)
           then Inr (av_park st now t a (coerce_epoch (obj_get h5 ''resets_at'')) ''5h window exhausted'')
           else bind_result (py_float (dict_getd d7 ''utilization'' (JFloat 0))) (\<lambda>u7.
             if u7 \<ge> av_threshold (fst t)
             then Inr (av_park st now t a (coerce_epoch (obj_get d7 ''resets_at'')) ''7d window exhausted'')
             else Inr t)))"

definition av_on_expired ::
  "'s storage_ops \<Rightarrow> avail \<times> 's option \<Rightarrow> account_id option \<Rightarrow> string \<Rightarrow> avail \<times> 's option" where
  "av_on_expired st t acc reason =
     av_quarantine st t (or_default acc ''default'') (if reason = [] then ''session expired'' else reason)"

subsection \<open>Operation sequences\<close>

datatype av_op =
    Park pyfloat account_id "pyfloat option" string   \<comment> \<open>clock reading, account, until, reason\<close>
  | Quarantine pyfloat account_id string
  | Release pyfloat account_id
  | Query pyfloat account_id                          \<comment> \<open>a call of \<open>is_available\<close>\<close>

fun op_time :: "av_op \<Rightarrow> pyfloat" where
  "op_time (Park now _ _ _) = now"
| "op_time (Quarantine now _ _) = now"
| "op_time (Release now _) = now"
| "op_time (Query now _) = now"

fun av_step :: "'s storage_ops \<Rightarrow> avail \<times> 's option \<Rightarrow> av_op \<Rightarrow> avail \<times> 's option" where
  "av_step st t (Park now a u r) = av_park st now t a u r"
| "av_step st t (Quarantine now a r) = av_quarantine st t a r"
| "av_step st t (Release now a) = av_release st t a"
| "av_step st t (Query now a) = (snd (av_is_available (fst t) a now), snd t)"

definition av_run :: "'s storage_ops \<Rightarrow> avail \<times> 's option \<Rightarrow> av_op list \<Rightarrow> avail \<times> 's option" where
  "av_run st t ops = foldl (av_step st) t ops"

definition av_init :: "pyfloat \<Rightarrow> pyfloat \<Rightarrow> avail" where
  "av_init threshold cooldown =
     \<lparr>av_parked = [], av_threshold = threshold, av_default_cooldown = cooldown\<rparr>"

subsection \<open>Availability of an account\<close>

definition available_at :: "avail \<Rightarrow> account_id \<Rightarrow> pyfloat \<Rightarrow> bool" where
  "available_at t a now = fst (av_is_available t a now)"

lemma available_at_iff: "available_at t a now \<longleftrightarrow>
    (case map_of (av_parked t) a of None \<Rightarrow> True
     | Some p \<Rightarrow> \<not> ps_quarantined p \<and> (\<exists>u. ps_until p = Some u \<and> u \<le> now))"
  by (auto simp: available_at_def av_is_available_def split: option.splits)

lemma is_available_parked:
  "map_of (av_parked (snd (av_is_available t a now))) b =
     (if b = a \<and> available_at t a now then None else map_of (av_parked t) b)"
  by (auto simp: available_at_def av_is_available_def split: option.splits)

lemma is_available_fields [simp]:
  "av_threshold (snd (av_is_available t a now)) = av_threshold t"
  "av_default_cooldown (snd (av_is_available t a now)) = av_default_cooldown t"
  "dict_ok (av_parked t) \<Longrightarrow> dict_ok (av_parked (snd (av_is_available t a now)))"
  by (auto simp: av_is_available_def split: option.splits)

lemma is_available_stable:
  \<comment> \<open>asking does not change the answer to any later question\<close>
  "now \<le> now' \<Longrightarrow> available_at (snd (av_is_available t a now)) b now' = available_at t b now'"
  by (auto simp: available_at_iff is_available_parked split: option.splits)

lemma av_set_parked:
  "av_parked (fst (av_set st t a p)) = AList.update a p (av_parked (fst t))"
  by (simp add: av_set_def)

lemma available_after_set:
  "available_at (fst (av_set st t a p)) b now =
     (if b = a then \<not> ps_quarantined p \<and> (\<exists>u. ps_until p = Some u \<and> u \<le> now)
      else available_at (fst t) b now)"
  by (simp add: available_at_iff av_set_parked)

lemma available_after_release:
  "available_at (fst (av_release st t a)) b now = (b = a \<or> available_at (fst t) b now)"
  by (simp add: available_at_iff av_release_def)

lemma soonest_release_None:
  "av_soonest_release t = None \<longleftrightarrow> (\<forall>p \<in> set (map snd (av_parked t)). ps_quarantined p \<or> ps_until p = None)"
  unfolding av_soonest_release_def
  by (auto simp: List.map_filter_def list.case_eq_if filter_empty_conv split: if_splits)

lemma soonest_release_least:
  assumes "av_soonest_release t = Some u" and "p \<in> set (map snd (av_parked t))"
    and "\<not> ps_quarantined p" and "ps_until p = Some v"
  shows "u \<le> v"
proof -
  let ?us = "List.map_filter (\<lambda>p. if ps_quarantined p then None else ps_until p) (map snd (av_parked t))"
  have v: "v \<in> set ?us" using assms(2-4) by (force simp: List.map_filter_def)
  then obtain x xs where us: "?us = x # xs" by (cases ?us) auto
  with assms(1) have "u = min_by id x xs" by (simp add: av_soonest_release_def)
  moreover have "v \<in> insert x (set xs)" using v us by simp
  ultimately show ?thesis using min_by_least [of v x xs id] by simp
qed

subsection \<open>Rows of the storage\<close>

definition park_wf :: "park_state \<Rightarrow> bool" where
  \<comment> \<open>the states the tracker builds: indefinite exactly when quarantined\<close>
  "park_wf p \<longleftrightarrow> (ps_quarantined p \<longleftrightarrow> ps_until p = None)"

lemma park_of_to_json [simp]: "park_of_json (park_to_json p) = Inr p"
  by (cases p) (auto simp: park_of_json_def park_to_json_def split: option.splits)

lemma not_live_available:
  "park_wf p \<Longrightarrow> \<not> park_live now p \<Longrightarrow> now \<le> now' \<Longrightarrow>
     \<not> ps_quarantined p \<and> (\<exists>u. ps_until p = Some u \<and> u \<le> now')"
  by (auto simp: park_wf_def park_live_def split: option.splits)

lemma load_rows_ok:
  assumes "\<forall>(a, v) \<in> set rows. \<exists>p. v = park_to_json p" and "dict_ok rows"
  shows "\<exists>t' s'. av_load_rows st now rows (t, s) = Inr (t', s') \<and>
    av_threshold t' = av_threshold t \<and> av_default_cooldown t' = av_default_cooldown t \<and>
    (\<forall>b. map_of (av_parked t') b =
      (case map_of rows b of
         Some v \<Rightarrow> (case park_of_json v of Inr p \<Rightarrow> if park_live now p then Some p else map_of (av_parked t) b
                    | Inl e \<Rightarrow> None)
       | None \<Rightarrow> map_of (av_parked t) b))"
  using assms
proof (induction rows arbitrary: t s)
  case Nil
  then show ?case by simp
next
  case (Cons r rows)
  obtain a v where r: "r = (a, v)" by (cases r)
  from Cons.prems r obtain p where v: "v = park_to_json p" by auto
  have new: "map_of rows a = None" and ok: "dict_ok rows"
    using Cons.prems(2) r by (simp_all add: dict_ok_def map_of_eq_None_iff)
  let ?t = "if park_live now p then (t\<lparr>av_parked := AList.update a p (av_parked t)\<rparr>, s)
            else (t, op_delete st s PARKING a)"
  from Cons.prems(1) ok obtain t' s' where IH: "av_load_rows st now rows (fst ?t, snd ?t) = Inr (t', s')"
    "av_threshold t' = av_threshold (fst ?t)" "av_default_cooldown t' = av_default_cooldown (fst ?t)"
    "\<forall>b. map_of (av_parked t') b =
      (case map_of rows b of
         Some v \<Rightarrow> (case park_of_json v of Inr p \<Rightarrow> if park_live now p then Some p else map_of (av_parked (fst ?t)) b
                    | Inl e \<Rightarrow> None)
       | None \<Rightarrow> map_of (av_parked (fst ?t)) b)"
    using Cons.IH [of "fst ?t" "snd ?t"] by auto
  from IH(1) have run: "av_load_rows st now (r # rows) (t, s) = Inr (t', s')"
    using r v by (simp only: av_load_rows.simps park_of_to_json bind_result_simps fst_conv snd_conv prod.collapse)
  show ?case
    by (rule exI [of _ t'], rule exI [of _ s'], intro conjI allI)
       (use run IH(2-4) r v new in \<open>auto split: option.splits sum.splits\<close>)
qed

subsection \<open>A restart keeps the availability of every account\<close>

context base_storage
begin

definition av_mirror :: "pyfloat \<Rightarrow> avail \<times> 's \<Rightarrow> bool" where
  \<comment> \<open>at time \<open>now\<close>, every row is a park state the tracker wrote, which is in memory too or has expired\<close>
  "av_mirror now t \<longleftrightarrow> inv (snd t) \<and>
     (\<forall>a p. map_of (av_parked (fst t)) a = Some p \<longrightarrow>
        park_wf p \<and> map_of (op_items st (snd t) PARKING) a = Some (park_to_json p)) \<and>
     (\<forall>a v. map_of (op_items st (snd t) PARKING) a = Some v \<longrightarrow>
        (\<exists>p. v = park_to_json p \<and> park_wf p \<and>
             (map_of (av_parked (fst t)) a = None \<longrightarrow> \<not> park_live now p)))"

definition row_state :: "pyfloat \<Rightarrow> avail \<Rightarrow> account_id \<Rightarrow> json \<Rightarrow> park_state \<Rightarrow> bool" where
  \<comment> \<open>\<open>p\<close> is the park state of the row \<open>v\<close>, and the one in memory unless it has expired\<close>
  "row_state now t a v p \<longleftrightarrow> v = park_to_json p \<and> park_wf p \<and>
     (map_of (av_parked t) a = None \<longrightarrow> \<not> park_live now p) \<and>
     (\<forall>q. map_of (av_parked t) a = Some q \<longrightarrow> q = p)"

lemma av_mirror_row:
  assumes "av_mirror now (t, s)" and "map_of (op_items st s PARKING) a = Some v"
  shows "\<exists>p. row_state now t a v p"
proof -
  from assms obtain p where p: "v = park_to_json p" "park_wf p"
    "map_of (av_parked t) a = None \<longrightarrow> \<not> park_live now p"
    unfolding av_mirror_def fst_conv snd_conv by blast
  have "q = p" if "map_of (av_parked t) a = Some q" for q
  proof -
    have "map_of (op_items st s PARKING) a = Some (park_to_json q)"
      using assms(1) that unfolding av_mirror_def fst_conv snd_conv by blast
    with assms(2) p(1) have "park_to_json q = park_to_json p" by simp
    then show ?thesis by (metis Inr_inject park_of_to_json)
  qed
  with p have "row_state now t a v p" by (simp add: row_state_def)
  then show ?thesis ..
qed

lemma park_live_mono: "now \<le> now' \<Longrightarrow> \<not> park_live now p \<Longrightarrow> \<not> park_live now' p"
  by (auto simp: park_live_def split: option.splits)

lemma av_mirror_mono: "av_mirror now t \<Longrightarrow> now \<le> now' \<Longrightarrow> av_mirror now' t"
  unfolding av_mirror_def using park_live_mono by blast

lemma av_mirror_set:
  assumes "av_mirror now (t, s)" and "park_wf p"
  shows "\<exists>t' s'. av_set st (t, Some s) a p = (t', Some s') \<and> av_mirror now (t', s')"
  using assms by (auto simp: av_set_def av_mirror_def storage_simps)

lemma av_mirror_release:
  assumes "av_mirror now (t, s)"
  shows "\<exists>t' s'. av_release st (t, Some s) a = (t', Some s') \<and> av_mirror now (t', s')"
  using assms by (auto simp: av_release_def av_mirror_def storage_simps)

lemma av_mirror_query:
  assumes "av_mirror now (t, s)"
  shows "av_mirror now (snd (av_is_available t a now), s)"
proof -
  have "\<not> park_live now p" if "available_at t a now" "map_of (av_parked t) a = Some p" for p
    using that by (auto simp: available_at_iff park_live_def)
  then have dead: "\<not> park_live now p"
    if "map_of (av_parked (snd (av_is_available t a now))) b = None"
      "map_of (av_parked t) b = None \<Longrightarrow> \<not> park_live now p"
      "\<And>q. map_of (av_parked t) b = Some q \<Longrightarrow> q = p" for b p
    using that by (cases "map_of (av_parked t) b") (auto simp: is_available_parked split: if_splits)
  show ?thesis
    unfolding av_mirror_def fst_conv snd_conv
  proof (intro conjI allI impI)
    show "inv s" using assms by (simp add: av_mirror_def)
  next
    fix b p assume "map_of (av_parked (snd (av_is_available t a now))) b = Some p"
    then have "map_of (av_parked t) b = Some p" by (simp add: is_available_parked split: if_splits)
    with assms show "park_wf p" and "map_of (op_items st s PARKING) b = Some (park_to_json p)"
      by (auto simp: av_mirror_def)
  next
    fix b v assume "map_of (op_items st s PARKING) b = Some v"
    with assms obtain p where p: "row_state now t b v p" using av_mirror_row by blast
    have "\<not> park_live now p" if "map_of (av_parked (snd (av_is_available t a now))) b = None"
      by (rule dead [OF that]) (use p in \<open>auto simp only: row_state_def\<close>)
    with p show "\<exists>p. v = park_to_json p \<and> park_wf p \<and>
        (map_of (av_parked (snd (av_is_available t a now))) b = None \<longrightarrow> \<not> park_live now p)"
      by (intro exI [of _ p]) (simp add: row_state_def)
  qed
qed

lemma av_mirror_step:
  assumes "av_mirror now (t, s)" and "now \<le> op_time x"
  shows "\<exists>t' s'. av_step st (t, Some s) x = (t', Some s') \<and> av_mirror (op_time x) (t', s')"
proof -
  from assms have m: "av_mirror (op_time x) (t, s)" by (rule av_mirror_mono)
  then show ?thesis
    by (cases x) (auto simp: av_park_def av_quarantine_def Let_def park_wf_def
        intro!: av_mirror_set av_mirror_release av_mirror_query)
qed

lemma av_mirror_run:
  assumes "av_mirror now (t, s)" and "sorted (now # map op_time xs)"
  shows "\<exists>t' s'. av_run st (t, Some s) xs = (t', Some s') \<and> av_mirror (last (now # map op_time xs)) (t', s')"
  using assms
proof (induction xs arbitrary: now t s)
  case Nil
  then show ?case by (simp add: av_run_def)
next
  case (Cons x xs)
  then have "now \<le> op_time x" by simp
  with Cons.prems(1) obtain t1 s1 where 1: "av_step st (t, Some s) x = (t1, Some s1)"
    and m1: "av_mirror (op_time x) (t1, s1)" using av_mirror_step by blast
  from Cons.IH [OF m1] Cons.prems(2) obtain t' s' where
    "av_run st (t1, Some s1) xs = (t', Some s') \<and> av_mirror (last (op_time x # map op_time xs)) (t', s')"
    by auto
  with 1 show ?case by (auto simp: av_run_def)
qed

lemma av_init_parked: "map_of (av_parked (av_init th cd)) b = None"
  by (simp add: av_init_def)

lemma av_mirror_load:
  assumes m: "av_mirror now (t, s)" and le: "now \<le> now'"
  shows "\<exists>t' s'. av_load st now' (av_init th cd, Some s) = Inr (t', Some s') \<and>
    (\<forall>a n. now' \<le> n \<longrightarrow> available_at t' a n = available_at t a n)"
proof -
  let ?rows = "op_items st s PARKING"
  from m have inv: "inv s" by (simp add: av_mirror_def)
  then have ok: "dict_ok ?rows" by (rule items_ok)
  have rows: "\<forall>(a, v) \<in> set ?rows. \<exists>p. v = park_to_json p"
  proof clarify
    fix a v assume "(a, v) \<in> set ?rows"
    then have "map_of ?rows a = Some v" by (simp add: dict_get_in_iff [OF ok])
    with m obtain p where "row_state now t a v p" using av_mirror_row by blast
    then show "\<exists>p. v = park_to_json p" by (auto simp: row_state_def)
  qed
  obtain t' s' where load: "av_load_rows st now' ?rows (av_init th cd, s) = Inr (t', s')"
    and parked: "\<forall>b. map_of (av_parked t') b =
      (case map_of ?rows b of
         Some v \<Rightarrow> (case park_of_json v of Inr p \<Rightarrow> if park_live now' p then Some p else None | Inl e \<Rightarrow> None)
       | None \<Rightarrow> None)"
    using load_rows_ok [OF rows ok, of st now' "av_init th cd" s] 
    unfolding av_init_parked by blast
  have "available_at t' a n = available_at t a n" if n: "now' \<le> n" for a n
  proof (cases "map_of ?rows a")
    case None
    then have "map_of (av_parked t) a = None" using m
      by (cases "map_of (av_parked t) a") (auto simp: av_mirror_def)
    with None parked show ?thesis by (simp add: available_at_iff)
  next
    case (Some v)
    with m obtain p where "row_state now t a v p" using av_mirror_row by blast
    then have v: "v = park_to_json p" and wf: "park_wf p"
      and dead: "map_of (av_parked t) a = None \<Longrightarrow> \<not> park_live now p"
      and mem: "\<And>q. map_of (av_parked t) a = Some q \<Longrightarrow> q = p" by (auto simp: row_state_def)
    have free: "\<not> park_live now' p \<Longrightarrow> \<not> ps_quarantined p \<and> (\<exists>u. ps_until p = Some u \<and> u \<le> n)"
      using wf n by (intro not_live_available) auto
    show ?thesis
    proof (cases "map_of (av_parked t) a")
      case None
      then have "\<not> park_live now' p" using dead park_live_mono [OF le] by simp
      with None Some v parked show ?thesis by (simp add: available_at_iff)
    next
      case (Some q)
      with mem have "q = p" by blast
      with Some \<open>map_of ?rows a = Some v\<close> v parked free show ?thesis
        by (cases "park_live now' p") (auto simp: available_at_iff)
    qed
  qed
  moreover from load have "av_load st now' (av_init th cd, Some s) = Inr (t', Some s')"
    by (simp add: av_load_def)
  ultimately show ?thesis by blast
qed

lemma av_restart:
  assumes "inv s" and "\<And>a. map_of (op_items st s PARKING) a = None"
    and "sorted (map op_time xs @ [now])"
  shows "\<exists>t s1 t' s'. av_run st (av_init th cd, Some s) xs = (t, Some s1) \<and>
    av_load st now (av_init th cd, Some s1) = Inr (t', Some s') \<and>
    (\<forall>a n. now \<le> n \<longrightarrow> available_at t' a n = available_at t a n)"
proof -
  let ?n0 = "hd (map op_time xs @ [now])"
  have m0: "av_mirror ?n0 (av_init th cd, s)" using assms(1,2) by (simp add: av_mirror_def av_init_def)
  have srt: "sorted (?n0 # map op_time xs)" using assms(3) by (cases xs) (simp_all add: sorted_append)
  have "last (?n0 # map op_time xs) \<in> set (?n0 # map op_time xs)" by (rule last_in_set) simp
  moreover have "\<forall>x \<in> set (?n0 # map op_time xs). x \<le> now"
    using assms(3) by (cases xs) (simp_all add: sorted_append)
  ultimately have le: "last (?n0 # map op_time xs) \<le> now" by blast
  from av_mirror_run [OF m0 srt] obtain t s1 where
    1: "av_run st (av_init th cd, Some s) xs = (t, Some s1)"
    and m1: "av_mirror (last (?n0 # map op_time xs)) (t, s1)" by blast
  from av_mirror_load [OF m1 le] 1 show ?thesis by blast
qed

end

subsection \<open>The tracker over a history of operations\<close>

definition effective_until :: "pyfloat \<Rightarrow> pyfloat \<Rightarrow> pyfloat option \<Rightarrow> pyfloat" where
  \<comment> \<open>when a park made at \<open>now\<close> with the cooldown \<open>cd\<close> ends\<close>
  "effective_until cd now u = (case u of Some v \<Rightarrow> if v > now then v else now + cd | None \<Rightarrow> now + cd)"

fun avail_spec_step :: "pyfloat \<Rightarrow> (account_id \<Rightarrow> pyfloat \<Rightarrow> bool) \<Rightarrow> av_op \<Rightarrow> (account_id \<Rightarrow> pyfloat \<Rightarrow> bool)" where
  \<comment> \<open>specification: the availability of every account at every later time\<close>
  "avail_spec_step cd f (Park now a u r) = f(a := (\<lambda>n. effective_until cd now u \<le> n))"
| "avail_spec_step cd f (Quarantine now a r) = f(a := (\<lambda>n. False))"
| "avail_spec_step cd f (Release now a) = f(a := (\<lambda>n. True))"
| "avail_spec_step cd f (Query now a) = f"

definition avail_spec :: "pyfloat \<Rightarrow> av_op list \<Rightarrow> account_id \<Rightarrow> pyfloat \<Rightarrow> bool" where
  "avail_spec cd ops = foldl (avail_spec_step cd) (\<lambda>a n. True) ops"

lemma av_step_cooldown [simp]: "av_default_cooldown (fst (av_step st t x)) = av_default_cooldown (fst t)"
  by (cases x) (simp_all add: av_park_def av_quarantine_def av_release_def av_set_def Let_def)

lemma av_step_refines:
  assumes "\<And>a n. now \<le> n \<Longrightarrow> available_at (fst t) a n = f a n" and "now \<le> op_time x" and "op_time x \<le> n"
    and "av_default_cooldown (fst t) = cd"
  shows "available_at (fst (av_step st t x)) a n = avail_spec_step cd f x a n"
  using assms
  by (cases x) (auto simp: av_park_def av_quarantine_def Let_def available_after_set available_after_release
      is_available_stable effective_until_def split: option.splits)

lemma av_run_refines:
  assumes "\<And>a n. now \<le> n \<Longrightarrow> available_at (fst t) a n = f a n" and "sorted (now # map op_time xs)"
    and "av_default_cooldown (fst t) = cd" and "\<forall>x \<in> set (now # map op_time xs). x \<le> n"
  shows "available_at (fst (av_run st t xs)) a n = foldl (avail_spec_step cd) f xs a n"
  using assms
proof (induction xs arbitrary: now t f)
  case Nil
  then show ?case by (simp add: av_run_def)
next
  case (Cons x xs)
  have "available_at (fst (av_step st t x)) a n = avail_spec_step cd f x a n" if "op_time x \<le> n" for a n
    using av_step_refines [OF Cons.prems(1) _ that] Cons.prems(2,3) by simp
  from Cons.IH [of "op_time x" "av_step st t x" "avail_spec_step cd f x", OF this] Cons.prems(2-4)
  show ?case by (simp add: av_run_def)
qed

subsection \<open>Properties\<close>



text \<open>
  C13. Parking and quarantine survive a restart: a tracker that loads at time \<open>now\<close> the storage a
  previous tracker wrote gives the same answer as the previous one would, for every account and every time
  from \<open>now\<close> on, although the previous tracker never removed the rows of the parks it saw expire.
\<close>

theorem availability_survives_restart:
  assumes "mem_inv s" and "mem_items s PARKING = []" and "sorted (map op_time ops @ [now])"
  shows "\<exists>t s1 t' s'. av_run mem_ops (av_init th cd, Some s) ops = (t, Some s1) \<and>
    av_load mem_ops now (av_init th cd, Some s1) = Inr (t', Some s') \<and>
    (\<forall>a n. now \<le> n \<longrightarrow> available_at t' a n = available_at t a n)"
  by (rule mem.av_restart) (use assms in \<open>simp_all add: mem_ops_def\<close>)

theorem availability_survives_restart_witness:
  "\<exists>t s1 t' s'. av_run mem_ops (av_init 1 300, Some [])
      [Park 0 ''a'' None [], Quarantine 5 ''b'' [], Query 400 ''a''] = (t, Some s1) \<and>
    av_load mem_ops 500 (av_init 1 300, Some s1) = Inr (t', Some s') \<and>
    (\<forall>a n. 500 \<le> n \<longrightarrow> available_at t' a n = available_at t a n)"
  by (rule availability_survives_restart) (simp_all add: mem_items_def dict_getd_def)

text \<open>
  A rate-limit report on a quarantined account ends the quarantine: the park overwrites it, and the account
  becomes available when the park expires, without the explicit release the module's documentation
  requires.
\<close>

theorem quarantine_lost_on_limit:
  assumes "u5 \<ge> th" and "now < u" and "u \<le> 10 ^ 12" and "a \<noteq> []"
  shows "\<exists>t'. av_on_limit st now (av_quarantine st (av_init th cd, so) a r) (Some a)
      [(''5h'', [(''utilization'', JFloat u5), (''resets_at'', JFloat u)])] = Inr t' \<and>
    available_at (fst t') a u"
  using assms
  by (auto simp: av_on_limit_def av_quarantine_def av_init_def av_set_def av_park_def Let_def dict_getd_def
      obj_get_def coerce_epoch_def available_at_iff bind_result_simps or_default_def)

theorem quarantine_lost_on_limit_witness:
  "\<exists>t'. av_on_limit mem_ops 10 (av_quarantine mem_ops (av_init (98/100) 300, None) ''a'' ''401'') (Some ''a'')
      [(''5h'', [(''utilization'', JFloat 1), (''resets_at'', JFloat 20)])] = Inr t' \<and>
    available_at (fst t') ''a'' 20"
  by (rule quarantine_lost_on_limit) simp_all

end
