(* ===== verification/Trackers.thy ===== *)
theory Trackers
  imports Events Errors
begin

section \<open>Telemetry trackers of the orchestrator\<close>

text \<open>
  \<^verbatim>\<open>claude_ai/orchestrator/handlers.py\<close>: the bus handlers that derive in-memory state
  from the event stream. Each handler is a function from the tracker's state and the event's fields to
  the new state; the current time, which only the time stamps use, is an argument.
\<close>

subsection \<open>LimitTracker\<close>

record limit_snapshot =
  ls_utilization_5h :: pyfloat
  ls_utilization_7d :: pyfloat
  ls_resets_5h_at :: json
  ls_resets_7d_at :: json
  ls_representative_claim :: "string option"
  ls_overage_in_use :: bool
  ls_updated_at :: pyfloat

definition limit_snapshot_default :: "pyfloat \<Rightarrow> limit_snapshot" where
  "limit_snapshot_default now =
     \<lparr>ls_utilization_5h = 0, ls_utilization_7d = 0, ls_resets_5h_at = JNull, ls_resets_7d_at = JNull,
      ls_representative_claim = None, ls_overage_in_use = False, ls_updated_at = now\<rparr>"

definition snapshot_score :: "limit_snapshot \<Rightarrow> pyfloat" where
  "snapshot_score s = max (ls_utilization_5h s) (ls_utilization_7d s)"

type_synonym limit_tracker = "limit_snapshot dict"

definition limit_get :: "limit_tracker \<Rightarrow> account_id \<Rightarrow> pyfloat \<Rightarrow> limit_snapshot" where
  "limit_get t a now = dict_getd t a (limit_snapshot_default now)"

definition limit_on_event ::
  "limit_tracker \<Rightarrow> account_id option \<Rightarrow> json dict dict \<Rightarrow> string option \<Rightarrow> bool \<Rightarrow> pyfloat
     \<Rightarrow> py_error + limit_tracker" where
  \<comment> \<open>\<open>LimitTracker.on_event\<close> on the fields of a \<open>LimitUpdatedEvent\<close>\<close>
  "limit_on_event t acc windows claim overage now =
     (let a = or_default acc ''default'';
          h5 = dict_getd windows ''5h'' [];
          d7 = dict_getd windows ''7d'' []
      in bind_result (py_float (dict_getd h5 ''utilization'' (JFloat 0))) (\<lambda>u5.
         bind_result (py_float (dict_getd d7 ''utilization'' (JFloat 0))) (\<lambda>u7.
           Inr (dict_set t a
             \<lparr>ls_utilization_5h = u5, ls_utilization_7d = u7,
              ls_resets_5h_at = obj_get h5 ''resets_at'', ls_resets_7d_at = obj_get d7 ''resets_at'',
              ls_representative_claim = claim, ls_overage_in_use = overage, ls_updated_at = now\<rparr>))))"

subsection \<open>MessageMetrics\<close>

record account_metrics =
  am_started :: int
  am_completed :: int
  am_failed :: int
  am_output_tokens :: int
  am_by_model :: "int dict"
  am_last_completed_at :: "pyfloat option"

definition account_metrics_default :: account_metrics where
  "account_metrics_default =
     \<lparr>am_started = 0, am_completed = 0, am_failed = 0, am_output_tokens = 0, am_by_model = [],
      am_last_completed_at = None\<rparr>"

type_synonym message_metrics = "account_metrics dict"

definition metrics_get :: "message_metrics \<Rightarrow> account_id \<Rightarrow> account_metrics" where
  "metrics_get t a = dict_getd t a account_metrics_default"

definition in_flight :: "message_metrics \<Rightarrow> account_id \<Rightarrow> int" where
  "in_flight t a =
     (case dict_get t a of
        None \<Rightarrow> 0
      | Some m \<Rightarrow> max (am_started m - am_completed m - am_failed m) 0)"

definition metrics_on_started :: "message_metrics \<Rightarrow> account_id option \<Rightarrow> string \<Rightarrow> message_metrics" where
  "metrics_on_started t acc model =
     (let a = or_default acc ''default'';
          m = metrics_get t a;
          m1 = m\<lparr>am_started := am_started m + 1\<rparr>
      in dict_set t a
           (if model = [] then m1
            else m1\<lparr>am_by_model := dict_set (am_by_model m) model (dict_getd (am_by_model m) model 0 + 1)\<rparr>))"

definition metrics_on_complete ::
  "message_metrics \<Rightarrow> account_id option \<Rightarrow> int \<Rightarrow> pyfloat \<Rightarrow> message_metrics" where
  "metrics_on_complete t acc tokens now =
     (let a = or_default acc ''default''; m = metrics_get t a
      in dict_set t a (m\<lparr>am_completed := am_completed m + 1,
                         am_output_tokens := am_output_tokens m + tokens,
                         am_last_completed_at := Some now\<rparr>))"

subsection \<open>ProxyBlacklist\<close>

record proxy_record =
  pr_url :: string
  pr_reason :: string
  pr_fail_count :: int
  pr_first_seen_at :: pyfloat
  pr_last_seen_at :: pyfloat

type_synonym proxy_blacklist = "proxy_record dict"

definition is_blacklisted :: "proxy_blacklist \<Rightarrow> string \<Rightarrow> bool" where
  "is_blacklisted t url \<longleftrightarrow> dict_get t url \<noteq> None"

definition proxies_clear :: "proxy_blacklist \<Rightarrow> proxy_blacklist" where
  "proxies_clear t = []"

definition proxies_on_invalid :: "proxy_blacklist \<Rightarrow> string \<Rightarrow> string \<Rightarrow> pyfloat \<Rightarrow> proxy_blacklist" where
  "proxies_on_invalid t url reason now =
     (if url = [] then t
      else (case dict_get t url of
              None \<Rightarrow> dict_set t url \<lparr>pr_url = url, pr_reason = reason, pr_fail_count = 1,
                                      pr_first_seen_at = now, pr_last_seen_at = now\<rparr>
            | Some r \<Rightarrow> dict_set t url (r\<lparr>pr_fail_count := pr_fail_count r + 1,
                                          pr_reason := (if reason = [] then pr_reason r else reason),
                                          pr_last_seen_at := now\<rparr>)))"

subsection \<open>StreamRecorder\<close>

record stream_recorder =
  sr_max :: int
  sr_buffers :: "stream_event option list dict"

definition last_n :: "nat \<Rightarrow> 'a list \<Rightarrow> 'a list" where
  "last_n n xs = drop (length xs - n) xs"

definition deque_append :: "nat \<Rightarrow> 'a list \<Rightarrow> 'a \<Rightarrow> 'a list" where
  \<comment> \<open>\<open>append\<close> on a \<open>deque(maxlen=n)\<close>: a full deque drops its oldest element, a deque of
     length zero stays empty\<close>
  "deque_append n xs x =
     (if n = 0 then []
      else if length xs < n then xs @ [x]
      else drop (length xs + 1 - n) xs @ [x])"

definition recorder_chunks :: "stream_recorder \<Rightarrow> string \<Rightarrow> stream_event option list" where
  "recorder_chunks t conv = dict_getd (sr_buffers t) conv []"

definition recorder_clear :: "stream_recorder \<Rightarrow> string option \<Rightarrow> stream_recorder" where
  "recorder_clear t conv =
     (case conv of
        None \<Rightarrow> t\<lparr>sr_buffers := []\<rparr>
      | Some c \<Rightarrow> t\<lparr>sr_buffers := dict_del (sr_buffers t) c\<rparr>)"

definition recorder_on_chunk ::
  "stream_recorder \<Rightarrow> string \<Rightarrow> stream_event option \<Rightarrow> py_error + stream_recorder" where
  \<comment> \<open>the missing buffer is made by \<open>deque(maxlen=self._max)\<close>, which refuses a negative bound\<close>
  "recorder_on_chunk t conv e =
     (if sr_max t < 0 then Inl (ValueError ''maxlen must be non-negative'')
      else Inr (t\<lparr>sr_buffers := dict_set (sr_buffers t) conv
                    (deque_append (nat (sr_max t)) (recorder_chunks t conv) e)\<rparr>))"

subsection \<open>The trackers over a history of events\<close>

datatype metric_event = MStarted "account_id option" string | MComplete "account_id option" int pyfloat

fun metrics_step :: "message_metrics \<Rightarrow> metric_event \<Rightarrow> message_metrics" where
  "metrics_step t (MStarted acc model) = metrics_on_started t acc model"
| "metrics_step t (MComplete acc tokens now) = metrics_on_complete t acc tokens now"

definition metrics_run :: "metric_event list \<Rightarrow> message_metrics" where
  "metrics_run es = foldl metrics_step [] es"

definition starts_of :: "account_id \<Rightarrow> metric_event list \<Rightarrow> metric_event list" where
  "starts_of a es = filter (\<lambda>e. case e of MStarted acc _ \<Rightarrow> or_default acc ''default'' = a | _ \<Rightarrow> False) es"

definition completes_of :: "account_id \<Rightarrow> metric_event list \<Rightarrow> metric_event list" where
  "completes_of a es = filter (\<lambda>e. case e of MComplete acc _ _ \<Rightarrow> or_default acc ''default'' = a | _ \<Rightarrow> False) es"

definition tokens_of :: "metric_event \<Rightarrow> int" where
  "tokens_of e = (case e of MComplete _ k _ \<Rightarrow> k | _ \<Rightarrow> 0)"

lemma metrics_get_step:
  "metrics_get (metrics_on_started t acc model) a =
     (if a = or_default acc ''default''
      then (metrics_get t a)\<lparr>am_started := am_started (metrics_get t a) + 1,
             am_by_model := (if model = [] then am_by_model (metrics_get t a)
               else dict_set (am_by_model (metrics_get t a)) model
                      (dict_getd (am_by_model (metrics_get t a)) model 0 + 1))\<rparr>
      else metrics_get t a)"
  "metrics_get (metrics_on_complete t acc tokens now) a =
     (if a = or_default acc ''default''
      then (metrics_get t a)\<lparr>am_completed := am_completed (metrics_get t a) + 1,
             am_output_tokens := am_output_tokens (metrics_get t a) + tokens,
             am_last_completed_at := Some now\<rparr>
      else metrics_get t a)"
  by (simp_all add: metrics_get_def metrics_on_started_def metrics_on_complete_def Let_def dict_getd_def)

lemma metrics_run_counts:
  "am_started (metrics_get (metrics_run es) a) = int (length (starts_of a es)) \<and>
   am_completed (metrics_get (metrics_run es) a) = int (length (completes_of a es)) \<and>
   am_failed (metrics_get (metrics_run es) a) = 0 \<and>
   am_output_tokens (metrics_get (metrics_run es) a) = sum_list (map tokens_of (completes_of a es))"
proof (induction es rule: rev_induct)
  case Nil
  then show ?case
    by (simp add: metrics_run_def metrics_get_def dict_getd_def account_metrics_default_def
        starts_of_def completes_of_def)
next
  case (snoc e es)
  then show ?case
    by (cases e) (auto simp: metrics_run_def metrics_get_step starts_of_def completes_of_def tokens_of_def)
qed

lemma in_flight_get: "in_flight t a = (let m = metrics_get t a in max (am_started m - am_completed m - am_failed m) 0)"
  by (auto simp: in_flight_def metrics_get_def dict_getd_def account_metrics_default_def split: option.splits)

lemma metrics_in_flight:
  "in_flight (metrics_run es) a = max (int (length (starts_of a es)) - int (length (completes_of a es))) 0"
  using metrics_run_counts [of es a] by (simp add: in_flight_get Let_def)

lemma last_n_snoc: "last_n (Suc n) (xs @ [x]) = last_n n xs @ [x]"
  by (simp add: last_n_def)

lemma length_last_n [simp]: "length (last_n n xs) = min n (length xs)"
  by (simp add: last_n_def)

lemma deque_append_last_n: "deque_append n (last_n n xs) x = last_n n (xs @ [x])"
proof (cases n)
  case 0
  then show ?thesis by (simp add: deque_append_def last_n_def)
next
  case (Suc k)
  have "drop (length (last_n n xs) + 1 - n) (last_n n xs) = last_n k xs" if "\<not> length (last_n n xs) < n"
  proof -
    from that Suc have "Suc (length xs - Suc k) = length xs - k" by simp
    with that Suc show ?thesis by (simp add: last_n_def)
  qed
  moreover have "last_n n xs = last_n k xs" if "length (last_n n xs) < n"
    using that Suc by (simp add: last_n_def)
  ultimately show ?thesis using Suc by (simp add: deque_append_def last_n_snoc)
qed

fun recorder_run :: "stream_recorder \<Rightarrow> (string \<times> stream_event option) list \<Rightarrow> py_error + stream_recorder" where
  "recorder_run t [] = Inr t"
| "recorder_run t ((c, e) # es) = bind_result (recorder_on_chunk t c e) (\<lambda>t'. recorder_run t' es)"

lemma recorder_run_ring:
  assumes "sr_max t \<ge> 0" and "\<And>c. recorder_chunks t c = last_n (nat (sr_max t)) (h c)"
  shows "\<exists>t'. recorder_run t es = Inr t' \<and> sr_max t' = sr_max t \<and>
    (\<forall>c. recorder_chunks t' c = last_n (nat (sr_max t)) (h c @ map snd (filter (\<lambda>x. fst x = c) es)))"
  using assms
proof (induction es arbitrary: t h)
  case Nil
  then show ?case by simp
next
  case (Cons x es)
  obtain c e where x: "x = (c, e)" by (cases x)
  define t1 where "t1 = t\<lparr>sr_buffers := dict_set (sr_buffers t) c
    (deque_append (nat (sr_max t)) (recorder_chunks t c) e)\<rparr>"
  have step: "recorder_run t (x # es) = recorder_run t1 es"
    using Cons.prems(1) x by (simp add: recorder_on_chunk_def t1_def bind_result_simps)
  have m: "sr_max t1 = sr_max t" by (simp add: t1_def)
  have "recorder_chunks t1 c' = last_n (nat (sr_max t1)) (h c' @ (if c' = c then [e] else []))" for c'
    using Cons.prems(2) [of c'] deque_append_last_n [of "nat (sr_max t)" "h c" e]
    by (auto simp: t1_def recorder_chunks_def)
  from Cons.IH [OF _ this] Cons.prems(1) m show ?case
    unfolding step by (auto simp: x)
qed

lemma proxies_fail_count:
  "url \<noteq> [] \<Longrightarrow> (case dict_get (proxies_on_invalid t url reason now) url of
      Some r \<Rightarrow> pr_fail_count r = (case dict_get t url of None \<Rightarrow> 1 | Some r0 \<Rightarrow> pr_fail_count r0 + 1)
    | None \<Rightarrow> False)"
  by (simp add: proxies_on_invalid_def split: option.splits)

subsection \<open>Properties\<close>

text \<open>
  The bulkhead signal: over any history of started and completed messages, \<open>in_flight\<close> is the number of
  messages of the account that were started and not yet completed (never below zero), and the
  account's output tokens are the sum over its completed messages.
\<close>

theorem message_metrics_history:
  "in_flight (metrics_run es) a = max (int (length (starts_of a es)) - int (length (completes_of a es))) 0 \<and>
   am_output_tokens (metrics_get (metrics_run es) a) = sum_list (map tokens_of (completes_of a es))"
  using metrics_run_counts [of es a] metrics_in_flight [of es a] by simp

text \<open>
  The stream recorder is a ring buffer per conversation: after any sequence of chunks it holds exactly the
  last \<open>max_chunks_per_conv\<close> chunks of each conversation, in order.
\<close>

theorem stream_recorder_ring:
  assumes "0 \<le> m"
  shows "\<exists>t. recorder_run \<lparr>sr_max = m, sr_buffers = []\<rparr> es = Inr t \<and>
    (\<forall>c. recorder_chunks t c = last_n (nat m) (map snd (filter (\<lambda>x. fst x = c) es)))"
  using recorder_run_ring [of "\<lparr>sr_max = m, sr_buffers = []\<rparr>" "\<lambda>c. []" es] assms
  by (auto simp: recorder_chunks_def dict_getd_def last_n_def)

theorem stream_recorder_ring_witness:
  "\<exists>t. recorder_run \<lparr>sr_max = 1, sr_buffers = []\<rparr> [(''c'', None), (''c'', Some (MessageStop []))] = Inr t \<and>
    (\<forall>c. recorder_chunks t c = last_n (nat 1) (map snd (filter (\<lambda>x. fst x = c)
      [(''c'', None), (''c'', Some (MessageStop []))])))"
  by (rule stream_recorder_ring) simp

end
