(* ===== verification/Middleware.thy ===== *)
theory Middleware
  imports Errors
begin

section \<open>Middleware chains and the HTTP middlewares\<close>

text \<open>
  \<^verbatim>\<open>claude_ai/middleware/\<close> and the request and response classes of
  \<^verbatim>\<open>claude_ai/transport/base.py\<close>. A handler is a function of the event, the \<open>data\<close>
  dictionary and the state \<open>'w\<close> of everything it may change; it returns a value or raises. A
  middleware is a function of the next handler. The containers hold middleware references \<open>'m\<close>,
  which Python compares by identity; \<open>run\<close> gives the behaviour of a reference.
\<close>

type_synonym ('e, 'd, 'r, 'w) next_handler = "'e \<Rightarrow> 'd \<Rightarrow> 'w \<Rightarrow> (exn + 'r) \<times> 'w"
type_synonym ('e, 'd, 'r, 'w) middleware = "('e, 'd, 'r, 'w) next_handler \<Rightarrow> ('e, 'd, 'r, 'w) next_handler"

subsection \<open>Chains\<close>

fun build_rev ::
  "('e, 'd, 'r, 'w) middleware list \<Rightarrow> ('e, 'd, 'r, 'w) next_handler \<Rightarrow> ('e, 'd, 'r, 'w) next_handler" where
  \<comment> \<open>the loop of \<open>MiddlewareChain._build\<close> over the reversed list\<close>
  "build_rev [] chain = chain"
| "build_rev (mw # mws) chain = build_rev mws (\<lambda>e d w. mw chain e d w)"

definition build_chain ::
  "('e, 'd, 'r, 'w) middleware list \<Rightarrow> ('e, 'd, 'r, 'w) next_handler \<Rightarrow> ('e, 'd, 'r, 'w) next_handler" where
  "build_chain mws terminal = build_rev (rev mws) terminal"

record 'm middleware_manager =
  mm_scope :: string
  mm_stack :: "'m list"

definition manager_use :: "'m middleware_manager \<Rightarrow> 'm \<Rightarrow> 'm middleware_manager" where
  "manager_use m x = m\<lparr>mm_stack := mm_stack m @ [x]\<rparr>"

definition py_insert :: "'a list \<Rightarrow> int \<Rightarrow> 'a \<Rightarrow> 'a list" where
  \<comment> \<open>\<open>list.insert\<close>: a negative index counts from the end, and both ends clamp\<close>
  "py_insert xs i x =
     (let n = int (length xs); j = (if i < 0 then max 0 (i + n) else min i n)
      in take (nat j) xs @ [x] @ drop (nat j) xs)"

definition manager_insert :: "'m middleware_manager \<Rightarrow> int \<Rightarrow> 'm \<Rightarrow> 'm middleware_manager" where
  "manager_insert m i x = m\<lparr>mm_stack := py_insert (mm_stack m) i x\<rparr>"

definition manager_remove :: "'m middleware_manager \<Rightarrow> 'm \<Rightarrow> bool \<times> 'm middleware_manager" where
  "manager_remove m x =
     (if x \<in> set (mm_stack m) then (True, m\<lparr>mm_stack := remove1 x (mm_stack m)\<rparr>) else (False, m))"

definition manager_clear :: "'m middleware_manager \<Rightarrow> 'm middleware_manager" where
  "manager_clear m = m\<lparr>mm_stack := []\<rparr>"

definition manager_chain ::
  "('m \<Rightarrow> ('e, 'd, 'r, 'w) middleware) \<Rightarrow> 'm middleware_manager \<Rightarrow> ('e, 'd, 'r, 'w) next_handler
     \<Rightarrow> ('e, 'd, 'r, 'w) next_handler" where
  "manager_chain run m terminal = build_chain (map run (mm_stack m)) terminal"

type_synonym 'm middleware_registry = "'m middleware_manager dict"

definition registry_get :: "'m middleware_registry \<Rightarrow> string \<Rightarrow> 'm middleware_manager \<times> 'm middleware_registry" where
  \<comment> \<open>\<open>MiddlewareRegistry.get\<close>; \<open>http()\<close>, \<open>stream()\<close> and \<open>events()\<close> are its calls on three names\<close>
  "registry_get r scope =
     (case dict_get r scope of
        Some m \<Rightarrow> (m, r)
      | None \<Rightarrow> (let m = \<lparr>mm_scope = scope, mm_stack = []\<rparr> in (m, dict_set r scope m)))"

definition registry_clear :: "'m middleware_registry \<Rightarrow> string option \<Rightarrow> 'm middleware_registry" where
  "registry_clear r scope =
     (case scope of
        None \<Rightarrow> map (\<lambda>(k, m). (k, manager_clear m)) r
      | Some s \<Rightarrow> (case dict_get r s of None \<Rightarrow> r | Some m \<Rightarrow> dict_set r s (manager_clear m)))"

lemma build_rev_append: "build_rev (xs @ ys) t = build_rev ys (build_rev xs t)"
  by (induction xs arbitrary: t) auto

lemma build_chain_simps [simp]:
  "build_chain [] t = t"
  "build_chain (mw # mws) t = mw (build_chain mws t)"
  by (auto simp: build_chain_def build_rev_append)

lemma build_chain_foldr: "build_chain mws t = foldr (\<lambda>mw nxt. mw nxt) mws t"
  by (induction mws) auto

lemma manager_chain_use:
  "manager_chain run (manager_use m x) t = manager_chain run m (run x t)"
  by (simp add: manager_chain_def manager_use_def build_chain_foldr)

lemma registry_get_scope:
  "(\<And>s m. map_of r s = Some m \<Longrightarrow> mm_scope m = s) \<Longrightarrow> mm_scope (fst (registry_get r scope)) = scope"
  "map_of (snd (registry_get r scope)) scope = Some (fst (registry_get r scope))"
  by (auto simp: registry_get_def Let_def split: option.splits)

subsection \<open>Requests and responses\<close>

record transport_request =
  tq_method :: string
  tq_url :: string
  tq_headers :: "string dict"
  tq_params :: "json dict option"
  tq_json :: "json dict option"
  tq_content :: "string option"
  tq_files :: "(string \<times> string \<times> string) dict option"
  tq_stream :: bool

record transport_response =
  ts_status_code :: int
  ts_headers :: "string dict"
  ts_content :: string
  ts_text :: string
  ts_json_body :: json

subsection \<open>RetryMiddleware\<close>

definition RETRYABLE_STATUSES :: "int list" where
  "RETRYABLE_STATUSES = [429, 500, 502, 503, 504]"

definition IDEMPOTENT_METHODS :: "string list" where
  "IDEMPOTENT_METHODS = [''GET'', ''HEAD'', ''OPTIONS'', ''PUT'', ''DELETE'']"

fun retryable_exception :: "exn \<Rightarrow> bool" where
  \<comment> \<open>\<open>RETRYABLE_EXCEPTIONS\<close>: the three \<open>httpx\<close> classes\<close>
  "retryable_exception (OtherException cls m) = (cls \<in> {''ConnectError'', ''ReadTimeout'', ''WriteTimeout''})"
| "retryable_exception _ = False"

record retry_config =
  rt_max_retries :: int
  rt_backoff :: pyfloat
  rt_retry_non_idempotent :: bool

definition retry_delay :: "retry_config \<Rightarrow> pyfloat \<Rightarrow> nat \<Rightarrow> pyfloat" where
  \<comment> \<open>\<open>_delay\<close>; \<open>jitter\<close> is what \<open>random.uniform(0, 0.5)\<close> gives\<close>
  "retry_delay cfg jitter attempt = rt_backoff cfg * 2 ^ attempt + jitter"

definition parse_retry_after :: "retry_config \<Rightarrow> pyfloat \<Rightarrow> transport_response \<Rightarrow> nat \<Rightarrow> pyfloat" where
  "parse_retry_after cfg jitter resp attempt =
     (case dict_get (ts_headers resp) ''retry-after'' of
        None \<Rightarrow> retry_delay cfg jitter attempt
      | Some v \<Rightarrow>
          if v = [] then retry_delay cfg jitter attempt
          else (case float_of_string v of Some r \<Rightarrow> r | None \<Rightarrow> retry_delay cfg jitter attempt))"

definition retry_idempotent :: "retry_config \<Rightarrow> transport_request \<Rightarrow> bool" where
  "retry_idempotent cfg req \<longleftrightarrow>
     upper_ascii (tq_method req) \<in> set IDEMPOTENT_METHODS \<or> rt_retry_non_idempotent cfg"

fun retry_loop ::
  "retry_config \<Rightarrow> (nat \<Rightarrow> pyfloat) \<Rightarrow> (pyfloat \<Rightarrow> 'w \<Rightarrow> 'w)
     \<Rightarrow> (transport_request, 'd, transport_response, 'w) next_handler \<Rightarrow> transport_request \<Rightarrow> 'd
     \<Rightarrow> nat list \<Rightarrow> transport_response option \<Rightarrow> 'w \<Rightarrow> (exn + transport_response) \<times> 'w" where
  \<comment> \<open>the \<open>for attempt in range(...)\<close> loop over the attempts still to make, with the variable
     \<open>last_response\<close>; \<open>sleep\<close> is the effect of \<open>asyncio.sleep\<close> on the state\<close>
  "retry_loop cfg jit sleep handler req d [] last_response w =
     (case last_response of
        None \<Rightarrow> (Inl (Py (RuntimeError ''Retry loop exited without response or exception'')), w)
      | Some r \<Rightarrow> (Inr r, w))"
| "retry_loop cfg jit sleep handler req d (a # as) last_response w =
     (case handler req d w of
        (Inl e, w') \<Rightarrow>
          if retryable_exception e
          then (if int a = rt_max_retries cfg \<or> \<not> retry_idempotent cfg req then (Inl e, w')
                else retry_loop cfg jit sleep handler req d as last_response
                       (sleep (retry_delay cfg (jit a) a) w'))
          else (Inl e, w')
      | (Inr r, w') \<Rightarrow>
          if \<not> retry_idempotent cfg req \<or> ts_status_code r \<notin> set RETRYABLE_STATUSES \<or> int a = rt_max_retries cfg
          then (Inr r, w')
          else retry_loop cfg jit sleep handler req d as (Some r)
                 (sleep (parse_retry_after cfg (jit a) r a) w'))"

definition retry_middleware ::
  "retry_config \<Rightarrow> (nat \<Rightarrow> pyfloat) \<Rightarrow> (pyfloat \<Rightarrow> 'w \<Rightarrow> 'w)
     \<Rightarrow> (transport_request, 'd, transport_response, 'w) middleware" where
  "retry_middleware cfg jit sleep handler req d w =
     retry_loop cfg jit sleep handler req d [0..<nat (rt_max_retries cfg + 1)] None w"

subsection \<open>RateLimitMiddleware\<close>

definition rate_limit_slot :: "pyfloat \<Rightarrow> pyfloat \<Rightarrow> pyfloat \<Rightarrow> pyfloat \<times> pyfloat" where
  \<comment> \<open>the block under the lock: from \<open>min_interval\<close>, \<open>last_request\<close> and the clock
     reading, the time to wait and the new \<open>last_request\<close>\<close>
  "rate_limit_slot min_interval prev now =
     (let elapsed = now - prev;
          wait = (if elapsed < min_interval then min_interval - elapsed else 0)
      in (wait, now + wait))"

definition rate_limit_middleware ::
  "pyfloat \<Rightarrow> ('w \<Rightarrow> pyfloat) \<Rightarrow> ('w \<Rightarrow> pyfloat) \<Rightarrow> (pyfloat \<Rightarrow> 'w \<Rightarrow> 'w) \<Rightarrow> (pyfloat \<Rightarrow> 'w \<Rightarrow> 'w)
     \<Rightarrow> ('e, 'd, 'r, 'w) middleware" where
  \<comment> \<open>\<open>clock\<close> and \<open>sleep\<close> are the clock and the wait of the state, \<open>prev\<close> and \<open>set_last\<close> access
     the field \<open>_last_request\<close> in it\<close>
  "rate_limit_middleware min_interval clock prev set_last sleep handler e d w =
     (let (wait, prev') = rate_limit_slot min_interval (prev w) (clock w);
          w1 = set_last prev' w;
          w2 = (if wait > 0 then sleep wait w1 else w1)
      in handler e d w2)"

definition logging_middleware :: "('e, 'd, 'r, 'w) middleware" where
  \<comment> \<open>the log lines are not modelled\<close>
  "logging_middleware handler e d w = handler e d w"

subsection \<open>What the retries amount to\<close>

definition retry_final :: "retry_config \<Rightarrow> transport_request \<Rightarrow> exn + transport_response \<Rightarrow> bool" where
  \<comment> \<open>an outcome the loop does not retry\<close>
  "retry_final cfg req out \<longleftrightarrow> \<not> retry_idempotent cfg req \<or>
     (case out of Inl e \<Rightarrow> \<not> retryable_exception e | Inr r \<Rightarrow> ts_status_code r \<notin> set RETRYABLE_STATUSES)"

definition scripted :: "(nat \<Rightarrow> exn + 'r) \<Rightarrow> ('e, 'd, 'r, nat) next_handler" where
  \<comment> \<open>a handler whose i-th call has the i-th outcome of a script; the state counts the calls\<close>
  "scripted f e d n = (f n, Suc n)"

lemma retry_loop_scripted:
  assumes "int m = rt_max_retries cfg" and "a \<le> m"
  shows "\<exists>k. a \<le> k \<and> k \<le> m \<and> (\<forall>j. a \<le> j \<and> j < k \<longrightarrow> \<not> retry_final cfg req (f j)) \<and>
    (retry_final cfg req (f k) \<or> k = m) \<and>
    retry_loop cfg jit (\<lambda>t n. n) (scripted f) req d [a..<Suc m] prev a = (f k, Suc k)"
  using assms(2)
proof (induction "m - a" arbitrary: a prev)
  case 0
  then have a: "a = m" by simp
  show ?case
    by (rule exI [of _ m]) (use assms(1) a in \<open>auto simp: scripted_def split: sum.splits\<close>)
next
  case (Suc n)
  then have lt: "a < m" and n: "n = m - Suc a" by auto
  have upt: "[a..<Suc m] = a # [Suc a..<Suc m]" using lt by (simp add: upt_conv_Cons)
  show ?case
  proof (cases "retry_final cfg req (f a)")
    case True
    then have "retry_loop cfg jit (\<lambda>t n. n) (scripted f) req d [a..<Suc m] prev a = (f a, Suc a)"
      unfolding upt by (cases "f a") (auto simp: scripted_def retry_final_def)
    with True lt show ?thesis by (intro exI [of _ a]) auto
  next
    case False
    from Suc.hyps(1) [OF n Suc_leI [OF lt], of "case f a of Inl e \<Rightarrow> prev | Inr r \<Rightarrow> Some r"] obtain k where
      k: "Suc a \<le> k" "k \<le> m" "\<forall>j. Suc a \<le> j \<and> j < k \<longrightarrow> \<not> retry_final cfg req (f j)"
         "retry_final cfg req (f k) \<or> k = m"
      and run: "retry_loop cfg jit (\<lambda>t n. n) (scripted f) req d [Suc a..<Suc m]
        (case f a of Inl e \<Rightarrow> prev | Inr r \<Rightarrow> Some r) (Suc a) = (f k, Suc k)" by blast
    have "retry_loop cfg jit (\<lambda>t n. n) (scripted f) req d [a..<Suc m] prev a = (f k, Suc k)"
      using False lt assms(1) run unfolding upt
      by (cases "f a") (auto simp: scripted_def retry_final_def)
    moreover have "\<not> retry_final cfg req (f j)" if "a \<le> j" "j < k" for j
      using that False k(3) by (cases "j = a") auto
    ultimately show ?thesis using k by (intro exI [of _ k]) auto
  qed
qed

lemma retry_middleware_scripted:
  assumes "rt_max_retries cfg \<ge> 0"
  shows "\<exists>k. int k \<le> rt_max_retries cfg \<and> (\<forall>j < k. \<not> retry_final cfg req (f j)) \<and>
    (retry_final cfg req (f k) \<or> int k = rt_max_retries cfg) \<and>
    retry_middleware cfg jit (\<lambda>t n. n) (scripted f) req d 0 = (f k, Suc k)"
proof -
  define m where "m = nat (rt_max_retries cfg)"
  have m: "int m = rt_max_retries cfg" using assms by (simp add: m_def)
  then have *: "nat (rt_max_retries cfg + 1) = Suc m" by simp
  from retry_loop_scripted [OF m, of 0 req f jit d None] show ?thesis
    unfolding retry_middleware_def * unfolding m [symmetric] by (auto simp del: upt_Suc)
qed

subsection \<open>What the rate limiter guarantees\<close>

fun rate_limit_starts :: "pyfloat \<Rightarrow> pyfloat \<Rightarrow> pyfloat list \<Rightarrow> pyfloat list" where
  \<comment> \<open>the times at which requests that read the clock at the given times may go out\<close>
  "rate_limit_starts m prev [] = []"
| "rate_limit_starts m prev (now # nows) =
     (let (wait, prev') = rate_limit_slot m prev now in (now + wait) # rate_limit_starts m prev' nows)"

lemma rate_limit_slot_gap: "fst (rate_limit_slot m prev now) \<ge> 0 \<and>
    snd (rate_limit_slot m prev now) = now + fst (rate_limit_slot m prev now) \<and>
    snd (rate_limit_slot m prev now) \<ge> prev + m"
  by (auto simp: rate_limit_slot_def Let_def)

lemma rate_limit_starts_gap:
  "Suc i < length (prev # rate_limit_starts m prev nows) \<Longrightarrow>
     (prev # rate_limit_starts m prev nows) ! Suc i \<ge> (prev # rate_limit_starts m prev nows) ! i + m"
proof (induction nows arbitrary: prev i)
  case Nil
  then show ?case by simp
next
  case (Cons now nows)
  obtain wait prev' where s: "rate_limit_slot m prev now = (wait, prev')" by (cases "rate_limit_slot m prev now")
  with rate_limit_slot_gap [of m prev now] have g: "prev' = now + wait" "prev' \<ge> prev + m" by auto
  show ?case
  proof (cases i)
    case 0
    then show ?thesis using s g by simp
  next
    case (Suc j)
    with Cons.prems s g Cons.IH [of j prev'] show ?thesis by simp
  qed
qed

subsection \<open>Properties\<close>

text \<open>
  The retry middleware makes between one and \<open>max_retries + 1\<close> calls and its result is the outcome of
  the last one. Every outcome before it was retryable (a retryable status or exception of an idempotent
  request), and the last one is either not retryable or the attempts are used up.
\<close>

theorem retry_calls:
  assumes "rt_max_retries cfg \<ge> 0"
  shows "\<exists>k. int k \<le> rt_max_retries cfg \<and> (\<forall>j. j < k \<longrightarrow> \<not> retry_final cfg req (f j)) \<and>
    (retry_final cfg req (f k) \<or> int k = rt_max_retries cfg) \<and>
    retry_middleware cfg jit (\<lambda>t n. n) (scripted f) req d 0 = (f k, Suc k)"
  using retry_middleware_scripted [OF assms, of req f jit d] by blast

theorem retry_calls_witness:
  "\<exists>k. int k \<le> rt_max_retries \<lparr>rt_max_retries = 3, rt_backoff = 1, rt_retry_non_idempotent = False\<rparr> \<and>
    (\<forall>j. j < k \<longrightarrow> \<not> retry_final \<lparr>rt_max_retries = 3, rt_backoff = 1, rt_retry_non_idempotent = False\<rparr>
      \<lparr>tq_method = ''get'', tq_url = [], tq_headers = [], tq_params = None, tq_json = None, tq_content = None,
       tq_files = None, tq_stream = False\<rparr> (Inl (OtherException ''ConnectError'' []))) \<and>
    (retry_final \<lparr>rt_max_retries = 3, rt_backoff = 1, rt_retry_non_idempotent = False\<rparr>
      \<lparr>tq_method = ''get'', tq_url = [], tq_headers = [], tq_params = None, tq_json = None, tq_content = None,
       tq_files = None, tq_stream = False\<rparr> (Inl (OtherException ''ConnectError'' [])) \<or>
     int k = rt_max_retries \<lparr>rt_max_retries = 3, rt_backoff = 1, rt_retry_non_idempotent = False\<rparr>) \<and>
    retry_middleware \<lparr>rt_max_retries = 3, rt_backoff = 1, rt_retry_non_idempotent = False\<rparr> (\<lambda>n. 0) (\<lambda>t n. n)
      (scripted (\<lambda>n. Inl (OtherException ''ConnectError'' [])))
      \<lparr>tq_method = ''get'', tq_url = [], tq_headers = [], tq_params = None, tq_json = None, tq_content = None,
       tq_files = None, tq_stream = False\<rparr> () 0 = (Inl (OtherException ''ConnectError'' []), Suc k)"
  by (rule retry_calls) simp

text \<open>
  The rate limiter spaces requests: for any sequence of clock readings, the times at which consecutive
  requests leave are at least \<open>min_interval\<close> apart, also for concurrent callers, whose slots are taken under the lock.
\<close>

theorem rate_limit_spacing:
  assumes "Suc i < length (rate_limit_starts m t0 nows)"
  shows "rate_limit_starts m t0 nows ! Suc i \<ge> rate_limit_starts m t0 nows ! i + m"
  using rate_limit_starts_gap [of "Suc i" t0 m nows] assms by simp

theorem rate_limit_spacing_witness:
  "rate_limit_starts (1/2) 0 [10, 10, 11] ! Suc 0 \<ge> rate_limit_starts (1/2) 0 [10, 10, 11] ! 0 + 1/2"
  by (rule rate_limit_spacing) (simp add: rate_limit_slot_def)

end
