(* ===== verification/Selector.thy ===== *)
theory Selector
  imports Trackers
begin

section \<open>Account tiers, limit state and client selectors\<close>

text \<open>
  \<^verbatim>\<open>claude_ai/enums/orchestrator.py\<close> (the tier order), \<^verbatim>\<open>claude_ai/session/limits.py\<close>
  (the utilization of one session) and \<^verbatim>\<open>claude_ai/orchestrator/selector.py\<close>. Of a client the
  selectors and the orchestrator use the fields of the record \<open>client\<close>.
\<close>

subsection \<open>AccountTier\<close>

datatype account_tier = FREE | PRO | MAX_TIER

fun tier_value :: "account_tier \<Rightarrow> nat" where
  "tier_value FREE = 0"
| "tier_value PRO = 1"
| "tier_value MAX_TIER = 2"

lemma tier_value_inj: "tier_value a = tier_value b \<longleftrightarrow> a = b"
  by (cases a; cases b) auto

instantiation account_tier :: linorder
begin

definition less_eq_account_tier :: "account_tier \<Rightarrow> account_tier \<Rightarrow> bool" where
  "less_eq_account_tier a b = (tier_value a \<le> tier_value b)"

definition less_account_tier :: "account_tier \<Rightarrow> account_tier \<Rightarrow> bool" where
  "less_account_tier a b = (tier_value a < tier_value b)"

instance
  by standard (auto simp: less_eq_account_tier_def less_account_tier_def simp flip: tier_value_inj)

end

subsection \<open>LimitState\<close>

record limit_state =
  lm_utilization_5h :: pyfloat
  lm_utilization_7d :: pyfloat
  lm_resets_5h_at :: "int option"
  lm_resets_7d_at :: "int option"
  lm_representative_claim :: "string option"
  lm_overage_in_use :: bool
  lm_raw :: "pyfloat dict"

definition limit_state_default :: limit_state where
  "limit_state_default =
     \<lparr>lm_utilization_5h = 0, lm_utilization_7d = 0, lm_resets_5h_at = None, lm_resets_7d_at = None,
      lm_representative_claim = None, lm_overage_in_use = False, lm_raw = []\<rparr>"

definition limit_state_update :: "limit_state \<Rightarrow> message_limit_info \<Rightarrow> limit_state" where
  "limit_state_update s info =
     (let s1 = (case dict_get (ml_windows info) ''5h'' of
                  None \<Rightarrow> s
                | Some h5 \<Rightarrow> s\<lparr>lm_utilization_5h := lw_utilization h5, lm_resets_5h_at := lw_resets_at h5,
                               lm_raw := dict_set (lm_raw s) ''5h'' (lw_utilization h5)\<rparr>);
          s2 = (case dict_get (ml_windows info) ''7d'' of
                  None \<Rightarrow> s1
                | Some d7 \<Rightarrow> s1\<lparr>lm_utilization_7d := lw_utilization d7, lm_resets_7d_at := lw_resets_at d7,
                                lm_raw := dict_set (lm_raw s1) ''7d'' (lw_utilization d7)\<rparr>)
      in s2\<lparr>lm_representative_claim := ml_representativeClaim info, lm_overage_in_use := ml_overageInUse info\<rparr>)"

definition limit_state_score :: "limit_state \<Rightarrow> pyfloat" where
  "limit_state_score s = max (lm_utilization_5h s) (lm_utilization_7d s)"

subsection \<open>Selectors\<close>

record client =
  cl_account_id :: account_id
  cl_limit_state :: "limit_state option"   \<comment> \<open>the session's attribute, if it has one\<close>
  cl_bus :: bool                           \<comment> \<open>whether the orchestrator's bus was installed\<close>
  cl_cache :: "nat option"                 \<comment> \<open>a reference to a cache object\<close>
  cl_opened :: bool

definition client_score :: "client \<Rightarrow> pyfloat" where
  "client_score c = (case cl_limit_state c of None \<Rightarrow> 0 | Some s \<Rightarrow> limit_state_score s)"

datatype selector =
    LeastUtilizationSelector
  | RoundRobinSelector nat                 \<comment> \<open>the next value of the counter\<close>
  | BusBackedLeastUtilizationSelector
  | LeastInFlightSelector

definition no_clients :: exn where
  "no_clients = Py (RuntimeError ''No clients registered in orchestrator'')"

definition selector_pick ::
  "limit_tracker \<Rightarrow> message_metrics \<Rightarrow> pyfloat \<Rightarrow> selector \<Rightarrow> client list \<Rightarrow> exn + (client \<times> selector)" where
  \<comment> \<open>\<open>pick\<close> of the four selectors; the trackers they hold and the clock are arguments\<close>
  "selector_pick limits metrics now sel cs =
     (case cs of
        [] \<Rightarrow> Inl no_clients
      | c # rest \<Rightarrow>
          (case sel of
             LeastUtilizationSelector \<Rightarrow> Inr (min_by client_score c rest, sel)
           | RoundRobinSelector n \<Rightarrow> Inr (cs ! (n mod length cs), RoundRobinSelector (Suc n))
           | BusBackedLeastUtilizationSelector \<Rightarrow>
               Inr (min_by (\<lambda>c. snapshot_score (limit_get limits (cl_account_id c) now)) c rest, sel)
           | LeastInFlightSelector \<Rightarrow> Inr (min_by (\<lambda>c. in_flight metrics (cl_account_id c)) c rest, sel)))"

lemma selector_pick_in:
  assumes "selector_pick l m now sel cs = Inr (c, sel')"
  shows "c \<in> set cs"
proof -
  obtain x xs where cs: "cs = x # xs" using assms by (cases cs) (auto simp: selector_pick_def)
  show ?thesis
  proof (cases sel)
    case LeastUtilizationSelector
    with assms min_by_in [of client_score x xs] show ?thesis by (auto simp: selector_pick_def cs)
  next
    case (RoundRobinSelector n)
    have "cs ! (n mod length cs) \<in> set cs" by (rule nth_mem) (simp add: cs)
    with RoundRobinSelector assms show ?thesis by (simp add: selector_pick_def cs del: set_simps)
  next
    case BusBackedLeastUtilizationSelector
    with assms min_by_in [of "\<lambda>c. snapshot_score (limit_get l (cl_account_id c) now)" x xs]
    show ?thesis by (auto simp: selector_pick_def cs)
  next
    case LeastInFlightSelector
    with assms min_by_in [of "\<lambda>c. in_flight m (cl_account_id c)" x xs]
    show ?thesis by (auto simp: selector_pick_def cs)
  qed
qed

lemma selector_pick_fails: "selector_pick l m now sel cs = Inl e \<longleftrightarrow> cs = [] \<and> e = no_clients"
  by (auto simp: selector_pick_def split: list.splits selector.splits)

lemma selector_pick_ok: "cs \<noteq> [] \<Longrightarrow> \<exists>c sel'. selector_pick l m now sel cs = Inr (c, sel')"
  by (cases cs; cases sel) (simp_all add: selector_pick_def)

lemma selector_least:
  assumes "d \<in> set cs"
  shows "selector_pick l m now LeastUtilizationSelector cs = Inr (c, s) \<Longrightarrow> client_score c \<le> client_score d"
    and "selector_pick l m now BusBackedLeastUtilizationSelector cs = Inr (c, s) \<Longrightarrow>
      snapshot_score (limit_get l (cl_account_id c) now) \<le> snapshot_score (limit_get l (cl_account_id d) now)"
    and "selector_pick l m now LeastInFlightSelector cs = Inr (c, s) \<Longrightarrow>
      in_flight m (cl_account_id c) \<le> in_flight m (cl_account_id d)"
proof -
  from assms obtain x xs where cs: "cs = x # xs" by (cases cs) auto
  with assms have d: "d \<in> insert x (set xs)" by simp
  show "client_score c \<le> client_score d" if "selector_pick l m now LeastUtilizationSelector cs = Inr (c, s)"
    using that min_by_least [OF d, of client_score] by (auto simp: selector_pick_def cs)
  show "snapshot_score (limit_get l (cl_account_id c) now) \<le> snapshot_score (limit_get l (cl_account_id d) now)"
    if "selector_pick l m now BusBackedLeastUtilizationSelector cs = Inr (c, s)"
    using that min_by_least [OF d, of "\<lambda>c. snapshot_score (limit_get l (cl_account_id c) now)"]
    by (auto simp: selector_pick_def cs)
  show "in_flight m (cl_account_id c) \<le> in_flight m (cl_account_id d)"
    if "selector_pick l m now LeastInFlightSelector cs = Inr (c, s)"
    using that min_by_least [OF d, of "\<lambda>c. in_flight m (cl_account_id c)"] by (auto simp: selector_pick_def cs)
qed

end
