(* ===== verification/Bus_Registry.thy ===== *)
theory Bus_Registry
  imports Events Errors
begin

section \<open>Handler registry of the event bus\<close>

text \<open>
  \<^verbatim>\<open>claude_ai/bus/registry.py\<close>: subscriptions keyed by event class, by exact type string
  or by a shell-style glob. Handlers are references \<open>'h\<close> that can be compared. An entry object is
  the pair of an identity (a number the registry hands out) and its fields: \<^verbatim>\<open>remove\<close> compares
  the entries of the class and exact tables by their fields (the equality of a dataclass) and those
  of the glob table by identity. Globs are the patterns of \<^verbatim>\<open>fnmatch.fnmatchcase\<close>.
\<close>

subsection \<open>Globs\<close>

datatype glob_item =
    GStar
  | GAny
  | GChar char
  | GSet bool "(char \<times> char) list"   \<comment> \<open>negated, ranges\<close>

fun glob_ranges :: "string \<Rightarrow> (char \<times> char) list" where
  \<comment> \<open>the inside of a bracket: \<open>a-b\<close> is a range, anything else a single character\<close>
  "glob_ranges [] = []"
| "glob_ranges [a] = [(a, a)]"
| "glob_ranges [a, b] = [(a, a), (b, b)]"
| "glob_ranges (a # b # c # cs) =
     (if b = CHR ''-'' then (a, c) # glob_ranges cs else (a, a) # glob_ranges (b # c # cs))"

definition glob_bracket :: "string \<Rightarrow> (bool \<times> string \<times> string) option" where
  \<comment> \<open>what follows an opening bracket: negation, the inside, the rest; \<open>None\<close> when it is not closed.
     A closing bracket that comes first belongs to the inside.\<close>
  "glob_bracket s =
     (let neg = (s \<noteq> [] \<and> hd s = CHR ''!'');
          s1 = (if neg then tl s else s);
          pre = (if s1 \<noteq> [] \<and> hd s1 = CHR '']'' then '']'' else []);
          s2 = drop (length pre) s1;
          body = takeWhile (\<lambda>c. c \<noteq> CHR '']'') s2
      in case dropWhile (\<lambda>c. c \<noteq> CHR '']'') s2 of
           [] \<Rightarrow> None
         | _ # rest \<Rightarrow> Some (neg, pre @ body, rest))"

lemma glob_bracket_shorter: "glob_bracket s = Some (n, b, r) \<Longrightarrow> length r < length s"
proof -
  assume a: "glob_bracket s = Some (n, b, r)"
  define s1 where "s1 = (if s \<noteq> [] \<and> hd s = CHR ''!'' then tl s else s)"
  define s2 where "s2 = drop (length (if s1 \<noteq> [] \<and> hd s1 = CHR '']'' then '']'' else [])) s1"
  have len: "length s2 \<le> length s" unfolding s2_def s1_def by (auto simp: le_diff_conv)
  from a have "length r < length (dropWhile (\<lambda>c. c \<noteq> CHR '']'') s2)"
    unfolding glob_bracket_def Let_def s1_def [symmetric] s2_def [symmetric]
    by (cases "dropWhile (\<lambda>c. c \<noteq> CHR '']'') s2") auto
  also have "\<dots> \<le> length s2" by (rule length_dropWhile_le)
  finally show ?thesis using len by simp
qed

function glob_compile :: "string \<Rightarrow> glob_item list" where
  "glob_compile [] = []"
| "glob_compile (c # cs) =
     (if c = CHR ''*'' then GStar # glob_compile cs
      else if c = CHR ''?'' then GAny # glob_compile cs
      else if c = CHR ''['' then
        (case glob_bracket cs of
           None \<Rightarrow> GChar c # glob_compile cs
         | Some (neg, body, rest) \<Rightarrow> GSet neg (glob_ranges body) # glob_compile rest)
      else GChar c # glob_compile cs)"
  by pat_completeness auto
termination
  by (relation "measure length") (auto dest: glob_bracket_shorter)

fun glob_run :: "glob_item list \<Rightarrow> string \<Rightarrow> bool" where
  "glob_run [] s = (s = [])"
| "glob_run (GStar # ps) [] = glob_run ps []"
| "glob_run (GStar # ps) (c # cs) = (glob_run ps (c # cs) \<or> glob_run (GStar # ps) cs)"
| "glob_run (p # ps) [] = False"
| "glob_run (GAny # ps) (c # cs) = glob_run ps cs"
| "glob_run (GChar x # ps) (c # cs) = (x = c \<and> glob_run ps cs)"
| "glob_run (GSet neg rs # ps) (c # cs) =
     ((list_ex (\<lambda>(lo, hi). lo \<le> c \<and> c \<le> hi) rs \<noteq> neg) \<and> glob_run ps cs)"

definition fnmatchcase :: "string \<Rightarrow> string \<Rightarrow> bool" where
  "fnmatchcase s pat = glob_run (glob_compile pat) s"

definition is_glob :: "string \<Rightarrow> bool" where
  "is_glob s = list_ex (\<lambda>c. c \<in> {CHR ''*'', CHR ''?'', CHR ''[''}) s"

lemma glob_compile_plain: "\<not> is_glob s \<Longrightarrow> glob_compile s = map GChar s"
  by (induction s) (auto simp: is_glob_def)

lemma glob_run_chars: "glob_run (map GChar s @ ps) t \<longleftrightarrow> (\<exists>u. t = s @ u \<and> glob_run ps u)"
proof (induction s arbitrary: t)
  case Nil
  then show ?case by simp
next
  case (Cons c cs)
  then show ?case by (cases t) auto
qed

lemma glob_run_star: "glob_run [GStar] t"
  by (induction t) auto

lemma glob_compile_prefix: "\<not> is_glob s \<Longrightarrow> glob_compile (s @ p) = map GChar s @ glob_compile p"
  by (induction s) (auto simp: is_glob_def)

lemma fnmatchcase_plain: "\<not> is_glob s \<Longrightarrow> fnmatchcase t s \<longleftrightarrow> t = s"
  using glob_run_chars [of s "[]" t] by (auto simp: fnmatchcase_def glob_compile_plain)

lemma fnmatchcase_prefix: "\<not> is_glob s \<Longrightarrow> fnmatchcase t (s @ ''*'') \<longleftrightarrow> (\<exists>u. t = s @ u)"
  by (simp add: fnmatchcase_def glob_compile_prefix glob_run_chars glob_run_star)

subsection \<open>The registry\<close>

datatype event_key = KClass event_class | KStr string

record 'h handler_entry =
  he_name :: string
  he_handler :: 'h
  he_event_type :: event_key
  he_retry_attempts :: int
  he_retry_backoff :: pyfloat
  he_metadata :: "json dict"

type_synonym 'h entry_ref = "nat \<times> 'h handler_entry"

record 'h registry =
  rg_by_class :: "(event_class \<times> 'h entry_ref list) list"
  rg_by_exact :: "'h entry_ref list dict"
  rg_by_glob :: "(string \<times> 'h entry_ref) list"
  rg_next :: nat   \<comment> \<open>the next object identity\<close>

definition registry_empty :: "'h registry" where
  "registry_empty = \<lparr>rg_by_class = [], rg_by_exact = [], rg_by_glob = [], rg_next = 0\<rparr>"

definition registry_add :: "'h registry \<Rightarrow> 'h handler_entry \<Rightarrow> 'h entry_ref \<times> 'h registry" where
  \<comment> \<open>\<open>add\<close> on the entry it builds; what a \<open>Subscription\<close> holds is the entry reference\<close>
  "registry_add r e =
     (let ref = (rg_next r, e); r1 = r\<lparr>rg_next := Suc (rg_next r)\<rparr>
      in (ref,
          case he_event_type e of
            KClass c \<Rightarrow> r1\<lparr>rg_by_class := dict_set (rg_by_class r) c (dict_getd (rg_by_class r) c [] @ [ref])\<rparr>
          | KStr s \<Rightarrow>
              if is_glob s then r1\<lparr>rg_by_glob := rg_by_glob r @ [(s, ref)]\<rparr>
              else r1\<lparr>rg_by_exact := dict_set (rg_by_exact r) s (dict_getd (rg_by_exact r) s [] @ [ref])\<rparr>))"

fun remove_entry :: "'h handler_entry \<Rightarrow> 'h entry_ref list \<Rightarrow> 'h entry_ref list" where
  \<comment> \<open>\<open>if entry in bucket: bucket.remove(entry)\<close>: the first entry with equal fields\<close>
  "remove_entry e [] = []"
| "remove_entry e (x # xs) = (if snd x = e then xs else x # remove_entry e xs)"

definition registry_remove :: "'h registry \<Rightarrow> 'h entry_ref \<Rightarrow> 'h registry" where
  "registry_remove r ref =
     (case he_event_type (snd ref) of
        KClass c \<Rightarrow>
          (case dict_get (rg_by_class r) c of
             None \<Rightarrow> r
           | Some b \<Rightarrow> r\<lparr>rg_by_class := dict_set (rg_by_class r) c (remove_entry (snd ref) b)\<rparr>)
      | KStr s \<Rightarrow>
          if is_glob s then r\<lparr>rg_by_glob := filter (\<lambda>(p, x). fst x \<noteq> fst ref) (rg_by_glob r)\<rparr>
          else (case dict_get (rg_by_exact r) s of
                  None \<Rightarrow> r
                | Some b \<Rightarrow> r\<lparr>rg_by_exact := dict_set (rg_by_exact r) s (remove_entry (snd ref) b)\<rparr>))"

definition registry_match :: "'h registry \<Rightarrow> event \<Rightarrow> 'h handler_entry list" where
  "registry_match r e = map snd
     (concat (map snd (filter (\<lambda>(c, b). is_instance e c) (rg_by_class r))) @
      dict_getd (rg_by_exact r) (ev_type e) [] @
      map snd (filter (\<lambda>(p, x). fnmatchcase (ev_type e) p) (rg_by_glob r)))"

definition registry_all :: "'h registry \<Rightarrow> 'h handler_entry list" where
  "registry_all r = map snd
     (concat (map snd (rg_by_class r)) @ concat (map snd (rg_by_exact r)) @ map snd (rg_by_glob r))"

definition registry_clear_all :: "'h registry \<Rightarrow> 'h registry" where
  "registry_clear_all r = r\<lparr>rg_by_class := [], rg_by_exact := [], rg_by_glob := []\<rparr>"

definition key_matches :: "event_key \<Rightarrow> event \<Rightarrow> bool" where
  \<comment> \<open>specification: when a subscription under this key sees the event\<close>
  "key_matches k e =
     (case k of
        KClass c \<Rightarrow> is_instance e c
      | KStr s \<Rightarrow> if is_glob s then fnmatchcase (ev_type e) s else ev_type e = s)"

definition registry_inv :: "'h registry \<Rightarrow> bool" where
  "registry_inv r \<longleftrightarrow> dict_ok (rg_by_class r) \<and> dict_ok (rg_by_exact r) \<and>
     (\<forall>(p, x) \<in> set (rg_by_glob r). fst x < rg_next r)"

lemma registry_inv_empty: "registry_inv registry_empty"
  by (simp add: registry_inv_def registry_empty_def)

subsection \<open>Matching after a change\<close>

lemma mset_concat_buckets_set:
  "dict_ok d \<Longrightarrow> mset (concat (map snd (filter (\<lambda>(c, b). P c) (dict_set d k v)))) +
       (if P k then mset (dict_getd d k []) else {#}) =
     mset (concat (map snd (filter (\<lambda>(c, b). P c) d))) + (if P k then mset v else {#})"
proof (induction d)
  case Nil
  then show ?case by simp
next
  case (Cons x d)
  obtain c b where x: "x = (c, b)" by (cases x)
  from Cons.prems x have d: "dict_ok d" "c \<notin> fst ` set d" by (auto simp: dict_ok_def)
  show ?case
  proof (cases "c = k")
    case True
    then show ?thesis using x by (simp add: dict_getd_def add_ac)
  next
    case False
    with Cons.IH [OF d(1)] show ?thesis by (auto simp: x dict_getd_def add_ac)
  qed
qed

lemma mset_remove_entry: "mset (map snd (remove_entry e xs)) = mset (map snd xs) - {#e#}"
  by (induction xs) (auto simp: diff_add_mset_swap)

lemma match_class_set:
  assumes "dict_ok (rg_by_class r)"
  shows "mset (registry_match (r\<lparr>rg_by_class := dict_set (rg_by_class r) c b\<rparr>) e) +
      (if is_instance e c then mset (map snd (dict_getd (rg_by_class r) c [])) else {#}) =
    mset (registry_match r e) + (if is_instance e c then mset (map snd b) else {#})"
  using arg_cong [OF mset_concat_buckets_set [OF assms, of "is_instance e" c b], of "image_mset snd"]
  by (auto simp: registry_match_def add_ac)

lemma match_exact_set:
  "registry_match (r\<lparr>rg_by_exact := dict_set (rg_by_exact r) s b\<rparr>) e =
     map snd (concat (map snd (filter (\<lambda>(c, b). is_instance e c) (rg_by_class r))) @
       (if ev_type e = s then b else dict_getd (rg_by_exact r) (ev_type e) []) @
       map snd (filter (\<lambda>(p, x). fnmatchcase (ev_type e) p) (rg_by_glob r)))"
  by (simp add: registry_match_def dict_getd_def)

lemma match_next [simp]: "registry_match (r\<lparr>rg_next := n\<rparr>) e = registry_match r e"
  by (simp add: registry_match_def)

lemma registry_add_match:
  assumes "registry_inv r"
  shows "mset (registry_match (snd (registry_add r en)) e) =
    mset (registry_match r e) + (if key_matches (he_event_type en) e then {#en#} else {#})"
proof (cases "he_event_type en")
  case (KClass c)
  let ?r = "r\<lparr>rg_next := Suc (rg_next r)\<rparr>"
  let ?b = "dict_getd (rg_by_class r) c [] @ [(rg_next r, en)]"
  have "dict_ok (rg_by_class ?r)" using assms by (simp add: registry_inv_def)
  from match_class_set [OF this, of c ?b e] KClass show ?thesis
    by (auto simp: registry_add_def Let_def key_matches_def)
next
  case (KStr s)
  then show ?thesis
    by (auto simp: registry_add_def Let_def key_matches_def registry_match_def dict_getd_def)
qed

lemma registry_add_inv [inv_intros]: "registry_inv r \<Longrightarrow> registry_inv (snd (registry_add r en))"
  by (auto simp: registry_inv_def registry_add_def Let_def less_Suc_eq split: event_key.splits)

lemma registry_remove_inv [inv_intros]: "registry_inv r \<Longrightarrow> registry_inv (registry_remove r ref)"
  by (auto simp: registry_inv_def registry_remove_def split: event_key.splits option.splits)

lemma registry_unsubscribe:
  assumes inv: "registry_inv r" and add: "registry_add r en = (ref, r')"
  shows "mset (registry_match (registry_remove r' ref) e) = mset (registry_match r e)"
proof (cases "he_event_type en")
  case (KClass c)
  let ?b = "dict_getd (rg_by_class r) c [] @ [(rg_next r, en)]"
  have ref: "ref = (rg_next r, en)" and r': "r' = r\<lparr>rg_next := Suc (rg_next r), rg_by_class := dict_set (rg_by_class r) c ?b\<rparr>"
    using add KClass by (auto simp: registry_add_def Let_def)
  have ok: "dict_ok (rg_by_class r)" "dict_ok (rg_by_class r')" using inv by (simp_all add: registry_inv_def r')
  have rem: "registry_remove r' ref = r'\<lparr>rg_by_class := dict_set (rg_by_class r') c (remove_entry en ?b)\<rparr>"
    using KClass by (simp add: registry_remove_def ref r')
  have "dict_getd (rg_by_class r') c [] = ?b" by (simp add: r' dict_getd_def)
  with match_class_set [OF ok(2), of c "remove_entry en ?b" e] registry_add_match [OF inv, of en e] KClass
  show ?thesis
    by (auto simp: rem add mset_remove_entry key_matches_def simp flip: mset_map split: if_splits)
next
  case (KStr s)
  show ?thesis
  proof (cases "is_glob s")
    case True
    have "filter (\<lambda>(p, x). fst x \<noteq> rg_next r) (rg_by_glob r) = rg_by_glob r"
      using inv by (intro filter_True) (auto simp: registry_inv_def)
    with True KStr add show ?thesis
      by (auto simp: registry_add_def Let_def registry_remove_def registry_match_def)
  next
    case False
    with KStr add show ?thesis
      by (cases "ev_type e = s"; cases "map_of (rg_by_exact r) s")
         (auto simp: registry_add_def Let_def registry_remove_def match_exact_set mset_remove_entry
          registry_match_def dict_getd_def simp flip: mset_map)
  qed
qed

subsection \<open>Properties\<close>

text \<open>
  Matching is decided by the keys: a new subscription is delivered exactly the events its key
  matches (class, exact type or glob), and cancelling it restores, for every event, the handlers
  that matched before it was made.
\<close>

theorem subscribe_unsubscribe:
  assumes "registry_inv r"
  shows "mset (registry_match (snd (registry_add r en)) e) =
      mset (registry_match r e) + (if key_matches (he_event_type en) e then {#en#} else {#}) \<and>
    mset (registry_match (registry_remove (snd (registry_add r en)) (fst (registry_add r en))) e) =
      mset (registry_match r e)"
  using registry_add_match [OF assms] registry_unsubscribe [OF assms, of en "fst (registry_add r en)"] by simp

theorem subscribe_unsubscribe_witness:
  "mset (registry_match (snd (registry_add registry_empty
       \<lparr>he_name = ''h'', he_handler = (0::nat), he_event_type = KStr ''message.*'', he_retry_attempts = 0,
        he_retry_backoff = 1, he_metadata = []\<rparr>)) (mk_event 0 None (AssistantMessageStartedEvent [] [] None []))) =
     mset (registry_match registry_empty (mk_event 0 None (AssistantMessageStartedEvent [] [] None []))) +
     (if key_matches (he_event_type \<lparr>he_name = ''h'', he_handler = (0::nat), he_event_type = KStr ''message.*'',
        he_retry_attempts = 0, he_retry_backoff = 1, he_metadata = []\<rparr>)
        (mk_event 0 None (AssistantMessageStartedEvent [] [] None []))
      then {# \<lparr>he_name = ''h'', he_handler = (0::nat), he_event_type = KStr ''message.*'',
        he_retry_attempts = 0, he_retry_backoff = 1, he_metadata = []\<rparr> #} else {#})"
  by (rule subscribe_unsubscribe [THEN conjunct1, OF registry_inv_empty])

text \<open>
  Globs mean what subscribers expect: a pattern without wildcards matches its own text only, and a plain
  prefix followed by a star matches the strings that begin with the prefix.
\<close>

theorem glob_meaning:
  assumes "\<not> is_glob s"
  shows "(fnmatchcase t s \<longleftrightarrow> t = s) \<and> (fnmatchcase t (s @ ''*'') \<longleftrightarrow> (\<exists>u. t = s @ u))"
  using fnmatchcase_plain [OF assms] fnmatchcase_prefix [OF assms] by simp

theorem glob_meaning_witness:
  "(fnmatchcase ''message.started'' ''message.'' \<longleftrightarrow> ''message.started'' = ''message.'') \<and>
   (fnmatchcase ''message.started'' (''message.'' @ ''*'') \<longleftrightarrow> (\<exists>u. ''message.started'' = ''message.'' @ u))"
  by (rule glob_meaning) (simp add: is_glob_def)

end
