(* ===== verification/Bus_Store.thy ===== *)
theory Bus_Store
  imports Events Errors
begin

section \<open>Envelopes and event stores\<close>

text \<open>
  \<^verbatim>\<open>claude_ai/bus/envelope.py\<close> and \<^verbatim>\<open>claude_ai/bus/store/\<close>: the delivery
  envelope, the stored form of it, the contract of \<^verbatim>\<open>BaseEventStore\<close> (the locale
  \<open>event_store\<close>: what each operation does to the status of an envelope and to the dead letters),
  and the in-memory store. \<^verbatim>\<open>MemoryEventStore\<close> mutates its stored objects in place and
  shares them between its table and its dead-letter list, so its model has a heap of objects.
  \<open>dump\<close> stands for pydantic's \<^verbatim>\<open>model_dump(mode="json")\<close>, \<open>isofmt\<close> and \<open>of_iso\<close> for
  \<^verbatim>\<open>datetime.isoformat\<close> and its inverse.
\<close>

record envelope =
  en_event :: event
  en_id :: string
  en_enqueued_at :: pyfloat
  en_dispatched_at :: "pyfloat option"
  en_completed_at :: "pyfloat option"
  en_attempt :: int
  en_max_attempts :: int
  en_trace_id :: "string option"
  en_last_error :: "string option"
  en_metadata :: "json dict"

definition mk_envelope :: "event \<Rightarrow> string \<Rightarrow> pyfloat \<Rightarrow> envelope" where
  \<comment> \<open>\<open>EventEnvelope(event=event)\<close> with the id that \<open>uuid4\<close> gives and the current time\<close>
  "mk_envelope ev i now =
     \<lparr>en_event = ev, en_id = i, en_enqueued_at = now, en_dispatched_at = None, en_completed_at = None,
      en_attempt = 1, en_max_attempts = 1, en_trace_id = None, en_last_error = None, en_metadata = []\<rparr>"

definition envelope_type :: "envelope \<Rightarrow> string" where
  "envelope_type en = ev_type (en_event en)"

definition mark_dispatched :: "pyfloat \<Rightarrow> envelope \<Rightarrow> envelope" where
  "mark_dispatched now en = en\<lparr>en_dispatched_at := Some now\<rparr>"

definition mark_completed :: "pyfloat \<Rightarrow> envelope \<Rightarrow> envelope" where
  "mark_completed now en = en\<lparr>en_completed_at := Some now\<rparr>"

definition with_attempt :: "envelope \<Rightarrow> int \<Rightarrow> string option \<Rightarrow> envelope" where
  "with_attempt en attempt err =
     en\<lparr>en_dispatched_at := None, en_completed_at := None, en_attempt := attempt, en_last_error := err\<rparr>"

definition jopt_str :: "string option \<Rightarrow> json" where
  "jopt_str x = (case x of None \<Rightarrow> JNull | Some s \<Rightarrow> JStr s)"

definition envelope_to_dict :: "(event \<Rightarrow> json dict) \<Rightarrow> (pyfloat \<Rightarrow> string) \<Rightarrow> envelope \<Rightarrow> json dict" where
  "envelope_to_dict dump isofmt en =
     [(''id'', JStr (en_id en)),
      (''event_type'', JStr (envelope_type en)),
      (''event'', JObj (dump (en_event en))),
      (''enqueued_at'', JStr (isofmt (en_enqueued_at en))),
      (''dispatched_at'', jopt_str (map_option isofmt (en_dispatched_at en))),
      (''completed_at'', jopt_str (map_option isofmt (en_completed_at en))),
      (''attempt'', JInt (en_attempt en)),
      (''max_attempts'', JInt (en_max_attempts en)),
      (''trace_id'', jopt_str (en_trace_id en)),
      (''last_error'', jopt_str (en_last_error en)),
      (''metadata'', JObj (en_metadata en))]"

record stored_event =
  se_id :: string
  se_event_type :: string
  se_payload :: "json dict"
  se_enqueued_at :: pyfloat
  se_attempt :: int
  se_status :: string
  se_last_error :: "string option"
  se_metadata :: "json dict"

definition stored_from_envelope :: "(event \<Rightarrow> json dict) \<Rightarrow> envelope \<Rightarrow> string \<Rightarrow> stored_event" where
  "stored_from_envelope dump en status =
     \<lparr>se_id = en_id en, se_event_type = envelope_type en, se_payload = dump (en_event en),
      se_enqueued_at = en_enqueued_at en, se_attempt = en_attempt en, se_status = status,
      se_last_error = en_last_error en, se_metadata = en_metadata en\<rparr>"

definition stored_to_dict :: "(pyfloat \<Rightarrow> string) \<Rightarrow> stored_event \<Rightarrow> json dict" where
  "stored_to_dict isofmt se =
     [(''id'', JStr (se_id se)),
      (''event_type'', JStr (se_event_type se)),
      (''payload'', JObj (se_payload se)),
      (''enqueued_at'', JStr (isofmt (se_enqueued_at se))),
      (''attempt'', JInt (se_attempt se)),
      (''status'', JStr (se_status se)),
      (''last_error'', jopt_str (se_last_error se)),
      (''metadata'', JObj (se_metadata se))]"

definition stored_from_dict ::
  "(string \<Rightarrow> pyfloat option) \<Rightarrow> pyfloat \<Rightarrow> json dict \<Rightarrow> py_error + stored_event" where
  \<comment> \<open>\<open>StoredEvent.from_dict\<close>; a field of another type than \<open>to_dict\<close> writes is a \<open>TypeError\<close> here\<close>
  "stored_from_dict of_iso now d =
     bind_result (case obj_get d ''enqueued_at'' of
          JStr s \<Rightarrow> (case of_iso s of Some t \<Rightarrow> Inr t | None \<Rightarrow> Inl (ValueError ''Invalid isoformat string''))
        | _ \<Rightarrow> Inr now) (\<lambda>ts.
       if dict_get d ''id'' = None then Inl (KeyError ''id'')
       else if dict_get d ''event_type'' = None then Inl (KeyError ''event_type'')
       else (case (obj_get d ''id'', obj_get d ''event_type'', dict_getd d ''payload'' (JObj []),
                   dict_getd d ''attempt'' (JInt 1), dict_getd d ''status'' (JStr ''pending''),
                   obj_get d ''last_error'', dict_getd d ''metadata'' (JObj [])) of
               (JStr i, JStr t, JObj p, JInt a, JStr st, JNull, JObj m) \<Rightarrow>
                 Inr \<lparr>se_id = i, se_event_type = t, se_payload = p, se_enqueued_at = ts, se_attempt = a,
                      se_status = st, se_last_error = None, se_metadata = m\<rparr>
             | (JStr i, JStr t, JObj p, JInt a, JStr st, JStr err, JObj m) \<Rightarrow>
                 Inr \<lparr>se_id = i, se_event_type = t, se_payload = p, se_enqueued_at = ts, se_attempt = a,
                      se_status = st, se_last_error = Some err, se_metadata = m\<rparr>
             | _ \<Rightarrow> Inl (TypeError ''stored event'')))"

lemma stored_roundtrip:
  assumes "of_iso (isofmt (se_enqueued_at se)) = Some (se_enqueued_at se)"
  shows "stored_from_dict of_iso now (stored_to_dict isofmt se) = Inr se"
  using assms
  by (cases "se_last_error se")
     (simp_all add: stored_from_dict_def stored_to_dict_def jopt_str_def bind_result_simps dict_getd_def obj_get_def)

subsection \<open>The contract\<close>

record 's event_store_ops =
  es_save :: "'s \<Rightarrow> envelope \<Rightarrow> 's"
  es_mark_processed :: "'s \<Rightarrow> string \<Rightarrow> 's"
  es_mark_failed :: "'s \<Rightarrow> string \<Rightarrow> string \<Rightarrow> int \<Rightarrow> 's"
  es_dead_letter :: "'s \<Rightarrow> envelope \<Rightarrow> string \<Rightarrow> string option \<Rightarrow> 's"

locale event_store =
  fixes es :: "'s event_store_ops"
    and status :: "'s \<Rightarrow> string \<Rightarrow> string option"
    and dead :: "'s \<Rightarrow> string list"
    and inv :: "'s \<Rightarrow> bool"
  assumes save_status: "inv s \<Longrightarrow> status (es_save es s en) = (status s)(en_id en \<mapsto> ''pending'')"
    and processed_status: "inv s \<Longrightarrow> status (es_mark_processed es s i) =
          (if status s i = None then status s else (status s)(i \<mapsto> ''processed''))"
    and failed_status: "inv s \<Longrightarrow> status (es_mark_failed es s i err a) =
          (if status s i = None then status s else (status s)(i \<mapsto> ''failed''))"
    and dead_status: "inv s \<Longrightarrow> status (es_dead_letter es s en err h) = (status s)(en_id en \<mapsto> ''dead'')"
    and dead_others: "inv s \<Longrightarrow> dead (es_save es s en) = dead s"
          "inv s \<Longrightarrow> dead (es_mark_processed es s i) = dead s"
          "inv s \<Longrightarrow> dead (es_mark_failed es s i err a) = dead s"
    and dead_dead: "inv s \<Longrightarrow> dead (es_dead_letter es s en err h) = dead s @ [en_id en]"
    and inv_all: "inv s \<Longrightarrow> inv (es_save es s en)" "inv s \<Longrightarrow> inv (es_mark_processed es s i)"
          "inv s \<Longrightarrow> inv (es_mark_failed es s i err a)" "inv s \<Longrightarrow> inv (es_dead_letter es s en err h)"
begin

lemmas store_simps = save_status processed_status failed_status dead_status dead_others dead_dead inv_all

end

subsection \<open>MemoryEventStore\<close>

record mem_event_store =
  ms_heap :: "stored_event list"           \<comment> \<open>the objects; an address is a position\<close>
  ms_events :: "nat dict"
  ms_order :: "string list"
  ms_dead :: "(nat \<times> string option \<times> string) list"

definition mes_save :: "(event \<Rightarrow> json dict) \<Rightarrow> mem_event_store \<Rightarrow> envelope \<Rightarrow> mem_event_store" where
  "mes_save dump s en =
     (let stored = stored_from_envelope dump en ''pending'';
          order = (if dict_get (ms_events s) (se_id stored) = None then ms_order s @ [se_id stored] else ms_order s)
      in s\<lparr>ms_heap := ms_heap s @ [stored], ms_order := order,
           ms_events := dict_set (ms_events s) (se_id stored) (length (ms_heap s))\<rparr>)"

definition mes_mark_processed :: "mem_event_store \<Rightarrow> string \<Rightarrow> mem_event_store" where
  "mes_mark_processed s i =
     (case dict_get (ms_events s) i of
        None \<Rightarrow> s
      | Some p \<Rightarrow> s\<lparr>ms_heap := (ms_heap s)[p := (ms_heap s ! p)\<lparr>se_status := ''processed''\<rparr>]\<rparr>)"

definition mes_mark_failed :: "mem_event_store \<Rightarrow> string \<Rightarrow> string \<Rightarrow> int \<Rightarrow> mem_event_store" where
  "mes_mark_failed s i err attempt =
     (case dict_get (ms_events s) i of
        None \<Rightarrow> s
      | Some p \<Rightarrow> s\<lparr>ms_heap := (ms_heap s)[p := (ms_heap s ! p)\<lparr>se_status := ''failed'',
                      se_last_error := Some err, se_attempt := attempt\<rparr>]\<rparr>)"

definition mes_dead_letter ::
  "(event \<Rightarrow> json dict) \<Rightarrow> mem_event_store \<Rightarrow> envelope \<Rightarrow> string \<Rightarrow> string option \<Rightarrow> mem_event_store" where
  "mes_dead_letter dump s en err handler =
     (let stored = (stored_from_envelope dump en ''dead'')\<lparr>se_last_error := Some err\<rparr>
      in s\<lparr>ms_heap := ms_heap s @ [stored],
           ms_dead := ms_dead s @ [(length (ms_heap s), handler, err)],
           ms_events := dict_set (ms_events s) (se_id stored) (length (ms_heap s))\<rparr>)"

definition replay_selects :: "string list option \<Rightarrow> string list option \<Rightarrow> stored_event \<Rightarrow> bool" where
  \<comment> \<open>an absent or empty list does not filter\<close>
  "replay_selects types statuses se \<longleftrightarrow>
     (case types of None \<Rightarrow> True | Some ts \<Rightarrow> ts = [] \<or> se_event_type se \<in> set ts) \<and>
     (case statuses of None \<Rightarrow> True | Some ss \<Rightarrow> ss = [] \<or> se_status se \<in> set ss)"

fun replay_loop ::
  "mem_event_store \<Rightarrow> string list option \<Rightarrow> string list option \<Rightarrow> int option \<Rightarrow> string list \<Rightarrow> int
     \<Rightarrow> stored_event list" where
  "replay_loop s types statuses limit [] emitted = []"
| "replay_loop s types statuses limit (eid # ids) emitted =
     (case dict_get (ms_events s) eid of
        None \<Rightarrow> replay_loop s types statuses limit ids emitted
      | Some p \<Rightarrow>
          (let se = ms_heap s ! p
           in if \<not> replay_selects types statuses se then replay_loop s types statuses limit ids emitted
              else if (case limit of None \<Rightarrow> False | Some n \<Rightarrow> emitted + 1 \<ge> n) then [se]
              else se # replay_loop s types statuses limit ids (emitted + 1)))"

definition mes_replay ::
  "mem_event_store \<Rightarrow> string list option \<Rightarrow> string list option \<Rightarrow> int option \<Rightarrow> stored_event list" where
  \<comment> \<open>what the generator yields when it is run to its end with no change of the store meanwhile\<close>
  "mes_replay s types statuses limit = replay_loop s types statuses limit (ms_order s) 0"

definition mes_dead_letters :: "mem_event_store \<Rightarrow> stored_event list" where
  "mes_dead_letters s = map (\<lambda>(p, h, err). ms_heap s ! p) (ms_dead s)"

definition mes_size :: "mem_event_store \<Rightarrow> nat" where
  "mes_size s = length (ms_events s)"

definition mes_ops :: "(event \<Rightarrow> json dict) \<Rightarrow> mem_event_store event_store_ops" where
  "mes_ops dump =
     \<lparr>es_save = mes_save dump, es_mark_processed = mes_mark_processed,
      es_mark_failed = mes_mark_failed, es_dead_letter = mes_dead_letter dump\<rparr>"

definition mes_empty :: mem_event_store where
  "mes_empty = \<lparr>ms_heap = [], ms_events = [], ms_order = [], ms_dead = []\<rparr>"

definition mes_status :: "mem_event_store \<Rightarrow> string \<Rightarrow> string option" where
  "mes_status s i = map_option (\<lambda>p. se_status (ms_heap s ! p)) (dict_get (ms_events s) i)"

definition mes_dead_ids :: "mem_event_store \<Rightarrow> string list" where
  "mes_dead_ids s = map se_id (mes_dead_letters s)"

definition mes_inv :: "mem_event_store \<Rightarrow> bool" where
  "mes_inv s \<longleftrightarrow>
     dict_ok (ms_events s) \<and>
     (\<forall>i p. dict_get (ms_events s) i = Some p \<longrightarrow> p < length (ms_heap s) \<and> se_id (ms_heap s ! p) = i) \<and>
     (\<forall>(p, h, err) \<in> set (ms_dead s). p < length (ms_heap s)) \<and>
     distinct (ms_order s) \<and> set (ms_order s) \<subseteq> set (dict_keys (ms_events s))"

lemma mes_inv_empty [simp]: "mes_inv mes_empty"
  by (simp add: mes_inv_def mes_empty_def)

lemma mes_dead_map_cong:
  assumes "\<forall>(p, h, err) \<in> set ds. p < length hp"
    and "\<And>p. p < length hp \<Longrightarrow> se_id (hp' ! p) = se_id (hp ! p)"
  shows "map se_id (map (\<lambda>(p, h, err). hp' ! p) ds) = map se_id (map (\<lambda>(p, h, err). hp ! p) ds)"
  using assms by auto

lemma mes_save_id: "se_id (stored_from_envelope dump en st) = en_id en"
  by (simp add: stored_from_envelope_def)

lemma mes_inv_keep:
  \<comment> \<open>a change of the heap that keeps the identities\<close>
  assumes "mes_inv s" and "length hp = length (ms_heap s)"
    and "\<And>p. p < length (ms_heap s) \<Longrightarrow> se_id (hp ! p) = se_id (ms_heap s ! p)"
  shows "mes_inv (s\<lparr>ms_heap := hp\<rparr>)"
  using assms by (auto simp: mes_inv_def)

lemma mes_inv_new:
  \<comment> \<open>a new object that replaces the table entry of its identity\<close>
  assumes inv: "mes_inv s"
    and d: "\<And>p h e. (p, h, e) \<in> set ds \<Longrightarrow> p \<le> length (ms_heap s)"
    and o: "distinct ord" "set ord \<subseteq> insert (se_id se) (set (dict_keys (ms_events s)))"
  shows "mes_inv (s\<lparr>ms_heap := ms_heap s @ [se], ms_order := ord, ms_dead := ds,
    ms_events := dict_set (ms_events s) (se_id se) (length (ms_heap s))\<rparr>)"
proof -
  have keys: "set ord \<subseteq> set (dict_keys (dict_set (ms_events s) (se_id se) (length (ms_heap s))))"
    using o(2) by (simp only: dict_keys_set)
  have "p < length (ms_heap s @ [se]) \<and> se_id ((ms_heap s @ [se]) ! p) = i"
    if "map_of (dict_set (ms_events s) (se_id se) (length (ms_heap s))) i = Some p" for i p
    using that inv by (cases "i = se_id se") (auto simp: mes_inv_def nth_append less_Suc_eq)
  with inv o(1) keys d show ?thesis
    by (force simp: mes_inv_def less_Suc_eq_le)
qed

lemma mes_save_eq: "mes_save dump s en =
    s\<lparr>ms_heap := ms_heap s @ [stored_from_envelope dump en ''pending''],
      ms_order := (if map_of (ms_events s) (en_id en) = None then ms_order s @ [en_id en] else ms_order s),
      ms_dead := ms_dead s,
      ms_events := dict_set (ms_events s) (se_id (stored_from_envelope dump en ''pending'')) (length (ms_heap s))\<rparr>"
  by (simp add: mes_save_def Let_def mes_save_id)

lemma mes_dead_eq: "mes_dead_letter dump s en err h =
    s\<lparr>ms_heap := ms_heap s @ [(stored_from_envelope dump en ''dead'')\<lparr>se_last_error := Some err\<rparr>],
      ms_order := ms_order s,
      ms_dead := ms_dead s @ [(length (ms_heap s), h, err)],
      ms_events := dict_set (ms_events s)
        (se_id ((stored_from_envelope dump en ''dead'')\<lparr>se_last_error := Some err\<rparr>)) (length (ms_heap s))\<rparr>"
  by (simp add: mes_dead_letter_def Let_def)

lemma mes_inv_dead_addr: "mes_inv s \<Longrightarrow> (p, h, e) \<in> set (ms_dead s) \<Longrightarrow> p < length (ms_heap s)"
  by (auto simp: mes_inv_def)

lemma mes_inv_order: "mes_inv s \<Longrightarrow> i \<in> set (ms_order s) \<Longrightarrow> i \<in> set (dict_keys (ms_events s))"
  by (auto simp: mes_inv_def)

lemma mes_inv_save [inv_intros]: "mes_inv s \<Longrightarrow> mes_inv (mes_save dump s en)"
  unfolding mes_save_eq
proof (rule mes_inv_new)
  assume inv: "mes_inv s"
  show "p \<le> length (ms_heap s)" if "(p, h, e) \<in> set (ms_dead s)" for p h e
    using mes_inv_dead_addr [OF inv that] by simp
  have "en_id en \<notin> set (ms_order s)" if "map_of (ms_events s) (en_id en) = None"
    using that mes_inv_order [OF inv, of "en_id en"] by (auto simp: map_of_eq_None_iff)
  with inv show "distinct (if map_of (ms_events s) (en_id en) = None then ms_order s @ [en_id en] else ms_order s)"
    by (simp add: mes_inv_def)
  show "set (if map_of (ms_events s) (en_id en) = None then ms_order s @ [en_id en] else ms_order s)
      \<subseteq> insert (se_id (stored_from_envelope dump en ''pending'')) (set (dict_keys (ms_events s)))"
    using mes_inv_order [OF inv] by (auto simp: mes_save_id)
qed

lemma mes_inv_dead [inv_intros]: "mes_inv s \<Longrightarrow> mes_inv (mes_dead_letter dump s en err h)"
  unfolding mes_dead_eq
proof (rule mes_inv_new)
  assume inv: "mes_inv s"
  show "p \<le> length (ms_heap s)" if "(p, h', e) \<in> set (ms_dead s @ [(length (ms_heap s), h, err)])" for p h' e
    using that mes_inv_dead_addr [OF inv, of p h' e] by auto
  show "distinct (ms_order s)" using inv by (simp add: mes_inv_def)
  show "set (ms_order s) \<subseteq> insert (se_id ((stored_from_envelope dump en ''dead'')\<lparr>se_last_error := Some err\<rparr>))
      (set (dict_keys (ms_events s)))" using mes_inv_order [OF inv] by blast
qed

lemma heap_update_id:
  "p < length hp \<Longrightarrow> se_id x = se_id (hp ! q) \<Longrightarrow> se_id (hp[q := x] ! p) = se_id (hp ! p)"
  by (cases "q = p") auto

lemma mes_inv_mark [inv_intros]:
  "mes_inv s \<Longrightarrow> mes_inv (mes_mark_processed s i)"
  "mes_inv s \<Longrightarrow> mes_inv (mes_mark_failed s i err a)"
  unfolding mes_mark_processed_def mes_mark_failed_def
  by (auto split: option.splits simp: heap_update_id intro!: mes_inv_keep)

lemma mes_dead_ids_heap:
  assumes "mes_inv s" and "\<And>p. p < length (ms_heap s) \<Longrightarrow> se_id (hp ! p) = se_id (ms_heap s ! p)"
  shows "map se_id (map (\<lambda>(p, h, err). hp ! p) (ms_dead s)) = mes_dead_ids s"
  unfolding mes_dead_ids_def mes_dead_letters_def
  using assms by (intro mes_dead_map_cong) (auto simp: mes_inv_def)

interpretation mes: event_store "mes_ops dump" mes_status mes_dead_ids mes_inv
proof unfold_locales
  fix s :: mem_event_store and en i err and a :: int and h
  assume inv: "mes_inv s"
  have addr: "p < length (ms_heap s)" "se_id (ms_heap s ! p) = j" if "map_of (ms_events s) j = Some p" for j p
    using inv that by (auto simp: mes_inv_def)
  have inj: "j = k" if "map_of (ms_events s) j = Some p" "map_of (ms_events s) k = Some p" for j k p
    using addr(2) [OF that(1)] addr(2) [OF that(2)] by simp
  show "mes_status (es_save (mes_ops dump) s en) = (mes_status s)(en_id en \<mapsto> ''pending'')"
    using addr(1)
    by (fastforce simp: mes_ops_def mes_status_def mes_save_eq mes_save_id nth_append fun_eq_iff
        stored_from_envelope_def intro!: option.map_cong)
  show "mes_status (es_dead_letter (mes_ops dump) s en err h) = (mes_status s)(en_id en \<mapsto> ''dead'')"
    using addr(1)
    by (fastforce simp: mes_ops_def mes_status_def mes_dead_eq mes_save_id nth_append fun_eq_iff
        stored_from_envelope_def intro!: option.map_cong)
  show "mes_status (es_mark_processed (mes_ops dump) s i) =
      (if mes_status s i = None then mes_status s else (mes_status s)(i \<mapsto> ''processed''))"
    using addr(1) inj
    by (force simp: mes_ops_def mes_status_def mes_mark_processed_def fun_eq_iff nth_list_update
        split: option.splits intro!: option.map_cong)
  show "mes_status (es_mark_failed (mes_ops dump) s i err a) =
      (if mes_status s i = None then mes_status s else (mes_status s)(i \<mapsto> ''failed''))"
    using addr(1) inj
    by (force simp: mes_ops_def mes_status_def mes_mark_failed_def fun_eq_iff nth_list_update
        split: option.splits intro!: option.map_cong)
  show "mes_dead_ids (es_save (mes_ops dump) s en) = mes_dead_ids s"
    using mes_dead_ids_heap [OF inv, of "ms_heap s @ [stored_from_envelope dump en ''pending'']"]
    by (simp add: mes_ops_def mes_save_eq mes_dead_ids_def mes_dead_letters_def nth_append)
  show "mes_dead_ids (es_mark_processed (mes_ops dump) s i) = mes_dead_ids s"
    using mes_dead_ids_heap [OF inv] heap_update_id [of _ "ms_heap s"]
    by (auto simp: mes_ops_def mes_mark_processed_def mes_dead_ids_def mes_dead_letters_def
        split: option.splits dest: mes_inv_dead_addr [OF inv])
  show "mes_dead_ids (es_mark_failed (mes_ops dump) s i err a) = mes_dead_ids s"
    using mes_dead_ids_heap [OF inv] heap_update_id [of _ "ms_heap s"]
    by (auto simp: mes_ops_def mes_mark_failed_def mes_dead_ids_def mes_dead_letters_def
        split: option.splits dest: mes_inv_dead_addr [OF inv])
  show "mes_dead_ids (es_dead_letter (mes_ops dump) s en err h) = mes_dead_ids s @ [en_id en]"
    using mes_dead_ids_heap [OF inv, of "ms_heap s @ [(stored_from_envelope dump en ''dead'')\<lparr>se_last_error := Some err\<rparr>]"]
    by (simp add: mes_ops_def mes_dead_eq mes_dead_ids_def mes_dead_letters_def nth_append mes_save_id)
  show "mes_inv (es_save (mes_ops dump) s en)" "mes_inv (es_mark_processed (mes_ops dump) s i)"
    "mes_inv (es_mark_failed (mes_ops dump) s i err a)" "mes_inv (es_dead_letter (mes_ops dump) s en err h)"
    using inv by (simp_all add: mes_ops_def inv_intros)
qed

subsection \<open>Replay\<close>

lemma replay_loop_unlimited:
  "replay_loop s types statuses None ids k =
     filter (replay_selects types statuses) (List.map_filter (\<lambda>i. map_option ((!) (ms_heap s)) (map_of (ms_events s) i)) ids)"
  by (induction ids arbitrary: k) (auto simp: Let_def map_filter_simps split: option.splits)

lemma replay_loop_limited:
  "n > k \<Longrightarrow> replay_loop s types statuses (Some n) ids k = take (nat (n - k)) (replay_loop s types statuses None ids k)"
proof (induction ids arbitrary: k)
  case Nil
  then show ?case by simp
next
  case (Cons i ids)
  have *: "nat (n - k) = Suc (nat (n - (k + 1)))" using Cons.prems by simp
  have un: "replay_loop s types statuses None ids k = replay_loop s types statuses None ids (k + 1)"
    by (simp add: replay_loop_unlimited)
  show ?case
    using Cons.IH [of k] Cons.IH [of "k + 1"] Cons.prems
    by (auto simp: * Let_def split: option.splits)
qed

subsection \<open>Properties\<close>

text \<open>
  Replay yields the stored events that the type and status filters select, in the order in which their
  envelopes were first saved, and a positive limit cuts that sequence.
\<close>

theorem replay_selected_in_order:
  assumes "0 < n"
  shows "mes_replay s types statuses None = filter (replay_selects types statuses)
      (List.map_filter (\<lambda>i. map_option ((!) (ms_heap s)) (map_of (ms_events s) i)) (ms_order s)) \<and>
    mes_replay s types statuses (Some n) = take (nat n) (mes_replay s types statuses None)"
  using replay_loop_limited [of 0 n s types statuses "ms_order s"] assms
  by (simp add: mes_replay_def replay_loop_unlimited)

theorem replay_selected_in_order_witness:
  "mes_replay mes_empty None (Some [''dead'']) None = filter (replay_selects None (Some [''dead'']))
      (List.map_filter (\<lambda>i. map_option ((!) (ms_heap mes_empty)) (map_of (ms_events mes_empty) i)) (ms_order mes_empty)) \<and>
    mes_replay mes_empty None (Some [''dead'']) (Some 2) = take (nat 2) (mes_replay mes_empty None (Some [''dead'']) None)"
  by (rule replay_selected_in_order) simp

text \<open>
  A stored event survives its dictionary form: reading back what \<open>to_dict\<close> wrote gives the event, when the
  time stamp survives its ISO text.
\<close>

theorem stored_event_roundtrip:
  assumes "of_iso (isofmt (se_enqueued_at se)) = Some (se_enqueued_at se)"
  shows "stored_from_dict of_iso now (stored_to_dict isofmt se) = Inr se"
  using assms by (rule stored_roundtrip)

theorem stored_event_roundtrip_witness:
  "stored_from_dict (\<lambda>s. float_of_string s) 5 (stored_to_dict (\<lambda>r. string_of_int \<lfloor>r\<rfloor>)
     \<lparr>se_id = ''e1'', se_event_type = ''x'', se_payload = [], se_enqueued_at = 17, se_attempt = 1,
      se_status = ''failed'', se_last_error = Some ''boom'', se_metadata = []\<rparr>) =
   Inr \<lparr>se_id = ''e1'', se_event_type = ''x'', se_payload = [], se_enqueued_at = 17, se_attempt = 1,
      se_status = ''failed'', se_last_error = Some ''boom'', se_metadata = []\<rparr>"
  by (rule stored_event_roundtrip) code_simp

end
