(* ===== verification/Bus_Dispatch.thy ===== *)
theory Bus_Dispatch
  imports Bus_Registry Bus_Store Middleware
begin

section \<open>Dispatching an envelope\<close>

text \<open>
  \<^verbatim>\<open>claude_ai/bus/dispatcher.py\<close> and \<^verbatim>\<open>claude_ai/bus/exceptions.py\<close>: the middleware
  chain around the fan-out to the matching handlers, the retries of one handler and the collected
  errors. \<open>run\<close> gives the behaviour of a handler reference on the state \<open>'w\<close>, \<open>sleep\<close> the effect of
  waiting. The coroutines that \<^verbatim>\<open>asyncio.gather\<close> starts run here one after the other, in the
  order in which it starts them.
\<close>

subsection \<open>Errors of the bus\<close>

fun exn_class_name :: "exn \<Rightarrow> string" where
  \<comment> \<open>\<open>type(exc).__name__\<close>\<close>
  "exn_class_name (Api e) =
     (case api_class e of APIError \<Rightarrow> ''APIError'' | BadRequestError \<Rightarrow> ''BadRequestError'' | AuthError \<Rightarrow> ''AuthError''
      | ForbiddenError \<Rightarrow> ''ForbiddenError'' | NotFoundError \<Rightarrow> ''NotFoundError''
      | RateLimitError \<Rightarrow> ''RateLimitError'' | ServerError \<Rightarrow> ''ServerError'')"
| "exn_class_name (StreamError _ _ _) = ''StreamError''"
| "exn_class_name (SessionError _ _) = ''SessionError''"
| "exn_class_name (NetworkError _ _) = ''NetworkError''"
| "exn_class_name (NoAvailableAccounts _) = ''NoAvailableAccounts''"
| "exn_class_name (Py e) =
     (case e of ValueError _ \<Rightarrow> ''ValueError'' | TypeError _ \<Rightarrow> ''TypeError'' | KeyError _ \<Rightarrow> ''KeyError''
      | AttributeError _ \<Rightarrow> ''AttributeError'' | RuntimeError _ \<Rightarrow> ''RuntimeError'' | IndexError _ \<Rightarrow> ''IndexError'')"
| "exn_class_name (OtherException cls _) = cls"

definition event_bus_error_str :: "string \<Rightarrow> (string \<times> string) list \<Rightarrow> string" where
  \<comment> \<open>\<open>EventBusError.__str__\<close>; the values of the context come with their \<open>repr\<close>\<close>
  "event_bus_error_str message ctx =
     (if ctx = [] then message
      else message @ '' ['' @ join '', '' (map (\<lambda>(k, v). k @ ''='' @ v) ctx) @ '']'')"

definition EventBusClosedError :: "string \<Rightarrow> (string \<times> string) list \<Rightarrow> exn" where
  "EventBusClosedError message ctx = OtherException ''EventBusClosedError'' (event_bus_error_str message ctx)"

definition WorkerStoppedError :: "string \<Rightarrow> (string \<times> string) list \<Rightarrow> exn" where
  "WorkerStoppedError message ctx = OtherException ''WorkerStoppedError'' (event_bus_error_str message ctx)"

definition exn_summary :: "exn \<Rightarrow> string" where
  "exn_summary e = exn_class_name e @ '': '' @ exn_str e"

record handler_error =
  hr_handler :: string
  hr_event_type :: string
  hr_envelope_id :: string
  hr_original :: exn
  hr_attempt :: int

definition handler_error_str :: "handler_error \<Rightarrow> string" where
  "handler_error_str h =
     event_bus_error_str
       (''handler '' @ repr_str (hr_handler h) @ '' failed on event '' @ repr_str (hr_event_type h))
       [(''handler'', repr_str (hr_handler h)), (''event_type'', repr_str (hr_event_type h)),
        (''envelope_id'', repr_str (hr_envelope_id h)), (''attempt'', string_of_int (hr_attempt h)),
        (''original'', repr_str (exn_summary (hr_original h)))]"

record middleware_error =
  me_middleware :: string
  me_event_type :: string
  me_envelope_id :: string
  me_original :: exn

definition middleware_error_str :: "middleware_error \<Rightarrow> string" where
  "middleware_error_str m =
     event_bus_error_str
       (''middleware '' @ repr_str (me_middleware m) @ '' failed on event '' @ repr_str (me_event_type m))
       [(''middleware'', repr_str (me_middleware m)), (''event_type'', repr_str (me_event_type m)),
        (''envelope_id'', repr_str (me_envelope_id m)), (''original'', repr_str (exn_summary (me_original m)))]"

subsection \<open>The dispatcher\<close>

record bus_data =
  bd_envelope :: envelope
  bd_trace_id :: "string option"
  bd_handler :: "string option"

record dispatch_result =
  dr_envelope :: envelope
  dr_handler_errors :: "handler_error list"
  dr_middleware_error :: "middleware_error option"

definition dispatch_ok :: "dispatch_result \<Rightarrow> bool" where
  "dispatch_ok r \<longleftrightarrow> dr_handler_errors r = [] \<and> dr_middleware_error r = None"

type_synonym ('h, 'w) run_handler = "'h \<Rightarrow> event \<Rightarrow> bus_data \<Rightarrow> 'w \<Rightarrow> (exn + unit) \<times> 'w"

fun invoke_loop ::
  "('h, 'w) run_handler \<Rightarrow> (pyfloat \<Rightarrow> 'w \<Rightarrow> 'w) \<Rightarrow> 'h handler_entry \<Rightarrow> envelope \<Rightarrow> event \<Rightarrow> bus_data
     \<Rightarrow> nat list \<Rightarrow> 'w \<Rightarrow> handler_error option \<times> 'w" where
  "invoke_loop run sleep en env ev d [] w = (None, w)"
| "invoke_loop run sleep en env ev d (a # as) w =
     (case run (he_handler en) ev d w of
        (Inr _, w') \<Rightarrow> (None, w')
      | (Inl e, w') \<Rightarrow>
          if int a > he_retry_attempts en
          then (Some \<lparr>hr_handler = he_name en, hr_event_type = envelope_type env, hr_envelope_id = en_id env,
                      hr_original = e, hr_attempt = int a\<rparr>, w')
          else invoke_loop run sleep en env ev d as (sleep (he_retry_backoff en * 2 ^ (a - 1)) w'))"

definition invoke ::
  "('h, 'w) run_handler \<Rightarrow> (pyfloat \<Rightarrow> 'w \<Rightarrow> 'w) \<Rightarrow> 'h handler_entry \<Rightarrow> envelope \<Rightarrow> event \<Rightarrow> bus_data
     \<Rightarrow> 'w \<Rightarrow> handler_error option \<times> 'w" where
  \<comment> \<open>\<open>_invoke\<close>: \<open>range(1, max(retry_attempts, 0) + 2)\<close>\<close>
  "invoke run sleep en env ev d w =
     invoke_loop run sleep en env ev (d\<lparr>bd_handler := Some (he_name en)\<rparr>)
       [1..<nat (max (he_retry_attempts en) 0 + 2)] w"

fun invoke_all ::
  "('h, 'w) run_handler \<Rightarrow> (pyfloat \<Rightarrow> 'w \<Rightarrow> 'w) \<Rightarrow> 'h handler_entry list \<Rightarrow> envelope \<Rightarrow> event \<Rightarrow> bus_data
     \<Rightarrow> 'w \<times> handler_error list \<Rightarrow> 'w \<times> handler_error list" where
  \<comment> \<open>\<open>gather(*tasks)\<close> and the collection of the \<open>HandlerError\<close> results\<close>
  "invoke_all run sleep [] env ev d acc = acc"
| "invoke_all run sleep (en # ens) env ev d (w, errs) =
     (case invoke run sleep en env ev d w of
        (None, w') \<Rightarrow> invoke_all run sleep ens env ev d (w', errs)
      | (Some h, w') \<Rightarrow> invoke_all run sleep ens env ev d (w', errs @ [h]))"

definition dispatch_terminal ::
  "('h, 'w) run_handler \<Rightarrow> (pyfloat \<Rightarrow> 'w \<Rightarrow> 'w) \<Rightarrow> 'h handler_entry list \<Rightarrow> envelope
     \<Rightarrow> (event, bus_data, unit, 'w \<times> handler_error list) next_handler" where
  "dispatch_terminal run sleep ens env ev d acc =
     (if ens = [] then (Inr (), acc) else (Inr (), invoke_all run sleep ens env ev d acc))"

definition dispatch ::
  "('h, 'w) run_handler \<Rightarrow> (pyfloat \<Rightarrow> 'w \<Rightarrow> 'w)
     \<Rightarrow> ('m \<Rightarrow> (event, bus_data, unit, 'w \<times> handler_error list) middleware)
     \<Rightarrow> 'm middleware_manager \<Rightarrow> 'h registry \<Rightarrow> pyfloat \<Rightarrow> pyfloat \<Rightarrow> envelope \<Rightarrow> 'w
     \<Rightarrow> dispatch_result \<times> 'w" where
  \<comment> \<open>\<open>t0\<close> and \<open>t1\<close> are the two time stamps\<close>
  "dispatch run sleep mw_run mm reg t0 t1 env w =
     (let env1 = mark_dispatched t0 env;
          ens = registry_match reg (en_event env1);
          chain = manager_chain mw_run mm (dispatch_terminal run sleep ens env1);
          (res, (w', errs)) = chain (en_event env1)
             \<lparr>bd_envelope = env1, bd_trace_id = en_trace_id env1, bd_handler = None\<rparr> (w, []);
          merr = (case res of
                    Inr _ \<Rightarrow> None
                  | Inl e \<Rightarrow> Some \<lparr>me_middleware = ''<chain>'', me_event_type = envelope_type env1,
                                   me_envelope_id = en_id env1, me_original = e\<rparr>)
      in (\<lparr>dr_envelope = mark_completed t1 env1, dr_handler_errors = errs, dr_middleware_error = merr\<rparr>, w'))"

subsection \<open>Isolation of the handlers\<close>

definition logged :: "('h \<Rightarrow> nat \<Rightarrow> exn + unit) \<Rightarrow> ('h, 'h list) run_handler" where
  \<comment> \<open>handlers that log their calls: the k-th call of \<open>h\<close> has the outcome \<open>f h k\<close>\<close>
  "logged f h ev d w = (f h (count_list w h), w @ [h])"

lemma count_list_replicate [simp]: "count_list (replicate k h) h = k"
  by (induction k) auto

lemma invoke_loop_logged:
  assumes "a \<le> b" and "int b = max (he_retry_attempts en) 0 + 1"
  shows "\<exists>k err. 1 \<le> k \<and> a + k \<le> Suc b \<and>
    invoke_loop (logged f) (\<lambda>t w. w) en env ev d [a..<Suc b] w = (err, w @ replicate k (he_handler en)) \<and>
    (\<forall>j. Suc j < k \<longrightarrow> isl (f (he_handler en) (count_list w (he_handler en) + j))) \<and>
    (err = None \<longleftrightarrow> \<not> isl (f (he_handler en) (count_list w (he_handler en) + (k - 1))))"
  using assms(1)
proof (induction "b - a" arbitrary: a w)
  let ?h = "he_handler en"
  case 0
  then have "a = b" by simp
  moreover have "he_retry_attempts en < int b" using assms(2) by simp
  ultimately show ?case
    by (intro exI [of _ 1]) (auto simp: logged_def split: sum.splits)
next
  let ?h = "he_handler en"
  case (Suc n)
  then have lt: "a < b" by simp
  have upt: "[a..<Suc b] = a # [Suc a..<Suc b]" using lt by (simp add: upt_conv_Cons)
  show ?case
  proof (cases "f ?h (count_list w ?h)")
    case (Inr u)
    then show ?thesis
      by (intro exI [of _ 1] exI [of _ None]) (use lt in \<open>auto simp: upt logged_def simp del: upt_Suc\<close>)
  next
    case (Inl e)
    show ?thesis
    proof (cases "int a > he_retry_attempts en")
      case True
      with Inl lt show ?thesis
        by (intro exI [of _ 1] exI) (auto simp: upt logged_def simp del: upt_Suc)
    next
      case False
      have "n = b - Suc a" "Suc a \<le> b" using Suc.hyps(2) lt by auto
      from Suc.hyps(1) [OF this, of "w @ [?h]"] obtain k err where
        k: "1 \<le> k" "Suc a + k \<le> Suc b"
        and run: "invoke_loop (logged f) (\<lambda>t w. w) en env ev d [Suc a..<Suc b] (w @ [?h]) =
            (err, (w @ [?h]) @ replicate k ?h)"
        and fails: "\<And>j. Suc j < k \<Longrightarrow> isl (f ?h (Suc (count_list w ?h + j)))"
        and last: "err = None \<longleftrightarrow> \<not> isl (f ?h (Suc (count_list w ?h + (k - 1))))"
        by auto
      have all: "isl (f ?h (count_list w ?h + j))" if "Suc j < Suc k" for j
        using that Inl fails [of "j - 1"] by (cases j) auto
      have "invoke_loop (logged f) (\<lambda>t w. w) en env ev d [a..<Suc b] w = (err, w @ replicate (Suc k) ?h)"
        using run Inl False unfolding upt by (simp add: logged_def)
      with k last all show ?thesis
        by (intro exI [of _ "Suc k"] exI [of _ err]) auto
    qed
  qed
qed

lemma invoke_logged:
  "\<exists>k err. 1 \<le> k \<and> int k \<le> max (he_retry_attempts en) 0 + 1 \<and>
    invoke (logged f) (\<lambda>t w. w) en env ev d w = (err, w @ replicate k (he_handler en)) \<and>
    (err = None \<longleftrightarrow> \<not> isl (f (he_handler en) (count_list w (he_handler en) + (k - 1))))"
proof -
  define b where "b = nat (max (he_retry_attempts en) 0 + 1)"
  have b: "int b = max (he_retry_attempts en) 0 + 1" "1 \<le> b" by (auto simp: b_def)
  have upt: "[1..<nat (max (he_retry_attempts en) 0 + 2)] = [1..<Suc b]"
    using b by (intro arg_cong [where f = "upt 1"]) linarith
  from invoke_loop_logged [OF b(2) b(1), of f env ev "d\<lparr>bd_handler := Some (he_name en)\<rparr>" w]
  show ?thesis unfolding invoke_def upt using b(1) by (force simp del: upt_Suc)
qed

lemma invoke_all_logged:
  "\<exists>ks errs'. length ks = length ens \<and>
     (\<forall>i < length ens. 1 \<le> ks ! i \<and> int (ks ! i) \<le> max (he_retry_attempts (ens ! i)) 0 + 1) \<and>
     invoke_all (logged f) (\<lambda>t w. w) ens env ev d (w, errs) =
       (w @ concat (map2 (\<lambda>k en. replicate k (he_handler en)) ks ens), errs @ errs')"
proof (induction ens arbitrary: w errs)
  case Nil
  then show ?case by simp
next
  case (Cons en ens)
  obtain k err where k: "1 \<le> k" "int k \<le> max (he_retry_attempts en) 0 + 1"
    and run: "invoke (logged f) (\<lambda>t w. w) en env ev d w = (err, w @ replicate k (he_handler en))"
    using invoke_logged [of en f env ev d w] by blast
  define errs1 where "errs1 = (case err of None \<Rightarrow> errs | Some h \<Rightarrow> errs @ [h])"
  from Cons.IH [of "w @ replicate k (he_handler en)" errs1] obtain ks es where
    ks: "length ks = length ens" "\<forall>i < length ens. 1 \<le> ks ! i \<and> int (ks ! i) \<le> max (he_retry_attempts (ens ! i)) 0 + 1"
    and rest: "invoke_all (logged f) (\<lambda>t w. w) ens env ev d (w @ replicate k (he_handler en), errs1) =
       ((w @ replicate k (he_handler en)) @ concat (map2 (\<lambda>k en. replicate k (he_handler en)) ks ens), errs1 @ es)"
    by blast
  have "invoke_all (logged f) (\<lambda>t w. w) (en # ens) env ev d (w, errs) =
      (w @ concat (map2 (\<lambda>k en. replicate k (he_handler en)) (k # ks) (en # ens)),
       errs @ ((case err of None \<Rightarrow> [] | Some h \<Rightarrow> [h]) @ es))"
    using run rest by (simp add: errs1_def split: option.splits)
  moreover have "\<forall>i < length (en # ens). 1 \<le> (k # ks) ! i \<and>
      int ((k # ks) ! i) \<le> max (he_retry_attempts ((en # ens) ! i)) 0 + 1"
    using k ks(2) by (auto simp: nth_Cons split: nat.splits)
  ultimately show ?case using ks(1) by (intro exI [of _ "k # ks"] exI conjI) auto
qed

subsection \<open>Invariants of the handlers' state\<close>

lemma invoke_loop_preserves:
  assumes "\<And>h d w. P w \<Longrightarrow> P (snd (run h ev d w))" and "\<And>t w. P w \<Longrightarrow> P (sleep t w)" and "P w"
  shows "P (snd (invoke_loop run sleep en env ev d as w))"
  using assms(3)
proof (induction as arbitrary: w)
  case Nil
  then show ?case by simp
next
  case (Cons a as)
  obtain r w' where r: "run (he_handler en) ev d w = (r, w')" by fastforce
  with assms(1) [OF Cons.prems] have "P w'" by (metis snd_conv)
  with Cons.IH assms(2) show ?case by (cases r) (simp_all add: r)
qed

lemma invoke_all_preserves:
  assumes "\<And>h d w. P w \<Longrightarrow> P (snd (run h ev d w))" and "\<And>t w. P w \<Longrightarrow> P (sleep t w)" and "P w"
  shows "P (fst (invoke_all run sleep ens env ev d (w, errs)))"
  using assms(3)
proof (induction ens arbitrary: w errs)
  case Nil
  then show ?case by simp
next
  case (Cons en ens)
  obtain r w' where r: "invoke run sleep en env ev d w = (r, w')" by fastforce
  have "P (snd (invoke run sleep en env ev d w))"
    unfolding invoke_def by (rule invoke_loop_preserves [where P = P]) (use assms(1,2) Cons.prems in auto)
  with r Cons.IH show ?case by (cases r) simp_all
qed

lemma dispatch_preserves:
  assumes "\<And>h d w. P w \<Longrightarrow> P (snd (run h (en_event env) d w))" and "\<And>t w. P w \<Longrightarrow> P (sleep t w)" and "P w"
    and "mm_stack mm = []"
  shows "P (snd (dispatch run sleep mw_run mm reg t0 t1 env w))"
  using invoke_all_preserves [where P = P and run = run and ev = "en_event env" and sleep = sleep and w = w] assms
  by (auto simp: dispatch_def Let_def manager_chain_def dispatch_terminal_def mark_dispatched_def case_prod_unfold)

text \<open>Handlers with a fixed outcome: the log and the errors can be computed.\<close>

definition total_attempts :: "'h handler_entry \<Rightarrow> nat" where
  "total_attempts en = nat (max (he_retry_attempts en) 0) + 1"

definition failure_of :: "('h \<Rightarrow> exn + unit) \<Rightarrow> envelope \<Rightarrow> 'h handler_entry \<Rightarrow> handler_error list" where
  "failure_of g env en =
     (case g (he_handler en) of
        Inr u \<Rightarrow> []
      | Inl e \<Rightarrow> [\<lparr>hr_handler = he_name en, hr_event_type = envelope_type env, hr_envelope_id = en_id env,
                  hr_original = e, hr_attempt = int (total_attempts en)\<rparr>])"

definition calls_of :: "('h \<Rightarrow> exn + unit) \<Rightarrow> 'h handler_entry \<Rightarrow> 'h list" where
  "calls_of g en = replicate (if isl (g (he_handler en)) then total_attempts en else 1) (he_handler en)"

lemma invoke_loop_failing:
  assumes "g (he_handler en) = Inl e" and "1 \<le> a" and "a \<le> total_attempts en"
  shows "invoke_loop (logged (\<lambda>h k. g h)) (\<lambda>t w. w) en env ev d [a..<Suc (total_attempts en)] w =
    (Some \<lparr>hr_handler = he_name en, hr_event_type = envelope_type env, hr_envelope_id = en_id env,
           hr_original = e, hr_attempt = int (total_attempts en)\<rparr>,
     w @ replicate (Suc (total_attempts en) - a) (he_handler en))"
  using assms(2,3)
proof (induction "total_attempts en - a" arbitrary: a w)
  case 0
  then have "a = total_attempts en" by simp
  moreover have "he_retry_attempts en < int (total_attempts en)" by (simp add: total_attempts_def)
  ultimately show ?case using assms(1) by (simp add: logged_def)
next
  case (Suc n)
  then have lt: "a < total_attempts en" by simp
  have upt: "[a..<Suc (total_attempts en)] = a # [Suc a..<Suc (total_attempts en)]"
    using lt by (simp add: upt_conv_Cons)
  have no: "\<not> int a > he_retry_attempts en" using lt Suc.prems(1) by (simp add: total_attempts_def)
  have "n = total_attempts en - Suc a" using Suc.hyps(2) by simp
  from Suc.hyps(1) [OF this, of "w @ [he_handler en]"] lt no assms(1) show ?case
    unfolding upt by (simp add: logged_def Suc_diff_le)
qed

lemma invoke_fixed:
  "invoke (logged (\<lambda>h k. g h)) (\<lambda>t w. w) en env ev d w =
     (case failure_of g env en of [] \<Rightarrow> None | h # hs \<Rightarrow> Some h, w @ calls_of g en)"
proof -
  have upt: "[1..<nat (max (he_retry_attempts en) 0 + 2)] = [1..<Suc (total_attempts en)]"
    by (intro arg_cong [where f = "upt 1"]) (simp add: total_attempts_def nat_add_distrib)
  show ?thesis
  proof (cases "g (he_handler en)")
    case (Inl e)
    have "1 \<le> total_attempts en" by (simp add: total_attempts_def)
    from invoke_loop_failing [of g, OF Inl _ this] Inl show ?thesis
      unfolding invoke_def upt by (simp add: failure_of_def calls_of_def del: upt_Suc)
  next
    case (Inr u)
    have "[1..<Suc (total_attempts en)] = 1 # [2..<Suc (total_attempts en)]"
      by (simp add: upt_conv_Cons numeral_2_eq_2 total_attempts_def)
    with Inr show ?thesis
      unfolding invoke_def upt by (simp add: failure_of_def calls_of_def logged_def del: upt_Suc)
  qed
qed

lemma invoke_all_fixed:
  "invoke_all (logged (\<lambda>h k. g h)) (\<lambda>t w. w) ens env ev d (w, errs) =
     (w @ concat (map (calls_of g) ens), errs @ concat (map (failure_of g env) ens))"
proof (induction ens arbitrary: w errs)
  case Nil
  then show ?case by simp
next
  case (Cons en ens)
  have "failure_of g env en = [] \<or> (\<exists>h. failure_of g env en = [h])"
    by (simp add: failure_of_def split: sum.splits)
  with Cons show ?case by (auto simp: invoke_fixed)
qed

subsection \<open>Properties\<close>

text \<open>
  Handler failures are isolated: with no middleware, a dispatch invokes every matching handler, in matching order,
  at least once and at most \<open>retry_attempts + 1\<close> times, whatever the other handlers do; it
  raises nothing, and no middleware error is reported.
\<close>

theorem dispatch_isolates_handlers:
  assumes "mm_stack mm = []"
  shows "\<exists>ks errs. length ks = length (registry_match reg (en_event env)) \<and>
    (\<forall>i. i < length ks \<longrightarrow> 1 \<le> ks ! i \<and>
       int (ks ! i) \<le> max (he_retry_attempts (registry_match reg (en_event env) ! i)) 0 + 1) \<and>
    dispatch (logged f) (\<lambda>t w. w) mw_run mm reg t0 t1 env [] =
      (\<lparr>dr_envelope = mark_completed t1 (mark_dispatched t0 env), dr_handler_errors = errs,
        dr_middleware_error = None\<rparr>,
       concat (map2 (\<lambda>k en. replicate k (he_handler en)) ks (registry_match reg (en_event env))))"
proof -
  let ?env = "mark_dispatched t0 env"
  let ?ens = "registry_match reg (en_event env)"
  let ?d = "\<lparr>bd_envelope = ?env, bd_trace_id = en_trace_id ?env, bd_handler = None\<rparr>"
  have ev: "en_event ?env = en_event env" by (simp add: mark_dispatched_def)
  from invoke_all_logged [of ?ens f ?env "en_event env" ?d "[]" "[]"] obtain ks errs where
    ks: "length ks = length ?ens"
      "\<forall>i < length ?ens. 1 \<le> ks ! i \<and> int (ks ! i) \<le> max (he_retry_attempts (?ens ! i)) 0 + 1"
    and run: "invoke_all (logged f) (\<lambda>t w. w) ?ens ?env (en_event env) ?d ([], []) =
      (concat (map2 (\<lambda>k en. replicate k (he_handler en)) ks ?ens), errs)" by auto
  have "dispatch_terminal (logged f) (\<lambda>t w. w) ?ens ?env (en_event env) ?d ([], []) =
      (Inr (), (concat (map2 (\<lambda>k en. replicate k (he_handler en)) ks ?ens), errs))"
    using run by (auto simp: dispatch_terminal_def)
  then have "dispatch (logged f) (\<lambda>t w. w) mw_run mm reg t0 t1 env [] =
      (\<lparr>dr_envelope = mark_completed t1 ?env, dr_handler_errors = errs, dr_middleware_error = None\<rparr>,
       concat (map2 (\<lambda>k en. replicate k (he_handler en)) ks ?ens))"
    using assms by (simp add: dispatch_def Let_def manager_chain_def ev)
  with ks show ?thesis by auto
qed

theorem dispatch_isolates_handlers_witness:
  "\<exists>ks errs. length ks = length (registry_match (snd (registry_add registry_empty
        \<lparr>he_name = ''h'', he_handler = (0::nat), he_event_type = KStr ''*'', he_retry_attempts = 2,
         he_retry_backoff = 1, he_metadata = []\<rparr>)) (mk_event 0 None BaseBody)) \<and>
    (\<forall>i. i < length ks \<longrightarrow> 1 \<le> ks ! i \<and>
       int (ks ! i) \<le> max (he_retry_attempts (registry_match (snd (registry_add registry_empty
        \<lparr>he_name = ''h'', he_handler = (0::nat), he_event_type = KStr ''*'', he_retry_attempts = 2,
         he_retry_backoff = 1, he_metadata = []\<rparr>)) (mk_event 0 None BaseBody) ! i)) 0 + 1) \<and>
    dispatch (logged (\<lambda>h k. if k < 2 then Inl (NetworkError [] []) else Inr ())) (\<lambda>t w. w) (\<lambda>(m::nat). id)
        \<lparr>mm_scope = ''events'', mm_stack = []\<rparr> (snd (registry_add registry_empty
        \<lparr>he_name = ''h'', he_handler = (0::nat), he_event_type = KStr ''*'', he_retry_attempts = 2,
         he_retry_backoff = 1, he_metadata = []\<rparr>)) 1 2
        (mk_envelope (mk_event 0 None BaseBody) ''e'' 0) [] =
      (\<lparr>dr_envelope = mark_completed 2 (mark_dispatched 1 (mk_envelope (mk_event 0 None BaseBody) ''e'' 0)),
        dr_handler_errors = errs, dr_middleware_error = None\<rparr>,
       concat (map2 (\<lambda>k en. replicate k (he_handler en)) ks (registry_match (snd (registry_add registry_empty
        \<lparr>he_name = ''h'', he_handler = (0::nat), he_event_type = KStr ''*'', he_retry_attempts = 2,
         he_retry_backoff = 1, he_metadata = []\<rparr>)) (mk_event 0 None BaseBody))))"
proof -
  let ?reg = "snd (registry_add registry_empty \<lparr>he_name = ''h'', he_handler = (0::nat), he_event_type = KStr ''*'',
    he_retry_attempts = 2, he_retry_backoff = 1, he_metadata = []\<rparr>)"
  let ?env = "mk_envelope (mk_event 0 None BaseBody) ''e'' 0"
  have "en_event ?env = mk_event 0 None BaseBody" by (simp add: mk_envelope_def)
  then show ?thesis
    using dispatch_isolates_handlers [of "\<lparr>mm_scope = ''events'', mm_stack = []\<rparr>" ?reg ?env] by simp
qed

text \<open>
  The report of a dispatch is exact: when every handler either always fails or always succeeds, each failing
  handler is called \<open>retry_attempts + 1\<close> times and each other one once, and the result lists one
  error per failing handler, in matching order, with the number of its last attempt.
\<close>

theorem dispatch_report:
  assumes "mm_stack mm = []"
  shows "dispatch (logged (\<lambda>h k. g h)) (\<lambda>t w. w) mw_run mm reg t0 t1 env [] =
    (\<lparr>dr_envelope = mark_completed t1 (mark_dispatched t0 env),
      dr_handler_errors = concat (map (failure_of g (mark_dispatched t0 env)) (registry_match reg (en_event env))),
      dr_middleware_error = None\<rparr>,
     concat (map (calls_of g) (registry_match reg (en_event env))))"
proof -
  have ev: "en_event (mark_dispatched t0 env) = en_event env" by (simp add: mark_dispatched_def)
  show ?thesis
    using assms by (auto simp: dispatch_def Let_def manager_chain_def ev dispatch_terminal_def invoke_all_fixed)
qed

theorem dispatch_report_witness:
  "dispatch (logged (\<lambda>h k. Inl (NetworkError [] []))) (\<lambda>t w. w) (\<lambda>(m::nat). id)
      \<lparr>mm_scope = ''events'', mm_stack = []\<rparr> (snd (registry_add registry_empty \<lparr>he_name = ''h'', he_handler = (0::nat),
         he_event_type = KStr ''*'', he_retry_attempts = 2, he_retry_backoff = 1, he_metadata = []\<rparr>)) 1 2
      (mk_envelope (mk_event 0 None BaseBody) ''e'' 0) [] =
    (\<lparr>dr_envelope = mark_completed 2 (mark_dispatched 1 (mk_envelope (mk_event 0 None BaseBody) ''e'' 0)),
      dr_handler_errors = concat (map (failure_of (\<lambda>h. Inl (NetworkError [] []))
         (mark_dispatched 1 (mk_envelope (mk_event 0 None BaseBody) ''e'' 0)))
         (registry_match (snd (registry_add registry_empty \<lparr>he_name = ''h'', he_handler = (0::nat),
         he_event_type = KStr ''*'', he_retry_attempts = 2, he_retry_backoff = 1, he_metadata = []\<rparr>)) (en_event (mk_envelope (mk_event 0 None BaseBody) ''e'' 0)))),
      dr_middleware_error = None\<rparr>,
     concat (map (calls_of (\<lambda>h. Inl (NetworkError [] [])))
         (registry_match (snd (registry_add registry_empty \<lparr>he_name = ''h'', he_handler = (0::nat),
         he_event_type = KStr ''*'', he_retry_attempts = 2, he_retry_backoff = 1, he_metadata = []\<rparr>)) (en_event (mk_envelope (mk_event 0 None BaseBody) ''e'' 0)))))"
  by (rule dispatch_report [where g = "\<lambda>h. Inl (NetworkError [] [])"]) simp

end
