(* ===== verification/Orchestrator.thy ===== *)
theory Orchestrator
  imports Selector Affinity Availability Bus_Dispatch
begin

section \<open>The orchestrator: routing work over a pool of accounts\<close>

text \<open>
  \<^verbatim>\<open>claude_ai/orchestrator/orchestrator.py\<close>. One record holds what a
  \<^verbatim>\<open>ClaudeOrchestrator\<close> owns: the client and tier tables, the trackers, the storage they share, the
  selector and its side of the bus (the handler registry, the events published and not yet dispatched). \<open>or_clock\<close>
  is the current time, which every operation reads; time passes between operations. An operation is atomic: the
  coroutines change the in-memory state without waiting in between. Clients' calls (\<^verbatim>\<open>open\<close>,
  \<^verbatim>\<open>send_message\<close>) are arguments where their results matter.
\<close>

datatype orch_handler =
    LimitsOnEvent | AvailabilityOnLimit | MetricsOnStarted | MetricsOnComplete | ProxiesOnInvalid
  | AvailabilityOnExpired | OnAccountExpired | RecorderOnChunk

record trackers =
  tr_limits :: limit_tracker
  tr_metrics :: message_metrics
  tr_proxies :: proxy_blacklist
  tr_recorder :: "stream_recorder option"

record orch_bus =
  ob_registry :: "orch_handler registry"
  ob_outbox :: "event list"     \<comment> \<open>published, not yet dispatched\<close>
  ob_running :: bool
  ob_closed :: bool

record 's orchestrator =
  or_clock :: pyfloat
  or_clients :: "client dict"
  or_tiers :: "account_tier dict"
  or_bus :: orch_bus
  or_subs :: "orch_handler entry_ref list"
  or_cache :: "nat option"
  or_storage :: 's
  or_storage_open :: bool
  or_owns_storage :: bool
  or_relogin :: bool                       \<comment> \<open>whether a relogin hook is installed\<close>
  or_relogin_tasks :: "account_id list"
  or_trackers :: trackers
  or_pins :: pins
  or_avail :: avail
  or_selector :: selector
  or_started :: bool

definition or_init ::
  "pyfloat \<Rightarrow> 's \<Rightarrow> bool \<Rightarrow> selector option \<Rightarrow> nat option \<Rightarrow> bool \<Rightarrow> int option \<Rightarrow> pyfloat \<Rightarrow> 's orchestrator" where
  \<comment> \<open>\<open>__init__\<close>: the storage and whether it is the orchestrator's own, the selector, the cache, the
     relogin hook, the buffer size when streams are recorded, the park threshold\<close>
  "or_init now s owns sel cache relogin record_size threshold =
     \<lparr>or_clock = now, or_clients = [], or_tiers = [],
      or_bus = \<lparr>ob_registry = registry_empty, ob_outbox = [], ob_running = False, ob_closed = False\<rparr>,
      or_subs = [], or_cache = cache, or_storage = s, or_storage_open = True, or_owns_storage = owns,
      or_relogin = relogin, or_relogin_tasks = [],
      or_trackers = \<lparr>tr_limits = [], tr_metrics = [], tr_proxies = [],
        tr_recorder = map_option (\<lambda>n. \<lparr>sr_max = n, sr_buffers = []\<rparr>) record_size\<rparr>,
      or_pins = [], or_avail = av_init threshold 300,
      or_selector = (case sel of None \<Rightarrow> BusBackedLeastUtilizationSelector | Some x \<Rightarrow> x),
      or_started = False\<rparr>"

subsection \<open>Event handlers\<close>

definition or_set_avail :: "'s orchestrator \<Rightarrow> avail \<times> 's option \<Rightarrow> 's orchestrator" where
  \<comment> \<open>write back the availability tracker and the storage it shares\<close>
  "or_set_avail o' t = o'\<lparr>or_avail := fst t, or_storage := (case snd t of None \<Rightarrow> or_storage o' | Some s \<Rightarrow> s)\<rparr>"

definition or_on_account_expired :: "account_id option \<Rightarrow> 's orchestrator \<Rightarrow> 's orchestrator" where
  \<comment> \<open>\<open>_on_account_expired\<close>: start a relogin task for a registered client\<close>
  "or_on_account_expired acc o' =
     (if \<not> or_relogin o' then o'
      else (case dict_get (or_clients o') (case acc of None \<Rightarrow> [] | Some a \<Rightarrow> a) of
              None \<Rightarrow> o'
            | Some c \<Rightarrow> o'\<lparr>or_relogin_tasks := or_relogin_tasks o' @ [cl_account_id c]\<rparr>))"

definition lift_py :: "(py_error + 's orchestrator) \<Rightarrow> 's orchestrator \<Rightarrow> (exn + unit) \<times> 's orchestrator" where
  "lift_py r o' = (case r of Inl e \<Rightarrow> (Inl (Py e), o') | Inr o'' \<Rightarrow> (Inr (), o''))"

fun or_run_handler :: "'s storage_ops \<Rightarrow> (orch_handler, 's orchestrator) run_handler" where
  \<comment> \<open>the behaviour of the subscribed handlers on an event of their class\<close>
  "or_run_handler st h ev d o' =
     (let now = or_clock o'; acc = ev_account_id ev; tr = or_trackers o';
          wrong = (Inl (Py (AttributeError (ev_type ev))), o')
      in case (h, ev_body ev) of
           (LimitsOnEvent, LimitUpdatedEvent windows claim overage) \<Rightarrow>
             lift_py (bind_result (limit_on_event (tr_limits tr) acc windows claim overage now)
               (\<lambda>l. Inr (o'\<lparr>or_trackers := tr\<lparr>tr_limits := l\<rparr>\<rparr>))) o'
         | (AvailabilityOnLimit, LimitUpdatedEvent windows claim overage) \<Rightarrow>
             lift_py (bind_result (av_on_limit st now (or_avail o', Some (or_storage o')) acc windows)
               (\<lambda>t. Inr (or_set_avail o' t))) o'
         | (MetricsOnStarted, AssistantMessageStartedEvent conv msg parent model) \<Rightarrow>
             (Inr (), o'\<lparr>or_trackers := tr\<lparr>tr_metrics := metrics_on_started (tr_metrics tr) acc model\<rparr>\<rparr>)
         | (MetricsOnComplete, AssistantMessageCompleteEvent conv msg text thinking stop tokens) \<Rightarrow>
             (Inr (), o'\<lparr>or_trackers := tr\<lparr>tr_metrics := metrics_on_complete (tr_metrics tr) acc tokens now\<rparr>\<rparr>)
         | (ProxiesOnInvalid, ProxyInvalidEvent url reason) \<Rightarrow>
             (Inr (), o'\<lparr>or_trackers := tr\<lparr>tr_proxies := proxies_on_invalid (tr_proxies tr) url reason now\<rparr>\<rparr>)
         | (AvailabilityOnExpired, AccountExpiredEvent reason) \<Rightarrow>
             (Inr (), or_set_avail o' (av_on_expired st (or_avail o', Some (or_storage o')) acc reason))
         | (OnAccountExpired, AccountExpiredEvent reason) \<Rightarrow> (Inr (), or_on_account_expired acc o')
         | (RecorderOnChunk, StreamChunkEvent conv e) \<Rightarrow>
             (case tr_recorder tr of
                None \<Rightarrow> wrong
              | Some r \<Rightarrow> lift_py (bind_result (recorder_on_chunk r conv e)
                  (\<lambda>r'. Inr (o'\<lparr>or_trackers := tr\<lparr>tr_recorder := Some r'\<rparr>\<rparr>))) o')
         | _ \<Rightarrow> wrong)"

definition handler_entry_for :: "orch_handler \<Rightarrow> event_class \<Rightarrow> orch_handler handler_entry" where
  \<comment> \<open>an entry with the defaults of \<open>subscribe\<close>; its name is not used by the orchestrator\<close>
  "handler_entry_for h c =
     \<lparr>he_name = default_type c, he_handler = h, he_event_type = KClass c, he_retry_attempts = 0,
      he_retry_backoff = 1/2, he_metadata = []\<rparr>"

definition handler_table :: "bool \<Rightarrow> (event_class \<times> orch_handler) list" where
  \<comment> \<open>the subscriptions of \<open>_register_handlers\<close>, in order\<close>
  "handler_table recording =
     [(CLimitUpdatedEvent, LimitsOnEvent), (CLimitUpdatedEvent, AvailabilityOnLimit),
      (CAssistantMessageStartedEvent, MetricsOnStarted), (CAssistantMessageCompleteEvent, MetricsOnComplete),
      (CProxyInvalidEvent, ProxiesOnInvalid), (CAccountExpiredEvent, AvailabilityOnExpired),
      (CAccountExpiredEvent, OnAccountExpired)] @
     (if recording then [(CStreamChunkEvent, RecorderOnChunk)] else [])"

fun register_all ::
  "(event_class \<times> orch_handler) list \<Rightarrow> orch_handler registry \<times> orch_handler entry_ref list
     \<Rightarrow> orch_handler registry \<times> orch_handler entry_ref list" where
  "register_all [] acc = acc"
| "register_all ((c, h) # rest) (r, subs) =
     (let (ref, r') = registry_add r (handler_entry_for h c) in register_all rest (r', subs @ [ref]))"

definition or_register_handlers :: "'s orchestrator \<Rightarrow> 's orchestrator" where
  "or_register_handlers o' =
     (let (r, subs) = register_all (handler_table (tr_recorder (or_trackers o') \<noteq> None))
                        (ob_registry (or_bus o'), or_subs o')
      in o'\<lparr>or_bus := (or_bus o')\<lparr>ob_registry := r\<rparr>, or_subs := subs\<rparr>)"

definition or_start :: "(pyfloat \<Rightarrow> string) \<Rightarrow> 's storage_ops \<Rightarrow> 's orchestrator \<Rightarrow> (exn + unit) \<times> 's orchestrator" where
  "or_start fr st o' =
     (if or_started o' then (Inr (), o')
      else if ob_closed (or_bus o') then (Inl (EventBusClosedError ''bus already closed'' []), o')
      else (let o1 = or_register_handlers (o'\<lparr>or_bus := (or_bus o')\<lparr>ob_running := True\<rparr>\<rparr>);
                o2 = o1\<lparr>or_pins := aff_load fr st (or_pins o1) (Some (or_storage o1))\<rparr>
            in case av_load st (or_clock o2) (or_avail o2, Some (or_storage o2)) of
                 Inl e \<Rightarrow> (Inl (Py e), o2)
               | Inr t \<Rightarrow> (Inr (), (or_set_avail o2 t)\<lparr>or_started := True\<rparr>)))"

subsection \<open>Membership\<close>

definition or_add ::
  "(pyfloat \<Rightarrow> string) \<Rightarrow> 's storage_ops \<Rightarrow> client \<Rightarrow> account_tier \<Rightarrow> 's orchestrator \<Rightarrow> (exn + unit) \<times> 's orchestrator" where
  "or_add fr st c tier o' =
     (case (if or_started o' then (Inr (), o') else or_start fr st o') of
        (Inl e, o1) \<Rightarrow> (Inl e, o1)
      | (Inr _, o1) \<Rightarrow>
          (let c1 = c\<lparr>cl_bus := True, cl_opened := True,
                      cl_cache := (case cl_cache c of None \<Rightarrow> or_cache o1 | Some x \<Rightarrow> Some x)\<rparr>
           in (Inr (), o1\<lparr>or_clients := dict_set (or_clients o1) (cl_account_id c) c1,
                          or_tiers := dict_set (or_tiers o1) (cl_account_id c) tier\<rparr>)))"

definition or_remove :: "'s storage_ops \<Rightarrow> account_id \<Rightarrow> 's orchestrator \<Rightarrow> client option \<times> 's orchestrator" where
  "or_remove st a o' =
     (let c = dict_get (or_clients o') a;
          o1 = o'\<lparr>or_clients := dict_del (or_clients o') a, or_tiers := dict_del (or_tiers o') a\<rparr>;
          (pins, so) = aff_drop_account st (or_pins o1, Some (or_storage o1)) a;
          t = av_release st (or_avail o1, so) a
      in (map_option (\<lambda>c. c\<lparr>cl_opened := False\<rparr>) c, or_set_avail (o1\<lparr>or_pins := pins\<rparr>) t))"

definition tier_ok :: "'s orchestrator \<Rightarrow> account_id \<Rightarrow> account_tier option \<Rightarrow> bool" where
  "tier_ok o' a min_tier =
     (case min_tier of None \<Rightarrow> True | Some m \<Rightarrow> dict_getd (or_tiers o') a FREE \<ge> m)"

subsection \<open>Routing\<close>

fun pick_candidates ::
  "'s orchestrator \<Rightarrow> account_tier option \<Rightarrow> account_id list \<Rightarrow> client list \<Rightarrow> avail \<Rightarrow> client list \<times> avail" where
  \<comment> \<open>the list comprehension of \<open>pick\<close>: \<open>is_available\<close> is asked, and may forget an expired park, only for
     accounts that are not excluded\<close>
  "pick_candidates o' min_tier excl [] t = ([], t)"
| "pick_candidates o' min_tier excl (c # cs) t =
     (if cl_account_id c \<in> set excl then pick_candidates o' min_tier excl cs t
      else (let (ok, t1) = av_is_available t (cl_account_id c) (or_clock o');
                (rest, t2) = pick_candidates o' min_tier excl cs t1
            in (if ok \<and> tier_ok o' (cl_account_id c) min_tier then c # rest else rest, t2)))"

definition pick_pinned ::
  "string option \<Rightarrow> account_tier option \<Rightarrow> account_id list \<Rightarrow> 's orchestrator \<Rightarrow> client option \<times> 's orchestrator" where
  \<comment> \<open>the affinity branch of \<open>pick\<close>\<close>
  "pick_pinned key min_tier excl o' =
     (case key of
        None \<Rightarrow> (None, o')
      | Some k \<Rightarrow>
          (case aff_get (or_pins o') k of
             None \<Rightarrow> (None, o')
           | Some a \<Rightarrow>
               if a \<in> set excl then (None, o')
               else (case dict_get (or_clients o') a of
                       None \<Rightarrow> (None, o')
                     | Some c \<Rightarrow>
                         (let (ok, t) = av_is_available (or_avail o') a (or_clock o');
                              o1 = o'\<lparr>or_avail := t\<rparr>
                          in (if ok \<and> tier_ok o' a min_tier then Some c else None, o1)))))"

definition or_pick ::
  "'s storage_ops \<Rightarrow> string option \<Rightarrow> account_tier option \<Rightarrow> account_id list \<Rightarrow> 's orchestrator
     \<Rightarrow> (exn + client) \<times> 's orchestrator" where
  "or_pick st key min_tier excl o' =
     (if or_clients o' = [] then (Inl (Py (RuntimeError ''Orchestrator has no clients'')), o')
      else (case pick_pinned key min_tier excl o' of
              (Some c, o1) \<Rightarrow> (Inr c, o1)
            | (None, o1) \<Rightarrow>
                (let (cands, t) = pick_candidates o1 min_tier excl (dict_values (or_clients o1)) (or_avail o1);
                     o2 = o1\<lparr>or_avail := t\<rparr>
                 in if cands = [] then (Inl (NoAvailableAccounts (av_soonest_release t)), o2)
                    else (case selector_pick (tr_limits (or_trackers o2)) (tr_metrics (or_trackers o2))
                                 (or_clock o2) (or_selector o2) cands of
                            Inl e \<Rightarrow> (Inl e, o2)
                          | Inr (c, sel) \<Rightarrow>
                              (let o3 = o2\<lparr>or_selector := sel\<rparr>
                               in case key of
                                    None \<Rightarrow> (Inr c, o3)
                                  | Some k \<Rightarrow>
                                      (let (pins, so) = aff_pin st (or_pins o3, Some (or_storage o3)) k (cl_account_id c)
                                       in (Inr c, o3\<lparr>or_pins := pins,
                                             or_storage := (case so of None \<Rightarrow> or_storage o3 | Some s \<Rightarrow> s)\<rparr>)))))))"

definition or_get :: "account_id \<Rightarrow> 's orchestrator \<Rightarrow> exn + client" where
  "or_get a o' =
     (case dict_get (or_clients o') a of
        None \<Rightarrow> Inl (Py (KeyError (''No client with account_id='' @ repr_str a)))
      | Some c \<Rightarrow> Inr c)"

subsection \<open>Expiry and relogin\<close>

definition or_publish :: "event \<Rightarrow> 's orchestrator \<Rightarrow> (exn + unit) \<times> 's orchestrator" where
  \<comment> \<open>\<open>bus.publish\<close>: a closed or stopped bus refuses\<close>
  "or_publish ev o' =
     (if ob_closed (or_bus o')
      then (Inl (EventBusClosedError ''bus is closed'' [(''event_type'', repr_str (ev_type ev))]), o')
      else if \<not> ob_running (or_bus o')
      then (Inl (WorkerStoppedError ''cannot enqueue: worker not running'' [(''event_type'', repr_str (ev_type ev))]), o')
      else (Inr (), o'\<lparr>or_bus := (or_bus o')\<lparr>ob_outbox := ob_outbox (or_bus o') @ [ev]\<rparr>\<rparr>))"

definition or_report_expired :: "account_id \<Rightarrow> string \<Rightarrow> 's orchestrator \<Rightarrow> (exn + unit) \<times> 's orchestrator" where
  "or_report_expired a reason o' =
     or_publish (mk_event (or_clock o') (Some a) (AccountExpiredEvent reason)) o'"

definition or_dispatch :: "'s storage_ops \<Rightarrow> event \<Rightarrow> 's orchestrator \<Rightarrow> dispatch_result \<times> 's orchestrator" where
  \<comment> \<open>the dispatcher of the bus on one event; the bus has no middleware of its own\<close>
  "or_dispatch st ev o' =
     dispatch (or_run_handler st) (\<lambda>t w. w) (\<lambda>(m::unit). id) \<lparr>mm_scope = ''events'', mm_stack = []\<rparr>
       (ob_registry (or_bus o')) (or_clock o') (or_clock o') (mk_envelope ev [] (or_clock o')) o'"

definition or_deliver :: "'s storage_ops \<Rightarrow> 's orchestrator \<Rightarrow> 's orchestrator" where
  \<comment> \<open>the bus dispatches the oldest published event\<close>
  "or_deliver st o' =
     (case ob_outbox (or_bus o') of
        [] \<Rightarrow> o'
      | ev # rest \<Rightarrow> snd (or_dispatch st ev (o'\<lparr>or_bus := (or_bus o')\<lparr>ob_outbox := rest\<rparr>\<rparr>)))"

definition or_run_relogin :: "'s storage_ops \<Rightarrow> account_id \<Rightarrow> exn + bool \<Rightarrow> 's orchestrator \<Rightarrow> 's orchestrator" where
  \<comment> \<open>\<open>_run_relogin\<close> of a task, given what the hook returned or raised; the task leaves the task set\<close>
  "or_run_relogin st a outcome o' =
     (let o1 = o'\<lparr>or_relogin_tasks := remove1 a (or_relogin_tasks o')\<rparr>
      in if outcome = Inr True \<and> or_relogin o'
         then or_set_avail o1 (av_release st (or_avail o1, Some (or_storage o1)) a)
         else o1)"

subsection \<open>Sending and closing\<close>

definition or_send_message ::
  "'s storage_ops \<Rightarrow> (client \<Rightarrow> string \<Rightarrow> exn + string) \<Rightarrow> (client \<Rightarrow> string \<Rightarrow> string \<Rightarrow> exn + 'r) \<Rightarrow> string \<Rightarrow> string option
     \<Rightarrow> 's orchestrator \<Rightarrow> (exn + 'r) \<times> 's orchestrator" where
  \<comment> \<open>\<open>create\<close> and \<open>send\<close> are the calls \<open>create_conversation_for_prompt\<close> and \<open>send_message\<close> of the client\<close>
  "or_send_message st create send prompt conv o' =
     (case or_pick st conv None [] o' of
        (Inl e, o1) \<Rightarrow> (Inl e, o1)
      | (Inr c, o1) \<Rightarrow>
          (case conv of
             Some u \<Rightarrow> (send c u prompt, o1)
           | None \<Rightarrow>
               (case create c prompt of
                  Inl e \<Rightarrow> (Inl e, o1)
                | Inr u \<Rightarrow>
                    (let (pins, so) = aff_pin st (or_pins o1, Some (or_storage o1)) u (cl_account_id c)
                     in (send c u prompt, o1\<lparr>or_pins := pins,
                           or_storage := (case so of None \<Rightarrow> or_storage o1 | Some s \<Rightarrow> s)\<rparr>)))))"

definition or_close :: "'s orchestrator \<Rightarrow> 's orchestrator" where
  \<comment> \<open>errors of the single steps are logged or ignored; the bus drains before it closes\<close>
  "or_close o' =
     o'\<lparr>or_relogin_tasks := [], or_clients := [], or_tiers := [], or_subs := [],
        or_bus := \<lparr>ob_registry = foldl registry_remove (ob_registry (or_bus o')) (or_subs o'), ob_outbox = [],
                   ob_running = False, ob_closed = True\<rparr>,
        or_storage_open := (if or_owns_storage o' then False else or_storage_open o'),
        or_started := False\<rparr>"

end
