(* ===== verification/Routing.thy ===== *)
theory Routing
  imports Orchestrator
begin

section \<open>Correctness of the routing decisions\<close>

text \<open>
  What \<^verbatim>\<open>ClaudeOrchestrator.pick\<close> guarantees: which accounts it may return, when it raises, which
  one the selector makes it prefer, what affinity adds, and how expiry, relogin and removal change the pool.
\<close>

definition eligible :: "'s orchestrator \<Rightarrow> account_tier option \<Rightarrow> account_id list \<Rightarrow> account_id \<Rightarrow> bool" where
  \<comment> \<open>specification: an account \<open>pick\<close> may return\<close>
  "eligible o' min_tier excl a \<longleftrightarrow> dict_get (or_clients o') a \<noteq> None \<and> a \<notin> set excl \<and>
     available_at (or_avail o') a (or_clock o') \<and> tier_ok o' a min_tier"

definition or_inv :: "'s orchestrator \<Rightarrow> bool" where
  "or_inv o' \<longleftrightarrow> dict_ok (or_clients o') \<and> (\<forall>(a, c) \<in> set (or_clients o'). cl_account_id c = a) \<and>
     dict_keys (or_tiers o') = dict_keys (or_clients o') \<and> dict_ok (or_pins o') \<and> dict_ok (av_parked (or_avail o'))"

lemma or_inv_client: "or_inv o' \<Longrightarrow> dict_get (or_clients o') a = Some c \<Longrightarrow> cl_account_id c = a"
  by (auto simp: or_inv_def dest!: map_of_SomeD)

lemma or_inv_values:
  "or_inv o' \<Longrightarrow> c \<in> set (dict_values (or_clients o')) \<longleftrightarrow> dict_get (or_clients o') (cl_account_id c) = Some c"
  by (force simp: or_inv_def dict_get_in_iff)

lemma tier_ok_simps [simp]:
  "tier_ok (o'\<lparr>or_avail := t\<rparr>) a m = tier_ok o' a m"
  by (simp add: tier_ok_def split: option.splits)

subsection \<open>The candidates\<close>

lemma pick_candidates_spec:
  "fst (pick_candidates o' m excl cs t) =
     filter (\<lambda>c. cl_account_id c \<notin> set excl \<and> available_at t (cl_account_id c) (or_clock o') \<and> tier_ok o' (cl_account_id c) m) cs \<and>
   (\<forall>a n. or_clock o' \<le> n \<longrightarrow> available_at (snd (pick_candidates o' m excl cs t)) a n = available_at t a n)"
proof (induction cs arbitrary: t)
  case Nil
  then show ?case by simp
next
  case (Cons c cs)
  obtain ok t1 where q: "av_is_available t (cl_account_id c) (or_clock o') = (ok, t1)" by fastforce
  have ok: "ok = available_at t (cl_account_id c) (or_clock o')" by (simp add: available_at_def q)
  have st: "available_at t1 a n = available_at t a n" if "or_clock o' \<le> n" for a n
    using is_available_stable [OF that, of t "cl_account_id c" a] by (simp add: q)
  show ?case
    using Cons.IH [of t1] Cons.IH [of t] q ok st
    by (auto simp: Let_def split: prod.splits)
qed

lemma pick_pinned_spec:
  assumes "or_inv o'"
  shows "\<exists>t. snd (pick_pinned key m excl o') = o'\<lparr>or_avail := t\<rparr> \<and>
      (\<forall>a n. or_clock o' \<le> n \<longrightarrow> available_at t a n = available_at (or_avail o') a n)"
    and "fst (pick_pinned key m excl o') =
      (case key of None \<Rightarrow> None
       | Some k \<Rightarrow> (case dict_get (or_pins o') k of None \<Rightarrow> None
                  | Some a \<Rightarrow> if eligible o' m excl a then dict_get (or_clients o') a else None))"
proof -
  have same: "\<exists>t. o' = o'\<lparr>or_avail := t\<rparr> \<and> (\<forall>a n. or_clock o' \<le> n \<longrightarrow> available_at t a n = available_at (or_avail o') a n)"
    by (rule exI [of _ "or_avail o'"]) simp
  show "\<exists>t. snd (pick_pinned key m excl o') = o'\<lparr>or_avail := t\<rparr> \<and>
      (\<forall>a n. or_clock o' \<le> n \<longrightarrow> available_at t a n = available_at (or_avail o') a n)"
    using same is_available_stable
    by (auto simp: pick_pinned_def aff_get_def Let_def case_prod_unfold split: option.splits)
  show "fst (pick_pinned key m excl o') =
      (case key of None \<Rightarrow> None
       | Some k \<Rightarrow> (case dict_get (or_pins o') k of None \<Rightarrow> None
                  | Some a \<Rightarrow> if eligible o' m excl a then dict_get (or_clients o') a else None))"
    by (auto simp: pick_pinned_def aff_get_def eligible_def available_at_def Let_def case_prod_unfold split: option.splits)
qed

subsection \<open>The decision\<close>

definition pinned_choice :: "string option \<Rightarrow> account_tier option \<Rightarrow> account_id list \<Rightarrow> 's orchestrator \<Rightarrow> client option" where
  \<comment> \<open>the client of the pinned account, if it is eligible\<close>
  "pinned_choice key m excl o' =
     (case key of None \<Rightarrow> None
      | Some k \<Rightarrow> (case dict_get (or_pins o') k of None \<Rightarrow> None
                 | Some a \<Rightarrow> if eligible o' m excl a then dict_get (or_clients o') a else None))"

definition candidates :: "account_tier option \<Rightarrow> account_id list \<Rightarrow> 's orchestrator \<Rightarrow> client list" where
  "candidates m excl o' = filter (\<lambda>c. eligible o' m excl (cl_account_id c)) (dict_values (or_clients o'))"

lemma candidates_iff:
  "or_inv o' \<Longrightarrow> c \<in> set (candidates m excl o') \<longleftrightarrow>
     dict_get (or_clients o') (cl_account_id c) = Some c \<and> eligible o' m excl (cl_account_id c)"
  using or_inv_values [of o' c] by (auto simp: candidates_def)

lemma candidates_empty:
  assumes "or_inv o'"
  shows "candidates m excl o' = [] \<longleftrightarrow> (\<forall>a. \<not> eligible o' m excl a)"
proof
  show "\<forall>a. \<not> eligible o' m excl a" if "candidates m excl o' = []"
  proof (intro allI notI)
    fix a assume e: "eligible o' m excl a"
    then obtain c where c: "dict_get (or_clients o') a = Some c" by (auto simp: eligible_def)
    with assms e have "c \<in> set (candidates m excl o')" by (simp add: candidates_iff or_inv_client)
    with that show False by simp
  qed
  show "candidates m excl o' = []" if "\<forall>a. \<not> eligible o' m excl a"
    using that by (simp add: candidates_def)
qed

definition pick_spec ::
  "'s storage_ops \<Rightarrow> string option \<Rightarrow> account_tier option \<Rightarrow> account_id list \<Rightarrow> avail \<Rightarrow> 's orchestrator
     \<Rightarrow> (exn + client) \<times> 's orchestrator" where
  \<comment> \<open>specification of \<open>pick\<close>: the pinned client if it is eligible, else the selector's choice among the
     eligible ones; \<open>t\<close> is the availability tracker after the queries\<close>
  "pick_spec st key m excl t o' =
     (case pinned_choice key m excl o' of
          Some c \<Rightarrow> (Inr c, o'\<lparr>or_avail := t\<rparr>)
         | None \<Rightarrow>
             if candidates m excl o' = [] then (Inl (NoAvailableAccounts (av_soonest_release t)), o'\<lparr>or_avail := t\<rparr>)
             else (case selector_pick (tr_limits (or_trackers o')) (tr_metrics (or_trackers o'))
                          (or_clock o') (or_selector o') (candidates m excl o') of
                     Inl e \<Rightarrow> (Inl e, o'\<lparr>or_avail := t\<rparr>)
                   | Inr (c, sel) \<Rightarrow>
                       (case key of
                          None \<Rightarrow> (Inr c, o'\<lparr>or_avail := t, or_selector := sel\<rparr>)
                        | Some k \<Rightarrow>
                            (Inr c, o'\<lparr>or_avail := t, or_selector := sel,
                               or_pins := fst (aff_pin st (or_pins o', Some (or_storage o')) k (cl_account_id c)),
                               or_storage := the (snd (aff_pin st (or_pins o', Some (or_storage o')) k (cl_account_id c)))\<rparr>))))"

lemma or_pick_decision:
  assumes inv: "or_inv o'" and ne: "or_clients o' \<noteq> []"
  shows "\<exists>t. (\<forall>a n. or_clock o' \<le> n \<longrightarrow> available_at t a n = available_at (or_avail o') a n) \<and>
    or_pick st key m excl o' = pick_spec st key m excl t o'"
proof -
  obtain t1 where t1: "snd (pick_pinned key m excl o') = o'\<lparr>or_avail := t1\<rparr>"
    and s1: "\<And>a n. or_clock o' \<le> n \<Longrightarrow> available_at t1 a n = available_at (or_avail o') a n"
    using pick_pinned_spec(1) [OF inv] by blast
  have p: "pick_pinned key m excl o' = (pinned_choice key m excl o', o'\<lparr>or_avail := t1\<rparr>)"
    using pick_pinned_spec(2) [OF inv, of key m excl] t1 by (simp add: pinned_choice_def prod_eq_iff)
  let ?o1 = "o'\<lparr>or_avail := t1\<rparr>"
  obtain cs t2 where c: "pick_candidates ?o1 m excl (dict_values (or_clients o')) t1 = (cs, t2)" by fastforce
  have cs: "cs = candidates m excl o'"
  proof -
    have "cs = filter (\<lambda>c. cl_account_id c \<notin> set excl \<and> available_at (or_avail o') (cl_account_id c) (or_clock o') \<and>
        tier_ok o' (cl_account_id c) m) (dict_values (or_clients o'))"
      using pick_candidates_spec [of ?o1 m excl "dict_values (or_clients o')" t1] c s1 by simp
    also have "\<dots> = candidates m excl o'"
      unfolding candidates_def using or_inv_values [OF inv] by (intro filter_cong) (auto simp: eligible_def)
    finally show ?thesis .
  qed
  have s2: "available_at t2 a n = available_at (or_avail o') a n" if "or_clock o' \<le> n" for a n
    using pick_candidates_spec [of ?o1 m excl "dict_values (or_clients o')" t1] c s1 that by simp
  have pin: "aff_pin st (x, Some y) k b \<noteq> (z, None)" for x y k b z by (simp add: aff_pin_def)
  show ?thesis
  proof (cases "pinned_choice key m excl o'")
    case (Some x)
    with ne p s1 show ?thesis by (intro exI [of _ t1]) (simp add: or_pick_def pick_spec_def)
  next
    case None
    with ne p c cs s2 pin show ?thesis
      by (intro exI [of _ t2]) (auto simp: or_pick_def pick_spec_def Let_def split: sum.splits option.splits prod.splits)
  qed
qed

lemma or_pick_result:
  assumes inv: "or_inv o'" and pick: "or_pick st key m excl o' = (Inr c, o1)"
  shows "dict_get (or_clients o') (cl_account_id c) = Some c" and "eligible o' m excl (cl_account_id c)"
    and "pinned_choice key m excl o' = None \<Longrightarrow> \<exists>sel. selector_pick (tr_limits (or_trackers o'))
      (tr_metrics (or_trackers o')) (or_clock o') (or_selector o') (candidates m excl o') = Inr (c, sel)"
    and "key = Some k \<Longrightarrow> dict_get (or_pins o1) k = Some (cl_account_id c)"
    and "\<And>j. key \<noteq> Some j \<Longrightarrow> dict_get (or_pins o1) j = dict_get (or_pins o') j"
    and "\<And>a n. or_clock o' \<le> n \<Longrightarrow> available_at (or_avail o1) a n = available_at (or_avail o') a n"
    and "or_clients o1 = or_clients o'" and "or_tiers o1 = or_tiers o'" and "or_clock o1 = or_clock o'"
proof -
  have ne: "or_clients o' \<noteq> []" using pick by (auto simp: or_pick_def)
  from or_pick_decision [OF inv ne, of st key m excl] obtain t where
    t: "\<And>a n. or_clock o' \<le> n \<Longrightarrow> available_at t a n = available_at (or_avail o') a n"
    and dec: "or_pick st key m excl o' = pick_spec st key m excl t o'" by blast
  note dec = dec [unfolded pick_spec_def]
  have goal: "dict_get (or_clients o') (cl_account_id c) = Some c \<and> eligible o' m excl (cl_account_id c) \<and>
    (pinned_choice key m excl o' = None \<longrightarrow> (\<exists>sel. selector_pick (tr_limits (or_trackers o'))
      (tr_metrics (or_trackers o')) (or_clock o') (or_selector o') (candidates m excl o') = Inr (c, sel))) \<and>
    (key = Some k \<longrightarrow> dict_get (or_pins o1) k = Some (cl_account_id c)) \<and>
    (\<forall>j. key \<noteq> Some j \<longrightarrow> dict_get (or_pins o1) j = dict_get (or_pins o') j) \<and>
    or_avail o1 = t \<and> or_clients o1 = or_clients o' \<and> or_tiers o1 = or_tiers o' \<and> or_clock o1 = or_clock o'"
  proof (cases "pinned_choice key m excl o'")
    case (Some x)
    with dec pick have x: "x = c" "o1 = o'\<lparr>or_avail := t\<rparr>" by simp_all
    from Some x(1) obtain j a where "key = Some j" "dict_get (or_pins o') j = Some a" "eligible o' m excl a"
      "dict_get (or_clients o') a = Some c" by (auto simp: pinned_choice_def split: option.splits if_splits)
    with or_inv_client [OF inv, of a c] Some x(2) show ?thesis by auto
  next
    case None
    then have cand: "candidates m excl o' \<noteq> []" using dec pick by auto
    obtain x sel where sp: "selector_pick (tr_limits (or_trackers o')) (tr_metrics (or_trackers o'))
        (or_clock o') (or_selector o') (candidates m excl o') = Inr (x, sel)"
      using selector_pick_ok [OF cand] by blast
    with None cand dec pick have x: "x = c" by (cases key) simp_all
    from selector_pick_in [OF sp] x have "c \<in> set (candidates m excl o')" by simp
    with candidates_iff [OF inv] have el: "dict_get (or_clients o') (cl_account_id c) = Some c"
      "eligible o' m excl (cl_account_id c)" by blast+
    show ?thesis
    proof (cases key)
      case key: None
      with None cand sp x dec pick have "o1 = o'\<lparr>or_avail := t, or_selector := sel\<rparr>" by simp
      with None key sp x el show ?thesis by simp
    next
      case key: (Some j)
      with None cand sp x dec pick have o1: "o1 = o'\<lparr>or_avail := t, or_selector := sel,
          or_pins := fst (aff_pin st (or_pins o', Some (or_storage o')) j (cl_account_id c)),
          or_storage := the (snd (aff_pin st (or_pins o', Some (or_storage o')) j (cl_account_id c)))\<rparr>" by simp
      have "dict_get (or_pins o1) i = (if i = j then Some (cl_account_id c) else dict_get (or_pins o') i)" for i
        by (auto simp: o1 aff_pin_def)
      with None key sp x el o1 show ?thesis by auto
    qed
  qed
  then show "dict_get (or_clients o') (cl_account_id c) = Some c" and "eligible o' m excl (cl_account_id c)"
    and "pinned_choice key m excl o' = None \<Longrightarrow> \<exists>sel. selector_pick (tr_limits (or_trackers o'))
      (tr_metrics (or_trackers o')) (or_clock o') (or_selector o') (candidates m excl o') = Inr (c, sel)"
    and "key = Some k \<Longrightarrow> dict_get (or_pins o1) k = Some (cl_account_id c)"
    and "\<And>j. key \<noteq> Some j \<Longrightarrow> dict_get (or_pins o1) j = dict_get (or_pins o') j"
    and "\<And>a n. or_clock o' \<le> n \<Longrightarrow> available_at (or_avail o1) a n = available_at (or_avail o') a n"
    and "or_clients o1 = or_clients o'" and "or_tiers o1 = or_tiers o'" and "or_clock o1 = or_clock o'"
    using t by auto
qed

lemma or_pick_error:
  assumes inv: "or_inv o'" and pick: "or_pick st key m excl o' = (Inl e, o1)"
  shows "or_clients o' = [] \<and> e = Py (RuntimeError ''Orchestrator has no clients'') \<or>
    or_clients o' \<noteq> [] \<and> (\<forall>a. \<not> eligible o' m excl a) \<and> (\<exists>r. e = NoAvailableAccounts r)"
proof (cases "or_clients o' = []")
  case True
  with pick show ?thesis by (simp add: or_pick_def)
next
  case False
  from or_pick_decision [OF inv this, of st key m excl] pick selector_pick_fails candidates_empty [OF inv] False
  show ?thesis by (auto simp: pick_spec_def split: option.splits if_splits sum.splits prod.splits)
qed

lemma or_pick_pinned:
  assumes "or_inv o'" and "key = Some k" and "dict_get (or_pins o') k = Some a" and "eligible o' m excl a"
  shows "\<exists>c o1. or_pick st key m excl o' = (Inr c, o1) \<and> cl_account_id c = a"
proof -
  obtain c where c: "dict_get (or_clients o') a = Some c" using assms(4) by (auto simp: eligible_def)
  then have ne: "or_clients o' \<noteq> []" by auto
  have "pinned_choice key m excl o' = Some c" using assms c by (simp add: pinned_choice_def)
  with or_pick_decision [OF assms(1) ne, of st key m excl] or_inv_client [OF assms(1) c] show ?thesis by (auto simp: pick_spec_def)
qed

subsection \<open>Events\<close>

lemma av_set_dict_ok: "dict_ok (av_parked (fst t)) \<Longrightarrow> dict_ok (av_parked (fst (av_set st t a p)))"
  by (simp add: av_set_def)

lemma av_on_limit_dict_ok:
  "av_on_limit st now t acc ws = Inr t' \<Longrightarrow> dict_ok (av_parked (fst t)) \<Longrightarrow> dict_ok (av_parked (fst t'))"
  by (auto simp: av_on_limit_def av_park_def Let_def bind_result_def av_set_dict_ok split: sum.splits if_splits)

lemma or_run_handler_fields:
  "or_clients (snd (or_run_handler st h ev d o')) = or_clients o' \<and>
   or_tiers (snd (or_run_handler st h ev d o')) = or_tiers o' \<and>
   or_pins (snd (or_run_handler st h ev d o')) = or_pins o' \<and>
   (dict_ok (av_parked (or_avail o')) \<longrightarrow> dict_ok (av_parked (or_avail (snd (or_run_handler st h ev d o')))))"
  by (cases h; cases "ev_body ev")
     (auto simp: Let_def lift_py_def bind_result_def or_set_avail_def or_on_account_expired_def av_on_expired_def
        av_quarantine_def av_set_dict_ok split: sum.splits option.splits dest: av_on_limit_dict_ok)

lemma or_run_handler_inv: "or_inv o' \<Longrightarrow> or_inv (snd (or_run_handler st h ev d o'))"
  using or_run_handler_fields [of st h ev d o'] by (simp add: or_inv_def)

lemma or_dispatch_inv: "or_inv o' \<Longrightarrow> or_inv (snd (or_dispatch st ev o'))"
  unfolding or_dispatch_def by (rule dispatch_preserves) (simp_all add: or_run_handler_inv del: or_run_handler.simps)

lemma or_deliver_inv: "or_inv o' \<Longrightarrow> or_inv (or_deliver st o')"
  by (auto simp: or_deliver_def or_inv_def intro!: or_dispatch_inv [unfolded or_inv_def] split: list.splits)

definition wired :: "'s orchestrator \<Rightarrow> bool" where
  \<comment> \<open>the registry holds the subscriptions of \<open>_register_handlers\<close> and no others\<close>
  "wired o' \<longleftrightarrow> (\<exists>recording. ob_registry (or_bus o') = fst (register_all (handler_table recording) (registry_empty, [])))"

lemma match_expired:
  "ev_body ev = AccountExpiredEvent r \<Longrightarrow>
     registry_match (fst (register_all (handler_table recording) (registry_empty, []))) ev =
       [handler_entry_for AvailabilityOnExpired CAccountExpiredEvent, handler_entry_for OnAccountExpired CAccountExpiredEvent]"
  by (simp add: handler_table_def registry_add_def registry_empty_def handler_entry_for_def Let_def registry_match_def
      is_instance_def dict_getd_def)

lemma or_dispatch_expired:
  assumes "wired o'" and "ev_body ev = AccountExpiredEvent r"
  shows "snd (or_dispatch st ev o') = or_on_account_expired (ev_account_id ev)
    (or_set_avail o' (av_on_expired st (or_avail o', Some (or_storage o')) (ev_account_id ev) r))"
proof -
  obtain b where reg: "ob_registry (or_bus o') = fst (register_all (handler_table b) (registry_empty, []))"
    using assms(1) by (auto simp: wired_def)
  have "nat (max (he_retry_attempts (handler_entry_for h c)) 0 + 2) = 2" for h c by (simp add: handler_entry_for_def)
  then show ?thesis
    unfolding or_dispatch_def reg
    using match_expired [OF assms(2), of b] assms(2)
    by (simp add: dispatch_def Let_def manager_chain_def dispatch_terminal_def mark_dispatched_def mk_envelope_def
        invoke_def numeral_2_eq_2 upt_conv_Cons handler_entry_for_def)
qed

subsection \<open>Histories of operations\<close>

datatype orch_op =
    OTick pyfloat                                             \<comment> \<open>time passes\<close>
  | OAdd client account_tier
  | ORemove account_id
  | OPick "string option" "account_tier option" "account_id list"
  | OPublish event                                            \<comment> \<open>by a client or by \<open>report_expired\<close>\<close>
  | ODeliver                                                  \<comment> \<open>the bus dispatches one event\<close>
  | ORelogin account_id "exn + bool"                          \<comment> \<open>a relogin task finishes\<close>
  | OClose

fun or_exec :: "(pyfloat \<Rightarrow> string) \<Rightarrow> 's storage_ops \<Rightarrow> 's orchestrator \<Rightarrow> orch_op \<Rightarrow> 's orchestrator" where
  "or_exec fr st o' (OTick dt) = o'\<lparr>or_clock := or_clock o' + dt\<rparr>"
| "or_exec fr st o' (OAdd c tier) = snd (or_add fr st c tier o')"
| "or_exec fr st o' (ORemove a) = snd (or_remove st a o')"
| "or_exec fr st o' (OPick key m excl) = snd (or_pick st key m excl o')"
| "or_exec fr st o' (OPublish ev) = snd (or_publish ev o')"
| "or_exec fr st o' ODeliver = or_deliver st o'"
| "or_exec fr st o' (ORelogin a outcome) = or_run_relogin st a outcome o'"
| "or_exec fr st o' OClose = or_close o'"

definition or_history :: "(pyfloat \<Rightarrow> string) \<Rightarrow> 's storage_ops \<Rightarrow> 's orchestrator \<Rightarrow> orch_op list \<Rightarrow> 's orchestrator" where
  "or_history fr st o' ops = foldl (or_exec fr st) o' ops"

lemma av_load_rows_dict_ok:
  "av_load_rows st now rows t = Inr t' \<Longrightarrow> dict_ok (av_parked (fst t)) \<Longrightarrow> dict_ok (av_parked (fst t'))"
proof (induction rows arbitrary: t)
  case Nil
  then show ?case by simp
next
  case (Cons x rows)
  obtain a v where x: "x = (a, v)" by (cases x)
  from Cons.prems(1) obtain p where p: "park_of_json v = Inr p"
    and run: "av_load_rows st now rows (if park_live now p
          then ((fst t)\<lparr>av_parked := dict_set (av_parked (fst t)) a p\<rparr>, snd t)
          else (fst t, op_delete st (snd t) PARKING a)) = Inr t'"
    by (auto simp: x bind_result_def split: sum.splits)
  show ?case by (rule Cons.IH [OF run]) (use Cons.prems(2) in simp)
qed

lemma av_load_dict_ok:
  "av_load st now t = Inr t' \<Longrightarrow> dict_ok (av_parked (fst t)) \<Longrightarrow> dict_ok (av_parked (fst t'))"
  by (auto simp: av_load_def bind_result_def split: option.splits sum.splits dest: av_load_rows_dict_ok)

lemma or_pick_inv: "or_inv o' \<Longrightarrow> or_inv (snd (or_pick st key m excl o'))"
proof -
  assume inv: "or_inv o'"
  have cand: "dict_ok (av_parked t) \<Longrightarrow> dict_ok (av_parked (snd (pick_candidates o1 m excl cs t)))"
    for o1 :: "'a orchestrator" and cs t
    by (induction cs arbitrary: t) (auto simp: Let_def case_prod_unfold)
  have "\<exists>t. snd (pick_pinned key m excl o') = o'\<lparr>or_avail := t\<rparr> \<and> dict_ok (av_parked t)"
  proof -
    have "dict_ok (av_parked (or_avail o'))" using inv by (simp add: or_inv_def)
    then show ?thesis
      by (auto simp: pick_pinned_def Let_def case_prod_unfold split: option.splits
          intro: exI [of _ "or_avail o'"])
  qed
  then obtain t where t: "snd (pick_pinned key m excl o') = o'\<lparr>or_avail := t\<rparr>" "dict_ok (av_parked t)" by blast
  obtain r where r: "pick_pinned key m excl o' = (r, o'\<lparr>or_avail := t\<rparr>)" using t(1) by (metis prod.collapse)
  show ?thesis
    using inv t(2) cand [OF t(2), of "o'\<lparr>or_avail := t\<rparr>" "dict_values (or_clients o')"]
    by (auto simp: or_pick_def r or_inv_def Let_def case_prod_unfold aff_pin_def split: option.splits sum.splits)
qed

lemma or_run_relogin_inv: "or_inv o' \<Longrightarrow> or_inv (or_run_relogin st a outcome o')"
  by (simp add: or_run_relogin_def or_inv_def Let_def or_set_avail_def av_release_def)

lemma or_remove_eq:
  "snd (or_remove st a o') = or_set_avail
     (o'\<lparr>or_clients := dict_del (or_clients o') a, or_tiers := dict_del (or_tiers o') a,
         or_pins := fst (aff_drop_account st (or_pins o', Some (or_storage o')) a)\<rparr>)
     (av_release st (or_avail o', snd (aff_drop_account st (or_pins o', Some (or_storage o')) a)) a)"
  by (simp add: or_remove_def Let_def case_prod_unfold)

lemma or_remove_inv: "or_inv o' \<Longrightarrow> or_inv (snd (or_remove st a o'))"
proof -
  assume inv: "or_inv o'"
  have "dict_ok (fst (aff_drop_account st (or_pins o', Some (or_storage o')) a))"
    unfolding aff_drop_account_def using inv by (intro aff_unpin_dict_ok) (simp add: or_inv_def)
  moreover have "\<forall>(b, c) \<in> set (dict_del (or_clients o') a). cl_account_id c = b"
    using inv by (auto simp: or_inv_def AList.delete_eq)
  ultimately show ?thesis
    using inv unfolding or_remove_eq by (simp add: or_inv_def or_set_avail_def av_release_def delete_keys)
qed

lemma add_client_inv:
  "or_inv o' \<Longrightarrow> cl_account_id c1 = a \<Longrightarrow>
     or_inv (o'\<lparr>or_clients := dict_set (or_clients o') a c1, or_tiers := dict_set (or_tiers o') a tier\<rparr>)"
  using dict_set_subset [of a c1 "or_clients o'"] by (auto simp: or_inv_def update_keys)

lemma or_register_handlers_fields [simp]:
  "or_clients (or_register_handlers o') = or_clients o'"
  "or_tiers (or_register_handlers o') = or_tiers o'"
  "or_avail (or_register_handlers o') = or_avail o'"
  "or_storage (or_register_handlers o') = or_storage o'"
  "or_pins (or_register_handlers o') = or_pins o'"
  "or_clock (or_register_handlers o') = or_clock o'"
  by (simp_all add: or_register_handlers_def case_prod_unfold Let_def)

context base_storage
begin

definition or_storage_inv :: "'s orchestrator \<Rightarrow> bool" where
  "or_storage_inv o' \<longleftrightarrow> or_inv o' \<and> inv (or_storage o')"

lemma aff_unpin_fold_inv:
  "(\<exists>s. snd t = Some s \<and> inv s) \<Longrightarrow> \<exists>s. snd (fold (\<lambda>k t. aff_unpin st t k) ks t) = Some s \<and> inv s"
  by (induction ks arbitrary: t) (auto simp: aff_unpin_def inv_delete)

lemma av_load_rows_inv: "av_load_rows st now rows t = Inr t' \<Longrightarrow> inv (snd t) \<Longrightarrow> inv (snd t')"
proof (induction rows arbitrary: t)
  case Nil
  then show ?case by simp
next
  case (Cons x rows)
  obtain a v where x: "x = (a, v)" by (cases x)
  from Cons.prems(1) obtain p where p: "park_of_json v = Inr p"
    and run: "av_load_rows st now rows (if park_live now p
          then ((fst t)\<lparr>av_parked := dict_set (av_parked (fst t)) a p\<rparr>, snd t)
          else (fst t, op_delete st (snd t) PARKING a)) = Inr t'"
    by (auto simp: x bind_result_def split: sum.splits)
  show ?case by (rule Cons.IH [OF run]) (use Cons.prems(2) in \<open>simp add: inv_delete\<close>)
qed

lemma or_run_handler_storage:
  "inv (or_storage o') \<Longrightarrow> inv (or_storage (snd (or_run_handler st h ev d o')))"
  by (cases h; cases "ev_body ev")
     (auto simp: Let_def lift_py_def bind_result_def or_set_avail_def or_on_account_expired_def av_on_expired_def
        av_quarantine_def av_set_def av_park_def av_on_limit_def inv_set split: sum.splits option.splits if_splits)

lemma or_deliver_storage: "inv (or_storage o') \<Longrightarrow> inv (or_storage (or_deliver st o'))"
proof -
  assume i: "inv (or_storage o')"
  have "inv (or_storage (snd (or_dispatch st ev o1)))" if "inv (or_storage o1)" for ev o1
    unfolding or_dispatch_def
    by (rule dispatch_preserves) (use that in \<open>simp_all add: or_run_handler_storage del: or_run_handler.simps\<close>)
  with i show ?thesis by (simp add: or_deliver_def split: list.splits)
qed

lemma or_start_storage_inv:
  assumes "or_storage_inv o'" and "or_start fr st o' = (r, o1)"
  shows "or_storage_inv o1"
proof -
  let ?o2 = "(or_register_handlers (o'\<lparr>or_bus := (or_bus o')\<lparr>ob_running := True\<rparr>\<rparr>))\<lparr>or_pins :=
    aff_load fr st (or_pins o') (Some (or_storage o'))\<rparr>"
  have reg: "or_clients ?o2 = or_clients o'" "or_tiers ?o2 = or_tiers o'" "or_avail ?o2 = or_avail o'"
    "or_storage ?o2 = or_storage o'"
    by simp_all
  have pins: "dict_ok (aff_load fr st p (Some s))" if "inv s" for p s
    using items_ok [OF that] by (simp add: aff_load_def)
  have o2: "or_storage_inv ?o2"
    using assms(1) reg pins by (auto simp: or_storage_inv_def or_inv_def)
  have step: "or_start fr st o' = (if or_started o' then (Inr (), o')
      else if ob_closed (or_bus o') then (Inl (EventBusClosedError ''bus already closed'' []), o')
      else (case av_load st (or_clock ?o2) (or_avail ?o2, Some (or_storage ?o2)) of
              Inl e \<Rightarrow> (Inl (Py e), ?o2) | Inr t \<Rightarrow> (Inr (), (or_set_avail ?o2 t)\<lparr>or_started := True\<rparr>)))"
    by (simp add: or_start_def Let_def split: sum.split)
  have "or_storage_inv ((or_set_avail ?o2 t)\<lparr>or_started := True\<rparr>)"
    if "av_load st (or_clock ?o2) (or_avail ?o2, Some (or_storage ?o2)) = Inr t" for t
  proof -
    have "dict_ok (av_parked (fst t))"
      using av_load_dict_ok [OF that] o2 by (simp add: or_storage_inv_def or_inv_def)
    moreover have "inv (case snd t of None \<Rightarrow> or_storage ?o2 | Some s \<Rightarrow> s)"
      using that o2 av_load_rows_inv
      by (fastforce simp: av_load_def bind_result_def or_storage_inv_def split: sum.splits prod.splits)
    ultimately show ?thesis using o2 by (simp add: or_storage_inv_def or_inv_def or_set_avail_def)
  qed
  with assms o2 show ?thesis unfolding step by (auto split: if_splits sum.splits)
qed

lemma or_exec_storage_inv: "or_storage_inv o' \<Longrightarrow> or_storage_inv (or_exec fr st o' x)"
proof (cases x)
  case (OTick dt)
  assume "or_storage_inv o'"
  with OTick show ?thesis by (simp add: or_storage_inv_def or_inv_def)
next
  case (OAdd c tier)
  assume i: "or_storage_inv o'"
  have a: "or_storage_inv (o1\<lparr>or_clients := dict_set (or_clients o1) (cl_account_id c) (c\<lparr>cl_bus := True, cl_opened := True, cl_cache := ca\<rparr>),
      or_tiers := dict_set (or_tiers o1) (cl_account_id c) tier\<rparr>)" if "or_storage_inv o1" for o1 ca
    using that add_client_inv [of o1 "c\<lparr>cl_bus := True, cl_opened := True, cl_cache := ca\<rparr>" "cl_account_id c" tier]
    by (simp add: or_storage_inv_def)
  obtain r o1 where s: "(if or_started o' then (Inr (), o') else or_start fr st o') = (r, o1)" by fastforce
  then have "or_storage_inv o1" using i or_start_storage_inv by (auto split: if_splits)
  with a s OAdd show ?thesis by (cases r) (auto simp: or_add_def Let_def)
next
  case (ORemove b)
  assume i: "or_storage_inv o'"
  obtain s where "snd (aff_drop_account st (or_pins o', Some (or_storage o')) b) = Some s" "inv s"
    using i aff_unpin_fold_inv [of "(or_pins o', Some (or_storage o'))"]
    by (auto simp: aff_drop_account_def or_storage_inv_def)
  with i or_remove_inv [of o' st b] ORemove show ?thesis
    unfolding or_storage_inv_def by (simp add: or_remove_eq or_set_avail_def av_release_def inv_delete)
next
  case (OPick key m excl)
  assume i: "or_storage_inv o'"
  have "or_storage (snd (pick_pinned key m excl o')) = or_storage o'"
    by (simp add: pick_pinned_def Let_def case_prod_unfold split: option.splits)
  then have "inv (or_storage (snd (or_pick st key m excl o')))"
    using i by (auto simp: or_pick_def or_storage_inv_def Let_def case_prod_unfold aff_pin_def inv_set split: option.splits sum.splits)
  with i or_pick_inv [of o' st key m excl] OPick show ?thesis by (simp add: or_storage_inv_def)
next
  case (ORelogin a outcome)
  assume i: "or_storage_inv o'"
  with ORelogin or_run_relogin_inv [of o' st a outcome] show ?thesis
    by (auto simp: or_storage_inv_def or_run_relogin_def Let_def or_set_avail_def av_release_def inv_delete)
next
  case (OPublish ev)
  assume "or_storage_inv o'"
  with OPublish show ?thesis by (simp add: or_storage_inv_def or_publish_def or_inv_def)
next
  case ODeliver
  assume "or_storage_inv o'"
  with ODeliver or_deliver_inv [of o' st] or_deliver_storage [of o'] show ?thesis by (simp add: or_storage_inv_def)
next
  case OClose
  assume "or_storage_inv o'"
  with OClose show ?thesis by (simp add: or_storage_inv_def or_close_def or_inv_def)
qed

lemma or_history_inv: "or_storage_inv o' \<Longrightarrow> or_storage_inv (or_history fr st o' xs)"
  unfolding or_history_def by (induction xs arbitrary: o') (simp_all add: or_exec_storage_inv)

end

subsection \<open>A pool of two accounts\<close>

definition demo_client :: "account_id \<Rightarrow> client" where
  "demo_client a = \<lparr>cl_account_id = a, cl_limit_state = None, cl_bus = False, cl_cache = None, cl_opened = False\<rparr>"

definition demo_init :: "mem_storage orchestrator" where
  "demo_init = or_init 0 [] True None None True None (98/100)"

definition demo_pool :: "mem_storage orchestrator" where
  \<comment> \<open>a conversation is pinned to the first account\<close>
  "demo_pool = or_history (\<lambda>r. []) mem_ops demo_init
     [OAdd (demo_client ''a'') FREE, OAdd (demo_client ''b'') PRO, OPick (Some ''conv'') None []]"

definition demo_parked :: "mem_storage orchestrator" where
  \<comment> \<open>the pinned account is parked until time 50\<close>
  "demo_parked = or_set_avail demo_pool (av_park mem_ops 0 (or_avail demo_pool, Some (or_storage demo_pool)) ''a'' (Some 50) [])"

lemma mem_or_inv:
  "or_inv (or_history fr mem_ops (or_init now [] owns sel cache relogin rec th) ops)"
proof -
  have "mem.or_storage_inv (or_init now [] owns sel cache relogin rec th)"
    by (simp add: mem.or_storage_inv_def or_inv_def or_init_def av_init_def)
  from mem.or_history_inv [OF this, of fr ops] show ?thesis by (simp add: mem.or_storage_inv_def)
qed

lemma demo_pool_inv: "or_inv demo_pool"
  unfolding demo_pool_def demo_init_def by (rule mem_or_inv)

lemma demo_parked_inv: "or_inv demo_parked"
  using demo_pool_inv by (simp add: demo_parked_def or_set_avail_def or_inv_def av_park_def Let_def av_set_def)

subsection \<open>Properties\<close>

text \<open>
  C36. The pool tables stay consistent: after every history of additions, removals, picks, published and dispatched events,
  relogins, waiting and closing, each client is registered under its own account, the tier table has exactly the same accounts,
  and no account occurs twice.
\<close>

theorem pool_tables_consistent:
  "let o' = or_history fr mem_ops (or_init now [] owns sel cache relogin rec th) ops
   in distinct (dict_keys (or_clients o')) \<and> dict_keys (or_tiers o') = dict_keys (or_clients o') \<and>
      list_all (\<lambda>(a, c). cl_account_id c = a) (or_clients o')"
  using mem_or_inv [of fr now owns sel cache relogin rec th ops]
  by (simp add: or_inv_def dict_ok_def Let_def list_all_iff)

text \<open>
  C1. A picked client is one the caller may use: it is registered, not excluded, neither parked nor quarantined at this time, and
  of at least the requested tier; picking changes neither the pool nor what any account's availability will be.
\<close>

theorem pick_sound:
  assumes "or_inv o'" and "or_pick st key m excl o' = (Inr c, o1)"
  shows "dict_get (or_clients o') (cl_account_id c) = Some c \<and> cl_account_id c \<notin> set excl \<and>
    available_at (or_avail o') (cl_account_id c) (or_clock o') \<and> tier_ok o' (cl_account_id c) m \<and>
    or_clients o1 = or_clients o' \<and> or_tiers o1 = or_tiers o' \<and>
    (\<forall>a n. or_clock o' \<le> n \<longrightarrow> available_at (or_avail o1) a n = available_at (or_avail o') a n)"
  using or_pick_result [OF assms] by (simp add: eligible_def)

theorem pick_sound_witness:
  "\<exists>c o1. or_pick mem_ops None (Some PRO) [] demo_pool = (Inr c, o1) \<and>
    dict_get (or_clients demo_pool) (cl_account_id c) = Some c \<and> cl_account_id c \<notin> set [] \<and>
    available_at (or_avail demo_pool) (cl_account_id c) (or_clock demo_pool) \<and> tier_ok demo_pool (cl_account_id c) (Some PRO) \<and>
    or_clients o1 = or_clients demo_pool \<and> or_tiers o1 = or_tiers demo_pool \<and>
    (\<forall>a n. or_clock demo_pool \<le> n \<longrightarrow> available_at (or_avail o1) a n = available_at (or_avail demo_pool) a n)"
proof -
  have "\<not> isl (fst (or_pick mem_ops None (Some PRO) [] demo_pool))" by code_simp
  then obtain c o1 where p: "or_pick mem_ops None (Some PRO) [] demo_pool = (Inr c, o1)"
    by (metis isl_def sum.exhaust_sel prod.collapse sum.collapse(2))
  from pick_sound [OF demo_pool_inv p] p show ?thesis by blast
qed

text \<open>
  Picking fails exactly when it must: on a non-empty pool \<open>pick\<close> raises if and only if no account is eligible, and then it raises
  \<open>NoAvailableAccounts\<close>; on an empty pool it raises \<open>RuntimeError\<close>.
\<close>

theorem pick_fails_iff:
  assumes "or_inv o'"
  shows "(isl (fst (or_pick st key m excl o')) \<longleftrightarrow> (\<forall>a. \<not> eligible o' m excl a)) \<and>
    (\<forall>e. fst (or_pick st key m excl o') = Inl e \<longrightarrow>
       (if or_clients o' = [] then e = Py (RuntimeError ''Orchestrator has no clients'')
        else \<exists>r. e = NoAvailableAccounts r))"
proof -
  obtain r o1 where p: "or_pick st key m excl o' = (r, o1)" by fastforce
  show ?thesis
  proof (cases r)
    case (Inl e)
    from or_pick_error [OF assms p [unfolded Inl]] p Inl show ?thesis by (auto simp: eligible_def)
  next
    case (Inr c)
    from or_pick_result(2) [OF assms p [unfolded Inr]] p Inr show ?thesis by auto
  qed
qed

theorem pick_fails_iff_witness:
  "(\<forall>a. \<not> eligible demo_pool (Some MAX_TIER) [] a) \<and>
   (\<exists>r. fst (or_pick mem_ops None (Some MAX_TIER) [] demo_pool) = Inl (NoAvailableAccounts r))"
proof -
  have l: "isl (fst (or_pick mem_ops None (Some MAX_TIER) [] demo_pool))" by code_simp
  then obtain e where e: "fst (or_pick mem_ops None (Some MAX_TIER) [] demo_pool) = Inl e" by (auto simp: isl_def)
  have "or_clients demo_pool \<noteq> []" by code_simp
  with l e pick_fails_iff [OF demo_pool_inv, of mem_ops None "Some MAX_TIER" "[]"] show ?thesis by auto
qed

text \<open>
  The default policy balances load: without an affinity key, the orchestrator with its default selector returns an eligible account
  whose utilization (the larger of the five-hour and the seven-day window, as reported on the bus) is least among the eligible ones.
\<close>

theorem pick_least_utilized:
  assumes "or_inv o'" and "or_selector o' = BusBackedLeastUtilizationSelector"
    and "or_pick st None m excl o' = (Inr c, o1)" and "eligible o' m excl a"
  shows "snapshot_score (limit_get (tr_limits (or_trackers o')) (cl_account_id c) (or_clock o')) \<le>
    snapshot_score (limit_get (tr_limits (or_trackers o')) a (or_clock o'))"
proof -
  obtain d where d: "dict_get (or_clients o') a = Some d" using assms(4) by (auto simp: eligible_def)
  with assms(1,4) have "d \<in> set (candidates m excl o')" "cl_account_id d = a"
    by (simp_all add: candidates_iff or_inv_client)
  moreover have "pinned_choice None m excl o' = None" by (simp add: pinned_choice_def)
  from or_pick_result(3) [OF assms(1,3) this] assms(2) obtain sel where
    "selector_pick (tr_limits (or_trackers o')) (tr_metrics (or_trackers o')) (or_clock o')
      BusBackedLeastUtilizationSelector (candidates m excl o') = Inr (c, sel)" by auto
  ultimately show ?thesis using selector_least(2) by metis
qed

theorem pick_least_utilized_witness:
  "\<exists>c o1. or_pick mem_ops None None [] demo_pool = (Inr c, o1) \<and>
    snapshot_score (limit_get (tr_limits (or_trackers demo_pool)) (cl_account_id c) (or_clock demo_pool)) \<le>
    snapshot_score (limit_get (tr_limits (or_trackers demo_pool)) ''b'' (or_clock demo_pool))"
proof -
  have "\<not> isl (fst (or_pick mem_ops None None [] demo_pool))" by code_simp
  then obtain c o1 where p: "or_pick mem_ops None None [] demo_pool = (Inr c, o1)"
    by (metis isl_def sum.exhaust_sel prod.collapse sum.collapse(2))
  have sel: "or_selector demo_pool = BusBackedLeastUtilizationSelector" by code_simp
  have "eligible demo_pool None [] ''b''" by code_simp
  from pick_least_utilized [OF demo_pool_inv sel p this] p show ?thesis by blast
qed

text \<open>
  Affinity is sticky: once a pick with a key has returned an account, every later pick with the same key returns the same account,
  as long as the pin is not changed by others and the account is eligible for the later request.
\<close>

theorem pick_sticky:
  assumes "or_inv o'" and "or_pick st (Some k) m excl o' = (Inr c, o1)"
    and "or_inv o2" and "dict_get (or_pins o2) k = dict_get (or_pins o1) k" and "eligible o2 m2 excl2 (cl_account_id c)"
  shows "\<exists>c2 o3. or_pick st (Some k) m2 excl2 o2 = (Inr c2, o3) \<and> cl_account_id c2 = cl_account_id c"
proof -
  have "dict_get (or_pins o2) k = Some (cl_account_id c)"
    using or_pick_result(4) [OF assms(1,2)] assms(4) by simp
  with or_pick_pinned [OF assms(3) refl _ assms(5), of k st] show ?thesis by blast
qed

theorem pick_sticky_witness:
  "\<exists>c o1. or_pick mem_ops (Some ''conv'') None [] demo_pool = (Inr c, o1) \<and>
    (\<exists>c2 o3. or_pick mem_ops (Some ''conv'') None [''b''] demo_pool = (Inr c2, o3) \<and> cl_account_id c2 = cl_account_id c)"
proof -
  have "map_sum (\<lambda>e. ()) cl_account_id (fst (or_pick mem_ops (Some ''conv'') None [] demo_pool)) = Inr ''a''" by code_simp
  then obtain c o1 where p: "or_pick mem_ops (Some ''conv'') None [] demo_pool = (Inr c, o1)" and c: "cl_account_id c = ''a''"
    by (cases "or_pick mem_ops (Some ''conv'') None [] demo_pool"; cases "fst (or_pick mem_ops (Some ''conv'') None [] demo_pool)") auto
  have "dict_get (or_pins demo_pool) ''conv'' = Some ''a''" by code_simp
  moreover have "dict_get (or_pins o1) ''conv'' = Some ''a''" using or_pick_result(4) [OF demo_pool_inv p] c by simp
  moreover have "eligible demo_pool None [''b''] ''a''" by code_simp
  ultimately show ?thesis
    using pick_sticky [OF demo_pool_inv p demo_pool_inv, of None "[''b'']"] p c by auto
qed

text \<open>
  The limit of affinity: when the pinned account is parked, quarantined or excluded and another account is eligible, a pick with
  the key returns another account and moves the pin there, although a conversation cannot be continued on another account.
\<close>

theorem pick_moves_pin:
  assumes "or_inv o'" and "dict_get (or_pins o') k = Some a" and "\<not> eligible o' m excl a" and "eligible o' m excl b"
  shows "\<exists>c o1. or_pick st (Some k) m excl o' = (Inr c, o1) \<and> cl_account_id c \<noteq> a \<and>
    dict_get (or_pins o1) k = Some (cl_account_id c)"
proof -
  obtain r o1 where p: "or_pick st (Some k) m excl o' = (r, o1)" by fastforce
  show ?thesis
  proof (cases r)
    case (Inl e)
    from or_pick_error [OF assms(1) p [unfolded Inl]] assms(4) show ?thesis by (auto simp: eligible_def)
  next
    case (Inr c)
    from or_pick_result(2,4) [OF assms(1) p [unfolded Inr]] assms(3) p Inr show ?thesis by auto
  qed
qed

theorem pick_moves_pin_witness:
  "\<exists>c o1. or_pick mem_ops (Some ''conv'') None [] demo_parked = (Inr c, o1) \<and> cl_account_id c \<noteq> ''a'' \<and>
    dict_get (or_pins o1) ''conv'' = Some (cl_account_id c)"
proof (rule pick_moves_pin [OF demo_parked_inv])
  show "dict_get (or_pins demo_parked) ''conv'' = Some ''a''" by code_simp
  show "\<not> eligible demo_parked None [] ''a''" by code_simp
  show "eligible demo_parked None [] ''b''" by code_simp
qed

text \<open>
  A dead session leaves the pool: when an account is reported as expired and the bus has dispatched the event, no pick returns it at
  any later time; a relogin task is started exactly when a hook is installed and the account is registered, and a successful relogin makes it
  available again.
\<close>

theorem expired_account_quarantined:
  assumes "wired o'" and "ob_outbox (or_bus o') = []" and "ob_running (or_bus o')" and "\<not> ob_closed (or_bus o')" and "a \<noteq> []"
    and "or_inv o'"
  shows "let o1 = or_deliver st (snd (or_report_expired a reason o'))
    in (\<forall>n. \<not> available_at (or_avail o1) a n) \<and>
       or_relogin_tasks o1 = or_relogin_tasks o' @ (if or_relogin o' \<and> dict_get (or_clients o') a \<noteq> None then [a] else []) \<and>
       (or_relogin o' \<longrightarrow> (\<forall>n. available_at (or_avail (or_run_relogin st a (Inr True) o1)) a n))"
proof -
  let ?ev = "mk_event (or_clock o') (Some a) (AccountExpiredEvent reason)"
  have ev: "ev_body ?ev = AccountExpiredEvent reason" "ev_account_id ?ev = Some a" by (simp_all add: mk_event_def)
  have pub: "snd (or_report_expired a reason o') = o'\<lparr>or_bus := (or_bus o')\<lparr>ob_outbox := [?ev]\<rparr>\<rparr>"
    using assms(2-4) by (simp add: or_report_expired_def or_publish_def)
  have w: "wired (o'\<lparr>or_bus := (or_bus o')\<lparr>ob_outbox := []\<rparr>\<rparr>)" using assms(1) by (simp add: wired_def)
  have o1: "or_deliver st (snd (or_report_expired a reason o')) =
      or_on_account_expired (Some a) (or_set_avail (o'\<lparr>or_bus := (or_bus o')\<lparr>ob_outbox := []\<rparr>\<rparr>)
        (av_on_expired st (or_avail o', Some (or_storage o')) (Some a) reason))"
    using or_dispatch_expired [OF w ev(1), of st] by (simp add: pub or_deliver_def ev(2))
  have q: "\<not> available_at (fst (av_on_expired st t (Some a) reason)) a n" for t n
    using assms(5) by (simp add: av_on_expired_def av_quarantine_def available_after_set or_default_def)
  have cl: "cl_account_id c = a" if "map_of (or_clients o') a = Some c" for c
    using or_inv_client [OF assms(6) that] .
  show ?thesis
    unfolding Let_def o1
    using q cl by (auto simp: or_on_account_expired_def or_set_avail_def or_run_relogin_def available_after_release
        split: option.splits)
qed

theorem expired_account_quarantined_witness:
  "let o1 = or_deliver mem_ops (snd (or_report_expired ''a'' ''401'' demo_pool))
    in (\<forall>n. \<not> available_at (or_avail o1) ''a'' n) \<and>
       or_relogin_tasks o1 = or_relogin_tasks demo_pool @
         (if or_relogin demo_pool \<and> dict_get (or_clients demo_pool) ''a'' \<noteq> None then [''a''] else []) \<and>
       (or_relogin demo_pool \<longrightarrow> (\<forall>n. available_at (or_avail (or_run_relogin mem_ops ''a'' (Inr True) o1)) ''a'' n))"
proof (rule expired_account_quarantined)
  have "ob_registry (or_bus demo_pool) = fst (register_all (handler_table False) (registry_empty, []))" by code_simp
  then show "wired demo_pool" by (auto simp: wired_def)
  show "ob_outbox (or_bus demo_pool) = []" by code_simp
  show "ob_running (or_bus demo_pool)" by code_simp
  show "\<not> ob_closed (or_bus demo_pool)" by code_simp
qed (simp_all add: demo_pool_inv)

text \<open>
  Removing an account forgets it: afterwards it is not in the pool, no key is pinned to it, every other pin is kept, and no park of it
  remains.
\<close>

theorem remove_forgets_account:
  assumes "or_inv o'"
  shows "let o1 = snd (or_remove st a o')
    in dict_get (or_clients o1) a = None \<and> (\<forall>m excl. \<not> eligible o1 m excl a) \<and>
       (\<forall>k. dict_get (or_pins o1) k = (if dict_get (or_pins o') k = Some a then None else dict_get (or_pins o') k)) \<and>
       dict_get (av_parked (or_avail o1)) a = None"
proof -
  have "dict_ok (fst (or_pins o', Some (or_storage o')))" using assms by (simp add: or_inv_def)
  from aff_drop_account_pins [OF this, of st a] show ?thesis
    by (simp add: Let_def or_remove_eq or_set_avail_def av_release_def eligible_def)
qed

theorem remove_forgets_account_witness:
  "let o1 = snd (or_remove mem_ops ''a'' demo_pool)
    in dict_get (or_clients o1) ''a'' = None \<and> (\<forall>m excl. \<not> eligible o1 m excl ''a'') \<and>
       (\<forall>k. dict_get (or_pins o1) k =
          (if dict_get (or_pins demo_pool) k = Some ''a'' then None else dict_get (or_pins demo_pool) k)) \<and>
       dict_get (av_parked (or_avail o1)) ''a'' = None"
  by (rule remove_forgets_account [OF demo_pool_inv])

text \<open>
  Closing is final: after \<open>close\<close> the pool is empty, every pick raises, and neither \<open>start\<close> nor \<open>add\<close> can revive the orchestrator,
  because its bus stays closed.
\<close>

theorem close_is_final:
  "fst (or_pick st key m excl (or_close o')) = Inl (Py (RuntimeError ''Orchestrator has no clients'')) \<and>
   fst (or_start fr st (or_close o')) = Inl (EventBusClosedError ''bus already closed'' []) \<and>
   fst (or_add fr st c tier (or_close o')) = Inl (EventBusClosedError ''bus already closed'' []) \<and>
   or_clients (snd (or_add fr st c tier (or_close o'))) = []"
  by (simp add: or_close_def or_pick_def or_start_def or_add_def)

end
