(* ===== verification/Executor.thy ===== *)
theory Executor
  imports Routing
begin

section \<open>The bulk executor\<close>

text \<open>
  \<^verbatim>\<open>claude_ai/orchestrator/executor.py\<close>. A call of \<^verbatim>\<open>map\<close> is a transition system: the
  producer fills a bounded queue, the workers take tasks and run \<^verbatim>\<open>_run_one\<close>, which picks an account, waits for the semaphore of that
  account, calls the task function and classifies its exception. The task function is arbitrary: a step may give it any outcome.
  Between any two steps the environment (other tasks, the bus, the clock) may change the orchestrator in any way that
  keeps its invariant. \<open>ex_reported\<close> records the calls of \<^verbatim>\<open>on_result\<close> in their order; an exception of the callback kills the worker, as in the code.
\<close>

record ('i, 'v) bulk_result =
  br_index :: nat
  br_item :: 'i
  br_ok :: bool
  br_value :: "'v option"
  br_error :: "string option"
  br_account_id :: "account_id option"
  br_attempts :: int

record 'i task =
  tk_index :: nat
  tk_item :: 'i
  tk_affinity_key :: "string option"

record exec_config =
  ec_per_account :: int
  ec_max_attempts :: int
  ec_min_tier :: "account_tier option"
  ec_max_park_waits :: int
  ec_park_wait_cap :: pyfloat

datatype 'i affinity_key = NoKey | FixedKey string | KeyOf "'i \<Rightarrow> string option"

definition task_key :: "'i affinity_key \<Rightarrow> 'i \<Rightarrow> string option" where
  "task_key k item = (case k of NoKey \<Rightarrow> None | FixedKey s \<Rightarrow> Some s | KeyOf f \<Rightarrow> f item)"

definition make_tasks :: "'i affinity_key \<Rightarrow> 'i list \<Rightarrow> 'i task list" where
  "make_tasks k items =
     map (\<lambda>(i, x). \<lparr>tk_index = i, tk_item = x, tk_affinity_key = task_key k x\<rparr>) (enumerate 0 items)"

definition wait_delay :: "exec_config \<Rightarrow> pyfloat option \<Rightarrow> pyfloat \<Rightarrow> pyfloat" where
  "wait_delay cfg soonest now =
     (case soonest of
        None \<Rightarrow> min (ec_park_wait_cap cfg) 5
      | Some u \<Rightarrow> max (1/2) (min (ec_park_wait_cap cfg) (u - now)))"

record 'i attempt_state =
  at_task :: "'i task"
  at_tried :: "account_id list"
  at_attempts :: nat
  at_waits :: nat
  at_last_err :: string

datatype 'i worker_state =
    WGet                                  \<comment> \<open>in \<open>queue.get()\<close>\<close>
  | WLoop "'i attempt_state"              \<comment> \<open>at the head of the loop of \<open>_run_one\<close>\<close>
  | WSem "'i attempt_state" client        \<comment> \<open>waiting for the semaphore\<close>
  | WRun "'i attempt_state" client        \<comment> \<open>inside \<open>fn\<close>, holding a permit\<close>
  | WDead                                 \<comment> \<open>the worker task ended with an exception\<close>

record ('s, 'i, 'v) exec_state =
  ex_orch :: "'s orchestrator"
  ex_pending :: "'i task list"            \<comment> \<open>not yet put by the producer\<close>
  ex_queue :: "'i task list"
  ex_unfinished :: nat
  ex_workers :: "'i worker_state list"
  ex_sems :: "int dict"
  ex_results :: "('i, 'v) bulk_result option list"
  ex_dead_letters :: "('i, 'v) bulk_result list"
  ex_reported :: "('i, 'v) bulk_result list"

subsection \<open>The steps of one worker\<close>

definition start_attempts :: "'i task \<Rightarrow> 'i attempt_state" where
  "start_attempts t =
     \<lparr>at_task = t, at_tried = [], at_attempts = 0, at_waits = 0, at_last_err = ''no attempt made''\<rparr>"

definition failure_result :: "'i attempt_state \<Rightarrow> ('i, 'v) bulk_result" where
  "failure_result s =
     \<lparr>br_index = tk_index (at_task s), br_item = tk_item (at_task s), br_ok = False, br_value = None,
      br_error = Some (at_last_err s), br_account_id = None, br_attempts = int (at_attempts s)\<rparr>"

definition success_result :: "'i attempt_state \<Rightarrow> client \<Rightarrow> 'v \<Rightarrow> ('i, 'v) bulk_result" where
  "success_result s c v =
     \<lparr>br_index = tk_index (at_task s), br_item = tk_item (at_task s), br_ok = True, br_value = Some v,
      br_error = None, br_account_id = Some (cl_account_id c), br_attempts = int (at_attempts s)\<rparr>"

datatype ('i, 'v) run_step =
    Continue "'i attempt_state"           \<comment> \<open>back to the head of the loop\<close>
  | Acquire "'i attempt_state" client     \<comment> \<open>an account was picked\<close>
  | Return "('i, 'v) bulk_result"
  | Raise exn

definition run_one_pick ::
  "'s storage_ops \<Rightarrow> exec_config \<Rightarrow> 'i attempt_state \<Rightarrow> 's orchestrator \<Rightarrow> ('i, 'v) run_step \<times> 's orchestrator" where
  \<comment> \<open>one evaluation of the loop condition and of \<open>pick\<close> with its handlers\<close>
  "run_one_pick st cfg s o' =
     (if \<not> int (at_attempts s) < ec_max_attempts cfg then (Return (failure_result s), o')
      else (case or_pick st (tk_affinity_key (at_task s)) (ec_min_tier cfg) (at_tried s) o' of
              (Inr c, o1) \<Rightarrow> (Acquire (s\<lparr>at_attempts := Suc (at_attempts s)\<rparr>) c, o1)
            | (Inl e, o1) \<Rightarrow>
                (case e of
                   NoAvailableAccounts soonest \<Rightarrow>
                     (let s1 = s\<lparr>at_waits := Suc (at_waits s)\<rparr>
                      in if int (at_waits s1) > ec_max_park_waits cfg
                         then (Return (failure_result (s1\<lparr>at_last_err := ''all accounts parked/quarantined''\<rparr>)), o1)
                         else (Continue s1, o1\<lparr>or_clock := or_clock o1 + wait_delay cfg soonest (or_clock o1)\<rparr>))
                 | _ \<Rightarrow> if is_runtime_error e
                        then (Return (failure_result (s\<lparr>at_last_err := exn_str e\<rparr>)), o1)
                        else (Raise e, o1))))"

definition add_tried :: "'i attempt_state \<Rightarrow> client \<Rightarrow> exn \<Rightarrow> 'i attempt_state" where
  "add_tried s c e = s\<lparr>at_tried := cl_account_id c # at_tried s, at_last_err := exn_str e\<rparr>"

definition run_one_outcome ::
  "'s storage_ops \<Rightarrow> 'i attempt_state \<Rightarrow> client \<Rightarrow> exn + 'v \<Rightarrow> 's orchestrator \<Rightarrow> ('i, 'v) run_step \<times> 's orchestrator" where
  \<comment> \<open>the \<open>try\<close> block around \<open>fn\<close>: its result, or the handler of its exception\<close>
  "run_one_outcome st s c out o' =
     (case out of
        Inr v \<Rightarrow> (Return (success_result s c v), o')
      | Inl e \<Rightarrow>
          (case e of
             Api x \<Rightarrow>
               (case api_class x of
                  RateLimitError \<Rightarrow>
                    (let until = (case api_retry_after x of
                                    None \<Rightarrow> None
                                  | Some r \<Rightarrow> if r = 0 then None else Some (or_clock o' + r))
                     in (Continue (add_tried s c e),
                         or_set_avail o' (av_park st (or_clock o') (or_avail o', Some (or_storage o'))
                           (cl_account_id c) until ''429'')))
                | AuthError \<Rightarrow>
                    (case or_report_expired (cl_account_id c) ''401 during task'' o' of
                       (Inl e', o1) \<Rightarrow> (Raise e', o1)
                     | (Inr _, o1) \<Rightarrow> (Continue (add_tried s c e), o1))
                | ForbiddenError \<Rightarrow> (Continue (add_tried s c e), o')
                | _ \<Rightarrow> (Continue (s\<lparr>at_last_err := exn_str e\<rparr>), o'))
           | NetworkError _ _ \<Rightarrow> (Continue (s\<lparr>at_last_err := exn_str e\<rparr>), o')
           | StreamError _ _ _ \<Rightarrow> (Continue (s\<lparr>at_last_err := exn_str e\<rparr>), o')
           | _ \<Rightarrow> (Return (failure_result (s\<lparr>at_last_err := exn_str e\<rparr>)), o')))"

subsection \<open>The transition system\<close>

definition exec_slots :: "exec_config \<Rightarrow> 's orchestrator \<Rightarrow> nat" where
  "exec_slots cfg o' = nat (max 1 (int (length (or_clients o')) * ec_per_account cfg))"

record ('i, 'v) executor =
  \<comment> \<open>what a \<open>BulkExecutor\<close> keeps between two calls of \<open>map\<close>\<close>
  be_sems :: "int dict"
  be_dead_letters :: "('i, 'v) bulk_result list"

definition bulk_executor_init :: "('i, 'v) executor" where
  "bulk_executor_init = \<lparr>be_sems = [], be_dead_letters = []\<rparr>"

definition exec_start ::
  "exec_config \<Rightarrow> ('i, 'v) executor \<Rightarrow> 'i affinity_key \<Rightarrow> 'i list \<Rightarrow> 's orchestrator \<Rightarrow> ('s, 'i, 'v) exec_state" where
  \<comment> \<open>\<open>map\<close> up to the first \<open>put\<close>\<close>
  "exec_start cfg x k items o' =
     \<lparr>ex_orch = o', ex_pending = make_tasks k items, ex_queue = [], ex_unfinished = 0,
      ex_workers = replicate (exec_slots cfg o') WGet, ex_sems = be_sems x,
      ex_results = replicate (length items) None, ex_dead_letters = be_dead_letters x, ex_reported = []\<rparr>"

definition sem_value :: "exec_config \<Rightarrow> ('s, 'i, 'v) exec_state \<Rightarrow> account_id \<Rightarrow> int" where
  \<comment> \<open>the free permits of \<open>_sem(account_id)\<close>, which is made on first use\<close>
  "sem_value cfg e a = dict_getd (ex_sems e) a (ec_per_account cfg)"

definition finish_task ::
  "nat \<Rightarrow> bool \<Rightarrow> ('i, 'v) bulk_result \<Rightarrow> ('s, 'i, 'v) exec_state \<Rightarrow> ('s, 'i, 'v) exec_state" where
  \<comment> \<open>\<open>_worker\<close> after \<open>_run_one\<close>: store the result, report it, \<open>task_done\<close>; \<open>raised\<close> tells whether
     \<open>on_result\<close> raised\<close>
  "finish_task i raised r e =
     e\<lparr>ex_results := (ex_results e)[br_index r := Some r],
       ex_dead_letters := (if br_ok r then ex_dead_letters e else ex_dead_letters e @ [r]),
       ex_reported := ex_reported e @ [r],
       ex_workers := (ex_workers e)[i := if raised then WDead else WGet],
       ex_unfinished := ex_unfinished e - 1\<rparr>"

definition apply_step :: "nat \<Rightarrow> bool \<Rightarrow> ('i, 'v) run_step \<Rightarrow> ('s, 'i, 'v) exec_state \<Rightarrow> ('s, 'i, 'v) exec_state" where
  "apply_step i raised x e =
     (case x of
        Continue s \<Rightarrow> e\<lparr>ex_workers := (ex_workers e)[i := WLoop s]\<rparr>
      | Acquire s c \<Rightarrow> e\<lparr>ex_workers := (ex_workers e)[i := WSem s c]\<rparr>
      | Return r \<Rightarrow> finish_task i raised r e
      | Raise ex \<Rightarrow> e\<lparr>ex_workers := (ex_workers e)[i := WDead], ex_unfinished := ex_unfinished e - 1\<rparr>)"

definition acquire_sem :: "exec_config \<Rightarrow> nat \<Rightarrow> 'i attempt_state \<Rightarrow> client \<Rightarrow> ('s, 'i, 'v) exec_state \<Rightarrow> ('s, 'i, 'v) exec_state" where
  "acquire_sem cfg i s c e =
     e\<lparr>ex_sems := dict_set (ex_sems e) (cl_account_id c) (sem_value cfg e (cl_account_id c) - 1),
       ex_workers := (ex_workers e)[i := WRun s c]\<rparr>"

definition release_sem :: "exec_config \<Rightarrow> client \<Rightarrow> ('s, 'i, 'v) exec_state \<Rightarrow> ('s, 'i, 'v) exec_state" where
  "release_sem cfg c e =
     e\<lparr>ex_sems := dict_set (ex_sems e) (cl_account_id c) (sem_value cfg e (cl_account_id c) + 1)\<rparr>"

inductive exec_internal ::
  "'s storage_ops \<Rightarrow> exec_config \<Rightarrow> ('s, 'i, 'v) exec_state \<Rightarrow> ('s, 'i, 'v) exec_state \<Rightarrow> bool"
  for st cfg where
  put: "ex_pending e = t # ts \<Longrightarrow> length (ex_queue e) < 2 * length (ex_workers e) \<Longrightarrow>
     exec_internal st cfg e (e\<lparr>ex_pending := ts, ex_queue := ex_queue e @ [t], ex_unfinished := Suc (ex_unfinished e)\<rparr>)"
| get: "i < length (ex_workers e) \<Longrightarrow> ex_workers e ! i = WGet \<Longrightarrow> ex_queue e = t # q \<Longrightarrow>
     exec_internal st cfg e (e\<lparr>ex_queue := q, ex_workers := (ex_workers e)[i := WLoop (start_attempts t)]\<rparr>)"
| pick: "i < length (ex_workers e) \<Longrightarrow> ex_workers e ! i = WLoop s \<Longrightarrow> run_one_pick st cfg s (ex_orch e) = (x, o1) \<Longrightarrow>
     exec_internal st cfg e (apply_step i raised x (e\<lparr>ex_orch := o1\<rparr>))"
| acquire: "i < length (ex_workers e) \<Longrightarrow> ex_workers e ! i = WSem s c \<Longrightarrow> 0 < sem_value cfg e (cl_account_id c) \<Longrightarrow>
     exec_internal st cfg e (acquire_sem cfg i s c e)"
| outcome: "i < length (ex_workers e) \<Longrightarrow> ex_workers e ! i = WRun s c \<Longrightarrow> run_one_outcome st s c out (ex_orch e) = (x, o1) \<Longrightarrow>
     exec_internal st cfg e (apply_step i raised x (release_sem cfg c (e\<lparr>ex_orch := o1\<rparr>)))"

inductive exec_step ::
  "'s storage_ops \<Rightarrow> exec_config \<Rightarrow> ('s, 'i, 'v) exec_state \<Rightarrow> ('s, 'i, 'v) exec_state \<Rightarrow> bool"
  for st cfg where
  internal: "exec_internal st cfg e e' \<Longrightarrow> exec_step st cfg e e'"
| environment: "or_inv o1 \<Longrightarrow> exec_step st cfg e (e\<lparr>ex_orch := o1\<rparr>)"

inductive_cases exec_internalE: "exec_internal st cfg e e'"

definition exec_reachable ::
  "'s storage_ops \<Rightarrow> exec_config \<Rightarrow> ('i, 'v) executor \<Rightarrow> 'i affinity_key \<Rightarrow> 'i list \<Rightarrow> 's orchestrator \<Rightarrow> ('s, 'i, 'v) exec_state \<Rightarrow> bool" where
  "exec_reachable st cfg x k items o' e \<longleftrightarrow> (exec_step st cfg)\<^sup>*\<^sup>* (exec_start cfg x k items o') e"

definition exec_finished :: "('s, 'i, 'v) exec_state \<Rightarrow> bool" where
  \<comment> \<open>every task was put and \<open>queue.join()\<close> returns\<close>
  "exec_finished e \<longleftrightarrow> ex_pending e = [] \<and> ex_unfinished e = 0"

definition map_result_list :: "('s, 'i, 'v) exec_state \<Rightarrow> ('i, 'v) bulk_result list" where
  \<comment> \<open>\<open>[r for r in results if r is not None]\<close>\<close>
  "map_result_list e = List.map_filter id (ex_results e)"

definition executor_of :: "('s, 'i, 'v) exec_state \<Rightarrow> ('i, 'v) executor" where
  "executor_of e = \<lparr>be_sems = ex_sems e, be_dead_letters = ex_dead_letters e\<rparr>"

definition executor_idle :: "exec_config \<Rightarrow> ('i, 'v) executor \<Rightarrow> bool" where
  \<comment> \<open>every semaphore has all its permits\<close>
  "executor_idle cfg x \<longleftrightarrow> (\<forall>a. dict_getd (be_sems x) a (ec_per_account cfg) = ec_per_account cfg)"

subsection \<open>Invariants\<close>

lemma mset_concat_update:
  "i < length xs \<Longrightarrow> mset (concat (map f (xs[i := x]))) + mset (f (xs ! i)) = mset (concat (map f xs)) + mset (f x)"
proof (induction xs arbitrary: i)
  case Nil
  then show ?case by simp
next
  case (Cons y ys)
  then show ?case by (cases i) (auto simp: union_ac)
qed

lemma length_filter_update:
  "i < length xs \<Longrightarrow> length (filter P (xs[i := x])) + (if P (xs ! i) then 1 else 0) =
     length (filter P xs) + (if P x then 1 else 0)"
proof (induction xs arbitrary: i)
  case Nil
  then show ?case by simp
next
  case (Cons y ys)
  then show ?case by (cases i) auto
qed

fun active :: "'i worker_state \<Rightarrow> 'i task list" where
  "active (WLoop s) = [at_task s]"
| "active (WSem s c) = [at_task s]"
| "active (WRun s c) = [at_task s]"
| "active _ = []"

fun runs_on :: "account_id \<Rightarrow> 'i worker_state \<Rightarrow> bool" where
  "runs_on a (WRun s c) = (cl_account_id c = a)"
| "runs_on a _ = False"

fun local_ok :: "exec_config \<Rightarrow> 'i worker_state \<Rightarrow> bool" where
  "local_ok cfg (WLoop s) = (int (at_attempts s) \<le> max 0 (ec_max_attempts cfg) \<and> int (at_waits s) \<le> max 0 (ec_max_park_waits cfg))"
| "local_ok cfg (WSem s c) = (1 \<le> at_attempts s \<and> int (at_attempts s) \<le> ec_max_attempts cfg \<and>
     int (at_waits s) \<le> max 0 (ec_max_park_waits cfg) \<and> cl_account_id c \<notin> set (at_tried s))"
| "local_ok cfg (WRun s c) = (1 \<le> at_attempts s \<and> int (at_attempts s) \<le> ec_max_attempts cfg \<and>
     int (at_waits s) \<le> max 0 (ec_max_park_waits cfg) \<and> cl_account_id c \<notin> set (at_tried s))"
| "local_ok cfg _ = True"

definition running_on :: "('s, 'i, 'v) exec_state \<Rightarrow> account_id \<Rightarrow> nat" where
  "running_on e a = length (filter (runs_on a) (ex_workers e))"

definition open_tasks :: "('s, 'i, 'v) exec_state \<Rightarrow> 'i task list" where
  "open_tasks e = ex_pending e @ ex_queue e @ concat (map active (ex_workers e))"

definition result_of :: "exec_config \<Rightarrow> 'i task list \<Rightarrow> ('i, 'v) bulk_result \<Rightarrow> bool" where
  \<comment> \<open>a result that belongs to one of the tasks and respects the bound on attempts\<close>
  "result_of cfg ts r \<longleftrightarrow> (\<exists>t \<in> set ts. br_index r = tk_index t \<and> br_item r = tk_item t) \<and>
     0 \<le> br_attempts r \<and> br_attempts r \<le> max 0 (ec_max_attempts cfg) \<and> (br_ok r \<longrightarrow> 1 \<le> br_attempts r)"

definition exec_inv :: "exec_config \<Rightarrow> ('i, 'v) bulk_result list \<Rightarrow> 'i task list \<Rightarrow> ('s, 'i, 'v) exec_state \<Rightarrow> bool" where
  "exec_inv cfg dl ts e \<longleftrightarrow>
     or_inv (ex_orch e) \<and> ex_workers e \<noteq> [] \<and>
     (\<forall>a. sem_value cfg e a + int (running_on e a) = ec_per_account cfg) \<and>
     list_all (local_ok cfg) (ex_workers e) \<and>
     set (open_tasks e) \<subseteq> set ts \<and>
     ex_unfinished e = length (ex_queue e) + length (concat (map active (ex_workers e))) \<and>
     mset (map tk_index (open_tasks e)) + mset (map br_index (ex_reported e)) \<subseteq># mset (map tk_index ts) \<and>
     (WDead \<notin> set (ex_workers e) \<longrightarrow>
        mset (map tk_index (open_tasks e)) + mset (map br_index (ex_reported e)) = mset (map tk_index ts)) \<and>
     list_all (result_of cfg ts) (ex_reported e) \<and>
     length (ex_results e) = length ts \<and>
     (\<forall>r \<in> set (ex_reported e). ex_results e ! br_index r = Some r) \<and>
     ex_dead_letters e = dl @ filter (\<lambda>r. \<not> br_ok r) (ex_reported e)"

lemma make_tasks_index: "map tk_index (make_tasks k items) = [0..<length items]"
  by (simp add: make_tasks_def comp_def case_prod_unfold enumerate_eq_zip)

lemma length_make_tasks [simp]: "length (make_tasks k items) = length items"
  by (simp add: make_tasks_def)

lemma make_tasks_item: "t \<in> set (make_tasks k items) \<Longrightarrow> tk_item t = items ! tk_index t \<and> tk_index t < length items"
  by (auto simp: make_tasks_def in_set_enumerate_eq)

lemma concat_active_replicate [simp]: "concat (map active (replicate n WGet)) = []"
  by (induction n) auto

lemma exec_start_inv:
  "or_inv o' \<Longrightarrow> executor_idle cfg x \<Longrightarrow> exec_inv cfg (be_dead_letters x) (make_tasks k items) (exec_start cfg x k items o')"
  by (auto simp: exec_inv_def exec_start_def exec_slots_def sem_value_def executor_idle_def running_on_def open_tasks_def list_all_iff)

fun step_ok :: "exec_config \<Rightarrow> 'i attempt_state \<Rightarrow> ('i, 'v) run_step \<Rightarrow> bool" where
  \<comment> \<open>what \<open>_run_one\<close> may do next for the task of \<open>s\<close>\<close>
  "step_ok cfg s (Continue s') = (at_task s' = at_task s \<and> local_ok cfg (WLoop s'))"
| "step_ok cfg s (Acquire s' c) = (at_task s' = at_task s \<and> local_ok cfg (WSem s' c))"
| "step_ok cfg s (Return r) = (br_index r = tk_index (at_task s) \<and> br_item r = tk_item (at_task s) \<and>
     0 \<le> br_attempts r \<and> br_attempts r \<le> max 0 (ec_max_attempts cfg) \<and> (br_ok r \<longrightarrow> 1 \<le> br_attempts r))"
| "step_ok cfg s (Raise e) = True"

lemma run_one_pick_ok:
  assumes "or_inv o'" and "local_ok cfg (WLoop s)" and "run_one_pick st cfg s o' = (x, o1)"
  shows "step_ok cfg s x \<and> or_inv o1"
proof (cases "int (at_attempts s) < ec_max_attempts cfg")
  case False
  with assms show ?thesis by (auto simp: run_one_pick_def failure_result_def)
next
  case True
  obtain r o2 where p: "or_pick st (tk_affinity_key (at_task s)) (ec_min_tier cfg) (at_tried s) o' = (r, o2)" by fastforce
  have i2: "or_inv o2" using or_pick_inv [OF assms(1)] p by (metis snd_conv)
  then have clk: "or_inv (o2\<lparr>or_clock := t\<rparr>)" for t by (simp add: or_inv_def)
  show ?thesis
  proof (cases r)
    case (Inr c)
    with or_pick_result(2) [OF assms(1) p [unfolded Inr]] assms(2,3) True p i2 show ?thesis
      by (auto simp: run_one_pick_def eligible_def)
  next
    case (Inl e)
    with assms(2,3) True p i2 clk show ?thesis
      by (auto simp: run_one_pick_def failure_result_def Let_def split: exn.splits if_splits)
  qed
qed

lemma or_set_avail_park_inv: "or_inv o' \<Longrightarrow> or_inv (or_set_avail o' (av_park st now (or_avail o', so) a u r))"
  by (simp add: or_inv_def or_set_avail_def av_park_def Let_def av_set_dict_ok)

lemma or_report_expired_inv: "or_report_expired a r o' = (x, o1) \<Longrightarrow> or_inv o' \<Longrightarrow> or_inv o1"
  by (auto simp: or_report_expired_def or_publish_def or_inv_def split: if_splits)

lemma run_one_outcome_ok:
  assumes "or_inv o'" and "local_ok cfg (WRun s c)" and "run_one_outcome st s c out o' = (x, o1)"
  shows "step_ok cfg s x \<and> or_inv o1"
proof (cases out)
  case (Inr v)
  with assms show ?thesis by (auto simp: run_one_outcome_def success_result_def)
next
  case (Inl e)
  show ?thesis
  proof (cases e)
    case (Api y)
    with Inl assms or_set_avail_park_inv [OF assms(1)] or_report_expired_inv [OF _ assms(1)] show ?thesis
      by (cases "api_class y")
         (auto simp: run_one_outcome_def add_tried_def Let_def split: sum.splits prod.splits)
  qed (use Inl assms in \<open>auto simp: run_one_outcome_def failure_result_def\<close>)
qed

lemma apply_step_overwrite:
  "apply_step i raised x (e\<lparr>ex_workers := (ex_workers e)[i := w]\<rparr>) = apply_step i raised x e"
  by (cases x) (simp_all add: apply_step_def finish_task_def)

lemma exec_inv_orch: "exec_inv cfg dl ts e \<Longrightarrow> or_inv o1 \<Longrightarrow> exec_inv cfg dl ts (e\<lparr>ex_orch := o1\<rparr>)"
  by (simp add: exec_inv_def sem_value_def running_on_def open_tasks_def)

lemma worker_alive:
  "WDead \<notin> set ((ex_workers e)[i := w]) \<Longrightarrow> i < length (ex_workers e) \<Longrightarrow> ex_workers e ! i \<noteq> WDead \<Longrightarrow>
     WDead \<notin> set (ex_workers e)"
  by (metis in_set_conv_nth length_list_update nth_list_update_neq)

lemma workers_local_ok:
  "exec_inv cfg dl ts e \<Longrightarrow> i < length (ex_workers e) \<Longrightarrow> local_ok cfg w \<Longrightarrow> list_all (local_ok cfg) ((ex_workers e)[i := w])"
  by (auto simp: exec_inv_def list_all_length nth_list_update)

lemma worker_local_ok: "exec_inv cfg dl ts e \<Longrightarrow> i < length (ex_workers e) \<Longrightarrow> local_ok cfg (ex_workers e ! i)"
  by (simp add: exec_inv_def list_all_length)

lemma exec_inv_permits: "exec_inv cfg dl ts e \<Longrightarrow> sem_value cfg e a + int (running_on e a) = ec_per_account cfg"
  by (simp add: exec_inv_def)

lemma same_tasks:
  \<comment> \<open>a worker that keeps its task\<close>
  assumes "i < length ws" and "active w = active (ws ! i)"
  shows "mset (concat (map active (ws[i := w]))) = mset (concat (map active ws))"
  using mset_concat_update [OF assms(1), of active w] assms(2) by simp

lemma worker_update_inv:
  \<comment> \<open>a worker changes its state and the permits, but not its task\<close>
  assumes inv: "exec_inv cfg dl ts e" and i: "i < length (ex_workers e)" and live: "ex_workers e ! i \<noteq> WDead"
    and act: "active w = active (ex_workers e ! i)" and ok: "local_ok cfg w"
    and sem: "\<And>a. dict_getd sems a (ec_per_account cfg) + int (length (filter (runs_on a) ((ex_workers e)[i := w]))) =
      ec_per_account cfg"
  shows "exec_inv cfg dl ts (e\<lparr>ex_sems := sems, ex_workers := (ex_workers e)[i := w]\<rparr>)"
proof -
  note a = same_tasks [OF i act]
  have len: "length (concat (map active ((ex_workers e)[i := w]))) = length (concat (map active (ex_workers e)))"
    and set: "set (concat (map active ((ex_workers e)[i := w]))) = set (concat (map active (ex_workers e)))"
    using a by (metis size_mset, metis set_mset_mset)
  have idx: "mset (map tk_index (concat (map active ((ex_workers e)[i := w])))) =
      mset (map tk_index (concat (map active (ex_workers e))))" using a by (metis mset_map)
  show ?thesis using inv len set idx sem workers_local_ok [OF inv i ok] worker_alive [OF _ i live]
    by (auto simp: exec_inv_def sem_value_def running_on_def open_tasks_def simp del: mset_map set_concat)
qed

lemma worker_state_inv:
  assumes inv: "exec_inv cfg dl ts e" and i: "i < length (ex_workers e)" and live: "ex_workers e ! i \<noteq> WDead"
    and act: "active w = active (ex_workers e ! i)" and ok: "local_ok cfg w"
    and run: "\<And>a. runs_on a w = runs_on a (ex_workers e ! i)"
  shows "exec_inv cfg dl ts (e\<lparr>ex_workers := (ex_workers e)[i := w]\<rparr>)"
proof -
  have "dict_getd (ex_sems e) a (ec_per_account cfg) + int (length (filter (runs_on a) ((ex_workers e)[i := w]))) =
      ec_per_account cfg" for a
    using length_filter_update [OF i, of "runs_on a" w] run [of a] inv
    by (simp add: exec_inv_def sem_value_def running_on_def)
  from worker_update_inv [OF inv i live act ok this] show ?thesis by simp
qed

lemma acquire_inv:
  assumes inv: "exec_inv cfg dl ts e" and i: "i < length (ex_workers e)" and w: "ex_workers e ! i = WSem s c"
  shows "exec_inv cfg dl ts (acquire_sem cfg i s c e)"
proof -
  let ?sems = "dict_set (ex_sems e) (cl_account_id c) (sem_value cfg e (cl_account_id c) - 1)"
  have "dict_getd ?sems a (ec_per_account cfg) + int (length (filter (runs_on a) ((ex_workers e)[i := WRun s c]))) =
      ec_per_account cfg" for a
    using length_filter_update [OF i, of "runs_on a" "WRun s c"] w exec_inv_permits [OF inv, of a]
    by (auto simp: sem_value_def running_on_def dict_getd_def)
  moreover have "local_ok cfg (WRun s c)" using worker_local_ok [OF inv i] w by simp
  ultimately show ?thesis using worker_update_inv [OF inv i, of "WRun s c" ?sems] w by (simp add: acquire_sem_def)
qed

lemma release_inv:
  assumes inv: "exec_inv cfg dl ts e" and i: "i < length (ex_workers e)" and w: "ex_workers e ! i = WRun s c"
  shows "exec_inv cfg dl ts ((release_sem cfg c e)\<lparr>ex_workers := (ex_workers e)[i := WLoop s]\<rparr>)"
proof -
  let ?sems = "dict_set (ex_sems e) (cl_account_id c) (sem_value cfg e (cl_account_id c) + 1)"
  have "dict_getd ?sems a (ec_per_account cfg) + int (length (filter (runs_on a) ((ex_workers e)[i := WLoop s]))) =
      ec_per_account cfg" for a
    using length_filter_update [OF i, of "runs_on a" "WLoop s"] w exec_inv_permits [OF inv, of a]
    by (auto simp: sem_value_def running_on_def dict_getd_def)
  moreover have "local_ok cfg (WLoop s)" using worker_local_ok [OF inv i] w by simp
  ultimately show ?thesis using worker_update_inv [OF inv i, of "WLoop s" ?sems] w by (simp add: release_sem_def)
qed

lemma worker_done_tasks:
  \<comment> \<open>a worker gives up its task\<close>
  assumes "i < length ws" and "active (ws ! i) = [t]" and "active w = []"
  shows "mset (map tk_index (concat (map active ws))) = add_mset (tk_index t) (mset (map tk_index (concat (map active (ws[i := w])))))"
    and "length (concat (map active ws)) = Suc (length (concat (map active (ws[i := w]))))"
    and "set (concat (map active (ws[i := w]))) \<subseteq> set (concat (map active ws))"
    and "t \<in> set (concat (map active ws))"
proof -
  have m: "mset (concat (map active ws)) = add_mset t (mset (concat (map active (ws[i := w]))))"
    using mset_concat_update [OF assms(1), of active w] assms by simp
  from m show "mset (map tk_index (concat (map active ws))) =
      add_mset (tk_index t) (mset (map tk_index (concat (map active (ws[i := w])))))"
    by (metis image_mset_add_mset mset_map)
  from m show "length (concat (map active ws)) = Suc (length (concat (map active (ws[i := w]))))"
    by (metis size_add_mset size_mset)
  from m have "set (concat (map active ws)) = insert t (set (concat (map active (ws[i := w]))))"
    by (metis set_mset_add_mset_insert set_mset_mset)
  then show "set (concat (map active (ws[i := w]))) \<subseteq> set (concat (map active ws))"
    and "t \<in> set (concat (map active ws))" by auto
qed

lemma worker_done_permits:
  assumes "exec_inv cfg dl ts e" and i: "i < length (ex_workers e)" and "\<And>a. \<not> runs_on a (ex_workers e ! i)" and "\<And>a. \<not> runs_on a w"
  shows "sem_value cfg e a + int (length (filter (runs_on a) ((ex_workers e)[i := w]))) = ec_per_account cfg"
  using exec_inv_permits [OF assms(1), of a] length_filter_update [OF i, of "runs_on a" w] assms(3,4) [of a]
  by (simp add: running_on_def)

lemma open_tasks_done:
  assumes i: "i < length (ex_workers e)" and t: "active (ex_workers e ! i) = [t]" and w: "active w = []"
    and e': "ex_pending e' = ex_pending e" "ex_queue e' = ex_queue e" "ex_workers e' = (ex_workers e)[i := w]"
  shows "mset (map tk_index (open_tasks e)) = add_mset (tk_index t) (mset (map tk_index (open_tasks e')))"
    and "set (open_tasks e') \<subseteq> set (open_tasks e)" and "t \<in> set (open_tasks e)"
  using worker_done_tasks [OF i t w] e' by (auto simp: open_tasks_def simp del: set_concat)

lemma exec_inv_tasks:
  assumes "exec_inv cfg dl ts e"
  shows "set (open_tasks e) \<subseteq> set ts"
    and "mset (map tk_index (open_tasks e)) + mset (map br_index (ex_reported e)) \<subseteq># mset (map tk_index ts)"
    and "WDead \<notin> set (ex_workers e) \<Longrightarrow>
      mset (map tk_index (open_tasks e)) + mset (map br_index (ex_reported e)) = mset (map tk_index ts)"
    and "ex_unfinished e = length (ex_queue e) + length (concat (map active (ex_workers e)))"
  using assms by (simp_all add: exec_inv_def)

lemma raise_inv:
  assumes inv: "exec_inv cfg dl ts e" and i: "i < length (ex_workers e)" and w: "ex_workers e ! i = WLoop s"
  shows "exec_inv cfg dl ts (apply_step i raised (Raise x) e)"
proof -
  let ?e = "apply_step i raised (Raise x) e"
  have e': "ex_pending ?e = ex_pending e" "ex_queue ?e = ex_queue e" "ex_workers ?e = (ex_workers e)[i := WDead]"
    "ex_reported ?e = ex_reported e" "ex_unfinished ?e = ex_unfinished e - 1" "ex_orch ?e = ex_orch e"
    "ex_results ?e = ex_results e" "ex_dead_letters ?e = ex_dead_letters e" "ex_sems ?e = ex_sems e"
    by (simp_all add: apply_step_def)
  note d = open_tasks_done [OF i, of "at_task s" WDead ?e, unfolded w e'(1-3), simplified]
    and l = worker_done_tasks(2) [OF i, of "at_task s" WDead, unfolded w, simplified]
  have "WDead \<in> set (ex_workers ?e)" using i by (simp add: e' set_update_memI)
  moreover have "list_all (local_ok cfg) (ex_workers ?e)" unfolding e' by (rule workers_local_ok [OF inv i]) simp
  moreover have "sem_value cfg ?e a + int (running_on ?e a) = ec_per_account cfg" for a
    using worker_done_permits [OF inv i, of WDead a] w by (simp add: e' running_on_def sem_value_def)
  moreover have "mset (map tk_index (open_tasks ?e)) \<subseteq># mset (map tk_index (open_tasks e))" using d(1) by simp
  then have "mset (map tk_index (open_tasks ?e)) + mset (map br_index (ex_reported ?e)) \<subseteq># mset (map tk_index ts)"
    using exec_inv_tasks(2) [OF inv] by (simp only: e') (meson subset_mset.add_right_mono subset_mset.order_trans)
  moreover have "set (open_tasks ?e) \<subseteq> set ts" using d(2) exec_inv_tasks(1) [OF inv] by blast
  ultimately show ?thesis using inv l exec_inv_tasks(4) [OF inv]
    by (auto simp: exec_inv_def e' simp del: mset_map set_concat)
qed

lemma finish_results:
  \<comment> \<open>a new result does not overwrite an earlier one\<close>
  assumes inv: "exec_inv cfg dl ts e" and ts: "map tk_index ts = [0..<length ts]"
    and t: "t \<in> set (open_tasks e)" and r: "br_index r = tk_index t"
  shows "\<forall>r' \<in> set (ex_reported e @ [r]). (ex_results e)[br_index r := Some r] ! br_index r' = Some r'"
proof -
  have "t \<in> set ts" using exec_inv_tasks(1) [OF inv] t by blast
  then have "br_index r \<in> set (map tk_index ts)" using r by simp
  then have lt: "br_index r < length (ex_results e)" using inv by (simp only: ts) (simp add: exec_inv_def)
  have "br_index r \<noteq> br_index r'" if "r' \<in> set (ex_reported e)" for r'
  proof
    assume eq: "br_index r = br_index r'"
    have "br_index r \<in># mset (map tk_index (open_tasks e))" using t r by simp
    moreover have "br_index r \<in># mset (map br_index (ex_reported e))" using that eq by simp
    ultimately have "2 \<le> count (mset (map tk_index (open_tasks e)) + mset (map br_index (ex_reported e))) (br_index r)"
      by (simp only: count_union) (metis add_mono_thms_linordered_semiring(1) count_greater_eq_one_iff one_add_one)
    then have "2 \<le> count (mset (map tk_index ts)) (br_index r)"
      using exec_inv_tasks(2) [OF inv] by (meson mset_subset_eq_count order_trans)
    moreover have "distinct (map tk_index ts)" unfolding ts by simp
    ultimately show False by (simp only: distinct_count_atmost_1) (simp split: if_splits)
  qed
  then show ?thesis using inv lt by (auto simp: exec_inv_def)
qed

lemma finish_inv:
  assumes inv: "exec_inv cfg dl ts e" and ts: "map tk_index ts = [0..<length ts]"
    and i: "i < length (ex_workers e)" and w: "ex_workers e ! i = WLoop s" and ok: "step_ok cfg s (Return r)"
  shows "exec_inv cfg dl ts (finish_task i raised r e)"
proof -
  let ?e = "finish_task i raised r e" and ?w = "if raised then WDead else WGet"
  have e': "ex_pending ?e = ex_pending e" "ex_queue ?e = ex_queue e" "ex_workers ?e = (ex_workers e)[i := ?w]"
    "ex_reported ?e = ex_reported e @ [r]" "ex_unfinished ?e = ex_unfinished e - 1" "ex_orch ?e = ex_orch e"
    "ex_results ?e = (ex_results e)[br_index r := Some r]"
    "ex_dead_letters ?e = (if br_ok r then ex_dead_letters e else ex_dead_letters e @ [r])" "ex_sems ?e = ex_sems e"
    by (simp_all add: finish_task_def)
  have aw: "active (ex_workers e ! i) = [at_task s]" "active ?w = []" using w by auto
  note d = open_tasks_done [OF i aw e'(1-3)] and l = worker_done_tasks(2) [OF i aw]
  have keep: "mset (map tk_index (open_tasks ?e)) + mset (map br_index (ex_reported ?e)) =
      mset (map tk_index (open_tasks e)) + mset (map br_index (ex_reported e))"
    using d(1) ok by (simp add: e')
  have "list_all (local_ok cfg) (ex_workers ?e)" unfolding e' by (rule workers_local_ok [OF inv i]) simp
  moreover have "sem_value cfg ?e a + int (running_on ?e a) = ec_per_account cfg" for a
    using worker_done_permits [OF inv i, of ?w a] w by (auto simp: e' running_on_def sem_value_def)
  moreover have "set (open_tasks ?e) \<subseteq> set ts" using d(2) exec_inv_tasks(1) [OF inv] by blast
  moreover have "result_of cfg ts r" using ok d(3) exec_inv_tasks(1) [OF inv] by (auto simp: result_of_def)
  moreover note finish_results [OF inv ts d(3), of r]
  moreover have "WDead \<notin> set (ex_workers ?e) \<Longrightarrow> WDead \<notin> set (ex_workers e)"
    using worker_alive [OF _ i] w by (auto simp: e')
  ultimately show ?thesis using inv l ok exec_inv_tasks(2-4) [OF inv]
    unfolding exec_inv_def keep by (auto simp: e' simp del: mset_map set_concat)
qed

lemma apply_step_inv:
  assumes inv: "exec_inv cfg dl ts e" and ts: "map tk_index ts = [0..<length ts]"
    and i: "i < length (ex_workers e)" and w: "ex_workers e ! i = WLoop s" and ok: "step_ok cfg s x"
  shows "exec_inv cfg dl ts (apply_step i raised x e)"
proof (cases x)
  case (Continue s')
  then show ?thesis using worker_state_inv [OF inv i, of "WLoop s'"] w ok by (simp add: apply_step_def)
next
  case (Acquire s' c)
  then show ?thesis using worker_state_inv [OF inv i, of "WSem s' c"] w ok by (simp add: apply_step_def)
next
  case (Return r)
  then show ?thesis using finish_inv [OF inv ts i w] ok by (simp add: apply_step_def)
next
  case (Raise ex)
  then show ?thesis using raise_inv [OF inv i w] by simp
qed

lemma put_inv:
  "exec_inv cfg dl ts e \<Longrightarrow> ex_pending e = t # tl' \<Longrightarrow>
     exec_inv cfg dl ts (e\<lparr>ex_pending := tl', ex_queue := ex_queue e @ [t], ex_unfinished := Suc (ex_unfinished e)\<rparr>)"
  by (auto simp: exec_inv_def open_tasks_def sem_value_def running_on_def)

lemma get_inv:
  assumes inv: "exec_inv cfg dl ts e" and i: "i < length (ex_workers e)" and w: "ex_workers e ! i = WGet" and q: "ex_queue e = t # q'"
  shows "exec_inv cfg dl ts (e\<lparr>ex_queue := q', ex_workers := (ex_workers e)[i := WLoop (start_attempts t)]\<rparr>)"
proof -
  let ?w = "WLoop (start_attempts t)"
  let ?e = "e\<lparr>ex_queue := q', ex_workers := (ex_workers e)[i := ?w]\<rparr>"
  have m: "mset (concat (map active ((ex_workers e)[i := ?w]))) = add_mset t (mset (concat (map active (ex_workers e))))"
    using mset_concat_update [OF i, of active ?w] w by (simp add: start_attempts_def)
  then have l: "length (concat (map active ((ex_workers e)[i := ?w]))) = Suc (length (concat (map active (ex_workers e))))"
    by (metis size_add_mset size_mset)
  have o: "mset (open_tasks ?e) = mset (open_tasks e)" using m q by (simp add: open_tasks_def)
  then have o1: "mset (map tk_index (open_tasks ?e)) = mset (map tk_index (open_tasks e))" 
    and o2: "set (open_tasks ?e) = set (open_tasks e)" by (metis mset_map, metis set_mset_mset)
  have "list_all (local_ok cfg) (ex_workers ?e)"
    using workers_local_ok [OF inv i, of ?w] by (simp add: start_attempts_def)
  moreover have "sem_value cfg ?e a + int (running_on ?e a) = ec_per_account cfg" for a
    using worker_done_permits [OF inv i, of ?w a] w by (simp add: running_on_def sem_value_def)
  moreover have "WDead \<notin> set (ex_workers ?e) \<Longrightarrow> WDead \<notin> set (ex_workers e)"
    using worker_alive [OF _ i] w by auto
  ultimately show ?thesis using inv l q unfolding exec_inv_def o1 o2 by (auto simp del: mset_map set_concat)
qed

lemma exec_internal_inv:
  assumes "exec_internal st cfg e e'" and inv: "exec_inv cfg dl ts e" and ts: "map tk_index ts = [0..<length ts]"
  shows "exec_inv cfg dl ts e'"
  using assms(1)
proof cases
  case (put t tl')
  then show ?thesis using put_inv [OF inv] by simp
next
  case (get i t q)
  then show ?thesis using get_inv [OF inv] by simp
next
  case (pick i s x o1 raised)
  have "or_inv (ex_orch e)" using inv by (simp add: exec_inv_def)
  moreover have "local_ok cfg (WLoop s)" using worker_local_ok [OF inv pick(2)] pick(3) by simp
  ultimately have ok: "step_ok cfg s x" "or_inv o1" using run_one_pick_ok pick(4) by blast+
  show ?thesis using apply_step_inv [OF exec_inv_orch [OF inv ok(2)] ts _ _ ok(1)] pick by simp
next
  case (acquire i s c)
  then show ?thesis using acquire_inv [OF inv] by simp
next
  case (outcome i s c out x o1 raised)
  have "or_inv (ex_orch e)" using inv by (simp add: exec_inv_def)
  moreover have "local_ok cfg (WRun s c)" using worker_local_ok [OF inv outcome(2)] outcome(3) by simp
  ultimately have ok: "step_ok cfg s x" "or_inv o1" using run_one_outcome_ok outcome(4) by blast+
  let ?e = "e\<lparr>ex_orch := o1\<rparr>"
  have "exec_inv cfg dl ts ((release_sem cfg c ?e)\<lparr>ex_workers := (ex_workers ?e)[i := WLoop s]\<rparr>)"
    using release_inv [OF exec_inv_orch [OF inv ok(2)]] outcome by simp
  from apply_step_inv [OF this ts _ _ ok(1), of i raised] outcome
  show ?thesis using apply_step_overwrite [of i raised x "release_sem cfg c ?e" "WLoop s"] by (simp add: release_sem_def)
qed

lemma exec_reachable_inv:
  assumes "exec_reachable st cfg x k items o' e" and "or_inv o'" and "executor_idle cfg x"
  shows "exec_inv cfg (be_dead_letters x) (make_tasks k items) e"
  using assms(1) unfolding exec_reachable_def
proof (induction rule: rtranclp_induct)
  case base
  show ?case using exec_start_inv [OF assms(2,3)] .
next
  case (step e e')
  from step(2) show ?case
  proof cases
    case internal
    then show ?thesis using exec_internal_inv step.IH make_tasks_index by (metis length_make_tasks)
  next
    case (environment o1)
    then show ?thesis using exec_inv_orch step.IH by blast
  qed
qed

subsection \<open>Bulkhead, progress and termination\<close>

lemma filter_update_le:
  "\<not> P w \<Longrightarrow> length (filter P (xs[i := w])) \<le> length (filter P xs)"
  using length_filter_update [of i xs P w] by (cases "i < length xs") (auto simp: list_update_beyond split: if_splits)

fun next_worker :: "bool \<Rightarrow> ('i, 'v) run_step \<Rightarrow> 'i worker_state" where
  "next_worker raised (Continue s) = WLoop s"
| "next_worker raised (Acquire s c) = WSem s c"
| "next_worker raised (Return r) = (if raised then WDead else WGet)"
| "next_worker raised (Raise ex) = WDead"

lemma apply_step_fields:
  "ex_pending (apply_step i raised x e) = ex_pending e" "ex_queue (apply_step i raised x e) = ex_queue e"
  "ex_workers (apply_step i raised x e) = (ex_workers e)[i := next_worker raised x]"
  by (cases x; simp add: apply_step_def finish_task_def)+

lemma next_worker_idle: "\<not> runs_on a (next_worker raised x)"
  by (cases x) auto

lemma apply_step_running: "running_on (apply_step i raised x e) a \<le> running_on e a"
  unfolding running_on_def apply_step_fields by (rule filter_update_le) (rule next_worker_idle)

lemma internal_running:
  assumes "exec_internal st cfg e e'" and inv: "exec_inv cfg dl ts e" and le: "int (running_on e a) \<le> max 0 (ec_per_account cfg)"
  shows "int (running_on e' a) \<le> max 0 (ec_per_account cfg)"
  using assms(1)
proof cases
  case (put t tl')
  then show ?thesis using le by (simp add: running_on_def)
next
  case (get i t q)
  then show ?thesis using le filter_update_le [of "runs_on a" "WLoop (start_attempts t)" "ex_workers e" i]
    by (simp add: running_on_def)
next
  case (pick i s x o1 raised)
  then show ?thesis using le apply_step_running [of i raised x "e\<lparr>ex_orch := o1\<rparr>" a] by (simp add: running_on_def)
next
  case (acquire i s c)
  then show ?thesis
    using le exec_inv_permits [OF inv, of a] length_filter_update [of i "ex_workers e" "runs_on a" "WRun s c"]
    by (auto simp: running_on_def acquire_sem_def split: if_splits)
next
  case (outcome i s c out x o1 raised)
  then show ?thesis using le apply_step_running [of i raised x "release_sem cfg c (e\<lparr>ex_orch := o1\<rparr>)" a]
    by (simp add: running_on_def release_sem_def)
qed

lemma reachable_running:
  assumes "exec_reachable st cfg x k items o' e" and "or_inv o'" and "executor_idle cfg x"
  shows "int (running_on e a) \<le> max 0 (ec_per_account cfg)"
  using assms(1) unfolding exec_reachable_def
proof (induction rule: rtranclp_induct)
  case base
  show ?case by (simp add: exec_start_def running_on_def)
next
  case (step e e')
  have inv: "exec_inv cfg (be_dead_letters x) (make_tasks k items) e"
    using exec_reachable_inv [OF _ assms(2,3)] step(1) by (simp add: exec_reachable_def)
  from step(2) show ?case
  proof cases
    case internal
    then show ?thesis using internal_running [OF _ inv] step.IH by blast
  next
    case (environment o1)
    then show ?thesis using step.IH by (simp add: running_on_def)
  qed
qed

fun worker_weight :: "nat \<Rightarrow> nat \<Rightarrow> 'i worker_state \<Rightarrow> nat" where
  \<comment> \<open>a bound on the steps a worker still makes for its task, with \<open>A\<close> attempts and \<open>B\<close> waits\<close>
  "worker_weight A B (WLoop s) = 3 * (A - at_attempts s) + (B - at_waits s) + 1"
| "worker_weight A B (WSem s c) = 3 * (A - at_attempts s) + (B - at_waits s) + 3"
| "worker_weight A B (WRun s c) = 3 * (A - at_attempts s) + (B - at_waits s) + 2"
| "worker_weight A B _ = 0"

definition exec_measure :: "exec_config \<Rightarrow> ('s, 'i, 'v) exec_state \<Rightarrow> nat" where
  "exec_measure cfg e =
     (let A = nat (ec_max_attempts cfg); B = nat (ec_max_park_waits cfg)
      in (3 * A + B + 3) * length (ex_pending e) + (3 * A + B + 2) * length (ex_queue e) +
         sum_list (map (worker_weight A B) (ex_workers e)))"

lemma sum_list_map_update:
  "i < length xs \<Longrightarrow> sum_list (map f (xs[i := w])) + (f (xs ! i) :: nat) = sum_list (map f xs) + f w"
proof (induction xs arbitrary: i)
  case Nil
  then show ?case by simp
next
  case (Cons y ys)
  then show ?case by (cases i) (auto simp: add.assoc [symmetric])
qed

lemma measure_update:
  assumes "i < length (ex_workers e)" and "ex_pending e' = ex_pending e" and "ex_queue e' = ex_queue e"
    and "ex_workers e' = (ex_workers e)[i := w]"
    and "worker_weight (nat (ec_max_attempts cfg)) (nat (ec_max_park_waits cfg)) w <
      worker_weight (nat (ec_max_attempts cfg)) (nat (ec_max_park_waits cfg)) (ex_workers e ! i)"
  shows "exec_measure cfg e' < exec_measure cfg e"
  using assms(2-5) sum_list_map_update [OF assms(1), of "worker_weight (nat (ec_max_attempts cfg)) (nat (ec_max_park_waits cfg))" w] by (simp add: exec_measure_def Let_def)

lemma pick_weight:
  assumes "run_one_pick st cfg s o' = (x, o1)" and "local_ok cfg (WLoop s)"
  shows "worker_weight (nat (ec_max_attempts cfg)) (nat (ec_max_park_waits cfg)) (next_worker raised x) <
    worker_weight (nat (ec_max_attempts cfg)) (nat (ec_max_park_waits cfg)) (WLoop s)"
proof (cases "int (at_attempts s) < ec_max_attempts cfg")
  case False
  with assms show ?thesis by (auto simp: run_one_pick_def)
next
  case True
  obtain r o2 where p: "or_pick st (tk_affinity_key (at_task s)) (ec_min_tier cfg) (at_tried s) o' = (r, o2)" by fastforce
  show ?thesis
  proof (cases r)
    case (Inr c)
    with assms True p show ?thesis by (auto simp: run_one_pick_def)
  next
    case (Inl e)
    with assms True p show ?thesis by (cases e) (auto simp: run_one_pick_def Let_def split: if_splits)
  qed
qed

lemma outcome_weight:
  assumes "run_one_outcome st s c out o' = (x, o1)"
  shows "worker_weight A B (next_worker raised x) < worker_weight A B (WRun s c)"
proof (cases out)
  case (Inr v)
  with assms show ?thesis by (auto simp: run_one_outcome_def)
next
  case (Inl e)
  show ?thesis
  proof (cases e)
    case (Api y)
    with Inl assms show ?thesis
      by (cases "api_class y") (auto simp: run_one_outcome_def add_tried_def Let_def split: sum.splits prod.splits)
  qed (use Inl assms in \<open>auto simp: run_one_outcome_def\<close>)
qed

lemma exec_measure_decreases:
  assumes "exec_internal st cfg e e'" and inv: "exec_inv cfg dl ts e"
  shows "exec_measure cfg e' < exec_measure cfg e"
  using assms(1)
proof cases
  case (put t tl')
  then show ?thesis by (simp add: exec_measure_def Let_def)
next
  case (get i t q)
  let ?f = "worker_weight (nat (ec_max_attempts cfg)) (nat (ec_max_park_waits cfg))"
  have "sum_list (map ?f ((ex_workers e)[i := WLoop (start_attempts t)])) + ?f (ex_workers e ! i) =
      sum_list (map ?f (ex_workers e)) + ?f (WLoop (start_attempts t))"
    by (rule sum_list_map_update [OF get(2)])
  then show ?thesis using get by (simp add: exec_measure_def Let_def start_attempts_def)
next
  case (pick i s x o1 raised)
  then show ?thesis using worker_local_ok [OF inv pick(2)] pick_weight [OF pick(4)]
    by (intro measure_update [of i]) (auto simp: apply_step_fields)
next
  case (acquire i s c)
  then show ?thesis by (intro measure_update [of i]) (auto simp: acquire_sem_def)
next
  case (outcome i s c out x o1 raised)
  then show ?thesis using outcome_weight [OF outcome(4)]
    by (intro measure_update [of i]) (auto simp: apply_step_fields release_sem_def)
qed

lemma exec_progress:
  fixes e :: "('s, 'i, 'v) exec_state"
  assumes inv: "exec_inv cfg dl ts e" and pos: "1 \<le> ec_per_account cfg" and live: "WDead \<notin> set (ex_workers e)"
    and nf: "\<not> exec_finished e"
  shows "\<exists>e'. exec_internal st cfg e e'"
proof -
  have ne: "ex_workers e \<noteq> []" and un: "ex_unfinished e = length (ex_queue e) + length (concat (map active (ex_workers e)))"
    using inv by (simp_all add: exec_inv_def)
  have run: "\<exists>e'. exec_internal st cfg e e'" if r: "runs_on a w" "w \<in> set (ex_workers e)" for a w
  proof -
    obtain s c where "w = WRun s c" using r(1) by (auto elim: runs_on.elims)
    then obtain i where i: "i < length (ex_workers e)" "ex_workers e ! i = WRun s c"
      using r(2) by (auto simp: in_set_conv_nth)
    obtain x :: "('i, 'v) run_step" and o1 where "run_one_outcome st s c (Inl (Py (RuntimeError []))) (ex_orch e) = (x, o1)" by fastforce
    then show ?thesis using exec_internal.outcome [OF i] by blast
  qed
  show ?thesis
  proof (cases "concat (map active (ex_workers e)) = []")
    case False
    then obtain w where w: "w \<in> set (ex_workers e)" "active w \<noteq> []" by auto
    then obtain i where i: "i < length (ex_workers e)" "ex_workers e ! i = w" by (auto simp: in_set_conv_nth)
    show ?thesis
    proof (cases w)
      case (WLoop s)
      obtain x :: "('i, 'v) run_step" and o1 where "run_one_pick st cfg s (ex_orch e) = (x, o1)" by fastforce
      then show ?thesis using exec_internal.pick i WLoop by blast
    next
      case (WSem s c)
      show ?thesis
      proof (cases "0 < sem_value cfg e (cl_account_id c)")
        case True
        then show ?thesis using exec_internal.acquire i WSem by blast
      next
        case False
        then have "filter (runs_on (cl_account_id c)) (ex_workers e) \<noteq> []"
          using exec_inv_permits [OF inv, of "cl_account_id c"] pos by (auto simp: running_on_def)
        then show ?thesis using run by (metis (mono_tags) filter_False)
      qed
    next
      case (WRun s c)
      then show ?thesis using run w(1) by (metis runs_on.simps(1))
    qed (use w in auto)
  next
    case idle: True
    show ?thesis
    proof (cases "ex_queue e")
      case Nil
      then obtain t tl' where "ex_pending e = t # tl'" using nf un idle by (cases "ex_pending e") (auto simp: exec_finished_def)
      then show ?thesis using exec_internal.put Nil ne by (metis length_greater_0_conv list.size(3) nat_0_less_mult_iff zero_less_numeral)
    next
      case (Cons t q)
      have "active (ex_workers e ! 0) = []" using idle ne by auto
      moreover have "ex_workers e ! 0 \<noteq> WDead" using live ne by (metis length_greater_0_conv nth_mem)
      ultimately have "ex_workers e ! 0 = WGet" by (cases "ex_workers e ! 0") auto
      then show ?thesis using exec_internal.get Cons ne by blast
    qed
  qed
qed

lemma dead_workers_stuck:
  assumes "(exec_step st cfg)\<^sup>*\<^sup>* e e'" and "set (ex_workers e) \<subseteq> {WDead}" and "0 < ex_unfinished e"
  shows "set (ex_workers e') \<subseteq> {WDead} \<and> 0 < ex_unfinished e'"
  using assms(1)
proof (induction rule: rtranclp_induct)
  case base
  show ?case using assms by simp
next
  case (step e1 e2)
  then have d: "i < length (ex_workers e1) \<Longrightarrow> ex_workers e1 ! i = WDead" for i by (metis nth_mem singletonD subsetD)
  from step(2) show ?case
  proof cases
    case internal
    then show ?thesis by cases (use d step.IH in auto)
  next
    case (environment o1)
    then show ?thesis using step.IH by simp
  qed
qed

subsection \<open>The results of a finished call\<close>

lemma finished_reported:
  assumes inv: "exec_inv cfg dl (make_tasks k items) e" and fin: "exec_finished e" and live: "WDead \<notin> set (ex_workers e)"
  shows "mset (map br_index (ex_reported e)) = mset [0..<length items]" and "open_tasks e = []"
proof -
  show none: "open_tasks e = []"
    using fin exec_inv_tasks(4) [OF inv] by (simp add: exec_finished_def open_tasks_def)
  show "mset (map br_index (ex_reported e)) = mset [0..<length items]"
    using exec_inv_tasks(3) [OF inv live] unfolding none make_tasks_index by simp
qed

lemma finished_result:
  assumes inv: "exec_inv cfg dl (make_tasks k items) e" and fin: "exec_finished e" and live: "WDead \<notin> set (ex_workers e)"
    and j: "j < length items"
  shows "\<exists>r \<in> set (ex_reported e). ex_results e ! j = Some r \<and> br_index r = j \<and> br_item r = items ! j"
proof -
  have "j \<in> set (map br_index (ex_reported e))"
    using finished_reported(1) [OF inv fin live] j by (metis atLeast_upt lessThan_iff mset_eq_setD)
  then obtain r where r: "r \<in> set (ex_reported e)" "br_index r = j" by auto
  moreover have "result_of cfg (make_tasks k items) r" using inv r(1) by (simp add: exec_inv_def list_all_iff)
  then have "br_item r = items ! j" using r(2) make_tasks_item by (fastforce simp: result_of_def)
  ultimately show ?thesis using inv by (auto simp: exec_inv_def)
qed

lemma map_filter_all_some: "None \<notin> set xs \<Longrightarrow> List.map_filter id xs = map the xs"
proof (induction xs)
  case Nil
  then show ?case by (simp add: List.map_filter_simps)
next
  case (Cons a xs)
  then show ?case by (cases a) (simp_all add: List.map_filter_simps)
qed

lemma finished_result_list:
  assumes inv: "exec_inv cfg dl (make_tasks k items) e" and fin: "exec_finished e" and live: "WDead \<notin> set (ex_workers e)"
  shows "length (map_result_list e) = length items"
    and "\<And>j. j < length items \<Longrightarrow> br_index (map_result_list e ! j) = j \<and> br_item (map_result_list e ! j) = items ! j"
    and "mset (ex_reported e) = mset (map_result_list e)"
proof -
  have len: "length (ex_results e) = length items" using inv by (simp add: exec_inv_def)
  have some: "ex_results e ! j = Some (the (ex_results e ! j))" if "j < length items" for j
    using finished_result [OF inv fin live that] by auto
  then have ml: "map_result_list e = map the (ex_results e)"
    unfolding map_result_list_def using len by (intro map_filter_all_some) (metis in_set_conv_nth option.distinct(1))
  then show l: "length (map_result_list e) = length items" using len by simp
  show at: "br_index (map_result_list e ! j) = j \<and> br_item (map_result_list e ! j) = items ! j" if "j < length items" for j
    using finished_result [OF inv fin live that] that by (auto simp: ml len)
  have "map br_index (map_result_list e) = [0..<length items]" using l at by (intro nth_equalityI) auto
  then have d: "distinct (map_result_list e)" by (metis distinct_map distinct_upt)
  have dr: "distinct (ex_reported e)"
    using finished_reported(1) [OF inv fin live] by (metis distinct_map distinct_upt mset_eq_imp_distinct_iff)
  have "set (map_result_list e) = set (ex_reported e)"
  proof
    show "set (map_result_list e) \<subseteq> set (ex_reported e)"
      using finished_result [OF inv fin live] len by (fastforce simp: ml in_set_conv_nth)
    show "set (ex_reported e) \<subseteq> set (map_result_list e)"
    proof
      fix r assume r: "r \<in> set (ex_reported e)"
      then have "br_index r < length items"
        using finished_reported(1) [OF inv fin live] by (metis atLeast_upt imageI image_set lessThan_iff mset_eq_setD)
      moreover have "ex_results e ! br_index r = Some r" using inv r by (simp add: exec_inv_def)
      ultimately show "r \<in> set (map_result_list e)" unfolding ml using len by (metis (no_types) length_map nth_map nth_mem option.sel)
    qed
  qed
  then show "mset (ex_reported e) = mset (map_result_list e)" using d dr by (metis set_eq_iff_mset_eq_distinct)
qed

subsection \<open>An executable schedule\<close>

datatype 'v exec_move = MPut | MGet nat | MPick nat bool | MAcquire nat | MOutcome nat "exn + 'v" bool

fun do_move :: "'s storage_ops \<Rightarrow> exec_config \<Rightarrow> 'v exec_move \<Rightarrow> ('s, 'i, 'v) exec_state \<Rightarrow> ('s, 'i, 'v) exec_state option" where
  "do_move st cfg MPut e =
     (case ex_pending e of
        t # ts \<Rightarrow> if length (ex_queue e) < 2 * length (ex_workers e)
                  then Some (e\<lparr>ex_pending := ts, ex_queue := ex_queue e @ [t], ex_unfinished := Suc (ex_unfinished e)\<rparr>) else None
      | [] \<Rightarrow> None)"
| "do_move st cfg (MGet i) e =
     (if i < length (ex_workers e) then
        (case (ex_workers e ! i, ex_queue e) of
           (WGet, t # q) \<Rightarrow> Some (e\<lparr>ex_queue := q, ex_workers := (ex_workers e)[i := WLoop (start_attempts t)]\<rparr>)
         | _ \<Rightarrow> None)
      else None)"
| "do_move st cfg (MPick i raised) e =
     (if i < length (ex_workers e) then
        (case ex_workers e ! i of
           WLoop s \<Rightarrow> (case run_one_pick st cfg s (ex_orch e) of (x, o1) \<Rightarrow> Some (apply_step i raised x (e\<lparr>ex_orch := o1\<rparr>)))
         | _ \<Rightarrow> None)
      else None)"
| "do_move st cfg (MAcquire i) e =
     (if i < length (ex_workers e) then
        (case ex_workers e ! i of
           WSem s c \<Rightarrow> if 0 < sem_value cfg e (cl_account_id c) then Some (acquire_sem cfg i s c e) else None
         | _ \<Rightarrow> None)
      else None)"
| "do_move st cfg (MOutcome i out raised) e =
     (if i < length (ex_workers e) then
        (case ex_workers e ! i of
           WRun s c \<Rightarrow> (case run_one_outcome st s c out (ex_orch e) of
                          (x, o1) \<Rightarrow> Some (apply_step i raised x (release_sem cfg c (e\<lparr>ex_orch := o1\<rparr>))))
         | _ \<Rightarrow> None)
      else None)"

fun do_moves :: "'s storage_ops \<Rightarrow> exec_config \<Rightarrow> 'v exec_move list \<Rightarrow> ('s, 'i, 'v) exec_state \<Rightarrow> ('s, 'i, 'v) exec_state option" where
  "do_moves st cfg [] e = Some e"
| "do_moves st cfg (m # ms) e = (case do_move st cfg m e of None \<Rightarrow> None | Some e' \<Rightarrow> do_moves st cfg ms e')"

lemma do_move_internal: "do_move st cfg m e = Some e' \<Longrightarrow> exec_internal st cfg e e'"
  by (cases m) (auto intro: exec_internal.intros split: if_splits list.splits worker_state.splits prod.splits)

lemma do_moves_reachable:
  "exec_reachable st cfg x k items o' e \<Longrightarrow> do_moves st cfg ms e = Some e' \<Longrightarrow> exec_reachable st cfg x k items o' e'"
proof (induction ms arbitrary: e)
  case Nil
  then show ?case by simp
next
  case (Cons m ms)
  then show ?case
    by (auto simp: exec_reachable_def split: option.splits
        intro!: Cons.IH dest!: do_move_internal exec_step.internal intro: rtranclp.rtrancl_into_rtrancl)
qed

lemma exec_start_reachable: "exec_reachable st cfg x k items o' (exec_start cfg x k items o')"
  by (simp add: exec_reachable_def)

lemmas moves_from_start = do_moves_reachable [OF exec_start_reachable]

definition demo_solo :: "mem_storage orchestrator" where
  "demo_solo = or_history (\<lambda>r. []) mem_ops demo_init [OAdd (demo_client ''a'') FREE]"

definition demo_cfg :: exec_config where
  "demo_cfg = \<lparr>ec_per_account = 1, ec_max_attempts = 3, ec_min_tier = None, ec_max_park_waits = 20, ec_park_wait_cap = 30\<rparr>"

definition demo_exec :: "(mem_storage, nat, nat) exec_state" where
  "demo_exec = exec_start demo_cfg bulk_executor_init NoKey [7, 8] demo_solo"

definition demo_running :: "(mem_storage, nat, nat) exec_state" where
  "demo_running = the (do_moves mem_ops demo_cfg [MPut, MPut, MGet 0, MPick 0 False, MAcquire 0] demo_exec)"

definition demo_dead :: "(mem_storage, nat, nat) exec_state" where
  \<comment> \<open>\<open>on_result\<close> raises for the first result\<close>
  "demo_dead = the (do_moves mem_ops demo_cfg [MOutcome 0 (Inr 70) True] demo_running)"

definition demo_done :: "(mem_storage, nat, nat) exec_state" where
  "demo_done = the (do_moves mem_ops demo_cfg
     [MOutcome 0 (Inl (NetworkError ''url'' ''reset'')) False, MPick 0 False, MAcquire 0, MOutcome 0 (Inr 70) False,
      MGet 0, MPick 0 False, MAcquire 0, MOutcome 0 (Inl (Py (RuntimeError ''bad item''))) False] demo_running)"

lemma demo_solo_inv: "or_inv demo_solo"
  unfolding demo_solo_def demo_init_def by (rule mem_or_inv)

lemma executor_init_idle: "executor_idle cfg bulk_executor_init"
  by (simp add: executor_idle_def bulk_executor_init_def dict_getd_def)

lemma demo_running_reachable: "exec_reachable mem_ops demo_cfg bulk_executor_init NoKey [7, 8] demo_solo demo_running"
proof -
  have "do_moves mem_ops demo_cfg [MPut, MPut, MGet 0, MPick 0 False, MAcquire 0] demo_exec \<noteq> None" by code_simp
  then show ?thesis using moves_from_start unfolding demo_running_def demo_exec_def by (metis option.exhaust_sel)
qed

lemma demo_dead_reachable: "exec_reachable mem_ops demo_cfg bulk_executor_init NoKey [7, 8] demo_solo demo_dead"
proof -
  have "do_moves mem_ops demo_cfg [MOutcome 0 (Inr 70) True] demo_running \<noteq> None" by code_simp
  then show ?thesis using do_moves_reachable [OF demo_running_reachable] unfolding demo_dead_def by (metis option.exhaust_sel)
qed

lemma demo_done_reachable: "exec_reachable mem_ops demo_cfg bulk_executor_init NoKey [7, 8] demo_solo demo_done"
proof -
  have "do_moves mem_ops demo_cfg
     [MOutcome 0 (Inl (NetworkError ''url'' ''reset'')) False, MPick 0 False, MAcquire 0, MOutcome 0 (Inr 70) False,
      MGet 0, MPick 0 False, MAcquire 0, MOutcome 0 (Inl (Py (RuntimeError ''bad item''))) False] demo_running \<noteq> None"
    by code_simp
  then show ?thesis using do_moves_reachable [OF demo_running_reachable] unfolding demo_done_def by (metis option.exhaust_sel)
qed

subsection \<open>Properties\<close>



text \<open>
  C3. \<open>map\<close> returns one result per item in input order: when \<open>queue.join()\<close> returns and no worker has died, the list it
  returns has the length of the input, its \<open>j\<close>-th entry belongs to the \<open>j\<close>-th item, \<open>on_result\<close> has been called exactly once for
  each result, the dead letters grew by exactly the failed results in the order of their reports, and every semaphore has its permits back.
\<close>

theorem map_one_result_per_item:
  assumes "or_inv o'" and "executor_idle cfg x" and "exec_reachable st cfg x k items o' e"
    and "exec_finished e" and "WDead \<notin> set (ex_workers e)"
  shows "length (map_result_list e) = length items \<and>
    (\<forall>j < length items. br_index (map_result_list e ! j) = j \<and> br_item (map_result_list e ! j) = items ! j) \<and>
    mset (ex_reported e) = mset (map_result_list e) \<and>
    be_dead_letters (executor_of e) = be_dead_letters x @ filter (\<lambda>r. \<not> br_ok r) (ex_reported e) \<and>
    executor_idle cfg (executor_of e)"
proof -
  have inv: "exec_inv cfg (be_dead_letters x) (make_tasks k items) e" using exec_reachable_inv [OF assms(3,1,2)] .
  have "active w = []" if "w \<in> set (ex_workers e)" for w
    using finished_reported(2) [OF inv assms(4,5)] that by (auto simp: open_tasks_def)
  then have "\<not> runs_on a w" if "w \<in> set (ex_workers e)" for a w using that by (cases w) fastforce+
  then have "running_on e a = 0" for a by (auto simp: running_on_def filter_empty_conv)
  then have "executor_idle cfg (executor_of e)"
    using exec_inv_permits [OF inv] by (simp add: executor_idle_def executor_of_def sem_value_def)
  moreover have "be_dead_letters (executor_of e) = be_dead_letters x @ filter (\<lambda>r. \<not> br_ok r) (ex_reported e)"
    using inv by (simp add: exec_inv_def executor_of_def)
  ultimately show ?thesis using finished_result_list [OF inv assms(4,5)] by blast
qed

theorem map_one_result_per_item_witness:
  "length (map_result_list demo_done) = 2 \<and> map br_ok (map_result_list demo_done) = [True, False] \<and>
   map br_attempts (map_result_list demo_done) = [2, 1]"
proof -
  have "exec_finished demo_done" "WDead \<notin> set (ex_workers demo_done)" by code_simp+
  from map_one_result_per_item [OF demo_solo_inv executor_init_idle demo_done_reachable this]
  have "length (map_result_list demo_done) = 2" by simp
  moreover have "map br_ok (map_result_list demo_done) = [True, False]" "map br_attempts (map_result_list demo_done) = [2, 1]"
    by code_simp+
  ultimately show ?thesis by blast
qed

text \<open>
  C4. \<open>map\<close> terminates: as long as no worker has died and each semaphore has at least one permit, some step is possible until the call is
  finished, and every step decreases a measure that starts at \<open>(3 * max_attempts + max_park_waits + 3)\<close> per item; so a call makes at most that
  many steps per item, counting each completed call of the task function as one.
\<close>

theorem map_terminates:
  assumes "or_inv o'" and "executor_idle cfg x" and "exec_reachable st cfg x k items o' e"
    and "1 \<le> ec_per_account cfg" and "WDead \<notin> set (ex_workers e)"
  shows "(exec_finished e \<or> (\<exists>e'. exec_internal st cfg e e')) \<and>
    (\<forall>e'. exec_internal st cfg e e' \<longrightarrow> exec_measure cfg e' < exec_measure cfg e) \<and>
    exec_measure cfg (exec_start cfg x k items o') =
      (3 * nat (ec_max_attempts cfg) + nat (ec_max_park_waits cfg) + 3) * length items"
proof -
  have inv: "exec_inv cfg (be_dead_letters x) (make_tasks k items) e" using exec_reachable_inv [OF assms(3,1,2)] .
  have "sum_list (map (worker_weight A B) (replicate n WGet)) = 0" for A B n by (induction n) auto
  then have "exec_measure cfg (exec_start cfg x k items o') =
      (3 * nat (ec_max_attempts cfg) + nat (ec_max_park_waits cfg) + 3) * length items"
    by (simp add: exec_measure_def exec_start_def Let_def)
  with exec_progress [OF inv assms(4,5)] exec_measure_decreases [OF _ inv] show ?thesis by blast
qed

theorem map_terminates_witness:
  "\<exists>e'. exec_internal mem_ops demo_cfg demo_running e' \<and> exec_measure demo_cfg e' < exec_measure demo_cfg demo_running"
proof -
  have "\<not> exec_finished demo_running" "WDead \<notin> set (ex_workers demo_running)" by code_simp+
  moreover have "1 \<le> ec_per_account demo_cfg" by (simp add: demo_cfg_def)
  ultimately show ?thesis using map_terminates [OF demo_solo_inv executor_init_idle demo_running_reachable] by blast
qed

text \<open>
  C37. A raising callback can hang the call: \<open>_worker\<close> has no handler around \<open>on_result\<close>, so its exception ends the worker. Once all workers
  have ended while a task is still unfinished, no continuation ever reaches the end of \<open>queue.join()\<close>.
\<close>

theorem map_hangs_when_workers_die:
  assumes "set (ex_workers e) \<subseteq> {WDead}" and "0 < ex_unfinished e" and "(exec_step st cfg)\<^sup>*\<^sup>* e e'"
  shows "\<not> exec_finished e'"
  using dead_workers_stuck [OF assms(3,1,2)] by (simp add: exec_finished_def)

theorem map_hangs_when_workers_die_witness:
  "exec_reachable mem_ops demo_cfg bulk_executor_init NoKey [7, 8] demo_solo demo_dead \<and>
   \<not> (\<exists>e'. (exec_step mem_ops demo_cfg)\<^sup>*\<^sup>* demo_dead e' \<and> exec_finished e')"
proof -
  have "set (ex_workers demo_dead) \<subseteq> {WDead}" "0 < ex_unfinished demo_dead" by code_simp+
  with map_hangs_when_workers_die [of demo_dead] demo_dead_reachable show ?thesis by blast
qed

end
