(* ===== verification/Batch.thy ===== *)
theory Batch
  imports Executor
begin

section \<open>Persistent, resumable batches\<close>

text \<open>
  \<^verbatim>\<open>claude_ai/orchestrator/batch.py\<close>: the records \<^verbatim>\<open>BatchItem\<close> and \<^verbatim>\<open>BatchJob\<close> with their
  dictionary forms, the store \<^verbatim>\<open>StorageBatchStore\<close> over any key-value storage that meets the contract \<open>base_storage\<close>, and
  \<^verbatim>\<open>BatchRunner.run\<close>. The runner and the executor meet in \<^verbatim>\<open>on_result\<close> only, so \<open>batch_run\<close> takes the executor as a function from
  the records to the sequence of its reports, and the properties instantiate it with the reports of the transition
  system of the theory \<open>Executor\<close>. The two fields \<^verbatim>\<open>from_dict\<close> copies without a conversion (\<^verbatim>\<open>error\<close>, \<^verbatim>\<open>account_id\<close>) are
  dynamic values.
\<close>

datatype batch_item_status = PENDING | DONE | FAILED

datatype batch_status = RUNNING | COMPLETED | PARTIAL

fun item_status_str :: "batch_item_status \<Rightarrow> string" where
  "item_status_str PENDING = ''pending''"
| "item_status_str DONE = ''done''"
| "item_status_str FAILED = ''failed''"

fun batch_status_str :: "batch_status \<Rightarrow> string" where
  "batch_status_str RUNNING = ''running''"
| "batch_status_str COMPLETED = ''completed''"
| "batch_status_str PARTIAL = ''partial''"

definition item_status_of :: "json \<Rightarrow> py_error + batch_item_status" where
  "item_status_of v =
     (if v = JStr ''pending'' then Inr PENDING else if v = JStr ''done'' then Inr DONE
      else if v = JStr ''failed'' then Inr FAILED else Inl (ValueError ''is not a valid BatchItemStatus''))"

definition batch_status_of :: "json \<Rightarrow> py_error + batch_status" where
  "batch_status_of v =
     (if v = JStr ''running'' then Inr RUNNING else if v = JStr ''completed'' then Inr COMPLETED
      else if v = JStr ''partial'' then Inr PARTIAL else Inl (ValueError ''is not a valid BatchStatus''))"

record batch_item =
  bi_index :: int
  bi_payload :: json
  bi_status :: batch_item_status
  bi_result :: json
  bi_error :: json
  bi_attempts :: int
  bi_account_id :: json

record batch_job =
  bj_id :: string
  bj_total :: int
  bj_status :: batch_status
  bj_created_at :: pyfloat

definition batch_item_to_dict :: "batch_item \<Rightarrow> json dict" where
  "batch_item_to_dict it =
     [(''index'', JInt (bi_index it)), (''payload'', bi_payload it), (''status'', JStr (item_status_str (bi_status it))),
      (''result'', bi_result it), (''error'', bi_error it), (''attempts'', JInt (bi_attempts it)),
      (''account_id'', bi_account_id it)]"

definition batch_item_from_dict :: "json dict \<Rightarrow> py_error + batch_item" where
  "batch_item_from_dict d =
     bind_result (bind_result (dict_at d ''index'') py_int) (\<lambda>i.
     bind_result (item_status_of (dict_getd d ''status'' (JStr ''pending''))) (\<lambda>s.
     bind_result (py_int (dict_getd d ''attempts'' (JInt 0))) (\<lambda>a.
       Inr \<lparr>bi_index = i, bi_payload = obj_get d ''payload'', bi_status = s, bi_result = obj_get d ''result'',
            bi_error = obj_get d ''error'', bi_attempts = a, bi_account_id = obj_get d ''account_id''\<rparr>)))"

definition batch_job_to_dict :: "batch_job \<Rightarrow> json dict" where
  "batch_job_to_dict j =
     [(''id'', JStr (bj_id j)), (''total'', JInt (bj_total j)), (''status'', JStr (batch_status_str (bj_status j))),
      (''created_at'', JFloat (bj_created_at j))]"

definition batch_job_from_dict :: "(pyfloat \<Rightarrow> string) \<Rightarrow> json dict \<Rightarrow> py_error + batch_job" where
  "batch_job_from_dict fr d =
     bind_result (dict_at d ''id'') (\<lambda>i.
     bind_result (bind_result (dict_at d ''total'') py_int) (\<lambda>n.
     bind_result (batch_status_of (dict_getd d ''status'' (JStr ''running''))) (\<lambda>s.
     bind_result (py_float (dict_getd d ''created_at'' (JFloat 0))) (\<lambda>c.
       Inr \<lparr>bj_id = py_str fr i, bj_total = n, bj_status = s, bj_created_at = c\<rparr>))))"

subsection \<open>The store\<close>

definition JOBS_NS :: string where
  "JOBS_NS = ''batch_jobs''"

definition items_ns :: "string \<Rightarrow> string" where
  "items_ns job_id = ''batch:'' @ job_id"

definition bs_create :: "'s storage_ops \<Rightarrow> 's \<Rightarrow> batch_job \<Rightarrow> 's" where
  "bs_create st s job = op_set st s JOBS_NS (bj_id job) (JObj (batch_job_to_dict job))"

definition bs_get :: "(pyfloat \<Rightarrow> string) \<Rightarrow> 's storage_ops \<Rightarrow> 's \<Rightarrow> string \<Rightarrow> py_error + batch_job option" where
  "bs_get fr st s job_id =
     (let data = op_get st s JOBS_NS job_id
      in if \<not> truthy data then Inr None
         else (case data of
                 JObj d \<Rightarrow> bind_result (batch_job_from_dict fr d) (\<lambda>j. Inr (Some j))
               | _ \<Rightarrow> Inl (TypeError ''indices'')))"

definition bs_set_status ::
  "(pyfloat \<Rightarrow> string) \<Rightarrow> 's storage_ops \<Rightarrow> 's \<Rightarrow> string \<Rightarrow> batch_status \<Rightarrow> py_error + 's" where
  "bs_set_status fr st s job_id status =
     bind_result (bs_get fr st s job_id) (\<lambda>job. case job of
         None \<Rightarrow> Inr s
       | Some j \<Rightarrow> Inr (bs_create st s (j\<lparr>bj_status := status\<rparr>)))"

definition bs_save_item :: "'s storage_ops \<Rightarrow> 's \<Rightarrow> string \<Rightarrow> batch_item \<Rightarrow> 's" where
  "bs_save_item st s job_id it =
     op_set st s (items_ns job_id) (string_of_int (bi_index it)) (JObj (batch_item_to_dict it))"

definition item_of_row :: "json \<Rightarrow> py_error + batch_item" where
  "item_of_row v = (case v of JObj d \<Rightarrow> batch_item_from_dict d | _ \<Rightarrow> Inl (TypeError ''indices''))"

definition bs_items :: "'s storage_ops \<Rightarrow> 's \<Rightarrow> string \<Rightarrow> py_error + batch_item list" where
  "bs_items st s job_id =
     bind_result (map_result item_of_row (dict_values (op_items st s (items_ns job_id)))) (\<lambda>xs. Inr (sort_key bi_index xs))"

definition bs_list_jobs :: "'s storage_ops \<Rightarrow> 's \<Rightarrow> string list" where
  "bs_list_jobs st s = dict_keys (op_items st s JOBS_NS)"

definition bs_pending :: "'s storage_ops \<Rightarrow> 's \<Rightarrow> string \<Rightarrow> py_error + batch_item list" where
  "bs_pending st s job_id = bind_result (bs_items st s job_id) (\<lambda>xs. Inr (filter (\<lambda>it. bi_status it \<noteq> DONE) xs))"

subsection \<open>The runner\<close>

definition opt_json :: "json option \<Rightarrow> json" where
  "opt_json x = (case x of None \<Rightarrow> JNull | Some v \<Rightarrow> v)"

definition item_outcome :: "batch_item \<Rightarrow> ('i, json) bulk_result \<Rightarrow> batch_item" where
  \<comment> \<open>the five assignments of \<open>on_result\<close>\<close>
  "item_outcome it br =
     it\<lparr>bi_status := (if br_ok br then DONE else FAILED), bi_result := opt_json (br_value br),
        bi_error := (case br_error br of None \<Rightarrow> JNull | Some e \<Rightarrow> JStr e), bi_attempts := br_attempts br,
        bi_account_id := (case br_account_id br of None \<Rightarrow> JNull | Some a \<Rightarrow> JStr a)\<rparr>"

definition batch_on_result ::
  "'s storage_ops \<Rightarrow> string \<Rightarrow> ('i, json) bulk_result \<Rightarrow> batch_item list \<times> 's \<Rightarrow> batch_item list \<times> 's" where
  \<comment> \<open>the records are shared objects: the assignment is seen by later reports\<close>
  "batch_on_result st job_id br p =
     (let it = item_outcome (fst p ! br_index br) br
      in ((fst p)[br_index br := it], bs_save_item st (snd p) job_id it))"

definition batch_execute ::
  "'s storage_ops \<Rightarrow> string \<Rightarrow> batch_item list \<Rightarrow> ('i, json) bulk_result list \<Rightarrow> 's \<Rightarrow> 's" where
  "batch_execute st job_id records reports s = snd (fold (batch_on_result st job_id) reports (records, s))"

definition new_item :: "nat \<Rightarrow> json \<Rightarrow> batch_item" where
  "new_item i p = \<lparr>bi_index = int i, bi_payload = p, bi_status = PENDING, bi_result = JNull, bi_error = JNull,
                   bi_attempts = 0, bi_account_id = JNull\<rparr>"

definition new_items :: "json list \<Rightarrow> batch_item list" where
  "new_items payloads = map (\<lambda>(i, p). new_item i p) (enumerate 0 payloads)"

definition save_items :: "'s storage_ops \<Rightarrow> string \<Rightarrow> batch_item list \<Rightarrow> 's \<Rightarrow> 's" where
  "save_items st job_id its s = fold (\<lambda>it acc. bs_save_item st acc job_id it) its s"

definition new_job :: "string \<Rightarrow> pyfloat \<Rightarrow> json list \<Rightarrow> batch_job" where
  "new_job job_id now payloads = \<lparr>bj_id = job_id, bj_total = int (length payloads), bj_status = RUNNING, bj_created_at = now\<rparr>"

definition batch_prepare ::
  "(pyfloat \<Rightarrow> string) \<Rightarrow> 's storage_ops \<Rightarrow> pyfloat \<Rightarrow> string \<Rightarrow> json list \<Rightarrow> 's \<Rightarrow> py_error + batch_item list \<times> 's" where
  \<comment> \<open>\<open>run\<close> up to the choice of the records\<close>
  "batch_prepare fr st now job_id payloads s =
     bind_result (bs_get fr st s job_id) (\<lambda>existing. case existing of
         None \<Rightarrow> (let records = new_items payloads
                  in Inr (records, save_items st job_id records (bs_create st s (new_job job_id now payloads))))
       | Some _ \<Rightarrow>
           bind_result (bs_set_status fr st s job_id RUNNING) (\<lambda>s1.
           bind_result (bs_pending st s1 job_id) (\<lambda>records. Inr (records, s1))))"

definition batch_finish ::
  "(pyfloat \<Rightarrow> string) \<Rightarrow> 's storage_ops \<Rightarrow> string \<Rightarrow> 's \<Rightarrow> py_error + batch_job \<times> 's" where
  "batch_finish fr st job_id s =
     bind_result (bs_items st s job_id) (\<lambda>all_items.
     bind_result (bs_set_status fr st s job_id (if \<forall>it \<in> set all_items. bi_status it = DONE then COMPLETED else PARTIAL)) (\<lambda>s1.
     bind_result (bs_get fr st s1 job_id) (\<lambda>job. case job of
         None \<Rightarrow> Inl (RuntimeError ''AssertionError'')
       | Some j \<Rightarrow> Inr (j, s1))))"

definition batch_run ::
  "(pyfloat \<Rightarrow> string) \<Rightarrow> 's storage_ops \<Rightarrow> pyfloat \<Rightarrow> (batch_item list \<Rightarrow> (batch_item, json) bulk_result list) \<Rightarrow>
     string \<Rightarrow> json list \<Rightarrow> 's \<Rightarrow> py_error + batch_job \<times> 's" where
  "batch_run fr st now exec job_id payloads s =
     bind_result (batch_prepare fr st now job_id payloads s) (\<lambda>(records, s1).
       batch_finish fr st job_id
         (if records \<noteq> [] then batch_execute st job_id records (exec records) s1 else s1))"

definition batch_results :: "'s storage_ops \<Rightarrow> 's \<Rightarrow> string \<Rightarrow> py_error + batch_item list" where
  "batch_results st s job_id = bs_items st s job_id"

definition batch_job_status :: "(pyfloat \<Rightarrow> string) \<Rightarrow> 's storage_ops \<Rightarrow> 's \<Rightarrow> string \<Rightarrow> py_error + batch_job option" where
  "batch_job_status fr st s job_id = bs_get fr st s job_id"

subsection \<open>Dictionary forms\<close>

lemma batch_item_roundtrip [simp]: "batch_item_from_dict (batch_item_to_dict it) = Inr it"
  by (cases "bi_status it")
     (simp_all add: batch_item_from_dict_def batch_item_to_dict_def dict_at_def item_status_of_def)

lemma batch_job_roundtrip [simp]: "batch_job_from_dict fr (batch_job_to_dict j) = Inr j"
  by (cases "bj_status j")
     (simp_all add: batch_job_from_dict_def batch_job_to_dict_def dict_at_def batch_status_of_def)

lemma item_of_row_dict [simp]: "item_of_row (JObj (batch_item_to_dict it)) = Inr it"
  by (simp add: item_of_row_def)

subsection \<open>What the store holds of a job\<close>

definition item_rows :: "batch_item list \<Rightarrow> json dict" where
  "item_rows its = map (\<lambda>it. (string_of_int (bi_index it), JObj (batch_item_to_dict it))) its"

definition numbered :: "batch_item list \<Rightarrow> bool" where
  "numbered its \<longleftrightarrow> map bi_index its = map int [0..<length its]"

definition job_holds :: "'s storage_ops \<Rightarrow> 's \<Rightarrow> batch_job \<Rightarrow> batch_item list \<Rightarrow> bool" where
  \<comment> \<open>the store has the job and exactly these items, numbered from 0\<close>
  "job_holds st s job its \<longleftrightarrow>
     op_get st s JOBS_NS (bj_id job) = JObj (batch_job_to_dict job) \<and>
     map_of (op_items st s (items_ns (bj_id job))) = map_of (item_rows its) \<and>
     numbered its"

lemma ns_distinct [simp]: "items_ns j \<noteq> JOBS_NS" "JOBS_NS \<noteq> items_ns j"
  by (simp_all add: items_ns_def JOBS_NS_def)

lemma map_of_nth_update:
  "dict_ok d \<Longrightarrow> i < length d \<Longrightarrow> fst (d ! i) = k \<Longrightarrow> map_of (d[i := (k, v)]) = (map_of d)(k \<mapsto> v)"
proof (induction d arbitrary: i)
  case Nil
  then show ?case by simp
next
  case (Cons p d)
  show ?case
  proof (cases i)
    case 0
    with Cons show ?thesis by (cases p) (auto simp: fun_eq_iff)
  next
    case (Suc n)
    moreover have "k \<noteq> fst p" using Cons.prems Suc by (simp add: dict_ok_def) (metis imageI nth_mem)
    ultimately show ?thesis using Cons by (cases p) (auto simp: dict_ok_def fun_upd_twist)
  qed
qed

lemma map_of_snoc: "k \<notin> set (map fst d) \<Longrightarrow> map_of (d @ [(k, v)]) = (map_of d)(k \<mapsto> v)"
  using map_of_eq_None_iff [of d k] by (auto simp: map_add_def fun_eq_iff split: option.splits)

lemma numbered_nth: "numbered its \<Longrightarrow> i < length its \<Longrightarrow> bi_index (its ! i) = int i"
  unfolding numbered_def by (metis add.left_neutral diff_zero length_map length_upt nth_map nth_upt)

lemma numbered_keys: "numbered its \<Longrightarrow> map fst (item_rows its) = map string_of_nat [0..<length its]"
proof -
  assume *: "numbered its"
  have "map fst (item_rows its) = map string_of_int (map bi_index its)" by (simp add: item_rows_def)
  also have "\<dots> = map string_of_nat [0..<length its]" using * unfolding numbered_def by (simp add: string_of_int_def)
  finally show ?thesis .
qed

lemma item_rows_ok: "numbered its \<Longrightarrow> dict_ok (item_rows its)"
  unfolding dict_ok_def numbered_keys by (simp add: distinct_map inj_on_def)

lemma numbered_update: "numbered its \<Longrightarrow> bi_index it = int i \<Longrightarrow> numbered (its[i := it])"
  using numbered_nth [of its i] unfolding numbered_def
  by (cases "i < length its") (simp_all add: map_update list_update_same_conv list_update_beyond)

lemma numbered_snoc: "numbered its \<Longrightarrow> bi_index it = int (length its) \<Longrightarrow> numbered (its @ [it])"
  by (simp add: numbered_def)

lemma item_rows_update:
  assumes "numbered its" and "i < length its" and "bi_index it = int i"
  shows "map_of (item_rows (its[i := it])) = (map_of (item_rows its))(string_of_int (bi_index it) \<mapsto> JObj (batch_item_to_dict it))"
proof -
  have "item_rows (its[i := it]) = (item_rows its)[i := (string_of_int (bi_index it), JObj (batch_item_to_dict it))]"
    by (simp add: item_rows_def map_update)
  moreover have "fst (item_rows its ! i) = string_of_int (bi_index it)"
    using assms numbered_nth [OF assms(1,2)] by (simp add: item_rows_def)
  moreover have "i < length (item_rows its)" using assms(2) by (simp add: item_rows_def)
  ultimately show ?thesis using map_of_nth_update [OF item_rows_ok [OF assms(1)]] by metis
qed

lemma item_rows_snoc:
  assumes "numbered its" and "bi_index it = int (length its)"
  shows "map_of (item_rows (its @ [it])) = (map_of (item_rows its))(string_of_int (bi_index it) \<mapsto> JObj (batch_item_to_dict it))"
proof -
  have "string_of_int (bi_index it) \<notin> set (map fst (item_rows its))"
    unfolding numbered_keys [OF assms(1)] using assms(2) by (auto simp: string_of_int_def)
  moreover have "item_rows (its @ [it]) = item_rows its @ [(string_of_int (bi_index it), JObj (batch_item_to_dict it))]"
    by (simp add: item_rows_def)
  ultimately show ?thesis using map_of_snoc by metis
qed

definition merge_reports :: "batch_item list \<Rightarrow> (batch_item, json) bulk_result list \<Rightarrow> batch_item list \<Rightarrow> batch_item list" where
  \<comment> \<open>the items after the reports on the records have been written\<close>
  "merge_reports recs reports its =
     fold (\<lambda>br its. its[nat (bi_index (recs ! br_index br)) := item_outcome (recs ! br_index br) br]) reports its"

lemma item_outcome_simps [simp]:
  "item_outcome (item_outcome it a) b = item_outcome it b"
  "bi_index (item_outcome it a) = bi_index it" "bi_payload (item_outcome it a) = bi_payload it"
  "bi_status (item_outcome it a) = (if br_ok a then DONE else FAILED)"
  by (simp_all add: item_outcome_def)

lemma length_merge [simp]: "length (merge_reports recs reports its) = length its"
  unfolding merge_reports_def by (induction reports arbitrary: its) auto

lemma merge_snoc: "merge_reports recs (reports @ [br]) its =
    (merge_reports recs reports its)[nat (bi_index (recs ! br_index br)) := item_outcome (recs ! br_index br) br]"
  by (simp add: merge_reports_def)

lemma merge_untouched:
  "\<forall>br \<in> set reports. nat (bi_index (recs ! br_index br)) \<noteq> i \<Longrightarrow> merge_reports recs reports its ! i = its ! i"
proof (induction reports rule: rev_induct)
  case Nil
  then show ?case by (simp add: merge_reports_def)
next
  case (snoc br reports)
  then show ?case by (simp add: merge_snoc)
qed

definition records_of :: "batch_item list \<Rightarrow> batch_item list \<Rightarrow> bool" where
  \<comment> \<open>the records are some of the items, each once\<close>
  "records_of its recs \<longleftrightarrow> distinct (map bi_index recs) \<and> set recs \<subseteq> set its"

lemma record_pos:
  assumes "numbered its" and "records_of its recs" and "j < length recs"
  shows "nat (bi_index (recs ! j)) < length its" and "its ! nat (bi_index (recs ! j)) = recs ! j" and "0 \<le> bi_index (recs ! j)"
proof -
  have "recs ! j \<in> set its" using assms(2,3) by (auto simp: records_of_def)
  then obtain i where "i < length its" "its ! i = recs ! j" by (metis in_set_conv_nth)
  moreover from this have "bi_index (recs ! j) = int i" using numbered_nth [OF assms(1)] by metis
  ultimately show "nat (bi_index (recs ! j)) < length its" "its ! nat (bi_index (recs ! j)) = recs ! j" "0 \<le> bi_index (recs ! j)"
    by simp_all
qed

lemma record_pos_inj:
  assumes "numbered its" and "records_of its recs" and "j < length recs" and "k < length recs"
    and "nat (bi_index (recs ! j)) = nat (bi_index (recs ! k))"
  shows "j = k"
proof -
  have "map bi_index recs ! j = map bi_index recs ! k"
    using assms record_pos(3) [OF assms(1,2)] by simp (metis eq_nat_nat_iff)
  then show ?thesis using assms(2-4) nth_eq_iff_index_eq [of "map bi_index recs" j k] by (simp add: records_of_def)
qed

lemma merge_touched:
  assumes "numbered its" and "records_of its recs" and "distinct (map br_index reports)"
    and "\<forall>br \<in> set reports. br_index br < length recs" and "br \<in> set reports"
  shows "merge_reports recs reports its ! nat (bi_index (recs ! br_index br)) = item_outcome (recs ! br_index br) br"
  using assms(3-5)
proof (induction reports rule: rev_induct)
  case Nil
  then show ?case by simp
next
  case (snoc b reports)
  show ?case
  proof (cases "b = br")
    case True
    then show ?thesis using snoc.prems record_pos(1) [OF assms(1,2)] by (simp add: merge_snoc)
  next
    case False
    then have br: "br \<in> set reports" using snoc.prems(3) by simp
    then have "br_index b \<noteq> br_index br" using snoc.prems(1) by auto
    then have "nat (bi_index (recs ! br_index b)) \<noteq> nat (bi_index (recs ! br_index br))"
      using record_pos_inj [OF assms(1,2)] snoc.prems(2,3) by auto
    then show ?thesis using snoc br by (simp add: merge_snoc)
  qed
qed

lemma numbered_filter: "numbered its \<Longrightarrow> records_of its (filter P its)"
proof -
  assume "numbered its"
  then have "distinct (map bi_index its)" by (simp add: numbered_def distinct_map)
  then show ?thesis by (auto simp: records_of_def distinct_map_filter)
qed

lemma numbered_merge:
  assumes "numbered its" and "records_of its recs" and "\<forall>br \<in> set reports. br_index br < length recs"
  shows "numbered (merge_reports recs reports its)"
  using assms(3)
proof (induction reports rule: rev_induct)
  case Nil
  then show ?case using assms(1) by (simp add: merge_reports_def)
next
  case (snoc br reports)
  then show ?case using record_pos(3) [OF assms(1,2)] by (auto simp: merge_snoc intro!: numbered_update)
qed

lemma numbered_new_items [simp]: "numbered (new_items ps)"
  by (simp add: numbered_def new_items_def new_item_def comp_def case_prod_unfold enumerate_eq_zip map_fst_zip [of _ ps, simplified]
      flip: map_map [of int fst, unfolded comp_def])

context base_storage
begin

lemma holds_items:
  assumes "inv s" and "job_holds st s job its"
  shows "bs_items st s (bj_id job) = Inr its"
proof -
  let ?raw = "op_items st s (items_ns (bj_id job))"
  have n: "numbered its" and m: "map_of ?raw = map_of (item_rows its)" using assms(2) by (simp_all add: job_holds_def)
  have "dict_ok ?raw" "dict_ok (item_rows its)" using items_ok [OF assms(1)] item_rows_ok [OF n] .
  then have "set ?raw = set (item_rows its)" "distinct ?raw" "distinct (item_rows its)"
    using m by (auto simp: dict_ok_def distinct_map intro: map_of_inject_set [THEN iffD1, THEN equalityD1, THEN subsetD]
        map_of_inject_set [THEN iffD1, THEN equalityD2, THEN subsetD])
  then have eq: "mset ?raw = mset (item_rows its)" by (simp add: set_eq_iff_mset_eq_distinct)
  define g where "g v = (case item_of_row v of Inr it \<Rightarrow> it | Inl e \<Rightarrow> undefined)" for v
  have rows: "snd ` set ?raw = (\<lambda>it. JObj (batch_item_to_dict it)) ` set its"
    using \<open>set ?raw = _\<close> by (force simp: item_rows_def)
  then have "map_result item_of_row (map snd ?raw) = Inr (map g (map snd ?raw))"
    by (intro map_result_all) (auto simp: g_def)
  moreover have "mset (map g (map snd ?raw)) = mset its"
  proof -
    have "mset (map (\<lambda>p. g (snd p)) ?raw) = mset (map (\<lambda>p. g (snd p)) (item_rows its))" using eq by (metis mset_map)
    also have "map (\<lambda>p. g (snd p)) (item_rows its) = its" by (simp add: item_rows_def g_def comp_def)
    finally show ?thesis by (simp add: comp_def)
  qed
  moreover have "sorted (map bi_index its)" using n unfolding numbered_def by (simp add: sorted_iff_nth_mono)
  moreover have "inj_on bi_index (set its)" by (auto simp: inj_on_def in_set_conv_nth numbered_nth [OF n])
  ultimately show ?thesis unfolding bs_items_def
    by (simp only: bind_result_simps) (metis mset_eq_setD sort_key_inj_key_eq)
qed

lemma holds_get: "job_holds st s job its \<Longrightarrow> bs_get fr st s (bj_id job) = Inr (Some job)"
  by (simp add: job_holds_def bs_get_def Let_def batch_job_to_dict_def flip: batch_job_to_dict_def) (simp add: batch_job_to_dict_def)

lemma holds_set_status:
  assumes "inv s" and "job_holds st s job its"
  shows "\<exists>s'. bs_set_status fr st s (bj_id job) v = Inr s' \<and> inv s' \<and> job_holds st s' (job\<lparr>bj_status := v\<rparr>) its"
proof -
  let ?s = "bs_create st s (job\<lparr>bj_status := v\<rparr>)"
  have "bs_set_status fr st s (bj_id job) v = Inr ?s" by (simp add: bs_set_status_def holds_get [OF assms(2)])
  moreover have "inv ?s" using assms(1) by (simp add: bs_create_def storage_simps)
  moreover have "job_holds st ?s (job\<lparr>bj_status := v\<rparr>) its"
    using assms by (simp add: job_holds_def bs_create_def get_set storage_simps)
  ultimately show ?thesis by blast
qed

lemma save_item_other:
  "inv s \<Longrightarrow> inv (bs_save_item st s j it) \<and> op_get st (bs_save_item st s j it) JOBS_NS k = op_get st s JOBS_NS k \<and>
     map_of (op_items st (bs_save_item st s j it) (items_ns j)) =
       (map_of (op_items st s (items_ns j)))(string_of_int (bi_index it) \<mapsto> JObj (batch_item_to_dict it))"
  by (simp add: bs_save_item_def storage_simps get_set)

lemma holds_save_update:
  assumes "inv s" and "job_holds st s job its" and "i < length its" and "bi_index it = int i"
  shows "inv (bs_save_item st s (bj_id job) it) \<and> job_holds st (bs_save_item st s (bj_id job) it) job (its[i := it])"
  using assms save_item_other [OF assms(1), of "bj_id job" it] item_rows_update [OF _ assms(3,4)] numbered_update [OF _ assms(4)]
  by (simp add: job_holds_def)

lemma holds_save_snoc:
  assumes "inv s" and "job_holds st s job its" and "bi_index it = int (length its)"
  shows "inv (bs_save_item st s (bj_id job) it) \<and> job_holds st (bs_save_item st s (bj_id job) it) job (its @ [it])"
  using assms save_item_other [OF assms(1), of "bj_id job" it] item_rows_snoc [OF _ assms(3)] numbered_snoc [OF _ assms(3)]
  by (simp add: job_holds_def)

lemma holds_save_items:
  assumes "inv s" and "job_holds st s job its" and "numbered (its @ new)"
  shows "inv (save_items st (bj_id job) new s) \<and> job_holds st (save_items st (bj_id job) new s) job (its @ new)"
  using assms
proof (induction new arbitrary: s its)
  case Nil
  then show ?case by (simp add: save_items_def)
next
  case (Cons it new)
  have "bi_index it = int (length its)" using numbered_nth [OF Cons.prems(3), of "length its"] by simp
  from holds_save_snoc [OF Cons.prems(1,2) this] Cons.IH [of "bs_save_item st s (bj_id job) it" "its @ [it]"] Cons.prems(3)
  show ?case by (simp add: save_items_def)
qed

lemma on_result_fold:
  assumes "inv s" and "job_holds st s job its" and "numbered its0" and "records_of its0 recs" and "length its = length its0"
    and "\<forall>br \<in> set reports. br_index br < length recs" and "length rc = length recs"
    and "\<forall>j < length recs. bi_index (rc ! j) = bi_index (recs ! j) \<and> (\<forall>br :: (batch_item, json) bulk_result. item_outcome (rc ! j) br = item_outcome (recs ! j) br)"
  shows "inv (snd (fold (batch_on_result st (bj_id job)) reports (rc, s))) \<and>
    job_holds st (snd (fold (batch_on_result st (bj_id job)) reports (rc, s))) job (merge_reports recs reports its)"
  using assms(1,2,5-8)
proof (induction reports arbitrary: s its rc)
  case Nil
  then show ?case by (simp add: merge_reports_def)
next
  case (Cons br reports)
  let ?it = "item_outcome (recs ! br_index br) br"
  have j: "br_index br < length recs" using Cons.prems(4) by simp
  have p: "nat (bi_index (recs ! br_index br)) < length its" "bi_index ?it = int (nat (bi_index (recs ! br_index br)))"
    using record_pos [OF assms(3,4) j] Cons.prems(3) by simp_all
  have it: "item_outcome (rc ! br_index br) br = ?it" using Cons.prems(6) j by simp
  note h = holds_save_update [OF Cons.prems(1,2) p]
  have "\<forall>k < length recs. bi_index (rc[br_index br := ?it] ! k) = bi_index (recs ! k) \<and>
      (\<forall>b :: (batch_item, json) bulk_result. item_outcome (rc[br_index br := ?it] ! k) b = item_outcome (recs ! k) b)"
    using Cons.prems(5,6) j by (simp add: nth_list_update)
  with Cons.IH [OF conjunct1 [OF h] conjunct2 [OF h], of "rc[br_index br := ?it]"] Cons.prems(3-5) p(2)
  show ?case by (simp add: batch_on_result_def Let_def it merge_reports_def)
qed

lemma execute_holds:
  assumes "inv s" and "job_holds st s job its" and "records_of its recs" and "\<forall>br \<in> set reports. br_index br < length recs"
  shows "inv (batch_execute st (bj_id job) recs reports s) \<and>
    job_holds st (batch_execute st (bj_id job) recs reports s) job (merge_reports recs reports its)"
proof -
  have "numbered its" using assms(2) by (simp add: job_holds_def)
  from on_result_fold [OF assms(1,2) this assms(3) refl assms(4) refl] show ?thesis by (simp add: batch_execute_def)
qed

lemma prepare_resume:
  assumes "inv s" and "job_holds st s job its"
  shows "\<exists>s1. batch_prepare fr st now (bj_id job) ps s = Inr (filter (\<lambda>it. bi_status it \<noteq> DONE) its, s1) \<and> inv s1 \<and>
    job_holds st s1 (job\<lparr>bj_status := RUNNING\<rparr>) its"
proof -
  obtain s1 where s1: "bs_set_status fr st s (bj_id job) RUNNING = Inr s1" "inv s1" "job_holds st s1 (job\<lparr>bj_status := RUNNING\<rparr>) its"
    using holds_set_status [OF assms] by blast
  have "bs_items st s1 (bj_id job) = Inr its" using holds_items [OF s1(2,3)] by simp
  with s1 show ?thesis by (simp add: batch_prepare_def holds_get [OF assms(2)] bs_pending_def)
qed

lemma prepare_fresh:
  assumes "inv s" and "op_get st s JOBS_NS j = JNull" and "op_items st s (items_ns j) = []"
  shows "\<exists>s1. batch_prepare fr st now j ps s = Inr (new_items ps, s1) \<and> inv s1 \<and> job_holds st s1 (new_job j now ps) (new_items ps)"
proof -
  let ?s = "bs_create st s (new_job j now ps)"
  have id: "bj_id (new_job j now ps) = j" by (simp add: new_job_def)
  have "inv ?s" "job_holds st ?s (new_job j now ps) []"
    using assms by (simp_all add: job_holds_def bs_create_def storage_simps get_set id numbered_def item_rows_def)
  from holds_save_items [OF this, of "new_items ps"] assms(2) show ?thesis
    by (simp add: batch_prepare_def bs_get_def id Let_def)
qed

lemma finish_holds:
  assumes "inv s" and "job_holds st s job its"
  shows "\<exists>s1. batch_finish fr st (bj_id job) s =
      Inr (job\<lparr>bj_status := if \<forall>it \<in> set its. bi_status it = DONE then COMPLETED else PARTIAL\<rparr>, s1) \<and> inv s1 \<and>
    job_holds st s1 (job\<lparr>bj_status := if \<forall>it \<in> set its. bi_status it = DONE then COMPLETED else PARTIAL\<rparr>) its"
proof -
  let ?v = "if \<forall>it \<in> set its. bi_status it = DONE then COMPLETED else PARTIAL"
  obtain s1 where s1: "bs_set_status fr st s (bj_id job) ?v = Inr s1" "inv s1" "job_holds st s1 (job\<lparr>bj_status := ?v\<rparr>) its"
    using holds_set_status [OF assms] by blast
  have "bs_get fr st s1 (bj_id job) = Inr (Some (job\<lparr>bj_status := ?v\<rparr>))" using holds_get [OF s1(3)] by simp
  with s1 show ?thesis by (simp add: batch_finish_def holds_items [OF assms])
qed

end

subsection \<open>Composition with the executor\<close>

lemma reachable_reports:
  assumes "exec_reachable st cfg x k items o' e" and "or_inv o'" and "executor_idle cfg x"
  shows "distinct (map br_index (ex_reported e))" and "\<forall>r \<in> set (ex_reported e). br_index r < length items \<and> br_item r = items ! br_index r"
proof -
  have inv: "exec_inv cfg (be_dead_letters x) (make_tasks k items) e" using exec_reachable_inv [OF assms] .
  have sub: "mset (map br_index (ex_reported e)) \<subseteq># mset [0..<length items]"
    using exec_inv_tasks(2) [OF inv] unfolding make_tasks_index
    by (metis mset_subset_eq_add_right subset_mset.order_trans)
  have le: "count (mset (map br_index (ex_reported e))) a \<le> 1" for a
    using mset_subset_eq_count [OF sub, of a] distinct_count_atmost_1 [of "[0..<length items]"] by (simp split: if_splits)
  show "distinct (map br_index (ex_reported e))"
    unfolding distinct_count_atmost_1
  proof
    fix a
    show "count (mset (map br_index (ex_reported e))) a = (if a \<in> set (map br_index (ex_reported e)) then 1 else 0)"
      using le [of a] count_greater_zero_iff [of "mset (map br_index (ex_reported e))" a]
      by (cases "a \<in> set (map br_index (ex_reported e))") (auto simp del: mset_map set_map simp: le_Suc_eq count_eq_zero_iff)
  qed
  show "\<forall>r \<in> set (ex_reported e). br_index r < length items \<and> br_item r = items ! br_index r"
  proof
    fix r assume "r \<in> set (ex_reported e)"
    then have "result_of cfg (make_tasks k items) r" using inv by (simp add: exec_inv_def list_all_iff)
    then show "br_index r < length items \<and> br_item r = items ! br_index r" using make_tasks_item by (fastforce simp: result_of_def)
  qed
qed

lemma merge_payload:
  assumes "numbered its" and "records_of its recs" and "\<forall>br \<in> set reports. br_index br < length recs"
  shows "map bi_payload (merge_reports recs reports its) = map bi_payload its"
  using assms(3)
proof (induction reports rule: rev_induct)
  case Nil
  then show ?case by (simp add: merge_reports_def)
next
  case (snoc br reports)
  then have j: "br_index br < length recs" by simp
  then have "map bi_payload its ! nat (bi_index (recs ! br_index br)) = bi_payload (recs ! br_index br)"
    using record_pos [OF assms(1,2) j] by simp
  with snoc show ?case by (simp add: merge_snoc map_update) (metis list_update_id)
qed

lemma new_items_nth: "i < length ps \<Longrightarrow> new_items ps ! i = new_item i (ps ! i)"
  by (simp add: new_items_def enumerate_eq_zip)

lemma length_new_items [simp]: "length (new_items ps) = length ps"
  by (simp add: new_items_def)

lemma new_items_payload: "map bi_payload (new_items ps) = ps"
  by (rule nth_equalityI) (simp_all add: new_items_nth new_item_def)

lemma batch_run_holds:
  assumes "mem_inv s" and "job_holds mem_ops s job its" and "j = bj_id job"
    and recs: "recs = filter (\<lambda>it. bi_status it \<noteq> DONE) its"
    and reports: "\<forall>r \<in> set reports. br_index r < length recs"
  shows "\<exists>job' s'. batch_run fr mem_ops now (\<lambda>_. reports) j ps s = Inr (job', s') \<and>
    batch_results mem_ops s' j = Inr (merge_reports recs reports its) \<and>
    bj_total job' = bj_total job \<and> (bj_status job' = COMPLETED \<longleftrightarrow> (\<forall>it \<in> set (merge_reports recs reports its). bi_status it = DONE)) \<and>
    job_holds mem_ops s' job' (merge_reports recs reports its)"
proof -
  let ?job = "job\<lparr>bj_status := RUNNING\<rparr>" and ?its = "merge_reports recs reports its"
  obtain s1 where s1: "batch_prepare fr mem_ops now j ps s = Inr (recs, s1)" "mem_inv s1" "job_holds mem_ops s1 ?job its"
    using mem.prepare_resume [OF assms(1,2)] unfolding recs assms(3) by blast
  have ro: "records_of its recs" unfolding recs by (rule numbered_filter) (use assms(2) in \<open>simp add: job_holds_def\<close>)
  define s2 where "s2 = (if recs \<noteq> [] then batch_execute mem_ops j recs reports s1 else s1)"
  have s2: "mem_inv s2" "job_holds mem_ops s2 ?job ?its"
  proof -
    have "recs = [] \<Longrightarrow> ?its = its" using reports by (cases reports) (auto simp: merge_reports_def)
    then show "mem_inv s2" "job_holds mem_ops s2 ?job ?its"
      using mem.execute_holds [OF s1(2,3) ro reports] s1(2,3) by (auto simp: s2_def assms(3))
  qed
  have run: "batch_run fr mem_ops now (\<lambda>_. reports) j ps s = batch_finish fr mem_ops j s2"
    using s1(1) by (simp add: batch_run_def s2_def)
  have id: "bj_id ?job = j" by (simp add: assms(3))
  define job' where "job' = ?job\<lparr>bj_status := if \<forall>it \<in> set ?its. bi_status it = DONE then COMPLETED else PARTIAL\<rparr>"
  obtain s3 where s3: "batch_finish fr mem_ops j s2 = Inr (job', s3)" "mem_inv s3" "job_holds mem_ops s3 job' ?its"
    using mem.finish_holds [OF s2, of fr] unfolding id job'_def by blast
  have "bj_id job' = j" by (simp add: job'_def assms(3))
  then have "batch_results mem_ops s3 j = Inr ?its" using mem.holds_items [OF s3(2,3)] by (simp add: batch_results_def)
  moreover have "bj_status job' = COMPLETED \<longleftrightarrow> (\<forall>it \<in> set ?its. bi_status it = DONE)" by (simp add: job'_def)
  ultimately show ?thesis using run s3 by (intro exI [of _ job'] exI [of _ s3] conjI) (simp_all add: job'_def)
qed

lemma fresh_job:
  assumes "mem_inv s" and "mem_get s JOBS_NS j = JNull" and "mem_items s (items_ns j) = []"
  shows "\<exists>s1. batch_prepare fr mem_ops now j ps s = Inr (new_items ps, s1) \<and> mem_inv s1 \<and>
    job_holds mem_ops s1 (new_job j now ps) (new_items ps)"
  using mem.prepare_fresh [of s j fr now ps] assms by (simp add: mem_ops_def)

lemma new_items_records: "records_of (new_items ps) (new_items ps)"
  using numbered_new_items by (simp add: records_of_def numbered_def distinct_map)

lemma not_done_iff:
  assumes "distinct (map br_index rep)" and "\<forall>r \<in> set rep. br_index r < length ps" and "i < length ps"
  shows "bi_status (merge_reports (new_items ps) rep (new_items ps) ! i) = DONE \<longleftrightarrow> (\<exists>r \<in> set rep. br_ok r \<and> br_index r = i)"
proof (cases "\<exists>r \<in> set rep. br_index r = i")
  case True
  then obtain r where r: "r \<in> set rep" "br_index r = i" by blast
  then have "merge_reports (new_items ps) rep (new_items ps) ! i = item_outcome (new_items ps ! i) r"
    using merge_touched [OF numbered_new_items new_items_records assms(1), of ps r] assms(2,3) by (simp add: new_items_nth new_item_def)
  moreover have "(\<exists>r' \<in> set rep. br_ok r' \<and> br_index r' = i) \<longleftrightarrow> br_ok r" using r assms(1) unfolding distinct_map by (metis inj_onD)
  ultimately show ?thesis by simp
next
  case False
  then have "merge_reports (new_items ps) rep (new_items ps) ! i = new_items ps ! i"
    using assms(2) by (intro merge_untouched) (auto simp: new_items_nth new_item_def)
  with False assms(3) show ?thesis by (auto simp: new_items_nth new_item_def)
qed

lemma resume_items:
  \<comment> \<open>the items after an interrupted first and a second run\<close>
  assumes r1: "distinct (map br_index rep1)" and in1: "\<forall>r \<in> set rep1. br_index r < length ps"
    and its2: "its2 = merge_reports (new_items ps) rep1 (new_items ps)"
    and recs2: "recs2 = filter (\<lambda>it. bi_status it \<noteq> DONE) its2"
    and r2: "distinct (map br_index rep2)" "\<forall>r \<in> set rep2. br_index r < length recs2 \<and> br_item r = recs2 ! br_index r"
  shows "\<forall>r \<in> set rep1. br_ok r \<longrightarrow> merge_reports recs2 rep2 its2 ! br_index r = item_outcome (new_items ps ! br_index r) r"
    and "\<forall>k < length recs2. \<exists>r \<in> set rep2. br_item r = recs2 ! k \<Longrightarrow>
      \<forall>i < length ps. \<not> (\<exists>r \<in> set rep1. br_ok r \<and> br_index r = i) \<longrightarrow>
        (\<exists>r \<in> set rep2. bi_index (br_item r) = int i \<and> merge_reports recs2 rep2 its2 ! i = item_outcome (br_item r) r)"
    and "\<forall>r \<in> set rep2. bi_index (br_item r) \<notin> int ` br_index ` {r' \<in> set rep1. br_ok r'}"
proof -
  have in1': "\<forall>r \<in> set rep1. br_index r < length (new_items ps)" using in1 by simp
  have n2: "numbered its2" unfolding its2 by (rule numbered_merge [OF numbered_new_items new_items_records in1'])
  have ro: "records_of its2 recs2" unfolding recs2 by (rule numbered_filter [OF n2])
  have in2: "\<forall>r \<in> set rep2. br_index r < length recs2" using r2(2) by blast
  have len: "length its2 = length ps" by (simp add: its2)
  have done2: "bi_status (its2 ! i) = DONE \<longleftrightarrow> (\<exists>r \<in> set rep1. br_ok r \<and> br_index r = i)" if "i < length ps" for i
    unfolding its2 by (rule not_done_iff [OF r1 in1 that])
  have item: "0 \<le> bi_index (br_item r) \<and> nat (bi_index (br_item r)) < length ps \<and> its2 ! nat (bi_index (br_item r)) = br_item r \<and>
      bi_status (br_item r) \<noteq> DONE" if "r \<in> set rep2" for r
  proof -
    have b: "br_index r < length recs2" "br_item r = recs2 ! br_index r" using r2(2) that by auto
    then have "br_item r \<in> set recs2" by simp
    then show ?thesis using record_pos [OF n2 ro b(1)] len b by (simp add: recs2)
  qed
  show "\<forall>r \<in> set rep1. br_ok r \<longrightarrow> merge_reports recs2 rep2 its2 ! br_index r = item_outcome (new_items ps ! br_index r) r"
  proof (intro ballI impI)
    fix r assume r: "r \<in> set rep1" "br_ok r"
    then have lt: "br_index r < length ps" using in1 by simp
    have "nat (bi_index (recs2 ! br_index r')) \<noteq> br_index r" if "r' \<in> set rep2" for r'
      using item [OF that] r2(2) that done2 [OF lt] r by auto
    then have "merge_reports recs2 rep2 its2 ! br_index r = its2 ! br_index r" by (intro merge_untouched) auto
    moreover have "nat (bi_index (new_items ps ! br_index r)) = br_index r" using lt by (simp add: new_items_nth new_item_def)
    ultimately show "merge_reports recs2 rep2 its2 ! br_index r = item_outcome (new_items ps ! br_index r) r"
      using merge_touched [OF numbered_new_items new_items_records r1 in1' r(1)] by (simp add: its2)
  qed
  show "\<forall>r \<in> set rep2. bi_index (br_item r) \<notin> int ` br_index ` {r' \<in> set rep1. br_ok r'}"
    using item done2 by force
  show "\<forall>i < length ps. \<not> (\<exists>r \<in> set rep1. br_ok r \<and> br_index r = i) \<longrightarrow>
      (\<exists>r \<in> set rep2. bi_index (br_item r) = int i \<and> merge_reports recs2 rep2 its2 ! i = item_outcome (br_item r) r)"
    if all: "\<forall>k < length recs2. \<exists>r \<in> set rep2. br_item r = recs2 ! k"
  proof (intro allI impI)
    fix i assume i: "i < length ps" "\<not> (\<exists>r \<in> set rep1. br_ok r \<and> br_index r = i)"
    have "its2 ! i \<in> set recs2" using done2 [OF i(1)] i len by (auto simp: recs2)
    then obtain r where r: "r \<in> set rep2" "br_item r = its2 ! i" using all by (metis in_set_conv_nth)
    have "bi_index (its2 ! i) = int i" using numbered_nth [OF n2] i(1) len by simp
    with r merge_touched [OF n2 ro r2(1) in2 r(1)] r2(2)
    show "\<exists>r \<in> set rep2. bi_index (br_item r) = int i \<and> merge_reports recs2 rep2 its2 ! i = item_outcome (br_item r) r"
      by (intro bexI [OF _ r(1)]) simp
  qed
qed

subsection \<open>Properties\<close>

text \<open>
  C5. A batch survives a crash and never redoes finished work. Start a new job, stop the first run in any reachable state of its executor after
  the reports written so far, then run the job again (with any payloads) to the end: the items are those of the first call, in order; every item the first
  run finished keeps that result and is not executed again; every other item is executed again and holds the result of the second run; and the job is
  \<open>COMPLETED\<close> exactly when every item is done.
\<close>

theorem batch_crash_resume:
  assumes "mem_inv s" and "mem_get s JOBS_NS j = JNull" and "mem_items s (items_ns j) = []"
    and p1: "batch_prepare fr mem_ops now j ps s = Inr (recs1, s1)"
    and e1: "exec_reachable st1 cfg1 x1 k1 recs1 o1 e1" "or_inv o1" "executor_idle cfg1 x1"
    and s2: "s2 = batch_execute mem_ops j recs1 (ex_reported e1) s1"
    and p2: "batch_prepare fr mem_ops now' j ps' s2 = Inr (recs2, s3)"
    and e2: "exec_reachable st2 cfg2 x2 k2 recs2 o2 e2" "or_inv o2" "executor_idle cfg2 x2"
    and fin: "exec_finished e2" "WDead \<notin> set (ex_workers e2)"
  shows "\<exists>job s4 its. batch_run fr mem_ops now' (\<lambda>_. ex_reported e2) j ps' s2 = Inr (job, s4) \<and>
    batch_results mem_ops s4 j = Inr its \<and> map bi_payload its = ps \<and>
    (\<forall>r \<in> set (ex_reported e1). br_ok r \<longrightarrow> its ! br_index r = item_outcome (recs1 ! br_index r) r) \<and>
    (\<forall>i < length ps. \<not> (\<exists>r \<in> set (ex_reported e1). br_ok r \<and> br_index r = i) \<longrightarrow>
       (\<exists>r \<in> set (ex_reported e2). bi_index (br_item r) = int i \<and> its ! i = item_outcome (br_item r) r)) \<and>
    (\<forall>r \<in> set (ex_reported e2). bi_index (br_item r) \<notin> int ` br_index ` {r' \<in> set (ex_reported e1). br_ok r'}) \<and>
    (bj_status job = COMPLETED \<longleftrightarrow> (\<forall>it \<in> set its. bi_status it = DONE))"
proof -
  have s1': "recs1 = new_items ps" and h1: "mem_inv s1" "job_holds mem_ops s1 (new_job j now ps) (new_items ps)"
    using fresh_job [OF assms(1-3), of fr now ps] p1 by auto
  note r1 = reachable_reports [OF e1, unfolded s1'] and r2 = reachable_reports [OF e2]
  have in1: "\<forall>r \<in> set (ex_reported e1). br_index r < length (new_items ps)" using r1(2) by blast
  define its2 where "its2 = merge_reports (new_items ps) (ex_reported e1) (new_items ps)"
  have n2: "numbered its2" unfolding its2_def by (rule numbered_merge [OF numbered_new_items new_items_records in1])
  have h2: "mem_inv s2" "job_holds mem_ops s2 (new_job j now ps) its2"
    using mem.execute_holds [OF h1 new_items_records in1] by (simp_all add: s2 s1' its2_def new_job_def)
  have id: "j = bj_id (new_job j now ps)" by (simp add: new_job_def)
  have recs2: "recs2 = filter (\<lambda>it. bi_status it \<noteq> DONE) its2"
    using mem.prepare_resume [OF h2, of fr now' ps'] p2 unfolding id [symmetric] by auto
  have in2: "\<forall>r \<in> set (ex_reported e2). br_index r < length recs2" using r2(2) by blast
  have ro: "records_of its2 recs2" unfolding recs2 by (rule numbered_filter [OF n2])
  let ?its = "merge_reports recs2 (ex_reported e2) its2"
  obtain job s4 where run: "batch_run fr mem_ops now' (\<lambda>_. ex_reported e2) j ps' s2 = Inr (job, s4)" "batch_results mem_ops s4 j = Inr ?its"
    "bj_status job = COMPLETED \<longleftrightarrow> (\<forall>it \<in> set ?its. bi_status it = DONE)"
    using batch_run_holds [OF h2 id recs2 in2, of fr now' ps'] by blast
  have pay: "map bi_payload ?its = ps"
    using merge_payload [OF n2 ro in2] merge_payload [OF numbered_new_items new_items_records in1]
    by (simp add: its2_def new_items_payload)
  have all: "\<forall>k < length recs2. \<exists>r \<in> set (ex_reported e2). br_item r = recs2 ! k"
    using finished_result [OF exec_reachable_inv [OF e2] fin] by metis
  note ri = resume_items [OF r1(1) _ its2_def recs2 r2]
  have "\<forall>r \<in> set (ex_reported e1). br_ok r \<longrightarrow> ?its ! br_index r = item_outcome (recs1 ! br_index r) r"
    using ri(1) in1 by (simp add: s1')
  moreover have "\<forall>i < length ps. \<not> (\<exists>r \<in> set (ex_reported e1). br_ok r \<and> br_index r = i) \<longrightarrow>
      (\<exists>r \<in> set (ex_reported e2). bi_index (br_item r) = int i \<and> ?its ! i = item_outcome (br_item r) r)"
    using ri(2) in1 all by simp
  moreover have "\<forall>r \<in> set (ex_reported e2). bi_index (br_item r) \<notin> int ` br_index ` {r' \<in> set (ex_reported e1). br_ok r'}"
    using ri(3) in1 by simp
  ultimately show ?thesis using run pay by blast
qed

definition demo_payloads :: "json list" where
  "demo_payloads = [JInt 1, JInt 2]"

definition demo_prep :: "json list \<Rightarrow> mem_storage \<Rightarrow> batch_item list \<times> mem_storage" where
  "demo_prep ps s = projr (batch_prepare (\<lambda>r. []) mem_ops 0 ''job'' ps s)"

definition demo_first :: "(mem_storage, batch_item, json) exec_state" where
  \<comment> \<open>the first run, stopped after its first report\<close>
  "demo_first = the (do_moves mem_ops demo_cfg
     [MPut, MPut, MGet 0, MPick 0 False, MAcquire 0, MOutcome 0 (Inr (JStr ''one'')) False]
     (exec_start demo_cfg bulk_executor_init NoKey (fst (demo_prep demo_payloads [])) demo_solo))"

definition demo_crashed :: mem_storage where
  "demo_crashed = batch_execute mem_ops ''job'' (fst (demo_prep demo_payloads [])) (ex_reported demo_first) (snd (demo_prep demo_payloads []))"

definition demo_second :: "(mem_storage, batch_item, json) exec_state" where
  "demo_second = the (do_moves mem_ops demo_cfg
     [MPut, MGet 0, MPick 0 False, MAcquire 0, MOutcome 0 (Inr (JStr ''two'')) False]
     (exec_start demo_cfg bulk_executor_init NoKey (fst (demo_prep [] demo_crashed)) demo_solo))"

lemma demo_prep_eq: "\<not> isl (batch_prepare (\<lambda>r. []) mem_ops 0 ''job'' ps s) \<Longrightarrow>
    batch_prepare (\<lambda>r. []) mem_ops 0 ''job'' ps s = Inr (fst (demo_prep ps s), snd (demo_prep ps s))"
  by (auto simp: demo_prep_def isl_def)

lemma demo_first_reachable:
  "exec_reachable mem_ops demo_cfg bulk_executor_init NoKey (fst (demo_prep demo_payloads [])) demo_solo demo_first"
proof -
  have "do_moves mem_ops demo_cfg
     [MPut, MPut, MGet 0, MPick 0 False, MAcquire 0, MOutcome 0 (Inr (JStr ''one'')) False]
     (exec_start demo_cfg bulk_executor_init NoKey (fst (demo_prep demo_payloads [])) demo_solo) \<noteq> None" by code_simp
  then show ?thesis using moves_from_start unfolding demo_first_def by (metis option.exhaust_sel)
qed

lemma demo_second_reachable:
  "exec_reachable mem_ops demo_cfg bulk_executor_init NoKey (fst (demo_prep [] demo_crashed)) demo_solo demo_second"
proof -
  have "do_moves mem_ops demo_cfg
     [MPut, MGet 0, MPick 0 False, MAcquire 0, MOutcome 0 (Inr (JStr ''two'')) False]
     (exec_start demo_cfg bulk_executor_init NoKey (fst (demo_prep [] demo_crashed)) demo_solo) \<noteq> None" by code_simp
  then show ?thesis using moves_from_start unfolding demo_second_def by (metis option.exhaust_sel)
qed

theorem batch_crash_resume_witness:
  "\<exists>job s4 its. batch_run (\<lambda>r. []) mem_ops 0 (\<lambda>_. ex_reported demo_second) ''job'' [] demo_crashed = Inr (job, s4) \<and>
    batch_results mem_ops s4 ''job'' = Inr its \<and> map bi_payload its = demo_payloads"
proof -
  have "\<not> isl (batch_prepare (\<lambda>r. []) mem_ops 0 ''job'' demo_payloads [])" by code_simp
  note p1 = demo_prep_eq [OF this]
  have "\<not> isl (batch_prepare (\<lambda>r. []) mem_ops 0 ''job'' [] demo_crashed)" by code_simp
  note p2 = demo_prep_eq [OF this]
  have "exec_finished demo_second" "WDead \<notin> set (ex_workers demo_second)" by code_simp+
  note fin = this
  have empty: "mem_get [] JOBS_NS ''job'' = JNull" "mem_items [] (items_ns ''job'') = []"
    by (simp_all add: mem_get_def mem_items_def)
  from batch_crash_resume [OF mem_inv_empty empty p1 demo_first_reachable demo_solo_inv executor_init_idle demo_crashed_def p2
      demo_second_reachable demo_solo_inv executor_init_idle fin]
  show ?thesis by blast
qed



end
