(* ===== verification/Bus_Worker.thy ===== *)
theory Bus_Worker
  imports Bus_Dispatch
begin

section \<open>The worker pool of the event bus\<close>

text \<open>
  \<^verbatim>\<open>claude_ai/bus/worker.py\<close> as a transition system. A consumer task is idle in
  \<^verbatim>\<open>queue.get()\<close>, handles an envelope, waits in \<^verbatim>\<open>queue.put\<close> with a retry, or has
  returned at a sentinel (\<open>None\<close>). Publishers and \<^verbatim>\<open>stop\<close> that wait in
  \<^verbatim>\<open>queue.put\<close> are in the field \<open>wk_putters\<close>. A step is what one task does between two points where
  it waits. The dispatcher is the argument \<open>disp\<close>, the event store the operations \<open>es\<close>; \<open>wk_unfinished\<close> is the
  counter of \<^verbatim>\<open>asyncio.Queue\<close> that \<^verbatim>\<open>join()\<close> waits for.
\<close>

record worker_config =
  wc_concurrency :: int
  wc_queue_size :: int
  wc_envelope_max_attempts :: int
  wc_envelope_retry_backoff :: pyfloat
  wc_drain_timeout :: pyfloat

record worker_stats =
  wt_enqueued :: nat
  wt_processed :: nat
  wt_failed :: nat
  wt_retried :: nat
  wt_dead_lettered :: nat

datatype consumer = Idle | Handling envelope | Putting envelope | Exited

record ('s, 'w) worker =
  wk_queue :: "envelope option list"
  wk_unfinished :: nat
  wk_putters :: "envelope option list"
  wk_consumers :: "consumer list"
  wk_running :: bool
  wk_stopping :: bool
  wk_stats :: worker_stats
  wk_store :: 's
  wk_world :: 'w

type_synonym 'w dispatch_fn = "envelope \<Rightarrow> 'w \<Rightarrow> dispatch_result \<times> 'w"

subsection \<open>Operations\<close>

definition worker_start :: "worker_config \<Rightarrow> ('s, 'w) worker \<Rightarrow> ('s, 'w) worker" where
  "worker_start cfg w =
     (if wk_running w then w
      else w\<lparr>wk_running := True, wk_stopping := False,
             wk_consumers := replicate (nat (wc_concurrency cfg)) Idle\<rparr>)"

definition worker_enqueue ::
  "'s event_store_ops \<Rightarrow> worker_config \<Rightarrow> envelope \<Rightarrow> ('s, 'w) worker \<Rightarrow> exn + ('s, 'w) worker" where
  \<comment> \<open>\<open>enqueue\<close> up to the \<open>put\<close>, where the publisher may wait\<close>
  "worker_enqueue es cfg env w =
     (if \<not> wk_running w \<or> wk_stopping w
      then Inl (WorkerStoppedError ''cannot enqueue: worker not running''
                  [(''event_type'', repr_str (envelope_type env))])
      else (let env1 = env\<lparr>en_max_attempts := wc_envelope_max_attempts cfg\<rparr>
            in Inr (w\<lparr>wk_store := es_save es (wk_store w) env1, wk_putters := wk_putters w @ [Some env1]\<rparr>)))"

definition queue_room :: "worker_config \<Rightarrow> ('s, 'w) worker \<Rightarrow> bool" where
  \<comment> \<open>\<open>not queue.full()\<close>: a size of zero or less is unbounded\<close>
  "queue_room cfg w \<longleftrightarrow> wc_queue_size cfg \<le> 0 \<or> int (length (wk_queue w)) < wc_queue_size cfg"

definition worker_put :: "('s, 'w) worker \<Rightarrow> envelope option \<Rightarrow> ('s, 'w) worker" where
  \<comment> \<open>\<open>queue.put_nowait\<close>\<close>
  "worker_put w x = w\<lparr>wk_queue := wk_queue w @ [x], wk_unfinished := Suc (wk_unfinished w)\<rparr>"

definition count_enqueued :: "envelope option \<Rightarrow> ('s, 'w) worker \<Rightarrow> ('s, 'w) worker" where
  \<comment> \<open>\<open>self._stats.enqueued += 1\<close> after the \<open>put\<close> of a publisher\<close>
  "count_enqueued x w =
     (if x = None then w else w\<lparr>wk_stats := (wk_stats w)\<lparr>wt_enqueued := Suc (wt_enqueued (wk_stats w))\<rparr>\<rparr>)"

definition joined_errors :: "dispatch_result \<Rightarrow> string" where
  "joined_errors r = join ''; '' (map handler_error_str (dr_handler_errors r))"

definition worker_decide ::
  "'s event_store_ops \<Rightarrow> dispatch_result \<Rightarrow> envelope \<Rightarrow> worker_stats \<Rightarrow> 's
     \<Rightarrow> worker_stats \<times> 's \<times> envelope option" where
  \<comment> \<open>\<open>_handle\<close> after the dispatch: the new counters, the store, and the envelope to put back\<close>
  "worker_decide es r env stats s =
     (case dr_middleware_error r of
        Some err \<Rightarrow>
          (stats\<lparr>wt_failed := Suc (wt_failed stats), wt_dead_lettered := Suc (wt_dead_lettered stats)\<rparr>,
           es_dead_letter es (es_mark_failed es s (en_id env) (middleware_error_str err) (en_attempt env))
             env (middleware_error_str err) None,
           None)
      | None \<Rightarrow>
          if dr_handler_errors r = []
          then (stats\<lparr>wt_processed := Suc (wt_processed stats)\<rparr>, es_mark_processed es s (en_id env), None)
          else if en_attempt env < en_max_attempts env
          then (stats\<lparr>wt_retried := Suc (wt_retried stats)\<rparr>,
                es_mark_failed es s (en_id env) (joined_errors r) (en_attempt env),
                Some (with_attempt env (en_attempt env + 1) (Some (joined_errors r))))
          else (stats\<lparr>wt_failed := Suc (wt_failed stats), wt_dead_lettered := Suc (wt_dead_lettered stats)\<rparr>,
                es_dead_letter es (es_mark_failed es s (en_id env) (joined_errors r) (en_attempt env))
                  env (joined_errors r) (Some (hr_handler (last (dr_handler_errors r)))),
                None))"

definition worker_get :: "nat \<Rightarrow> ('s, 'w) worker \<Rightarrow> ('s, 'w) worker" where
  \<comment> \<open>the idle consumer \<open>i\<close> takes the head of the queue; at a sentinel it calls \<open>task_done\<close> and returns\<close>
  "worker_get i w =
     (case wk_queue w of
        [] \<Rightarrow> w
      | None # q \<Rightarrow> w\<lparr>wk_queue := q, wk_consumers := (wk_consumers w)[i := Exited], wk_unfinished := wk_unfinished w - 1\<rparr>
      | Some env # q \<Rightarrow> w\<lparr>wk_queue := q, wk_consumers := (wk_consumers w)[i := Handling env]\<rparr>)"

definition worker_handle ::
  "'s event_store_ops \<Rightarrow> 'w dispatch_fn \<Rightarrow> nat \<Rightarrow> envelope \<Rightarrow> ('s, 'w) worker \<Rightarrow> ('s, 'w) worker" where
  \<comment> \<open>consumer \<open>i\<close> runs \<open>_handle\<close>; without a retry it calls \<open>task_done\<close>\<close>
  "worker_handle es disp i env w =
     (let (r, world) = disp env (wk_world w);
          (stats, s, retry) = worker_decide es r (dr_envelope r) (wk_stats w) (wk_store w);
          w1 = w\<lparr>wk_world := world, wk_stats := stats, wk_store := s\<rparr>
      in case retry of
           Some env' \<Rightarrow> w1\<lparr>wk_consumers := (wk_consumers w)[i := Putting env']\<rparr>
         | None \<Rightarrow> w1\<lparr>wk_consumers := (wk_consumers w)[i := Idle], wk_unfinished := wk_unfinished w - 1\<rparr>)"

definition worker_retry_put :: "nat \<Rightarrow> envelope \<Rightarrow> ('s, 'w) worker \<Rightarrow> ('s, 'w) worker" where
  \<comment> \<open>the \<open>put\<close> of the retry succeeds and the consumer calls \<open>task_done\<close>\<close>
  "worker_retry_put i env w =
     (let w1 = worker_put w (Some env)
      in w1\<lparr>wk_consumers := (wk_consumers w)[i := Idle], wk_unfinished := wk_unfinished w1 - 1\<rparr>)"

definition worker_stop_begin :: "bool \<Rightarrow> ('s, 'w) worker \<Rightarrow> ('s, 'w) worker" where
  \<comment> \<open>\<open>stop\<close>: close the intake; when graceful, one sentinel per consumer\<close>
  "worker_stop_begin graceful w =
     (if \<not> wk_running w then w
      else w\<lparr>wk_stopping := True,
             wk_putters := wk_putters w @ (if graceful then replicate (length (wk_consumers w)) None else [])\<rparr>)"

definition worker_stop_end :: "('s, 'w) worker \<Rightarrow> ('s, 'w) worker" where
  \<comment> \<open>the consumers are cancelled; what they held is gone, the queue is not drained\<close>
  "worker_stop_end w = w\<lparr>wk_consumers := [], wk_running := False\<rparr>"

subsection \<open>The transition system\<close>

inductive worker_internal ::
  "'s event_store_ops \<Rightarrow> worker_config \<Rightarrow> 'w dispatch_fn \<Rightarrow> ('s, 'w) worker \<Rightarrow> ('s, 'w) worker \<Rightarrow> bool"
  for es cfg disp where
  put: "wk_putters w = x # ps \<Longrightarrow> queue_room cfg w \<Longrightarrow>
     worker_internal es cfg disp w (count_enqueued x (worker_put (w\<lparr>wk_putters := ps\<rparr>) x))"
| get: "i < length (wk_consumers w) \<Longrightarrow> wk_consumers w ! i = Idle \<Longrightarrow> wk_queue w \<noteq> [] \<Longrightarrow>
     worker_internal es cfg disp w (worker_get i w)"
| handle: "i < length (wk_consumers w) \<Longrightarrow> wk_consumers w ! i = Handling env \<Longrightarrow>
     worker_internal es cfg disp w (worker_handle es disp i env w)"
| retry_put: "i < length (wk_consumers w) \<Longrightarrow> wk_consumers w ! i = Putting env \<Longrightarrow> queue_room cfg w \<Longrightarrow>
     worker_internal es cfg disp w (worker_retry_put i env w)"

inductive worker_step ::
  "'s event_store_ops \<Rightarrow> worker_config \<Rightarrow> 'w dispatch_fn \<Rightarrow> ('s, 'w) worker \<Rightarrow> ('s, 'w) worker \<Rightarrow> bool"
  for es cfg disp where
  internal: "worker_internal es cfg disp w w' \<Longrightarrow> worker_step es cfg disp w w'"
| publish: "worker_enqueue es cfg (mk_envelope ev i now) w = Inr w' \<Longrightarrow> worker_step es cfg disp w w'"
| stop: "worker_step es cfg disp w (worker_stop_begin graceful w)"

inductive_cases worker_internalE: "worker_internal es cfg disp w w'"
inductive_cases worker_stepE: "worker_step es cfg disp w w'"

definition worker_init :: "'s \<Rightarrow> 'w \<Rightarrow> ('s, 'w) worker" where
  "worker_init s world =
     \<lparr>wk_queue = [], wk_unfinished = 0, wk_putters = [], wk_consumers = [], wk_running = False,
      wk_stopping = False,
      wk_stats = \<lparr>wt_enqueued = 0, wt_processed = 0, wt_failed = 0, wt_retried = 0, wt_dead_lettered = 0\<rparr>,
      wk_store = s, wk_world = world\<rparr>"

definition worker_reachable ::
  "'s event_store_ops \<Rightarrow> worker_config \<Rightarrow> 'w dispatch_fn \<Rightarrow> 's \<Rightarrow> 'w \<Rightarrow> ('s, 'w) worker \<Rightarrow> bool" where
  "worker_reachable es cfg disp s world w \<longleftrightarrow>
     (worker_step es cfg disp)\<^sup>*\<^sup>* (worker_start cfg (worker_init s world)) w"

subsection \<open>Envelopes in the system\<close>

fun held :: "consumer \<Rightarrow> envelope list" where
  "held (Handling e) = [e]"
| "held (Putting e) = [e]"
| "held _ = []"

definition in_consumers :: "('s, 'w) worker \<Rightarrow> envelope list" where
  "in_consumers w = concat (map held (wk_consumers w))"

definition in_queue :: "('s, 'w) worker \<Rightarrow> envelope list" where
  "in_queue w = List.map_filter id (wk_queue w)"

definition waiting :: "('s, 'w) worker \<Rightarrow> envelope list" where
  "waiting w = List.map_filter id (wk_putters w)"

definition attempt_ok :: "worker_config \<Rightarrow> envelope \<Rightarrow> bool" where
  "attempt_ok cfg e \<longleftrightarrow> 1 \<le> en_attempt e \<and> en_attempt e \<le> max 1 (en_max_attempts e) \<and>
     en_max_attempts e = wc_envelope_max_attempts cfg"

definition worker_count_inv :: "worker_config \<Rightarrow> ('s, 'w) worker \<Rightarrow> bool" where
  "worker_count_inv cfg w \<longleftrightarrow>
     wk_unfinished w = length (wk_queue w) + length (in_consumers w) \<and>
     wt_enqueued (wk_stats w) =
       wt_processed (wk_stats w) + wt_dead_lettered (wk_stats w) + length (in_queue w) + length (in_consumers w) \<and>
     wt_failed (wk_stats w) = wt_dead_lettered (wk_stats w) \<and>
     (\<forall>e \<in> set (waiting w @ in_queue w @ in_consumers w). attempt_ok cfg e)"

lemma in_consumers_update:
  assumes "i < length (wk_consumers w)"
  shows "mset (concat (map held ((wk_consumers w)[i := c]))) + mset (held (wk_consumers w ! i)) =
    mset (in_consumers w) + mset (held c)"
proof -
  have "wk_consumers w = take i (wk_consumers w) @ wk_consumers w ! i # drop (Suc i) (wk_consumers w)"
    using assms by (rule id_take_nth_drop)
  then have "mset (in_consumers w) =
      mset (concat (map held (take i (wk_consumers w)))) + mset (held (wk_consumers w ! i)) +
      mset (concat (map held (drop (Suc i) (wk_consumers w))))"
    unfolding in_consumers_def by (metis concat_append list.simps(9) concat.simps(2) map_append mset_append union_assoc)
  moreover have "mset (concat (map held ((wk_consumers w)[i := c]))) =
      mset (concat (map held (take i (wk_consumers w)))) + mset (held c) +
      mset (concat (map held (drop (Suc i) (wk_consumers w))))"
    using assms by (simp add: upd_conv_take_nth_drop union_assoc)
  ultimately show ?thesis by (simp add: union_ac)
qed

lemma consumers_set:
  fixes c :: consumer and w :: "('s, 'w) worker"
  assumes "i < length (wk_consumers w)"
  defines "new \<equiv> concat (map held ((wk_consumers w)[i := c]))"
  shows "length new + length (held (wk_consumers w ! i)) = length (in_consumers w) + length (held c)"
    and "set new \<subseteq> set (in_consumers w) \<union> set (held c)"
    and "set (held c) \<subseteq> set new"
    and "set (in_consumers w) \<subseteq> set new \<union> set (held (wk_consumers w ! i))"
    and "set (held (wk_consumers w ! i)) \<subseteq> set (in_consumers w)"
proof -
  note eq = in_consumers_update [OF assms(1), of c, folded new_def]
  show "length new + length (held (wk_consumers w ! i)) = length (in_consumers w) + length (held c)"
    using arg_cong [OF eq, of size] by simp
  have sets: "set new \<union> set (held (wk_consumers w ! i)) = set (in_consumers w) \<union> set (held c)"
    using arg_cong [OF eq, of set_mset] by simp
  then show "set new \<subseteq> set (in_consumers w) \<union> set (held c)"
    and "set (in_consumers w) \<subseteq> set new \<union> set (held (wk_consumers w ! i))" by auto
  show "set (held c) \<subseteq> set new"
    using set_update_memI [OF assms(1), of c] by (auto simp: new_def)
  show "set (held (wk_consumers w ! i)) \<subseteq> set (in_consumers w)"
    using nth_mem [OF assms(1)] by (auto simp: in_consumers_def)
qed

lemma map_filter_id [simp]:
  "List.map_filter id [] = []"
  "List.map_filter id (None # xs) = List.map_filter id xs"
  "List.map_filter id (Some x # xs) = x # List.map_filter id xs"
  "List.map_filter id (xs @ ys) = List.map_filter id xs @ List.map_filter id ys"
  "List.map_filter id (replicate n None) = []"
  by (simp_all add: List.map_filter_def filter_empty_conv)

definition dispatch_keeps :: "'w dispatch_fn \<Rightarrow> bool" where
  \<comment> \<open>a dispatch changes nothing of the envelope but its time stamps\<close>
  "dispatch_keeps disp \<longleftrightarrow> (\<forall>env w. \<exists>t0 t1. dr_envelope (fst (disp env w)) =
     env\<lparr>en_dispatched_at := t0, en_completed_at := t1\<rparr>)"

lemma dispatch_keeps_dispatch: "dispatch_keeps (dispatch run sleep mw_run mm reg t0 t1)"
  unfolding dispatch_keeps_def
proof (intro allI)
  fix env w
  have "dr_envelope (fst (dispatch run sleep mw_run mm reg t0 t1 env w)) =
      env\<lparr>en_dispatched_at := Some t0, en_completed_at := Some t1\<rparr>"
    by (simp add: dispatch_def Let_def mark_dispatched_def mark_completed_def split: prod.splits)
  then show "\<exists>a b. dr_envelope (fst (dispatch run sleep mw_run mm reg t0 t1 env w)) =
      env\<lparr>en_dispatched_at := a, en_completed_at := b\<rparr>" by blast
qed

lemma dispatch_keeps_fields:
  assumes "dispatch_keeps disp"
  shows "en_id (dr_envelope (fst (disp env w))) = en_id env"
    and "en_attempt (dr_envelope (fst (disp env w))) = en_attempt env"
    and "en_max_attempts (dr_envelope (fst (disp env w))) = en_max_attempts env"
proof -
  from assms obtain a b where
    "dr_envelope (fst (disp env w)) = env\<lparr>en_dispatched_at := a, en_completed_at := b\<rparr>"
    unfolding dispatch_keeps_def by blast
  then show "en_id (dr_envelope (fst (disp env w))) = en_id env"
    "en_attempt (dr_envelope (fst (disp env w))) = en_attempt env"
    "en_max_attempts (dr_envelope (fst (disp env w))) = en_max_attempts env" by simp_all
qed

lemma decide_retry:
  assumes "worker_decide es r env stats s = (stats', s', Some env')"
  shows "en_id env' = en_id env" and "en_attempt env' = en_attempt env + 1"
    and "en_attempt env < en_max_attempts env" and "en_max_attempts env' = en_max_attempts env"
    and "stats' = stats\<lparr>wt_retried := Suc (wt_retried stats)\<rparr>"
    and "s' = es_mark_failed es s (en_id env) (joined_errors r) (en_attempt env)"
  using assms by (auto simp: worker_decide_def with_attempt_def split: option.splits if_splits)

lemma decide_done:
  assumes "worker_decide es r env stats s = (stats', s', None)"
  shows "wt_processed stats' + wt_dead_lettered stats' = Suc (wt_processed stats + wt_dead_lettered stats)"
    and "wt_enqueued stats' = wt_enqueued stats"
    and "wt_failed stats = wt_dead_lettered stats \<Longrightarrow> wt_failed stats' = wt_dead_lettered stats'"
  using assms by (auto simp: worker_decide_def split: option.splits if_splits)

lemma worker_start_count_inv: "worker_count_inv cfg (worker_start cfg (worker_init s world))"
  by (simp add: worker_count_inv_def worker_start_def worker_init_def in_consumers_def in_queue_def waiting_def
      concat_replicate_trivial map_replicate_const)

lemma put_count_inv:
  assumes inv: "worker_count_inv cfg w" and ps: "wk_putters w = x # ps"
  shows "worker_count_inv cfg (count_enqueued x (worker_put (w\<lparr>wk_putters := ps\<rparr>) x))"
  using inv ps
  by (cases x) (auto simp: worker_count_inv_def count_enqueued_def worker_put_def in_queue_def waiting_def in_consumers_def)

lemma get_count_inv:
  assumes inv: "worker_count_inv cfg w" and i: "i < length (wk_consumers w)" "wk_consumers w ! i = Idle"
    and q: "wk_queue w \<noteq> []"
  shows "worker_count_inv cfg (worker_get i w)"
proof -
  obtain x xs where q: "wk_queue w = x # xs" using q by (cases "wk_queue w") auto
  show ?thesis
  proof (cases x)
    case None
    with q i inv consumers_set(1,2) [OF i(1), of Exited] show ?thesis
      by (auto simp: worker_get_def worker_count_inv_def in_queue_def waiting_def in_consumers_def)
  next
    case (Some e)
    with q i inv consumers_set(1,2) [OF i(1), of "Handling e"] show ?thesis
      by (auto simp: worker_get_def worker_count_inv_def in_queue_def waiting_def in_consumers_def)
  qed
qed

lemma handle_count_inv:
  assumes inv: "worker_count_inv cfg w" and i: "i < length (wk_consumers w)" "wk_consumers w ! i = Handling env"
    and keeps: "dispatch_keeps disp"
  shows "worker_count_inv cfg (worker_handle es disp i env w)"
proof -
  obtain r world where d: "disp env (wk_world w) = (r, world)" by fastforce
  note fields = dispatch_keeps_fields [OF keeps, of env "wk_world w", unfolded d fst_conv]
  obtain stats s retry where
    dec: "worker_decide es r (dr_envelope r) (wk_stats w) (wk_store w) = (stats, s, retry)" by (metis prod_cases3)
  have env: "env \<in> set (in_consumers w)" using consumers_set(5) [OF i(1)] i(2) by simp
  have pos: "length (in_consumers w) \<ge> 1" using env by (cases "in_consumers w") auto
  show ?thesis
  proof (cases retry)
    case (Some e')
    note dr = decide_retry [OF dec [unfolded Some]]
    have "attempt_ok cfg env" using inv env by (simp add: worker_count_inv_def)
    then have "attempt_ok cfg e'" using dr(2-4) fields by (auto simp: attempt_ok_def)
    with inv consumers_set(1,2) [OF i(1), of "Putting e'"] i(2) dr(5) show ?thesis
      by (auto simp: worker_handle_def d dec Some worker_count_inv_def in_queue_def waiting_def in_consumers_def)
  next
    case None
    note dd = decide_done [OF dec [unfolded None]]
    from inv consumers_set(1,2) [OF i(1), of Idle] i(2) dd pos show ?thesis
      by (auto simp: worker_handle_def d dec None worker_count_inv_def in_queue_def waiting_def in_consumers_def)
  qed
qed

lemma retry_put_count_inv:
  assumes inv: "worker_count_inv cfg w" and i: "i < length (wk_consumers w)" "wk_consumers w ! i = Putting env"
  shows "worker_count_inv cfg (worker_retry_put i env w)"
proof -
  have "env \<in> set (in_consumers w)" using consumers_set(5) [OF i(1)] i(2) by simp
  with inv consumers_set(1,2) [OF i(1), of Idle] i(2) show ?thesis
    by (auto simp: worker_retry_put_def worker_put_def Let_def worker_count_inv_def in_queue_def waiting_def in_consumers_def)
qed

lemma enqueue_count_inv:
  assumes "worker_count_inv cfg w" and "worker_enqueue es cfg (mk_envelope ev i now) w = Inr w'"
  shows "worker_count_inv cfg w'"
  using assms
  by (auto simp: worker_enqueue_def Let_def mk_envelope_def worker_count_inv_def in_queue_def waiting_def
      in_consumers_def attempt_ok_def split: if_splits)

lemma stop_count_inv: "worker_count_inv cfg w \<Longrightarrow> worker_count_inv cfg (worker_stop_begin g w)"
  by (auto simp: worker_stop_begin_def worker_count_inv_def in_queue_def waiting_def in_consumers_def)

lemma step_count_inv [inv_intros]:
  "worker_step es cfg disp w w' \<Longrightarrow> dispatch_keeps disp \<Longrightarrow> worker_count_inv cfg w \<Longrightarrow> worker_count_inv cfg w'"
  by (erule worker_stepE)
     (auto elim!: worker_internalE intro: put_count_inv get_count_inv handle_count_inv retry_put_count_inv
       enqueue_count_inv stop_count_inv)

lemma reachable_count_inv:
  assumes "worker_reachable es cfg disp s world w" and keeps: "dispatch_keeps disp"
  shows "worker_count_inv cfg w"
  using assms(1) unfolding worker_reachable_def
proof (induction rule: rtranclp_induct)
  case base
  then show ?case by (rule worker_start_count_inv)
next
  case (step y z)
  then show ?case using keeps step_count_inv by blast
qed

subsection \<open>No event is lost\<close>

definition in_system :: "('s, 'w) worker \<Rightarrow> string set" where
  "in_system w = en_id ` set (waiting w) \<union> en_id ` set (in_queue w) \<union> en_id ` set (in_consumers w)"

lemma in_system_consumer:
  \<comment> \<open>replacing what consumer \<open>i\<close> does and moving envelopes among the queues\<close>
  assumes i: "i < length (wk_consumers w)" and cs: "wk_consumers w' = (wk_consumers w)[i := c]"
    and old: "en_id ` set (held (wk_consumers w ! i)) \<subseteq> X \<union> in_system w'"
    and ws: "set (waiting w) \<subseteq> set (waiting w')"
    and qs: "en_id ` set (in_queue w) \<subseteq> in_system w'"
  shows "in_system w \<subseteq> X \<union> in_system w'"
proof -
  have "in_consumers w' = concat (map held ((wk_consumers w)[i := c]))" by (simp add: in_consumers_def cs)
  with consumers_set(4) [OF i, of c]
  have "en_id ` set (in_consumers w) \<subseteq> en_id ` set (in_consumers w') \<union> en_id ` set (held (wk_consumers w ! i))"
    by (metis image_Un image_mono)
  then have "en_id ` set (in_consumers w) \<subseteq> X \<union> in_system w'" using old by (auto simp: in_system_def)
  then show ?thesis using qs image_mono [OF ws, of en_id] by (auto simp: in_system_def)
qed

lemma in_system_held: "i < length (wk_consumers w) \<Longrightarrow> e \<in> set (held (wk_consumers w ! i)) \<Longrightarrow> en_id e \<in> in_system w"
  using consumers_set(5) [of i w] by (auto simp: in_system_def)

context event_store
begin

definition tracked :: "('s, 'w) worker \<Rightarrow> bool" where
  \<comment> \<open>an event the store does not list as processed or dead is still in the system\<close>
  "tracked w \<longleftrightarrow> inv (wk_store w) \<and>
     (\<forall>i. status (wk_store w) i \<notin> {None, Some ''processed'', Some ''dead''} \<longrightarrow> i \<in> in_system w)"

lemma put_tracked:
  assumes "tracked w" and "wk_putters w = x # ps"
  shows "tracked (count_enqueued x (worker_put (w\<lparr>wk_putters := ps\<rparr>) x))"
  using assms
  by (cases x) (auto simp: tracked_def in_system_def count_enqueued_def worker_put_def in_queue_def waiting_def
      in_consumers_def image_Un)

lemma get_tracked:
  assumes t: "tracked w" and i: "i < length (wk_consumers w)" "wk_consumers w ! i = Idle" and q: "wk_queue w \<noteq> []"
  shows "tracked (worker_get i w)"
proof -
  obtain x xs where q: "wk_queue w = x # xs" using q by (cases "wk_queue w") auto
  define c where "c = (case x of None \<Rightarrow> Exited | Some e \<Rightarrow> Handling e)"
  have cs: "wk_consumers (worker_get i w) = (wk_consumers w)[i := c]"
    using q by (simp add: worker_get_def c_def split: option.splits)
  have "en_id ` set (in_queue w) \<subseteq> en_id ` set (in_queue (worker_get i w)) \<union> en_id ` set (held c)"
    using q by (auto simp: worker_get_def c_def in_queue_def split: option.splits)
  moreover have "en_id ` set (held c) \<subseteq> in_system (worker_get i w)"
    using in_system_held [of i "worker_get i w"] i(1) by (auto simp: cs)
  ultimately have "en_id ` set (in_queue w) \<subseteq> in_system (worker_get i w)" by (auto simp: in_system_def)
  then have "in_system w \<subseteq> {} \<union> in_system (worker_get i w)"
    using i q by (intro in_system_consumer [OF i(1) cs]) (auto simp: worker_get_def waiting_def split: option.splits)
  moreover have "wk_store (worker_get i w) = wk_store w" using q by (simp add: worker_get_def split: option.splits)
  ultimately show ?thesis using t by (auto simp: tracked_def)
qed

lemma decide_done_status:
  assumes "worker_decide es r env stats s = (stats', s', None)" and "inv s"
  shows "inv s'" and "j \<noteq> en_id env \<Longrightarrow> status s' j = status s j"
    and "status s' (en_id env) \<in> {None, Some ''processed'', Some ''dead''}"
  using assms
  by (auto simp: worker_decide_def store_simps split: option.splits if_splits)

lemma handle_tracked:
  assumes t: "tracked w" and i: "i < length (wk_consumers w)" "wk_consumers w ! i = Handling env"
    and keeps: "dispatch_keeps disp"
  shows "tracked (worker_handle es disp i env w)"
proof -
  obtain r world where d: "disp env (wk_world w) = (r, world)" by fastforce
  note fields = dispatch_keeps_fields [OF keeps, of env "wk_world w", unfolded d fst_conv]
  obtain stats s retry where
    dec: "worker_decide es r (dr_envelope r) (wk_stats w) (wk_store w) = (stats, s, retry)" by (metis prod_cases3)
  have inv: "inv (wk_store w)" using t by (simp add: tracked_def)
  have env: "env \<in> set (in_consumers w)" using consumers_set(5) [OF i(1)] i(2) by simp
  show ?thesis
  proof (cases retry)
    case (Some e')
    note dr = decide_retry [OF dec [unfolded Some]]
    have eq: "worker_handle es disp i env w =
        w\<lparr>wk_world := world, wk_stats := stats, wk_store := s, wk_consumers := (wk_consumers w)[i := Putting e']\<rparr>"
      by (simp add: worker_handle_def d dec Some)
    have "en_id env \<in> in_system (worker_handle es disp i env w)"
      using in_system_held [of i "worker_handle es disp i env w" e'] i(1) dr(1) fields(1) by (simp add: eq)
    then have "in_system w \<subseteq> {} \<union> in_system (worker_handle es disp i env w)"
      using i(2) by (intro in_system_consumer [OF i(1), where c = "Putting e'"])
         (auto simp: eq in_system_def waiting_def in_queue_def)
    moreover have "en_id env \<in> in_system w" using env by (auto simp: in_system_def)
    ultimately show ?thesis using t inv fields(1)
      by (auto simp: tracked_def eq dr(6) store_simps split: if_splits)
  next
    case None
    note ds = decide_done_status [OF dec [unfolded None] inv, unfolded fields(1)]
    have eq: "worker_handle es disp i env w =
        w\<lparr>wk_world := world, wk_stats := stats, wk_store := s, wk_consumers := (wk_consumers w)[i := Idle],
          wk_unfinished := wk_unfinished w - 1\<rparr>"
      by (simp add: worker_handle_def d dec None)
    have sub: "in_system w \<subseteq> {en_id env} \<union> in_system (worker_handle es disp i env w)"
      using i(2) by (intro in_system_consumer [OF i(1), where c = Idle])
         (auto simp: eq in_system_def waiting_def in_queue_def)
    have "j \<in> in_system (worker_handle es disp i env w)"
      if "status s j \<notin> {None, Some ''processed'', Some ''dead''}" for j
    proof -
      have "j \<noteq> en_id env" using that ds(3) by auto
      with that ds(2) t sub show ?thesis by (auto simp: tracked_def)
    qed
    with ds(1) show ?thesis by (simp add: tracked_def eq)
  qed
qed

lemma retry_put_tracked:
  assumes t: "tracked w" and i: "i < length (wk_consumers w)" "wk_consumers w ! i = Putting env"
  shows "tracked (worker_retry_put i env w)"
proof -
  have "in_system w \<subseteq> {} \<union> in_system (worker_retry_put i env w)"
    using i(2) by (intro in_system_consumer [OF i(1), where c = Idle])
       (auto simp: worker_retry_put_def worker_put_def Let_def in_system_def in_queue_def waiting_def)
  moreover have "wk_store (worker_retry_put i env w) = wk_store w"
    by (simp add: worker_retry_put_def worker_put_def Let_def)
  ultimately show ?thesis using t by (auto simp: tracked_def)
qed

lemma enqueue_tracked:
  assumes t: "tracked w" and enq: "worker_enqueue es cfg env w = Inr w'"
  shows "tracked w'"
proof -
  from enq have w': "w' = w\<lparr>wk_store := es_save es (wk_store w) (env\<lparr>en_max_attempts := wc_envelope_max_attempts cfg\<rparr>),
      wk_putters := wk_putters w @ [Some (env\<lparr>en_max_attempts := wc_envelope_max_attempts cfg\<rparr>)]\<rparr>"
    by (auto simp: worker_enqueue_def Let_def split: if_splits)
  have "in_system w' = insert (en_id env) (in_system w)"
    by (auto simp: w' in_system_def in_queue_def waiting_def in_consumers_def)
  with t show ?thesis by (auto simp: tracked_def w' store_simps split: if_splits)
qed

lemma stop_tracked: "tracked w \<Longrightarrow> tracked (worker_stop_begin g w)"
  by (auto simp: worker_stop_begin_def tracked_def in_system_def in_queue_def waiting_def in_consumers_def)

lemma step_tracked:
  "worker_step es cfg disp w w' \<Longrightarrow> dispatch_keeps disp \<Longrightarrow> tracked w \<Longrightarrow> tracked w'"
  by (erule worker_stepE)
     (auto elim!: worker_internalE intro: put_tracked get_tracked handle_tracked retry_put_tracked enqueue_tracked stop_tracked)

lemma reachable_tracked:
  assumes "worker_reachable es cfg disp s world w" and keeps: "dispatch_keeps disp"
    and "inv s" and "\<And>i. status s i \<in> {None, Some ''processed'', Some ''dead''}"
  shows "tracked w"
  using assms(1) unfolding worker_reachable_def
proof (induction rule: rtranclp_induct)
  case base
  then show ?case using assms(3,4) by (auto simp: tracked_def worker_start_def worker_init_def)
next
  case (step y z)
  then show ?case using keeps step_tracked by blast
qed

lemma drained_settled:
  assumes "worker_reachable es cfg disp s world w" and "dispatch_keeps disp"
    and "inv s" and "\<And>i. status s i \<in> {None, Some ''processed'', Some ''dead''}"
    and "wk_unfinished w = 0" and "wk_putters w = []"
  shows "status (wk_store w) i \<in> {None, Some ''processed'', Some ''dead''}"
proof -
  have "wk_queue w = []" "in_consumers w = []"
    using reachable_count_inv [OF assms(1,2)] assms(5) by (auto simp: worker_count_inv_def)
  then have "in_system w = {}" using assms(6) by (simp add: in_system_def in_queue_def waiting_def)
  with reachable_tracked [OF assms(1-4)] show ?thesis unfolding tracked_def by blast
qed

end

subsection \<open>Termination and progress\<close>

definition weight :: "envelope \<Rightarrow> nat" where
  "weight e = 4 * nat (en_max_attempts e - en_attempt e)"

fun consumer_weight :: "consumer \<Rightarrow> nat" where
  "consumer_weight (Handling e) = weight e + 1"
| "consumer_weight (Putting e) = weight e + 3"
| "consumer_weight _ = 0"

definition entry_weight :: "nat \<Rightarrow> envelope option \<Rightarrow> nat" where
  "entry_weight k x = k + (case x of None \<Rightarrow> 0 | Some e \<Rightarrow> weight e)"

definition work :: "('s, 'w) worker \<Rightarrow> nat" where
  \<comment> \<open>a bound on the internal steps still to come\<close>
  "work w = sum_list (map (entry_weight 3) (wk_putters w)) + sum_list (map (entry_weight 2) (wk_queue w)) +
     sum_list (map consumer_weight (wk_consumers w))"

lemma sum_list_consumers:
  assumes "i < length cs"
  shows "sum_list (map consumer_weight (cs[i := c])) + consumer_weight (cs ! i) =
    sum_list (map consumer_weight cs) + consumer_weight c"
  using assms
proof (induction cs arbitrary: i)
  case Nil
  then show ?case by simp
next
  case (Cons x cs)
  then show ?case by (cases i) (auto simp: add_ac)
qed

lemma internal_work:
  assumes "worker_internal es cfg disp w w'" and keeps: "dispatch_keeps disp"
  shows "work w' < work w"
  using assms(1)
proof (cases rule: worker_internal.cases)
  case (put x ps)
  then show ?thesis by (simp add: work_def count_enqueued_def worker_put_def entry_weight_def)
next
  case (get i)
  obtain x xs where q: "wk_queue w = x # xs" using get by (cases "wk_queue w") auto
  show ?thesis
    using get q sum_list_consumers [OF get(2), of Exited] sum_list_consumers [OF get(2), of "Handling (the x)"]
    by (cases x) (auto simp: work_def worker_get_def entry_weight_def)
next
  case (handle i env)
  obtain r world where d: "disp env (wk_world w) = (r, world)" by fastforce
  note fields = dispatch_keeps_fields [OF keeps, of env "wk_world w", unfolded d fst_conv]
  obtain stats s retry where
    dec: "worker_decide es r (dr_envelope r) (wk_stats w) (wk_store w) = (stats, s, retry)" by (metis prod_cases3)
  show ?thesis
  proof (cases retry)
    case None
    then show ?thesis using handle sum_list_consumers [OF handle(2), of Idle]
      by (auto simp: work_def worker_handle_def d dec)
  next
    case (Some e')
    note dr = decide_retry [OF dec [unfolded Some]]
    have "weight e' + 4 = weight env" using dr(2-4) fields by (simp add: weight_def)
    then show ?thesis using Some handle sum_list_consumers [OF handle(2), of "Putting e'"]
      by (auto simp: work_def worker_handle_def d dec)
  qed
next
  case (retry_put i env)
  then show ?thesis using sum_list_consumers [OF retry_put(2), of Idle]
    by (auto simp: work_def worker_retry_put_def worker_put_def Let_def entry_weight_def)
qed

lemma internal_bounded:
  assumes "(worker_internal es cfg disp ^^ n) w w'" and keeps: "dispatch_keeps disp"
  shows "n + work w' \<le> work w"
  using assms(1)
proof (induction n arbitrary: w')
  case 0
  then show ?case by simp
next
  case (Suc n)
  then obtain v where "(worker_internal es cfg disp ^^ n) w v" "worker_internal es cfg disp v w'"
    by (auto elim: relpowp_Suc_E)
  with Suc.IH [of v] internal_work [OF _ keeps, of es cfg v w'] show ?case by fastforce
qed

lemma consumer_kinds: "c = Idle \<or> c = Exited \<or> (\<exists>e. c = Handling e) \<or> (\<exists>e. c = Putting e)"
  by (cases c) auto

lemma internal_progress:
  assumes idle: "Exited \<notin> set (wk_consumers w)" "wk_consumers w \<noteq> []" and room: "wc_queue_size cfg \<le> 0"
    and stuck: "\<And>w'. \<not> worker_internal es cfg disp w w'"
  shows "wk_putters w = [] \<and> wk_queue w = [] \<and> in_consumers w = []"
proof -
  have room': "queue_room cfg w" using room by (simp add: queue_room_def)
  have "wk_putters w = []"
    using stuck worker_internal.put [OF _ room'] by (metis neq_Nil_conv)
  moreover have all: "wk_consumers w ! i = Idle" if i: "i < length (wk_consumers w)" for i
    using consumer_kinds [of "wk_consumers w ! i"] idle(1) nth_mem [OF i] stuck
      worker_internal.handle [OF i] worker_internal.retry_put [OF i _ room'] by metis
  moreover from idle(2) have "0 < length (wk_consumers w)" by simp
  then have "wk_queue w = []" using all stuck worker_internal.get by metis
  moreover have "in_consumers w = []" using all by (auto simp: in_consumers_def in_set_conv_nth)
  ultimately show ?thesis by blast
qed

definition open_inv :: "worker_config \<Rightarrow> ('s, 'w) worker \<Rightarrow> bool" where
  \<comment> \<open>before \<open>stop\<close> there is no sentinel and no consumer has returned\<close>
  "open_inv cfg w \<longleftrightarrow> length (wk_consumers w) = nat (wc_concurrency cfg) \<and>
     (\<not> wk_stopping w \<longrightarrow> None \<notin> set (wk_queue w) \<and> None \<notin> set (wk_putters w) \<and> Exited \<notin> set (wk_consumers w))"

lemma open_inv_consumer:
  "open_inv cfg w \<Longrightarrow> c \<noteq> Exited \<Longrightarrow> open_inv cfg (w\<lparr>wk_consumers := (wk_consumers w)[i := c]\<rparr>)"
  using set_update_subset_insert [of "wk_consumers w" i c] by (auto simp: open_inv_def)

lemma internal_open_inv:
  assumes "worker_internal es cfg disp w w'" and inv: "open_inv cfg w"
  shows "open_inv cfg w' \<and> wk_stopping w' = wk_stopping w"
  using assms(1)
proof (cases rule: worker_internal.cases)
  case (put x ps)
  with inv show ?thesis by (auto simp: open_inv_def count_enqueued_def worker_put_def)
next
  case (get i)
  obtain x xs where q: "wk_queue w = x # xs" using get by (cases "wk_queue w") auto
  show ?thesis
    using get q inv set_update_subset_insert [of "wk_consumers w" i "Handling (the x)"]
    by (cases x) (auto simp: open_inv_def worker_get_def)
next
  case (handle i env)
  obtain r world where d: "disp env (wk_world w) = (r, world)" by fastforce
  obtain stats s retry where
    dec: "worker_decide es r (dr_envelope r) (wk_stats w) (wk_store w) = (stats, s, retry)" by (metis prod_cases3)
  show ?thesis
    using handle inv set_update_subset_insert [of "wk_consumers w" i Idle]
      set_update_subset_insert [of "wk_consumers w" i "Putting (the retry)"]
    by (cases retry) (auto simp: open_inv_def worker_handle_def d dec)
next
  case (retry_put i env)
  with inv set_update_subset_insert [of "wk_consumers w" i Idle] show ?thesis
    by (auto simp: open_inv_def worker_retry_put_def worker_put_def Let_def)
qed

lemma reachable_open_inv:
  assumes "worker_reachable es cfg disp s world w"
  shows "open_inv cfg w"
  using assms unfolding worker_reachable_def
proof (induction rule: rtranclp_induct)
  case base
  then show ?case by (auto simp: open_inv_def worker_start_def worker_init_def)
next
  case (step y z)
  from step.hyps(2) step.IH show ?case
  proof (cases rule: worker_step.cases)
    case internal
    then show ?thesis using internal_open_inv step.IH by blast
  next
    case (publish ev i now)
    then show ?thesis using step.IH by (auto simp: worker_enqueue_def Let_def open_inv_def split: if_splits)
  next
    case (stop graceful)
    then show ?thesis using step.IH by (auto simp: worker_stop_begin_def open_inv_def)
  qed
qed

lemma internal_run_open_inv:
  assumes "(worker_internal es cfg disp ^^ n) w w'" and "open_inv cfg w"
  shows "open_inv cfg w' \<and> wk_stopping w' = wk_stopping w"
  using assms
proof (induction n arbitrary: w')
  case 0
  then show ?case by simp
next
  case (Suc n)
  then obtain v where "(worker_internal es cfg disp ^^ n) w v" "worker_internal es cfg disp v w'"
    by (auto elim: relpowp_Suc_E)
  with Suc.IH [of v] Suc.prems(2) internal_open_inv [of es cfg disp v w'] show ?case by simp
qed

lemma reachable_run:
  assumes "worker_reachable es cfg disp s world w" and "(worker_internal es cfg disp ^^ n) w w'"
  shows "worker_reachable es cfg disp s world w'"
  using assms(2)
proof (induction n arbitrary: w')
  case 0
  then show ?case using assms(1) by simp
next
  case (Suc n)
  then obtain v where "(worker_internal es cfg disp ^^ n) w v" "worker_internal es cfg disp v w'"
    by (auto elim: relpowp_Suc_E)
  with Suc.IH show ?case
    unfolding worker_reachable_def by (meson rtranclp.rtrancl_into_rtrancl worker_step.internal)
qed

subsection \<open>Two concrete runs\<close>

text \<open>
  One consumer, two attempts per envelope, and a dispatcher whose only handler always fails.
\<close>

definition demo_cfg :: "int \<Rightarrow> worker_config" where
  "demo_cfg qs = \<lparr>wc_concurrency = 1, wc_queue_size = qs, wc_envelope_max_attempts = 2,
     wc_envelope_retry_backoff = 1/2, wc_drain_timeout = 30\<rparr>"

definition failing :: "unit dispatch_fn" where
  "failing env u =
     (\<lparr>dr_envelope = env,
       dr_handler_errors = [\<lparr>hr_handler = ''h'', hr_event_type = [], hr_envelope_id = en_id env,
         hr_original = Py (ValueError ''no''), hr_attempt = 1\<rparr>],
       dr_middleware_error = None\<rparr>, u)"

abbreviation demo_es :: "mem_event_store event_store_ops" where
  "demo_es \<equiv> mes_ops (\<lambda>e. [])"

abbreviation demo_reach :: "int \<Rightarrow> (mem_event_store, unit) worker \<Rightarrow> bool" where
  "demo_reach qs \<equiv> worker_reachable demo_es (demo_cfg qs) failing mes_empty ()"

definition do_publish :: "int \<Rightarrow> string \<Rightarrow> (mem_event_store, unit) worker \<Rightarrow> (mem_event_store, unit) worker" where
  "do_publish qs i w =
     (case worker_enqueue demo_es (demo_cfg qs) (mk_envelope (mk_event 0 None BaseBody) i 0) w of
        Inl e \<Rightarrow> w | Inr w' \<Rightarrow> w')"

definition do_put :: "int \<Rightarrow> (mem_event_store, unit) worker \<Rightarrow> (mem_event_store, unit) worker" where
  "do_put qs w =
     (case wk_putters w of
        [] \<Rightarrow> w
      | x # ps \<Rightarrow> if queue_room (demo_cfg qs) w then count_enqueued x (worker_put (w\<lparr>wk_putters := ps\<rparr>) x) else w)"

definition do_consume :: "int \<Rightarrow> (mem_event_store, unit) worker \<Rightarrow> (mem_event_store, unit) worker" where
  \<comment> \<open>the next step of the only consumer\<close>
  "do_consume qs w =
     (case wk_consumers w of
        [Idle] \<Rightarrow> worker_get 0 w
      | [Handling env] \<Rightarrow> worker_handle demo_es failing 0 env w
      | [Putting env] \<Rightarrow> if queue_room (demo_cfg qs) w then worker_retry_put 0 env w else w
      | _ \<Rightarrow> w)"

lemma dispatch_keeps_failing: "dispatch_keeps failing"
  unfolding dispatch_keeps_def
proof (intro allI)
  fix env w
  have "dr_envelope (fst (failing env w)) =
      env\<lparr>en_dispatched_at := en_dispatched_at env, en_completed_at := en_completed_at env\<rparr>"
    by (simp add: failing_def)
  then show "\<exists>a b. dr_envelope (fst (failing env w)) = env\<lparr>en_dispatched_at := a, en_completed_at := b\<rparr>" by blast
qed

lemma demo_reach_start: "demo_reach qs (worker_start (demo_cfg qs) (worker_init mes_empty ()))"
  by (simp add: worker_reachable_def)

lemma demo_reach_step: "demo_reach qs w \<Longrightarrow> worker_step demo_es (demo_cfg qs) failing w w' \<Longrightarrow> demo_reach qs w'"
  unfolding worker_reachable_def by (rule rtranclp.rtrancl_into_rtrancl)

lemma demo_reach_publish: "demo_reach qs w \<Longrightarrow> demo_reach qs (do_publish qs i w)"
  by (auto simp: do_publish_def split: sum.splits intro: demo_reach_step worker_step.publish)

lemma demo_reach_put: "demo_reach qs w \<Longrightarrow> demo_reach qs (do_put qs w)"
  by (auto simp: do_put_def split: list.splits intro: demo_reach_step worker_step.internal worker_internal.put)

lemma demo_reach_stop: "demo_reach qs w \<Longrightarrow> demo_reach qs (worker_stop_begin g w)"
  by (auto intro: demo_reach_step worker_step.stop)

lemma worker_get_empty: "wk_queue w = [] \<Longrightarrow> worker_get i w = w"
  by (simp add: worker_get_def)

lemma demo_reach_internal: "demo_reach qs w \<Longrightarrow> worker_internal demo_es (demo_cfg qs) failing w w' \<Longrightarrow> demo_reach qs w'"
  by (erule demo_reach_step) (rule worker_step.internal)

lemma demo_reach_consume:
  assumes r: "demo_reach qs w"
  shows "demo_reach qs (do_consume qs w)"
proof (cases "\<exists>c. wk_consumers w = [c]")
  case False
  then have "do_consume qs w = w" by (simp add: do_consume_def split: list.splits consumer.splits)
  with r show ?thesis by simp
next
  case True
  then obtain c where c: "wk_consumers w = [c]" by blast
  then have i: "0 < length (wk_consumers w)" by simp
  show ?thesis
  proof (cases c)
    case Idle
    with c r show ?thesis
      by (cases "wk_queue w = []")
         (simp_all add: do_consume_def worker_get_empty demo_reach_internal [OF r worker_internal.get [OF i]])
  next
    case (Handling env)
    with c show ?thesis
      by (simp add: do_consume_def demo_reach_internal [OF r worker_internal.handle [OF i]])
  next
    case (Putting env)
    with c r show ?thesis
      by (simp add: do_consume_def demo_reach_internal [OF r worker_internal.retry_put [OF i]])
  next
    case Exited
    with c r show ?thesis by (simp add: do_consume_def)
  qed
qed

definition demo_blocked :: "int \<Rightarrow> (mem_event_store, unit) worker" where
  \<comment> \<open>a second event is published while the first one is being handled; the first one fails\<close>
  "demo_blocked qs =
     (let w = worker_start (demo_cfg qs) (worker_init mes_empty ());
          w = do_consume qs (do_put qs (do_publish qs ''e1'' w));
          w = do_put qs (do_publish qs ''e2'' w)
      in do_consume qs w)"

definition demo_stranded :: "int \<Rightarrow> (mem_event_store, unit) worker" where
  \<comment> \<open>a graceful stop begins while the first event is being handled; its first attempt fails\<close>
  "demo_stranded qs =
     (let w = worker_start (demo_cfg qs) (worker_init mes_empty ());
          w = do_consume qs (do_put qs (do_publish qs ''e1'' w));
          w = do_put qs (worker_stop_begin True w)
      in do_consume qs (do_consume qs (do_consume qs w)))"

definition demo_settled :: "int \<Rightarrow> (mem_event_store, unit) worker" where
  \<comment> \<open>one event that fails twice\<close>
  "demo_settled qs =
     (let w = worker_start (demo_cfg qs) (worker_init mes_empty ());
          w = do_put qs (do_publish qs ''e1'' w)
      in do_consume qs (do_consume qs (do_consume qs (do_consume qs (do_consume qs w)))))"

lemmas demo_reach_intros = demo_reach_start demo_reach_publish demo_reach_put demo_reach_stop demo_reach_consume

lemma demo_blocked_reachable: "demo_reach qs (demo_blocked qs)"
  unfolding demo_blocked_def Let_def by (intro demo_reach_intros)

lemma demo_stranded_reachable: "demo_reach qs (demo_stranded qs)"
  unfolding demo_stranded_def Let_def by (intro demo_reach_intros)

lemma demo_settled_reachable: "demo_reach qs (demo_settled qs)"
  unfolding demo_settled_def Let_def by (intro demo_reach_intros)

lemma demo_stuck:
  assumes "wk_consumers w = [Putting env] \<and> \<not> queue_room cfg w \<or> wk_consumers w = [Exited] \<and> wk_putters w = []"
  shows "\<not> worker_internal es cfg disp w w'"
  using assms by (auto elim!: worker_internalE simp: less_Suc_eq)

subsection \<open>Properties\<close>

text \<open>
  The counters of the worker account for every envelope: in every reachable state, what was enqueued is processed,
  dead-lettered, queued or in the hands of a consumer; every failure is a dead letter; and no envelope is delivered
  more than \<open>envelope_max_attempts\<close> times (at least once).
\<close>

theorem worker_conserves_envelopes:
  assumes "worker_reachable es cfg disp s world w" and "dispatch_keeps disp"
  shows "wt_enqueued (wk_stats w) =
      wt_processed (wk_stats w) + wt_dead_lettered (wk_stats w) + length (in_queue w) + length (in_consumers w) \<and>
    wt_failed (wk_stats w) = wt_dead_lettered (wk_stats w) \<and>
    (\<forall>e \<in> set (in_queue w @ in_consumers w).
       1 \<le> en_attempt e \<and> en_attempt e \<le> max 1 (wc_envelope_max_attempts cfg))"
proof -
  note inv = reachable_count_inv [OF assms, unfolded worker_count_inv_def]
  then have "1 \<le> en_attempt e \<and> en_attempt e \<le> max 1 (wc_envelope_max_attempts cfg)"
    if "e \<in> set (in_queue w @ in_consumers w)" for e
    using that by (metis attempt_ok_def UnCI set_append)
  with inv show ?thesis by blast
qed

theorem worker_conserves_envelopes_witness:
  "wt_enqueued (wk_stats (demo_blocked 1)) =
      wt_processed (wk_stats (demo_blocked 1)) + wt_dead_lettered (wk_stats (demo_blocked 1)) +
      length (in_queue (demo_blocked 1)) + length (in_consumers (demo_blocked 1)) \<and>
    wt_failed (wk_stats (demo_blocked 1)) = wt_dead_lettered (wk_stats (demo_blocked 1)) \<and>
    set (in_queue (demo_blocked 1) @ in_consumers (demo_blocked 1)) \<subseteq>
      {e. 1 \<le> en_attempt e \<and> en_attempt e \<le> max 1 (wc_envelope_max_attempts (demo_cfg 1))}"
  using worker_conserves_envelopes [OF demo_blocked_reachable dispatch_keeps_failing] by blast



text \<open>
  C15. The pool drains: with an unbounded queue and at least one consumer, an open worker that receives no further events
  takes at most \<open>work w\<close> internal steps, whatever the handlers do, and can only stop when every publisher
  has been served and every envelope is settled.
\<close>

theorem worker_drains:
  assumes "worker_reachable es cfg disp s world w" and "\<not> wk_stopping w" and "dispatch_keeps disp"
    and "1 \<le> wc_concurrency cfg" and "wc_queue_size cfg \<le> 0"
    and "(worker_internal es cfg disp ^^ n) w w'"
  shows "n \<le> work w \<and>
    ((\<forall>v. \<not> worker_internal es cfg disp w' v) \<longrightarrow> wk_unfinished w' = 0 \<and> wk_putters w' = [])"
proof -
  have o: "open_inv cfg w'" "\<not> wk_stopping w'"
    using internal_run_open_inv [OF assms(6) reachable_open_inv [OF assms(1)]] assms(2) by auto
  then have cons: "Exited \<notin> set (wk_consumers w')" "wk_consumers w' \<noteq> []"
    using assms(4) by (auto simp: open_inv_def)
  have "worker_count_inv cfg w'"
    by (rule reachable_count_inv [OF reachable_run [OF assms(1,6)] assms(3)])
  then show ?thesis
    using internal_bounded [OF assms(6,3)] internal_progress [OF cons assms(5)]
    by (auto simp: worker_count_inv_def)
qed

theorem worker_drains_witness:
  "(\<exists>v. worker_internal demo_es (demo_cfg 0) failing (demo_settled 0) v) \<or>
     wk_unfinished (demo_settled 0) = 0 \<and> wk_putters (demo_settled 0) = []"
proof -
  have "\<not> wk_stopping (demo_settled 0)" by code_simp
  then show ?thesis
    using worker_drains [OF demo_settled_reachable _ dispatch_keeps_failing, of 0 0 "demo_settled 0"]
    by (auto simp: demo_cfg_def)
qed

text \<open>
  C39. A bounded queue can deadlock: with queue size one and one consumer, an event published while a failing event is handled
  fills the queue, the consumer waits for room to put the retry back, and no task can move; \<open>flush\<close> never returns.
\<close>

theorem worker_retry_deadlock:
  "\<exists>w. worker_reachable demo_es (demo_cfg 1) failing mes_empty () w \<and> \<not> wk_stopping w \<and> 0 < wk_unfinished w \<and>
     (\<forall>v. \<not> worker_internal demo_es (demo_cfg 1) failing w v)"
proof (intro exI conjI allI)
  show "demo_reach 1 (demo_blocked 1)" by (rule demo_blocked_reachable)
  show "\<not> wk_stopping (demo_blocked 1)" by code_simp
  show "0 < wk_unfinished (demo_blocked 1)" by code_simp
  have "(case wk_consumers (demo_blocked 1) of [Putting env] \<Rightarrow> \<not> queue_room (demo_cfg 1) (demo_blocked 1) | _ \<Rightarrow> False)"
    by code_simp
  then obtain env where "wk_consumers (demo_blocked 1) = [Putting env] \<and> \<not> queue_room (demo_cfg 1) (demo_blocked 1)"
    by (auto split: list.splits consumer.splits)
  then show "\<not> worker_internal demo_es (demo_cfg 1) failing (demo_blocked 1) v" for v
    by (intro demo_stuck) blast
qed

text \<open>
  A graceful stop can strand a retry: the sentinel is queued before the retry of an event in flight, the consumer returns at the
  sentinel, and the retry stays in the queue, neither processed nor dead-lettered, so the drain only ends by its timeout.
\<close>

theorem graceful_stop_strands_retry:
  "\<exists>w. worker_reachable demo_es (demo_cfg 0) failing mes_empty () w \<and> wk_stopping w \<and> 0 < wk_unfinished w \<and>
     map en_id (in_queue w) = [''e1''] \<and> mes_status (wk_store w) ''e1'' = Some ''failed'' \<and>
     (\<forall>v. \<not> worker_internal demo_es (demo_cfg 0) failing w v)"
proof (intro exI conjI allI)
  show "demo_reach 0 (demo_stranded 0)" by (rule demo_stranded_reachable)
  show "wk_stopping (demo_stranded 0)" by code_simp
  show "0 < wk_unfinished (demo_stranded 0)" by code_simp
  show "map en_id (in_queue (demo_stranded 0)) = [''e1'']" by code_simp
  show "mes_status (wk_store (demo_stranded 0)) ''e1'' = Some ''failed''" by code_simp
  have "wk_consumers (demo_stranded 0) = [Exited] \<and> wk_putters (demo_stranded 0) = []" by code_simp
  then show "\<not> worker_internal demo_es (demo_cfg 0) failing (demo_stranded 0) v" for v
    by (intro demo_stuck) blast
qed

end
