(* ===== verification/Bus_Memory.thy ===== *)
theory Bus_Memory
  imports Bus_Worker
begin

section \<open>The in-process event bus\<close>

text \<open>
  \<^verbatim>\<open>claude_ai/bus/memory.py\<close>: a registry, a middleware stack and either a worker pool or,
  in inline mode, a dispatch in the task of the publisher. The state \<open>'w\<close> is what the handlers act on: in worker mode it is the
  world of the worker. The identity and the time of a new envelope are arguments.
\<close>

record ('h, 'm, 's, 'w) memory_bus =
  mb_registry :: "'h registry"
  mb_middleware :: "'m middleware_manager"
  mb_worker :: "('s, 'w) worker option"   \<comment> \<open>\<open>None\<close> in inline mode\<close>
  mb_store :: 's                          \<comment> \<open>the store of the inline mode\<close>
  mb_world :: 'w                          \<comment> \<open>the state of the handlers in inline mode\<close>
  mb_closed :: bool

definition bus_init :: "string \<Rightarrow> 's \<Rightarrow> 'w \<Rightarrow> exn + ('h, 'm, 's, 'w) memory_bus" where
  "bus_init mode s world =
     (if mode \<noteq> ''worker'' \<and> mode \<noteq> ''inline''
      then Inl (Py (ValueError (''unknown mode '' @ repr_str mode @ ''; expected '' @ repr_str ''worker'' @ '' or '' @ repr_str ''inline'')))
      else Inr \<lparr>mb_registry = registry_empty, mb_middleware = \<lparr>mm_scope = ''events'', mm_stack = []\<rparr>,
                mb_worker = (if mode = ''worker'' then Some (worker_init s world) else None),
                mb_store = s, mb_world = world, mb_closed = False\<rparr>)"

definition bus_use :: "('h, 'm, 's, 'w) memory_bus \<Rightarrow> 'm \<Rightarrow> ('h, 'm, 's, 'w) memory_bus" where
  "bus_use b m = b\<lparr>mb_middleware := manager_use (mb_middleware b) m\<rparr>"

definition bus_start :: "worker_config \<Rightarrow> ('h, 'm, 's, 'w) memory_bus \<Rightarrow> exn + ('h, 'm, 's, 'w) memory_bus" where
  "bus_start cfg b =
     (if mb_closed b then Inl (EventBusClosedError ''bus already closed'' [])
      else Inr (b\<lparr>mb_worker := map_option (worker_start cfg) (mb_worker b)\<rparr>))"

definition bus_stop_begin :: "bool \<Rightarrow> ('h, 'm, 's, 'w) memory_bus \<Rightarrow> ('h, 'm, 's, 'w) memory_bus" where
  "bus_stop_begin graceful b = b\<lparr>mb_worker := map_option (worker_stop_begin graceful) (mb_worker b)\<rparr>"

definition bus_stop_end :: "('h, 'm, 's, 'w) memory_bus \<Rightarrow> ('h, 'm, 's, 'w) memory_bus" where
  \<comment> \<open>the rest of \<open>stop\<close>, after the drain\<close>
  "bus_stop_end b = b\<lparr>mb_worker := map_option worker_stop_end (mb_worker b), mb_closed := True\<rparr>"

definition bus_subscribe ::
  "('h, 'm, 's, 'w) memory_bus \<Rightarrow> 'h handler_entry \<Rightarrow> 'h entry_ref \<times> ('h, 'm, 's, 'w) memory_bus" where
  "bus_subscribe b en =
     (let (ref, r) = registry_add (mb_registry b) en in (ref, b\<lparr>mb_registry := r\<rparr>))"

definition bus_unsubscribe :: "('h, 'm, 's, 'w) memory_bus \<Rightarrow> 'h entry_ref \<Rightarrow> ('h, 'm, 's, 'w) memory_bus" where
  "bus_unsubscribe b ref = b\<lparr>mb_registry := registry_remove (mb_registry b) ref\<rparr>"

definition inline_settle :: "'s event_store_ops \<Rightarrow> dispatch_result \<Rightarrow> 's \<Rightarrow> 's" where
  \<comment> \<open>what \<open>publish\<close> records after the dispatch\<close>
  "inline_settle es r s =
     (let env = dr_envelope r
      in case dr_middleware_error r of
           Some err \<Rightarrow>
             es_dead_letter es (es_mark_failed es s (en_id env) (middleware_error_str err) (en_attempt env))
               env (middleware_error_str err) None
         | None \<Rightarrow>
             if dr_handler_errors r \<noteq> []
             then es_dead_letter es (es_mark_failed es s (en_id env) (joined_errors r) (en_attempt env))
                    env (joined_errors r) (Some (hr_handler (last (dr_handler_errors r))))
             else es_mark_processed es s (en_id env))"

definition bus_publish ::
  "'s event_store_ops \<Rightarrow> worker_config \<Rightarrow> ('h registry \<Rightarrow> 'm middleware_manager \<Rightarrow> 'w dispatch_fn)
     \<Rightarrow> event \<Rightarrow> string \<Rightarrow> pyfloat \<Rightarrow> ('h, 'm, 's, 'w) memory_bus \<Rightarrow> exn + ('h, 'm, 's, 'w) memory_bus" where
  "bus_publish es cfg disp ev i now b =
     (if mb_closed b
      then Inl (EventBusClosedError ''bus is closed'' [(''event_type'', repr_str (ev_type ev))])
      else (case mb_worker b of
              Some w \<Rightarrow> bind_result (worker_enqueue es cfg (mk_envelope ev i now) w)
                          (\<lambda>w'. Inr (b\<lparr>mb_worker := Some w'\<rparr>))
            | None \<Rightarrow>
                (let env = mk_envelope ev i now;
                     s1 = es_save es (mb_store b) env;
                     (r, world) = disp (mb_registry b) (mb_middleware b) env (mb_world b)
                 in Inr (b\<lparr>mb_world := world, mb_store := inline_settle es r s1\<rparr>))))"

context event_store
begin

lemma inline_settle_status:
  assumes "inv s" and "status s (en_id (dr_envelope r)) \<noteq> None"
  shows "inv (inline_settle es r s)"
    and "status (inline_settle es r s) (en_id (dr_envelope r)) =
      Some (if dispatch_ok r then ''processed'' else ''dead'')"
    and "dead (inline_settle es r s) = dead s @ (if dispatch_ok r then [] else [en_id (dr_envelope r)])"
  using assms
  by (auto simp: inline_settle_def dispatch_ok_def Let_def store_simps split: option.splits)

lemma publish_inline:
  assumes "mb_worker b = None" and "\<not> mb_closed b" and "inv (mb_store b)" and "dispatch_keeps (disp (mb_registry b) (mb_middleware b))"
  shows "\<exists>b'. bus_publish es cfg disp ev i now b = Inr b' \<and> inv (mb_store b') \<and>
    status (mb_store b') i = Some (if dispatch_ok (fst (disp (mb_registry b) (mb_middleware b)
      (mk_envelope ev i now) (mb_world b))) then ''processed'' else ''dead'')"
proof -
  let ?env = "mk_envelope ev i now"
  obtain r world where d: "disp (mb_registry b) (mb_middleware b) ?env (mb_world b) = (r, world)" by fastforce
  have "en_id (dr_envelope r) = i"
    using dispatch_keeps_fields(1) [OF assms(4), of ?env "mb_world b"] d by (simp add: mk_envelope_def)
  moreover have "en_id ?env = i" by (simp add: mk_envelope_def)
  ultimately show ?thesis
    using assms(1-3) inline_settle_status [of "es_save es (mb_store b) ?env" r]
    by (simp add: bus_publish_def d store_simps)
qed

end

subsection \<open>Properties\<close>

text \<open>
  Publishing in inline mode never fails because of a handler: on an open inline bus with the in-memory store \<open>publish\<close> returns,
  and its envelope is recorded as processed when the chain and every handler succeeded and as dead otherwise.
\<close>

theorem inline_publish_settles:
  assumes "mb_worker b = None" and "\<not> mb_closed b" and "mes_inv (mb_store b)"
  shows "\<exists>b'. bus_publish (mes_ops dump) cfg (\<lambda>reg mm. dispatch run sleep mw_run mm reg t0 t1) ev i now b = Inr b' \<and>
    mes_status (mb_store b') i = Some (if dispatch_ok (fst (dispatch run sleep mw_run (mb_middleware b) (mb_registry b) t0 t1
      (mk_envelope ev i now) (mb_world b))) then ''processed'' else ''dead'')"
  using mes.publish_inline [OF assms, of "\<lambda>reg mm. dispatch run sleep mw_run mm reg t0 t1"] dispatch_keeps_dispatch
  by blast

theorem inline_publish_settles_witness:
  "\<exists>b'. bus_publish (mes_ops (\<lambda>e. [])) (demo_cfg 0) (\<lambda>reg mm. dispatch (logged (\<lambda>h k. Inl (NetworkError [] []))) (\<lambda>t w. w) (\<lambda>(m::nat). id) mm reg 1 2)
      (mk_event 0 None BaseBody) ''e1'' 0
      \<lparr>mb_registry = snd (registry_add registry_empty \<lparr>he_name = ''h'', he_handler = (0::nat),
         he_event_type = KStr ''*'', he_retry_attempts = 2, he_retry_backoff = 1, he_metadata = []\<rparr>),
       mb_middleware = \<lparr>mm_scope = ''events'', mm_stack = []\<rparr>, mb_worker = None, mb_store = mes_empty,
       mb_world = [], mb_closed = False\<rparr> = Inr b' \<and>
    mes_status (mb_store b') ''e1'' = Some ''dead''"
proof -
  let ?reg = "snd (registry_add registry_empty \<lparr>he_name = ''h'', he_handler = (0::nat),
         he_event_type = KStr ''*'', he_retry_attempts = 2, he_retry_backoff = 1, he_metadata = []\<rparr>)"
  let ?b = "\<lparr>mb_registry = ?reg, mb_middleware = \<lparr>mm_scope = ''events'', mm_stack = ([] :: nat list)\<rparr>,
       mb_worker = None, mb_store = mes_empty, mb_world = [], mb_closed = False\<rparr>"
  have bad: "\<not> dispatch_ok (fst (dispatch (logged (\<lambda>h k. Inl (NetworkError [] []))) (\<lambda>t w. w) (\<lambda>(m::nat). id)
      \<lparr>mm_scope = ''events'', mm_stack = []\<rparr> ?reg 1 2 (mk_envelope (mk_event 0 None BaseBody) ''e1'' 0) []))"
    by code_simp
  show ?thesis
    using inline_publish_settles [of ?b "\<lambda>e. []" "demo_cfg 0" "logged (\<lambda>h k. Inl (NetworkError [] []))" "\<lambda>t w. w"
        "\<lambda>(m::nat). id" 1 2 "mk_event 0 None BaseBody" "''e1''" 0] bad
    by simp
qed

text \<open>
  A bus that was stopped stays stopped: every later \<open>publish\<close> and \<open>start\<close> raises \<open>EventBusClosedError\<close>, and a worker bus whose
  stop has begun refuses to publish.
\<close>

theorem stopped_bus_refuses:
  "bus_publish es cfg disp ev i now (bus_stop_end b) =
     Inl (EventBusClosedError ''bus is closed'' [(''event_type'', repr_str (ev_type ev))]) \<and>
   bus_start cfg (bus_stop_end b) = Inl (EventBusClosedError ''bus already closed'' []) \<and>
   (\<not> mb_closed b \<and> mb_worker b = Some w \<longrightarrow>
      isl (bus_publish es cfg disp ev i now (bus_stop_begin graceful b)))"
  by (auto simp: bus_publish_def bus_stop_end_def bus_start_def bus_stop_begin_def worker_enqueue_def
      worker_stop_begin_def bind_result_def)

theorem stopped_bus_refuses_witness:
  "isl (bus_publish demo_es (demo_cfg 0) (\<lambda>(reg :: nat registry) (mm :: nat middleware_manager). failing) (mk_event 0 None BaseBody) ''e1'' 0
     (bus_stop_begin True \<lparr>mb_registry = registry_empty, mb_middleware = \<lparr>mm_scope = ''events'', mm_stack = []\<rparr>,
       mb_worker = Some (worker_start (demo_cfg 0) (worker_init mes_empty ())), mb_store = mes_empty,
       mb_world = (), mb_closed = False\<rparr>))"
  using stopped_bus_refuses [of demo_es "demo_cfg 0" "\<lambda>(reg :: nat registry) (mm :: nat middleware_manager). failing" "mk_event 0 None BaseBody"
      "''e1''" 0 "\<lparr>mb_registry = registry_empty, mb_middleware = \<lparr>mm_scope = ''events'', mm_stack = []\<rparr>,
       mb_worker = Some (worker_start (demo_cfg 0) (worker_init mes_empty ())), mb_store = mes_empty,
       mb_world = (), mb_closed = False\<rparr>" "worker_start (demo_cfg 0) (worker_init mes_empty ())" True]
  by simp

end
