(* ===== verification/Pool_Work.thy ===== *)
theory Pool_Work
  imports Batch Bus_Memory
begin

section \<open>Work on the pool\<close>

text \<open>
  The operations with which \<^verbatim>\<open>orchestrator/orchestrator.py\<close> hands work to the executor (\<open>executor\<close>, \<open>map\<close>, \<open>map_prompts\<close>) and to the batches (\<open>batch_runner\<close>), the task function of \<^verbatim>\<open>executor.py\<close> for prompts, and
  the decorator \<open>on\<close> of \<^verbatim>\<open>bus/base.py\<close>. Shown: the bounds of the executor hold for a call of \<open>map\<close> on the orchestrator, whatever the defaults are replaced with, and when a decorated handler
  hears an event.
\<close>

definition or_executor :: "int \<Rightarrow> int \<Rightarrow> account_tier option \<Rightarrow> exec_config" where
  \<comment> \<open>the other two options of \<open>BulkExecutor\<close> keep their defaults\<close>
  "or_executor concurrency_per_account max_attempts min_tier =
     \<lparr>ec_per_account = concurrency_per_account, ec_max_attempts = max_attempts, ec_min_tier = min_tier, ec_max_park_waits = 20, ec_park_wait_cap = 30\<rparr>"

definition or_map ::
  "int \<Rightarrow> int \<Rightarrow> account_tier option \<Rightarrow> 'i affinity_key \<Rightarrow> 'i list \<Rightarrow> 's orchestrator \<Rightarrow> ('s, 'i, 'v) exec_state" where
  \<comment> \<open>up to the first \<open>put\<close>; the steps of the executor follow\<close>
  "or_map per_account attempts min_tier k items o' = exec_start (or_executor per_account attempts min_tier) bulk_executor_init k items o'"

definition send_prompt :: "('c \<Rightarrow> string \<Rightarrow> exn + string) \<Rightarrow> ('c \<Rightarrow> string \<Rightarrow> string \<Rightarrow> exn + 'v) \<Rightarrow> 'c \<Rightarrow> string \<Rightarrow> exn + 'v" where
  \<comment> \<open>the task function of \<open>map_prompts\<close>: a conversation of its own for every prompt\<close>
  "send_prompt create collect client prompt = bind_result (create client prompt) (\<lambda>conv. collect client conv prompt)"

definition or_map_prompts :: "int \<Rightarrow> int \<Rightarrow> account_tier option \<Rightarrow> string list \<Rightarrow> 's orchestrator \<Rightarrow> ('s, string, 'v) exec_state" where
  "or_map_prompts per_account attempts min_tier prompts o' = or_map per_account attempts min_tier NoKey prompts o'"

definition or_batch_run ::
  "(pyfloat \<Rightarrow> string) \<Rightarrow> 's storage_ops \<Rightarrow> pyfloat \<Rightarrow> (batch_item list \<Rightarrow> (batch_item, json) bulk_result list) \<Rightarrow> string \<Rightarrow> json list \<Rightarrow> 's orchestrator
     \<Rightarrow> py_error + batch_job \<times> 's orchestrator" where
  \<comment> \<open>\<open>batch_runner()\<close> without a store of its own: the batch is kept in the storage of the pool\<close>
  "or_batch_run fr st now exec job_id payloads o' =
     map_ok (\<lambda>(job, s). (job, o'\<lparr>or_storage := s\<rparr>)) (batch_run fr st now exec job_id payloads (or_storage o'))"

lemma or_map_bounds:
  assumes "or_inv o'" and "(exec_step st (or_executor n m tier))\<^sup>*\<^sup>* (or_map n m tier k items o') e"
  shows "int (running_on e a) \<le> max 0 n"
    and "WRun s c \<in> set (ex_workers e) \<Longrightarrow> int (at_attempts s) \<le> m \<and> cl_account_id c \<notin> set (at_tried s)"
proof -
  have r: "exec_reachable st (or_executor n m tier) bulk_executor_init k items o' e" using assms(2) by (simp add: exec_reachable_def or_map_def)
  note idle = executor_init_idle [of "or_executor n m tier"]
  show "int (running_on e a) \<le> max 0 n" using reachable_running [OF r assms(1) idle, of a] by (simp add: or_executor_def)
  have "exec_inv (or_executor n m tier) (be_dead_letters bulk_executor_init) (make_tasks k items) e" using exec_reachable_inv [OF r assms(1) idle] .
  then show "int (at_attempts s) \<le> m \<and> cl_account_id c \<notin> set (at_tried s)" if "WRun s c \<in> set (ex_workers e)"
    using that by (auto simp: exec_inv_def list_all_iff or_executor_def)
qed

definition bus_on ::
  "bool \<Rightarrow> 'h handler_entry \<Rightarrow> ('h, 'm, 's, 'w) memory_bus \<times> 'h handler_entry list \<Rightarrow> ('h, 'm, 's, 'w) memory_bus \<times> 'h handler_entry list" where
  \<comment> \<open>the bus and the subscriptions whose tasks wait for the loop\<close>
  "bus_on loop_running en bt =
     (if loop_running then (fst bt, snd bt @ [en]) else (snd (bus_subscribe (fst bt) en), snd bt))"

definition run_subscriptions ::
  "('h, 'm, 's, 'w) memory_bus \<times> 'h handler_entry list \<Rightarrow> ('h, 'm, 's, 'w) memory_bus \<times> 'h handler_entry list" where
  \<comment> \<open>the loop runs the tasks that were created\<close>
  "run_subscriptions bt = (fold (\<lambda>en b. snd (bus_subscribe b en)) (snd bt) (fst bt), [])"

lemma on_in_running_loop:
  \<comment> \<open>inside a running loop the registry is unchanged until the task runs, and an event published before is not seen by the handler\<close>
  "fst (bus_on True en bt) = fst bt"
  "run_subscriptions (bus_on True en (b, [])) = (fst (bus_on False en (b, [])), [])"
  by (simp_all add: bus_on_def run_subscriptions_def)

end
