(* ===== verification/Methods.thy ===== *)
theory Methods
  imports Errors
begin

section \<open>The API methods\<close>

text \<open>
  \<^verbatim>\<open>claude_ai/methods\<close>: the base class that turns a method and its parameters into a request, and the method classes, one
  definition each. A method class applied to its parameters is a \<open>base_method\<close>: its endpoint template, its HTTP verb, the kind of
  its result model, its flags, what \<open>build_params\<close> returns, the files of a multipart upload and the \<open>parse_response\<close> it overrides, if
  it does. A string enum prints as its value. The checks of \<open>__post_init__\<close> are definitions of their own, run by
  the callers that construct the parameters. The catalogue \<open>api_method\<close> collects the classes the package exports; its lemmas
  describe the URL every one of them produces.
\<close>

subsection \<open>The base class\<close>

datatype result_model = NoneModel | BytesModel | PydanticModel | OtherModel

datatype parse_override =
    ParseBase | ParseTitle | ParsePaginated | ParseProjects | ParseVersions | ParseMembers | ParseDocs | ParseFiles | ParseInvites | ParseStyles

record method_params =
  mp_path :: "json dict"
  mp_query :: "json dict"
  mp_body :: "json dict option"
  mp_headers :: "string dict"

record base_method =
  bm_endpoint :: string
  bm_http_method :: string
  bm_model :: result_model
  bm_is_stream :: bool
  bm_is_multipart :: bool
  bm_params :: method_params                              \<comment> \<open>\<open>build_params(params)\<close>\<close>
  bm_files :: "(string \<times> string \<times> string) dict option"    \<comment> \<open>\<open>build_multipart(params)\<close>\<close>
  bm_parse :: parse_override                              \<comment> \<open>the class whose \<open>parse_response\<close> is called\<close>

record method_request =
  mr_url :: string
  mr_query :: "json dict"
  mr_body :: "json dict option"
  mr_headers :: "string dict"

function replace_all :: "string \<Rightarrow> string \<Rightarrow> string \<Rightarrow> string" where
  \<comment> \<open>\<open>s.replace(old, new)\<close> for a non-empty \<open>old\<close>\<close>
  "replace_all old new [] = []"
| "replace_all old new (c # cs) =
     (if old \<noteq> [] \<and> startswith (c # cs) old then new @ replace_all old new (drop (length old) (c # cs))
      else c # replace_all old new cs)"
  by pat_completeness auto
termination
  by (relation "measure (\<lambda>(old, new, s). length s)") (auto simp: Suc_le_eq neq_Nil_conv)

definition build_request :: "(pyfloat \<Rightarrow> string) \<Rightarrow> string \<Rightarrow> base_method \<Rightarrow> method_request" where
  "build_request fr base_url m =
     \<lparr>mr_url = fold (\<lambda>(key, v) url. replace_all (''{'' @ key @ ''}'') (py_str fr v) url) (mp_path (bm_params m)) (base_url @ bm_endpoint m),
      mr_query = mp_query (bm_params m), mr_body = mp_body (bm_params m), mr_headers = mp_headers (bm_params m)\<rparr>"

datatype 'r parsed = PNone | PBytes string | PModel 'r | PModels "'r list" | PRaw json

definition parse_response :: "(json \<Rightarrow> exn + 'r) \<Rightarrow> base_method \<Rightarrow> json \<Rightarrow> exn + 'r parsed" where
  \<comment> \<open>the method of the base class\<close>
  "parse_response model_validate m data =
     (case (data, bm_model m) of
        (JObj d, PydanticModel) \<Rightarrow> bind_result (model_validate data) (\<lambda>r. Inr (PModel r))
      | _ \<Rightarrow> Inr (PRaw data))"

subsection \<open>Overridden response parsers\<close>

definition parse_title :: "(pyfloat \<Rightarrow> string) \<Rightarrow> json \<Rightarrow> exn + 'r parsed" where
  "parse_title fr data =
     (case data of
        JObj d \<Rightarrow> Inr (PRaw (dict_getd d ''title'' (JStr [])))
      | _ \<Rightarrow> Inr (PRaw (JStr (py_str fr data))))"

definition wrap_data :: "json \<Rightarrow> json" where
  \<comment> \<open>the test for a list in the source comes after the test for a dictionary and never succeeds\<close>
  "wrap_data data =
     (case data of
        JObj d \<Rightarrow> if dict_get d ''data'' = None then JObj [(''data'', JList [data])] else data
      | _ \<Rightarrow> data)"

definition parse_conversations :: "(json \<Rightarrow> exn + 'r) \<Rightarrow> json \<Rightarrow> exn + 'r parsed" where
  "parse_conversations model_validate data = bind_result (model_validate (wrap_data data)) (\<lambda>r. Inr (PModel r))"

definition parse_projects :: "(json \<Rightarrow> exn + 'r) \<Rightarrow> json \<Rightarrow> exn + 'r parsed" where
  "parse_projects model_validate data = bind_result (model_validate (wrap_data data)) (\<lambda>r. Inr (PModel r))"

fun py_iter :: "json \<Rightarrow> exn + json list" where
  \<comment> \<open>what a \<open>for\<close> loop over the value visits\<close>
  "py_iter (JList xs) = Inr xs"
| "py_iter (JObj d) = Inr (map JStr (dict_keys d))"
| "py_iter (JStr s) = Inr (map (\<lambda>c. JStr [c]) s)"
| "py_iter JNull = Inl (Py (TypeError ([CHR 0x27] @ ''NoneType' object is not iterable'')))"
| "py_iter (JBool b) = Inl (Py (TypeError ([CHR 0x27] @ ''bool' object is not iterable'')))"
| "py_iter (JInt i) = Inl (Py (TypeError ([CHR 0x27] @ ''int' object is not iterable'')))"
| "py_iter (JFloat x) = Inl (Py (TypeError ([CHR 0x27] @ ''float' object is not iterable'')))"

definition parse_versions :: "(json \<Rightarrow> exn + 'r) \<Rightarrow> json \<Rightarrow> exn + 'r parsed" where
  "parse_versions model_validate data =
     bind_result (case data of JObj d \<Rightarrow> py_iter (dict_getd d ''artifact_versions'' (JList [])) | _ \<Rightarrow> Inr [])
       (\<lambda>items. bind_result (map_result model_validate items) (\<lambda>rs. Inr (PModels rs)))"

definition parse_docs :: "(json \<Rightarrow> exn + 'r) \<Rightarrow> json \<Rightarrow> exn + 'r parsed" where
  "parse_docs model_validate data =
     bind_result (map_result model_validate (case data of JList xs \<Rightarrow> xs | _ \<Rightarrow> [])) (\<lambda>rs. Inr (PModels rs))"

definition parse_members :: "json \<Rightarrow> exn + 'r parsed" where
  "parse_members data =
     Inr (PRaw (case data of JList xs \<Rightarrow> JList xs | _ \<Rightarrow> JList (if truthy data then [data] else [])))"

definition parse_files :: "json \<Rightarrow> exn + 'r parsed" where
  "parse_files data =
     Inr (PRaw (case data of JList xs \<Rightarrow> JList xs | _ \<Rightarrow> JList (if truthy data then [data] else [])))"

definition parse_invites :: "json \<Rightarrow> exn + 'r parsed" where
  "parse_invites data = Inr (PRaw (case data of JList xs \<Rightarrow> JList xs | _ \<Rightarrow> JList []))"

definition parse_styles :: "(json \<Rightarrow> exn + 'r) \<Rightarrow> json \<Rightarrow> exn + 'r parsed" where
  \<comment> \<open>the adapter validates the whole list at once\<close>
  "parse_styles model_validate data =
     (let styles = (\<lambda>d k. case dict_get d k of Some (JList xs) \<Rightarrow> xs | _ \<Rightarrow> []);
          data' = (case data of JObj d \<Rightarrow> JList (styles d ''defaultStyles'' @ styles d ''customStyles'') | _ \<Rightarrow> data)
      in bind_result (model_validate data') (\<lambda>r. Inr (PModel r)))"

definition call_parse_response :: "(pyfloat \<Rightarrow> string) \<Rightarrow> (json \<Rightarrow> exn + 'r) \<Rightarrow> base_method \<Rightarrow> json \<Rightarrow> exn + 'r parsed" where
  \<comment> \<open>\<open>method.parse_response(data)\<close>, by the class of the method\<close>
  "call_parse_response fr model_validate m data =
     (case bm_parse m of
        ParseBase \<Rightarrow> parse_response model_validate m data
      | ParseTitle \<Rightarrow> parse_title fr data
      | ParsePaginated \<Rightarrow> parse_conversations model_validate data
      | ParseProjects \<Rightarrow> parse_projects model_validate data
      | ParseVersions \<Rightarrow> parse_versions model_validate data
      | ParseMembers \<Rightarrow> parse_members data
      | ParseDocs \<Rightarrow> parse_docs model_validate data
      | ParseFiles \<Rightarrow> parse_files data
      | ParseInvites \<Rightarrow> parse_invites data
      | ParseStyles \<Rightarrow> parse_styles model_validate data)"

subsection \<open>Values of parameters\<close>

datatype source_app = CLAUDE | CONSOLE

fun source_app_value :: "source_app \<Rightarrow> string" where
  "source_app_value CLAUDE = ''claude''"
| "source_app_value CONSOLE = ''console''"

datatype credential_method = NONCE | CODE

fun credential_method_value :: "credential_method \<Rightarrow> string" where
  "credential_method_value NONCE = ''nonce''"
| "credential_method_value CODE = ''code''"

datatype billing_plan = PRO | MAX_5X | MAX_20X

fun billing_plan_value :: "billing_plan \<Rightarrow> string" where
  "billing_plan_value PRO = ''pro''"
| "billing_plan_value MAX_5X = ''max_5x''"
| "billing_plan_value MAX_20X = ''max_20x''"

datatype consent_variant = NOTICES

fun consent_variant_value :: "consent_variant \<Rightarrow> string" where
  "consent_variant_value NOTICES = ''notices''"

datatype eligibility_check = TEAM_VOUCHER | TEAM_TRIAL_EXPOSURE

fun eligibility_check_value :: "eligibility_check \<Rightarrow> string" where
  "eligibility_check_value TEAM_VOUCHER = ''voucher-eligible''"
| "eligibility_check_value TEAM_TRIAL_EXPOSURE = ''exposure-eligible''"

datatype billing_interval = MONTHLY | YEARLY

fun billing_interval_value :: "billing_interval \<Rightarrow> string" where
  "billing_interval_value MONTHLY = ''monthly''"
| "billing_interval_value YEARLY = ''yearly''"

definition given :: "string \<Rightarrow> ('a \<Rightarrow> json) \<Rightarrow> 'a option \<Rightarrow> json dict" where
  \<comment> \<open>an entry that is made only when the parameter is not \<open>None\<close>\<close>
  "given k f v = (case v of None \<Rightarrow> [] | Some x \<Rightarrow> [(k, f x)])"

definition or_null :: "string option \<Rightarrow> json" where
  "or_null v = (case v of None \<Rightarrow> JNull | Some s \<Rightarrow> JStr s)"

definition none_if_empty :: "json dict \<Rightarrow> json dict option" where
  "none_if_empty d = (if d = [] then None else Some d)"

definition no_params :: method_params where
  "no_params = \<lparr>mp_path = [], mp_query = [], mp_body = None, mp_headers = []\<rparr>"

definition http_api :: "string \<Rightarrow> string \<Rightarrow> result_model \<Rightarrow> method_params \<Rightarrow> base_method" where
  \<comment> \<open>a class with these attributes and this \<open>build_params\<close>, and nothing else overridden\<close>
  "http_api endpoint verb model params =
     \<lparr>bm_endpoint = endpoint, bm_http_method = verb, bm_model = model, bm_is_stream = False, bm_is_multipart = False, bm_params = params,
       bm_files = None, bm_parse = ParseBase\<rparr>"

subsection \<open>Conversations\<close>

definition CreateConversation :: "string \<Rightarrow> string \<Rightarrow> string \<Rightarrow> string \<Rightarrow> bool \<Rightarrow> bool \<Rightarrow> base_method" where
  "CreateConversation org_uuid uuid name model include_conversation_preferences is_temporary =
     http_api ''/api/organizations/{org_uuid}/chat_conversations'' ''POST'' PydanticModel
       (no_params\<lparr>mp_path := [(''org_uuid'', JStr org_uuid)],
          mp_body := Some [(''uuid'', JStr uuid), (''name'', JStr name), (''model'', JStr model),
            (''include_conversation_preferences'', JBool include_conversation_preferences), (''is_temporary'', JBool is_temporary)]\<rparr>)"

definition DeleteConversation :: "string \<Rightarrow> string \<Rightarrow> base_method" where
  "DeleteConversation org_uuid conv_uuid =
     http_api ''/api/organizations/{org_uuid}/chat_conversations/{conv_uuid}'' ''DELETE'' NoneModel
       (no_params\<lparr>mp_path := [(''org_uuid'', JStr org_uuid), (''conv_uuid'', JStr conv_uuid)]\<rparr>)"

definition DeleteMany :: "string \<Rightarrow> string list \<Rightarrow> base_method" where
  "DeleteMany org_uuid conversation_uuids =
     http_api ''/api/organizations/{org_uuid}/chat_conversations/delete_many'' ''POST'' NoneModel
       (no_params\<lparr>mp_path := [(''org_uuid'', JStr org_uuid)],
          mp_body := Some [(''conversation_uuids'', JList (map JStr conversation_uuids))]\<rparr>)"

definition GenerateTitle :: "string \<Rightarrow> string \<Rightarrow> string \<Rightarrow> string list option \<Rightarrow> base_method" where
  "GenerateTitle org_uuid conv_uuid message_content recent_titles =
     (http_api ''/api/organizations/{org_uuid}/chat_conversations/{conv_uuid}/title'' ''POST'' OtherModel
       (no_params\<lparr>mp_path := [(''org_uuid'', JStr org_uuid), (''conv_uuid'', JStr conv_uuid)],
          mp_body := Some [(''message_content'', JStr message_content), (''recent_titles'', JList (case recent_titles of None \<Rightarrow> [] | Some ts \<Rightarrow> map JStr ts))]\<rparr>))\<lparr>bm_parse := ParseTitle\<rparr>"

definition GetConversation :: "string \<Rightarrow> string \<Rightarrow> bool \<Rightarrow> bool \<Rightarrow> string \<Rightarrow> string option \<Rightarrow> base_method" where
  "GetConversation org_uuid conv_uuid tree render_all_tools rendering_mode consistency =
     http_api ''/api/organizations/{org_uuid}/chat_conversations/{conv_uuid}'' ''GET'' PydanticModel
       (no_params\<lparr>mp_path := [(''org_uuid'', JStr org_uuid), (''conv_uuid'', JStr conv_uuid)],
          mp_query := [(''tree'', JBool tree), (''render_all_tools'', JBool render_all_tools), (''rendering_mode'', JStr rendering_mode)]
            @ given ''consistency'' JStr consistency\<rparr>)"

definition ListConversations :: "string \<Rightarrow> int \<Rightarrow> bool option \<Rightarrow> string option \<Rightarrow> base_method" where
  "ListConversations org_uuid limit starred consistency =
     (http_api ''/api/organizations/{org_uuid}/chat_conversations_v2'' ''GET'' PydanticModel
       (no_params\<lparr>mp_path := [(''org_uuid'', JStr org_uuid)],
          mp_query := (''limit'', JInt limit) # given ''starred'' JBool starred @ given ''consistency'' JStr consistency\<rparr>))\<lparr>bm_parse := ParsePaginated\<rparr>"

record send_message_params =
  sm_org_uuid :: string
  sm_conv_uuid :: string
  sm_prompt :: string
  sm_model :: string
  sm_timezone :: string
  sm_locale :: string
  sm_rendering_mode :: string
  sm_attachments :: "json list"
  sm_files :: "json list"
  sm_sync_sources :: "json list"
  sm_personalized_styles :: "json list"
  sm_tools :: "json list"
  sm_human_message_uuid :: string
  sm_assistant_message_uuid :: string

definition send_message_post_init :: "send_message_params \<Rightarrow> exn + send_message_params" where
  "send_message_post_init p =
     (if (sm_human_message_uuid p \<noteq> []) \<noteq> (sm_assistant_message_uuid p \<noteq> [])
      then Inl (Py (ValueError ''Both human_message_uuid and assistant_message_uuid must be set or both empty''))
      else Inr p)"

definition SendMessage :: "send_message_params \<Rightarrow> base_method" where
  "SendMessage p =
     (http_api ''/api/organizations/{org_uuid}/chat_conversations/{conv_uuid}/completion'' ''POST'' OtherModel
       (no_params\<lparr>mp_path := [(''org_uuid'', JStr (sm_org_uuid p)), (''conv_uuid'', JStr (sm_conv_uuid p))],
          mp_body := Some
            ([(''prompt'', JStr (sm_prompt p)), (''model'', JStr (sm_model p)), (''timezone'', JStr (sm_timezone p)),
              (''locale'', JStr (sm_locale p)), (''rendering_mode'', JStr (sm_rendering_mode p)),
              (''attachments'', JList (sm_attachments p)), (''files'', JList (sm_files p)),
              (''sync_sources'', JList (sm_sync_sources p)), (''personalized_styles'', JList (sm_personalized_styles p)),
              (''tools'', JList (sm_tools p))]
             @ (if sm_human_message_uuid p \<noteq> [] \<and> sm_assistant_message_uuid p \<noteq> []
                then [(''turn_message_uuids'', JObj [(''human_message_uuid'', JStr (sm_human_message_uuid p)),
                        (''assistant_message_uuid'', JStr (sm_assistant_message_uuid p))])]
                else [])),
          mp_headers := [(''referer'', ''https://claude.ai/chat/'' @ sm_conv_uuid p)]\<rparr>))\<lparr>bm_is_stream := True\<rparr>"

definition UpdateConversation :: "string \<Rightarrow> string \<Rightarrow> string option \<Rightarrow> string option \<Rightarrow> base_method" where
  "UpdateConversation org_uuid conv_uuid name project_uuid =
     http_api ''/api/organizations/{org_uuid}/chat_conversations/{conv_uuid}'' ''PUT'' NoneModel
       (no_params\<lparr>mp_path := [(''org_uuid'', JStr org_uuid), (''conv_uuid'', JStr conv_uuid)],
          mp_body := Some (given ''name'' JStr name @ given ''project_uuid'' JStr project_uuid)\<rparr>)"

definition delete_many_post_init :: "string list \<Rightarrow> exn + string list" where
  "delete_many_post_init conversation_uuids =
     (if conversation_uuids = [] then Inl (Py (ValueError ''conversation_uuids must not be empty'')) else Inr conversation_uuids)"

subsection \<open>Artifacts\<close>

definition DownloadFile :: "string \<Rightarrow> string \<Rightarrow> string \<Rightarrow> base_method" where
  "DownloadFile org_uuid conv_uuid path =
     http_api ''/api/organizations/{org_uuid}/conversations/{conv_uuid}/wiggle/download-file'' ''GET'' BytesModel
       (no_params\<lparr>mp_path := [(''org_uuid'', JStr org_uuid), (''conv_uuid'', JStr conv_uuid)],
          mp_query := [(''path'', JStr path)]\<rparr>)"

definition GetVersions :: "string \<Rightarrow> string \<Rightarrow> string option \<Rightarrow> base_method" where
  "GetVersions org_uuid conv_uuid source =
     (http_api ''/api/organizations/{org_uuid}/artifacts/{conv_uuid}/versions'' ''GET'' OtherModel
       (no_params\<lparr>mp_path := [(''org_uuid'', JStr org_uuid), (''conv_uuid'', JStr conv_uuid)],
          mp_query := given ''source'' JStr source\<rparr>))\<lparr>bm_parse := ParseVersions\<rparr>"

definition upload_file_post_init :: "string \<Rightarrow> string \<Rightarrow> exn + string \<times> string" where
  "upload_file_post_init file_content file_name =
     (if file_content = [] then Inl (Py (ValueError ''file_content must not be empty''))
      else if file_name = [] then Inl (Py (ValueError ''file_name must not be empty''))
      else Inr (file_content, file_name))"

definition UploadFile :: "(string \<Rightarrow> string option) \<Rightarrow> string \<Rightarrow> string \<Rightarrow> string \<Rightarrow> string \<Rightarrow> base_method" where
  \<comment> \<open>\<open>guess_type\<close> is the first component of \<open>mimetypes.guess_type\<close>\<close>
  "UploadFile guess_type org_uuid conv_uuid file_content file_name =
     (http_api ''/api/organizations/{org_uuid}/conversations/{conv_uuid}/wiggle/upload-file'' ''POST'' PydanticModel
       (no_params\<lparr>mp_path := [(''org_uuid'', JStr org_uuid), (''conv_uuid'', JStr conv_uuid)]\<rparr>))\<lparr>bm_is_multipart := True, bm_files := Some [(''file'', (file_name, file_content, or_default (guess_type file_name) ''application/octet-stream''))]\<rparr>"

subsection \<open>Projects\<close>

definition AddDoc :: "string \<Rightarrow> string \<Rightarrow> string \<Rightarrow> string \<Rightarrow> base_method" where
  "AddDoc org_uuid project_uuid file_name content =
     http_api ''/api/organizations/{org_uuid}/projects/{project_uuid}/docs'' ''POST'' PydanticModel
       (no_params\<lparr>mp_path := [(''org_uuid'', JStr org_uuid), (''project_uuid'', JStr project_uuid)],
          mp_body := Some [(''file_name'', JStr file_name), (''content'', JStr content)]\<rparr>)"

definition GetProjectConversations :: "string \<Rightarrow> string \<Rightarrow> int \<Rightarrow> int \<Rightarrow> base_method" where
  "GetProjectConversations org_uuid project_uuid limit offset =
     http_api ''/api/organizations/{org_uuid}/projects/{project_uuid}/conversations_v2'' ''GET'' PydanticModel
       (no_params\<lparr>mp_path := [(''org_uuid'', JStr org_uuid), (''project_uuid'', JStr project_uuid)],
          mp_query := [(''limit'', JInt limit), (''offset'', JInt offset)]\<rparr>)"

definition GetKBStats :: "string \<Rightarrow> string \<Rightarrow> base_method" where
  "GetKBStats org_uuid project_uuid =
     http_api ''/api/organizations/{org_uuid}/projects/{project_uuid}/kb/stats'' ''GET'' PydanticModel
       (no_params\<lparr>mp_path := [(''org_uuid'', JStr org_uuid), (''project_uuid'', JStr project_uuid)]\<rparr>)"

definition GetMembers :: "string \<Rightarrow> string \<Rightarrow> base_method" where
  "GetMembers org_uuid project_uuid =
     (http_api ''/api/organizations/{org_uuid}/projects/{project_uuid}/accounts'' ''GET'' OtherModel
       (no_params\<lparr>mp_path := [(''org_uuid'', JStr org_uuid), (''project_uuid'', JStr project_uuid)]\<rparr>))\<lparr>bm_parse := ParseMembers\<rparr>"

definition GetPermissions :: "string \<Rightarrow> string \<Rightarrow> base_method" where
  "GetPermissions org_uuid project_uuid =
     http_api ''/api/organizations/{org_uuid}/projects/{project_uuid}/permissions'' ''GET'' PydanticModel
       (no_params\<lparr>mp_path := [(''org_uuid'', JStr org_uuid), (''project_uuid'', JStr project_uuid)]\<rparr>)"

definition GetProject :: "string \<Rightarrow> string \<Rightarrow> base_method" where
  "GetProject org_uuid project_uuid =
     http_api ''/api/organizations/{org_uuid}/projects/{project_uuid}'' ''GET'' PydanticModel
       (no_params\<lparr>mp_path := [(''org_uuid'', JStr org_uuid), (''project_uuid'', JStr project_uuid)]\<rparr>)"

definition ListDocs :: "string \<Rightarrow> string \<Rightarrow> base_method" where
  "ListDocs org_uuid project_uuid =
     (http_api ''/api/organizations/{org_uuid}/projects/{project_uuid}/docs'' ''GET'' OtherModel
       (no_params\<lparr>mp_path := [(''org_uuid'', JStr org_uuid), (''project_uuid'', JStr project_uuid)]\<rparr>))\<lparr>bm_parse := ParseDocs\<rparr>"

definition ListFiles :: "string \<Rightarrow> string \<Rightarrow> base_method" where
  "ListFiles org_uuid project_uuid =
     (http_api ''/api/organizations/{org_uuid}/projects/{project_uuid}/files'' ''GET'' OtherModel
       (no_params\<lparr>mp_path := [(''org_uuid'', JStr org_uuid), (''project_uuid'', JStr project_uuid)]\<rparr>))\<lparr>bm_parse := ParseFiles\<rparr>"

definition ListProjects :: "string \<Rightarrow> int \<Rightarrow> int \<Rightarrow> string \<Rightarrow> string \<Rightarrow> bool \<Rightarrow> string option \<Rightarrow> base_method" where
  "ListProjects org_uuid limit offset order_by filter_by is_archived search_query =
     (http_api ''/api/organizations/{org_uuid}/projects_v2'' ''GET'' PydanticModel
       (no_params\<lparr>mp_path := [(''org_uuid'', JStr org_uuid)],
          mp_query := [(''limit'', JInt limit), (''offset'', JInt offset), (''order_by'', JStr order_by), (''filter'', JStr filter_by),
             (''is_archived'', JBool is_archived)] @ given ''searchQuery'' JStr search_query\<rparr>))\<lparr>bm_parse := ParseProjects\<rparr>"

definition SyncProject :: "string \<Rightarrow> string \<Rightarrow> base_method" where
  "SyncProject org_uuid project_uuid =
     http_api ''/api/organizations/{org_uuid}/projects/{project_uuid}/sync'' ''POST'' NoneModel
       (no_params\<lparr>mp_path := [(''org_uuid'', JStr org_uuid), (''project_uuid'', JStr project_uuid)]\<rparr>)"

definition UpdateProject :: "string \<Rightarrow> string \<Rightarrow> string option \<Rightarrow> string option \<Rightarrow> bool option \<Rightarrow> base_method" where
  "UpdateProject org_uuid project_uuid name description is_private =
     http_api ''/api/organizations/{org_uuid}/projects/{project_uuid}'' ''PUT'' NoneModel
       (no_params\<lparr>mp_path := [(''org_uuid'', JStr org_uuid), (''project_uuid'', JStr project_uuid)],
          mp_body := none_if_empty (given ''name'' JStr name @ given ''description'' JStr description @ given ''is_private'' JBool is_private)\<rparr>)"

subsection \<open>Authentication\<close>

definition ExchangeNonceForCode :: "string \<Rightarrow> string option \<Rightarrow> credential_method \<Rightarrow> string \<Rightarrow> source_app \<Rightarrow> base_method" where
  "ExchangeNonceForCode nonce encoded_email_address credential loc source =
     http_api ''/api/auth/exchange_nonce_for_code'' ''POST'' PydanticModel
       (no_params\<lparr>mp_body := Some [(''credentials'', JObj ([(''method'', JStr (credential_method_value credential)), (''nonce'', JStr nonce)]
                 @ given ''encoded_email_address'' JStr encoded_email_address)),
              (''locale'', JStr loc), (''source'', JStr (source_app_value source))]\<rparr>)"

definition GetLoginMethods :: "string \<Rightarrow> source_app \<Rightarrow> base_method" where
  "GetLoginMethods email source =
     http_api ''/api/auth/login_methods'' ''GET'' PydanticModel
       (no_params\<lparr>mp_query := [(''email'', JStr email), (''source'', JStr (source_app_value source))]\<rparr>)"

definition SendMagicLink :: "string \<Rightarrow> string \<Rightarrow> source_app \<Rightarrow> int \<Rightarrow> string option \<Rightarrow> string option \<Rightarrow> base_method" where
  "SendMagicLink email_address loc source utc_offset login_intent return_to =
     http_api ''/api/auth/send_magic_link'' ''POST'' PydanticModel
       (no_params\<lparr>mp_body := Some [(''utc_offset'', JInt utc_offset), (''email_address'', JStr email_address), (''login_intent'', or_null login_intent),
              (''locale'', JStr loc), (''return_to'', or_null return_to), (''source'', JStr (source_app_value source))]\<rparr>)"

definition VerifyGoogle :: "string \<Rightarrow> string \<Rightarrow> string \<Rightarrow> source_app \<Rightarrow> string option \<Rightarrow> base_method" where
  "VerifyGoogle code arkose_session_token loc source return_to =
     http_api ''/api/auth/verify_google'' ''POST'' NoneModel
       (no_params\<lparr>mp_body := Some [(''code'', JStr code), (''locale'', JStr loc), (''return_to'', or_null return_to),
              (''arkose_session_token'', JStr arkose_session_token), (''source'', JStr (source_app_value source))]\<rparr>)"

definition VerifyMagicLink :: "credential_method \<Rightarrow> string option \<Rightarrow> string option \<Rightarrow> string option \<Rightarrow> string \<Rightarrow> source_app \<Rightarrow> base_method" where
  "VerifyMagicLink credential nonce encoded_email_address code loc source =
     http_api ''/api/auth/verify_magic_link'' ''POST'' PydanticModel
       (no_params\<lparr>mp_body := Some [(''credentials'', JObj ((''method'', JStr (credential_method_value credential)) # given ''nonce'' JStr nonce
                 @ given ''encoded_email_address'' JStr encoded_email_address @ given ''code'' JStr code)),
              (''locale'', JStr loc), (''source'', JStr (source_app_value source))]\<rparr>)"

subsection \<open>Account\<close>

definition AcceptLegalDocs :: "json dict list \<Rightarrow> base_method" where
  "AcceptLegalDocs acceptances =
     http_api ''/api/account/accept_legal_docs'' ''PUT'' NoneModel
       (no_params\<lparr>mp_body := Some [(''acceptances'', JList (map JObj acceptances))]\<rparr>)"

definition GetAccess :: "string \<Rightarrow> base_method" where
  "GetAccess org_uuid =
     http_api ''/api/organizations/{org_uuid}/my-access'' ''GET'' PydanticModel
       (no_params\<lparr>mp_path := [(''org_uuid'', JStr org_uuid)]\<rparr>)"

definition GetInvites :: "string \<Rightarrow> base_method" where
  "GetInvites account_uuid =
     (http_api ''/api/accounts/{account_uuid}/invites'' ''GET'' OtherModel
       (no_params\<lparr>mp_path := [(''account_uuid'', JStr account_uuid)]\<rparr>))\<lparr>bm_parse := ParseInvites\<rparr>"

definition GetProfile :: "base_method" where
  "GetProfile =
     http_api ''/api/account_profile'' ''GET'' PydanticModel
       no_params"

definition GetRavenEligible :: "base_method" where
  "GetRavenEligible =
     http_api ''/api/account/raven_eligible'' ''GET'' PydanticModel
       no_params"

definition PatchAccountSettings :: "json dict \<Rightarrow> base_method" where
  "PatchAccountSettings settings =
     http_api ''/api/account/settings'' ''PATCH'' NoneModel
       (no_params\<lparr>mp_body := Some settings\<rparr>)"

definition SetEmailConsent :: "bool \<Rightarrow> bool \<Rightarrow> consent_variant \<Rightarrow> base_method" where
  "SetEmailConsent consent accepted_via_checkbox variant =
     http_api ''/api/account/email_consent'' ''PUT'' NoneModel
       (no_params\<lparr>mp_body := Some [(''consent'', JBool consent), (''accepted_via_checkbox'', JBool accepted_via_checkbox),
              (''variant'', JStr (consent_variant_value variant))]\<rparr>)"

definition UpdateProfile :: "string option \<Rightarrow> string option \<Rightarrow> string option \<Rightarrow> base_method" where
  "UpdateProfile work_function loc conversation_preferences =
     http_api ''/api/account_profile'' ''PUT'' PydanticModel
       (no_params\<lparr>mp_body := Some (given ''work_function'' JStr work_function @ given ''locale'' JStr loc
              @ given ''conversation_preferences'' JStr conversation_preferences)\<rparr>)"

definition UpdateAccountSettings :: "json dict \<Rightarrow> base_method" where
  "UpdateAccountSettings settings =
     http_api ''/api/account'' ''PUT'' OtherModel
       (no_params\<lparr>mp_body := Some [(''settings'', JObj settings)]\<rparr>)"

subsection \<open>Billing\<close>

definition CreateStripeIntent :: "string \<Rightarrow> billing_plan \<Rightarrow> string \<Rightarrow> json dict option \<Rightarrow> base_method" where
  "CreateStripeIntent org_uuid plan country billing_address =
     http_api ''/api/stripe/{org_uuid}/intent'' ''POST'' PydanticModel
       (no_params\<lparr>mp_path := [(''org_uuid'', JStr org_uuid)],
          mp_body := Some [(''billingAddress'', JObj (case billing_address of Some (x # xs) \<Rightarrow> x # xs | _ \<Rightarrow> [(''country'', JStr country)])),
              (''plan'', JStr (billing_plan_value plan)), (''country'', JStr country)]\<rparr>)"

definition GetConsumerPricing :: "string \<Rightarrow> string \<Rightarrow> billing_interval \<Rightarrow> base_method" where
  "GetConsumerPricing org_uuid country interval =
     http_api ''/api/billing/{org_uuid}/consumer_pricing'' ''POST'' PydanticModel
       (no_params\<lparr>mp_path := [(''org_uuid'', JStr org_uuid)],
          mp_body := Some [(''country'', JStr country), (''billingInterval'', JStr (billing_interval_value interval))]\<rparr>)"

definition GetGiftEligibility :: "string \<Rightarrow> base_method" where
  "GetGiftEligibility org_uuid =
     http_api ''/api/billing/{org_uuid}/gift/purchase_eligibility'' ''GET'' PydanticModel
       (no_params\<lparr>mp_path := [(''org_uuid'', JStr org_uuid)]\<rparr>)"

definition GetPlanPricing :: "string \<Rightarrow> string \<Rightarrow> base_method" where
  "GetPlanPricing org_uuid country =
     http_api ''/api/billing/{org_uuid}/individual_plan_pricing/v2'' ''POST'' PydanticModel
       (no_params\<lparr>mp_path := [(''org_uuid'', JStr org_uuid)],
          mp_body := Some [(''address'', JObj [(''country'', JStr country)])]\<rparr>)"

definition GetStripeRegion :: "string \<Rightarrow> string \<Rightarrow> base_method" where
  "GetStripeRegion country organization_uuid =
     http_api ''/api/billing/stripe_region'' ''GET'' PydanticModel
       (no_params\<lparr>mp_query := [(''country'', JStr country), (''organization_uuid'', JStr organization_uuid)]\<rparr>)"

subsection \<open>Bootstrap\<close>

definition GetAppStart :: "string \<Rightarrow> bool \<Rightarrow> base_method" where
  "GetAppStart org_uuid include_system_prompts =
     http_api ''/edge-api/bootstrap/{org_uuid}/app_start'' ''GET'' OtherModel
       (no_params\<lparr>mp_path := [(''org_uuid'', JStr org_uuid)],
          mp_query := [(''statsig_hashing_algorithm'', JStr ''djb2''), (''growthbook_format'', JStr ''sdk''),
             (''include_system_prompts'', JBool include_system_prompts)]\<rparr>)"

definition GetCurrentUserAccess :: "string \<Rightarrow> base_method" where
  "GetCurrentUserAccess org_uuid =
     http_api ''/api/bootstrap/{org_uuid}/current_user_access'' ''GET'' PydanticModel
       (no_params\<lparr>mp_path := [(''org_uuid'', JStr org_uuid)]\<rparr>)"

definition GetEdgeBootstrap :: "bool \<Rightarrow> base_method" where
  "GetEdgeBootstrap include_system_prompts =
     http_api ''/edge-api/bootstrap'' ''GET'' OtherModel
       (no_params\<lparr>mp_query := [(''statsig_hashing_algorithm'', JStr ''djb2''), (''growthbook_format'', JStr ''sdk''),
             (''include_system_prompts'', JBool include_system_prompts)]\<rparr>)"

definition GetMcpBootstrap :: "string \<Rightarrow> base_method" where
  "GetMcpBootstrap org_uuid =
     http_api ''/api/organizations/{org_uuid}/mcp/v2/bootstrap'' ''GET'' OtherModel
       (no_params\<lparr>mp_path := [(''org_uuid'', JStr org_uuid)]\<rparr>)"

subsection \<open>Claude Code and eligibility\<close>

definition GetClaudeCodeSettings :: "string \<Rightarrow> base_method" where
  "GetClaudeCodeSettings org_uuid =
     http_api ''/api/claude_code/organizations/{org_uuid}/user_settings'' ''GET'' OtherModel
       (no_params\<lparr>mp_path := [(''org_uuid'', JStr org_uuid)]\<rparr>)"

definition UpdateClaudeCodeSettings :: "string \<Rightarrow> string dict \<Rightarrow> base_method" where
  "UpdateClaudeCodeSettings org_uuid entries =
     http_api ''/api/claude_code/organizations/{org_uuid}/user_settings'' ''PUT'' PydanticModel
       (no_params\<lparr>mp_path := [(''org_uuid'', JStr org_uuid)],
          mp_body := Some [(''entries'', JObj (map (\<lambda>(k, v). (k, JStr v)) entries))]\<rparr>)"

definition CheckTeamSignupEligibility :: "eligibility_check \<Rightarrow> base_method" where
  "CheckTeamSignupEligibility check =
     http_api ''/api/team-signup/{check}'' ''GET'' PydanticModel
       (no_params\<lparr>mp_path := [(''check'', JStr (eligibility_check_value check))]\<rparr>)"

definition CheckTeamTrialEligibility :: "eligibility_check \<Rightarrow> base_method" where
  "CheckTeamTrialEligibility check =
     http_api ''/api/team-trial/{check}'' ''GET'' PydanticModel
       (no_params\<lparr>mp_path := [(''check'', JStr (eligibility_check_value check))]\<rparr>)"

definition GetReferral :: "base_method" where
  "GetReferral =
     http_api ''/api/referral'' ''GET'' OtherModel
       no_params"

subsection \<open>Organizations\<close>

definition GetCoworkSettings :: "string \<Rightarrow> base_method" where
  "GetCoworkSettings org_uuid =
     http_api ''/api/organizations/{org_uuid}/cowork_settings'' ''GET'' PydanticModel
       (no_params\<lparr>mp_path := [(''org_uuid'', JStr org_uuid)]\<rparr>)"

definition GetCredits :: "string \<Rightarrow> base_method" where
  "GetCredits org_uuid =
     http_api ''/api/organizations/{org_uuid}/prepaid/credits'' ''GET'' PydanticModel
       (no_params\<lparr>mp_path := [(''org_uuid'', JStr org_uuid)]\<rparr>)"

definition GetExperiences :: "string \<Rightarrow> string \<Rightarrow> base_method" where
  "GetExperiences org_uuid loc =
     http_api ''/api/organizations/{org_uuid}/experiences/claude_web'' ''GET'' PydanticModel
       (no_params\<lparr>mp_path := [(''org_uuid'', JStr org_uuid)],
          mp_query := [(''locale'', JStr loc)]\<rparr>)"

definition GetMemory :: "string \<Rightarrow> string option \<Rightarrow> base_method" where
  "GetMemory org_uuid project_uuid =
     http_api ''/api/organizations/{org_uuid}/memory'' ''GET'' PydanticModel
       (no_params\<lparr>mp_path := [(''org_uuid'', JStr org_uuid)],
          mp_query := given ''project_uuid'' JStr project_uuid\<rparr>)"

definition GetMemorySettings :: "string \<Rightarrow> base_method" where
  "GetMemorySettings org_uuid =
     http_api ''/api/organizations/{org_uuid}/memory/settings'' ''GET'' PydanticModel
       (no_params\<lparr>mp_path := [(''org_uuid'', JStr org_uuid)]\<rparr>)"

definition GetModelConfig :: "string \<Rightarrow> string \<Rightarrow> base_method" where
  "GetModelConfig org_uuid model_id =
     http_api ''/api/organizations/{org_uuid}/model_configs/{model_id}'' ''GET'' PydanticModel
       (no_params\<lparr>mp_path := [(''org_uuid'', JStr org_uuid), (''model_id'', JStr model_id)]\<rparr>)"

definition GetNotificationPreferences :: "string \<Rightarrow> base_method" where
  "GetNotificationPreferences org_uuid =
     http_api ''/api/organizations/{org_uuid}/notification/preferences'' ''GET'' PydanticModel
       (no_params\<lparr>mp_path := [(''org_uuid'', JStr org_uuid)]\<rparr>)"

definition GetOrganization :: "string \<Rightarrow> base_method" where
  "GetOrganization org_uuid =
     http_api ''/api/organizations/{org_uuid}'' ''GET'' PydanticModel
       (no_params\<lparr>mp_path := [(''org_uuid'', JStr org_uuid)]\<rparr>)"

definition GetOverageSpendLimit :: "string \<Rightarrow> base_method" where
  "GetOverageSpendLimit org_uuid =
     http_api ''/api/organizations/{org_uuid}/overage_spend_limit'' ''GET'' OtherModel
       (no_params\<lparr>mp_path := [(''org_uuid'', JStr org_uuid)]\<rparr>)"

definition GetPausedSubscription :: "string \<Rightarrow> base_method" where
  "GetPausedSubscription org_uuid =
     http_api ''/api/organizations/{org_uuid}/paused_subscription_details'' ''GET'' PydanticModel
       (no_params\<lparr>mp_path := [(''org_uuid'', JStr org_uuid)]\<rparr>)"

definition GetPaymentMethod :: "string \<Rightarrow> base_method" where
  "GetPaymentMethod org_uuid =
     http_api ''/api/organizations/{org_uuid}/payment_method'' ''GET'' PydanticModel
       (no_params\<lparr>mp_path := [(''org_uuid'', JStr org_uuid)]\<rparr>)"

definition GetPendingDomainClaim :: "string \<Rightarrow> base_method" where
  "GetPendingDomainClaim org_uuid =
     http_api ''/api/organizations/{org_uuid}/pending_domain_claim'' ''GET'' OtherModel
       (no_params\<lparr>mp_path := [(''org_uuid'', JStr org_uuid)]\<rparr>)"

definition GetStyles :: "string \<Rightarrow> base_method" where
  "GetStyles org_uuid =
     (http_api ''/api/organizations/{org_uuid}/list_styles'' ''GET'' OtherModel
       (no_params\<lparr>mp_path := [(''org_uuid'', JStr org_uuid)]\<rparr>))\<lparr>bm_parse := ParseStyles\<rparr>"

definition GetSubscription :: "string \<Rightarrow> base_method" where
  "GetSubscription org_uuid =
     http_api ''/api/organizations/{org_uuid}/subscription_details'' ''GET'' PydanticModel
       (no_params\<lparr>mp_path := [(''org_uuid'', JStr org_uuid)]\<rparr>)"

definition ListDiscoverable :: "base_method" where
  "ListDiscoverable =
     http_api ''/api/organizations/discoverable'' ''GET'' PydanticModel
       no_params"

definition ListMarketplaces :: "string \<Rightarrow> base_method" where
  "ListMarketplaces org_uuid =
     http_api ''/api/organizations/{org_uuid}/marketplaces/list-default-marketplaces'' ''GET'' PydanticModel
       (no_params\<lparr>mp_path := [(''org_uuid'', JStr org_uuid)]\<rparr>)"

definition ListSkills :: "string \<Rightarrow> base_method" where
  "ListSkills org_uuid =
     http_api ''/api/organizations/{org_uuid}/skills/list-skills'' ''GET'' PydanticModel
       (no_params\<lparr>mp_path := [(''org_uuid'', JStr org_uuid)]\<rparr>)"

subsection \<open>Synced sources\<close>

definition GetSyncAuthStatus :: "string \<Rightarrow> string \<Rightarrow> base_method" where
  "GetSyncAuthStatus org_uuid provider =
     http_api ''/api/organizations/{org_uuid}/sync/{provider}/auth'' ''GET'' PydanticModel
       (no_params\<lparr>mp_path := [(''org_uuid'', JStr org_uuid), (''provider'', JStr provider)]\<rparr>)"

definition GetSyncSettings :: "string \<Rightarrow> base_method" where
  "GetSyncSettings org_uuid =
     http_api ''/api/organizations/{org_uuid}/sync/settings'' ''GET'' PydanticModel
       (no_params\<lparr>mp_path := [(''org_uuid'', JStr org_uuid)]\<rparr>)"

subsection \<open>The catalogue\<close>

inductive api_method :: "base_method \<Rightarrow> bool" where
  \<comment> \<open>the method classes that \<^verbatim>\<open>claude_ai/methods\<close> exports, with any parameters\<close>
  "api_method (CreateConversation org_uuid uuid name model include_conversation_preferences is_temporary)"
| "api_method (DeleteConversation org_uuid conv_uuid)"
| "api_method (DeleteMany org_uuid conversation_uuids)"
| "api_method (GenerateTitle org_uuid conv_uuid message_content recent_titles)"
| "api_method (GetConversation org_uuid conv_uuid tree render_all_tools rendering_mode consistency)"
| "api_method (ListConversations org_uuid limit starred consistency)"
| "api_method (SendMessage p)"
| "api_method (UpdateConversation org_uuid conv_uuid name project_uuid)"
| "api_method (DownloadFile org_uuid conv_uuid path)"
| "api_method (GetVersions org_uuid conv_uuid source)"
| "api_method (UploadFile guess_type org_uuid conv_uuid file_content file_name)"
| "api_method (AddDoc org_uuid project_uuid file_name content)"
| "api_method (GetProjectConversations org_uuid project_uuid limit offset)"
| "api_method (GetKBStats org_uuid project_uuid)"
| "api_method (GetMembers org_uuid project_uuid)"
| "api_method (GetPermissions org_uuid project_uuid)"
| "api_method (GetProject org_uuid project_uuid)"
| "api_method (ListDocs org_uuid project_uuid)"
| "api_method (ListFiles org_uuid project_uuid)"
| "api_method (ListProjects org_uuid limit offset order_by filter_by is_archived search_query)"
| "api_method (SyncProject org_uuid project_uuid)"
| "api_method (UpdateProject org_uuid project_uuid name description is_private)"
| "api_method (ExchangeNonceForCode nonce encoded_email_address credential loc source)"
| "api_method (GetLoginMethods email source)"
| "api_method (SendMagicLink email_address loc source utc_offset login_intent return_to)"
| "api_method (VerifyGoogle code arkose_session_token loc source return_to)"
| "api_method (VerifyMagicLink credential nonce encoded_email_address code loc source)"
| "api_method (AcceptLegalDocs acceptances)"
| "api_method (GetAccess org_uuid)"
| "api_method (GetInvites account_uuid)"
| "api_method GetProfile"
| "api_method GetRavenEligible"
| "api_method (PatchAccountSettings settings)"
| "api_method (SetEmailConsent consent accepted_via_checkbox variant)"
| "api_method (UpdateProfile work_function loc conversation_preferences)"
| "api_method (UpdateAccountSettings settings)"
| "api_method (CreateStripeIntent org_uuid plan country billing_address)"
| "api_method (GetConsumerPricing org_uuid country interval)"
| "api_method (GetGiftEligibility org_uuid)"
| "api_method (GetPlanPricing org_uuid country)"
| "api_method (GetStripeRegion country organization_uuid)"
| "api_method (GetAppStart org_uuid include_system_prompts)"
| "api_method (GetCurrentUserAccess org_uuid)"
| "api_method (GetEdgeBootstrap include_system_prompts)"
| "api_method (GetMcpBootstrap org_uuid)"
| "api_method (GetClaudeCodeSettings org_uuid)"
| "api_method (UpdateClaudeCodeSettings org_uuid entries)"
| "api_method (CheckTeamSignupEligibility check)"
| "api_method (CheckTeamTrialEligibility check)"
| "api_method GetReferral"
| "api_method (GetCoworkSettings org_uuid)"
| "api_method (GetCredits org_uuid)"
| "api_method (GetExperiences org_uuid loc)"
| "api_method (GetMemory org_uuid project_uuid)"
| "api_method (GetMemorySettings org_uuid)"
| "api_method (GetModelConfig org_uuid model_id)"
| "api_method (GetNotificationPreferences org_uuid)"
| "api_method (GetOrganization org_uuid)"
| "api_method (GetOverageSpendLimit org_uuid)"
| "api_method (GetPausedSubscription org_uuid)"
| "api_method (GetPaymentMethod org_uuid)"
| "api_method (GetPendingDomainClaim org_uuid)"
| "api_method (GetStyles org_uuid)"
| "api_method (GetSubscription org_uuid)"
| "api_method ListDiscoverable"
| "api_method (ListMarketplaces org_uuid)"
| "api_method (ListSkills org_uuid)"
| "api_method (GetSyncAuthStatus org_uuid provider)"
| "api_method (GetSyncSettings org_uuid)"

lemmas api_method_defs =
  CreateConversation_def DeleteConversation_def DeleteMany_def GenerateTitle_def GetConversation_def ListConversations_def
  SendMessage_def UpdateConversation_def DownloadFile_def GetVersions_def UploadFile_def AddDoc_def
  GetProjectConversations_def GetKBStats_def GetMembers_def GetPermissions_def GetProject_def ListDocs_def
  ListFiles_def ListProjects_def SyncProject_def UpdateProject_def ExchangeNonceForCode_def GetLoginMethods_def
  SendMagicLink_def VerifyGoogle_def VerifyMagicLink_def AcceptLegalDocs_def GetAccess_def GetInvites_def
  GetProfile_def GetRavenEligible_def PatchAccountSettings_def SetEmailConsent_def UpdateProfile_def UpdateAccountSettings_def
  CreateStripeIntent_def GetConsumerPricing_def GetGiftEligibility_def GetPlanPricing_def GetStripeRegion_def GetAppStart_def
  GetCurrentUserAccess_def GetEdgeBootstrap_def GetMcpBootstrap_def GetClaudeCodeSettings_def UpdateClaudeCodeSettings_def CheckTeamSignupEligibility_def
  CheckTeamTrialEligibility_def GetReferral_def GetCoworkSettings_def GetCredits_def GetExperiences_def GetMemory_def
  GetMemorySettings_def GetModelConfig_def GetNotificationPreferences_def GetOrganization_def GetOverageSpendLimit_def GetPausedSubscription_def
  GetPaymentMethod_def GetPendingDomainClaim_def GetStyles_def GetSubscription_def ListDiscoverable_def ListMarketplaces_def
  ListSkills_def GetSyncAuthStatus_def GetSyncSettings_def

subsection \<open>The URL of a method\<close>

text \<open>The reference: an endpoint is a list of path segments, each a literal or one parameter in braces.\<close>

definition path_segments :: "string \<Rightarrow> string list" where
  "path_segments url = tl (split_char (CHR ''/'') url)"

definition join_segments :: "string list \<Rightarrow> string" where
  "join_segments ss = concat (map (\<lambda>s. ''/'' @ s) ss)"

definition hole :: "string \<Rightarrow> string" where
  "hole key = ''{'' @ key @ ''}''"

definition brace_free :: "string \<Rightarrow> bool" where
  "brace_free s = list_all (\<lambda>c. c \<noteq> CHR ''{'' \<and> c \<noteq> CHR ''}'') s"

definition is_hole :: "string \<Rightarrow> bool" where
  "is_hole s = (s = hole (butlast (tl s)) \<and> brace_free (butlast (tl s)))"

definition fill_segment :: "string dict \<Rightarrow> string \<Rightarrow> string" where
  "fill_segment values s = (case filter (\<lambda>(k, v). s = hole k) values of (k, v) # _ \<Rightarrow> v | [] \<Rightarrow> s)"

definition path_values :: "(pyfloat \<Rightarrow> string) \<Rightarrow> base_method \<Rightarrow> string dict" where
  "path_values fr m = map (\<lambda>(k, v). (k, py_str fr v)) (mp_path (bm_params m))"

definition endpoint_ok :: "base_method \<Rightarrow> bool" where
  \<comment> \<open>the parameters of the template are exactly the keys that \<open>build_params\<close> gives\<close>
  "endpoint_ok m \<longleftrightarrow>
     (let ss = path_segments (bm_endpoint m)
      in join_segments ss = bm_endpoint m \<and> list_all (\<lambda>s. brace_free s \<or> is_hole s) ss
         \<and> filter is_hole ss = map (\<lambda>(k, v). hole k) (mp_path (bm_params m)))"

lemma api_endpoint_ok: "api_method m \<Longrightarrow> endpoint_ok m"
  by (induction rule: api_method.induct)
    (simp_all add: api_method_defs http_api_def no_params_def endpoint_ok_def path_segments_def join_segments_def
      brace_free_def is_hole_def hole_def)

lemma brace_free_simps [simp]:
  "brace_free []" "brace_free (s @ t) \<longleftrightarrow> brace_free s \<and> brace_free t"
  "brace_free (c # s) \<longleftrightarrow> c \<noteq> CHR ''{'' \<and> c \<noteq> CHR ''}'' \<and> brace_free s"
  by (simp_all add: brace_free_def)

lemma hole_inject [simp]: "hole k = hole k' \<longleftrightarrow> k = k'"
  by (simp add: hole_def)

lemma hole_not_brace_free [simp]: "\<not> brace_free (hole k)"
  by (simp add: hole_def)

lemma replace_all_skip:
  "brace_free xs \<Longrightarrow> replace_all (hole k) v (xs @ ys) = xs @ replace_all (hole k) v ys"
  by (induction xs) (simp_all add: hole_def)

lemma replace_all_hit: "replace_all (hole k) v (hole k @ ys) = v @ replace_all (hole k) v ys"
proof -
  have "startswith (hole k @ ys) (hole k)" by (simp add: startswith_iff)
  then show ?thesis by (cases "hole k @ ys") (simp_all add: hole_def)
qed

lemma startswith_closed:
  "brace_free k \<Longrightarrow> brace_free k' \<Longrightarrow> startswith (k' @ ''}'' @ ys) (k @ ''}'') \<longleftrightarrow> k = k'"
proof (induction k arbitrary: k')
  case Nil
  then show ?case by (cases k') auto
next
  case (Cons c k)
  then show ?case by (cases k') auto
qed

lemma replace_all_closing: "brace_free s \<Longrightarrow> replace_all (hole k) v (s @ ''}'' @ ys) = s @ ''}'' @ replace_all (hole k) v ys"
  using replace_all_skip [of s k v "''}'' @ ys"] by (simp add: hole_def)

lemma replace_all_miss:
  assumes "brace_free k" "brace_free k'" "k \<noteq> k'"
  shows "replace_all (hole k) v (hole k' @ ys) = hole k' @ replace_all (hole k) v ys"
proof -
  have "\<not> startswith (hole k' @ ys) (hole k)" using startswith_closed [OF assms(1,2)] assms(3) by (simp add: hole_def)
  then show ?thesis using replace_all_closing [OF assms(2), of k v ys] by (simp add: hole_def)
qed

definition put_segment :: "string \<Rightarrow> string \<Rightarrow> string \<Rightarrow> string" where
  "put_segment k v s = (if s = hole k then v else s)"

lemma replace_all_segments:
  assumes "brace_free k" "list_all (\<lambda>s. brace_free s \<or> is_hole s) ss"
  shows "replace_all (hole k) v (join_segments ss) = join_segments (map (put_segment k v) ss)"
  using assms(2)
proof (induction ss)
  case Nil
  then show ?case by (simp add: join_segments_def)
next
  case (Cons s ss)
  have rest: "replace_all (hole k) v (concat (map (\<lambda>s. ''/'' @ s) ss)) = concat (map (\<lambda>s. ''/'' @ s) (map (put_segment k v) ss))"
    using Cons by (simp add: join_segments_def)
  have slash: "replace_all (hole k) v (''/'' @ ys) = ''/'' @ replace_all (hole k) v ys" for ys
    by (rule replace_all_skip) simp
  consider "s = hole k" | "brace_free s" "s \<noteq> hole k" | k' where "s = hole k'" "brace_free k'" "k \<noteq> k'"
    using Cons.prems by (auto simp: is_hole_def)
  then have "replace_all (hole k) v (s @ ys) = put_segment k v s @ replace_all (hole k) v ys" for ys
    by cases (auto simp: put_segment_def replace_all_hit replace_all_skip replace_all_miss assms(1))
  then show ?case using rest slash by (simp add: join_segments_def)
qed

lemma fold_put_brace_free: "brace_free s \<Longrightarrow> fold (\<lambda>(k, v). put_segment k v) values s = s"
  by (induction "values") (auto simp: put_segment_def)

lemma fold_put_fill:
  "\<forall>(k, v) \<in> set values. brace_free v \<Longrightarrow> fold (\<lambda>(k, v). put_segment k v) values s = fill_segment values s"
  by (induction "values") (auto simp: put_segment_def fill_segment_def fold_put_brace_free)

lemma put_segment_ok:
  "brace_free v \<Longrightarrow> list_all (\<lambda>s. brace_free s \<or> is_hole s) ss \<Longrightarrow>
    list_all (\<lambda>s. brace_free s \<or> is_hole s) (map (put_segment k v) ss)"
  by (induction ss) (auto simp: put_segment_def)

lemma fold_replace_segments:
  assumes "brace_free base" and "\<forall>(k, v) \<in> set values. brace_free k \<and> brace_free v"
    and "list_all (\<lambda>s. brace_free s \<or> is_hole s) ss"
  shows "fold (\<lambda>(k, v). replace_all (hole k) v) values (base @ join_segments ss) =
    base @ join_segments (map (fold (\<lambda>(k, v). put_segment k v) values) ss)"
  using assms(2,3)
proof (induction "values" arbitrary: ss)
  case Nil
  then show ?case by simp
next
  case (Cons kv rest)
  obtain k v where kv: "kv = (k, v)" by (cases kv)
  have "replace_all (hole k) v (base @ join_segments ss) = base @ join_segments (map (put_segment k v) ss)"
    using replace_all_skip [OF assms(1)] replace_all_segments [of k ss v] Cons.prems kv by simp
  moreover have "list_all (\<lambda>s. brace_free s \<or> is_hole s) (map (put_segment k v) ss)"
    using put_segment_ok Cons.prems kv by simp
  ultimately show ?case using Cons.IH [of "map (put_segment k v) ss"] Cons.prems kv by (simp add: comp_def)
qed

lemma split_char_append: "c \<notin> set s \<Longrightarrow> split_char c (s @ c # url) = s # split_char c url"
  by (induction s) auto

lemma split_char_literal: "c \<notin> set s \<Longrightarrow> split_char c s = [s]"
  by (induction s) auto

lemma path_segments_join:
  "\<forall>s \<in> set ss. CHR ''/'' \<notin> set s \<Longrightarrow> path_segments (join_segments ss) = ss"
proof (induction ss)
  case Nil
  then show ?case by (simp add: path_segments_def join_segments_def)
next
  case (Cons s ss)
  then show ?case
    by (cases ss) (simp_all add: path_segments_def join_segments_def split_char_append split_char_literal)
qed

lemma fill_segment_cases:
  obtains "fill_segment values s = s" "\<forall>(k, v) \<in> set values. s \<noteq> hole k"
  | k v where "(k, v) \<in> set values" "s = hole k" "fill_segment values s = v"
proof (cases "filter (\<lambda>(k, v). s = hole k) values")
  case Nil
  then show ?thesis using that(1) by (auto simp: fill_segment_def filter_empty_conv)
next
  case (Cons p ps)
  then have "p \<in> set values" "s = hole (fst p)" "fill_segment values s = snd p"
    using Cons_eq_filterD [OF Cons [symmetric]] by (auto simp: fill_segment_def case_prod_beta')
  then show ?thesis using that(2) [of "fst p" "snd p"] by simp
qed

lemma path_values_keys: "map fst (path_values fr m) = dict_keys (mp_path (bm_params m))"
  by (simp add: path_values_def comp_def case_prod_beta')

lemma api_method_body:
  "api_method m \<Longrightarrow> mp_body (bm_params m) = None \<or> bm_http_method m \<in> {''POST'', ''PUT'', ''PATCH''}"
  by (induction rule: api_method.induct) (simp_all add: api_method_defs http_api_def no_params_def)

lemma api_path_keys: "api_method m \<Longrightarrow> k \<in> set (dict_keys (mp_path (bm_params m))) \<Longrightarrow> brace_free k"
  by (induction rule: api_method.induct) (auto simp: api_method_defs http_api_def no_params_def)

lemma build_request_fold:
  "mr_url (build_request fr base m) = fold (\<lambda>(k, v). replace_all (hole k) v) (path_values fr m) (base @ bm_endpoint m)"
proof -
  have "fold (\<lambda>(key, v) url. replace_all (hole key) (py_str fr v) url) d url = 
      fold (\<lambda>(k, v). replace_all (hole k) v) (map (\<lambda>(k, v). (k, py_str fr v)) d) url" for d url
    by (induction d arbitrary: url) auto
  then show ?thesis by (simp add: build_request_def path_values_def hole_def)
qed

lemma api_url:
  assumes "api_method m" and "brace_free base" and "\<forall>(k, v) \<in> set (path_values fr m). brace_free v"
  shows "mr_url (build_request fr base m) =
    base @ join_segments (map (fill_segment (path_values fr m)) (path_segments (bm_endpoint m)))"
proof -
  have ok: "join_segments (path_segments (bm_endpoint m)) = bm_endpoint m"
    "list_all (\<lambda>s. brace_free s \<or> is_hole s) (path_segments (bm_endpoint m))"
    using api_endpoint_ok [OF assms(1)] by (simp_all add: endpoint_ok_def Let_def)
  have keys: "\<forall>(k, v) \<in> set (path_values fr m). brace_free k \<and> brace_free v"
  proof (rule ballI, clarify)
    fix k v
    assume kv: "(k, v) \<in> set (path_values fr m)"
    then have "k \<in> set (dict_keys (mp_path (bm_params m)))" by (force simp: path_values_keys [of fr m, symmetric])
    then show "brace_free k \<and> brace_free v" using api_path_keys [OF assms(1)] assms(3) kv by blast
  qed
  have "fold (\<lambda>(k, v). put_segment k v) (path_values fr m) = fill_segment (path_values fr m)"
    by (rule ext) (rule fold_put_fill [OF assms(3)])
  then show ?thesis
    using fold_replace_segments [OF assms(2) keys ok(2)] unfolding build_request_fold ok(1) by (simp only:)
qed

lemma api_hole_filled:
  assumes "api_method m" and "s \<in> set (path_segments (bm_endpoint m))" and "\<forall>(k, v) \<in> set (path_values fr m). s \<noteq> hole k"
  shows "brace_free s"
proof -
  have ok: "list_all (\<lambda>s. brace_free s \<or> is_hole s) (path_segments (bm_endpoint m))"
    "filter is_hole (path_segments (bm_endpoint m)) = map (\<lambda>(k, v). hole k) (mp_path (bm_params m))"
    using api_endpoint_ok [OF assms(1)] by (simp_all add: endpoint_ok_def Let_def)
  have "\<not> is_hole s"
  proof
    assume "is_hole s"
    then have "s \<in> set (map (\<lambda>(k, v). hole k) (mp_path (bm_params m)))" using assms(2) unfolding ok(2) [symmetric] by simp
    then show False using assms(3) by (auto simp: path_values_def)
  qed
  then show ?thesis using ok(1) assms(2) by (auto simp: list_all_iff)
qed

lemma path_segments_free: "s \<in> set (path_segments url) \<Longrightarrow> CHR ''/'' \<notin> set s"
  using split_char_no_sep list.set_sel(2) split_char_not_empty unfolding path_segments_def by metis

lemma brace_free_join: "\<forall>s \<in> set ss. brace_free s \<Longrightarrow> brace_free (join_segments ss)"
  by (induction ss) (auto simp: join_segments_def)

text \<open>
  C20. Every method of the catalogue addresses its own endpoint: when the path parameters contain no slash and no brace,
  the URL is the base URL followed by the segments of the endpoint template, each parameter replaced by its value and
  nothing else changed; the values never change the number of segments, no placeholder is left, and only POST, PUT and PATCH
  requests have a body.
\<close>

theorem api_request_url:
  assumes "api_method m" and "brace_free base"
    and "\<forall>(k, v) \<in> set (path_values fr m). brace_free v \<and> CHR ''/'' \<notin> set v"
  shows "\<exists>path. mr_url (build_request fr base m) = base @ path \<and> brace_free path \<and>
    path_segments path = map (fill_segment (path_values fr m)) (path_segments (bm_endpoint m)) \<and>
    (mp_body (bm_params m) = None \<or> bm_http_method m \<in> {''POST'', ''PUT'', ''PATCH''})"
proof -
  let ?vs = "path_values fr m" and ?ss = "path_segments (bm_endpoint m)"
  let ?filled = "map (fill_segment ?vs) ?ss"
  have vals: "\<forall>(k, v) \<in> set ?vs. brace_free v" using assms(3) by blast
  have seg: "brace_free (fill_segment ?vs s) \<and> CHR ''/'' \<notin> set (fill_segment ?vs s)" if s: "s \<in> set ?ss" for s
  proof (cases ?vs s rule: fill_segment_cases)
    case 1
    then show ?thesis using api_hole_filled [OF assms(1) s 1(2)] path_segments_free [OF s] by simp
  next
    case (2 k v)
    then show ?thesis using assms(3) by auto
  qed
  have "brace_free (join_segments ?filled)" by (rule brace_free_join) (use seg in auto)
  moreover have "path_segments (join_segments ?filled) = ?filled" by (rule path_segments_join) (use seg in auto)
  ultimately show ?thesis using api_url [OF assms(1,2) vals] api_method_body [OF assms(1)] by blast
qed

theorem api_request_url_witness:
  "\<exists>path. mr_url (build_request (\<lambda>x. []) ''https://claude.ai'' (UpdateProject ''o1'' ''p1'' (Some ''n'') None None)) = ''https://claude.ai'' @ path \<and>
    brace_free path \<and>
    path_segments path = map (fill_segment (path_values (\<lambda>x. []) (UpdateProject ''o1'' ''p1'' (Some ''n'') None None)))
      (path_segments (bm_endpoint (UpdateProject ''o1'' ''p1'' (Some ''n'') None None))) \<and>
    (mp_body (bm_params (UpdateProject ''o1'' ''p1'' (Some ''n'') None None)) = None \<or>
     bm_http_method (UpdateProject ''o1'' ''p1'' (Some ''n'') None None) \<in> {''POST'', ''PUT'', ''PATCH''})"
  by (rule api_request_url, rule api_method.intros)
    (simp_all add: path_values_def UpdateProject_def http_api_def no_params_def)

text \<open>
  Path values are inserted as they are: an organization id that holds a slash makes \<open>GetOrganization\<close> send
  the request of \<open>GetProject\<close>.
\<close>

theorem path_values_not_escaped:
  assumes "brace_free base" and "brace_free org" and "brace_free p"
  shows "build_request fr base (GetOrganization (org @ ''/projects/'' @ p)) = build_request fr base (GetProject org p) \<and>
    bm_http_method (GetOrganization (org @ ''/projects/'' @ p)) = bm_http_method (GetProject org p)"
proof -
  have o: "mr_url (build_request fr base (GetOrganization (org @ ''/projects/'' @ p))) = base @ ''/api/organizations/'' @ org @ ''/projects/'' @ p"
    using api_url [OF api_method.intros(58), of base fr "org @ ''/projects/'' @ p"] assms
    by (simp add: path_values_def GetOrganization_def http_api_def no_params_def path_segments_def fill_segment_def hole_def join_segments_def)
  have p: "mr_url (build_request fr base (GetProject org p)) = base @ ''/api/organizations/'' @ org @ ''/projects/'' @ p"
    using api_url [OF api_method.intros(17), of base fr org p] assms
    by (simp add: path_values_def GetProject_def http_api_def no_params_def path_segments_def fill_segment_def hole_def join_segments_def)
  show ?thesis using o p by (simp add: build_request_def GetOrganization_def GetProject_def http_api_def no_params_def)
qed

theorem path_values_not_escaped_witness:
  "build_request (\<lambda>x. []) ''https://claude.ai'' (GetOrganization (''o'' @ ''/projects/'' @ ''p'')) =
     build_request (\<lambda>x. []) ''https://claude.ai'' (GetProject ''o'' ''p'') \<and>
   bm_http_method (GetOrganization (''o'' @ ''/projects/'' @ ''p'')) = bm_http_method (GetProject ''o'' ''p'')"
  by (rule path_values_not_escaped) simp_all

end
