(* ===== verification/Json_Text.thy ===== *)
theory Json_Text
  imports Prelude
begin

section \<open>JSON text\<close>

text \<open>
  The two functions of Python's \<^verbatim>\<open>json\<close> module the program uses, on the JSON values of the prelude: \<^verbatim>\<open>json.loads\<close> as a
  recursive-descent parser and \<^verbatim>\<open>json.dumps\<close> with its default separators. \<open>NaN\<close>, the infinities and escapes of code
  points from 256 on are outside the model; the digits of floats are the parameter \<open>fr\<close> of the printer. The parser
  runs on fuel, one unit per call; the round trip below shows that twice the length of the text plus one is enough
  for every printed value.
\<close>

subsection \<open>Scanning\<close>

definition json_ws :: "char \<Rightarrow> bool" where
  "json_ws c \<longleftrightarrow> c = CHR '' '' \<or> c = CHR 0x09 \<or> c = CHR 0x0A \<or> c = CHR 0x0D"

definition skip_ws :: "string \<Rightarrow> string" where
  "skip_ws s = dropWhile json_ws s"

definition hex_val :: "char \<Rightarrow> nat option" where
  "hex_val c = (let n = (of_char c :: nat) in
     if 48 \<le> n \<and> n \<le> 57 then Some (n - 48) else if 97 \<le> n \<and> n \<le> 102 then Some (n - 87)
     else if 65 \<le> n \<and> n \<le> 70 then Some (n - 55) else None)"

definition hex4 :: "char \<Rightarrow> char \<Rightarrow> char \<Rightarrow> char \<Rightarrow> char option" where
  "hex4 a b c d =
     (case (hex_val a, hex_val b, hex_val c, hex_val d) of
        (Some w, Some x, Some y, Some z) \<Rightarrow>
          (let n = 4096 * w + 256 * x + 16 * y + z in if n < 256 then Some (char_of n) else None)
      | _ \<Rightarrow> None)"

definition simple_escape :: "char \<Rightarrow> char option" where
  "simple_escape c =
     (if c = CHR 0x22 \<or> c = CHR 0x5C \<or> c = CHR ''/'' then Some c
      else if c = CHR ''b'' then Some (CHR 0x08) else if c = CHR ''f'' then Some (CHR 0x0C)
      else if c = CHR ''n'' then Some (CHR 0x0A) else if c = CHR ''r'' then Some (CHR 0x0D)
      else if c = CHR ''t'' then Some (CHR 0x09) else None)"

fun scan_string :: "string \<Rightarrow> (string \<times> string) option" where
  \<comment> \<open>the rest of a string literal after its opening quote\<close>
  "scan_string [] = None"
| "scan_string (c # cs) =
     (if c = CHR 0x22 then Some ([], cs)
      else if c = CHR 0x5C then
        (case cs of
           [] \<Rightarrow> None
         | e # r \<Rightarrow>
             if e = CHR ''u'' then
               (case r of
                  a # b # d # f # r' \<Rightarrow>
                    (case hex4 a b d f of None \<Rightarrow> None | Some x \<Rightarrow> map_option (\<lambda>(t, q). (x # t, q)) (scan_string r'))
                | _ \<Rightarrow> None)
             else (case simple_escape e of None \<Rightarrow> None | Some x \<Rightarrow> map_option (\<lambda>(t, q). (x # t, q)) (scan_string r)))
      else if (of_char c :: nat) < 32 then None
      else map_option (\<lambda>(t, q). (c # t, q)) (scan_string cs))"

definition scan_frac :: "string \<Rightarrow> string \<times> string" where
  \<comment> \<open>\<open>(\.\d+)?\<close>: the digits, empty when there is no fraction\<close>
  "scan_frac s =
     (case s of
        c # cs \<Rightarrow> if c = CHR ''.'' \<and> takeWhile is_digit cs \<noteq> [] then (takeWhile is_digit cs, dropWhile is_digit cs) else ([], s)
      | [] \<Rightarrow> ([], s))"

definition scan_exp :: "string \<Rightarrow> int option \<times> string" where
  \<comment> \<open>\<open>([eE][-+]?\d+)?\<close>\<close>
  "scan_exp s =
     (case s of
        c # cs \<Rightarrow>
          if c = CHR ''e'' \<or> c = CHR ''E'' then
            (let (sg, t) = scan_sign cs
             in if takeWhile is_digit t \<noteq> [] then (Some (sg * int (decimal_val (takeWhile is_digit t))), dropWhile is_digit t) else (None, s))
          else (None, s)
      | [] \<Rightarrow> (None, s))"

definition scan_int :: "string \<Rightarrow> (string \<times> string) option" where
  \<comment> \<open>\<open>0|[1-9]\d*\<close>\<close>
  "scan_int s =
     (case s of
        [] \<Rightarrow> None
      | c # cs \<Rightarrow> if c = CHR ''0'' then Some ([c], cs) else if is_digit c then Some (takeWhile is_digit s, dropWhile is_digit s) else None)"

definition scan_number :: "string \<Rightarrow> (json \<times> string) option" where
  "scan_number s =
     (let (sg, t) = (case s of c # cs \<Rightarrow> if c = CHR ''-'' then (- 1, cs) else (1 :: int, s) | [] \<Rightarrow> (1, s))
      in case scan_int t of
           None \<Rightarrow> None
         | Some (ds, r) \<Rightarrow>
             (let (fs, r1) = scan_frac r; (e, r2) = scan_exp r1
              in if fs = [] \<and> e = None then Some (JInt (sg * int (decimal_val ds)), r2)
                 else Some (JFloat (scale10 (of_int (sg * int (decimal_val (ds @ fs))))
                              ((case e of None \<Rightarrow> 0 | Some x \<Rightarrow> x) - int (length fs))), r2)))"

definition scan_word :: "string \<Rightarrow> json \<Rightarrow> string \<Rightarrow> (json \<times> string) option" where
  "scan_word w v s = (if startswith s w then Some (v, drop (length w) s) else None)"

subsection \<open>Parsing\<close>

fun parse_value :: "nat \<Rightarrow> string \<Rightarrow> (json \<times> string) option"
and parse_elems :: "nat \<Rightarrow> string \<Rightarrow> (json list \<times> string) option"
and parse_members :: "nat \<Rightarrow> (string \<times> json) list \<Rightarrow> string \<Rightarrow> ((string \<times> json) list \<times> string) option" where
  "parse_value 0 s = None"
| "parse_value (Suc n) s =
     (case s of
        [] \<Rightarrow> None
      | c # cs \<Rightarrow>
          if c = CHR 0x22 then map_option (\<lambda>(t, r). (JStr t, r)) (scan_string cs)
          else if c = CHR ''{'' then
            (let t = skip_ws cs
             in if t \<noteq> [] \<and> hd t = CHR ''}'' then Some (JObj [], tl t)
                else map_option (\<lambda>(ms, r). (JObj ms, r)) (parse_members n [] t))
          else if c = CHR ''['' then
            (let t = skip_ws cs
             in if t \<noteq> [] \<and> hd t = CHR '']'' then Some (JList [], tl t)
                else map_option (\<lambda>(vs, r). (JList vs, r)) (parse_elems n t))
          else if c = CHR ''n'' then scan_word ''null'' JNull s
          else if c = CHR ''t'' then scan_word ''true'' (JBool True) s
          else if c = CHR ''f'' then scan_word ''false'' (JBool False) s
          else scan_number s)"
| "parse_elems 0 s = None"
| "parse_elems (Suc n) s =
     (case parse_value n s of
        None \<Rightarrow> None
      | Some (v, r) \<Rightarrow>
          (case skip_ws r of
             [] \<Rightarrow> None
           | c # cs \<Rightarrow>
               if c = CHR '']'' then Some ([v], cs)
               else if c = CHR '','' then map_option (\<lambda>(vs, q). (v # vs, q)) (parse_elems n (skip_ws cs))
               else None))"
| "parse_members 0 acc s = None"
| "parse_members (Suc n) acc s =
     (case s of
        [] \<Rightarrow> None
      | c # cs \<Rightarrow>
          if c \<noteq> CHR 0x22 then None
          else (case scan_string cs of
                  None \<Rightarrow> None
                | Some (k, r) \<Rightarrow>
                    (case skip_ws r of
                       [] \<Rightarrow> None
                     | d # ds \<Rightarrow>
                         if d \<noteq> CHR '':'' then None
                         else (case parse_value n (skip_ws ds) of
                                 None \<Rightarrow> None
                               | Some (v, r2) \<Rightarrow>
                                   (case skip_ws r2 of
                                      [] \<Rightarrow> None
                                    | e # es \<Rightarrow>
                                        if e = CHR ''}'' then Some (dict_set acc k v, es)
                                        else if e = CHR '','' then parse_members n (dict_set acc k v) (skip_ws es)
                                        else None)))))"

definition json_loads :: "string \<Rightarrow> json option" where
  \<comment> \<open>\<open>None\<close> is the \<open>JSONDecodeError\<close>\<close>
  "json_loads s =
     (case parse_value (2 * length s + 1) (skip_ws s) of
        Some (v, r) \<Rightarrow> if skip_ws r = [] then Some v else None
      | None \<Rightarrow> None)"

subsection \<open>Printing\<close>

definition dump_char :: "char \<Rightarrow> string" where
  \<comment> \<open>\<open>ensure_ascii\<close>: everything outside printable ASCII is escaped\<close>
  "dump_char c =
     (let n = (of_char c :: nat) in
      if n = 34 \<or> n = 92 then [CHR 0x5C, c]
      else if n = 10 then [CHR 0x5C, CHR ''n''] else if n = 13 then [CHR 0x5C, CHR ''r'']
      else if n = 9 then [CHR 0x5C, CHR ''t''] else if n = 12 then [CHR 0x5C, CHR ''f'']
      else if n = 8 then [CHR 0x5C, CHR ''b'']
      else if n < 32 \<or> 126 < n then [CHR 0x5C, CHR ''u'', CHR ''0'', CHR ''0'', hex_digit (n div 16), hex_digit (n mod 16)]
      else [c])"

definition dump_string :: "string \<Rightarrow> string" where
  "dump_string s = [CHR 0x22] @ concat (map dump_char s) @ [CHR 0x22]"

fun json_dumps :: "(pyfloat \<Rightarrow> string) \<Rightarrow> json \<Rightarrow> string" where
  "json_dumps fr JNull = ''null''"
| "json_dumps fr (JBool b) = (if b then ''true'' else ''false'')"
| "json_dumps fr (JInt i) = string_of_int i"
| "json_dumps fr (JFloat r) = fr r"
| "json_dumps fr (JStr s) = dump_string s"
| "json_dumps fr (JList xs) = ''['' @ join '', '' (map (json_dumps fr) xs) @ '']''"
| "json_dumps fr (JObj d) = ''{'' @ join '', '' (map (\<lambda>(k, v). dump_string k @ '': '' @ json_dumps fr v) d) @ ''}''"

definition raw_char :: "char \<Rightarrow> string" where
  \<comment> \<open>\<open>json.dumps(..., ensure_ascii=False)\<close>: only quotes, backslashes and control characters are escaped\<close>
  "raw_char c = (if 127 \<le> (of_char c :: nat) then [c] else dump_char c)"

definition raw_string :: "string \<Rightarrow> string" where
  "raw_string s = [CHR 0x22] @ concat (map raw_char s) @ [CHR 0x22]"

fun json_raw :: "(pyfloat \<Rightarrow> string) \<Rightarrow> json \<Rightarrow> string" where
  "json_raw fr JNull = ''null''"
| "json_raw fr (JBool b) = (if b then ''true'' else ''false'')"
| "json_raw fr (JInt i) = string_of_int i"
| "json_raw fr (JFloat r) = fr r"
| "json_raw fr (JStr s) = raw_string s"
| "json_raw fr (JList xs) = ''['' @ join '', '' (map (json_raw fr) xs) @ '']''"
| "json_raw fr (JObj d) = ''{'' @ join '', '' (map (\<lambda>(k, v). raw_string k @ '': '' @ json_raw fr v) d) @ ''}''"

lemma json_examples:
  "json_loads '' {\"a\": [1, -20, 2.5e1, true, null], \"b\": {}} '' =
     Some (JObj [(''a'', JList [JInt 1, JInt (-20), JFloat 25, JBool True, JNull]), (''b'', JObj [])])"
  "json_loads ''[1,]'' = None" "json_loads ''{'' = None" "json_loads ''01'' = None"
  by code_simp+

subsection \<open>Printed strings and numbers are scanned back\<close>

lemma hex_val_digit: "k < 16 \<Longrightarrow> hex_val (hex_digit k) = Some k"
proof -
  assume k: "k < 16"
  then have "(of_char (hex_digit k) :: nat) = (if k < 10 then 48 + k else 87 + k)" by (simp add: hex_digit_def of_char_of)
  with k show ?thesis by (simp add: hex_val_def Let_def)
qed

lemma hex4_dump: "hex4 (CHR ''0'') (CHR ''0'') (hex_digit (of_char c div 16)) (hex_digit (of_char c mod 16)) = Some c"
proof -
  have d: "(of_char c :: nat) div 16 < 16" using nat_of_char_less_256 [of c] by linarith
  have z: "hex_val (CHR ''0'') = Some 0" by code_simp
  have "16 * (of_char c div 16) + of_char c mod 16 = (of_char c :: nat)" by simp
  moreover have "(of_char c :: nat) mod 16 < 16" by simp
  ultimately show ?thesis unfolding hex4_def z by (simp add: hex_val_digit [OF d] hex_val_digit Let_def)
qed

lemma char_eq_code: "c = d \<longleftrightarrow> (of_char c :: nat) = of_char d"
  by simp

lemma scan_dump_char:
  "scan_string (dump_char c @ t) = map_option (\<lambda>(u, q). (c # u, q)) (scan_string t)"
proof -
  have codes: "(of_char (CHR 0x22) :: nat) = 34" "(of_char (CHR 0x5C) :: nat) = 92" "(of_char (CHR 0x0A) :: nat) = 10"
    "(of_char (CHR 0x0D) :: nat) = 13" "(of_char (CHR 0x09) :: nat) = 9" "(of_char (CHR 0x0C) :: nat) = 12" "(of_char (CHR 0x08) :: nat) = 8"
    by code_simp+
  consider "(of_char c :: nat) \<in> {34, 92, 10, 13, 9, 12, 8}"
    | "(of_char c :: nat) \<notin> {34, 92, 10, 13, 9, 12, 8}" "(of_char c :: nat) < 32 \<or> 126 < (of_char c :: nat)"
    | "(of_char c :: nat) \<notin> {34, 92, 10, 13, 9, 12, 8}" "\<not> ((of_char c :: nat) < 32 \<or> 126 < (of_char c :: nat))"
    by blast
  then show ?thesis
  proof cases
    case 1
    then have "c = CHR 0x22 \<or> c = CHR 0x5C \<or> c = CHR 0x0A \<or> c = CHR 0x0D \<or> c = CHR 0x09 \<or> c = CHR 0x0C \<or> c = CHR 0x08"
      unfolding codes [symmetric] by (metis char_of_char empty_iff insert_iff)
    then show ?thesis by (elim disjE) (simp_all add: dump_char_def simple_escape_def)
  next
    case 2
    then show ?thesis by (simp add: dump_char_def Let_def hex4_dump)
  next
    case 3
    then have "c \<noteq> CHR 0x22" "c \<noteq> CHR 0x5C" using codes by auto
    with 3 show ?thesis by (simp add: dump_char_def Let_def)
  qed
qed

lemma scan_dump_string: "scan_string (concat (map dump_char s) @ CHR 0x22 # r) = Some (s, r)"
  by (induction s) (simp_all add: scan_dump_char)

lemma scan_raw_char: "scan_string (raw_char c @ t) = map_option (\<lambda>(u, q). (c # u, q)) (scan_string t)"
proof (cases "127 \<le> (of_char c :: nat)")
  case True
  then have "c \<noteq> CHR 0x22" "c \<noteq> CHR 0x5C" by auto
  with True show ?thesis by (simp add: raw_char_def)
qed (simp add: raw_char_def scan_dump_char)

definition stops :: "string \<Rightarrow> bool" where
  \<comment> \<open>what may follow a value\<close>
  "stops r \<longleftrightarrow> r = [] \<or> json_ws (hd r) \<or> hd r \<in> {CHR '','', CHR '']'', CHR ''}''}"

lemma is_digit_char_of: "(d :: nat) < 10 \<Longrightarrow> is_digit (char_of (48 + d))"
  by (simp add: is_digit_def Let_def)

lemma string_of_nat_digits: "\<forall>c \<in> set (string_of_nat n). is_digit c"
proof (induction n rule: string_of_nat.induct)
  case (1 n)
  then show ?case by (subst string_of_nat.simps) (auto simp: is_digit_char_of)
qed

lemma string_of_nat_hd: "0 < n \<Longrightarrow> string_of_nat n \<noteq> [] \<and> hd (string_of_nat n) \<noteq> CHR ''0''"
proof (induction n rule: string_of_nat.induct)
  case (1 n)
  show ?case
  proof (cases "n < 10")
    case True
    have "char_of (48 + n) \<noteq> CHR ''0''"
    proof
      assume "char_of (48 + n) = CHR ''0''"
      then have "(of_char (char_of (48 + n) :: char) :: nat) = of_char (CHR ''0'')" by (rule arg_cong)
      then show False using True 1(2) by simp
    qed
    moreover have "string_of_nat n = [char_of (48 + n)]" using True by (subst string_of_nat.simps) simp
    ultimately show ?thesis by auto
  next
    case False
    then have "string_of_nat n = string_of_nat (n div 10) @ [char_of (48 + n mod 10)]" by (subst string_of_nat.simps) simp
    moreover have "0 < n div 10" using False by (simp add: div_greater_zero_iff)
    ultimately show ?thesis using 1(1) [OF False] by (cases "string_of_nat (n div 10)") auto
  qed
qed

lemma string_of_nat_zero: "string_of_nat 0 = [CHR ''0'']"
  by code_simp

lemma stops_no_digit: "stops r \<Longrightarrow> takeWhile is_digit r = [] \<and> dropWhile is_digit r = r"
  by (cases r) (auto simp: stops_def is_digit_def json_ws_def)

lemma scan_int_nat: "stops r \<Longrightarrow> scan_int (string_of_nat n @ r) = Some (string_of_nat n, r)"
proof (cases "n = 0")
  case True
  then show ?thesis by (simp add: scan_int_def string_of_nat_zero)
next
  case False
  assume r: "stops r"
  obtain c cs where s: "string_of_nat n = c # cs" "c \<noteq> CHR ''0''" using string_of_nat_hd [of n] False by (cases "string_of_nat n") auto
  have d: "\<forall>c \<in> set (string_of_nat n). is_digit c" by (rule string_of_nat_digits)
  have "takeWhile is_digit (string_of_nat n @ r) = string_of_nat n" "dropWhile is_digit (string_of_nat n @ r) = r"
    using d stops_no_digit [OF r] by (simp_all add: takeWhile_append2 dropWhile_append2)
  moreover have "is_digit c" using d s by simp
  ultimately show ?thesis using s by (simp add: scan_int_def)
qed

lemma scan_number_int: "stops r \<Longrightarrow> scan_number (string_of_int i @ r) = Some (JInt i, r)"
proof -
  assume r: "stops r"
  have e: "scan_frac r = ([], r)" "scan_exp r = (None, r)"
    using r by (auto simp: scan_frac_def scan_exp_def stops_def json_ws_def split: list.splits)
  have "\<exists>c cs. string_of_nat n = c # cs \<and> c \<noteq> CHR ''-''" for n
    using string_of_nat_digits [of n] string_of_nat_hd [of n] string_of_nat_zero
    by (cases "string_of_nat n"; cases n) (auto simp: is_digit_def)
  then obtain c cs where c: "string_of_nat (nat i) = c # cs" "c \<noteq> CHR ''-''" by blast
  show ?thesis
  proof (cases "i < 0")
    case True
    then show ?thesis by (simp add: scan_number_def string_of_int_def scan_int_nat [OF r] e)
  next
    case False
    have "scan_int (c # cs @ r) = Some (c # cs, r)" using scan_int_nat [OF r, of "nat i"] c(1) by simp
    moreover have "decimal_val (c # cs) = nat i" using decimal_val_of_nat [of "nat i"] c(1) by simp
    ultimately show ?thesis using c False by (simp add: scan_number_def string_of_int_def e)
  qed
qed

subsection \<open>Printed values are parsed back\<close>

fun plain :: "json \<Rightarrow> bool" where
  \<comment> \<open>no floats, and objects without duplicate keys\<close>
  "plain (JFloat r) = False"
| "plain (JList xs) = (\<forall>x \<in> set xs. plain x)"
| "plain (JObj d) = (dict_ok d \<and> (\<forall>p \<in> set d. plain (snd p)))"
| "plain _ = True"

fun dump_first :: "string \<Rightarrow> bool" where
  \<comment> \<open>a value starts neither with white space nor with a closing bracket\<close>
  "dump_first [] = False"
| "dump_first (c # cs) = (\<not> json_ws c \<and> c \<noteq> CHR '']'' \<and> c \<noteq> CHR ''}'')"

lemma string_of_nat_not_empty: "string_of_nat n \<noteq> []"
  by (subst string_of_nat.simps) simp

lemma dump_first_skip: "dump_first s \<Longrightarrow> list_all json_ws w \<Longrightarrow> skip_ws (w @ s @ r) = s @ r"
  by (cases s; induction w) (auto simp: skip_ws_def)

lemma dump_first_no_close: "dump_first s \<Longrightarrow> \<not> (s @ r \<noteq> [] \<and> hd (s @ r) = CHR '']'') \<and> \<not> (s @ r \<noteq> [] \<and> hd (s @ r) = CHR ''}'')"
  by (cases s) auto

lemma skip_ws_at: "list_all json_ws w \<Longrightarrow> \<not> json_ws c \<Longrightarrow> skip_ws (w @ c # r) = c # r"
  by (induction w) (auto simp: skip_ws_def)

lemma not_ws: "\<not> json_ws (CHR '','')" "\<not> json_ws (CHR '']'')" "\<not> json_ws (CHR ''}'')" "\<not> json_ws (CHR '':'')" "\<not> json_ws (CHR 0x22)"
  by (simp_all add: json_ws_def)

lemma stops_ws: "list_all json_ws w \<Longrightarrow> c \<in> {CHR '','', CHR '']'', CHR ''}''} \<Longrightarrow> stops (w @ c # r)"
  by (cases w) (auto simp: stops_def)

definition string_text :: "string \<Rightarrow> string \<Rightarrow> bool" where
  \<comment> \<open>a literal of a string\<close>
  "string_text s t \<longleftrightarrow> (\<exists>u. t = CHR 0x22 # u \<and> (\<forall>r. scan_string (u @ r) = Some (s, r)))"

text \<open>The texts of a value: any white space between the tokens, and any literals of the strings. The texts of elements and members reach to the closing bracket.\<close>

inductive json_text :: "json \<Rightarrow> string \<Rightarrow> bool"
  and elems_text :: "json list \<Rightarrow> string \<Rightarrow> bool"
  and members_text :: "(string \<times> json) list \<Rightarrow> string \<Rightarrow> bool" where
  text_null: "json_text JNull ''null''"
| text_true: "json_text (JBool True) ''true''"
| text_false: "json_text (JBool False) ''false''"
| text_int: "json_text (JInt i) (string_of_int i)"
| text_str: "string_text s t \<Longrightarrow> json_text (JStr s) t"
| text_nil: "json_text (JList []) ''[]''"
| text_list: "list_all json_ws w \<Longrightarrow> elems_text xs t \<Longrightarrow> json_text (JList xs) (CHR ''['' # w @ t)"
| text_empty: "json_text (JObj []) ''{}''"
| text_obj: "list_all json_ws w \<Longrightarrow> dict_ok d \<Longrightarrow> members_text d t \<Longrightarrow> json_text (JObj d) (CHR ''{'' # w @ t)"
| elems_last: "json_text x s \<Longrightarrow> list_all json_ws w \<Longrightarrow> elems_text [x] (s @ w @ '']'')"
| elems_more: "json_text x s \<Longrightarrow> list_all json_ws w \<Longrightarrow> list_all json_ws w' \<Longrightarrow> elems_text xs t \<Longrightarrow> elems_text (x # xs) (s @ w @ CHR '','' # w' @ t)"
| members_last: "string_text k u \<Longrightarrow> json_text v s \<Longrightarrow> list_all json_ws w0 \<Longrightarrow> list_all json_ws w \<Longrightarrow> members_text [(k, v)] (u @ CHR '':'' # w0 @ s @ w @ ''}'')"
| members_more: "string_text k u \<Longrightarrow> json_text v s \<Longrightarrow> list_all json_ws w0 \<Longrightarrow> list_all json_ws w \<Longrightarrow> list_all json_ws w' \<Longrightarrow> members_text d t \<Longrightarrow>
    members_text ((k, v) # d) (u @ CHR '':'' # w0 @ s @ w @ CHR '','' # w' @ t)"

lemma string_of_int_first: "\<exists>c cs. string_of_int i = c # cs \<and> (c = CHR ''-'' \<or> is_digit c)"
proof -
  have "\<exists>c cs. string_of_nat k = c # cs \<and> is_digit c" for k
    using string_of_nat_not_empty [of k] string_of_nat_digits [of k] by (cases "string_of_nat k") auto
  then show ?thesis unfolding string_of_int_def by (metis (full_types) list.exhaust)
qed

lemma text_first: "json_text v s \<Longrightarrow> dump_first s" "elems_text xs t \<Longrightarrow> dump_first t" "members_text d t' \<Longrightarrow> \<exists>u. t' = CHR 0x22 # u"
proof (induction rule: json_text_elems_text_members_text.inducts)
  case (text_int i)
  then show ?case using string_of_int_first [of i] by (auto simp: json_ws_def is_digit_def)
next
  case (elems_last x s w)
  then show ?case by (cases s) auto
next
  case (elems_more x s w w' xs t)
  then show ?case by (cases s) auto
qed (auto simp: string_text_def json_ws_def)

lemma dict_update_new: "dict_ok (acc @ d) \<Longrightarrow> dict_update acc d = acc @ d"
proof (induction d arbitrary: acc)
  case Nil
  then show ?case by (simp add: dict_update_def)
next
  case (Cons p d)
  have "fst p \<notin> fst ` set acc" using Cons.prems by (auto simp: dict_ok_def)
  then have "dict_set acc (fst p) (snd p) = acc @ [p]" by (induction acc) auto
  with Cons show ?case by (simp add: dict_update_def case_prod_unfold)
qed

lemma parse_member_step:
  assumes "string_text k u" and "dump_first s" and "list_all json_ws w0" and "list_all json_ws w"
    and "parse_value m (s @ w @ c # r) = Some (v, w @ c # r)" and "\<not> json_ws c"
  shows "parse_members (Suc m) acc (u @ CHR '':'' # w0 @ s @ w @ c # r) =
    (if c = CHR ''}'' then Some (dict_set acc k v, r) else if c = CHR '','' then parse_members m (dict_set acc k v) (skip_ws r) else None)"
proof -
  obtain q where q: "u = CHR 0x22 # q" "\<And>r. scan_string (q @ r) = Some (k, r)" using assms(1) by (auto simp: string_text_def)
  have "skip_ws (CHR '':'' # t) = CHR '':'' # t" for t by (simp add: skip_ws_def json_ws_def)
  then show ?thesis
    using q(2) [of "CHR '':'' # w0 @ s @ w @ c # r"] dump_first_skip [OF assms(2,3), of "w @ c # r"] assms(5) skip_ws_at [OF assms(4,6), of r]
    by (simp add: q(1))
qed

text \<open>The parser reads every text of a value, with twice its length as fuel.\<close>

lemma parse_text:
  "json_text v s \<Longrightarrow> stops r \<Longrightarrow> 2 * length s \<le> n \<Longrightarrow> parse_value n (s @ r) = Some (v, r)"
  "elems_text xs t \<Longrightarrow> 2 * length t \<le> n \<Longrightarrow> parse_elems n (t @ r) = Some (xs, r)"
  "members_text d t' \<Longrightarrow> 2 * length t' \<le> n \<Longrightarrow> parse_members n acc (t' @ r) = Some (dict_update acc d, r)"
proof (induction arbitrary: r n and r n and r n acc rule: json_text_elems_text_members_text.inducts)
  case text_null
  then show ?case by (cases n) (simp_all add: scan_word_def)
next
  case text_true
  then show ?case by (cases n) (simp_all add: scan_word_def)
next
  case text_false
  then show ?case by (cases n) (simp_all add: scan_word_def)
next
  case (text_int i)
  obtain c cs where c: "string_of_int i = c # cs" "c = CHR ''-'' \<or> is_digit c" using string_of_int_first by blast
  have "c \<noteq> CHR 0x22 \<and> c \<noteq> CHR ''{'' \<and> c \<noteq> CHR ''['' \<and> c \<noteq> CHR ''n'' \<and> c \<noteq> CHR ''t'' \<and> c \<noteq> CHR ''f''"
    using c(2) by (auto simp: is_digit_def)
  then show ?case using text_int scan_number_int [of r i] c(1) by (cases n) simp_all
next
  case (text_str s t)
  then show ?case by (cases n) (auto simp: string_text_def)
next
  case text_nil
  then show ?case by (cases n) (simp_all add: skip_ws_def json_ws_def)
next
  case (text_list w xs t)
  then obtain m where m: "n = Suc m" "2 * length t \<le> m" by (cases n) auto
  show ?case
    using text_list(3) [OF m(2), of r] m(1) dump_first_skip [OF text_first(2) [OF text_list(2)] text_list(1), of r]
      dump_first_no_close [OF text_first(2) [OF text_list(2)], of r]
    by (auto simp: Let_def simp del: append_is_Nil_conv)
next
  case text_empty
  then show ?case by (cases n) (simp_all add: skip_ws_def json_ws_def)
next
  case (text_obj w d t)
  then obtain m where m: "n = Suc m" "2 * length t \<le> m" by (cases n) auto
  obtain u where u: "t = CHR 0x22 # u" using text_first(3) [OF text_obj(3)] by blast
  have "skip_ws (w @ t @ r) = t @ r" using skip_ws_at [OF text_obj(1) not_ws(5), of "u @ r"] u by simp
  then show ?case using text_obj(4) [of m "[]" r] m u dict_update_new [of "[]" d] text_obj(2) by (simp add: Let_def)
next
  case (elems_last x s w)
  then obtain m where m: "n = Suc m" "2 * length s \<le> m" by (cases n) auto
  have "stops (w @ CHR '']'' # r)" using elems_last(2) stops_ws by blast
  with elems_last m show ?case by (simp add: skip_ws_at not_ws)
next
  case (elems_more x s w w' xs t)
  then obtain m where m: "n = Suc m" "2 * length s \<le> m" "2 * length t \<le> m" by (cases n) auto
  have "stops (w @ CHR '','' # w' @ t @ r)" using elems_more(2) stops_ws by blast
  with elems_more m dump_first_skip [OF text_first(2) [OF elems_more(4)] elems_more(3), of r] show ?case by (simp add: skip_ws_at not_ws)
next
  case (members_last k u v s w0 w)
  then obtain m where m: "n = Suc m" "2 * length s \<le> m" by (cases n) auto
  have "stops (w @ CHR ''}'' # r)" using members_last(4) stops_ws by blast
  then have "parse_value m (s @ w @ CHR ''}'' # r) = Some (v, w @ CHR ''}'' # r)" using members_last(5) m by blast
  from parse_member_step [OF members_last(1) text_first(1) [OF members_last(2)] members_last(3,4) this not_ws(3)] m
  show ?case by (simp add: dict_update_def)
next
  case (members_more k u v s w0 w w' d t)
  then obtain m where m: "n = Suc m" "2 * length s \<le> m" "2 * length t \<le> m" by (cases n) auto
  have "stops (w @ CHR '','' # w' @ t @ r)" using members_more(4) stops_ws by blast
  then have v: "parse_value m (s @ w @ CHR '','' # w' @ t @ r) = Some (v, w @ CHR '','' # w' @ t @ r)" using members_more(7) m by blast
  obtain q where q: "t = CHR 0x22 # q" using text_first(3) [OF members_more(6)] by blast
  have "skip_ws (w' @ t @ r) = t @ r" using skip_ws_at [OF members_more(5) not_ws(5), of "q @ r"] q by simp
  with parse_member_step [OF members_more(1) text_first(1) [OF members_more(2)] members_more(3,4) v not_ws(1)] m members_more(8) [of m "dict_set acc k v" r]
  show ?case by (simp add: dict_update_def)
qed

lemma loads_text: "json_text v s \<Longrightarrow> json_loads s = Some v"
  using parse_text(1) [of v s "[]" "2 * length s + 1"] dump_first_skip [OF text_first(1), of v s "[]" "[]"]
  by (simp add: json_loads_def stops_def skip_ws_def)

subsection \<open>What the printer writes is a text of the value\<close>

definition dump_member :: "(pyfloat \<Rightarrow> string) \<Rightarrow> string \<times> json \<Rightarrow> string" where
  "dump_member fr p = dump_string (fst p) @ '': '' @ json_dumps fr (snd p)"

lemma json_dumps_obj: "json_dumps fr (JObj d) = ''{'' @ join '', '' (map (dump_member fr) d) @ ''}''"
  by (simp add: dump_member_def [abs_def] case_prod_unfold)

lemma dump_string_text: "string_text s (dump_string s)"
  using scan_dump_string by (auto simp: string_text_def dump_string_def)

lemma raw_string_text: "string_text s (raw_string s)"
proof -
  have "scan_string (concat (map raw_char s) @ CHR 0x22 # r) = Some (s, r)" for r by (induction s) (simp_all add: scan_raw_char)
  then show ?thesis by (simp add: string_text_def raw_string_def)
qed

text \<open>Printed elements and members, separated by a comma and white space, and followed by white space and the bracket.\<close>

lemma joined_elems:
  assumes "xs \<noteq> []" and "\<And>x. x \<in> set xs \<Longrightarrow> json_text x (f x)" and "list_all json_ws w'" and "list_all json_ws w"
  shows "elems_text xs (join (CHR '','' # w') (map f xs) @ w @ '']'')"
  using assms(1,2)
proof (induction xs)
  case (Cons x xs)
  show ?case
  proof (cases xs)
    case Nil
    then show ?thesis using elems_last [of x "f x" w] Cons.prems assms(4) by simp
  next
    case (Cons y ys)
    then show ?thesis
      using elems_more [of x "f x" "[]" w' xs "join (CHR '','' # w') (map f xs) @ w @ '']''"] Cons.prems Cons.IH assms(3) by simp
  qed
qed simp

lemma joined_members:
  assumes "d \<noteq> []" and "\<And>k v. (k, v) \<in> set d \<Longrightarrow> \<exists>u s. g (k, v) = u @ CHR '':'' # w0 @ s \<and> string_text k u \<and> json_text v s"
    and "list_all json_ws w0" and "list_all json_ws w'" and "list_all json_ws w"
  shows "members_text d (join (CHR '','' # w') (map g d) @ w @ ''}'')"
  using assms(1,2)
proof (induction d)
  case (Cons p d)
  obtain k v where p: "p = (k, v)" by (cases p)
  obtain u s where g: "g p = u @ CHR '':'' # w0 @ s" "string_text k u" "json_text v s" using Cons.prems(2) [of k v] p by auto
  show ?case
  proof (cases d)
    case Nil
    then show ?thesis using members_last [OF g(2,3) assms(3,5)] g(1) p by simp
  next
    case (Cons q ds)
    then show ?thesis
      using members_more [OF g(2,3) assms(3), of "[]" w' d "join (CHR '','' # w') (map g d) @ w @ ''}''"] g(1) p Cons.prems(2) Cons.IH assms(4) by simp
  qed
qed simp

lemma dumps_text: "plain v \<Longrightarrow> json_text v (json_dumps fr v)"
proof (induction v)
  case (JBool b)
  then show ?case by (cases b) (simp_all add: text_true text_false)
next
  case (JList xs)
  show ?case
  proof (cases "xs = []")
    case False
    then show ?thesis
      using joined_elems [of xs "json_dumps fr" "'' ''" "[]"] text_list [of "[]" xs] JList by (simp add: json_ws_def)
  qed (simp add: text_nil)
next
  case (JObj d)
  show ?case
  proof (cases "d = []")
    case False
    have "members_text d (join '', '' (map (dump_member fr) d) @ [] @ ''}'')"
      using False JObj dump_string_text
      by (intro joined_members [where ?w0.0 = "'' ''"]) (force simp: dump_member_def json_ws_def)+
    then show ?thesis using text_obj [of "[]" d] JObj.prems by (simp add: json_dumps_obj del: json_dumps.simps)
  qed (simp add: text_empty)
qed (simp_all add: text_null text_int text_str dump_string_text)

lemma dump_first_dumps: "plain v \<Longrightarrow> dump_first (json_dumps fr v)"
  using dumps_text text_first(1) by blast

lemma json_roundtrip: "plain v \<Longrightarrow> json_loads (json_dumps fr v) = Some v"
  by (intro loads_text dumps_text)

lemma dump_string_ascii: "\<forall>c \<in> set (dump_string s). 32 \<le> (of_char c :: nat) \<and> (of_char c :: nat) \<le> 126"
proof -
  have hex: "48 \<le> (of_char (hex_digit k) :: nat) \<and> (of_char (hex_digit k) :: nat) \<le> 102" if "k < 16" for k
    using that by (auto simp: hex_digit_def)
  have "\<forall>c \<in> set (dump_char d). 32 \<le> (of_char c :: nat) \<and> (of_char c :: nat) \<le> 126" for d
  proof -
    have "(of_char d :: nat) div 16 < 16" using nat_of_char_less_256 [of d] by linarith
    from hex [OF this] hex [of "of_char d mod 16"] show ?thesis by (auto simp: dump_char_def Let_def)
  qed
  then show ?thesis by (auto simp: dump_string_def)
qed

end
