(* ===== verification/Streaming.thy ===== *)
theory Streaming
  imports Stream_Model Errors Json_Text
begin

section \<open>Server-sent events\<close>

text \<open>
  \<^verbatim>\<open>claude_ai/streaming/\<close>: the line and chunk parser \<^verbatim>\<open>SSEParser\<close>, the construction of typed events and
  \<^verbatim>\<open>StreamCollector\<close>. The validation of pydantic (\<^verbatim>\<open>model_validate\<close> of the class that belongs to an event type) is the
  parameter \<open>validate\<close>, with \<open>None\<close> for a \<^verbatim>\<open>ValidationError\<close>; the text of a \<^verbatim>\<open>JSONDecodeError\<close> is the parameter \<open>jmsg\<close>.
  The parts a collector joins are dynamic values, since the untyped form of a delta may hold anything.
\<close>

subsection \<open>SSEParser\<close>

definition is_crlf :: "char \<Rightarrow> bool" where
  "is_crlf c \<longleftrightarrow> c = CHR 0x0D \<or> c = CHR 0x0A"

definition parse_line :: "string \<Rightarrow> (string \<times> string) option" where
  "parse_line line0 =
     (let line = rstrip_chars is_crlf line0
      in if line = [] then None
         else if startswith line '':'' then None
         else (let (field, _, value) = partition_char (CHR '':'') line
               in if field = [] then None else Some (field, lstrip_chars (\<lambda>c. c = CHR '' '') value)))"

definition parse_data :: "(string \<Rightarrow> string) \<Rightarrow> string \<Rightarrow> exn + json" where
  "parse_data jmsg data =
     (case json_loads data of
        Some v \<Rightarrow> Inr v
      | None \<Rightarrow> Inl (StreamError ''unknown'' data (''Invalid JSON: '' @ jmsg data)))"

definition line_boundary :: "char \<Rightarrow> bool" where
  "line_boundary c \<longleftrightarrow>
     c \<in> {CHR 0x0A, CHR 0x0B, CHR 0x0C, CHR 0x0D, CHR 0x1C, CHR 0x1D, CHR 0x1E, CHR 0x85}"

fun splitlines :: "string \<Rightarrow> string list" where
  \<comment> \<open>\<open>str.splitlines()\<close>\<close>
  "splitlines [] = []"
| "splitlines (c # cs) =
     (if line_boundary c
      then [] # splitlines (if c = CHR 0x0D \<and> cs \<noteq> [] \<and> hd cs = CHR 0x0A then tl cs else cs)
      else (case splitlines cs of [] \<Rightarrow> [[c]] | l # ls \<Rightarrow> (c # l) # ls))"

definition has_event :: "string option \<Rightarrow> string list \<Rightarrow> bool" where
  \<comment> \<open>the test \<open>current_event and data_lines\<close>\<close>
  "has_event ev ds \<longleftrightarrow> (case ev of None \<Rightarrow> False | Some e \<Rightarrow> e \<noteq> []) \<and> ds \<noteq> []"

definition flush_event ::
  "(string \<Rightarrow> string) \<Rightarrow> string option \<Rightarrow> string list \<Rightarrow> (string \<times> json) list \<Rightarrow> exn + (string \<times> json) list" where
  "flush_event jmsg ev ds events =
     (if has_event ev ds
      then bind_result (parse_data jmsg (join [CHR 0x0A] ds)) (\<lambda>v. Inr (events @ [(the ev, v)]))
      else Inr events)"

fun chunk_loop ::
  "(string \<Rightarrow> string) \<Rightarrow> string list \<Rightarrow> string option \<Rightarrow> string list \<Rightarrow> (string \<times> json) list \<Rightarrow> exn + (string \<times> json) list" where
  \<comment> \<open>the loop of \<open>parse_chunk\<close> with its variables \<open>current_event\<close>, \<open>data_lines\<close> and \<open>events\<close>\<close>
  "chunk_loop jmsg [] ev ds events = flush_event jmsg ev ds events"
| "chunk_loop jmsg (line # lines) ev ds events =
     (case parse_line line of
        None \<Rightarrow>
          if startswith line '':'' then chunk_loop jmsg lines ev ds events
          else bind_result (flush_event jmsg ev ds events) (\<lambda>events'. chunk_loop jmsg lines None [] events')
      | Some (field, value) \<Rightarrow>
          if field = ''event'' then
            bind_result (flush_event jmsg ev ds events) (\<lambda>events'.
              chunk_loop jmsg lines (Some value) (if has_event ev ds then [] else ds) events')
          else if field = ''data'' then chunk_loop jmsg lines ev (ds @ [value]) events
          else chunk_loop jmsg lines ev ds events)"

definition parse_chunk :: "(string \<Rightarrow> string) \<Rightarrow> string \<Rightarrow> exn + (string \<times> json) list" where
  "parse_chunk jmsg text = chunk_loop jmsg (splitlines text) None [] []"

subsection \<open>Typed events\<close>

definition EVENT_MAP :: "stream_event_type dict" where
  "EVENT_MAP =
     map (\<lambda>t. (stream_event_type_value t, t))
       [MESSAGE_START, CONTENT_BLOCK_START, CONTENT_BLOCK_DELTA, CONTENT_BLOCK_STOP, MESSAGE_DELTA, MESSAGE_STOP, MESSAGE_LIMIT]"

type_synonym validator = "stream_event_type \<Rightarrow> json dict \<Rightarrow> stream_event option"

definition build_event_from_payload :: "validator \<Rightarrow> string \<Rightarrow> json \<Rightarrow> exn + stream_event" where
  \<comment> \<open>an unknown type is the base class, which accepts every payload; a payload that is no object
     cannot be unpacked\<close>
  "build_event_from_payload validate event_type data =
     (case data of
        JObj d \<Rightarrow>
          Inr (case dict_get EVENT_MAP event_type of
                 None \<Rightarrow> PlainEvent event_type d
               | Some t \<Rightarrow>
                   (case validate t (dict_update d [(''type'', JStr event_type), (''raw'', JObj d)]) of
                      Some e \<Rightarrow> e
                    | None \<Rightarrow> PlainEvent event_type d))
      | _ \<Rightarrow> Inl (Py (TypeError ''object is not a mapping'')))"

subsection \<open>StreamCollector\<close>

record completion_result =
  cr_text :: string
  cr_thinking :: string
  cr_message_id :: string
  cr_message_uuid :: string
  cr_parent_uuid :: string
  cr_model :: string
  cr_stop_reason :: "string option"
  cr_output_tokens :: int
  cr_request_id :: string
  cr_trace_id :: string

definition completion_result_default :: completion_result where
  "completion_result_default =
     \<lparr>cr_text = [], cr_thinking = [], cr_message_id = [], cr_message_uuid = [], cr_parent_uuid = [], cr_model = [],
      cr_stop_reason = None, cr_output_tokens = 0, cr_request_id = [], cr_trace_id = []\<rparr>"

definition delta_text :: "block_delta \<Rightarrow> json list" where
  \<comment> \<open>what a delta appends to \<open>text_parts\<close>\<close>
  "delta_text d =
     (case d of
        TextDelta t \<Rightarrow> [JStr t]
      | DictDelta m \<Rightarrow> if obj_get m ''type'' = JStr ''text_delta'' then [dict_getd m ''text'' (JStr [])] else []
      | _ \<Rightarrow> [])"

definition delta_thinking :: "block_delta \<Rightarrow> json list" where
  "delta_thinking d =
     (case d of
        ThinkingDelta t \<Rightarrow> [JStr t]
      | DictDelta m \<Rightarrow> if obj_get m ''type'' = JStr ''thinking_delta'' then [dict_getd m ''thinking'' (JStr [])] else []
      | _ \<Rightarrow> [])"

fun join_parts :: "json list \<Rightarrow> exn + string" where
  \<comment> \<open>\<open>"".join(parts)\<close>\<close>
  "join_parts [] = Inr []"
| "join_parts (JStr s # ps) = bind_result (join_parts ps) (\<lambda>t. Inr (s @ t))"
| "join_parts (p # ps) = Inl (Py (TypeError ''sequence item: expected str instance''))"

definition opt_str :: "string option \<Rightarrow> string" where
  \<comment> \<open>\<open>x or ""\<close>\<close>
  "opt_str x = (case x of None \<Rightarrow> [] | Some s \<Rightarrow> s)"

definition collect_step ::
  "stream_event \<Rightarrow> completion_result \<times> json list \<times> json list \<Rightarrow> completion_result \<times> json list \<times> json list" where
  "collect_step evt st =
     (case st of (r, text_parts, thinking_parts) \<Rightarrow>
        (case evt of
           MessageStart raw m disc \<Rightarrow>
             (r\<lparr>cr_message_id := msd_id m, cr_message_uuid := opt_str (msd_uuid m), cr_parent_uuid := opt_str (msd_parent_uuid m),
                cr_model := msd_model m, cr_request_id := opt_str (msd_request_id m), cr_trace_id := opt_str (msd_trace_id m)\<rparr>,
              text_parts, thinking_parts)
         | ContentBlockDelta raw i d \<Rightarrow> (r, text_parts @ delta_text d, thinking_parts @ delta_thinking d)
         | MessageDelta raw d n \<Rightarrow> (r\<lparr>cr_stop_reason := sd_stop_reason d, cr_output_tokens := n\<rparr>, text_parts, thinking_parts)
         | _ \<Rightarrow> st))"

definition collect :: "stream_event list \<Rightarrow> exn + completion_result" where
  "collect events =
     (case fold collect_step events (completion_result_default, [], []) of
        (r, text_parts, thinking_parts) \<Rightarrow>
          bind_result (join_parts text_parts) (\<lambda>t. bind_result (join_parts thinking_parts) (\<lambda>k.
            Inr (r\<lparr>cr_text := t, cr_thinking := k\<rparr>))))"

end
