(* ===== verification/Cookies.thy ===== *)
theory Cookies
  imports Errors
begin

section \<open>Cookies and shared authentication\<close>

text \<open>
  \<^verbatim>\<open>claude_ai/session/auth.py\<close> (cookie and XSRF headers, \<^verbatim>\<open>Set-Cookie\<close> parsing), the contract of
  \<^verbatim>\<open>claude_ai/storage/cookies/base.py\<close> as the locale \<open>cookie_storage\<close> with \<^verbatim>\<open>MemoryCookieStorage\<close> as its
  implementation, and \<^verbatim>\<open>claude_ai/auth/\<close>: \<^verbatim>\<open>CookieAuth\<close>, which several sessions share. A listener of the shared object is the log
  of the snapshots it received.
\<close>

type_synonym cookies = "string dict"

subsection \<open>Headers\<close>

fun percent_bytes :: "string \<Rightarrow> nat list" where
  \<comment> \<open>\<open>unquote_to_bytes\<close> on an ASCII run\<close>
  "percent_bytes [] = []"
| "percent_bytes (c # cs) =
     (if c = CHR ''%'' then
        (case cs of
           a # b # r \<Rightarrow>
             if is_digit a \<or> lower_char a \<in> set ''abcdef'' then
               if is_digit b \<or> lower_char b \<in> set ''abcdef'' then
                 (16 * (if is_digit a then digit_val a else of_char (lower_char a) - 87) +
                  (if is_digit b then digit_val b else of_char (lower_char b) - 87)) # percent_bytes r
               else of_char c # percent_bytes cs
             else of_char c # percent_bytes cs
         | _ \<Rightarrow> of_char c # percent_bytes cs)
      else of_char c # percent_bytes cs)"

fun decode_utf8 :: "nat list \<Rightarrow> string" where
  \<comment> \<open>\<open>bytes.decode("utf-8", "replace")\<close> for code points below 256; the bytes of any other sequence, which
     decodes to characters outside the model, stand as question marks\<close>
  "decode_utf8 [] = []"
| "decode_utf8 (b # bs) =
     (if b < 128 then char_of b # decode_utf8 bs
      else (case bs of
              c # cs \<Rightarrow> if (b = 194 \<or> b = 195) \<and> 128 \<le> c \<and> c < 192 then char_of (64 * (b - 192) + (c - 128)) # decode_utf8 cs
                        else CHR ''?'' # decode_utf8 bs
            | [] \<Rightarrow> [CHR ''?'']))"

definition is_cont :: "nat \<Rightarrow> bool" where
  "is_cont b \<longleftrightarrow> 128 \<le> b \<and> b < 192"

fun utf8_valid :: "nat list \<Rightarrow> bool" where
  \<comment> \<open>whether \<open>bytes.decode()\<close> succeeds\<close>
  "utf8_valid [] = True"
| "utf8_valid (b # bs) =
     (if b < 128 then utf8_valid bs
      else if 194 \<le> b \<and> b \<le> 223 then (case bs of c # r \<Rightarrow> is_cont c \<and> utf8_valid r | _ \<Rightarrow> False)
      else if 224 \<le> b \<and> b \<le> 239 then
        (case bs of
           c # d # r \<Rightarrow> is_cont c \<and> is_cont d \<and> (b = 224 \<longrightarrow> 160 \<le> c) \<and> (b = 237 \<longrightarrow> c < 160) \<and> utf8_valid r
         | _ \<Rightarrow> False)
      else if 240 \<le> b \<and> b \<le> 244 then
        (case bs of
           c # d # e # r \<Rightarrow>
             is_cont c \<and> is_cont d \<and> is_cont e \<and> (b = 240 \<longrightarrow> 144 \<le> c) \<and> (b = 244 \<longrightarrow> c < 144) \<and> utf8_valid r
         | _ \<Rightarrow> False)
      else False)"

definition is_ascii :: "char \<Rightarrow> bool" where
  "is_ascii c \<longleftrightarrow> (of_char c :: nat) < 128"

function unquote :: "string \<Rightarrow> string" where
  \<comment> \<open>\<open>urllib.parse.unquote\<close>: only the maximal ASCII runs are decoded\<close>
  "unquote [] = []"
| "unquote (c # cs) =
     (if is_ascii c
      then decode_utf8 (percent_bytes (takeWhile is_ascii (c # cs))) @ unquote (dropWhile is_ascii (c # cs))
      else c # unquote cs)"
  by pat_completeness auto
termination
  by (relation "measure length") (auto simp: less_Suc_eq_le length_dropWhile_le)

definition XSRF_NAMES :: "string list" where
  "XSRF_NAMES = [''XSRF-TOKEN'', ''xsrf_token'']"

definition extract_xsrf :: "cookies \<Rightarrow> string option" where
  "extract_xsrf cookies =
     (case find (\<lambda>name. dict_get cookies name \<noteq> None) XSRF_NAMES of
        None \<Rightarrow> None
      | Some name \<Rightarrow> map_option unquote (dict_get cookies name))"

definition build_auth_headers :: "cookies \<Rightarrow> string dict" where
  "build_auth_headers cookies =
     (let h = (if cookies \<noteq> [] then [(''cookie'', join ''; '' (map (\<lambda>(k, v). k @ ''='' @ v) cookies))] else [])
      in case extract_xsrf cookies of
           None \<Rightarrow> h
         | Some x \<Rightarrow> if x = [] then h else dict_set h ''x-xsrf-token'' x)"

subsection \<open>Set-Cookie\<close>

definition is_word_char :: "char \<Rightarrow> bool" where
  \<comment> \<open>\<open>\w\<close> on the first 256 code points\<close>
  "is_word_char c \<longleftrightarrow>
     (let n = (of_char c :: nat)
      in (48 \<le> n \<and> n \<le> 57) \<or> (65 \<le> n \<and> n \<le> 90) \<or> n = 95 \<or> (97 \<le> n \<and> n \<le> 122) \<or>
         n \<in> {170, 178, 179, 181, 185, 186, 188, 189, 190} \<or> (192 \<le> n \<and> n \<noteq> 215 \<and> n \<noteq> 247))"

definition cookie_name_ok :: "string \<Rightarrow> bool" where
  \<comment> \<open>\<open>_COOKIE_NAME_RE.match\<close> on a stripped name\<close>
  "cookie_name_ok name \<longleftrightarrow> name \<noteq> [] \<and> list_all (\<lambda>c. is_word_char c \<or> c = CHR ''-'' \<or> c = CHR ''.'') name"

definition cookie_value_unsafe :: "string \<Rightarrow> bool" where
  "cookie_value_unsafe v \<longleftrightarrow> list_ex (\<lambda>c. (of_char c :: nat) < 32 \<or> (of_char c :: nat) = 127) v"

definition parse_set_cookie :: "string \<Rightarrow> (string \<times> string) option" where
  "parse_set_cookie header =
     (let pair = hd (split_char (CHR '';'') (strip header))
      in if CHR ''='' \<notin> set pair then None
         else (let (name, _, value) = partition_char (CHR ''='') pair; name = strip name; value = strip value
               in if \<not> cookie_name_ok name \<or> cookie_value_unsafe value then None else Some (name, value)))"

definition cookies_from_set_cookie :: "string dict \<Rightarrow> cookies" where
  "cookies_from_set_cookie headers =
     fold (\<lambda>(k, v) out. if lower k \<noteq> ''set-cookie'' then out
                        else (case parse_set_cookie v of None \<Rightarrow> out | Some (n, x) \<Rightarrow> dict_set out n x))
       headers []"

subsection \<open>Cookie storages\<close>

record 's cookie_ops =
  ck_load :: "'s \<Rightarrow> string \<Rightarrow> cookies"
  ck_save :: "'s \<Rightarrow> string \<Rightarrow> cookies \<Rightarrow> 's"
  ck_update :: "'s \<Rightarrow> string \<Rightarrow> cookies \<Rightarrow> 's"
  ck_delete :: "'s \<Rightarrow> string \<Rightarrow> 's"
  ck_list_accounts :: "'s \<Rightarrow> string list"

type_synonym mem_cookies = "cookies dict"

definition mck_load :: "mem_cookies \<Rightarrow> string \<Rightarrow> cookies" where
  "mck_load s a = dict_getd s a []"

definition mck_save :: "mem_cookies \<Rightarrow> string \<Rightarrow> cookies \<Rightarrow> mem_cookies" where
  "mck_save s a c = dict_set s a c"

definition mck_update :: "mem_cookies \<Rightarrow> string \<Rightarrow> cookies \<Rightarrow> mem_cookies" where
  "mck_update s a c = dict_set s a (dict_update (dict_getd s a []) c)"

definition mck_delete :: "mem_cookies \<Rightarrow> string \<Rightarrow> mem_cookies" where
  "mck_delete s a = dict_del s a"

definition mck_list_accounts :: "mem_cookies \<Rightarrow> string list" where
  "mck_list_accounts s = dict_keys s"

definition mck_ops :: "mem_cookies cookie_ops" where
  "mck_ops = \<lparr>ck_load = mck_load, ck_save = mck_save, ck_update = mck_update, ck_delete = mck_delete,
              ck_list_accounts = mck_list_accounts\<rparr>"

locale cookie_storage =
  fixes ck :: "'s cookie_ops"
  assumes load_save: "ck_load ck (ck_save ck s a c) b = (if b = a then c else ck_load ck s b)"
    and load_update: "ck_load ck (ck_update ck s a c) b = (if b = a then dict_update (ck_load ck s a) c else ck_load ck s b)"
    and load_delete: "ck_load ck (ck_delete ck s a) b = (if b = a then [] else ck_load ck s b)"
begin

lemmas load_simps = load_save load_update load_delete

end

interpretation mck: cookie_storage mck_ops
  by unfold_locales
     (auto simp: mck_ops_def mck_load_def mck_save_def mck_update_def mck_delete_def dict_getd_def)

subsection \<open>CookieAuth\<close>

record auth_snapshot =
  as_cookies :: cookies
  as_headers :: "string dict"
  as_xsrf_token :: "string option"
  as_revision :: int

record cookie_auth =
  ca_account_id :: string
  ca_cookies :: cookies
  ca_headers :: "string dict"
  ca_revision :: int
  ca_loaded :: bool
  ca_listeners :: "auth_snapshot list dict"   \<comment> \<open>by registration, what each received\<close>

definition auth_init :: "string \<Rightarrow> cookies option \<Rightarrow> cookie_auth" where
  "auth_init a c =
     \<lparr>ca_account_id = a, ca_cookies = (case c of None \<Rightarrow> [] | Some d \<Rightarrow> d), ca_headers = [], ca_revision = 0,
      ca_loaded = False, ca_listeners = []\<rparr>"

definition auth_ensure_loaded :: "'s cookie_ops \<Rightarrow> cookie_auth \<times> 's \<Rightarrow> cookie_auth \<times> 's" where
  "auth_ensure_loaded ck p =
     (case p of (a, s) \<Rightarrow>
        if ca_loaded a then (a, s)
        else (let merged = dict_update (ck_load ck s (ca_account_id a)) (ca_cookies a);
                  s1 = (if ca_cookies a \<noteq> [] then ck_save ck s (ca_account_id a) merged else s)
              in (a\<lparr>ca_cookies := merged, ca_loaded := True\<rparr>, s1)))"

definition auth_snapshot_of :: "cookie_auth \<Rightarrow> auth_snapshot" where
  \<comment> \<open>\<open>_snapshot\<close>\<close>
  "auth_snapshot_of a =
     \<lparr>as_cookies = ca_cookies a, as_headers = dict_update (ca_headers a) (build_auth_headers (ca_cookies a)),
      as_xsrf_token = extract_xsrf (ca_cookies a), as_revision = ca_revision a\<rparr>"

definition auth_actually :: "'s cookie_ops \<Rightarrow> cookie_auth \<times> 's \<Rightarrow> auth_snapshot \<times> cookie_auth \<times> 's" where
  "auth_actually ck p = (let q = auth_ensure_loaded ck p in (auth_snapshot_of (fst q), q))"

definition auth_notify :: "cookie_auth \<Rightarrow> auth_snapshot \<Rightarrow> cookie_auth" where
  "auth_notify a snap = a\<lparr>ca_listeners := map (\<lambda>(k, log). (k, log @ [snap])) (ca_listeners a)\<rparr>"

definition auth_subscribe :: "cookie_auth \<Rightarrow> string \<Rightarrow> cookie_auth" where
  "auth_subscribe a name = a\<lparr>ca_listeners := ca_listeners a @ [(name, [])]\<rparr>"

definition auth_cancel :: "cookie_auth \<Rightarrow> string \<Rightarrow> cookie_auth" where
  \<comment> \<open>the function \<open>subscribe\<close> returns; cancelling twice does nothing\<close>
  "auth_cancel a name =
     a\<lparr>ca_listeners := takeWhile (\<lambda>p. fst p \<noteq> name) (ca_listeners a) @ drop 1 (dropWhile (\<lambda>p. fst p \<noteq> name) (ca_listeners a))\<rparr>"

definition auth_update ::
  "'s cookie_ops \<Rightarrow> cookies option \<Rightarrow> string dict option \<Rightarrow> cookie_auth \<times> 's \<Rightarrow> auth_snapshot \<times> cookie_auth \<times> 's" where
  "auth_update ck cookies headers p =
     (case auth_ensure_loaded ck p of (a, s) \<Rightarrow>
        (let c = (case cookies of None \<Rightarrow> [] | Some d \<Rightarrow> d);
             h = (case headers of None \<Rightarrow> [] | Some d \<Rightarrow> d);
             a1 = (if c \<noteq> [] then a\<lparr>ca_cookies := dict_update (ca_cookies a) c\<rparr> else a);
             s1 = (if c \<noteq> [] then ck_save ck s (ca_account_id a) (ca_cookies a1) else s);
             a2 = (if h \<noteq> [] then a1\<lparr>ca_headers := dict_update (ca_headers a1) h\<rparr> else a1);
             a3 = (if c \<noteq> [] \<or> h \<noteq> [] then a2\<lparr>ca_revision := ca_revision a2 + 1\<rparr> else a2);
             snap = auth_snapshot_of a3
         in (snap, auth_notify a3 snap, s1)))"

subsection \<open>Headers built from accepted cookies\<close>

lemma strip_subset: "set (strip s) \<subseteq> set s"
  by (auto simp: strip_def lstrip_chars_def rstrip_chars_def dest!: set_dropWhileD)

definition cookie_safe :: "string \<times> string \<Rightarrow> bool" where
  \<comment> \<open>a pair that cannot break out of a \<open>Cookie\<close> header\<close>
  "cookie_safe p \<longleftrightarrow>
     cookie_name_ok (fst p) \<and> CHR '';'' \<notin> set (fst p) \<and> CHR ''='' \<notin> set (fst p) \<and> CHR '';'' \<notin> set (snd p) \<and>
     (\<forall>c \<in> set (fst p @ snd p). 32 \<le> (of_char c :: nat) \<and> (of_char c :: nat) \<noteq> 127)"

lemma cookie_name_chars:
  assumes "cookie_name_ok n" and "c \<in> set n"
  shows "c \<noteq> CHR '';''" and "c \<noteq> CHR ''=''" and "32 \<le> (of_char c :: nat)" and "(of_char c :: nat) \<noteq> 127"
proof -
  have "is_word_char c \<or> c = CHR ''-'' \<or> c = CHR ''.''" using assms by (auto simp: cookie_name_ok_def list_all_iff)
  then show "c \<noteq> CHR '';''" "c \<noteq> CHR ''=''" "32 \<le> (of_char c :: nat)" "(of_char c :: nat) \<noteq> 127"
    by (auto simp: is_word_char_def Let_def)
qed

lemma parse_set_cookie_safe: "parse_set_cookie h = Some p \<Longrightarrow> cookie_safe p"
proof -
  assume p: "parse_set_cookie h = Some p"
  define pair where "pair = hd (split_char (CHR '';'') (strip h))"
  obtain name b val where pt: "partition_char (CHR ''='') pair = (name, b, val)" by (cases "partition_char (CHR ''='') pair")
  have in_pair: "CHR ''='' \<in> set pair" using p by (auto simp: parse_set_cookie_def pair_def Let_def split: if_splits)
  have pv: "p = (strip name, strip val)" "cookie_name_ok (strip name)" "\<not> cookie_value_unsafe (strip val)"
    using p pt by (auto simp: parse_set_cookie_def pair_def [symmetric] Let_def split: if_splits)
  have "b" using pt in_pair by (auto simp: partition_char_def split: list.splits prod.splits)
  then have "partition_char (CHR ''='') pair = (name, True, val)" using pt by simp
  then have "pair = name @ CHR ''='' # val" by (simp only: partition_char_sep)
  moreover have "CHR '';'' \<notin> set pair"
    unfolding pair_def using split_char_no_sep [of _ "CHR '';''"] split_char_not_empty by (metis list.set_sel(1))
  ultimately have "CHR '';'' \<notin> set val" by simp
  then have "CHR '';'' \<notin> set (strip val)" using strip_subset by blast
  with pv cookie_name_chars [OF pv(2)] show ?thesis
    by (auto simp: cookie_safe_def cookie_value_unsafe_def list_ex_iff not_less)
qed

lemma absorb_safe:
  "list_all cookie_safe out \<Longrightarrow> list_all cookie_safe
     (fold (\<lambda>(k, v) out. if lower k \<noteq> ''set-cookie'' then out
        else (case parse_set_cookie v of None \<Rightarrow> out | Some (n, x) \<Rightarrow> dict_set out n x)) hs out)"
proof (induction hs arbitrary: out)
  case Nil
  then show ?case by simp
next
  case (Cons h hs)
  have "list_all cookie_safe (dict_set out n x)" if "parse_set_cookie v = Some (n, x)" for n x v
    using dict_set_subset [of n x out] Cons.prems parse_set_cookie_safe [OF that] by (auto simp: list_all_iff)
  with Cons show ?case by (cases h) (auto split: option.splits)
qed

lemma cookies_from_set_cookie_safe: "list_all cookie_safe (cookies_from_set_cookie hs)"
  unfolding cookies_from_set_cookie_def by (rule absorb_safe) simp

lemma dict_update_safe: "list_all P d \<Longrightarrow> list_all P e \<Longrightarrow> list_all P (dict_update d e)"
proof (induction e arbitrary: d)
  case Nil
  then show ?case by (simp add: dict_update_def)
next
  case (Cons p e)
  have "list_all P (dict_set d (fst p) (snd p))"
    using dict_set_subset [of "fst p" "snd p" d] Cons.prems by (auto simp: list_all_iff)
  with Cons show ?case by (simp add: dict_update_def case_prod_unfold)
qed

lemma set_join: "set (join sep ls) \<subseteq> set sep \<union> \<Union> (set ` set ls)"
  by (induction sep ls rule: join.induct) auto

lemma cookie_header_chars:
  assumes "list_all cookie_safe cs" and "c \<in> set (join ''; '' (map (\<lambda>(k, v). k @ ''='' @ v) cs))"
  shows "32 \<le> (of_char c :: nat) \<and> (of_char c :: nat) \<noteq> 127"
proof -
  have "c \<in> set ''; '' \<or> (\<exists>p \<in> set cs. c \<in> set (fst p @ snd p) \<or> c = CHR ''='')"
    using set_join [of "''; ''" "map (\<lambda>(k, v). k @ ''='' @ v) cs"] assms(2) by fastforce
  then show ?thesis using assms(1) by (auto simp: list_all_iff cookie_safe_def)
qed

lemma build_auth_headers_cookie:
  "dict_get (build_auth_headers cs) ''cookie'' = (if cs = [] then None else Some (join ''; '' (map (\<lambda>(k, v). k @ ''='' @ v) cs)))"
  by (auto simp: build_auth_headers_def Let_def split: option.splits)

subsection \<open>Histories of a shared authentication object\<close>

datatype auth_op = AUpdate "cookies option" "string dict option" | AActually | ASubscribe string | ACancel string

fun auth_step :: "'s cookie_ops \<Rightarrow> auth_op \<Rightarrow> cookie_auth \<times> 's \<Rightarrow> cookie_auth \<times> 's" where
  "auth_step ck (AUpdate c h) p = snd (auth_update ck c h p)"
| "auth_step ck AActually p = snd (auth_actually ck p)"
| "auth_step ck (ASubscribe n) p = (auth_subscribe (fst p) n, snd p)"
| "auth_step ck (ACancel n) p = (auth_cancel (fst p) n, snd p)"

fun op_cookies :: "auth_op \<Rightarrow> cookies" where
  "op_cookies (AUpdate (Some c) h) = c"
| "op_cookies _ = []"

fun op_changes :: "auth_op \<Rightarrow> bool" where
  "op_changes (AUpdate c h) = (c \<notin> {None, Some []} \<or> h \<notin> {None, Some []})"
| "op_changes _ = False"

context cookie_storage
begin

definition auth_inv :: "string \<Rightarrow> cookies \<Rightarrow> cookies list \<Rightarrow> nat \<Rightarrow> cookie_auth \<times> 's \<Rightarrow> bool" where
  \<comment> \<open>\<open>base\<close> is what was stored and configured at first, \<open>us\<close> the cookie updates so far, \<open>n\<close> the changes\<close>
  "auth_inv acc base us n p \<longleftrightarrow>
     ca_account_id (fst p) = acc \<and> ca_revision (fst p) = int n \<and>
     (if ca_loaded (fst p)
      then ca_cookies (fst p) = fold (\<lambda>u c. dict_update c u) us base \<and> ck_load ck (snd p) acc = ca_cookies (fst p)
      else dict_update (ck_load ck (snd p) acc) (ca_cookies (fst p)) = base \<and> (\<forall>u \<in> set us. u = []) \<and> n = 0)"

lemma dict_update_Nil [simp]: "dict_update d [] = d"
  by (simp add: dict_update_def)

lemma fold_empty_updates: "\<forall>u \<in> set us. u = [] \<Longrightarrow> fold (\<lambda>u c. dict_update c u) us d = d"
  by (induction us) auto

lemma ensure_loaded_inv:
  "auth_inv acc base us n p \<Longrightarrow> auth_inv acc base us n (auth_ensure_loaded ck p) \<and> ca_loaded (fst (auth_ensure_loaded ck p))"
  by (cases p) (auto simp: auth_inv_def auth_ensure_loaded_def Let_def load_simps fold_empty_updates)

lemma auth_step_inv:
  assumes "auth_inv acc base us n p"
  shows "auth_inv acc base (us @ [op_cookies x]) (if op_changes x then Suc n else n) (auth_step ck x p)"
proof (cases x)
  case (AUpdate c h)
  obtain a s where q: "auth_ensure_loaded ck p = (a, s)" by fastforce
  from ensure_loaded_inv [OF assms] q have i: "auth_inv acc base us n (a, s)" "ca_loaded a" by auto
  show ?thesis
    using i by (cases c; cases h) (auto simp: AUpdate auth_update_def q Let_def auth_inv_def auth_notify_def load_simps)
next
  case AActually
  from ensure_loaded_inv [OF assms] show ?thesis by (simp add: AActually auth_actually_def Let_def auth_inv_def)
next
  case (ASubscribe m)
  with assms show ?thesis by (auto simp: auth_inv_def auth_subscribe_def)
next
  case (ACancel m)
  with assms show ?thesis by (auto simp: auth_inv_def auth_cancel_def)
qed

lemma auth_history_inv:
  "auth_inv acc base us n p \<Longrightarrow>
     auth_inv acc base (us @ map op_cookies xs) (n + length (filter op_changes xs)) (fold (auth_step ck) xs p)"
proof (induction xs arbitrary: us n p)
  case Nil
  then show ?case by simp
next
  case (Cons x xs)
  from Cons.IH [OF auth_step_inv [OF Cons.prems, of x]] show ?case by (simp split: if_splits)
qed

lemma auth_history:
  assumes "auth_actually ck (fold (auth_step ck) xs (auth_init acc c0, s)) = (snap, a, s')"
  shows "as_cookies snap = fold (\<lambda>u c. dict_update c u) (map op_cookies xs) (dict_update (ck_load ck s acc) (case c0 of None \<Rightarrow> [] | Some d \<Rightarrow> d)) \<and>
    as_revision snap = int (length (filter op_changes xs)) \<and> ck_load ck s' acc = as_cookies snap"
proof -
  let ?base = "dict_update (ck_load ck s acc) (case c0 of None \<Rightarrow> [] | Some d \<Rightarrow> d)"
  have "auth_inv acc ?base [] 0 (auth_init acc c0, s)" by (simp add: auth_inv_def auth_init_def)
  from ensure_loaded_inv [OF auth_history_inv [OF this, of xs]] assms show ?thesis
    by (auto simp: auth_actually_def Let_def auth_inv_def auth_snapshot_of_def)
qed

end

subsection \<open>Properties\<close>

text \<open>
  A server cannot inject into the \<open>Cookie\<close> header: from the \<open>Set-Cookie\<close> headers of any sequence of responses, the \<open>cookie\<close> header of the next request
  holds no control character, and no name or value in it holds a semicolon, so the server reads back exactly the stored pairs.
\<close>

theorem cookie_header_safe:
  "list_all cookie_safe (fold (\<lambda>hs c. dict_update c (cookies_from_set_cookie hs)) responses []) \<and>
   (case dict_get (build_auth_headers (fold (\<lambda>hs c. dict_update c (cookies_from_set_cookie hs)) responses [])) ''cookie'' of
      None \<Rightarrow> True
    | Some h \<Rightarrow> list_all (\<lambda>c. 32 \<le> (of_char c :: nat) \<and> (of_char c :: nat) \<noteq> 127) h)"
proof -
  have safe: "list_all cookie_safe (fold (\<lambda>hs c. dict_update c (cookies_from_set_cookie hs)) responses [])"
  proof (induction responses rule: rev_induct)
    case Nil
    then show ?case by simp
  next
    case (snoc hs responses)
    then show ?case by (simp add: dict_update_safe cookies_from_set_cookie_safe)
  qed
  then show ?thesis using cookie_header_chars [OF safe] by (simp add: build_auth_headers_cookie list_all_iff)
qed


text \<open>
  C18. A shared authentication object converges: after any history of updates, queries and subscriptions, the snapshot every session sees has the cookies stored
  and configured at first with all updates applied in order, its revision counts the effective updates, and the storage holds the same cookies.
\<close>

theorem auth_snapshot_history:
  assumes "auth_actually mck_ops (fold (auth_step mck_ops) ops (auth_init acc c0, s)) = (snap, a, s')"
  shows "as_cookies snap = fold (\<lambda>u c. dict_update c u) (map op_cookies ops)
      (dict_update (mck_load s acc) (case c0 of None \<Rightarrow> [] | Some d \<Rightarrow> d)) \<and>
    as_revision snap = int (length (filter op_changes ops)) \<and> mck_load s' acc = as_cookies snap"
  using mck.auth_history [OF assms] by (simp add: mck_ops_def)

theorem auth_snapshot_history_witness:
  "\<exists>snap a s'. auth_actually mck_ops (fold (auth_step mck_ops) [ASubscribe ''l'', AUpdate (Some [(''k'', ''2'')]) None, AActually]
        (auth_init ''acc'' (Some [(''k'', ''1'')]), [])) = (snap, a, s') \<and>
    as_cookies snap = [(''k'', ''2'')] \<and> as_revision snap = 1 \<and> mck_load s' ''acc'' = [(''k'', ''2'')]"
proof -
  obtain snap a s' where r: "auth_actually mck_ops (fold (auth_step mck_ops) [ASubscribe ''l'', AUpdate (Some [(''k'', ''2'')]) None, AActually]
      (auth_init ''acc'' (Some [(''k'', ''1'')]), [])) = (snap, a, s')" by (metis prod_cases3)
  from auth_snapshot_history [OF r] r show ?thesis by (simp add: mck_load_def dict_update_def)
qed

end
