(* ===== verification/Http_Session.thy ===== *)
theory Http_Session
  imports Methods Streaming Cookies Middleware Selector Events
begin

section \<open>The HTTP session\<close>

text \<open>
  \<^verbatim>\<open>claude_ai/session/http.py\<close>. The state a call works on is the session itself, the
  cookie storage and a world \<open>'w\<close> for everything outside (transport, bus, middlewares). The transport, the bus, the validation
  of pydantic and the clock are parameters; a middleware may do anything with the request, including calling the transport several times. A stream is consumed to its end:
  \<open>iterate_stream\<close> returns the events it yields, the exception it ends with if any, its final variables and the world.
\<close>

subsection \<open>The session\<close>

record http_session =
  hs_account_id :: string
  hs_base_url :: string
  hs_user_agent :: "string option"
  hs_settings_user_agent :: string
  hs_initial_cookies :: cookies
  hs_cookies :: cookies
  hs_opened :: bool
  hs_has_bus :: bool
  hs_limit_state :: limit_state

definition session_init ::
  "string \<Rightarrow> cookies option \<Rightarrow> string \<Rightarrow> string \<Rightarrow> string option \<Rightarrow> bool \<Rightarrow> http_session" where
  "session_init account_id cookies base_url settings_ua ua bus =
     \<lparr>hs_account_id = account_id, hs_base_url = base_url, hs_user_agent = ua, hs_settings_user_agent = settings_ua,
      hs_initial_cookies = (case cookies of None \<Rightarrow> [] | Some c \<Rightarrow> c), hs_cookies = [], hs_opened = False, hs_has_bus = bus,
      hs_limit_state = limit_state_default\<rparr>"

definition session_open :: "'s cookie_ops \<Rightarrow> http_session \<times> 's \<Rightarrow> http_session \<times> 's" where
  "session_open ck p =
     (case p of (h, s) \<Rightarrow>
        if hs_opened h then (h, s)
        else (h\<lparr>hs_cookies := dict_update (ck_load ck s (hs_account_id h)) (hs_initial_cookies h), hs_opened := True\<rparr>,
              if hs_initial_cookies h \<noteq> [] then ck_update ck s (hs_account_id h) (hs_initial_cookies h) else s))"

definition session_close :: "('w \<Rightarrow> 'w) \<Rightarrow> http_session \<times> 'w \<Rightarrow> http_session \<times> 'w" where
  "session_close transport_close p =
     (if hs_opened (fst p) then ((fst p)\<lparr>hs_opened := False\<rparr>, transport_close (snd p)) else p)"

definition build_transport_request ::
  "(pyfloat \<Rightarrow> string) \<Rightarrow> http_session \<Rightarrow> base_method \<Rightarrow> bool \<Rightarrow> bool \<Rightarrow> transport_request" where
  "build_transport_request fr h m stream multipart =
     (let mr = build_request fr (hs_base_url h) m;
          headers = dict_update (mr_headers mr) (build_auth_headers (hs_cookies h));
          headers = (case dict_get headers ''user-agent'' of
                       Some _ \<Rightarrow> headers
                     | None \<Rightarrow> dict_set headers ''user-agent'' (or_default (hs_user_agent h) (hs_settings_user_agent h)));
          headers = (if stream then dict_set headers ''accept'' ''text/event-stream'' else headers)
      in \<lparr>tq_method = bm_http_method m, tq_url = mr_url mr, tq_headers = headers,
          tq_params = (if multipart then None else Some (mr_query mr)), tq_json = (if multipart then None else mr_body mr),
          tq_content = None, tq_files = (if multipart then bm_files m else None), tq_stream = stream\<rparr>)"

definition absorb_set_cookie :: "http_session \<Rightarrow> string dict \<Rightarrow> http_session" where
  "absorb_set_cookie h headers =
     (let new = cookies_from_set_cookie headers
      in if new = [] then h else h\<lparr>hs_cookies := dict_update (hs_cookies h) new\<rparr>)"

definition session_send ::
  "(transport_request \<Rightarrow> 'w \<Rightarrow> (exn + transport_response) \<times> 'w) \<Rightarrow>
     (transport_request, 'd, transport_response, http_session \<times> 's \<times> 'w) next_handler" where
  "session_send send req d st =
     (case st of (h, s, w) \<Rightarrow>
        (case send req w of
           (Inl e, w1) \<Rightarrow> (Inl e, (h, s, w1))
         | (Inr r, w1) \<Rightarrow> (Inr r, (absorb_set_cookie h (ts_headers r), s, w1))))"

definition extract_error :: "(pyfloat \<Rightarrow> string) \<Rightarrow> transport_response \<Rightarrow> string" where
  \<comment> \<open>the detail as the exception prints it\<close>
  "extract_error fr resp =
     (case ts_json_body resp of
        JObj body \<Rightarrow>
          (case dict_getd body ''error'' (JObj []) of
             JObj err \<Rightarrow> py_str fr (dict_getd err ''message'' (JStr (take 200 (ts_text resp))))
           | v \<Rightarrow> take 200 (py_str fr v))
      | _ \<Rightarrow> take 200 (ts_text resp))"

definition session_parse ::
  "(pyfloat \<Rightarrow> string) \<Rightarrow> (json \<Rightarrow> exn + 'r) \<Rightarrow> base_method \<Rightarrow> transport_response \<Rightarrow> exn + 'r parsed" where
  "session_parse fr model_validate m resp =
     (if ts_status_code resp \<ge> 400 then Inl (raise_for_status (ts_status_code resp) (extract_error fr resp))
      else (case bm_model m of
              NoneModel \<Rightarrow> Inr PNone
            | BytesModel \<Rightarrow> Inr (PBytes (ts_content resp))
            | _ \<Rightarrow> call_parse_response fr model_validate m (if ts_json_body resp \<noteq> JNull then ts_json_body resp else JStr (ts_text resp))))"

definition session_call ::
  "(pyfloat \<Rightarrow> string) \<Rightarrow> 's cookie_ops \<Rightarrow> ('m \<Rightarrow> (transport_request, unit, transport_response, http_session \<times> 's \<times> 'w) middleware) \<Rightarrow>
     'm middleware_manager \<Rightarrow> (transport_request \<Rightarrow> 'w \<Rightarrow> (exn + transport_response) \<times> 'w) \<Rightarrow> (json \<Rightarrow> exn + 'r) \<Rightarrow>
     bool \<Rightarrow> base_method \<Rightarrow> http_session \<times> 's \<times> 'w \<Rightarrow> (exn + 'r parsed) \<times> http_session \<times> 's \<times> 'w" where
  \<comment> \<open>the common body of \<open>request\<close> and \<open>multipart\<close>: open, build, run the chain, persist the cookies, parse\<close>
  "session_call fr ck run mgr send model_validate multipart m st =
     (case st of (h0, s0, w0) \<Rightarrow>
        (case session_open ck (h0, s0) of (h, s) \<Rightarrow>
           (case manager_chain run mgr (session_send send) (build_transport_request fr h m False multipart) () (h, s, w0) of
              (Inl e, st1) \<Rightarrow> (Inl e, st1)
            | (Inr resp, (h1, s1, w1)) \<Rightarrow>
                (session_parse fr model_validate m resp, (h1, ck_save ck s1 (hs_account_id h1) (hs_cookies h1), w1)))))"

definition session_request ::
  "(pyfloat \<Rightarrow> string) \<Rightarrow> 's cookie_ops \<Rightarrow> ('m \<Rightarrow> (transport_request, unit, transport_response, http_session \<times> 's \<times> 'w) middleware) \<Rightarrow>
     'm middleware_manager \<Rightarrow> (transport_request \<Rightarrow> 'w \<Rightarrow> (exn + transport_response) \<times> 'w) \<Rightarrow> (json \<Rightarrow> exn + 'r) \<Rightarrow>
     base_method \<Rightarrow> http_session \<times> 's \<times> 'w \<Rightarrow> (exn + 'r parsed) \<times> http_session \<times> 's \<times> 'w" where
  "session_request fr ck run mgr send model_validate m st = session_call fr ck run mgr send model_validate False m st"

definition session_multipart ::
  "(pyfloat \<Rightarrow> string) \<Rightarrow> 's cookie_ops \<Rightarrow> ('m \<Rightarrow> (transport_request, unit, transport_response, http_session \<times> 's \<times> 'w) middleware) \<Rightarrow>
     'm middleware_manager \<Rightarrow> (transport_request \<Rightarrow> 'w \<Rightarrow> (exn + transport_response) \<times> 'w) \<Rightarrow> (json \<Rightarrow> exn + 'r) \<Rightarrow>
     base_method \<Rightarrow> http_session \<times> 's \<times> 'w \<Rightarrow> (exn + 'r parsed) \<times> http_session \<times> 's \<times> 'w" where
  "session_multipart fr ck run mgr send model_validate m st = session_call fr ck run mgr send model_validate True m st"

definition apply_request_middleware ::
  "('m \<Rightarrow> (transport_request, unit, transport_response, 'st) middleware) \<Rightarrow> 'm middleware_manager \<Rightarrow> transport_request \<Rightarrow> 'st \<Rightarrow>
     (exn + unit) \<times> 'st" where
  "apply_request_middleware run mgr req st =
     (case manager_chain run mgr
             (\<lambda>r d st. (Inr \<lparr>ts_status_code = 0, ts_headers = [], ts_content = [], ts_text = [], ts_json_body = JNull\<rparr>, st)) req () st of
        (Inl e, st1) \<Rightarrow> (Inl e, st1)
      | (Inr _, st1) \<Rightarrow> (Inr (), st1))"

subsection \<open>The event stream\<close>

record stream_state =
  ss_event :: "string option"
  ss_data :: "string list"
  ss_text :: "json list"
  ss_thinking :: "json list"
  ss_message_uuid :: string
  ss_stop_reason :: "string option"
  ss_output_tokens :: int
  ss_limit :: limit_state                 \<comment> \<open>\<open>self.limit_state\<close>\<close>

definition stream_start :: "limit_state \<Rightarrow> stream_state" where
  "stream_start l =
     \<lparr>ss_event = None, ss_data = [], ss_text = [], ss_thinking = [], ss_message_uuid = [], ss_stop_reason = None,
      ss_output_tokens = 0, ss_limit = l\<rparr>"

definition absorb_event :: "stream_event \<Rightarrow> stream_state \<Rightarrow> stream_state" where
  \<comment> \<open>the assignments of the \<open>isinstance\<close> branches\<close>
  "absorb_event evt st =
     (case evt of
        MessageStart raw m disc \<Rightarrow> st\<lparr>ss_message_uuid := or_default (msd_uuid m) (msd_id m)\<rparr>
      | ContentBlockDelta raw i d \<Rightarrow> st\<lparr>ss_text := ss_text st @ delta_text d, ss_thinking := ss_thinking st @ delta_thinking d\<rparr>
      | MessageDelta raw d n \<Rightarrow> st\<lparr>ss_stop_reason := sd_stop_reason d, ss_output_tokens := n\<rparr>
      | MessageLimit raw info \<Rightarrow> st\<lparr>ss_limit := limit_state_update (ss_limit st) info\<rparr>
      | _ \<Rightarrow> st)"

definition event_notices :: "string \<Rightarrow> stream_event \<Rightarrow> stream_state \<Rightarrow> event_body list" where
  \<comment> \<open>what the branches publish, with the updated variables\<close>
  "event_notices conv_uuid evt st =
     (case evt of
        MessageStart raw m disc \<Rightarrow> [AssistantMessageStartedEvent conv_uuid (ss_message_uuid st) (msd_parent_uuid m) (msd_model m)]
      | MessageLimit raw info \<Rightarrow>
          [LimitUpdatedEvent (map (\<lambda>(k, v). (k, limit_window_dump v)) (ml_windows info)) (ml_representativeClaim info) (ml_overageInUse info)]
      | _ \<Rightarrow> [])"

definition complete_notice :: "string \<Rightarrow> stream_state \<Rightarrow> exn + event_body" where
  "complete_notice conv_uuid st =
     bind_result (join_parts (ss_text st)) (\<lambda>t. bind_result (join_parts (ss_thinking st)) (\<lambda>k.
       Inr (AssistantMessageCompleteEvent conv_uuid (ss_message_uuid st) t k (ss_stop_reason st) (ss_output_tokens st))))"

record 'w stream_env =
  se_validate :: validator
  se_jmsg :: "string \<Rightarrow> string"
  se_conv :: string
  se_account :: string
  se_bus :: "(event \<Rightarrow> 'w \<Rightarrow> (exn + unit) \<times> 'w) option"        \<comment> \<open>\<open>bus.publish\<close>\<close>
  se_clock :: "'w \<Rightarrow> pyfloat"
  se_dispatch :: "stream_event \<Rightarrow> string \<Rightarrow> string \<Rightarrow> 'w \<Rightarrow> (exn + unit) \<times> 'w"

definition dispatch_stream ::
  "('m \<Rightarrow> (stream_event, json dict, unit, 'w) middleware) \<Rightarrow> 'm middleware_manager \<Rightarrow> stream_event \<Rightarrow> string \<Rightarrow> string \<Rightarrow> 'w \<Rightarrow> (exn + unit) \<times> 'w" where
  "dispatch_stream run mgr evt conv_uuid message_uuid w =
     (if mm_stack mgr = [] then (Inr (), w)
      else manager_chain run mgr (\<lambda>e d w. (Inr (), w)) evt [(''conv_uuid'', JStr conv_uuid), (''message_uuid'', JStr message_uuid)] w)"

fun publish_all :: "'w stream_env \<Rightarrow> event_body list \<Rightarrow> 'w \<Rightarrow> (exn + unit) \<times> 'w" where
  \<comment> \<open>publishing without a bus does nothing\<close>
  "publish_all env [] w = (Inr (), w)"
| "publish_all env (b # bs) w =
     (case se_bus env of
        None \<Rightarrow> (Inr (), w)
      | Some publish \<Rightarrow>
          (case publish (mk_event (se_clock env w) (Some (se_account env)) b) w of
             (Inl e, w1) \<Rightarrow> (Inl e, w1)
           | (Inr _, w1) \<Rightarrow> publish_all env bs w1))"

definition handle_event ::
  "'w stream_env \<Rightarrow> stream_event \<Rightarrow> stream_state \<Rightarrow> 'w \<Rightarrow> stream_event list \<times> exn option \<times> stream_state \<times> 'w" where
  \<comment> \<open>one event: branch assignments and notices, middlewares, chunk notice, \<open>yield\<close>, completion notice\<close>
  "handle_event env evt st w =
     (let st1 = absorb_event evt st in
      case publish_all env (event_notices (se_conv env) evt st1) w of
        (Inl e, w1) \<Rightarrow> ([], Some e, st1, w1)
      | (Inr _, w1) \<Rightarrow>
          (case se_dispatch env evt (se_conv env) (ss_message_uuid st1) w1 of
             (Inl e, w2) \<Rightarrow> ([], Some e, st1, w2)
           | (Inr _, w2) \<Rightarrow>
               (case publish_all env [StreamChunkEvent (se_conv env) (Some evt)] w2 of
                  (Inl e, w3) \<Rightarrow> ([], Some e, st1, w3)
                | (Inr _, w3) \<Rightarrow>
                    if event_type_of evt = stream_event_type_value MESSAGE_STOP \<and> se_bus env \<noteq> None then
                      (case complete_notice (se_conv env) st1 of
                         Inl e \<Rightarrow> ([evt], Some e, st1, w3)
                       | Inr b \<Rightarrow>
                           (case publish_all env [b] w3 of
                              (Inl e, w4) \<Rightarrow> ([evt], Some e, st1, w4)
                            | (Inr _, w4) \<Rightarrow> ([evt], None, st1, w4)))
                    else ([evt], None, st1, w3))))"

definition end_of_frame :: "stream_state \<Rightarrow> stream_state" where
  "end_of_frame st = st\<lparr>ss_event := None, ss_data := []\<rparr>"

definition frame_event :: "'w stream_env \<Rightarrow> stream_state \<Rightarrow> exn + stream_event" where
  "frame_event env st =
     bind_result (parse_data (se_jmsg env) (join [CHR 0x0A] (ss_data st))) (build_event_from_payload (se_validate env) (the (ss_event st)))"

fun iterate_stream ::
  "'w stream_env \<Rightarrow> string list \<Rightarrow> stream_state \<Rightarrow> 'w \<Rightarrow> stream_event list \<times> exn option \<times> stream_state \<times> 'w" where
  "iterate_stream env [] st w = ([], None, st, w)"
| "iterate_stream env (line # lines) st w =
     (let l = rstrip_chars is_crlf line in
      case parse_line l of
        Some (field, v) \<Rightarrow>
          iterate_stream env lines
            (if field = ''event'' then st\<lparr>ss_event := Some v\<rparr>
             else if field = ''data'' \<and> opt_str (ss_event st) \<noteq> [] then st\<lparr>ss_data := ss_data st @ [v]\<rparr>
             else st) w
      | None \<Rightarrow>
          if startswith l '':'' then iterate_stream env lines st w
          else if has_event (ss_event st) (ss_data st) then
            (case frame_event env st of
               Inl e \<Rightarrow> ([], Some e, st, w)
             | Inr evt \<Rightarrow>
                 (case handle_event env evt st w of
                    (ys, Some e, st1, w1) \<Rightarrow> (ys, Some e, st1, w1)
                  | (ys, None, st1, w1) \<Rightarrow>
                      (case iterate_stream env lines (end_of_frame st1) w1 of (zs, r) \<Rightarrow> (ys @ zs, r))))
          else iterate_stream env lines (end_of_frame st) w)"

definition session_stream ::
  "(pyfloat \<Rightarrow> string) \<Rightarrow> 's cookie_ops \<Rightarrow> ('m \<Rightarrow> (transport_request, unit, transport_response, http_session \<times> 's \<times> 'w) middleware) \<Rightarrow>
     'm middleware_manager \<Rightarrow> (transport_request \<Rightarrow> 'w \<Rightarrow> (exn + string list) \<times> 'w) \<Rightarrow> 'w stream_env \<Rightarrow>
     base_method \<Rightarrow> http_session \<times> 's \<times> 'w \<Rightarrow> stream_event list \<times> (exn + unit) \<times> http_session \<times> 's \<times> 'w" where
  \<comment> \<open>\<open>stream\<close> with its generator run to the end; \<open>tstream\<close> is \<open>transport.stream\<close> with the lines it will give\<close>
  "session_stream fr ck run mgr tstream env m st =
     (case st of (h0, s0, w0) \<Rightarrow>
        (case session_open ck (h0, s0) of (h, s) \<Rightarrow>
           (let req = (build_transport_request fr h m True False)\<lparr>tq_method := ''POST''\<rparr> in
            case apply_request_middleware run mgr req (h, s, w0) of
              (Inl e, st1) \<Rightarrow> ([], Inl e, st1)
            | (Inr _, (h1, s1, w1)) \<Rightarrow>
                (case tstream req w1 of
                   (Inl e, w2) \<Rightarrow> ([], Inl e, (h1, s1, w2))
                 | (Inr lines, w2) \<Rightarrow>
                     (case iterate_stream env lines (stream_start (hs_limit_state h1)) w2 of
                        (ys, err, st2, w3) \<Rightarrow>
                          (ys, case err of None \<Rightarrow> Inr () | Some e \<Rightarrow> Inl e, (h1\<lparr>hs_limit_state := ss_limit st2\<rparr>, s1, w3)))))))"

end
