(* ===== verification/Session_Laws.thy ===== *)
theory Session_Laws
  imports Http_Session
begin

section \<open>Laws of the session and of its event stream\<close>

text \<open>
  The parsers on well-formed streams, the agreement of the session's completion notice with \<^verbatim>\<open>StreamCollector\<close>, and the behaviour of
  \<^verbatim>\<open>request\<close> on every status.
\<close>

subsection \<open>Well-formed streams\<close>

definition sse_lines :: "(pyfloat \<Rightarrow> string) \<Rightarrow> (string \<times> json) list \<Rightarrow> string list" where
  \<comment> \<open>one frame per event: its name, its payload on one line, a blank line\<close>
  "sse_lines fr fs = concat (map (\<lambda>(e, v). [''event: '' @ e, ''data: '' @ json_dumps fr v, []]) fs)"

definition sse_text :: "(pyfloat \<Rightarrow> string) \<Rightarrow> (string \<times> json) list \<Rightarrow> string" where
  "sse_text fr fs = concat (map (\<lambda>l. l @ [CHR 0x0A]) (sse_lines fr fs))"

fun is_obj :: "json \<Rightarrow> bool" where
  "is_obj (JObj d) = True"
| "is_obj _ = False"

definition sse_frame_ok :: "string \<times> json \<Rightarrow> bool" where
  "sse_frame_ok p \<longleftrightarrow> fst p \<noteq> [] \<and> hd (fst p) \<noteq> CHR '' '' \<and> list_all (\<lambda>c. \<not> line_boundary c) (fst p) \<and>
     is_obj (snd p) \<and> plain (snd p)"

lemma crlf_boundary: "is_crlf c \<Longrightarrow> line_boundary c"
  by (auto simp: is_crlf_def line_boundary_def)

lemma ascii_no_boundary: "32 \<le> (of_char c :: nat) \<Longrightarrow> (of_char c :: nat) \<le> 126 \<Longrightarrow> \<not> line_boundary c"
  by (auto simp: line_boundary_def)

lemma string_of_int_ascii: "c \<in> set (string_of_int i) \<Longrightarrow> 32 \<le> (of_char c :: nat) \<and> (of_char c :: nat) \<le> 126"
  using string_of_nat_digits by (auto simp: string_of_int_def is_digit_def Let_def split: if_splits) force+

lemma join_ascii:
  "\<forall>s \<in> set ss. \<forall>c \<in> set s. 32 \<le> (of_char c :: nat) \<and> (of_char c :: nat) \<le> 126 \<Longrightarrow>
     \<forall>c \<in> set (join '', '' ss). 32 \<le> (of_char c :: nat) \<and> (of_char c :: nat) \<le> 126"
  using set_join [of "'', ''" ss] by fastforce

lemma dumps_ascii: "plain v \<Longrightarrow> \<forall>c \<in> set (json_dumps fr v). 32 \<le> (of_char c :: nat) \<and> (of_char c :: nat) \<le> 126"
proof (induction v)
  case (JInt i)
  then show ?case using string_of_int_ascii by auto
next
  case (JStr s)
  then show ?case using dump_string_ascii by simp
next
  case (JList xs)
  then have "\<forall>c \<in> set (join '', '' (map (json_dumps fr) xs)). 32 \<le> (of_char c :: nat) \<and> (of_char c :: nat) \<le> 126"
    by (intro join_ascii) simp
  then show ?case by simp
next
  case (JObj d)
  have "\<forall>c \<in> set (dump_member fr p). 32 \<le> (of_char c :: nat) \<and> (of_char c :: nat) \<le> 126" if "p \<in> set d" for p
  proof -
    have "\<forall>c \<in> set (json_dumps fr (snd p)). 32 \<le> (of_char c :: nat) \<and> (of_char c :: nat) \<le> 126"
      using JObj.IH [of p "snd p"] JObj.prems that by (simp add: snds.simps)
    moreover have "\<forall>c \<in> set '': ''. 32 \<le> (of_char c :: nat) \<and> (of_char c :: nat) \<le> 126" by code_simp
    ultimately show ?thesis using dump_string_ascii [of "fst p"] unfolding dump_member_def set_append by blast
  qed
  then have "\<forall>c \<in> set (join '', '' (map (dump_member fr) d)). 32 \<le> (of_char c :: nat) \<and> (of_char c :: nat) \<le> 126"
    by (intro join_ascii) simp
  then show ?case by (simp add: json_dumps_obj del: json_dumps.simps)
qed auto

lemma parse_line_field:
  assumes "f \<noteq> []" and "CHR '':'' \<notin> set f" and "x \<noteq> []" and "hd x \<noteq> CHR '' ''" and "\<forall>c \<in> set x. \<not> is_crlf c"
  shows "parse_line (f @ '': '' @ x) = Some (f, x)" and "rstrip_chars is_crlf (f @ '': '' @ x) = f @ '': '' @ x"
proof -
  have "rev x \<noteq> []" "\<not> is_crlf (hd (rev x))" using assms(3,5) by (auto simp: hd_rev)
  then show r: "rstrip_chars is_crlf (f @ '': '' @ x) = f @ '': '' @ x"
    by (cases "rev x") (auto simp: rstrip_chars_def)
  have "partition_char (CHR '':'') (f @ '': '' @ x) = (f, True, CHR '' '' # x)" using assms(2) by (simp add: partition_char_sep)
  moreover have "lstrip_chars (\<lambda>c. c = CHR '' '') (CHR '' '' # x) = x" using assms(3,4) by (cases x) (auto simp: lstrip_chars_def)
  moreover have "\<not> startswith (f @ '': '' @ x) '':''" using assms(1,2) by (cases f) auto
  ultimately show "parse_line (f @ '': '' @ x) = Some (f, x)" using r assms(1) by (simp add: parse_line_def Let_def)
qed

lemma frame_lines:
  assumes "sse_frame_ok (e, v)"
  shows "parse_line (''event: '' @ e) = Some (''event'', e)" "parse_line (''data: '' @ json_dumps fr v) = Some (''data'', json_dumps fr v)"
    and "rstrip_chars is_crlf (''event: '' @ e) = ''event: '' @ e" "rstrip_chars is_crlf (''data: '' @ json_dumps fr v) = ''data: '' @ json_dumps fr v"
proof -
  have "\<forall>c \<in> set e. \<not> is_crlf c" using assms crlf_boundary by (auto simp: sse_frame_ok_def list_all_iff)
  then show "parse_line (''event: '' @ e) = Some (''event'', e)" "rstrip_chars is_crlf (''event: '' @ e) = ''event: '' @ e"
    using parse_line_field [of "''event''" e] assms by (simp_all add: sse_frame_ok_def)
  have p: "plain v" using assms by (simp add: sse_frame_ok_def)
  have "\<forall>c \<in> set (json_dumps fr v). \<not> is_crlf c" using dumps_ascii [OF p, of fr] ascii_no_boundary crlf_boundary by blast
  moreover have "json_dumps fr v \<noteq> []" "hd (json_dumps fr v) \<noteq> CHR '' ''"
    using dump_first_dumps [OF p, of fr] by (cases "json_dumps fr v"; auto simp: json_ws_def)+
  ultimately show "parse_line (''data: '' @ json_dumps fr v) = Some (''data'', json_dumps fr v)"
    "rstrip_chars is_crlf (''data: '' @ json_dumps fr v) = ''data: '' @ json_dumps fr v"
    using parse_line_field [of "''data''" "json_dumps fr v"] by simp_all
qed

lemma chunk_loop_frames:
  "\<forall>p \<in> set fs. sse_frame_ok p \<Longrightarrow> chunk_loop jmsg (sse_lines fr fs) None [] acc = Inr (acc @ fs)"
proof (induction fs arbitrary: acc)
  case Nil
  then show ?case by (simp add: sse_lines_def flush_event_def has_event_def)
next
  case (Cons p fs)
  obtain e v where p: "p = (e, v)" by (cases p)
  then have ok: "sse_frame_ok (e, v)" using Cons.prems by simp
  note fl = frame_lines(1) [OF ok] frame_lines(2) [OF ok, of fr]
  have "parse_data jmsg (json_dumps fr v) = Inr v" using ok by (simp add: parse_data_def json_roundtrip sse_frame_ok_def)
  moreover have "e \<noteq> []" using ok by (simp add: sse_frame_ok_def)
  moreover have "parse_line [] = None" by (simp add: parse_line_def rstrip_chars_def)
  moreover have "sse_lines fr (p # fs) = (''event: '' @ e) # (''data: '' @ json_dumps fr v) # [] # sse_lines fr fs"
    by (simp add: p sse_lines_def)
  ultimately show ?case using Cons fl by (simp only: chunk_loop.simps) (simp add: p flush_event_def has_event_def)
qed

lemma splitlines_line: "list_all (\<lambda>c. \<not> line_boundary c) l \<Longrightarrow> splitlines (l @ CHR 0x0A # t) = l # splitlines t"
proof (induction l)
  case Nil
  then show ?case by (simp add: line_boundary_def)
next
  case (Cons c l)
  then show ?case by simp
qed

lemma splitlines_text:
  "\<forall>l \<in> set ls. list_all (\<lambda>c. \<not> line_boundary c) l \<Longrightarrow> splitlines (concat (map (\<lambda>l. l @ [CHR 0x0A]) ls)) = ls"
  by (induction ls) (simp_all add: splitlines_line)

lemma sse_lines_no_boundary:
  assumes "\<forall>p \<in> set fs. sse_frame_ok p" and "l \<in> set (sse_lines fr fs)"
  shows "list_all (\<lambda>c. \<not> line_boundary c) l"
proof -
  obtain p where p: "p \<in> set fs" and l: "l = ''event: '' @ fst p \<or> l = ''data: '' @ json_dumps fr (snd p) \<or> l = []"
  proof -
    have "\<exists>p \<in> set fs. l = ''event: '' @ fst p \<or> l = ''data: '' @ json_dumps fr (snd p) \<or> l = []"
      using assms(2) by (force simp: sse_lines_def)
    then show ?thesis using that by blast
  qed
  have ok: "sse_frame_ok p" using assms(1) p by simp
  then have "list_all (\<lambda>c. \<not> line_boundary c) (json_dumps fr (snd p))" "list_all (\<lambda>c. \<not> line_boundary c) (fst p)"
    using dumps_ascii [of "snd p" fr] ascii_no_boundary unfolding sse_frame_ok_def list_all_iff by blast+
  moreover have "list_all (\<lambda>c. \<not> line_boundary c) ''event: ''" "list_all (\<lambda>c. \<not> line_boundary c) ''data: ''" by code_simp+
  ultimately show ?thesis using l by (elim disjE) simp_all
qed

definition quiet :: "'w stream_env \<Rightarrow> bool" where
  \<comment> \<open>no bus and no stream middleware\<close>
  "quiet env \<longleftrightarrow> se_bus env = None \<and> se_dispatch env = (\<lambda>e c u w. (Inr (), w))"

lemma publish_quiet: "quiet env \<Longrightarrow> publish_all env bs w = (Inr (), w)"
  by (cases bs) (simp_all add: quiet_def)

lemma handle_quiet: "quiet env \<Longrightarrow> handle_event env evt st w = ([evt], None, absorb_event evt st, w)"
  by (simp add: handle_event_def Let_def publish_quiet) (simp add: quiet_def)

lemma absorb_frame_vars: "ss_event (absorb_event evt st) = ss_event st" "ss_data (absorb_event evt st) = ss_data st"
  by (simp_all add: absorb_event_def split: stream_event.splits)

definition field_state :: "string \<Rightarrow> string \<Rightarrow> stream_state \<Rightarrow> stream_state" where
  \<comment> \<open>the effect of one field line\<close>
  "field_state f v st =
     (if f = ''event'' then st\<lparr>ss_event := Some v\<rparr>
      else if f = ''data'' \<and> opt_str (ss_event st) \<noteq> [] then st\<lparr>ss_data := ss_data st @ [v]\<rparr> else st)"

lemma iterate_field:
  "parse_line (rstrip_chars is_crlf l) = Some (f, v) \<Longrightarrow> iterate_stream env (l # lines) st w = iterate_stream env lines (field_state f v st) w"
  by (simp add: field_state_def)

lemma iterate_frames:
  assumes "quiet env"
  shows "\<forall>p \<in> set fs. sse_frame_ok p \<Longrightarrow> ss_event st = None \<Longrightarrow> ss_data st = [] \<Longrightarrow>
    map_result (\<lambda>(e, v). build_event_from_payload (se_validate env) e v) fs = Inr evs \<Longrightarrow>
    \<exists>st'. iterate_stream env (sse_lines fr fs) st w = (evs, None, st', w)"
proof (induction fs arbitrary: st evs)
  case Nil
  then show ?case by (simp add: sse_lines_def)
next
  case (Cons p fs)
  obtain e v where p: "p = (e, v)" by (cases p)
  then have ok: "sse_frame_ok (e, v)" using Cons.prems by simp
  obtain evt evs' where ev: "build_event_from_payload (se_validate env) e v = Inr evt" "evs = evt # evs'"
    "map_result (\<lambda>(e, v). build_event_from_payload (se_validate env) e v) fs = Inr evs'"
    using Cons.prems(4) by (auto simp: p bind_result_Inr_iff)
  define st2 where "st2 = st\<lparr>ss_event := Some e, ss_data := [json_dumps fr v]\<rparr>"
  define st3 where "st3 = end_of_frame (absorb_event evt st2)"
  have "ss_event st3 = None" "ss_data st3 = []" by (simp_all add: st3_def end_of_frame_def)
  from Cons.IH [OF _ this ev(3)] Cons.prems(1) obtain st' where
    r: "iterate_stream env (sse_lines fr fs) st3 w = (evs', None, st', w)" by auto
  have fe: "frame_event env st2 = Inr evt"
    using ok ev(1) by (simp add: frame_event_def st2_def parse_data_def json_roundtrip sse_frame_ok_def)
  have ne: "e \<noteq> []" using ok by (simp add: sse_frame_ok_def)
  have lines: "sse_lines fr (p # fs) = (''event: '' @ e) # (''data: '' @ json_dumps fr v) # [] # sse_lines fr fs"
    by (simp add: p sse_lines_def)
  have blank: "rstrip_chars is_crlf [] = []" "parse_line [] = None" by (simp_all add: parse_line_def rstrip_chars_def)
  have "iterate_stream env (sse_lines fr (p # fs)) st w = iterate_stream env ([] # sse_lines fr fs) st2 w"
  proof -
    have "field_state ''data'' (json_dumps fr v) (field_state ''event'' e st) = st2"
      using ne Cons.prems(3) by (simp add: field_state_def st2_def opt_str_def)
    moreover have p1: "parse_line (rstrip_chars is_crlf (''event: '' @ e)) = Some (''event'', e)"
      unfolding frame_lines(3) [OF ok] by (rule frame_lines(1) [OF ok])
    have p2: "parse_line (rstrip_chars is_crlf (''data: '' @ json_dumps fr v)) = Some (''data'', json_dumps fr v)"
      unfolding frame_lines(4) [OF ok] by (rule frame_lines(2) [OF ok])
    ultimately show ?thesis unfolding lines iterate_field [OF p1] iterate_field [OF p2] by (simp only:)
  qed
  also have "\<dots> = (evs, None, st', w)"
    using fe r ne ev(2) by (simp add: Let_def blank has_event_def st2_def [symmetric] handle_quiet [OF assms] st3_def [symmetric])
       (simp add: st2_def has_event_def)
  finally show ?case by blast
qed

subsection \<open>The completion notice\<close>

definition tracks :: "stream_state \<Rightarrow> stream_event list \<Rightarrow> bool" where
  \<comment> \<open>the variables of the session agree with a collector that has seen the events\<close>
  "tracks st ys \<longleftrightarrow>
     (case fold collect_step ys (completion_result_default, [], []) of
        (r, tp, kp) \<Rightarrow> ss_text st = tp \<and> ss_thinking st = kp \<and> ss_stop_reason st = cr_stop_reason r \<and>
                       ss_output_tokens st = cr_output_tokens r)"

lemma tracks_absorb: "tracks st ys \<Longrightarrow> tracks (absorb_event evt st) (ys @ [evt])"
  by (auto simp: tracks_def absorb_event_def collect_step_def split: prod.splits stream_event.splits)

lemma tracks_frame_vars: "tracks (st\<lparr>ss_event := a, ss_data := b\<rparr>) ys = tracks st ys" "tracks (end_of_frame st) ys = tracks st ys"
  "tracks (st\<lparr>ss_event := a\<rparr>) ys = tracks st ys" "tracks (st\<lparr>ss_data := b\<rparr>) ys = tracks st ys"
  by (simp_all add: tracks_def end_of_frame_def split: prod.splits)

lemma complete_notice_collect:
  assumes "tracks st ys" and "complete_notice conv st = Inr b"
  shows "\<exists>r uuid. collect ys = Inr r \<and>
    b = AssistantMessageCompleteEvent conv uuid (cr_text r) (cr_thinking r) (cr_stop_reason r) (cr_output_tokens r)"
  using assms by (auto simp: tracks_def complete_notice_def collect_def bind_result_Inr_iff split: prod.splits)

definition logs_bus :: "event list stream_env \<Rightarrow> bool" where
  \<comment> \<open>a bus that accepts every event, and stream middlewares that leave it alone\<close>
  "logs_bus env \<longleftrightarrow> se_bus env = Some (\<lambda>ev log. (Inr (), log @ [ev])) \<and> (\<forall>e c u w. snd (se_dispatch env e c u w) = w)"

definition notice_ok :: "string \<Rightarrow> stream_event list \<Rightarrow> event_body \<Rightarrow> bool" where
  \<comment> \<open>a completion notice tells what \<open>collect\<close> returns for the events up to a \<open>message_stop\<close>\<close>
  "notice_ok conv ys b \<longleftrightarrow>
     (case b of
        AssistantMessageCompleteEvent c uuid t k sr n \<Rightarrow>
          c = conv \<and> (\<exists>pre stop post r. ys = pre @ [stop] @ post \<and> event_type_of stop = stream_event_type_value MESSAGE_STOP \<and>
             collect (pre @ [stop]) = Inr r \<and> cr_text r = t \<and> cr_thinking r = k \<and> cr_stop_reason r = sr \<and> cr_output_tokens r = n)
      | _ \<Rightarrow> True)"

lemma notice_ok_extend: "notice_ok conv ys b \<Longrightarrow> notice_ok conv (ys @ zs) b"
  by (cases b) (auto simp: notice_ok_def, metis append.assoc append_Cons)

lemma event_notices_ok: "b \<in> set (event_notices conv evt st) \<Longrightarrow> notice_ok conv ys b"
  by (cases evt) (auto simp: event_notices_def notice_ok_def)

lemma publish_all_log:
  assumes "logs_bus env"
  shows "\<exists>evs. publish_all env bs lg = (Inr (), lg @ evs) \<and> map ev_body evs = bs"
proof (induction bs arbitrary: lg)
  case Nil
  then show ?case by simp
next
  case (Cons b bs)
  let ?ev = "mk_event (se_clock env lg) (Some (se_account env)) b"
  obtain evs where "publish_all env bs (lg @ [?ev]) = (Inr (), (lg @ [?ev]) @ evs)" "map ev_body evs = bs" using Cons.IH by blast
  then show ?case using assms by (intro exI [of _ "?ev # evs"]) (simp add: logs_bus_def mk_event_def)
qed

definition log_ok :: "string \<Rightarrow> stream_event list \<Rightarrow> event list \<Rightarrow> bool" where
  "log_ok conv ys lg \<longleftrightarrow> (\<forall>ev \<in> set lg. notice_ok conv ys (ev_body ev))"

lemma log_ok_extend: "log_ok conv ys lg \<Longrightarrow> log_ok conv (ys @ zs) lg"
  by (simp add: log_ok_def notice_ok_extend)

lemma log_ok_append:
  "log_ok conv ys lg \<Longrightarrow> map ev_body evs = bs \<Longrightarrow> \<forall>b \<in> set bs. notice_ok conv ys b \<Longrightarrow> log_ok conv ys (lg @ evs)"
  by (auto simp: log_ok_def)

lemma notice_ok_chunk: "notice_ok conv ys (StreamChunkEvent c e)"
  by (simp add: notice_ok_def)

lemma handle_event_log:
  assumes env: "logs_bus env" and tr: "tracks st ys" and lg: "log_ok (se_conv env) ys lg"
    and h: "handle_event env evt st lg = (zs, err, st1, lg')"
  shows "log_ok (se_conv env) (ys @ zs) lg' \<and> (err = None \<longrightarrow> zs = [evt] \<and> tracks st1 (ys @ [evt]))"
proof -
  let ?st = "absorb_event evt st"
  have tr1: "tracks ?st (ys @ [evt])" by (rule tracks_absorb [OF tr])
  obtain evs1 where p1: "publish_all env (event_notices (se_conv env) evt ?st) lg = (Inr (), lg @ evs1)"
    "map ev_body evs1 = event_notices (se_conv env) evt ?st" using publish_all_log [OF env] by blast
  have l1: "log_ok (se_conv env) ys (lg @ evs1)" using log_ok_append [OF lg p1(2)] event_notices_ok by blast
  obtain d where d: "se_dispatch env evt (se_conv env) (ss_message_uuid ?st) (lg @ evs1) = (d, lg @ evs1)"
    using env by (metis logs_bus_def prod.collapse)
  show ?thesis
  proof (cases d)
    case (Inl e)
    then show ?thesis using h p1(1) d l1 by (auto simp: handle_event_def Let_def)
  next
    case (Inr x)
    obtain evs2 where p2: "publish_all env [StreamChunkEvent (se_conv env) (Some evt)] (lg @ evs1) = (Inr (), (lg @ evs1) @ evs2)"
      "map ev_body evs2 = [StreamChunkEvent (se_conv env) (Some evt)]" using publish_all_log [OF env] by blast
    have "log_ok (se_conv env) ys ((lg @ evs1) @ evs2)" using log_ok_append [OF l1 p2(2)] notice_ok_chunk by auto
    then have l2: "log_ok (se_conv env) (ys @ [evt]) ((lg @ evs1) @ evs2)" by (rule log_ok_extend)
    have bus: "se_bus env \<noteq> None" using env by (simp add: logs_bus_def)
    show ?thesis
    proof (cases "event_type_of evt = stream_event_type_value MESSAGE_STOP")
      case False
      then show ?thesis using h p1(1) d Inr p2(1) l2 tr1 by (auto simp: handle_event_def Let_def)
    next
      case stop: True
      show ?thesis
      proof (cases "complete_notice (se_conv env) ?st")
        case (Inl e)
        then show ?thesis using h p1(1) d Inr p2(1) l2 stop bus by (auto simp: handle_event_def Let_def)
      next
        case b: (Inr b)
        have "notice_ok (se_conv env) (ys @ [evt]) b"
          using complete_notice_collect [OF tr1 b] stop by (fastforce simp: notice_ok_def)
        moreover obtain evs3 where p3: "publish_all env [b] ((lg @ evs1) @ evs2) = (Inr (), ((lg @ evs1) @ evs2) @ evs3)"
          "map ev_body evs3 = [b]" using publish_all_log [OF env] by blast
        ultimately have "log_ok (se_conv env) (ys @ [evt]) (((lg @ evs1) @ evs2) @ evs3)" using log_ok_append [OF l2 p3(2)] by auto
        then show ?thesis using h p1(1) d Inr p2(1) p3(1) stop bus b tr1 by (auto simp: handle_event_def Let_def)
      qed
    qed
  qed
qed

lemma iterate_log:
  assumes "logs_bus env"
  shows "tracks st ys \<Longrightarrow> log_ok (se_conv env) ys lg \<Longrightarrow> iterate_stream env lines st lg = (zs, err, st', lg') \<Longrightarrow>
    log_ok (se_conv env) (ys @ zs) lg'"
proof (induction lines arbitrary: st ys lg zs)
  case Nil
  then show ?case by simp
next
  case (Cons line lines)
  let ?l = "rstrip_chars is_crlf line"
  show ?case
  proof (cases "parse_line ?l")
    case (Some fv)
    obtain f v where fv: "fv = (f, v)" by (cases fv)
    have "tracks (field_state f v st) ys" using Cons.prems(1) by (simp add: field_state_def tracks_frame_vars)
    moreover have "iterate_stream env lines (field_state f v st) lg = (zs, err, st', lg')"
      using Cons.prems(3) unfolding iterate_field [OF Some [unfolded fv]] .
    ultimately show ?thesis using Cons.IH Cons.prems(2) by blast
  next
    case None
    show ?thesis
    proof (cases "\<not> startswith ?l '':'' \<and> has_event (ss_event st) (ss_data st)")
      case False
      define st2 where "st2 = (if startswith ?l '':'' then st else end_of_frame st)"
      have "iterate_stream env lines st2 lg = (zs, err, st', lg')" "tracks st2 ys"
        using None False Cons.prems(1,3) by (auto simp: st2_def Let_def tracks_frame_vars split: if_splits)
      then show ?thesis using Cons.IH Cons.prems(2) by blast
    next
      case True
      show ?thesis
      proof (cases "frame_event env st")
        case (Inl e)
        with None True Cons.prems show ?thesis by (simp add: Let_def)
      next
        case (Inr evt)
        obtain ys1 err1 st1 lg1 where h: "handle_event env evt st lg = (ys1, err1, st1, lg1)" by (metis prod_cases4)
        note hl = handle_event_log [OF assms Cons.prems(1,2) h]
        show ?thesis
        proof (cases err1)
          case (Some e)
          with None True Inr h hl Cons.prems(3) show ?thesis by (simp add: Let_def)
        next
          case ok: None
          obtain zs2 r where it: "iterate_stream env lines (end_of_frame st1) lg1 = (zs2, r)"
            by (metis prod.collapse)
          have z: "zs = ys1 @ zs2" "r = (err, st', lg')" using None True Inr h ok it Cons.prems(3) by (auto simp: Let_def)
          have "log_ok (se_conv env) ((ys @ ys1) @ zs2) lg'"
          proof (rule Cons.IH)
            show "tracks (end_of_frame st1) (ys @ ys1)" "log_ok (se_conv env) (ys @ ys1) lg1"
              using hl ok by (auto simp: tracks_frame_vars)
            show "iterate_stream env lines (end_of_frame st1) lg1 = (zs2, err, st', lg')" using it z(2) by simp
          qed
          then show ?thesis by (simp add: z)
        qed
      qed
    qed
  qed
qed

subsection \<open>Requests\<close>

lemma session_open_once: "session_open ck (session_open ck p) = session_open ck p"
  by (cases p) (auto simp: session_open_def)

lemma session_open_fields:
  "session_open ck (h, s) = (h', s') \<Longrightarrow> hs_opened h' \<and> hs_account_id h' = hs_account_id h \<and> hs_base_url h' = hs_base_url h"
  by (auto simp: session_open_def split: if_splits)

lemma absorb_account [simp]: "hs_account_id (absorb_set_cookie h hs) = hs_account_id h"
  by (simp add: absorb_set_cookie_def Let_def)

lemma dict_update_empty [simp]: "dict_update d [] = d"
  by (simp add: dict_update_def)

lemma absorb_cookies: "hs_cookies (absorb_set_cookie h hs) = dict_update (hs_cookies h) (cookies_from_set_cookie hs)"
  by (simp add: absorb_set_cookie_def Let_def)

lemma session_call_plain:
  assumes "mm_stack mgr = []" and "session_open ck (h0, s0) = (h, s)"
    and "send (build_transport_request fr h m False mp) wa = (Inr resp, wb)"
  shows "session_call fr ck run mgr send val mp m (h0, s0, wa) =
    (session_parse fr val m resp, (absorb_set_cookie h (ts_headers resp),
       ck_save ck s (hs_account_id h) (dict_update (hs_cookies h) (cookies_from_set_cookie (ts_headers resp))), wb))"
  using assms by (simp add: session_call_def manager_chain_def session_send_def absorb_cookies)

definition demo_session :: http_session where
  "demo_session = session_init ''acc'' (Some [(''sessionKey'', ''k'')]) ''https://claude.ai'' ''UA'' None False"

definition demo_method :: base_method where
  "demo_method = GetAccess ''o1''"

definition demo_limited :: transport_response where
  "demo_limited = \<lparr>ts_status_code = 429, ts_headers = [(''set-cookie'', ''lastActive=1; Path=/'')], ts_content = [], ts_text = ''slow down'',
     ts_json_body = JNull\<rparr>"

definition demo_env :: "event list stream_env" where
  "demo_env = \<lparr>se_validate = (\<lambda>t d. None), se_jmsg = (\<lambda>s. []), se_conv = ''c'', se_account = ''acc'',
     se_bus = Some (\<lambda>ev lg. (Inr (), lg @ [ev])), se_clock = (\<lambda>w. 0), se_dispatch = (\<lambda>e c u w. (Inr (), w))\<rparr>"

definition demo_quiet :: "unit stream_env" where
  "demo_quiet = \<lparr>se_validate = (\<lambda>t d. None), se_jmsg = (\<lambda>s. []), se_conv = ''c'', se_account = ''acc'',
     se_bus = None, se_clock = (\<lambda>w. 0), se_dispatch = (\<lambda>e c u w. (Inr (), w))\<rparr>"

definition demo_frames :: "(string \<times> json) list" where
  "demo_frames = [(''message_start'', JObj [(''id'', JStr ''m'')]), (''message_stop'', JObj [(''n'', JInt (- 3))])]"

subsection \<open>Properties\<close>

text \<open>
  C11. The two stream parsers agree and invert the wire format: on every sequence of frames (an event name, a JSON object without floats on one data line, a blank
  line), \<open>SSEParser.parse_chunk\<close> returns exactly the frames, and a session without bus and stream middleware yields exactly the
  typed events of the frames, in order, without an error.
\<close>

theorem sse_parsers_agree:
  assumes "\<forall>p \<in> set fs. sse_frame_ok p" and "quiet env"
    and "map_result (\<lambda>(e, v). build_event_from_payload (se_validate env) e v) fs = Inr evs"
  shows "parse_chunk jmsg (sse_text fr fs) = Inr fs \<and>
    (\<exists>st. iterate_stream env (sse_lines fr fs) (stream_start l) w = (evs, None, st, w))"
proof -
  have "splitlines (sse_text fr fs) = sse_lines fr fs"
    unfolding sse_text_def using sse_lines_no_boundary [OF assms(1)] by (intro splitlines_text) blast
  then have "parse_chunk jmsg (sse_text fr fs) = Inr fs" using chunk_loop_frames [OF assms(1), of jmsg fr "[]"] by (simp add: parse_chunk_def)
  moreover have "\<exists>st. iterate_stream env (sse_lines fr fs) (stream_start l) w = (evs, None, st, w)"
    using iterate_frames [OF assms(2,1) _ _ assms(3), of "stream_start l" fr w] by (simp add: stream_start_def)
  ultimately show ?thesis by blast
qed

theorem sse_parsers_agree_witness:
  "parse_chunk (\<lambda>s. []) (sse_text (\<lambda>r. []) demo_frames) = Inr demo_frames \<and>
   (\<exists>st. iterate_stream demo_quiet (sse_lines (\<lambda>r. []) demo_frames) (stream_start limit_state_default) () =
      ([PlainEvent ''message_start'' [(''id'', JStr ''m'')], PlainEvent ''message_stop'' [(''n'', JInt (- 3))]], None, st, ()))"
proof (rule sse_parsers_agree)
  show "\<forall>p \<in> set demo_frames. sse_frame_ok p" by (simp add: demo_frames_def sse_frame_ok_def dict_ok_def line_boundary_def)
  show "quiet demo_quiet" by (simp add: quiet_def demo_quiet_def)
  show "map_result (\<lambda>(e, v). build_event_from_payload (se_validate demo_quiet) e v) demo_frames =
      Inr [PlainEvent ''message_start'' [(''id'', JStr ''m'')], PlainEvent ''message_stop'' [(''n'', JInt (- 3))]]"
    by (simp add: demo_frames_def demo_quiet_def build_event_from_payload_def EVENT_MAP_def)
qed

text \<open>
  C35. The completion notice tells the truth: whatever lines a stream delivers and however it ends, every \<open>AssistantMessageCompleteEvent\<close> the session publishes carries
  the text, thinking, stop reason and token count that \<open>StreamCollector\<close> computes from the events yielded up to the \<open>message_stop\<close> it reports.
\<close>

theorem complete_notice_matches_collector:
  assumes "logs_bus env" and "iterate_stream env lines (stream_start l) [] = (ys, err, st, published)"
    and "ev \<in> set published" and "ev_body ev = AssistantMessageCompleteEvent c uuid t k sr n"
  shows "c = se_conv env \<and> (\<exists>pre stop post r. ys = pre @ [stop] @ post \<and> event_type_of stop = stream_event_type_value MESSAGE_STOP \<and>
    collect (pre @ [stop]) = Inr r \<and> cr_text r = t \<and> cr_thinking r = k \<and> cr_stop_reason r = sr \<and> cr_output_tokens r = n)"
proof -
  have "tracks (stream_start l) []" by (simp add: tracks_def stream_start_def completion_result_default_def)
  then have "log_ok (se_conv env) ([] @ ys) published" using iterate_log [OF assms(1) _ _ assms(2), of "[]"] by (simp add: log_ok_def)
  then have "notice_ok (se_conv env) ys (ev_body ev)" using assms(3) by (simp add: log_ok_def)
  then show ?thesis by (simp add: notice_ok_def assms(4))
qed

theorem complete_notice_matches_collector_witness:
  "\<exists>ys err st published. iterate_stream demo_env (sse_lines (\<lambda>r. []) demo_frames) (stream_start limit_state_default) [] = (ys, err, st, published) \<and>
    (\<exists>pre stop post r. ys = pre @ [stop] @ post \<and> collect (pre @ [stop]) = Inr r \<and> cr_text r = [])"
proof -
  let ?run = "iterate_stream demo_env (sse_lines (\<lambda>r. []) demo_frames) (stream_start limit_state_default) []"
  obtain ys err st published where r: "?run = (ys, err, st, published)" by (metis prod_cases4)
  have "logs_bus demo_env" by (simp add: logs_bus_def demo_env_def)
  moreover have "mk_event 0 (Some ''acc'') (AssistantMessageCompleteEvent ''c'' [] [] [] None 0) \<in> set (snd (snd (snd ?run)))" by code_simp
  then have "mk_event 0 (Some ''acc'') (AssistantMessageCompleteEvent ''c'' [] [] [] None 0) \<in> set published" unfolding r by simp
  ultimately show ?thesis
    using complete_notice_matches_collector [OF _ r, of _ "''c''" "[]" "[]" "[]" None 0] r by (fastforce simp: mk_event_def)
qed

text \<open>
  Every error status becomes the exception of its class, without a delay: a response with a status from 400 on makes \<open>request\<close> raise the \<open>APIError\<close> of the status table with the
  detail of the body, after the cookies of the response have been stored; its \<open>retry_after\<close> is never set, also for a 429 with a \<open>Retry-After\<close> header, so the callers that
  look at it (the executor's park) always fall back to their default.
\<close>

theorem request_error_status:
  assumes "mm_stack mgr = []" and "session_open mck_ops (h0, s0) = (h, s)"
    and "send (build_transport_request fr h m False mp) w0 = (Inr resp, w1)" and "400 \<le> ts_status_code resp"
  shows "\<exists>e h1 s1. session_call fr mck_ops run mgr send val mp m (h0, s0, w0) = (Inl (Api e), (h1, s1, w1)) \<and>
    api_class e = dict_getd STATUS_MAP (ts_status_code resp) APIError \<and> api_status_code e = ts_status_code resp \<and>
    api_detail e = extract_error fr resp \<and> api_retry_after e = None \<and>
    mck_load s1 (hs_account_id h) = dict_update (hs_cookies h) (cookies_from_set_cookie (ts_headers resp)) \<and> hs_cookies h1 = mck_load s1 (hs_account_id h)"
proof -
  let ?c = "dict_update (hs_cookies h) (cookies_from_set_cookie (ts_headers resp))"
  have "mck_load (ck_save mck_ops s (hs_account_id h) ?c) (hs_account_id h) = ?c"
    using mck.load_save [of s "hs_account_id h" ?c "hs_account_id h"] by (simp add: mck_ops_def)
  then show ?thesis
    using session_call_plain [where send = send and fr = fr and wa = w0 and run = run and val = val, OF assms(1-3)] assms(4) by (simp add: session_parse_def raise_for_status_def absorb_cookies)
qed

theorem request_error_status_witness:
  "\<exists>e h1 s1. session_call (\<lambda>r. []) mck_ops (\<lambda>(_ :: nat) x. x) \<lparr>mm_scope = ''http'', mm_stack = []\<rparr> (\<lambda>r w. (Inr demo_limited, w))
      (\<lambda>d. Inr d) False demo_method (demo_session, [], ()) = (Inl (Api e), (h1, s1, ())) \<and>
    api_class e = RateLimitError \<and> api_retry_after e = None \<and> mck_load s1 ''acc'' = [(''sessionKey'', ''k''), (''lastActive'', ''1'')]"
proof -
  have o: "session_open mck_ops (demo_session, []) =
      (demo_session\<lparr>hs_cookies := [(''sessionKey'', ''k'')], hs_opened := True\<rparr>, [(''acc'', [(''sessionKey'', ''k'')])])" by code_simp
  have c: "cookies_from_set_cookie (ts_headers demo_limited) = [(''lastActive'', ''1'')]" by code_simp
  have s: "400 \<le> ts_status_code demo_limited" "hs_account_id demo_session = ''acc''" by (simp_all add: demo_limited_def demo_session_def session_init_def)
  from request_error_status [OF _ o, of "\<lparr>mm_scope = ''http'', mm_stack = []\<rparr>" "\<lambda>r w. (Inr demo_limited, w)" "\<lambda>r. []" demo_method False "()"
      demo_limited "()" "\<lambda>(_ :: nat) x. x" "\<lambda>d. Inr d"] c s
  show ?thesis by (auto simp: demo_limited_def STATUS_MAP_def dict_update_def)
qed

end
