(* ===== verification/Client.thy ===== *)
theory Client
  imports Methods
begin

section \<open>The client facade and its cache\<close>

text \<open>
  \<^verbatim>\<open>claude_ai/client.py\<close>, \<^verbatim>\<open>claude_ai/models/_object.py\<close> and \<^verbatim>\<open>claude_ai/storage/cache/memory.py\<close>. A wrapper of the facade that only
  hands a method to \<open>__call__\<close> is the method it hands over, or the exception it raises before. The wrappers that use
  the cache work on the cache and on a world \<open>'w\<close>, in which the session does its requests. The session, the validation and the dump of
  pydantic and the clock are parameters.
\<close>

subsection \<open>Results and their binding\<close>

datatype pyval =
    VObj "string option" "(string \<times> pyval) list"   \<comment> \<open>a \<open>ClaudeObject\<close>: the client it is bound to, its fs\<close>
  | VPage "pyval list"                               \<comment> \<open>a \<open>PaginatedResponse\<close>\<close>
  | VList "pyval list"
  | VDict "(string \<times> pyval) list"
  | VScalar json

fun bind_recursive :: "string \<Rightarrow> pyval \<Rightarrow> pyval" where
  \<comment> \<open>\<open>_bind_recursive\<close>; on an object it is \<open>ClaudeObject.bind\<close>\<close>
  "bind_recursive client (VObj b fs) = VObj (Some client) (map (\<lambda>(k, v). (k, bind_recursive client v)) fs)"
| "bind_recursive client (VList xs) = VList (map (bind_recursive client) xs)"
| "bind_recursive client (VDict d) = VDict (map (\<lambda>(k, v). (k, bind_recursive client v)) d)"
| "bind_recursive client v = v"

fun bind_result_value :: "string \<Rightarrow> pyval \<Rightarrow> pyval" where
  \<comment> \<open>\<open>ClaudeAIClient._bind\<close>\<close>
  "bind_result_value client (VObj b fs) = bind_recursive client (VObj b fs)"
| "bind_result_value client (VPage xs) = VPage (map (bind_result_value client) xs)"
| "bind_result_value client (VList xs) = VList (map (bind_result_value client) xs)"
| "bind_result_value client v = v"

definition object_client :: "pyval \<Rightarrow> exn + string" where
  \<comment> \<open>the property \<open>ClaudeObject.client\<close>\<close>
  "object_client v =
     (case v of
        VObj (Some c) fs \<Rightarrow> Inr c
      | _ \<Rightarrow> Inl (Py (RuntimeError ''ClaudeObject not bound to a client. Call .bind(client) first or fetch via ClaudeAIClient methods which auto-bind.'')))"

subsection \<open>The memory cache\<close>

datatype cache_namespace =
    CONVERSATION | CONVERSATION_LIST | MESSAGE | MESSAGE_LIST | PROJECT | PROJECT_LIST | PROJECT_DOC | ORGANIZATION | ACCOUNT

record mem_cache =
  mc_data :: "(cache_namespace \<times> (string \<times> json \<times> pyfloat option) list) list"
  mc_default_ttl :: "pyfloat option"

definition mem_cache_init :: "pyfloat option \<Rightarrow> mem_cache" where
  "mem_cache_init default_ttl = \<lparr>mc_data = [], mc_default_ttl = default_ttl\<rparr>"

definition mc_get :: "cache_namespace \<Rightarrow> string \<Rightarrow> pyfloat \<Rightarrow> mem_cache \<Rightarrow> json \<times> mem_cache" where
  \<comment> \<open>\<open>JNull\<close> is Python's \<open>None\<close>\<close>
  "mc_get ns key now c =
     (let entries = dict_getd (mc_data c) ns []
      in case dict_get entries key of
           None \<Rightarrow> (JNull, c)
         | Some (v, expires) \<Rightarrow>
             (case expires of
                Some t \<Rightarrow> if t < now then (JNull, c\<lparr>mc_data := dict_set (mc_data c) ns (dict_del entries key)\<rparr>) else (v, c)
              | None \<Rightarrow> (v, c)))"

definition mc_set :: "cache_namespace \<Rightarrow> string \<Rightarrow> json \<Rightarrow> pyfloat option \<Rightarrow> pyfloat \<Rightarrow> mem_cache \<Rightarrow> mem_cache" where
  "mc_set ns key v ttl now c =
     (let effective_ttl = (case ttl of Some t \<Rightarrow> Some t | None \<Rightarrow> mc_default_ttl c);
          expires = (case effective_ttl of None \<Rightarrow> None | Some t \<Rightarrow> if t = 0 then None else Some (now + t))
      in c\<lparr>mc_data := dict_set (mc_data c) ns (dict_set (dict_getd (mc_data c) ns []) key (v, expires))\<rparr>)"

definition mc_delete :: "cache_namespace \<Rightarrow> string \<Rightarrow> mem_cache \<Rightarrow> mem_cache" where
  "mc_delete ns key c =
     (case dict_get (mc_data c) ns of
        None \<Rightarrow> c
      | Some entries \<Rightarrow> c\<lparr>mc_data := dict_set (mc_data c) ns (dict_del entries key)\<rparr>)"

definition mc_clear :: "cache_namespace option \<Rightarrow> mem_cache \<Rightarrow> mem_cache" where
  "mc_clear ns c = c\<lparr>mc_data := (case ns of None \<Rightarrow> [] | Some n \<Rightarrow> dict_del (mc_data c) n)\<rparr>"

record 'c cache_ops =
  \<comment> \<open>the interface \<open>BaseCache\<close>, as far as the client uses it; the time is that of the call\<close>
  co_get :: "cache_namespace \<Rightarrow> string \<Rightarrow> pyfloat \<Rightarrow> 'c \<Rightarrow> json \<times> 'c"
  co_set :: "cache_namespace \<Rightarrow> string \<Rightarrow> json \<Rightarrow> pyfloat option \<Rightarrow> pyfloat \<Rightarrow> 'c \<Rightarrow> 'c"
  co_delete :: "cache_namespace \<Rightarrow> string \<Rightarrow> 'c \<Rightarrow> 'c"

definition mem_cache_ops :: "mem_cache cache_ops" where
  "mem_cache_ops = \<lparr>co_get = mc_get, co_set = mc_set, co_delete = mc_delete\<rparr>"

fun cache_get_many :: "'c cache_ops \<Rightarrow> cache_namespace \<Rightarrow> string list \<Rightarrow> (nat \<Rightarrow> pyfloat) \<Rightarrow> json dict \<Rightarrow> 'c \<Rightarrow> json dict \<times> 'c" where
  \<comment> \<open>the loop of \<open>BaseCache.get_many\<close>; the clock is read once per key\<close>
  "cache_get_many co ns [] clock result c = (result, c)"
| "cache_get_many co ns (k # ks) clock result c =
     (case co_get co ns k (clock 0) c of
        (v, c1) \<Rightarrow> cache_get_many co ns ks (\<lambda>i. clock (Suc i)) (if v = JNull then result else dict_set result k v) c1)"

subsection \<open>The facade\<close>

record facade =
  fc_account_id :: string
  fc_org_uuid :: string
  fc_default_model :: string
  fc_timezone :: string
  fc_locale :: string

definition client_init :: "string \<Rightarrow> string option \<Rightarrow> string \<Rightarrow> string \<Rightarrow> string \<Rightarrow> facade" where
  \<comment> \<open>the last three come from the settings\<close>
  "client_init account_id org_uuid model timezone loc =
     \<lparr>fc_account_id = account_id, fc_org_uuid = or_default org_uuid [], fc_default_model = model, fc_timezone = timezone, fc_locale = loc\<rparr>"

definition client_set_org :: "string \<Rightarrow> facade \<Rightarrow> facade" where
  "client_set_org org c = c\<lparr>fc_org_uuid := org\<rparr>"

definition require_org :: "facade \<Rightarrow> exn + string" where
  \<comment> \<open>the dash of the message is written as a hyphen\<close>
  "require_org c =
     (if fc_org_uuid c = [] then Inl (Py (ValueError ''org_uuid is required - set client.org_uuid or pass org_uuid param''))
      else Inr (fc_org_uuid c))"

definition org_or :: "facade \<Rightarrow> string option \<Rightarrow> exn + string" where
  \<comment> \<open>\<open>org_uuid or self._require_org()\<close>\<close>
  "org_or c org_uuid = (if or_default org_uuid [] = [] then require_org c else Inr (or_default org_uuid []))"

record ('w, 'e) base_session =
  \<comment> \<open>\<open>BaseSession\<close>: the result of a request as \<open>parse_response\<close> gives it, \<open>'e\<close> an event stream\<close>
  bs_request :: "base_method \<Rightarrow> 'w \<Rightarrow> (exn + pyval parsed) \<times> 'w"
  bs_multipart :: "base_method \<Rightarrow> 'w \<Rightarrow> (exn + pyval parsed) \<times> 'w"
  bs_stream :: "base_method \<Rightarrow> 'w \<Rightarrow> (exn + 'e) \<times> 'w"

datatype 'e answer = Stream 'e | Value "pyval parsed"

fun bind_parsed :: "string \<Rightarrow> pyval parsed \<Rightarrow> pyval parsed" where
  "bind_parsed client (PModel v) = PModel (bind_result_value client v)"
| "bind_parsed client (PModels vs) = PModels (map (bind_result_value client) vs)"
| "bind_parsed client r = r"

definition client_call :: "('w, 'e) base_session \<Rightarrow> facade \<Rightarrow> base_method \<Rightarrow> 'w \<Rightarrow> (exn + 'e answer) \<times> 'w" where
  \<comment> \<open>\<open>__call__\<close>\<close>
  "client_call sess c m w =
     (if bm_is_stream m then (case bs_stream sess m w of (r, w1) \<Rightarrow> (map_ok Stream r, w1))
      else (case (if bm_is_multipart m then bs_multipart sess m w else bs_request sess m w) of
              (r, w1) \<Rightarrow> (map_ok (\<lambda>v. Value (bind_parsed (fc_account_id c) v)) r, w1)))"

subsection \<open>Wrappers that hand a method to the session\<close>

subsubsection \<open>Authentication\<close>

definition client_get_login_methods :: "facade \<Rightarrow> string \<Rightarrow> source_app \<Rightarrow> exn + base_method" where
  "client_get_login_methods c email source =
     Inr (GetLoginMethods email source)"

definition client_send_magic_link :: "facade \<Rightarrow> string \<Rightarrow> string \<Rightarrow> source_app \<Rightarrow> int \<Rightarrow> string option \<Rightarrow> string option \<Rightarrow> exn + base_method" where
  "client_send_magic_link c email_address loc source utc_offset login_intent return_to =
     Inr (SendMagicLink email_address loc source utc_offset login_intent return_to)"

definition client_verify_magic_link :: "facade \<Rightarrow> string option \<Rightarrow> string option \<Rightarrow> string option \<Rightarrow> credential_method \<Rightarrow> string \<Rightarrow> source_app \<Rightarrow> exn + base_method" where
  "client_verify_magic_link c nonce encoded_email_address code credential loc source =
     Inr (VerifyMagicLink credential nonce encoded_email_address code loc source)"

definition client_exchange_nonce_for_code :: "facade \<Rightarrow> string \<Rightarrow> string option \<Rightarrow> credential_method \<Rightarrow> string \<Rightarrow> source_app \<Rightarrow> exn + base_method" where
  "client_exchange_nonce_for_code c nonce encoded_email_address credential loc source =
     Inr (ExchangeNonceForCode nonce encoded_email_address credential loc source)"

definition client_verify_google :: "facade \<Rightarrow> string \<Rightarrow> string \<Rightarrow> string \<Rightarrow> source_app \<Rightarrow> string option \<Rightarrow> exn + base_method" where
  "client_verify_google c code arkose_session_token loc source return_to =
     Inr (VerifyGoogle code arkose_session_token loc source return_to)"

subsubsection \<open>Account\<close>

definition client_get_profile :: "facade \<Rightarrow> exn + base_method" where
  "client_get_profile c =
     Inr GetProfile"

definition client_get_access :: "facade \<Rightarrow> string option \<Rightarrow> exn + base_method" where
  "client_get_access c org_uuid =
     bind_result (org_or c org_uuid) (\<lambda>org. Inr (GetAccess org))"

definition client_get_raven_eligible :: "facade \<Rightarrow> exn + base_method" where
  "client_get_raven_eligible c =
     Inr GetRavenEligible"

definition client_update_account_settings :: "facade \<Rightarrow> json dict \<Rightarrow> exn + base_method" where
  "client_update_account_settings c settings =
     Inr (UpdateAccountSettings settings)"

definition client_set_email_consent :: "facade \<Rightarrow> bool \<Rightarrow> bool \<Rightarrow> consent_variant \<Rightarrow> exn + base_method" where
  "client_set_email_consent c consent accepted_via_checkbox variant =
     Inr (SetEmailConsent consent accepted_via_checkbox variant)"

definition client_patch_account_settings :: "facade \<Rightarrow> json dict \<Rightarrow> exn + base_method" where
  "client_patch_account_settings c settings =
     Inr (PatchAccountSettings settings)"

definition client_accept_legal_docs :: "facade \<Rightarrow> json dict list \<Rightarrow> exn + base_method" where
  "client_accept_legal_docs c acceptances =
     Inr (AcceptLegalDocs acceptances)"

definition client_update_profile :: "facade \<Rightarrow> string option \<Rightarrow> string option \<Rightarrow> string option \<Rightarrow> exn + base_method" where
  "client_update_profile c work_function loc conversation_preferences =
     Inr (UpdateProfile work_function loc conversation_preferences)"

definition client_get_invites :: "facade \<Rightarrow> string \<Rightarrow> exn + base_method" where
  "client_get_invites c account_uuid =
     Inr (GetInvites account_uuid)"

subsubsection \<open>Organizations\<close>

definition client_get_organization :: "facade \<Rightarrow> string option \<Rightarrow> exn + base_method" where
  "client_get_organization c org_uuid =
     bind_result (org_or c org_uuid) (\<lambda>org. Inr (GetOrganization org))"

definition client_get_subscription :: "facade \<Rightarrow> string option \<Rightarrow> exn + base_method" where
  "client_get_subscription c org_uuid =
     bind_result (org_or c org_uuid) (\<lambda>org. Inr (GetSubscription org))"

definition client_get_model_config :: "facade \<Rightarrow> string \<Rightarrow> string option \<Rightarrow> exn + base_method" where
  "client_get_model_config c model_id org_uuid =
     bind_result (org_or c org_uuid) (\<lambda>org. Inr (GetModelConfig org model_id))"

definition client_get_credits :: "facade \<Rightarrow> string option \<Rightarrow> exn + base_method" where
  "client_get_credits c org_uuid =
     bind_result (org_or c org_uuid) (\<lambda>org. Inr (GetCredits org))"

definition client_get_styles :: "facade \<Rightarrow> string option \<Rightarrow> exn + base_method" where
  "client_get_styles c org_uuid =
     bind_result (org_or c org_uuid) (\<lambda>org. Inr (GetStyles org))"

definition client_get_memory :: "facade \<Rightarrow> string option \<Rightarrow> string option \<Rightarrow> exn + base_method" where
  "client_get_memory c project_uuid org_uuid =
     bind_result (org_or c org_uuid) (\<lambda>org. Inr (GetMemory org project_uuid))"

definition client_get_payment_method :: "facade \<Rightarrow> string option \<Rightarrow> exn + base_method" where
  "client_get_payment_method c org_uuid =
     bind_result (org_or c org_uuid) (\<lambda>org. Inr (GetPaymentMethod org))"

definition client_get_paused_subscription :: "facade \<Rightarrow> string option \<Rightarrow> exn + base_method" where
  "client_get_paused_subscription c org_uuid =
     bind_result (org_or c org_uuid) (\<lambda>org. Inr (GetPausedSubscription org))"

definition client_list_discoverable_organizations :: "facade \<Rightarrow> exn + base_method" where
  "client_list_discoverable_organizations c =
     Inr ListDiscoverable"

definition client_get_cowork_settings :: "facade \<Rightarrow> string option \<Rightarrow> exn + base_method" where
  "client_get_cowork_settings c org_uuid =
     bind_result (org_or c org_uuid) (\<lambda>org. Inr (GetCoworkSettings org))"

definition client_get_experiences :: "facade \<Rightarrow> string \<Rightarrow> string option \<Rightarrow> exn + base_method" where
  "client_get_experiences c loc org_uuid =
     bind_result (org_or c org_uuid) (\<lambda>org. Inr (GetExperiences org loc))"

definition client_list_marketplaces :: "facade \<Rightarrow> string option \<Rightarrow> exn + base_method" where
  "client_list_marketplaces c org_uuid =
     bind_result (org_or c org_uuid) (\<lambda>org. Inr (ListMarketplaces org))"

definition client_get_memory_settings :: "facade \<Rightarrow> string option \<Rightarrow> exn + base_method" where
  "client_get_memory_settings c org_uuid =
     bind_result (org_or c org_uuid) (\<lambda>org. Inr (GetMemorySettings org))"

definition client_get_notification_preferences :: "facade \<Rightarrow> string option \<Rightarrow> exn + base_method" where
  "client_get_notification_preferences c org_uuid =
     bind_result (org_or c org_uuid) (\<lambda>org. Inr (GetNotificationPreferences org))"

definition client_list_skills :: "facade \<Rightarrow> string option \<Rightarrow> exn + base_method" where
  "client_list_skills c org_uuid =
     bind_result (org_or c org_uuid) (\<lambda>org. Inr (ListSkills org))"

definition client_get_overage_spend_limit :: "facade \<Rightarrow> string option \<Rightarrow> exn + base_method" where
  "client_get_overage_spend_limit c org_uuid =
     bind_result (org_or c org_uuid) (\<lambda>org. Inr (GetOverageSpendLimit org))"

definition client_get_pending_domain_claim :: "facade \<Rightarrow> string option \<Rightarrow> exn + base_method" where
  "client_get_pending_domain_claim c org_uuid =
     bind_result (org_or c org_uuid) (\<lambda>org. Inr (GetPendingDomainClaim org))"

subsubsection \<open>Billing\<close>

definition client_get_stripe_region :: "facade \<Rightarrow> string \<Rightarrow> string option \<Rightarrow> exn + base_method" where
  "client_get_stripe_region c country organization_uuid =
     bind_result (org_or c organization_uuid) (\<lambda>org. Inr (GetStripeRegion country org))"

definition client_get_gift_eligibility :: "facade \<Rightarrow> string option \<Rightarrow> exn + base_method" where
  "client_get_gift_eligibility c org_uuid =
     bind_result (org_or c org_uuid) (\<lambda>org. Inr (GetGiftEligibility org))"

definition client_get_consumer_pricing :: "facade \<Rightarrow> string \<Rightarrow> billing_interval \<Rightarrow> string option \<Rightarrow> exn + base_method" where
  "client_get_consumer_pricing c country interval org_uuid =
     bind_result (org_or c org_uuid) (\<lambda>org. Inr (GetConsumerPricing org country interval))"

definition client_get_plan_pricing :: "facade \<Rightarrow> string \<Rightarrow> string option \<Rightarrow> exn + base_method" where
  "client_get_plan_pricing c country org_uuid =
     bind_result (org_or c org_uuid) (\<lambda>org. Inr (GetPlanPricing org country))"

definition client_create_stripe_intent :: "facade \<Rightarrow> billing_plan \<Rightarrow> string \<Rightarrow> json dict option \<Rightarrow> string option \<Rightarrow> exn + base_method" where
  "client_create_stripe_intent c plan country billing_address org_uuid =
     bind_result (org_or c org_uuid) (\<lambda>org. Inr (CreateStripeIntent org plan country billing_address))"

subsubsection \<open>Claude Code, bootstrap and eligibility\<close>

definition client_get_claude_code_settings :: "facade \<Rightarrow> string option \<Rightarrow> exn + base_method" where
  "client_get_claude_code_settings c org_uuid =
     bind_result (org_or c org_uuid) (\<lambda>org. Inr (GetClaudeCodeSettings org))"

definition client_update_claude_code_settings :: "facade \<Rightarrow> string dict \<Rightarrow> string option \<Rightarrow> exn + base_method" where
  "client_update_claude_code_settings c entries org_uuid =
     bind_result (org_or c org_uuid) (\<lambda>org. Inr (UpdateClaudeCodeSettings org entries))"

definition client_get_current_user_access :: "facade \<Rightarrow> string option \<Rightarrow> exn + base_method" where
  "client_get_current_user_access c org_uuid =
     bind_result (org_or c org_uuid) (\<lambda>org. Inr (GetCurrentUserAccess org))"

definition client_get_mcp_bootstrap :: "facade \<Rightarrow> string option \<Rightarrow> exn + base_method" where
  "client_get_mcp_bootstrap c org_uuid =
     bind_result (org_or c org_uuid) (\<lambda>org. Inr (GetMcpBootstrap org))"

definition client_get_edge_bootstrap :: "facade \<Rightarrow> bool \<Rightarrow> exn + base_method" where
  "client_get_edge_bootstrap c include_system_prompts =
     Inr (GetEdgeBootstrap include_system_prompts)"

definition client_get_app_start :: "facade \<Rightarrow> bool \<Rightarrow> string option \<Rightarrow> exn + base_method" where
  "client_get_app_start c include_system_prompts org_uuid =
     bind_result (org_or c org_uuid) (\<lambda>org. Inr (GetAppStart org include_system_prompts))"

definition client_get_referral :: "facade \<Rightarrow> exn + base_method" where
  "client_get_referral c =
     Inr GetReferral"

definition client_check_team_signup_eligibility :: "facade \<Rightarrow> eligibility_check \<Rightarrow> exn + base_method" where
  "client_check_team_signup_eligibility c check =
     Inr (CheckTeamSignupEligibility check)"

definition client_check_team_trial_eligibility :: "facade \<Rightarrow> eligibility_check \<Rightarrow> exn + base_method" where
  "client_check_team_trial_eligibility c check =
     Inr (CheckTeamTrialEligibility check)"

subsubsection \<open>Conversations\<close>

definition client_generate_title :: "facade \<Rightarrow> string \<Rightarrow> string \<Rightarrow> string list option \<Rightarrow> string option \<Rightarrow> exn + base_method" where
  "client_generate_title c conv_uuid message_content recent_titles org_uuid =
     bind_result (org_or c org_uuid) (\<lambda>org. Inr (GenerateTitle org conv_uuid message_content recent_titles))"

record send_options =
  \<comment> \<open>the keyword arguments of \<open>send_message\<close> with the defaults of the parameter class\<close>
  so_rendering_mode :: string
  so_attachments :: "json list"
  so_files :: "json list"
  so_sync_sources :: "json list"
  so_personalized_styles :: "json list"
  so_tools :: "json list"
  so_human_message_uuid :: string
  so_assistant_message_uuid :: string

definition client_send_message :: "facade \<Rightarrow> string \<Rightarrow> string \<Rightarrow> string option \<Rightarrow> send_options \<Rightarrow> string option \<Rightarrow> exn + base_method" where
  "client_send_message c conv_uuid prompt model opts org_uuid =
     bind_result (org_or c org_uuid) (\<lambda>org.
       bind_result (send_message_post_init
         \<lparr>sm_org_uuid = org, sm_conv_uuid = conv_uuid, sm_prompt = prompt, sm_model = or_default model (fc_default_model c),
          sm_timezone = fc_timezone c, sm_locale = fc_locale c, sm_rendering_mode = so_rendering_mode opts,
          sm_attachments = so_attachments opts, sm_files = so_files opts, sm_sync_sources = so_sync_sources opts,
          sm_personalized_styles = so_personalized_styles opts, sm_tools = so_tools opts,
          sm_human_message_uuid = so_human_message_uuid opts, sm_assistant_message_uuid = so_assistant_message_uuid opts\<rparr>)
         (\<lambda>p. Inr (SendMessage p)))"

subsubsection \<open>Projects\<close>

definition client_list_projects :: "facade \<Rightarrow> int \<Rightarrow> int \<Rightarrow> string \<Rightarrow> string option \<Rightarrow> string option \<Rightarrow> exn + base_method" where
  "client_list_projects c limit offset order_by search_query org_uuid =
     bind_result (org_or c org_uuid) (\<lambda>org. Inr (ListProjects org limit offset order_by ''all'' False search_query))"

definition client_get_project_members :: "facade \<Rightarrow> string \<Rightarrow> string option \<Rightarrow> exn + base_method" where
  "client_get_project_members c project_uuid org_uuid =
     bind_result (org_or c org_uuid) (\<lambda>org. Inr (GetMembers org project_uuid))"

definition client_get_project_permissions :: "facade \<Rightarrow> string \<Rightarrow> string option \<Rightarrow> exn + base_method" where
  "client_get_project_permissions c project_uuid org_uuid =
     bind_result (org_or c org_uuid) (\<lambda>org. Inr (GetPermissions org project_uuid))"

definition client_list_project_docs :: "facade \<Rightarrow> string \<Rightarrow> string option \<Rightarrow> exn + base_method" where
  "client_list_project_docs c project_uuid org_uuid =
     bind_result (org_or c org_uuid) (\<lambda>org. Inr (ListDocs org project_uuid))"

definition client_add_project_doc :: "facade \<Rightarrow> string \<Rightarrow> string \<Rightarrow> string \<Rightarrow> string option \<Rightarrow> exn + base_method" where
  "client_add_project_doc c project_uuid file_name content org_uuid =
     bind_result (org_or c org_uuid) (\<lambda>org. Inr (AddDoc org project_uuid file_name content))"

definition client_list_project_files :: "facade \<Rightarrow> string \<Rightarrow> string option \<Rightarrow> exn + base_method" where
  "client_list_project_files c project_uuid org_uuid =
     bind_result (org_or c org_uuid) (\<lambda>org. Inr (ListFiles org project_uuid))"

definition client_get_project_conversations :: "facade \<Rightarrow> string \<Rightarrow> int \<Rightarrow> int \<Rightarrow> string option \<Rightarrow> exn + base_method" where
  "client_get_project_conversations c project_uuid limit offset org_uuid =
     bind_result (org_or c org_uuid) (\<lambda>org. Inr (GetProjectConversations org project_uuid limit offset))"

definition client_get_kb_stats :: "facade \<Rightarrow> string \<Rightarrow> string option \<Rightarrow> exn + base_method" where
  "client_get_kb_stats c project_uuid org_uuid =
     bind_result (org_or c org_uuid) (\<lambda>org. Inr (GetKBStats org project_uuid))"

definition client_sync_project :: "facade \<Rightarrow> string \<Rightarrow> string option \<Rightarrow> exn + base_method" where
  "client_sync_project c project_uuid org_uuid =
     bind_result (org_or c org_uuid) (\<lambda>org. Inr (SyncProject org project_uuid))"

subsubsection \<open>Artifacts and synced sources\<close>

definition client_get_artifact_versions :: "facade \<Rightarrow> string \<Rightarrow> string option \<Rightarrow> string option \<Rightarrow> exn + base_method" where
  "client_get_artifact_versions c conv_uuid source org_uuid =
     bind_result (org_or c org_uuid) (\<lambda>org. Inr (GetVersions org conv_uuid source))"

definition client_upload_file :: "(string \<Rightarrow> string option) \<Rightarrow> facade \<Rightarrow> string \<Rightarrow> string \<Rightarrow> string \<Rightarrow> string option \<Rightarrow> exn + base_method" where
  "client_upload_file guess_type c conv_uuid file_content file_name org_uuid =
     bind_result (org_or c org_uuid) (\<lambda>org. bind_result (upload_file_post_init file_content file_name)
       (\<lambda>_. Inr (UploadFile guess_type org conv_uuid file_content file_name)))"

definition client_download_file :: "facade \<Rightarrow> string \<Rightarrow> string \<Rightarrow> string option \<Rightarrow> exn + base_method" where
  "client_download_file c conv_uuid path org_uuid =
     bind_result (org_or c org_uuid) (\<lambda>org. Inr (DownloadFile org conv_uuid path))"

definition client_get_sync_settings :: "facade \<Rightarrow> string option \<Rightarrow> exn + base_method" where
  "client_get_sync_settings c org_uuid =
     bind_result (org_or c org_uuid) (\<lambda>org. Inr (GetSyncSettings org))"

definition client_get_sync_auth_status :: "facade \<Rightarrow> string \<Rightarrow> string option \<Rightarrow> exn + base_method" where
  "client_get_sync_auth_status c provider org_uuid =
     bind_result (org_or c org_uuid) (\<lambda>org. Inr (GetSyncAuthStatus org provider))"

subsection \<open>Wrappers with the cache\<close>

record ('c, 'w, 'e) client_env =
  ce_cache :: "'c cache_ops"
  ce_session :: "('w, 'e) base_session"
  ce_validate :: "string \<Rightarrow> json \<Rightarrow> exn + pyval"    \<comment> \<open>\<open>model_validate\<close> of the class of that name\<close>
  ce_dump :: "pyval \<Rightarrow> json"                       \<comment> \<open>\<open>model_dump(mode="json")\<close>\<close>
  ce_clock :: "'w \<Rightarrow> pyfloat"                      \<comment> \<open>\<open>time.monotonic()\<close>\<close>

definition cache_get :: "('c, 'w, 'e) client_env \<Rightarrow> cache_namespace \<Rightarrow> string \<Rightarrow> 'c option \<times> 'w \<Rightarrow> json \<times> 'c option \<times> 'w" where
  "cache_get env ns key st =
     (case st of
        (None, w) \<Rightarrow> (JNull, (None, w))
      | (Some c, w) \<Rightarrow> (case co_get (ce_cache env) ns key (ce_clock env w) c of (v, c1) \<Rightarrow> (v, (Some c1, w))))"

definition dump_parsed :: "(pyval \<Rightarrow> json) \<Rightarrow> pyval parsed \<Rightarrow> json" where
  \<comment> \<open>what \<open>_cache_set\<close> stores; lists of models and bytes are never cached\<close>
  "dump_parsed dump r =
     (case r of PModel v \<Rightarrow> dump v | PRaw j \<Rightarrow> j | PNone \<Rightarrow> JNull | PModels vs \<Rightarrow> JList (map dump vs) | PBytes s \<Rightarrow> JStr s)"

definition cache_set ::
  "('c, 'w, 'e) client_env \<Rightarrow> cache_namespace \<Rightarrow> string \<Rightarrow> pyval parsed \<Rightarrow> 'c option \<times> 'w \<Rightarrow> 'c option \<times> 'w" where
  "cache_set env ns key r st =
     (case st of
        (None, w) \<Rightarrow> (None, w)
      | (Some c, w) \<Rightarrow> (Some (co_set (ce_cache env) ns key (dump_parsed (ce_dump env) r) None (ce_clock env w) c), w))"

definition cache_delete :: "('c, 'w, 'e) client_env \<Rightarrow> cache_namespace \<Rightarrow> string \<Rightarrow> 'c option \<times> 'w \<Rightarrow> 'c option \<times> 'w" where
  "cache_delete env ns key st = (map_option (co_delete (ce_cache env) ns key) (fst st), snd st)"

definition client_value ::
  "('c, 'w, 'e) client_env \<Rightarrow> facade \<Rightarrow> exn + base_method \<Rightarrow> 'c option \<times> 'w \<Rightarrow> (exn + pyval parsed) \<times> 'c option \<times> 'w" where
  \<comment> \<open>\<open>await self(...)\<close> for a method that is no stream\<close>
  "client_value env c m st =
     (case m of
        Inl e \<Rightarrow> (Inl e, st)
      | Inr m \<Rightarrow>
          (case client_call (ce_session env) c m (snd st) of
             (Inr (Value r), w1) \<Rightarrow> (Inr r, (fst st, w1))
           | (Inr (Stream _), w1) \<Rightarrow> (Inr PNone, (fst st, w1))
           | (Inl e, w1) \<Rightarrow> (Inl e, (fst st, w1))))"

definition cached_call ::
  "('c, 'w, 'e) client_env \<Rightarrow> facade \<Rightarrow> cache_namespace \<Rightarrow> string \<Rightarrow> string \<Rightarrow> exn + base_method \<Rightarrow> 'c option \<times> 'w \<Rightarrow>
     (exn + pyval parsed) \<times> 'c option \<times> 'w" where
  \<comment> \<open>the common body of the cached reads: look up, or call and store\<close>
  "cached_call env c ns key cls m st =
     (case cache_get env ns key st of
        (cached, st1) \<Rightarrow>
          if cached \<noteq> JNull
          then (map_ok (\<lambda>v. PModel (bind_result_value (fc_account_id c) v)) (ce_validate env cls cached), st1)
          else (case client_value env c m st1 of
                  (Inl e, st2) \<Rightarrow> (Inl e, st2)
                | (Inr r, st2) \<Rightarrow> (Inr r, cache_set env ns key r st2)))"

definition client_list_conversations ::
  "('c, 'w, 'e) client_env \<Rightarrow> facade \<Rightarrow> int \<Rightarrow> bool option \<Rightarrow> string option \<Rightarrow> 'c option \<times> 'w \<Rightarrow> (exn + pyval parsed) \<times> 'c option \<times> 'w" where
  "client_list_conversations env c limit starred org_uuid st =
     cached_call env c CONVERSATION_LIST
       (or_default org_uuid (fc_org_uuid c) @ '':'' @ string_of_int limit @ '':''
          @ (case starred of None \<Rightarrow> ''None'' | Some b \<Rightarrow> if b then ''True'' else ''False''))
       ''PaginatedResponse[Conversation]'' (bind_result (org_or c org_uuid) (\<lambda>org. Inr (ListConversations org limit starred None))) st"

definition client_get_conversation ::
  "('c, 'w, 'e) client_env \<Rightarrow> facade \<Rightarrow> string \<Rightarrow> bool \<Rightarrow> string option \<Rightarrow> 'c option \<times> 'w \<Rightarrow> (exn + pyval parsed) \<times> 'c option \<times> 'w" where
  "client_get_conversation env c conv_uuid tree org_uuid st =
     cached_call env c CONVERSATION conv_uuid ''Conversation''
       (bind_result (org_or c org_uuid) (\<lambda>org. Inr (GetConversation org conv_uuid tree True ''messages'' None))) st"

definition client_create_conversation ::
  "('c, 'w, 'e) client_env \<Rightarrow> facade \<Rightarrow> string \<Rightarrow> string \<Rightarrow> string option \<Rightarrow> bool \<Rightarrow> string option \<Rightarrow> 'c option \<times> 'w \<Rightarrow>
     (exn + pyval parsed) \<times> 'c option \<times> 'w" where
  "client_create_conversation env c uuid name model is_temporary org_uuid st =
     (case client_value env c (bind_result (org_or c org_uuid)
             (\<lambda>org. Inr (CreateConversation org uuid name (or_default model (fc_default_model c)) True is_temporary))) st of
        (Inl e, st1) \<Rightarrow> (Inl e, st1)
      | (Inr r, st1) \<Rightarrow> (Inr r, cache_set env CONVERSATION uuid r st1))"

definition client_create_conversation_for_prompt ::
  "('c, 'w, 'e) client_env \<Rightarrow> facade \<Rightarrow> string \<Rightarrow> 'c option \<times> 'w \<Rightarrow> (exn + pyval parsed) \<times> 'c option \<times> 'w" where
  \<comment> \<open>the argument is the new UUID; the prompt is not used\<close>
  "client_create_conversation_for_prompt env c new_uuid st = client_create_conversation env c new_uuid [] None False None st"

definition forget_after ::
  "('c, 'w, 'e) client_env \<Rightarrow> cache_namespace \<Rightarrow> string list \<Rightarrow> (exn + pyval parsed) \<times> 'c option \<times> 'w \<Rightarrow> (exn + unit) \<times> 'c option \<times> 'w" where
  \<comment> \<open>the tail of the writes: nothing when the call raised, else the cache entries are deleted\<close>
  "forget_after env ns keys p =
     (case p of
        (Inl e, st) \<Rightarrow> (Inl e, st)
      | (Inr _, st) \<Rightarrow> (Inr (), fold (cache_delete env ns) keys st))"

definition client_update_conversation ::
  "('c, 'w, 'e) client_env \<Rightarrow> facade \<Rightarrow> string \<Rightarrow> string option \<Rightarrow> string option \<Rightarrow> string option \<Rightarrow> 'c option \<times> 'w \<Rightarrow>
     (exn + unit) \<times> 'c option \<times> 'w" where
  "client_update_conversation env c conv_uuid name project_uuid org_uuid st =
     forget_after env CONVERSATION [conv_uuid]
       (client_value env c (bind_result (org_or c org_uuid) (\<lambda>org. Inr (UpdateConversation org conv_uuid name project_uuid))) st)"

definition client_delete_conversation ::
  "('c, 'w, 'e) client_env \<Rightarrow> facade \<Rightarrow> string \<Rightarrow> string option \<Rightarrow> 'c option \<times> 'w \<Rightarrow> (exn + unit) \<times> 'c option \<times> 'w" where
  "client_delete_conversation env c conv_uuid org_uuid st =
     forget_after env CONVERSATION [conv_uuid]
       (client_value env c (bind_result (org_or c org_uuid) (\<lambda>org. Inr (DeleteConversation org conv_uuid))) st)"

definition client_delete_conversations ::
  "('c, 'w, 'e) client_env \<Rightarrow> facade \<Rightarrow> string list \<Rightarrow> string option \<Rightarrow> 'c option \<times> 'w \<Rightarrow> (exn + unit) \<times> 'c option \<times> 'w" where
  "client_delete_conversations env c conv_uuids org_uuid st =
     forget_after env CONVERSATION conv_uuids
       (client_value env c (bind_result (org_or c org_uuid) (\<lambda>org.
          bind_result (delete_many_post_init conv_uuids) (\<lambda>uuids. Inr (DeleteMany org uuids)))) st)"

definition client_get_project ::
  "('c, 'w, 'e) client_env \<Rightarrow> facade \<Rightarrow> string \<Rightarrow> string option \<Rightarrow> 'c option \<times> 'w \<Rightarrow> (exn + pyval parsed) \<times> 'c option \<times> 'w" where
  "client_get_project env c project_uuid org_uuid st =
     cached_call env c PROJECT project_uuid ''Project''
       (bind_result (org_or c org_uuid) (\<lambda>org. Inr (GetProject org project_uuid))) st"

definition client_update_project ::
  "('c, 'w, 'e) client_env \<Rightarrow> facade \<Rightarrow> string \<Rightarrow> string option \<Rightarrow> string option \<Rightarrow> string option \<Rightarrow> 'c option \<times> 'w \<Rightarrow>
     (exn + unit) \<times> 'c option \<times> 'w" where
  "client_update_project env c project_uuid name description org_uuid st =
     forget_after env PROJECT [project_uuid]
       (client_value env c (bind_result (org_or c org_uuid) (\<lambda>org. Inr (UpdateProject org project_uuid name description None))) st)"

subsection \<open>Organization scoping\<close>

inductive scoped_call :: "facade \<Rightarrow> string option \<Rightarrow> exn + base_method \<Rightarrow> bool" for c :: facade where
  \<comment> \<open>the wrappers that take an organization, with any other arguments\<close>
  "scoped_call c org_uuid (client_get_access c org_uuid)"
| "scoped_call c org_uuid (client_get_organization c org_uuid)"
| "scoped_call c org_uuid (client_get_subscription c org_uuid)"
| "scoped_call c org_uuid (client_get_model_config c model_id org_uuid)"
| "scoped_call c org_uuid (client_get_credits c org_uuid)"
| "scoped_call c org_uuid (client_get_styles c org_uuid)"
| "scoped_call c org_uuid (client_get_memory c project_uuid org_uuid)"
| "scoped_call c org_uuid (client_get_payment_method c org_uuid)"
| "scoped_call c org_uuid (client_get_paused_subscription c org_uuid)"
| "scoped_call c org_uuid (client_get_cowork_settings c org_uuid)"
| "scoped_call c org_uuid (client_get_experiences c loc org_uuid)"
| "scoped_call c org_uuid (client_list_marketplaces c org_uuid)"
| "scoped_call c org_uuid (client_get_memory_settings c org_uuid)"
| "scoped_call c org_uuid (client_get_notification_preferences c org_uuid)"
| "scoped_call c org_uuid (client_list_skills c org_uuid)"
| "scoped_call c org_uuid (client_get_overage_spend_limit c org_uuid)"
| "scoped_call c org_uuid (client_get_pending_domain_claim c org_uuid)"
| "scoped_call c organization_uuid (client_get_stripe_region c country organization_uuid)"
| "scoped_call c org_uuid (client_get_gift_eligibility c org_uuid)"
| "scoped_call c org_uuid (client_get_consumer_pricing c country interval org_uuid)"
| "scoped_call c org_uuid (client_get_plan_pricing c country org_uuid)"
| "scoped_call c org_uuid (client_create_stripe_intent c plan country billing_address org_uuid)"
| "scoped_call c org_uuid (client_get_claude_code_settings c org_uuid)"
| "scoped_call c org_uuid (client_update_claude_code_settings c entries org_uuid)"
| "scoped_call c org_uuid (client_get_current_user_access c org_uuid)"
| "scoped_call c org_uuid (client_get_mcp_bootstrap c org_uuid)"
| "scoped_call c org_uuid (client_get_app_start c include_system_prompts org_uuid)"
| "scoped_call c org_uuid (client_generate_title c conv_uuid message_content recent_titles org_uuid)"
| "scoped_call c org_uuid (client_send_message c conv_uuid prompt model opts org_uuid)"
| "scoped_call c org_uuid (client_list_projects c limit offset order_by search_query org_uuid)"
| "scoped_call c org_uuid (client_get_project_members c project_uuid org_uuid)"
| "scoped_call c org_uuid (client_get_project_permissions c project_uuid org_uuid)"
| "scoped_call c org_uuid (client_list_project_docs c project_uuid org_uuid)"
| "scoped_call c org_uuid (client_add_project_doc c project_uuid file_name content org_uuid)"
| "scoped_call c org_uuid (client_list_project_files c project_uuid org_uuid)"
| "scoped_call c org_uuid (client_get_project_conversations c project_uuid limit offset org_uuid)"
| "scoped_call c org_uuid (client_get_kb_stats c project_uuid org_uuid)"
| "scoped_call c org_uuid (client_sync_project c project_uuid org_uuid)"
| "scoped_call c org_uuid (client_get_artifact_versions c conv_uuid source org_uuid)"
| "scoped_call c org_uuid (client_upload_file guess_type c conv_uuid file_content file_name org_uuid)"
| "scoped_call c org_uuid (client_download_file c conv_uuid path org_uuid)"
| "scoped_call c org_uuid (client_get_sync_settings c org_uuid)"
| "scoped_call c org_uuid (client_get_sync_auth_status c provider org_uuid)"

inductive plain_call :: "facade \<Rightarrow> exn + base_method \<Rightarrow> bool" for c :: facade where
  \<comment> \<open>the wrappers that take none\<close>
  "plain_call c (client_get_login_methods c email source)"
| "plain_call c (client_send_magic_link c email_address loc source utc_offset login_intent return_to)"
| "plain_call c (client_verify_magic_link c nonce encoded_email_address code credential loc source)"
| "plain_call c (client_exchange_nonce_for_code c nonce encoded_email_address credential loc source)"
| "plain_call c (client_verify_google c code arkose_session_token loc source return_to)"
| "plain_call c (client_get_profile c)"
| "plain_call c (client_get_raven_eligible c)"
| "plain_call c (client_update_account_settings c settings)"
| "plain_call c (client_set_email_consent c consent accepted_via_checkbox variant)"
| "plain_call c (client_patch_account_settings c settings)"
| "plain_call c (client_accept_legal_docs c acceptances)"
| "plain_call c (client_update_profile c work_function loc conversation_preferences)"
| "plain_call c (client_get_invites c account_uuid)"
| "plain_call c (client_list_discoverable_organizations c)"
| "plain_call c (client_get_edge_bootstrap c include_system_prompts)"
| "plain_call c (client_get_referral c)"
| "plain_call c (client_check_team_signup_eligibility c check)"
| "plain_call c (client_check_team_trial_eligibility c check)"

definition org_param :: "base_method \<Rightarrow> json option" where
  "org_param m =
     (case dict_get (mp_path (bm_params m)) ''org_uuid'' of
        Some v \<Rightarrow> Some v
      | None \<Rightarrow> dict_get (mp_query (bm_params m)) ''organization_uuid'')"

lemmas scoped_defs =
  client_get_access_def client_get_organization_def client_get_subscription_def client_get_model_config_def
  client_get_credits_def client_get_styles_def client_get_memory_def client_get_payment_method_def
  client_get_paused_subscription_def client_get_cowork_settings_def client_get_experiences_def client_list_marketplaces_def
  client_get_memory_settings_def client_get_notification_preferences_def client_list_skills_def client_get_overage_spend_limit_def
  client_get_pending_domain_claim_def client_get_stripe_region_def client_get_gift_eligibility_def client_get_consumer_pricing_def
  client_get_plan_pricing_def client_create_stripe_intent_def client_get_claude_code_settings_def client_update_claude_code_settings_def
  client_get_current_user_access_def client_get_mcp_bootstrap_def client_get_app_start_def client_generate_title_def
  client_send_message_def client_list_projects_def client_get_project_members_def client_get_project_permissions_def
  client_list_project_docs_def client_add_project_doc_def client_list_project_files_def client_get_project_conversations_def
  client_get_kb_stats_def client_sync_project_def client_get_artifact_versions_def client_upload_file_def
  client_download_file_def client_get_sync_settings_def client_get_sync_auth_status_def

lemmas plain_defs =
  client_get_login_methods_def client_send_magic_link_def client_verify_magic_link_def client_exchange_nonce_for_code_def
  client_verify_google_def client_get_profile_def client_get_raven_eligible_def client_update_account_settings_def
  client_set_email_consent_def client_patch_account_settings_def client_accept_legal_docs_def client_update_profile_def
  client_get_invites_def client_list_discoverable_organizations_def client_get_edge_bootstrap_def client_get_referral_def
  client_check_team_signup_eligibility_def client_check_team_trial_eligibility_def

lemma plain_call_sent: "plain_call c r \<Longrightarrow> \<exists>m. r = Inr m \<and> api_method m"
  by (induction rule: plain_call.induct) (auto simp: plain_defs intro: api_method.intros)

lemma scoped_call_api: "scoped_call c org r \<Longrightarrow> r = Inr m \<Longrightarrow> api_method m"
  by (cases rule: scoped_call.cases, assumption)
    (auto simp: scoped_defs bind_result_def split: sum.splits intro: api_method.intros)

lemma scoped_call_org:
  "scoped_call c org r \<Longrightarrow> r = Inr m \<Longrightarrow> \<exists>x. org_or c org = Inr x \<and> org_param m = Some (JStr x)"
  by (cases rule: scoped_call.cases, assumption)
    (auto simp: scoped_defs bind_result_def send_message_post_init_def org_param_def api_method_defs http_api_def no_params_def
      split: sum.splits if_splits)

lemma scoped_call_raises:
  "scoped_call c org r \<Longrightarrow> r = Inl e \<Longrightarrow> org_or c org = Inl e \<or>
    e \<in> {Py (ValueError ''Both human_message_uuid and assistant_message_uuid must be set or both empty''),
         Py (ValueError ''file_content must not be empty''), Py (ValueError ''file_name must not be empty'')}"
  by (cases rule: scoped_call.cases, assumption)
    (auto simp: scoped_defs bind_result_def send_message_post_init_def upload_file_post_init_def split: sum.splits if_splits)

lemma scoped_call_no_org: "scoped_call c org r \<Longrightarrow> org_or c org = Inl e \<Longrightarrow> r = Inl e"
  by (cases rule: scoped_call.cases, assumption) (auto simp: scoped_defs bind_result_def)

lemma org_or_cases:
  "org_or c org =
    (if or_default org (fc_org_uuid c) = []
     then Inl (Py (ValueError ''org_uuid is required - set client.org_uuid or pass org_uuid param''))
     else Inr (or_default org (fc_org_uuid c)))"
  by (auto simp: org_or_def require_org_def or_default_def split: option.splits)

end
