(* ===== verification/Client_Laws.thy ===== *)
theory Client_Laws
  imports Client
begin

section \<open>What the client promises about its cache\<close>

text \<open>
  The contract of a cache as a locale, proved for the memory cache, and what the cached reads of the facade answer after any
  history of its operations on conversations. The hypotheses on the session say that its clock does not run backwards and that
  what pydantic dumps it also reads back.
\<close>

subsection \<open>The cache interface\<close>

locale response_cache =
  fixes co :: "'c cache_ops"
    and peek :: "'c \<Rightarrow> cache_namespace \<Rightarrow> string \<Rightarrow> pyfloat \<Rightarrow> json"
  assumes get_peek: "fst (co_get co ns k now c) = peek c ns k now"
    and peek_get: "now \<le> n \<Longrightarrow> peek (snd (co_get co ns k now c)) ns' k' n = peek c ns' k' n"
    and peek_set: "peek (co_set co ns k v ttl now c) ns k n \<in> {v, JNull}"
    and peek_set_other: "(ns', k') \<noteq> (ns, k) \<Longrightarrow> peek (co_set co ns k v ttl now c) ns' k' n = peek c ns' k' n"
    and peek_delete: "peek (co_delete co ns k c) ns k n = JNull"
    and peek_delete_other: "(ns', k') \<noteq> (ns, k) \<Longrightarrow> peek (co_delete co ns k c) ns' k' n = peek c ns' k' n"

definition mc_peek :: "mem_cache \<Rightarrow> cache_namespace \<Rightarrow> string \<Rightarrow> pyfloat \<Rightarrow> json" where
  "mc_peek c ns key now = fst (mc_get ns key now c)"

lemma mc_peek_alt:
  "mc_peek c ns key now =
    (case dict_get (dict_getd (mc_data c) ns []) key of
       None \<Rightarrow> JNull
     | Some (v, None) \<Rightarrow> v
     | Some (v, Some t) \<Rightarrow> if t < now then JNull else v)"
  by (auto simp: mc_peek_def mc_get_def Let_def split: option.splits)

lemma mc_peek_update:
  "mc_peek (c\<lparr>mc_data := dict_set (mc_data c) ns entries\<rparr>) ns' key now =
    (if ns' = ns then (case dict_get entries key of
       None \<Rightarrow> JNull
     | Some (v, None) \<Rightarrow> v
     | Some (v, Some t) \<Rightarrow> if t < now then JNull else v) else mc_peek c ns' key now)"
  by (simp add: mc_peek_alt dict_getd_def update_conv')

lemma mc_get_state:
  "snd (mc_get ns k now c) = c \<or>
    (\<exists>v t. dict_get (dict_getd (mc_data c) ns []) k = Some (v, Some t) \<and> t < now \<and>
      snd (mc_get ns k now c) = c\<lparr>mc_data := dict_set (mc_data c) ns (dict_del (dict_getd (mc_data c) ns []) k)\<rparr>)"
  by (auto simp: mc_get_def Let_def split: option.splits)

interpretation mcache: response_cache mem_cache_ops mc_peek
proof (unfold_locales, goal_cases)
  case (1 ns k now c)
  show ?case by (simp add: mem_cache_ops_def mc_peek_def)
next
  case (2 now n ns k c ns' k')
  from mc_get_state [of ns k now c] show ?case
  proof (elim disjE exE conjE)
    fix v t
    assume e: "dict_get (dict_getd (mc_data c) ns []) k = Some (v, Some t)" "t < now"
      "snd (mc_get ns k now c) = c\<lparr>mc_data := dict_set (mc_data c) ns (dict_del (dict_getd (mc_data c) ns []) k)\<rparr>"
    then show ?thesis using 2 by (auto simp: mem_cache_ops_def mc_peek_update mc_peek_alt delete_conv')
  qed (simp add: mem_cache_ops_def)
next
  case (3 ns k v ttl now c n)
  show ?case by (auto simp: mem_cache_ops_def mc_set_def Let_def mc_peek_update update_conv' split: option.splits)
next
  case (4 ns' k' ns k v ttl now c n)
  then show ?case
    by (auto simp: mem_cache_ops_def mc_set_def Let_def mc_peek_update update_conv' mc_peek_alt)
next
  case (5 ns k c n)
  show ?case
    by (auto simp: mem_cache_ops_def mc_delete_def mc_peek_update mc_peek_alt delete_conv' dict_getd_def split: option.splits)
next
  case (6 ns' k' ns k c n)
  then show ?case
    by (auto simp: mem_cache_ops_def mc_delete_def mc_peek_update mc_peek_alt delete_conv' dict_getd_def split: option.splits)
qed

subsection \<open>Histories of conversation operations\<close>

datatype conv_op =
    GetConv string bool "string option"
  | ListConvs int "bool option" "string option"
  | CreateConv string string "string option" bool "string option"
  | UpdateConv string "string option" "string option" "string option"
  | DeleteConv string "string option"
  | DeleteConvs "string list" "string option"
  | OtherCall base_method                            \<comment> \<open>any wrapper without cache, \<open>send_message\<close> among them\<close>

datatype conv_result = Got "exn + pyval parsed" | Done "exn + unit"

fun conv_step :: "('c, 'w, 'e) client_env \<Rightarrow> facade \<Rightarrow> conv_op \<Rightarrow> 'c option \<times> 'w \<Rightarrow> conv_result \<times> 'c option \<times> 'w" where
  "conv_step env c (GetConv k tree org) st = apfst Got (client_get_conversation env c k tree org st)"
| "conv_step env c (ListConvs limit starred org) st = apfst Got (client_list_conversations env c limit starred org st)"
| "conv_step env c (CreateConv k name model temp org) st = apfst Got (client_create_conversation env c k name model temp org st)"
| "conv_step env c (UpdateConv k name project org) st = apfst Done (client_update_conversation env c k name project org st)"
| "conv_step env c (DeleteConv k org) st = apfst Done (client_delete_conversation env c k org st)"
| "conv_step env c (DeleteConvs ks org) st = apfst Done (client_delete_conversations env c ks org st)"
| "conv_step env c (OtherCall m) st = (Done (Inr ()), (fst st, snd (client_call (ce_session env) c m (snd st))))"

fun learn :: "conv_op \<Rightarrow> conv_result \<Rightarrow> (string \<Rightarrow> pyval parsed option) \<Rightarrow> string \<Rightarrow> pyval parsed option" where
  \<comment> \<open>the specification: the last answer about a conversation since it was last changed\<close>
  "learn (GetConv k tree org) (Got (Inr r)) l = l(k := Some r)"
| "learn (CreateConv k name model temp org) (Got (Inr r)) l = l(k := Some r)"
| "learn (UpdateConv k name project org) (Done (Inr _)) l = l(k := None)"
| "learn (DeleteConv k org) (Done (Inr _)) l = l(k := None)"
| "learn (DeleteConvs ks org) (Done (Inr _)) l = (\<lambda>k. if k \<in> set ks then None else l k)"
| "learn op res l = l"

fun conv_run ::
  "('c, 'w, 'e) client_env \<Rightarrow> facade \<Rightarrow> conv_op list \<Rightarrow> 'c option \<times> 'w \<Rightarrow> (string \<Rightarrow> pyval parsed option) \<Rightarrow>
     ('c option \<times> 'w) \<times> (string \<Rightarrow> pyval parsed option)" where
  "conv_run env c [] st l = (st, l)"
| "conv_run env c (op # ops) st l =
     (case conv_step env c op st of (res, st1) \<Rightarrow> conv_run env c ops st1 (learn op res l))"

definition restorable :: "('c, 'w, 'e) client_env \<Rightarrow> facade \<Rightarrow> pyval parsed \<Rightarrow> bool" where
  \<comment> \<open>a conversation object that survives dump and validation\<close>
  "restorable env c r \<longleftrightarrow>
     (\<exists>v u. r = PModel v \<and> ce_validate env ''Conversation'' (ce_dump env v) = Inr u \<and> bind_result_value (fc_account_id c) u = v)"

definition steady_session :: "('c, 'w, 'e) client_env \<Rightarrow> facade \<Rightarrow> bool" where
  "steady_session env c \<longleftrightarrow>
     (\<forall>m w. ce_clock env w \<le> ce_clock env (snd (client_call (ce_session env) c m w))) \<and>
     (\<forall>m w r w1. bm_model m = PydanticModel \<longrightarrow> client_call (ce_session env) c m w = (Inr (Value r), w1) \<longrightarrow> restorable env c r)"

definition conv_method :: "facade \<Rightarrow> string \<Rightarrow> bool \<Rightarrow> string option \<Rightarrow> exn + base_method" where
  "conv_method c k tree org = bind_result (org_or c org) (\<lambda>org. Inr (GetConversation org k tree True ''messages'' None))"

definition entry_ok :: "('c, 'w, 'e) client_env \<Rightarrow> facade \<Rightarrow> pyval parsed option \<Rightarrow> json \<Rightarrow> bool" where
  \<comment> \<open>a cached value is the dump of what was learned\<close>
  "entry_ok env c r j \<longleftrightarrow> j = JNull \<or> (\<exists>v. r = Some (PModel v) \<and> j = ce_dump env v \<and> restorable env c (PModel v))"

context response_cache
begin

definition known :: "('c, 'w, 'e) client_env \<Rightarrow> facade \<Rightarrow> (string \<Rightarrow> pyval parsed option) \<Rightarrow> 'c option \<times> 'w \<Rightarrow> bool" where
  "known env c l st \<longleftrightarrow>
     (\<forall>ca k n. fst st = Some ca \<longrightarrow> ce_clock env (snd st) \<le> n \<longrightarrow> entry_ok env c (l k) (peek ca CONVERSATION k n))"

lemma knownI: "(\<And>k n. ce_clock env w \<le> n \<Longrightarrow> entry_ok env c (l k) (peek ca CONVERSATION k n)) \<Longrightarrow> known env c l (Some ca, w)"
  by (simp add: known_def)

lemma knownD: "known env c l (Some ca, w) \<Longrightarrow> ce_clock env w \<le> n \<Longrightarrow> entry_ok env c (l k) (peek ca CONVERSATION k n)"
  by (simp add: known_def)

lemma known_no_cache [simp]: "known env c l (None, w)"
  by (simp add: known_def)

lemma known_later:
  assumes "known env c l (x, w)" and "ce_clock env w \<le> ce_clock env w'"
  shows "known env c l (x, w')"
proof (cases x)
  case (Some ca)
  then show ?thesis using assms by (auto intro!: knownI dest: order_trans intro: knownD [OF assms(1) [unfolded Some]])
qed simp

lemma client_value_state:
  "snd (client_value env c m (x, w)) = (x, case m of Inl e \<Rightarrow> w | Inr m \<Rightarrow> snd (client_call (ce_session env) c m w))"
  by (auto simp: client_value_def split: prod.splits sum.splits answer.splits)

lemma known_client_value:
  "known env c l (x, w) \<Longrightarrow> steady_session env c \<Longrightarrow> known env c l (snd (client_value env c m (x, w)))"
  by (auto simp: client_value_state steady_session_def split: sum.splits intro: known_later)

lemma cache_get_state:
  "ce_cache env = co \<Longrightarrow> snd (cache_get env ns k (Some ca, w)) = (Some (snd (co_get co ns k (ce_clock env w) ca)), w)"
  by (simp add: cache_get_def case_prod_beta')

lemma known_cache_get:
  assumes "known env c l (x, w)" and "ce_cache env = co"
  shows "known env c l (snd (cache_get env ns k (x, w)))"
proof (cases x)
  case (Some ca)
  then show ?thesis
    unfolding Some cache_get_state [OF assms(2)]
    by (intro knownI) (simp add: peek_get knownD [OF assms(1) [unfolded Some]])
qed (simp add: cache_get_def)

lemma known_cache_set:
  assumes "known env c l (x, w)" and "ce_cache env = co" and "restorable env c r"
  shows "known env c (l(k := Some r)) (cache_set env CONVERSATION k r (x, w))"
proof (cases x)
  case (Some ca)
  obtain v where v: "r = PModel v" using assms(3) by (auto simp: restorable_def)
  have "entry_ok env c ((l(k := Some r)) k') (peek (co_set co CONVERSATION k (ce_dump env v) None (ce_clock env w) ca) CONVERSATION k' n)"
    if n: "ce_clock env w \<le> n" for k' n
  proof (cases "k' = k")
    case True
    then show ?thesis
      using peek_set [of CONVERSATION k "ce_dump env v" None "ce_clock env w" ca n] assms(3) v by (auto simp: entry_ok_def)
  next
    case False
    then show ?thesis using knownD [OF assms(1) [unfolded Some] n, of k'] by (simp add: peek_set_other)
  qed
  then show ?thesis by (auto intro!: knownI simp: Some v cache_set_def dump_parsed_def assms(2))
qed (simp add: cache_set_def)

lemma known_cache_set_other:
  assumes "known env c l (x, w)" and "ce_cache env = co" and "ns \<noteq> CONVERSATION"
  shows "known env c l (cache_set env ns k r (x, w))"
proof (cases x)
  case (Some ca)
  show ?thesis
    unfolding Some cache_set_def prod.case option.case assms(2)
    by (intro knownI) (use assms(3) in \<open>simp add: peek_set_other knownD [OF assms(1) [unfolded Some]]\<close>)
qed (simp add: cache_set_def)

lemma known_cache_delete:
  assumes "known env c l (x, w)" and "ce_cache env = co"
  shows "known env c (l(k := None)) (cache_delete env CONVERSATION k (x, w))"
proof (cases x)
  case (Some ca)
  have "entry_ok env c ((l(k := None)) k') (peek (co_delete co CONVERSATION k ca) CONVERSATION k' n)" if n: "ce_clock env w \<le> n" for k' n
    using knownD [OF assms(1) [unfolded Some] n, of k']
    by (cases "k' = k") (simp_all add: entry_ok_def peek_delete peek_delete_other)
  then show ?thesis by (auto intro!: knownI simp: Some cache_delete_def assms(2))
qed (simp add: cache_delete_def)

lemma known_cache_deletes:
  assumes "ce_cache env = co"
  shows "known env c l st \<Longrightarrow> known env c (\<lambda>k. if k \<in> set ks then None else l k) (fold (cache_delete env CONVERSATION) ks st)"
proof (induction ks arbitrary: l st)
  case (Cons k ks)
  obtain x w where st: "st = (x, w)" by (cases st)
  have "known env c (\<lambda>k'. if k' \<in> set ks then None else (l(k := None)) k') (fold (cache_delete env CONVERSATION) ks (cache_delete env CONVERSATION k st))"
    by (rule Cons.IH [of "l(k := None)"]) (use known_cache_delete [OF Cons.prems [unfolded st] assms] st in \<open>simp only:\<close>)
  moreover have "(\<lambda>k'. if k' \<in> set ks then None else (l(k := None)) k') = (\<lambda>k'. if k' \<in> set (k # ks) then None else l k')"
    by auto
  ultimately show ?case by (simp only: fold.simps comp_apply)
qed simp

lemma known_forget:
  assumes "ce_cache env = co" and "known env c l st"
    and "fst p = (Inr r :: exn + pyval parsed)" and "snd p = st"
  shows "fst (forget_after env CONVERSATION ks p) = Inr () \<and>
    known env c (\<lambda>k. if k \<in> set ks then None else l k) (snd (forget_after env CONVERSATION ks p))"
  using known_cache_deletes [OF assms(1,2)] assms(3,4) by (cases p) (simp add: forget_after_def)

lemma client_call_no_stream: "\<not> bm_is_stream m \<Longrightarrow> client_call sess c m w \<noteq> (Inr (Stream e), w1)"
  by (auto simp: client_call_def map_ok_def bind_result_def split: prod.splits sum.splits)

lemma client_value_restorable:
  assumes "steady_session env c" and "client_value env c (bind_result o' (\<lambda>org. Inr (f org))) st = (Inr r, st1)"
    and "\<And>org. bm_model (f org) = PydanticModel \<and> \<not> bm_is_stream (f org)"
  shows "restorable env c r"
proof -
  obtain org where o': "o' = Inr org" using assms(2) by (cases o') (auto simp: client_value_def bind_result_def)
  obtain w1 where "client_call (ce_session env) c (f org) (snd st) = (Inr (Value r), w1)"
    using assms(2) assms(3) [of org] unfolding o' client_value_def bind_result_def sum.case
    by (auto simp: client_call_no_stream split: prod.splits sum.splits answer.splits)
  then show ?thesis using assms(1) assms(3) [of org] unfolding steady_session_def by blast
qed

lemma cached_hit:
  assumes "known env c l (x, w)" and "ce_cache env = co" and "fst (cache_get env CONVERSATION k (x, w)) \<noteq> JNull"
  shows "\<exists>v. l k = Some (PModel v) \<and> cached_call env c CONVERSATION k ''Conversation'' m (x, w) =
    (Inr (PModel v), snd (cache_get env CONVERSATION k (x, w)))"
proof -
  obtain ca where x: "x = Some ca" using assms(3) by (cases x) (auto simp: cache_get_def)
  have j: "fst (cache_get env CONVERSATION k (x, w)) = peek ca CONVERSATION k (ce_clock env w)"
    using assms(2) by (simp add: x cache_get_def case_prod_beta' get_peek)
  have "entry_ok env c (l k) (peek ca CONVERSATION k (ce_clock env w))" by (rule knownD [OF assms(1) [unfolded x]]) simp
  then obtain v u where "l k = Some (PModel v)" "fst (cache_get env CONVERSATION k (x, w)) = ce_dump env v"
    "ce_validate env ''Conversation'' (ce_dump env v) = Inr u" "bind_result_value (fc_account_id c) u = v"
    using assms(3) j by (auto simp: entry_ok_def restorable_def)
  then show ?thesis using assms(3) by (simp add: cached_call_def case_prod_beta' map_ok_def bind_result_def)
qed

lemma cached_miss:
  assumes "fst (cache_get env ns k (x, w)) = JNull"
  shows "cached_call env c ns k cls m (x, w) =
    (case client_value env c m (snd (cache_get env ns k (x, w))) of
       (Inl e, st2) \<Rightarrow> (Inl e, st2)
     | (Inr r, st2) \<Rightarrow> (Inr r, cache_set env ns k r st2))"
  using assms by (simp add: cached_call_def case_prod_beta')

lemma cache_get_world: "snd (snd (cache_get env ns k (x, w))) = w"
  by (auto simp: cache_get_def split: option.splits prod.splits)

lemma known_cached_conversation:
  assumes "known env c l (x, w)" and "ce_cache env = co" and "steady_session env c"
    and "client_get_conversation env c k tree org (x, w) = (res, st1)"
  shows "known env c (learn (GetConv k tree org) (Got res) l) st1"
proof (cases "fst (cache_get env CONVERSATION k (x, w)) = JNull")
  case False
  from cached_hit [OF assms(1,2) False] obtain v where "l k = Some (PModel v)" "res = Inr (PModel v)"
      "st1 = snd (cache_get env CONVERSATION k (x, w))"
    using assms(4) unfolding client_get_conversation_def by (metis prod.inject)
  then show ?thesis using known_cache_get [OF assms(1,2)] by (simp add: fun_upd_idem)
next
  case True
  let ?st = "snd (cache_get env CONVERSATION k (x, w))" and ?m = "conv_method c k tree org"
  obtain y where y: "?st = (y, w)" using cache_get_world by (metis prod.collapse)
  have k: "known env c l (snd (client_value env c ?m ?st))"
    using known_client_value [OF known_cache_get [OF assms(1,2), of CONVERSATION k, unfolded y] assms(3)] unfolding y .
  have get: "(case client_value env c ?m ?st of (Inl e, st2) \<Rightarrow> (Inl e, st2) | (Inr r, st2) \<Rightarrow> (Inr r, cache_set env CONVERSATION k r st2)) = (res, st1)"
    using assms(4) by (simp add: client_get_conversation_def cached_miss [OF True] conv_method_def)
  obtain r st2 where cv: "client_value env c ?m ?st = (r, st2)" by (meson surj_pair)
  have "restorable env c v" if "r = Inr v" for v
    using client_value_restorable [OF assms(3), of "org_or c org" "\<lambda>org. GetConversation org k tree True ''messages'' None"] cv that
    by (simp add: conv_method_def GetConversation_def http_api_def)
  then show ?thesis using get k cv known_cache_set [OF _ assms(2)] by (cases r; cases st2) auto
qed

lemma known_list:
  assumes "known env c l (x, w)" and "ce_cache env = co" and "steady_session env c"
  shows "known env c l (snd (client_list_conversations env c limit starred org (x, w)))"
proof -
  have "known env c l (snd (cached_call env c CONVERSATION_LIST k cls m (x, w)))" for k cls m
  proof -
    obtain y where y: "snd (cache_get env CONVERSATION_LIST k (x, w)) = (y, w)" using cache_get_world by (metis prod.collapse)
    have g: "known env c l (y, w)" using known_cache_get [OF assms(1,2), of CONVERSATION_LIST k] unfolding y .
    have v: "known env c l (snd (client_value env c m (y, w)))" by (rule known_client_value [OF g assms(3)])
    show ?thesis
      unfolding cached_call_def case_prod_beta' y using g v known_cache_set_other [OF _ assms(2), of c l _ _ CONVERSATION_LIST]
      by (cases "client_value env c m (y, w)") (auto split: sum.splits)
  qed
  then show ?thesis by (simp add: client_list_conversations_def)
qed

lemma known_create:
  assumes "known env c l (x, w)" and "ce_cache env = co" and "steady_session env c"
    and "client_create_conversation env c k name model temp org (x, w) = (res, st1)"
  shows "known env c (learn (CreateConv k name model temp org) (Got res) l) st1"
proof -
  let ?f = "\<lambda>org. CreateConversation org k name (or_default model (fc_default_model c)) True temp"
  obtain r st2 where cv: "client_value env c (bind_result (org_or c org) (\<lambda>org. Inr (?f org))) (x, w) = (r, st2)" by (meson surj_pair)
  have kn: "known env c l st2" using known_client_value [OF assms(1,3)] cv by (metis snd_conv)
  have "restorable env c v" if "r = Inr v" for v
    using client_value_restorable [OF assms(3), of "org_or c org" ?f] cv that by (simp add: CreateConversation_def http_api_def)
  then show ?thesis
    using assms(4) cv kn known_cache_set [OF _ assms(2)]
    by (cases r; cases st2) (auto simp: client_create_conversation_def)
qed

lemma known_write:
  assumes "known env c l (x, w)" and "ce_cache env = co" and "steady_session env c"
    and "forget_after env CONVERSATION ks (client_value env c m (x, w)) = (res, st1)"
    and "\<And>e. learn op (Done (Inl e)) l = l" and "learn op (Done (Inr ())) l = (\<lambda>k. if k \<in> set ks then None else l k)"
  shows "known env c (learn op (Done res) l) st1"
proof -
  obtain r st2 where cv: "client_value env c m (x, w) = (r, st2)" by (meson surj_pair)
  have kn: "known env c l st2" using known_client_value [OF assms(1,3)] cv by (metis snd_conv)
  show ?thesis
  proof (cases r)
    case (Inl e)
    then show ?thesis using assms(4,5) cv kn by (auto simp: forget_after_def)
  next
    case (Inr v)
    then have "res = Inr ()" "st1 = fold (cache_delete env CONVERSATION) ks st2"
      using assms(4) cv by (auto simp: forget_after_def)
    then show ?thesis using known_cache_deletes [OF assms(2) kn] assms(6) by simp
  qed
qed

lemma known_step:
  assumes "known env c l st" and "ce_cache env = co" and "steady_session env c" and "conv_step env c op st = (res, st1)"
  shows "known env c (learn op res l) st1"
proof -
  obtain x w where st: "st = (x, w)" by fastforce
  note kn = assms(1) [unfolded st]
  show ?thesis
  proof (cases op)
    case (GetConv k tree org)
    then show ?thesis using known_cached_conversation [OF kn assms(2,3)] assms(4) st by (cases st1) (auto simp: apfst_def map_prod_def split: prod.splits)
  next
    case (ListConvs limit starred org)
    then show ?thesis
      using known_list [OF kn assms(2,3), of limit starred org] assms(4) st by (cases st1) (auto simp: apfst_def map_prod_def split: prod.splits)
  next
    case (CreateConv k name model temp org)
    then show ?thesis using known_create [OF kn assms(2,3)] assms(4) st by (cases st1) (auto simp: apfst_def map_prod_def split: prod.splits)
  next
    case (UpdateConv k name project org)
    obtain res' where "res = Done res'" "client_update_conversation env c k name project org (x, w) = (res', st1)"
      using assms(4) UpdateConv st by (auto simp: apfst_def map_prod_def split: prod.splits)
    then show ?thesis using known_write [OF kn assms(2,3), of "[k]" _ res' st1 op] UpdateConv
      by (simp add: client_update_conversation_def fun_upd_def)
  next
    case (DeleteConv k org)
    obtain res' where "res = Done res'" "client_delete_conversation env c k org (x, w) = (res', st1)"
      using assms(4) DeleteConv st by (auto simp: apfst_def map_prod_def split: prod.splits)
    then show ?thesis using known_write [OF kn assms(2,3), of "[k]" _ res' st1 op] DeleteConv
      by (simp add: client_delete_conversation_def fun_upd_def)
  next
    case (DeleteConvs ks org)
    obtain res' where "res = Done res'" "client_delete_conversations env c ks org (x, w) = (res', st1)"
      using assms(4) DeleteConvs st by (auto simp: apfst_def map_prod_def split: prod.splits)
    then show ?thesis using known_write [OF kn assms(2,3), of "ks" _ res' st1 op] DeleteConvs
      by (simp add: client_delete_conversations_def fun_upd_def)
  next
    case (OtherCall m)
    then show ?thesis using known_later [OF kn] assms(3,4) st by (auto simp: steady_session_def)
  qed
qed

lemma known_run:
  assumes "ce_cache env = co" and "steady_session env c"
  shows "known env c l st \<Longrightarrow> conv_run env c ops st l = (st1, l1) \<Longrightarrow> known env c l1 st1"
  by (induction ops arbitrary: st l) (auto split: prod.splits dest: known_step [OF _ assms])

lemma read_known:
  assumes "known env c l (x, w)" and "ce_cache env = co"
  shows "(\<exists>r y. l k = Some r \<and> client_get_conversation env c k tree org (x, w) = (Inr r, (y, w))) \<or>
    (fst (client_get_conversation env c k tree org (x, w)) = fst (client_value env c (conv_method c k tree org) (x, w)) \<and>
     snd (snd (client_get_conversation env c k tree org (x, w))) = snd (snd (client_value env c (conv_method c k tree org) (x, w))))"
proof (cases "fst (cache_get env CONVERSATION k (x, w)) = JNull")
  case False
  from cached_hit [OF assms False, of "conv_method c k tree org"] show ?thesis
    unfolding client_get_conversation_def conv_method_def using cache_get_world by (metis prod.collapse)
next
  case True
  obtain y where y: "snd (cache_get env CONVERSATION k (x, w)) = (y, w)" using cache_get_world by (metis prod.collapse)
  have same: "fst (client_value env c m (y, w)) = fst (client_value env c m (x, w))"
    "snd (snd (client_value env c m (y, w))) = snd (snd (client_value env c m (x, w)))" for m
    by (auto simp: client_value_def split: sum.splits prod.splits answer.splits)
  have "snd (cache_set env ns k r st) = snd st" for ns k r st
    by (auto simp: cache_set_def split: prod.splits option.splits)
  then show ?thesis
    using same [of "conv_method c k tree org"] unfolding client_get_conversation_def conv_method_def [symmetric] cached_miss [OF True] y
    by (auto split: prod.splits sum.splits)
qed

end

subsection \<open>Bound objects\<close>

fun no_page :: "pyval \<Rightarrow> bool" where
  "no_page (VObj b fs) = list_all (\<lambda>(k, v). no_page v) fs"
| "no_page (VPage xs) = False"
| "no_page (VList xs) = list_all no_page xs"
| "no_page (VDict d) = list_all (\<lambda>(k, v). no_page v) d"
| "no_page (VScalar j) = True"

fun no_object :: "pyval \<Rightarrow> bool" where
  "no_object (VObj b fs) = False"
| "no_object (VPage xs) = list_all no_object xs"
| "no_object (VList xs) = list_all no_object xs"
| "no_object (VDict d) = list_all (\<lambda>(k, v). no_object v) d"
| "no_object (VScalar j) = True"

fun result_shape :: "pyval \<Rightarrow> bool" where
  \<comment> \<open>what the methods return: objects without pages inside, pages and lists of such results, and plain dictionaries without objects\<close>
  "result_shape (VObj b fs) = list_all (\<lambda>(k, v). no_page v) fs"
| "result_shape (VPage xs) = list_all result_shape xs"
| "result_shape (VList xs) = list_all result_shape xs"
| "result_shape (VDict d) = list_all (\<lambda>(k, v). no_object v) d"
| "result_shape (VScalar j) = True"

fun all_bound :: "string \<Rightarrow> pyval \<Rightarrow> bool" where
  "all_bound client (VObj b fs) = (b = Some client \<and> list_all (\<lambda>(k, v). all_bound client v) fs)"
| "all_bound client (VPage xs) = list_all (all_bound client) xs"
| "all_bound client (VList xs) = list_all (all_bound client) xs"
| "all_bound client (VDict d) = list_all (\<lambda>(k, v). all_bound client v) d"
| "all_bound client (VScalar j) = True"

lemma bind_recursive_all: "no_page v \<Longrightarrow> all_bound client (bind_recursive client v)"
  by (induction v) (fastforce simp: list_all_iff)+

lemma no_object_all_bound: "no_object v \<Longrightarrow> all_bound client v"
  by (induction v) (fastforce simp: list_all_iff)+

lemma bind_result_all: "result_shape v \<Longrightarrow> all_bound client (bind_result_value client v)"
  by (induction v) (fastforce simp: list_all_iff bind_recursive_all no_object_all_bound)+

fun unbound :: "pyval \<Rightarrow> pyval" where
  \<comment> \<open>the value without its private attributes\<close>
  "unbound (VObj b fs) = VObj None (map (\<lambda>(k, v). (k, unbound v)) fs)"
| "unbound (VPage xs) = VPage (map unbound xs)"
| "unbound (VList xs) = VList (map unbound xs)"
| "unbound (VDict d) = VDict (map (\<lambda>(k, v). (k, unbound v)) d)"
| "unbound (VScalar j) = VScalar j"

lemma unbound_bind_recursive: "unbound (bind_recursive client v) = unbound v"
  by (induction v) (auto)

lemma unbound_bind_result: "unbound (bind_result_value client v) = unbound v"
  by (induction v) (simp_all add: unbound_bind_recursive del: bind_recursive.simps)

text \<open>
  C22. Results are bound through and through: after \<open>_bind\<close> every object of a result, at any depth, is bound to the client, whatever it was
  bound to before, provided the result has the shape the methods return; binding changes nothing else, and an object at the top then
  answers its \<open>client\<close> property with the client instead of raising.
\<close>

theorem bind_reaches_every_object:
  assumes "result_shape v"
  shows "all_bound client (bind_result_value client v) \<and> unbound (bind_result_value client v) = unbound v \<and>
    (\<forall>b fs. v = VObj b fs \<longrightarrow> object_client (bind_result_value client v) = Inr client)"
  using bind_result_all [OF assms] unbound_bind_result by (auto simp: object_client_def)

theorem bind_reaches_every_object_witness:
  "all_bound ''acc'' (bind_result_value ''acc'' (VPage [VObj (Some ''old'') [(''members'', VList [VObj None []])]])) \<and>
   unbound (bind_result_value ''acc'' (VPage [VObj (Some ''old'') [(''members'', VList [VObj None []])]])) =
     unbound (VPage [VObj (Some ''old'') [(''members'', VList [VObj None []])]])"
  using bind_reaches_every_object [of "VPage [VObj (Some ''old'') [(''members'', VList [VObj None []])]]" "''acc''"] by simp

subsection \<open>Properties\<close>

definition demo_client :: facade where
  "demo_client = client_init ''acc'' (Some ''org1'') ''model'' ''UTC'' ''en-US''"

definition demo_client_env :: "(mem_cache, nat, unit) client_env" where
  \<comment> \<open>a server that counts the requests and answers each with an empty object\<close>
  "demo_client_env =
     \<lparr>ce_cache = mem_cache_ops,
      ce_session = \<lparr>bs_request = (\<lambda>m w. (Inr (PModel (VObj None [])), Suc w)), bs_multipart = (\<lambda>m w. (Inr (PModel (VObj None [])), Suc w)),
        bs_stream = (\<lambda>m w. (Inr (), Suc w))\<rparr>,
      ce_validate = (\<lambda>cls j. Inr (VObj None [])), ce_dump = (\<lambda>v. JObj []), ce_clock = of_nat\<rparr>"

lemma demo_steady: "steady_session demo_client_env demo_client"
  by (auto simp: steady_session_def demo_client_env_def demo_client_def client_init_def client_call_def map_ok_def bind_result_def restorable_def
      split: if_splits)




definition demo_history :: "conv_op list" where
  "demo_history = [GetConv ''k'' True None, GetConv ''k'' True None, UpdateConv ''k'' (Some ''new'') None None, GetConv ''k'' True None]"


text \<open>
  The cache never refreshes anything either. Without a time to live, the first answer about a conversation decides all later ones:
  whatever happens on the server, messages sent through the same client included, and whatever view or organization is asked for, the
  later answer is the validation of what was stored, without a request. So an answer that is no JSON object, which the base class returns
  unvalidated, is stored as well and makes every later read raise.
\<close>

theorem cached_answer_is_final:
  assumes "ce_cache env = mem_cache_ops"
    and "client_get_conversation env c k tree org (Some (mem_cache_init None), w) = (Inr r, st1)"
    and "dump_parsed (ce_dump env) r \<noteq> JNull"
  shows "client_get_conversation env c k tree' org' (fst st1, w') =
    (map_ok (\<lambda>v. PModel (bind_result_value (fc_account_id c) v)) (ce_validate env ''Conversation'' (dump_parsed (ce_dump env) r)),
     (fst st1, w'))"
proof -
  have miss: "cache_get env CONVERSATION k (Some (mem_cache_init None), w) = (JNull, (Some (mem_cache_init None), w))"
    using assms(1) by (simp add: cache_get_def mem_cache_ops_def mc_get_def mem_cache_init_def dict_getd_def)
  then obtain w1 where "fst st1 = Some (mc_set CONVERSATION k (dump_parsed (ce_dump env) r) None (ce_clock env w1) (mem_cache_init None))"
    using assms(1,2) unfolding client_get_conversation_def cached_call_def
    by (auto simp: client_value_def cache_set_def mem_cache_ops_def split: sum.splits prod.splits answer.splits)
  then have "cache_get env CONVERSATION k (fst st1, w') = (dump_parsed (ce_dump env) r, (fst st1, w'))"
    using assms(1) by (simp add: cache_get_def mem_cache_ops_def mc_get_def mc_set_def mem_cache_init_def dict_getd_def)
  then show ?thesis using assms(3) by (simp add: client_get_conversation_def cached_call_def)
qed

theorem cached_answer_is_final_witness:
  "\<exists>r st1. client_get_conversation demo_client_env demo_client ''k'' True None (Some (mem_cache_init None), 0) = (Inr r, st1) \<and>
    client_get_conversation demo_client_env demo_client ''k'' False (Some ''other'') (fst st1, 99) =
      (Inr (PModel (VObj (Some ''acc'') [])), (fst st1, 99))"
proof -
  obtain st1 where st: "client_get_conversation demo_client_env demo_client ''k'' True None (Some (mem_cache_init None), 0)
      = (Inr (PModel (VObj (Some ''acc'') [])), st1)"
    by (simp add: client_get_conversation_def cached_call_def cache_get_def mem_cache_ops_def mc_get_def mem_cache_init_def dict_getd_def
        client_value_def org_or_cases demo_client_def client_init_def or_default_def bind_result_def client_call_def demo_client_env_def
        GetConversation_def http_api_def map_ok_def)
  from cached_answer_is_final [OF _ st, of False "Some ''other''" 99] st show ?thesis
    by (auto simp: demo_client_env_def dump_parsed_def map_ok_def bind_result_def demo_client_def client_init_def)
qed

end
