(* ===== verification/Transport.thy ===== *)
theory Transport
  imports Middleware Events Cookies Json_Text
begin

section \<open>Transports and proxies\<close>

text \<open>
  \<^verbatim>\<open>claude_ai/transport\<close>: the proxy resolvers and the two transports. The HTTP library is the argument \<open>te_http\<close>: it gets the
  method, the URL and the keyword arguments the transport builds, and ends in a connection error of the library, in any other exception (a
  timeout, say), or in a response; bodies are UTF-8. What the transport hands to its callback and to the bus happens in the world \<open>'w\<close>. A pool is a
  \<open>proxy_pool_ops\<close> record over its state; the lock makes each of its operations atomic.
\<close>

subsection \<open>Proxy resolvers\<close>

record proxy_config =
  px_url :: string
  px_username :: "string option"
  px_password :: "string option"

fun partition_str :: "string \<Rightarrow> string \<Rightarrow> string \<times> string \<times> string" where
  \<comment> \<open>\<open>s.partition(sep)\<close>\<close>
  "partition_str sep [] = ([], [], [])"
| "partition_str sep (c # cs) =
     (if startswith (c # cs) sep then ([], sep, drop (length sep) (c # cs))
      else (case partition_str sep cs of (a, b, r) \<Rightarrow> (c # a, b, r)))"

definition to_httpx :: "proxy_config \<Rightarrow> string" where
  "to_httpx p =
     (if or_default (px_username p) [] \<noteq> [] \<and> or_default (px_password p) [] \<noteq> []
      then (case partition_str ''://'' (px_url p) of
              (scheme, sep, rest) \<Rightarrow> scheme @ sep @ or_default (px_username p) [] @ '':'' @ or_default (px_password p) [] @ ''@'' @ rest)
      else px_url p)"

datatype proxy_input = ProxyObject proxy_config | ProxyUrl string

definition as_proxy :: "proxy_input \<Rightarrow> proxy_config" where
  "as_proxy p = (case p of ProxyObject c \<Rightarrow> c | ProxyUrl u \<Rightarrow> \<lparr>px_url = u, px_username = None, px_password = None\<rparr>)"

record 'p proxy_pool_ops =
  po_get :: "'p \<Rightarrow> proxy_config option \<times> 'p"
  po_report_failure :: "proxy_config \<Rightarrow> 'p \<Rightarrow> 'p"
  po_report_success :: "proxy_config \<Rightarrow> 'p \<Rightarrow> 'p"

definition static_proxy_ops :: "proxy_config proxy_pool_ops" where
  "static_proxy_ops = \<lparr>po_get = (\<lambda>p. (Some p, p)), po_report_failure = (\<lambda>x p. p), po_report_success = (\<lambda>x p. p)\<rparr>"

definition callback_get :: "('p \<Rightarrow> proxy_input option \<times> 'p) \<Rightarrow> 'p \<Rightarrow> proxy_config option \<times> 'p" where
  \<comment> \<open>the resolver may change the state it closes over\<close>
  "callback_get resolver s = (case resolver s of (r, s1) \<Rightarrow> (map_option as_proxy r, s1))"

definition callback_proxy_ops :: "('p \<Rightarrow> proxy_input option \<times> 'p) \<Rightarrow> 'p proxy_pool_ops" where
  "callback_proxy_ops resolver =
     \<lparr>po_get = callback_get resolver, po_report_failure = (\<lambda>x p. p), po_report_success = (\<lambda>x p. p)\<rparr>"

record list_proxy =
  lp_proxies :: "proxy_config list"
  lp_cycle :: nat                        \<comment> \<open>how often \<open>next\<close> was called on the cycle\<close>
  lp_failures :: "int dict"
  lp_skip_failed_count :: int

definition list_proxy_init :: "proxy_input list \<Rightarrow> int \<Rightarrow> exn + list_proxy" where
  "list_proxy_init proxies skip_failed_count =
     (if proxies = [] then Inl (Py (ValueError ''ListProxy requires at least one proxy''))
      else Inr \<lparr>lp_proxies = map as_proxy proxies, lp_cycle = 0, lp_failures = [], lp_skip_failed_count = skip_failed_count\<rparr>)"

definition lp_next :: "list_proxy \<Rightarrow> proxy_config \<times> list_proxy" where
  "lp_next s = (lp_proxies s ! (lp_cycle s mod length (lp_proxies s)), s\<lparr>lp_cycle := Suc (lp_cycle s)\<rparr>)"

fun lp_scan :: "nat \<Rightarrow> list_proxy \<Rightarrow> proxy_config \<times> list_proxy" where
  \<comment> \<open>the loop of \<open>get\<close> with the iterations left, and what follows it\<close>
  "lp_scan 0 s = lp_next (s\<lparr>lp_failures := []\<rparr>)"
| "lp_scan (Suc n) s =
     (case lp_next s of
        (candidate, s1) \<Rightarrow>
          if dict_getd (lp_failures s) (px_url candidate) 0 < lp_skip_failed_count s then (candidate, s1) else lp_scan n s1)"

definition lp_get :: "list_proxy \<Rightarrow> proxy_config option \<times> list_proxy" where
  "lp_get s = (case lp_scan (length (lp_proxies s)) s of (p, s1) \<Rightarrow> (Some p, s1))"

definition lp_report_failure :: "proxy_config \<Rightarrow> list_proxy \<Rightarrow> list_proxy" where
  "lp_report_failure p s = s\<lparr>lp_failures := dict_set (lp_failures s) (px_url p) (dict_getd (lp_failures s) (px_url p) 0 + 1)\<rparr>"

definition lp_report_success :: "proxy_config \<Rightarrow> list_proxy \<Rightarrow> list_proxy" where
  "lp_report_success p s = s\<lparr>lp_failures := dict_del (lp_failures s) (px_url p)\<rparr>"

definition list_proxy_ops :: "list_proxy proxy_pool_ops" where
  "list_proxy_ops = \<lparr>po_get = lp_get, po_report_failure = lp_report_failure, po_report_success = lp_report_success\<rparr>"

subsection \<open>What the transports share\<close>

datatype raw_outcome =
    ClientError string                        \<comment> \<open>the connection error of the library, with its text\<close>
  | OtherTransportError string                \<comment> \<open>\<open>httpx.TransportError\<close> that is no connection or proxy error\<close>
  | RawRaise exn                              \<comment> \<open>any other exception\<close>
  | RawResponse int "string dict" string      \<comment> \<open>status, headers, content bytes\<close>

datatype request_body = NoBody | FormBody "(string \<times> string \<times> string) dict" | JsonBody "json dict" | DataBody string

record request_kwargs =
  rk_headers :: "string dict"
  rk_allow_redirects :: bool
  rk_proxy :: "string option"
  rk_params :: "json dict option"
  rk_body :: request_body

record ('p, 'w) transport_env =
  te_base_url :: string
  te_follow_redirects :: bool
  te_pool :: "'p proxy_pool_ops"
  te_on_proxy_failure :: "(proxy_config \<Rightarrow> string \<Rightarrow> 'w \<Rightarrow> (exn + unit) \<times> 'w) option"
  te_publish :: "(event_body \<Rightarrow> 'w \<Rightarrow> (exn + unit) \<times> 'w) option"
  te_http :: "string \<Rightarrow> string \<Rightarrow> request_kwargs \<Rightarrow> 'w \<Rightarrow> raw_outcome \<times> 'w"
  te_lines :: "string \<Rightarrow> string list"                 \<comment> \<open>how the library cuts a streamed body into lines\<close>

definition resolve_proxy :: "('p, 'w) transport_env \<Rightarrow> 'p option \<Rightarrow> proxy_config option \<times> 'p option" where
  "resolve_proxy env pool =
     (case pool of None \<Rightarrow> (None, None) | Some p \<Rightarrow> (case po_get (te_pool env) p of (x, p1) \<Rightarrow> (x, Some p1)))"

definition run_optional :: "('w \<Rightarrow> (exn + unit) \<times> 'w) option \<Rightarrow> (exn + unit) \<times> 'p \<times> 'w \<Rightarrow> (exn + unit) \<times> 'p \<times> 'w" where
  \<comment> \<open>the next call of \<open>_on_failure\<close>, unless it is not configured or an earlier one raised\<close>
  "run_optional f r =
     (case r of
        (Inl e, st) \<Rightarrow> (Inl e, st)
      | (Inr _, (p, w)) \<Rightarrow> (case f of None \<Rightarrow> (Inr (), (p, w)) | Some g \<Rightarrow> (case g w of (x, w1) \<Rightarrow> (x, (p, w1)))))"

definition on_failure :: "('p, 'w) transport_env \<Rightarrow> proxy_config \<Rightarrow> string \<Rightarrow> 'p option \<times> 'w \<Rightarrow> (exn + unit) \<times> 'p option \<times> 'w" where
  "on_failure env proxy exc st =
     run_optional (map_option (\<lambda>pub. pub (ProxyInvalidEvent (px_url proxy) exc)) (te_publish env))
       (run_optional (map_option (\<lambda>cb. cb proxy exc) (te_on_proxy_failure env))
          (Inr (), (map_option (po_report_failure (te_pool env) proxy) (fst st), snd st)))"

definition connection_failed ::
  "('p, 'w) transport_env \<Rightarrow> string \<Rightarrow> proxy_config option \<Rightarrow> string \<Rightarrow> 'p option \<times> 'w \<Rightarrow> exn \<times> 'p option \<times> 'w" where
  \<comment> \<open>the \<open>except\<close> clause: report the proxy, if there is one, then raise \<open>NetworkError\<close>\<close>
  "connection_failed env url proxy exc st =
     (case proxy of
        None \<Rightarrow> (NetworkError url exc, st)
      | Some p \<Rightarrow> (case on_failure env p exc st of (Inl e, st1) \<Rightarrow> (e, st1) | (Inr _, st1) \<Rightarrow> (NetworkError url exc, st1)))"

definition report_success :: "('p, 'w) transport_env \<Rightarrow> proxy_config option \<Rightarrow> 'p option \<Rightarrow> 'p option" where
  "report_success env proxy pool = (case proxy of None \<Rightarrow> pool | Some p \<Rightarrow> map_option (po_report_success (te_pool env) p) pool)"

definition bytes_text :: "string \<Rightarrow> string" where
  "bytes_text content = decode_utf8 (map of_char content)"

definition safe_json :: "string \<Rightarrow> json" where
  \<comment> \<open>bytes that are no UTF-8 raise \<open>UnicodeDecodeError\<close>, which is a \<open>ValueError\<close>\<close>
  "safe_json content =
     (if \<not> utf8_valid (map of_char content) then JNull
      else case json_loads (bytes_text content) of None \<Rightarrow> JNull | Some j \<Rightarrow> j)"

definition stream_error :: "(pyfloat \<Rightarrow> string) \<Rightarrow> int \<Rightarrow> string \<Rightarrow> exn" where
  \<comment> \<open>the exception of a stream that is answered with an error status\<close>
  "stream_error fr status content =
     raise_for_status status
       (py_str fr
         (case safe_json content of
            JObj d \<Rightarrow>
              (let m = (case dict_getd d ''error'' (JObj []) of
                          JObj err \<Rightarrow> dict_getd err ''message'' (JStr [])
                        | err \<Rightarrow> JStr (py_str fr err))
               in if truthy m then m
                  else if truthy (dict_getd d ''detail'' (JStr [])) then dict_getd d ''detail'' (JStr [])
                  else JStr (take 200 (bytes_text content)))
          | _ \<Rightarrow> JStr (take 200 (bytes_text content))))"

definition stream_lines :: "('p, 'w) transport_env \<Rightarrow> string \<Rightarrow> string list" where
  "stream_lines env content = map bytes_text (te_lines env content)"

subsection \<open>The aiohttp transport\<close>

definition full_url :: "string \<Rightarrow> string \<Rightarrow> string" where
  "full_url base url =
     (if startswith url ''http://'' \<or> startswith url ''https://'' then url
      else if base \<noteq> [] \<and> \<not> endswith base ''/'' \<and> \<not> startswith url ''/'' then base @ ''/'' @ url
      else base @ url)"

definition coerce_query :: "(pyfloat \<Rightarrow> string) \<Rightarrow> json dict \<Rightarrow> json dict" where
  "coerce_query fr params =
     concat (map (\<lambda>(k, v). case v of
         JNull \<Rightarrow> []
       | JBool b \<Rightarrow> [(k, JStr (if b then ''true'' else ''false''))]
       | JInt i \<Rightarrow> [(k, v)]
       | JFloat x \<Rightarrow> [(k, v)]
       | JStr s \<Rightarrow> [(k, v)]
       | _ \<Rightarrow> [(k, JStr (py_str fr v))]) params)"

definition aio_kwargs :: "(pyfloat \<Rightarrow> string) \<Rightarrow> ('p, 'w) transport_env \<Rightarrow> transport_request \<Rightarrow> proxy_config option \<Rightarrow> request_kwargs" where
  "aio_kwargs fr env req proxy =
     \<lparr>rk_headers = tq_headers req, rk_allow_redirects = te_follow_redirects env, rk_proxy = map_option px_url proxy,
      rk_params = (case tq_params req of Some (x # xs) \<Rightarrow> Some (coerce_query fr (x # xs)) | _ \<Rightarrow> None),
      rk_body = (case tq_files req of
                   Some f \<Rightarrow> FormBody f
                 | None \<Rightarrow> (case tq_json req of
                     Some j \<Rightarrow> JsonBody j
                   | None \<Rightarrow> (case tq_content req of Some d \<Rightarrow> DataBody d | None \<Rightarrow> NoBody)))\<rparr>"

definition aio_outcome ::
  "('p, 'w) transport_env \<Rightarrow> string \<Rightarrow> proxy_config option \<Rightarrow> raw_outcome \<Rightarrow> 'p option \<times> 'w \<Rightarrow>
     (exn + int \<times> string dict \<times> string) \<times> 'p option \<times> 'w" where
  \<comment> \<open>the \<open>try\<close> block around the request and the report of a success; every error class of the library is a \<open>ClientError\<close> here\<close>
  "aio_outcome env url proxy out st =
     (case out of
        ClientError exc \<Rightarrow> apfst Inl (connection_failed env url proxy exc st)
      | OtherTransportError exc \<Rightarrow> apfst Inl (connection_failed env url proxy exc st)
      | RawRaise e \<Rightarrow> (Inl e, st)
      | RawResponse status headers content \<Rightarrow> (Inr (status, headers, content), (report_success env proxy (fst st), snd st)))"

definition aio_request ::
  "(pyfloat \<Rightarrow> string) \<Rightarrow> ('p, 'w) transport_env \<Rightarrow> transport_request \<Rightarrow> 'p option \<times> 'w \<Rightarrow>
     (exn + int \<times> string dict \<times> string) \<times> 'p option \<times> 'w" where
  "aio_request fr env req st =
     (case resolve_proxy env (fst st) of
        (proxy, pool) \<Rightarrow>
          (case te_http env (tq_method req) (full_url (te_base_url env) (tq_url req)) (aio_kwargs fr env req proxy) (snd st) of
             (out, w1) \<Rightarrow> aio_outcome env (full_url (te_base_url env) (tq_url req)) proxy out (pool, w1)))"

definition aio_send ::
  "(pyfloat \<Rightarrow> string) \<Rightarrow> ('p, 'w) transport_env \<Rightarrow> transport_request \<Rightarrow> 'p option \<times> 'w \<Rightarrow> (exn + transport_response) \<times> 'p option \<times> 'w" where
  "aio_send fr env req st =
     (case aio_request fr env req st of
        (Inl e, st1) \<Rightarrow> (Inl e, st1)
      | (Inr (status, headers, content), st1) \<Rightarrow>
          (Inr \<lparr>ts_status_code = status, ts_headers = headers, ts_content = content, ts_text = bytes_text content,
                ts_json_body = safe_json content\<rparr>, st1))"

definition aio_stream ::
  "(pyfloat \<Rightarrow> string) \<Rightarrow> ('p, 'w) transport_env \<Rightarrow> transport_request \<Rightarrow> 'p option \<times> 'w \<Rightarrow> (exn + string list) \<times> 'p option \<times> 'w" where
  "aio_stream fr env req st =
     (case aio_request fr env req st of
        (Inl e, st1) \<Rightarrow> (Inl e, st1)
      | (Inr (status, headers, content), st1) \<Rightarrow>
          if status \<ge> 400 then (Inl (stream_error fr status content), st1) else (Inr (stream_lines env content), st1))"

subsection \<open>The httpx transport\<close>

text \<open>The transport keeps one client per proxy URL; the proxy of a client is fixed when it is made.\<close>

type_synonym httpx_clients = "(string option \<times> string option) list"

definition httpx_client_for :: "proxy_config option \<Rightarrow> httpx_clients \<Rightarrow> string option \<times> httpx_clients" where
  \<comment> \<open>the proxy the client uses\<close>
  "httpx_client_for proxy clients =
     (let key = map_option px_url proxy
      in case dict_get clients key of
           Some used \<Rightarrow> (used, clients)
         | None \<Rightarrow> (map_option to_httpx proxy, dict_set clients key (map_option to_httpx proxy)))"

definition httpx_kwargs :: "('p, 'w) transport_env \<Rightarrow> transport_request \<Rightarrow> string option \<Rightarrow> request_kwargs" where
  \<comment> \<open>at most one of the body kinds is given by the session\<close>
  "httpx_kwargs env req used =
     \<lparr>rk_headers = tq_headers req, rk_allow_redirects = te_follow_redirects env, rk_proxy = used,
      rk_params = map_option (filter (\<lambda>(k, v). v \<noteq> JNull)) (tq_params req),
      rk_body = (case tq_json req of
                   Some j \<Rightarrow> JsonBody j
                 | None \<Rightarrow> (case tq_content req of
                     Some d \<Rightarrow> DataBody d
                   | None \<Rightarrow> (case tq_files req of Some f \<Rightarrow> FormBody f | None \<Rightarrow> NoBody)))\<rparr>"

definition httpx_request ::
  "bool \<Rightarrow> ('p, 'w) transport_env \<Rightarrow> transport_request \<Rightarrow> httpx_clients \<times> 'p option \<times> 'w \<Rightarrow>
     (exn + int \<times> string dict \<times> string) \<times> httpx_clients \<times> 'p option \<times> 'w" where
  \<comment> \<open>\<open>wrap\<close>: \<open>send\<close> wraps every transport error, \<open>stream\<close> only connection and proxy errors; the URL is joined by the client\<close>
  "httpx_request wrap env req st =
     (case st of (clients, pool, w) \<Rightarrow>
        (case resolve_proxy env pool of
           (proxy, pool1) \<Rightarrow>
             (case httpx_client_for proxy clients of
                (used, clients1) \<Rightarrow>
                  (case te_http env (tq_method req) (tq_url req) (httpx_kwargs env req used) w of
                     (ClientError exc, w1) \<Rightarrow>
                       (case connection_failed env (tq_url req) proxy exc (pool1, w1) of (e, st1) \<Rightarrow> (Inl e, (clients1, st1)))
                   | (OtherTransportError exc, w1) \<Rightarrow>
                       (Inl (if wrap then NetworkError (tq_url req) exc else OtherException ''TransportError'' exc), (clients1, pool1, w1))
                   | (RawRaise e, w1) \<Rightarrow> (Inl e, (clients1, pool1, w1))
                   | (RawResponse status headers content, w1) \<Rightarrow>
                       (Inr (status, headers, content), (clients1, report_success env proxy pool1, w1))))))"

definition httpx_send ::
  "('p, 'w) transport_env \<Rightarrow> transport_request \<Rightarrow> httpx_clients \<times> 'p option \<times> 'w \<Rightarrow>
     (exn + transport_response) \<times> httpx_clients \<times> 'p option \<times> 'w" where
  "httpx_send env req st =
     (case httpx_request True env req st of
        (Inl e, st1) \<Rightarrow> (Inl e, st1)
      | (Inr (status, headers, content), st1) \<Rightarrow>
          (Inr \<lparr>ts_status_code = status, ts_headers = headers, ts_content = content, ts_text = bytes_text content,
                ts_json_body = safe_json content\<rparr>, st1))"

definition httpx_stream ::
  "(pyfloat \<Rightarrow> string) \<Rightarrow> ('p, 'w) transport_env \<Rightarrow> transport_request \<Rightarrow> httpx_clients \<times> 'p option \<times> 'w \<Rightarrow>
     (exn + string list) \<times> httpx_clients \<times> 'p option \<times> 'w" where
  "httpx_stream fr env req st =
     (case httpx_request False env req st of
        (Inl e, st1) \<Rightarrow> (Inl e, st1)
      | (Inr (status, headers, content), st1) \<Rightarrow>
          if status \<ge> 400 then (Inl (stream_error fr status content), st1) else (Inr (stream_lines env content), st1))"

definition httpx_close :: "httpx_clients \<times> 'p option \<times> 'w \<Rightarrow> httpx_clients \<times> 'p option \<times> 'w" where
  "httpx_close st = ([], snd st)"

subsection \<open>The rotation\<close>

definition fail_count :: "list_proxy \<Rightarrow> proxy_config \<Rightarrow> int" where
  "fail_count s p = dict_getd (lp_failures s) (px_url p) 0"

definition healthy :: "list_proxy \<Rightarrow> proxy_config \<Rightarrow> bool" where
  "healthy s p \<longleftrightarrow> fail_count s p < lp_skip_failed_count s"

definition lp_at :: "list_proxy \<Rightarrow> nat \<Rightarrow> proxy_config" where
  \<comment> \<open>the proxy the cycle yields after \<open>i\<close> more\<close>
  "lp_at s i = lp_proxies s ! ((lp_cycle s + i) mod length (lp_proxies s))"

lemma lp_scan_found:
  "i < n \<Longrightarrow> healthy s (lp_at s i) \<Longrightarrow> \<forall>j<i. \<not> healthy s (lp_at s j) \<Longrightarrow>
    lp_scan n s = (lp_at s i, s\<lparr>lp_cycle := lp_cycle s + i + 1\<rparr>)"
proof (induction n s arbitrary: i rule: lp_scan.induct)
  case (1 s)
  then show ?case by simp
next
  case (2 n s)
  let ?s = "s\<lparr>lp_cycle := Suc (lp_cycle s)\<rparr>"
  have at: "lp_at ?s j = lp_at s (Suc j)" for j by (simp add: lp_at_def)
  have hl: "healthy ?s p = healthy s p" for p by (simp add: healthy_def fail_count_def)
  show ?case
  proof (cases i)
    case 0
    then show ?thesis using 2(3) by (simp add: lp_next_def lp_at_def healthy_def fail_count_def)
  next
    case (Suc k)
    have "lp_scan n ?s = (lp_at ?s k, ?s\<lparr>lp_cycle := lp_cycle ?s + k + 1\<rparr>)"
      by (rule 2(1) [of "lp_at s 0" ?s k])
        (use 2(2-4) Suc at hl in \<open>auto simp: lp_next_def lp_at_def healthy_def fail_count_def\<close>)
    moreover have "\<not> healthy s (lp_at s 0)" using 2(4) Suc by simp
    ultimately show ?thesis using Suc at by (simp add: lp_next_def lp_at_def healthy_def fail_count_def)
  qed
qed

lemma lp_scan_none:
  "\<forall>j<n. \<not> healthy s (lp_at s j) \<Longrightarrow> lp_scan n s = (lp_at s n, s\<lparr>lp_failures := [], lp_cycle := lp_cycle s + n + 1\<rparr>)"
proof (induction n s rule: lp_scan.induct)
  case (1 s)
  then show ?case by (simp add: lp_next_def lp_at_def)
next
  case (2 n s)
  let ?s = "s\<lparr>lp_cycle := Suc (lp_cycle s)\<rparr>"
  have at: "lp_at ?s j = lp_at s (Suc j)" for j by (simp add: lp_at_def)
  have hl: "healthy ?s p = healthy s p" for p by (simp add: healthy_def fail_count_def)
  have "\<not> healthy s (lp_at s 0)" using 2(2) by simp
  moreover have "lp_scan n ?s = (lp_at ?s n, ?s\<lparr>lp_failures := [], lp_cycle := lp_cycle ?s + n + 1\<rparr>)"
    by (rule 2(1) [of "lp_at s 0" ?s])
      (use 2(2) at hl in \<open>auto simp: lp_next_def lp_at_def healthy_def fail_count_def\<close>)
  ultimately show ?case using at by (simp add: lp_next_def lp_at_def healthy_def fail_count_def)
qed

lemma cycle_covers:
  assumes "p \<in> set (lp_proxies s)"
  shows "\<exists>i < length (lp_proxies s). lp_at s i = p"
proof -
  let ?n = "length (lp_proxies s)"
  obtain k where k: "k < ?n" "lp_proxies s ! k = p" using assms by (auto simp: in_set_conv_nth)
  let ?i = "(k + (?n - lp_cycle s mod ?n)) mod ?n"
  have "(lp_cycle s + ?i) mod ?n = (lp_cycle s mod ?n + (k + (?n - lp_cycle s mod ?n))) mod ?n" by (simp add: mod_simps)
  also have "lp_cycle s mod ?n + (k + (?n - lp_cycle s mod ?n)) = k + ?n"
    using less_imp_le [OF mod_less_divisor [of ?n "lp_cycle s"]] k(1) by linarith
  finally have "lp_at s ?i = p" using k by (simp only: lp_at_def mod_add_self2 mod_less)
  moreover have "?i < ?n" by (rule mod_less_divisor) (use k(1) in linarith)
  ultimately show ?thesis by metis
qed

lemma lp_at_member: "lp_proxies s \<noteq> [] \<Longrightarrow> lp_at s i \<in> set (lp_proxies s)"
  by (simp add: lp_at_def)

lemma lp_get_cases:
  assumes "lp_proxies s \<noteq> []"
  obtains (found) i where "i < length (lp_proxies s)" "healthy s (lp_at s i)" "\<forall>j<i. \<not> healthy s (lp_at s j)"
      "lp_get s = (Some (lp_at s i), s\<lparr>lp_cycle := lp_cycle s + i + 1\<rparr>)"
  | (reset) "\<forall>p \<in> set (lp_proxies s). \<not> healthy s p"
      "lp_get s = (Some (lp_at s (length (lp_proxies s))), s\<lparr>lp_failures := [], lp_cycle := lp_cycle s + length (lp_proxies s) + 1\<rparr>)"
proof (cases "\<exists>p \<in> set (lp_proxies s). healthy s p")
  case True
  then obtain k where k: "k < length (lp_proxies s)" "healthy s (lp_at s k)" using cycle_covers by metis
  obtain i where i: "healthy s (lp_at s i)" "\<forall>j<i. \<not> healthy s (lp_at s j)" "i \<le> k"
    using exists_least_iff [of "\<lambda>i. healthy s (lp_at s i)"] k(2) by (metis not_less)
  then have "lp_get s = (Some (lp_at s i), s\<lparr>lp_cycle := lp_cycle s + i + 1\<rparr>)"
    using lp_scan_found [of i "length (lp_proxies s)" s] k(1) by (simp add: lp_get_def)
  then show ?thesis by (rule found [OF le_less_trans [OF i(3) k(1)] i(1,2)])
next
  case False
  then have "\<forall>j < length (lp_proxies s). \<not> healthy s (lp_at s j)" using lp_at_member [OF assms] by blast
  then show ?thesis using reset False lp_scan_none by (simp add: lp_get_def)
qed

fun lp_gets :: "nat \<Rightarrow> list_proxy \<Rightarrow> proxy_config list" where
  \<comment> \<open>the answers of consecutive calls of \<open>get\<close>\<close>
  "lp_gets 0 s = []"
| "lp_gets (Suc n) s = (case lp_get s of (p, s1) \<Rightarrow> the p # lp_gets n s1)"

lemma rotation_reaches:
  "healthy s (lp_at s d) \<Longrightarrow> lp_proxies s \<noteq> [] \<Longrightarrow> d < n \<Longrightarrow> lp_at s d \<in> set (lp_gets n s)"
proof (induction n arbitrary: s d)
  case (Suc n)
  from Suc.prems(2) show ?case
  proof (cases rule: lp_get_cases)
    case (found i)
    show ?thesis
    proof (cases "i = d")
      case True
      then show ?thesis using found(4) by simp
    next
      case False
      let ?s = "s\<lparr>lp_cycle := Suc (lp_cycle s + i)\<rparr>"
      have "\<not> d < i" using found(3) Suc.prems(1) by blast
      then have lt: "i < d" using False by simp
      have at: "lp_at ?s (d - Suc i) = lp_at s d" using lt by (simp add: lp_at_def)
      have "lp_at ?s (d - Suc i) \<in> set (lp_gets n ?s)"
        by (rule Suc.IH) (use Suc.prems lt in \<open>simp_all add: at healthy_def fail_count_def\<close>)
      then show ?thesis using found(4) at by simp
    qed
  next
    case reset
    then show ?thesis using Suc.prems(1) lp_at_member [OF Suc.prems(2), of d] by metis
  qed
qed simp

subsection \<open>Properties\<close>

lemma fail_count_failure: "fail_count (lp_report_failure p s) q = (if px_url q = px_url p then fail_count s q + 1 else fail_count s q)"
  by (simp add: fail_count_def lp_report_failure_def dict_getd_def update_conv')

lemma fail_count_success: "fail_count (lp_report_success p s) q = (if px_url q = px_url p then 0 else fail_count s q)"
  by (simp add: fail_count_def lp_report_success_def dict_getd_def delete_conv')

lemma on_failure_pool:
  "fst (snd (on_failure env p exc (pool, w))) = map_option (po_report_failure (te_pool env) p) pool"
  by (auto simp: on_failure_def run_optional_def split: sum.splits prod.splits option.splits)

lemma lp_get_choice:
  assumes "lp_proxies s \<noteq> []"
  shows "\<exists>p s1. lp_get s = (Some p, s1) \<and> p \<in> set (lp_proxies s) \<and> lp_proxies s1 = lp_proxies s \<and>
    (healthy s p \<and> lp_failures s1 = lp_failures s \<or> (\<forall>q \<in> set (lp_proxies s). \<not> healthy s q) \<and> lp_failures s1 = [])"
  using assms
proof (cases rule: lp_get_cases)
  case (found i)
  then show ?thesis using lp_at_member [OF assms, of i] by simp
next
  case reset
  then show ?thesis using lp_at_member [OF assms, of "length (lp_proxies s)"] by simp
qed

text \<open>
  C33. A request goes through a proxy of the list that has not reached the failure threshold, unless every proxy has, in which case all
  counts start again from zero. A connection error of the library raises the count of exactly that proxy by one, a response clears it,
  and any other exception of the library, a timeout among them, reaches the caller as it is and leaves the counts alone.
\<close>

theorem proxied_send:
  assumes "lp_proxies s \<noteq> []" and "te_pool env = list_proxy_ops"
  shows "\<exists>p s1. lp_get s = (Some p, s1) \<and> p \<in> set (lp_proxies s) \<and>
    (healthy s p \<and> lp_failures s1 = lp_failures s \<or> (\<forall>q \<in> set (lp_proxies s). \<not> healthy s q) \<and> lp_failures s1 = []) \<and>
    (case te_http env (tq_method req) (full_url (te_base_url env) (tq_url req)) (aio_kwargs fr env req (Some p)) w of
       (RawResponse status headers content, w1) \<Rightarrow>
         \<exists>r s2. aio_send fr env req (Some s, w) = (Inr r, (Some s2, w1)) \<and> ts_status_code r = status \<and>
           (\<forall>q. fail_count s2 q = (if px_url q = px_url p then 0 else fail_count s1 q))
     | (RawRaise e, w1) \<Rightarrow> aio_send fr env req (Some s, w) = (Inl e, (Some s1, w1))
     | (err, w1) \<Rightarrow>
         \<exists>e s2 w2. aio_send fr env req (Some s, w) = (Inl e, (Some s2, w2)) \<and>
           (\<forall>q. fail_count s2 q = (if px_url q = px_url p then fail_count s1 q + 1 else fail_count s1 q)))"
proof -
  obtain p s1 where g: "lp_get s = (Some p, s1)" "p \<in> set (lp_proxies s)"
    "healthy s p \<and> lp_failures s1 = lp_failures s \<or> (\<forall>q \<in> set (lp_proxies s). \<not> healthy s q) \<and> lp_failures s1 = []"
    using lp_get_choice [OF assms(1)] by metis
  let ?url = "full_url (te_base_url env) (tq_url req)"
  obtain out w1 where o: "te_http env (tq_method req) ?url (aio_kwargs fr env req (Some p)) w = (out, w1)" by (meson surj_pair)
  have req: "aio_request fr env req (Some s, w) = aio_outcome env ?url (Some p) out (Some s1, w1)"
    using g(1) assms(2) o by (simp add: aio_request_def resolve_proxy_def list_proxy_ops_def)
  have failed: "\<exists>e s2 w2. aio_send fr env req (Some s, w) = (Inl e, (Some s2, w2)) \<and> s2 = lp_report_failure p s1"
    if "aio_outcome env ?url (Some p) out (Some s1, w1) = apfst Inl (connection_failed env ?url (Some p) exc (Some s1, w1))" for exc
    using on_failure_pool [of env p exc "Some s1" w1] assms(2) req that
    by (cases "on_failure env p exc (Some s1, w1)") (auto simp: aio_send_def connection_failed_def list_proxy_ops_def split: sum.splits)
  show ?thesis
  proof (intro exI conjI)
    show "case te_http env (tq_method req) ?url (aio_kwargs fr env req (Some p)) w of
       (RawResponse status headers content, w1) \<Rightarrow>
         \<exists>r s2. aio_send fr env req (Some s, w) = (Inr r, (Some s2, w1)) \<and> ts_status_code r = status \<and>
           (\<forall>q. fail_count s2 q = (if px_url q = px_url p then 0 else fail_count s1 q))
     | (RawRaise e, w1) \<Rightarrow> aio_send fr env req (Some s, w) = (Inl e, (Some s1, w1))
     | (err, w1) \<Rightarrow>
         \<exists>e s2 w2. aio_send fr env req (Some s, w) = (Inl e, (Some s2, w2)) \<and>
           (\<forall>q. fail_count s2 q = (if px_url q = px_url p then fail_count s1 q + 1 else fail_count s1 q))"
    proof (cases out)
      case (ClientError exc)
      then show ?thesis using failed [of exc] o fail_count_failure by (auto simp: aio_outcome_def)
    next
      case (OtherTransportError exc)
      then show ?thesis using failed [of exc] o fail_count_failure by (auto simp: aio_outcome_def)
    next
      case (RawRaise e)
      then show ?thesis using req o by (simp add: aio_send_def aio_outcome_def)
    next
      case (RawResponse status headers content)
      then show ?thesis
        using req o assms(2) fail_count_success
        by (auto simp: aio_send_def aio_outcome_def report_success_def list_proxy_ops_def)
    qed
  qed (use g in auto)
qed

definition demo_proxy :: "string \<Rightarrow> proxy_config" where
  "demo_proxy u = \<lparr>px_url = u, px_username = None, px_password = None\<rparr>"

definition demo_proxies :: list_proxy where
  \<comment> \<open>the first proxy has failed once and one failure is enough to skip it\<close>
  "demo_proxies = \<lparr>lp_proxies = [demo_proxy ''http://a'', demo_proxy ''http://b''], lp_cycle = 0, lp_failures = [(''http://a'', 1)],
     lp_skip_failed_count = 1\<rparr>"

definition demo_transport :: "(list_proxy, unit) transport_env" where
  "demo_transport = \<lparr>te_base_url = ''https://claude.ai'', te_follow_redirects = True, te_pool = list_proxy_ops, te_on_proxy_failure = None,
     te_publish = None, te_http = (\<lambda>m u k w. (ClientError ''refused'', ())), te_lines = (\<lambda>s. [s])\<rparr>"

definition demo_get :: transport_request where
  "demo_get = \<lparr>tq_method = ''GET'', tq_url = ''/api/x'', tq_headers = [], tq_params = None, tq_json = None, tq_content = None,
     tq_files = None, tq_stream = False\<rparr>"

theorem proxied_send_witness:
  "\<exists>e s2 w2. aio_send (\<lambda>x. []) demo_transport demo_get (Some demo_proxies, ()) = (Inl e, (Some s2, w2)) \<and>
    fail_count s2 (demo_proxy ''http://b'') = 1"
proof -
  have h: "lp_get demo_proxies = (Some (demo_proxy ''http://b''), demo_proxies\<lparr>lp_cycle := 2\<rparr>)" by code_simp
  have "lp_proxies demo_proxies \<noteq> []" "te_pool demo_transport = list_proxy_ops"
    by (simp_all add: demo_proxies_def demo_transport_def)
  from proxied_send [OF this, where req = demo_get and fr = "\<lambda>x. []" and w = "()"] h obtain e s2 w2 where
    "aio_send (\<lambda>x. []) demo_transport demo_get (Some demo_proxies, ()) = (Inl e, (Some s2, w2))"
    "fail_count s2 (demo_proxy ''http://b'') = fail_count (demo_proxies\<lparr>lp_cycle := 2\<rparr>) (demo_proxy ''http://b'') + 1"
    by (auto simp: demo_transport_def)
  moreover have "fail_count (demo_proxies\<lparr>lp_cycle := 2\<rparr>) (demo_proxy ''http://b'') = 0" by code_simp
  ultimately show ?thesis by simp
qed

text \<open>
  The rotation starves no proxy: one that has not reached the threshold is handed out within as many calls as there are proxies, if nothing is
  reported in between.
\<close>

theorem rotation_fair:
  assumes "p \<in> set (lp_proxies s)" and "healthy s p"
  shows "p \<in> set (lp_gets (length (lp_proxies s)) s)"
proof -
  obtain d where "d < length (lp_proxies s)" "lp_at s d = p" using cycle_covers [OF assms(1)] by blast
  moreover have "lp_proxies s \<noteq> []" using assms(1) by auto
  ultimately show ?thesis using rotation_reaches [of s d "length (lp_proxies s)"] assms(2) by simp
qed

theorem rotation_fair_witness: "demo_proxy ''http://b'' \<in> set (lp_gets 2 demo_proxies)"
proof -
  have "demo_proxy ''http://b'' \<in> set (lp_proxies demo_proxies)" "healthy demo_proxies (demo_proxy ''http://b'')" by code_simp+
  moreover have "length (lp_proxies demo_proxies) = 2" by (simp add: demo_proxies_def)
  ultimately show ?thesis using rotation_fair by metis
qed

text \<open>The aiohttp transport hands the URL of the proxy to the library without the credentials the proxy was configured with.\<close>

lemma aio_drops_credentials: "rk_proxy (aio_kwargs fr env req (Some p)) = Some (px_url p)"
  by (simp add: aio_kwargs_def)

end
