(* ===== verification/Transport_Laws.thy ===== *)
theory Transport_Laws
  imports Transport
begin

section \<open>What a proxy pool promises its transport\<close>

text \<open>
  The contract of \<^verbatim>\<open>BaseProxyTransport\<close> as a locale: a pool always hands out one of its members, and neither handing out nor a report changes who
  they are. It is proved for the fixed proxy and for the rotating list, and from it, that a transport with a pool never connects to the server directly. (A
  callback may answer that there is no proxy, so it does not keep the contract.)
\<close>

subsection \<open>The interface\<close>

locale proxy_pool =
  fixes po :: "'p proxy_pool_ops"
    and pool_ok :: "'p \<Rightarrow> bool"
    and members :: "'p \<Rightarrow> proxy_config set"
  assumes get_member: "pool_ok s \<Longrightarrow> fst (po_get po s) \<in> Some ` members s"
    and get_keeps: "pool_ok s \<Longrightarrow> pool_ok (snd (po_get po s)) \<and> members (snd (po_get po s)) = members s"
    and failure_keeps: "pool_ok s \<Longrightarrow> pool_ok (po_report_failure po p s) \<and> members (po_report_failure po p s) = members s"
    and success_keeps: "pool_ok s \<Longrightarrow> pool_ok (po_report_success po p s) \<and> members (po_report_success po p s) = members s"

interpretation list_pool: proxy_pool list_proxy_ops "\<lambda>s. lp_proxies s \<noteq> []" "\<lambda>s. set (lp_proxies s)"
proof
  show "fst (po_get list_proxy_ops s) \<in> Some ` set (lp_proxies s)" if "lp_proxies s \<noteq> []" for s
    using lp_get_choice [OF that] by (auto simp: list_proxy_ops_def)
  show "lp_proxies (snd (po_get list_proxy_ops s)) \<noteq> [] \<and> set (lp_proxies (snd (po_get list_proxy_ops s))) = set (lp_proxies s)"
    if "lp_proxies s \<noteq> []" for s
    using lp_get_choice [OF that] that by (auto simp: list_proxy_ops_def)
qed (simp_all add: list_proxy_ops_def lp_report_failure_def lp_report_success_def)

interpretation static_pool: proxy_pool static_proxy_ops "\<lambda>p. True" "\<lambda>p. {p}"
  by unfold_locales (simp_all add: static_proxy_ops_def)

subsection \<open>The traffic of a transport\<close>

definition logging_http ::
  "(string \<Rightarrow> string \<Rightarrow> request_kwargs \<Rightarrow> string option list \<Rightarrow> raw_outcome) \<Rightarrow>
     string \<Rightarrow> string \<Rightarrow> request_kwargs \<Rightarrow> string option list \<Rightarrow> raw_outcome \<times> string option list" where
  \<comment> \<open>an HTTP library with any answers that logs the proxy of each request, \<open>None\<close> for a direct connection\<close>
  "logging_http f m u k w = (f m u k w, w @ [rk_proxy k])"

definition silent :: "('p, 'w) transport_env \<Rightarrow> bool" where
  \<comment> \<open>the callback and the bus make no requests of their own\<close>
  "silent env \<longleftrightarrow>
     (\<forall>cb p e w. te_on_proxy_failure env = Some cb \<longrightarrow> snd (cb p e w) = w) \<and> (\<forall>pub b w. te_publish env = Some pub \<longrightarrow> snd (pub b w) = w)"

fun aio_run :: "(pyfloat \<Rightarrow> string) \<Rightarrow> ('p, 'w) transport_env \<Rightarrow> (bool \<times> transport_request) list \<Rightarrow> 'p option \<times> 'w \<Rightarrow> 'p option \<times> 'w" where
  \<comment> \<open>requests one after the other; the flag says whether it is streamed\<close>
  "aio_run fr env [] st = st"
| "aio_run fr env ((streamed, req) # rs) st =
     aio_run fr env rs (if streamed then snd (aio_stream fr env req st) else snd (aio_send fr env req st))"

fun httpx_run ::
  "(pyfloat \<Rightarrow> string) \<Rightarrow> ('p, 'w) transport_env \<Rightarrow> (bool \<times> transport_request) list \<Rightarrow> httpx_clients \<times> 'p option \<times> 'w \<Rightarrow>
     httpx_clients \<times> 'p option \<times> 'w" where
  "httpx_run fr env [] st = st"
| "httpx_run fr env ((streamed, req) # rs) st =
     httpx_run fr env rs (if streamed then snd (httpx_stream fr env req st) else snd (httpx_send env req st))"

lemma aio_send_state: "snd (aio_send fr env req st) = snd (aio_request fr env req st)"
  by (auto simp: aio_send_def split: prod.splits sum.splits)

lemma aio_stream_state: "snd (aio_stream fr env req st) = snd (aio_request fr env req st)"
  by (auto simp: aio_stream_def split: prod.splits sum.splits)

lemma httpx_send_state: "snd (httpx_send env req st) = snd (httpx_request True env req st)"
  by (auto simp: httpx_send_def split: prod.splits sum.splits)

lemma httpx_stream_state: "snd (httpx_stream fr env req st) = snd (httpx_request False env req st)"
  by (auto simp: httpx_stream_def split: prod.splits sum.splits)

lemma on_failure_quiet:
  "silent env \<Longrightarrow> \<exists>r. on_failure env p exc (pool, w) = (r, (map_option (po_report_failure (te_pool env) p) pool, w))"
  by (cases "te_on_proxy_failure env"; cases "te_publish env")
    (auto simp: silent_def on_failure_def run_optional_def split: prod.splits sum.splits, (metis snd_conv)+)

lemma connection_failed_quiet:
  assumes "silent env"
  shows "\<exists>e. connection_failed env url (Some p) exc (pool, w) = (e, (map_option (po_report_failure (te_pool env) p) pool, w))"
  using on_failure_quiet [OF assms, of p exc pool w] by (auto simp: connection_failed_def split: sum.splits)

definition clients_ok :: "proxy_config set \<Rightarrow> httpx_clients \<Rightarrow> bool" where
  \<comment> \<open>every client was made for a member with the URL it is filed under\<close>
  "clients_ok P clients \<longleftrightarrow> (\<forall>u used. dict_get clients (Some u) = Some used \<longrightarrow> used \<in> Some ` to_httpx ` P)"

lemma client_for_ok:
  assumes "clients_ok P clients" and "p \<in> P"
  shows "fst (httpx_client_for (Some p) clients) \<in> Some ` to_httpx ` P \<and> clients_ok P (snd (httpx_client_for (Some p) clients))"
  using assms by (auto simp: httpx_client_for_def clients_ok_def Let_def dict_simps split: option.splits)

subsection \<open>No direct connection\<close>

context proxy_pool
begin

lemma resolve_member:
  assumes "te_pool env = po" and "pool_ok s"
  shows "\<exists>p s1. resolve_proxy env (Some s) = (Some p, Some s1) \<and> p \<in> members s \<and> pool_ok s1 \<and> members s1 = members s"
  using assms get_member [OF assms(2)] get_keeps [OF assms(2)]
  by (cases "po_get po s") (auto simp: resolve_proxy_def)

lemma aio_request_logged:
  assumes "te_pool env = po" and "te_http env = logging_http f" and "silent env" and "pool_ok s"
  shows "\<exists>p s1. snd (aio_request fr env req (Some s, w)) = (Some s1, w @ [Some (px_url p)]) \<and> p \<in> members s \<and> pool_ok s1 \<and> members s1 = members s"
proof -
  obtain p s1 where r: "resolve_proxy env (Some s) = (Some p, Some s1)" "p \<in> members s" "pool_ok s1" "members s1 = members s"
    using resolve_member [OF assms(1,4)] by blast
  let ?url = "full_url (te_base_url env) (tq_url req)"
  let ?w = "w @ [Some (px_url p)]"
  have "\<exists>s2. snd (aio_outcome env ?url (Some p) out (Some s1, ?w)) = (Some s2, ?w) \<and> pool_ok s2 \<and> members s2 = members s1" for out
    using connection_failed_quiet [OF assms(3), of ?url p _ "Some s1" ?w] failure_keeps [OF r(3), of p] success_keeps [OF r(3), of p] r(3) assms(1)
    by (cases out) (auto simp: aio_outcome_def report_success_def apfst_def map_prod_def split: prod.splits, (metis prod.inject)+)
  moreover have "snd (aio_request fr env req (Some s, w)) =
      snd (aio_outcome env ?url (Some p) (f (tq_method req) ?url (aio_kwargs fr env req (Some p)) w) (Some s1, ?w))"
    using r(1) assms(2) by (simp add: aio_request_def logging_http_def aio_kwargs_def)
  ultimately show ?thesis using r(2,4) by metis
qed

lemma aio_run_logged:
  assumes "te_pool env = po" and "te_http env = logging_http f" and "silent env" and "pool_ok s"
  shows "\<exists>log. snd (aio_run fr env rs (Some s, w)) = w @ log \<and> length log = length rs \<and> set log \<subseteq> Some ` px_url ` members s"
  using assms(4)
proof (induction rs arbitrary: s w)
  case (Cons r rs)
  obtain streamed req where r: "r = (streamed, req)" by (cases r)
  obtain p s1 where st: "snd (aio_request fr env req (Some s, w)) = (Some s1, w @ [Some (px_url p)])" "p \<in> members s" "pool_ok s1" "members s1 = members s"
    using aio_request_logged [OF assms(1-3) Cons.prems] by metis
  obtain log where "snd (aio_run fr env rs (Some s1, w @ [Some (px_url p)])) = (w @ [Some (px_url p)]) @ log"
    "length log = length rs" "set log \<subseteq> Some ` px_url ` members s"
    using Cons.IH [OF st(3)] st(4) by metis
  then show ?case
    using st(1,2) by (intro exI [of _ "Some (px_url p) # log"]) (auto simp: r aio_send_state aio_stream_state)
qed simp

lemma httpx_request_logged:
  assumes "te_pool env = po" and "te_http env = logging_http f" and "silent env" and "pool_ok s" and "clients_ok (members s) clients"
  shows "\<exists>c1 s1 x. snd (httpx_request wrap env req (clients, Some s, w)) = (c1, Some s1, w @ [x]) \<and> x \<in> Some ` to_httpx ` members s \<and>
    pool_ok s1 \<and> members s1 = members s \<and> clients_ok (members s) c1"
proof -
  obtain p s1 where r: "resolve_proxy env (Some s) = (Some p, Some s1)" "p \<in> members s" "pool_ok s1" "members s1 = members s"
    using resolve_member [OF assms(1,4)] by blast
  obtain used c1 where c: "httpx_client_for (Some p) clients = (used, c1)" by (meson surj_pair)
  have ok: "used \<in> Some ` to_httpx ` members s" "clients_ok (members s) c1"
    using client_for_ok [OF assms(5) r(2)] c by simp_all
  let ?w = "w @ [used]"
  let ?out = "f (tq_method req) (tq_url req) (httpx_kwargs env req used) w"
  have http: "te_http env (tq_method req) (tq_url req) (httpx_kwargs env req used) w = (?out, ?w)"
    by (simp add: assms(2) logging_http_def httpx_kwargs_def)
  have "\<exists>s2. snd (httpx_request wrap env req (clients, Some s, w)) = (c1, Some s2, ?w) \<and> pool_ok s2 \<and> members s2 = members s1"
    using connection_failed_quiet [OF assms(3), of "tq_url req" p _ "Some s1" ?w] failure_keeps [OF r(3), of p] success_keeps [OF r(3), of p] r c http assms(1)
    by (cases ?out) (auto simp: httpx_request_def report_success_def split: prod.splits, (metis prod.inject)+)
  then show ?thesis using ok r(4) by blast
qed

lemma httpx_run_logged:
  assumes "te_pool env = po" and "te_http env = logging_http f" and "silent env" and "pool_ok s" and "clients_ok (members s) clients"
  shows "\<exists>log. snd (snd (httpx_run fr env rs (clients, Some s, w))) = w @ log \<and> length log = length rs \<and> set log \<subseteq> Some ` to_httpx ` members s"
  using assms(4,5)
proof (induction rs arbitrary: clients s w)
  case (Cons r rs)
  obtain streamed req where r: "r = (streamed, req)" by (cases r)
  obtain c1 s1 x where st: "snd (httpx_request (\<not> streamed) env req (clients, Some s, w)) = (c1, Some s1, w @ [x])" "x \<in> Some ` to_httpx ` members s"
    "pool_ok s1" "members s1 = members s" "clients_ok (members s1) c1"
    using httpx_request_logged [OF assms(1-3) Cons.prems] by metis
  obtain log where "snd (snd (httpx_run fr env rs (c1, Some s1, w @ [x]))) = (w @ [x]) @ log"
    "length log = length rs" "set log \<subseteq> Some ` to_httpx ` members s"
    using Cons.IH [OF st(3,5)] st(4) by metis
  then show ?case
    using st(1,2) by (cases streamed) (auto simp: r httpx_send_state httpx_stream_state intro!: exI [of _ "x # log"])
qed simp

end

text \<open>
  C32. A transport that is given a list of proxies sends every request, streamed or not, through a proxy of the list, whatever the server, the callback and the bus do
  and however often proxies fail: there is never a direct connection that would show the address of the host. The aiohttp transport connects with the bare URL of the proxy, the
  httpx transport with the credentials put into it.
\<close>

theorem proxied_traffic:
  assumes "lp_proxies s \<noteq> []" and "te_pool env = list_proxy_ops" and "te_http env = logging_http f" and "silent env"
  shows "(\<exists>log. snd (aio_run fr env rs (Some s, w)) = w @ log \<and> length log = length rs \<and> set log \<subseteq> Some ` px_url ` set (lp_proxies s)) \<and>
    (\<exists>log. snd (snd (httpx_run fr env rs ([], Some s, w))) = w @ log \<and> length log = length rs \<and> set log \<subseteq> Some ` to_httpx ` set (lp_proxies s))"
  using list_pool.aio_run_logged [OF assms(2-4,1)] list_pool.httpx_run_logged [OF assms(2-4,1)] by (simp add: clients_ok_def)

definition demo_log_transport :: "(list_proxy, string option list) transport_env" where
  "demo_log_transport = \<lparr>te_base_url = ''https://claude.ai'', te_follow_redirects = True, te_pool = list_proxy_ops, te_on_proxy_failure = None,
     te_publish = None, te_http = logging_http (\<lambda>m u k w. ClientError ''refused''), te_lines = (\<lambda>s. [s])\<rparr>"

theorem proxied_traffic_witness:
  "\<exists>log. snd (aio_run (\<lambda>x. []) demo_log_transport [(False, demo_get), (True, demo_get)] (Some demo_proxies, [])) = log \<and> length log = 2 \<and>
     set log \<subseteq> {Some ''http://a'', Some ''http://b''}"
proof -
  have "lp_proxies demo_proxies \<noteq> []" "te_pool demo_log_transport = list_proxy_ops"
    "te_http demo_log_transport = logging_http (\<lambda>m u k w. ClientError ''refused'')" "silent demo_log_transport"
    by (simp_all add: demo_proxies_def demo_log_transport_def silent_def)
  from proxied_traffic [OF this, where rs = "[(False, demo_get), (True, demo_get)]" and w = "[]" and fr = "\<lambda>x. []"]
  show ?thesis by (simp add: demo_proxies_def demo_proxy_def)
qed

text \<open>
  The httpx transport files its clients under the bare URL: of two proxies of one URL, the second is used with the credentials of the first.
\<close>

lemma httpx_shares_credentials:
  assumes "px_url p = px_url q"
  shows "fst (httpx_client_for (Some q) (snd (httpx_client_for (Some p) []))) = Some (to_httpx p)"
  using assms by (simp add: httpx_client_for_def Let_def dict_simps)

end
