(* ===== verification/Pagination.thy ===== *)
theory Pagination
  imports Errors "HOL-Library.Monad_Syntax"
begin

section \<open>Keyset pagination of the gateway\<close>

text \<open>
  \<^verbatim>\<open>gateway/shared/schemas/pagination.py\<close> and the \<^verbatim>\<open>_paginate\<close> helper and cursor scan of
  \<^verbatim>\<open>gateway/features/auth/store/memory.py\<close>: aware UTC timestamps with their ISO text, the
  urlsafe base64 of the standard library, cursors, one page of a table, and the loop that asks for
  page after page. The main results are that a cursor decodes to the row it was made from and that
  the scan terminates, yields the rows in strictly descending key order and misses no row that is
  there throughout, whatever is inserted or removed between two pages.
\<close>

subsection \<open>Timestamps\<close>

text \<open>
  Every stored timestamp is \<open>datetime.now(UTC)\<close>; only such values are constructed.
\<close>

datatype datetime = DT (dt_year: nat) (dt_month: nat) (dt_day: nat) (dt_hour: nat) (dt_minute: nat) (dt_second: nat) (dt_micro: nat)

definition dt_key :: "datetime \<Rightarrow> nat \<times> nat \<times> nat \<times> nat \<times> nat \<times> nat \<times> nat" where
  "dt_key t = (dt_year t, dt_month t, dt_day t, dt_hour t, dt_minute t, dt_second t, dt_micro t)"

lemma dt_key_inj: "dt_key s = dt_key t \<longleftrightarrow> s = t"
  by (cases s; cases t) (simp add: dt_key_def)

instantiation datetime :: linorder
begin

definition less_eq_datetime :: "datetime \<Rightarrow> datetime \<Rightarrow> bool" where
  "less_eq_datetime s t \<longleftrightarrow> dt_key s \<le> dt_key t"

definition less_datetime :: "datetime \<Rightarrow> datetime \<Rightarrow> bool" where
  "less_datetime s t \<longleftrightarrow> dt_key s < dt_key t"

instance
  by standard (auto simp: less_eq_datetime_def less_datetime_def dt_key_inj less_le_not_le)

end

definition days_in_month :: "nat \<Rightarrow> nat \<Rightarrow> nat" where
  "days_in_month y m =
     (if m = 2 then (if 4 dvd y \<and> (\<not> 100 dvd y \<or> 400 dvd y) then 29 else 28)
      else if m = 4 \<or> m = 6 \<or> m = 9 \<or> m = 11 then 30 else 31)"

definition dt_ok :: "datetime \<Rightarrow> bool" where
  "dt_ok t \<longleftrightarrow> 1 \<le> dt_year t \<and> dt_year t \<le> 9999 \<and> 1 \<le> dt_month t \<and> dt_month t \<le> 12 \<and> 1 \<le> dt_day t \<and>
     dt_day t \<le> days_in_month (dt_year t) (dt_month t) \<and> dt_hour t < 24 \<and> dt_minute t < 60 \<and> dt_second t < 60 \<and>
     dt_micro t < 1000000"

fun pad_digits :: "nat \<Rightarrow> nat \<Rightarrow> string" where
  \<comment> \<open>the last \<open>n\<close> decimal digits, as the format \<open>%0nd\<close> prints them\<close>
  "pad_digits 0 k = []"
| "pad_digits (Suc n) k = pad_digits n (k div 10) @ [char_of (48 + k mod 10)]"

definition isoformat :: "datetime \<Rightarrow> string" where
  \<comment> \<open>\<open>datetime.isoformat()\<close> of an aware UTC value: the microseconds only when they are not zero\<close>
  "isoformat t =
     pad_digits 4 (dt_year t) @ ''-'' @ pad_digits 2 (dt_month t) @ ''-'' @ pad_digits 2 (dt_day t) @ ''T'' @
     pad_digits 2 (dt_hour t) @ '':'' @ pad_digits 2 (dt_minute t) @ '':'' @ pad_digits 2 (dt_second t) @
     (if dt_micro t = 0 then [] else ''.'' @ pad_digits 6 (dt_micro t)) @ ''+00:00''"

definition scan_nat :: "nat \<Rightarrow> string \<Rightarrow> (nat \<times> string) option" where
  "scan_nat n s = (if n \<le> length s \<and> list_all is_digit (take n s) then Some (decimal_val (take n s), drop n s) else None)"

definition scan_lit :: "string \<Rightarrow> string \<Rightarrow> string option" where
  "scan_lit p s = (if startswith s p then Some (drop (length p) s) else None)"

definition scan_micro :: "string \<Rightarrow> (nat \<times> string) option" where
  "scan_micro s = (case scan_lit ''.'' s of None \<Rightarrow> Some (0, s) | Some r \<Rightarrow> scan_nat 6 r)"

definition parse_utc :: "string \<Rightarrow> datetime option" where
  \<comment> \<open>\<open>datetime.fromisoformat\<close> on the texts of the form \<open>isoformat\<close> prints\<close>
  "parse_utc s = do {
     (y, s) \<leftarrow> scan_nat 4 s; s \<leftarrow> scan_lit ''-'' s;
     (m, s) \<leftarrow> scan_nat 2 s; s \<leftarrow> scan_lit ''-'' s;
     (d, s) \<leftarrow> scan_nat 2 s; s \<leftarrow> scan_lit ''T'' s;
     (h, s) \<leftarrow> scan_nat 2 s; s \<leftarrow> scan_lit '':'' s;
     (n, s) \<leftarrow> scan_nat 2 s; s \<leftarrow> scan_lit '':'' s;
     (e, s) \<leftarrow> scan_nat 2 s; (u, s) \<leftarrow> scan_micro s;
     s \<leftarrow> scan_lit ''+00:00'' s;
     (if s = [] \<and> dt_ok (DT y m d h n e u) then Some (DT y m d h n e u) else None) }"

datatype iso_time = Aware datetime | Naive

type_synonym iso_parser = "string \<Rightarrow> iso_time option"

definition fromisoformat :: "iso_parser \<Rightarrow> string \<Rightarrow> py_error + iso_time" where
  \<comment> \<open>texts of another form, which only a client that makes up a cursor can send, are left to
     \<open>other\<close>: \<open>None\<close> is the \<open>ValueError\<close>, \<open>Naive\<close> a time without an offset\<close>
  "fromisoformat other s =
     (case parse_utc s of
        Some t \<Rightarrow> Inr (Aware t)
      | None \<Rightarrow> (case other s of None \<Rightarrow> Inl (ValueError ''Invalid isoformat string'') | Some t \<Rightarrow> Inr t))"

lemma pad_digits_length [simp]: "length (pad_digits n k) = n"
  by (induction n k rule: pad_digits.induct) auto

lemma is_digit_char: "(d :: nat) < 10 \<Longrightarrow> is_digit (char_of (48 + d))"
  by (simp add: is_digit_def of_char_of)

lemma pad_digits_digits: "list_all is_digit (pad_digits n k)"
  by (induction n k rule: pad_digits.induct) (auto simp: is_digit_char)

lemma decimal_val_snoc: "decimal_val (s @ [c]) = 10 * decimal_val s + digit_val c"
  by (simp add: decimal_val_def)

lemma pad_digits_val: "decimal_val (pad_digits n k) = k mod 10 ^ n"
proof (induction n k rule: pad_digits.induct)
  case (1 k)
  then show ?case by (simp add: decimal_val_def)
next
  case (2 n k)
  have "10 * (k div 10 mod 10 ^ n) + k mod 10 = k mod (10 * 10 ^ n)"
    by (simp add: mod_mult2_eq)
  then show ?case
    using 2 by (simp only: pad_digits.simps decimal_val_snoc) (simp add: digit_char)
qed

lemma scan_nat_pad [simp]: "k < 10 ^ n \<Longrightarrow> scan_nat n (pad_digits n k @ r) = Some (k, r)"
  by (simp add: scan_nat_def pad_digits_digits pad_digits_val)

lemma startswith_self [simp]: "startswith (p @ r) p"
  by (induction p) auto

lemma scan_lit_self [simp]: "scan_lit p (p @ r) = Some r"
  by (simp add: scan_lit_def)

lemma scan_lit_chars [simp]:
  "scan_lit ''-'' (CHR ''-'' # r) = Some r" "scan_lit ''T'' (CHR ''T'' # r) = Some r" "scan_lit '':'' (CHR '':'' # r) = Some r"
  "scan_lit ''.'' (CHR ''.'' # r) = Some r" "scan_lit ''.'' (CHR ''+'' # r) = None" "scan_lit ''+00:00'' ''+00:00'' = Some []"
  by (simp_all add: scan_lit_def)

lemma parse_utc_isoformat:
  assumes "dt_ok t"
  shows "parse_utc (isoformat t) = Some t"
proof -
  have dim: "days_in_month y m \<le> 31" for y m by (simp add: days_in_month_def)
  have b: "dt_year t < 10000" "dt_month t < 100" "dt_day t < 100" "dt_hour t < 100" "dt_minute t < 100"
    "dt_second t < 100" "dt_micro t < 1000000"
    using assms dim [of "dt_year t" "dt_month t"] by (auto simp: dt_ok_def)
  show ?thesis
    using assms b
    by (cases t; cases "dt_micro t = 0") (simp_all add: parse_utc_def isoformat_def scan_micro_def)
qed

lemma pad_digits_plain: "c \<in> set (pad_digits n k) \<Longrightarrow> is_digit c"
  using pad_digits_digits [of n k] by (simp add: list_all_iff)

lemma isoformat_no_bar: "CHR ''|'' \<notin> set (isoformat t)"
proof -
  have "CHR ''|'' \<notin> set (pad_digits n k)" for n k
    using pad_digits_plain [of "CHR ''|''" n k] by (auto simp: is_digit_def)
  then show ?thesis by (simp add: isoformat_def)
qed

subsection \<open>Base64 and UTF-8\<close>

definition utf8_char :: "char \<Rightarrow> nat list" where
  "utf8_char c = (if (of_char c :: nat) < 128 then [of_char c] else [192 + of_char c div 64, 128 + of_char c mod 64])"

definition utf8_encode :: "string \<Rightarrow> nat list" where
  "utf8_encode s = concat (map utf8_char s)"

fun utf8_decode :: "nat list \<Rightarrow> string option" where
  \<comment> \<open>\<open>bytes.decode()\<close>; a sequence for a code point above 255 has no string in the model and is
     counted among the undecodable ones\<close>
  "utf8_decode [] = Some []"
| "utf8_decode (b # bs) =
     (if b < 128 then map_option (\<lambda>s. char_of b # s) (utf8_decode bs)
      else (case bs of
              c # cs \<Rightarrow> if (b = 194 \<or> b = 195) \<and> 128 \<le> c \<and> c < 192
                        then map_option (\<lambda>s. char_of (64 * (b - 192) + (c - 128)) # s) (utf8_decode cs) else None
            | [] \<Rightarrow> None))"

definition b64_alphabet :: string where
  "b64_alphabet = ''ABCDEFGHIJKLMNOPQRSTUVWXYZabcdefghijklmnopqrstuvwxyz0123456789-_''"

fun b64_encode :: "nat list \<Rightarrow> string" where
  \<comment> \<open>\<open>base64.urlsafe_b64encode\<close>\<close>
  "b64_encode [] = []"
| "b64_encode [a] = [b64_alphabet ! (a div 4), b64_alphabet ! (16 * (a mod 4)), CHR ''='', CHR ''='']"
| "b64_encode [a, b] =
     [b64_alphabet ! (a div 4), b64_alphabet ! (16 * (a mod 4) + b div 16), b64_alphabet ! (4 * (b mod 16)), CHR ''='']"
| "b64_encode (a # b # c # r) =
     b64_alphabet ! (a div 4) # b64_alphabet ! (16 * (a mod 4) + b div 16) #
     b64_alphabet ! (4 * (b mod 16) + c div 64) # b64_alphabet ! (c mod 64) # b64_encode r"

definition std_b64 :: "char \<Rightarrow> char" where
  \<comment> \<open>from the URL-safe alphabet to the standard one\<close>
  "std_b64 c = (if c = CHR ''-'' then CHR ''+'' else if c = CHR ''_'' then CHR ''/'' else c)"

definition b64_val :: "char \<Rightarrow> nat option" where
  \<comment> \<open>both alphabets: \<open>urlsafe_b64decode\<close> translates \<open>-_\<close> to \<open>+/\<close> first\<close>
  "b64_val ch =
     (let n = of_char ch in
      if 65 \<le> n \<and> n \<le> 90 then Some (n - 65)
      else if 97 \<le> n \<and> n \<le> 122 then Some (n - 71)
      else if 48 \<le> n \<and> n \<le> 57 then Some (n + 4)
      else if n = 45 \<or> n = 43 then Some 62
      else if n = 95 \<or> n = 47 then Some 63 else None)"

fun b64_loop :: "nat \<Rightarrow> nat \<Rightarrow> nat \<Rightarrow> string \<Rightarrow> nat list option" where
  \<comment> \<open>\<open>binascii.a2b_base64\<close> in its lenient mode: the position in the quad, the bits left over and
     the pads seen; foreign characters are skipped, a complete pad ends the input\<close>
  "b64_loop q left pads [] = (if q = 0 then Some [] else None)"
| "b64_loop q left pads (ch # cs) =
     (if ch = CHR ''='' then
        (if 2 \<le> q then (if 4 \<le> q + pads + 1 then Some [] else b64_loop q left (pads + 1) cs)
         else b64_loop q left pads cs)
      else (case b64_val ch of
              None \<Rightarrow> b64_loop q left pads cs
            | Some v \<Rightarrow>
                (if q = 0 then b64_loop 1 v 0 cs
                 else if q = 1 then map_option (Cons (4 * left + v div 16)) (b64_loop 2 (v mod 16) 0 cs)
                 else if q = 2 then map_option (Cons (16 * left + v div 4)) (b64_loop 3 (v mod 4) 0 cs)
                 else map_option (Cons (64 * left + v)) (b64_loop 0 0 0 cs))))"

definition b64_decode :: "string \<Rightarrow> nat list option" where
  "b64_decode s = b64_loop 0 0 0 s"

lemma b64_table: "list_all (\<lambda>n. b64_alphabet ! n \<noteq> CHR ''='' \<and> b64_val (b64_alphabet ! n) = Some n) [0..<64]"
  by code_simp

lemma b64_char [simp]: "n < 64 \<Longrightarrow> b64_alphabet ! n \<noteq> CHR ''='' \<and> b64_val (b64_alphabet ! n) = Some n"
  using b64_table by (auto simp: list_all_iff)

lemma b64_loop_char:
  "n < 64 \<Longrightarrow> b64_loop q left pads (b64_alphabet ! n # cs) =
     (if q = 0 then b64_loop 1 n 0 cs
      else if q = 1 then map_option (Cons (4 * left + n div 16)) (b64_loop 2 (n mod 16) 0 cs)
      else if q = 2 then map_option (Cons (16 * left + n div 4)) (b64_loop 3 (n mod 4) 0 cs)
      else map_option (Cons (64 * left + n)) (b64_loop 0 0 0 cs))"
  by (simp del: b64_loop.simps add: b64_loop.simps(2))

lemma b64_roundtrip: "\<forall>b \<in> set bs. b < 256 \<Longrightarrow> b64_loop 0 left pads (b64_encode bs) = Some bs"
proof (induction bs arbitrary: left pads rule: b64_encode.induct)
  case 1
  then show ?case by simp
next
  case (2 a)
  then have "a div 4 < 64" "16 * (a mod 4) < 64" by auto
  moreover have "4 * (a div 4) + 16 * (a mod 4) div 16 = a" by simp
  ultimately show ?case by (simp add: b64_loop_char)
next
  case (3 a b)
  then have lt: "a div 4 < 64" "16 * (a mod 4) + b div 16 < 64" "4 * (b mod 16) < 64" by auto
  have b16: "b div 16 < 16" using 3 by auto
  have "4 * (a div 4) + (16 * (a mod 4) + b div 16) div 16 = a" "(16 * (a mod 4) + b div 16) mod 16 = b div 16"
    "16 * (b div 16) + 4 * (b mod 16) div 4 = b"
    using b16 by (simp_all add: div_mult_self4)
  then show ?case using lt by (simp add: b64_loop_char)
next
  case (4 a b c r)
  then have lt: "a div 4 < 64" "16 * (a mod 4) + b div 16 < 64" "4 * (b mod 16) + c div 64 < 64" "c mod 64 < 64" by auto
  have b16: "b div 16 < 16" "c div 64 < 4" using 4 by auto
  have "4 * (a div 4) + (16 * (a mod 4) + b div 16) div 16 = a" "(16 * (a mod 4) + b div 16) mod 16 = b div 16"
    "16 * (b div 16) + (4 * (b mod 16) + c div 64) div 4 = b" "(4 * (b mod 16) + c div 64) mod 4 = c div 64"
    using b16 by (simp_all add: div_mult_self4)
  then show ?case using lt 4 by (simp add: b64_loop_char)
qed

lemma utf8_bytes: "b \<in> set (utf8_encode s) \<Longrightarrow> b < 256"
proof -
  have "b < 256" if "b \<in> set (utf8_char c)" for c
  proof -
    have "(of_char c :: nat) div 64 < 4" using nat_of_char_less_256 [of c] by linarith
    with that show ?thesis by (auto simp: utf8_char_def split: if_splits)
  qed
  then show "b \<in> set (utf8_encode s) \<Longrightarrow> b < 256" by (auto simp: utf8_encode_def)
qed

lemma utf8_decode_char: "utf8_decode (utf8_char c @ r) = map_option (Cons c) (utf8_decode r)"
proof (cases "(of_char c :: nat) < 128")
  case True
  then show ?thesis by (simp add: utf8_char_def)
next
  case False
  define n where "n = (of_char c :: nat)"
  have "128 \<le> n" "n < 256" using False by (simp_all add: n_def)
  then have "n div 64 = 2 \<or> n div 64 = 3" by auto
  then have a: "192 + n div 64 = 194 \<or> 192 + n div 64 = 195" by auto
  have b: "64 * (192 + n div 64 - 192) + (128 + n mod 64 - 128) = n" by simp
  have c: "char_of n = c" by (simp add: n_def)
  have "utf8_char c = [192 + n div 64, 128 + n mod 64]" using False by (simp add: utf8_char_def n_def)
  then show ?thesis
    using a b c by (auto simp del: diff_add_inverse)
qed

lemma utf8_roundtrip: "utf8_decode (utf8_encode s) = Some s"
  by (induction s) (simp_all add: utf8_encode_def utf8_decode_char)

subsection \<open>Cursors and pages\<close>

definition MAX_LIMIT :: int where
  "MAX_LIMIT = 200"

record page_params =
  pp_limit :: int
  pp_offset :: int
  pp_cursor :: "string option"

definition clamp_limit :: "int \<Rightarrow> int" where
  "clamp_limit v = max 1 (min v MAX_LIMIT)"

definition non_negative :: "int \<Rightarrow> int" where
  "non_negative v = max 0 v"

definition page_params_init :: "int \<Rightarrow> int \<Rightarrow> string option \<Rightarrow> page_params" where
  "page_params_init limit offset cursor =
     \<lparr>pp_limit = clamp_limit limit, pp_offset = non_negative offset, pp_cursor = cursor\<rparr>"

record 'a page =
  pg_data :: "'a list"
  pg_has_more :: bool
  pg_cursor :: "string option"
  pg_total :: "int option"

definition encode_cursor :: "datetime \<Rightarrow> string \<Rightarrow> string" where
  "encode_cursor created_at ident = b64_encode (utf8_encode (isoformat created_at @ ''|'' @ ident))"

definition decode_cursor :: "string \<Rightarrow> py_error + string \<times> string" where
  "decode_cursor cursor =
     (case Option.bind (b64_decode cursor) utf8_decode of
        None \<Rightarrow> Inl (ValueError ''invalid cursor'')
      | Some raw \<Rightarrow>
          (case partition_char (CHR ''|'') raw of
             (ts, sep, ident) \<Rightarrow> if \<not> sep then Inl (ValueError ''invalid cursor'') else Inr (ts, ident)))"

definition py_slice_to :: "int \<Rightarrow> 'a list \<Rightarrow> 'a list" where
  \<comment> \<open>\<open>xs[:n]\<close>\<close>
  "py_slice_to n xs = (if n < 0 then take (length xs - nat (- n)) xs else take (nat n) xs)"

type_synonym 'a row = "datetime \<times> string \<times> 'a"

definition row_key :: "'a row \<Rightarrow> datetime \<times> string" where
  "row_key r = (fst r, fst (snd r))"

definition sort_rows :: "'a row list \<Rightarrow> 'a row list" where
  \<comment> \<open>\<open>rows.sort(key=..., reverse=True)\<close>, which keeps the order of rows with equal keys\<close>
  "sort_rows rows = rev (sort_key row_key (rev rows))"

definition rows_before :: "iso_time \<Rightarrow> string \<Rightarrow> 'a row list \<Rightarrow> py_error + 'a row list" where
  \<comment> \<open>the filter on the anchor; an aware and a naive time cannot be compared\<close>
  "rows_before t cid rows =
     (case t of
        Aware ts \<Rightarrow> Inr (filter (\<lambda>r. row_key r < (ts, cid)) rows)
      | Naive \<Rightarrow> if rows = [] then Inr [] else Inl (TypeError ''can't compare offset-naive and offset-aware datetimes''))"

definition cut_page :: "'a row list \<Rightarrow> int \<Rightarrow> 'a page" where
  "cut_page rows limit =
     (let has_more = limit < int (length rows);
          page_rows = py_slice_to limit rows
      in \<lparr>pg_data = map (\<lambda>r. snd (snd r)) page_rows, pg_has_more = has_more,
          pg_cursor = (if has_more \<and> page_rows \<noteq> [] then Some (encode_cursor (fst (last page_rows)) (fst (snd (last page_rows)))) else None),
          pg_total = None\<rparr>)"

definition paginate :: "iso_parser \<Rightarrow> 'a row list \<Rightarrow> int \<Rightarrow> string option \<Rightarrow> py_error + 'a page" where
  "paginate other rows limit cursor =
     (let rows = sort_rows rows in
      case cursor of
        Some (c # cs) \<Rightarrow>
          bind_result (decode_cursor (c # cs)) (\<lambda>(ts, cid).
          bind_result (fromisoformat other ts) (\<lambda>t.
          bind_result (rows_before t cid rows) (\<lambda>rows. Inr (cut_page rows limit))))
      | _ \<Rightarrow> Inr (cut_page rows limit))"

fun iterate_pages ::
  "nat \<Rightarrow> (nat \<Rightarrow> string option \<Rightarrow> py_error + 'a page) \<Rightarrow> nat \<Rightarrow> string option \<Rightarrow> ('a list \<times> py_error option) option" where
  \<comment> \<open>the scan loop: \<open>f k\<close> answers the \<open>k\<close>-th request, on the table as it is then; the values
     yielded and the exception that ended the scan, if one did; \<open>None\<close> when the fuel does not suffice\<close>
  "iterate_pages 0 f k cursor = None"
| "iterate_pages (Suc n) f k cursor =
     (case f k cursor of
        Inl e \<Rightarrow> Some ([], Some e)
      | Inr p \<Rightarrow>
          if \<not> pg_has_more p \<or> pg_cursor p = None then Some (pg_data p, None)
          else map_option (\<lambda>(ys, e). (pg_data p @ ys, e)) (iterate_pages n f (Suc k) (pg_cursor p)))"

lemma clamp_limit_range: "1 \<le> clamp_limit v \<and> clamp_limit v \<le> 200"
  by (simp add: clamp_limit_def MAX_LIMIT_def)

lemma decode_encode_cursor: "decode_cursor (encode_cursor t i) = Inr (isoformat t, i)"
proof -
  have "b64_decode (encode_cursor t i) = Some (utf8_encode (isoformat t @ ''|'' @ i))"
    by (simp add: b64_decode_def encode_cursor_def b64_roundtrip utf8_bytes)
  moreover have "partition_char (CHR ''|'') (isoformat t @ ''|'' @ i) = (isoformat t, True, i)"
    by (simp add: partition_char_sep isoformat_no_bar)
  ultimately show ?thesis
    by (simp add: decode_cursor_def utf8_roundtrip)
qed

lemma encode_cursor_not_empty: "\<exists>c cs. encode_cursor t i = c # cs"
proof -
  have "utf8_encode (isoformat t @ ''|'' @ i) \<noteq> []"
    by (auto simp: utf8_encode_def utf8_char_def)
  then obtain b bs where "utf8_encode (isoformat t @ ''|'' @ i) = b # bs" by (meson list.exhaust)
  moreover have "b64_encode (b # bs) \<noteq> []"
    by (cases "(b # bs)" rule: b64_encode.cases) auto
  ultimately show ?thesis by (metis encode_cursor_def list.exhaust)
qed

text \<open>The keyset that a cursor selects: everything for no cursor, else the rows below its row.\<close>

definition below :: "(datetime \<times> string) option \<Rightarrow> 'a row list \<Rightarrow> 'a row list" where
  "below a rows = (case a of None \<Rightarrow> rows | Some k \<Rightarrow> filter (\<lambda>r. row_key r < k) rows)"

definition cursor_of :: "(datetime \<times> string) option \<Rightarrow> string option" where
  "cursor_of a = map_option (\<lambda>(t, i). encode_cursor t i) a"

lemma paginate_cursor_of:
  assumes "\<forall>t i. a = Some (t, i) \<longrightarrow> dt_ok t"
  shows "paginate other rows limit (cursor_of a) = Inr (cut_page (below a (sort_rows rows)) limit)"
proof (cases a)
  case None
  then show ?thesis by (simp add: paginate_def cursor_of_def below_def)
next
  case (Some k)
  obtain t i where k: "k = (t, i)" by (cases k)
  obtain c cs where c: "encode_cursor t i = c # cs" using encode_cursor_not_empty by blast
  have "decode_cursor (c # cs) = Inr (isoformat t, i)" using decode_encode_cursor [of t i] by (simp add: c)
  moreover have "fromisoformat other (isoformat t) = Inr (Aware t)"
    using assms Some k by (simp add: fromisoformat_def parse_utc_isoformat)
  ultimately show ?thesis
    using Some k c by (simp add: paginate_def cursor_of_def below_def rows_before_def)
qed

abbreviation descending :: "'a row list \<Rightarrow> bool" where
  "descending rows \<equiv> sorted_wrt (\<lambda>r s. row_key s < row_key r) rows"

lemma sort_rows_set [simp]: "set (sort_rows rows) = set rows"
  by (simp add: sort_rows_def)

lemma sort_rows_descending: "distinct (map row_key rows) \<Longrightarrow> descending (sort_rows rows)"
proof -
  assume d: "distinct (map row_key rows)"
  have "sorted (map row_key (sort_key row_key (rev rows)))" by simp
  moreover have "distinct (map row_key (sort_key row_key (rev rows)))"
    using d by (simp add: distinct_map)
  ultimately have "sorted_wrt (<) (map row_key (sort_key row_key (rev rows)))"
    by (simp add: strict_sorted_iff)
  then show ?thesis by (simp add: sort_rows_def sorted_wrt_rev sorted_wrt_map)
qed

lemma descending_below: "descending rows \<Longrightarrow> descending (below a rows)"
  by (simp add: below_def sorted_wrt_filter split: option.split)

lemma cut_page_more:
  assumes "descending rows" and "1 \<le> limit" and "pg_has_more (cut_page rows limit)"
  obtains r where "r \<in> set rows" and "pg_data (cut_page rows limit) = map (\<lambda>r. snd (snd r)) (take (nat limit) rows)"
    and "pg_cursor (cut_page rows limit) = cursor_of (Some (row_key r))"
    and "\<forall>s \<in> set (take (nat limit) rows). row_key r \<le> row_key s" and "r \<in> set (take (nat limit) rows)"
    and "\<forall>s \<in> set rows. row_key s < row_key r \<longrightarrow> s \<in> set (drop (nat limit) rows)"
    and "\<forall>s \<in> set (drop (nat limit) rows). row_key s < row_key r"
proof -
  let ?t = "take (nat limit) rows" and ?d = "drop (nat limit) rows"
  have len: "limit < int (length rows)" using assms(3) by (simp add: cut_page_def Let_def)
  then have ne: "?t \<noteq> []" using assms(2) by auto
  define r where "r = last ?t"
  obtain u where u: "?t = u @ [r]" using ne by (metis append_butlast_last_id r_def)
  have td: "sorted_wrt (\<lambda>r s. row_key s < row_key r) (?t @ ?d)" using assms(1) by simp
  have rt: "r \<in> set ?t" using u by simp
  have le: "\<forall>s \<in> set ?t. row_key r \<le> row_key s"
    using td u by (auto simp: sorted_wrt_append less_imp_le)
  have dr: "\<forall>s \<in> set ?d. row_key s < row_key r"
    using td [unfolded sorted_wrt_append] rt by blast
  have all: "set rows = set ?t \<union> set ?d" by (metis append_take_drop_id set_append)
  show ?thesis
  proof (rule that [of r])
    show "r \<in> set rows" using rt all by blast
    show "pg_data (cut_page rows limit) = map (\<lambda>r. snd (snd r)) ?t"
      using assms(2) by (simp add: cut_page_def Let_def py_slice_to_def)
    show "pg_cursor (cut_page rows limit) = cursor_of (Some (row_key r))"
      using assms(2) len ne by (simp add: cut_page_def Let_def py_slice_to_def cursor_of_def row_key_def r_def)
    show "\<forall>s \<in> set rows. row_key s < row_key r \<longrightarrow> s \<in> set ?d"
      using le all by force
  qed (use le rt dr in auto)
qed

lemma cut_page_end: "1 \<le> limit \<Longrightarrow> \<not> pg_has_more (cut_page rows limit) \<Longrightarrow> pg_data (cut_page rows limit) = map (\<lambda>r. snd (snd r)) rows"
  by (simp add: cut_page_def Let_def py_slice_to_def)

definition rows_of :: "('a \<Rightarrow> datetime \<times> string) \<Rightarrow> 'a list \<Rightarrow> 'a row list" where
  "rows_of ky xs = map (\<lambda>x. (fst (ky x), snd (ky x), x)) xs"

definition table_ok :: "('a \<Rightarrow> datetime \<times> string) \<Rightarrow> 'a list \<Rightarrow> bool" where
  "table_ok ky xs \<longleftrightarrow> distinct (map ky xs) \<and> (\<forall>x \<in> set xs. dt_ok (fst (ky x)))"

lemma rows_of_key: "r \<in> set (rows_of ky xs) \<Longrightarrow> row_key r = ky (snd (snd r)) \<and> snd (snd r) \<in> set xs"
  by (auto simp: rows_of_def row_key_def)

lemma rows_of_distinct: "table_ok ky xs \<Longrightarrow> distinct (map row_key (rows_of ky xs))"
  by (simp add: table_ok_def rows_of_def row_key_def comp_def)

lemma below_mem: "r \<in> set (below a rows) \<longleftrightarrow> r \<in> set rows \<and> (\<forall>k. a = Some k \<longrightarrow> row_key r < k)"
  by (auto simp: below_def split: option.split)

lemma map_snd_descending:
  assumes "descending rows" and "\<forall>r \<in> set rows. row_key r = ky (snd (snd r))"
  shows "sorted_wrt (\<lambda>x y. ky y < ky x) (map (\<lambda>r. snd (snd r)) rows)"
  using assms(1) assms(2) [rule_format] by (auto simp: sorted_wrt_map intro: sorted_wrt_mono_rel [rotated])

definition scan_post ::
  "('a \<Rightarrow> datetime \<times> string) \<Rightarrow> (nat \<Rightarrow> 'a list) \<Rightarrow> nat \<Rightarrow> (datetime \<times> string) option \<Rightarrow> 'a list \<Rightarrow> bool" where
  \<comment> \<open>what a scan from the anchor \<open>a\<close> on promises of the values it yields\<close>
  "scan_post ky S k a ys \<longleftrightarrow>
     sorted_wrt (\<lambda>x y. ky y < ky x) ys \<and>
     (\<forall>y \<in> set ys. (\<exists>j \<ge> k. y \<in> set (S j)) \<and> (\<forall>b. a = Some b \<longrightarrow> ky y < b)) \<and>
     (\<forall>x. (\<forall>j \<ge> k. x \<in> set (S j)) \<and> (\<forall>b. a = Some b \<longrightarrow> ky x < b) \<longrightarrow> x \<in> set ys)"

lemma scan_page:
  \<comment> \<open>one request: either the rest of the table, or a first part with a cursor for what is below it\<close>
  assumes "table_ok ky xs" and "1 \<le> limit" and "\<forall>t i. a = Some (t, i) \<longrightarrow> dt_ok t"
    and p: "paginate other (rows_of ky xs) limit (cursor_of a) = Inr p"
  shows "sorted_wrt (\<lambda>x y. ky y < ky x) (pg_data p) \<and>
     (\<forall>y \<in> set (pg_data p). y \<in> set xs \<and> (\<forall>b. a = Some b \<longrightarrow> ky y < b)) \<and>
     (if pg_has_more p
      then \<exists>r \<in> set xs. pg_cursor p = cursor_of (Some (ky r)) \<and> dt_ok (fst (ky r)) \<and> r \<in> set (pg_data p) \<and>
             (\<forall>y \<in> set (pg_data p). ky r \<le> ky y) \<and> (\<forall>b. a = Some b \<longrightarrow> ky r < b) \<and>
             (\<forall>x \<in> set xs. (\<forall>b. a = Some b \<longrightarrow> ky x < b) \<longrightarrow> ky x < ky r \<or> x \<in> set (pg_data p))
      else \<forall>x \<in> set xs. (\<forall>b. a = Some b \<longrightarrow> ky x < b) \<longrightarrow> x \<in> set (pg_data p))"
proof -
  let ?R = "below a (sort_rows (rows_of ky xs))"
  have pc: "p = cut_page ?R limit" using p paginate_cursor_of [OF assms(3), of other "rows_of ky xs" limit] by simp
  have desc: "descending ?R" by (intro descending_below sort_rows_descending rows_of_distinct assms(1))
  have key: "\<forall>r \<in> set ?R. row_key r = ky (snd (snd r)) \<and> snd (snd r) \<in> set xs \<and> (\<forall>b. a = Some b \<longrightarrow> ky (snd (snd r)) < b)"
  proof
    fix r assume r: "r \<in> set ?R"
    then have "r \<in> set (rows_of ky xs)" "\<forall>b. a = Some b \<longrightarrow> row_key r < b" unfolding below_mem sort_rows_set by blast+
    then show "row_key r = ky (snd (snd r)) \<and> snd (snd r) \<in> set xs \<and> (\<forall>b. a = Some b \<longrightarrow> ky (snd (snd r)) < b)"
      using rows_of_key by metis
  qed
  have mem: "(fst (ky x), snd (ky x), x) \<in> set ?R" if "x \<in> set xs" "\<forall>b. a = Some b \<longrightarrow> ky x < b" for x
    using that by (auto simp: below_mem rows_of_def row_key_def)
  have sub: "sorted_wrt (\<lambda>x y. ky y < ky x) (map (\<lambda>r. snd (snd r)) Q)" if "descending Q" "set Q \<subseteq> set ?R" for Q
    using map_snd_descending [OF that(1), of ky] key that(2) by blast
  show ?thesis
  proof (cases "pg_has_more p")
    case True
    obtain r where r: "r \<in> set ?R" "pg_data p = map (\<lambda>r. snd (snd r)) (take (nat limit) ?R)"
      "pg_cursor p = cursor_of (Some (row_key r))" "\<forall>s \<in> set (take (nat limit) ?R). row_key r \<le> row_key s"
      "r \<in> set (take (nat limit) ?R)" "\<forall>s \<in> set (drop (nat limit) ?R). row_key s < row_key r"
      using cut_page_more [OF desc assms(2)] True unfolding pc by metis
    have tk: "set (take (nat limit) ?R) \<subseteq> set ?R" by (rule set_take_subset)
    have rk: "row_key r = ky (snd (snd r))" "snd (snd r) \<in> set xs" using key r(1) by auto
    have split: "q \<in> set (take (nat limit) ?R) \<or> q \<in> set (drop (nat limit) ?R)" if "q \<in> set ?R" for q
      using that by (metis Un_iff append_take_drop_id set_append)
    have "ky x < ky (snd (snd r)) \<or> x \<in> set (pg_data p)" if "x \<in> set xs" "\<forall>b. a = Some b \<longrightarrow> ky x < b" for x
    proof -
      let ?q = "(fst (ky x), snd (ky x), x)"
      have q: "row_key ?q = ky x" by (simp add: row_key_def)
      from split [OF mem [OF that]] show ?thesis
      proof
        assume "?q \<in> set (take (nat limit) ?R)"
        then have "snd (snd ?q) \<in> set (pg_data p)" unfolding r(2) set_map by (rule imageI)
        then show ?thesis by simp
      next
        assume "?q \<in> set (drop (nat limit) ?R)"
        then show ?thesis using r(6) q rk(1) by metis
      qed
    qed
    moreover have "sorted_wrt (\<lambda>x y. ky y < ky x) (pg_data p)"
      unfolding r(2) by (rule sub [OF sorted_wrt_take [OF desc] tk])
    moreover have "\<forall>y \<in> set (pg_data p). y \<in> set xs \<and> (\<forall>b. a = Some b \<longrightarrow> ky y < b)"
      unfolding r(2) set_map using key tk by blast
    moreover have "\<forall>y \<in> set (pg_data p). ky (snd (snd r)) \<le> ky y"
    proof
      fix y assume "y \<in> set (pg_data p)"
      then obtain q where q: "q \<in> set (take (nat limit) ?R)" "y = snd (snd q)" unfolding r(2) set_map by blast
      have "row_key q = ky y" using q tk key by blast
      moreover have "row_key r \<le> row_key q" using r(4) q(1) by blast
      ultimately show "ky (snd (snd r)) \<le> ky y" using rk(1) by argo
    qed
    moreover have "\<forall>b. a = Some b \<longrightarrow> ky (snd (snd r)) < b" using key r(1) by blast
    moreover have "dt_ok (fst (ky (snd (snd r))))" using assms(1) rk(2) by (simp add: table_ok_def)
    moreover have "snd (snd r) \<in> set (pg_data p)" unfolding r(2) set_map using r(5) by (rule imageI)
    moreover have "pg_cursor p = cursor_of (Some (ky (snd (snd r))))" using r(3) rk(1) by simp
    ultimately show ?thesis unfolding if_P [OF True] using rk(2) by blast
  next
    case False
    have d: "pg_data p = map (\<lambda>r. snd (snd r)) ?R"
      using cut_page_end [OF assms(2)] False unfolding pc by blast
    show ?thesis
      unfolding if_not_P [OF False]
    proof (intro conjI)
      show "sorted_wrt (\<lambda>x y. ky y < ky x) (pg_data p)" unfolding d by (rule sub [OF desc order_refl])
      show "\<forall>y \<in> set (pg_data p). y \<in> set xs \<and> (\<forall>b. a = Some b \<longrightarrow> ky y < b)" unfolding d set_map using key by blast
      show "\<forall>x \<in> set xs. (\<forall>b. a = Some b \<longrightarrow> ky x < b) \<longrightarrow> x \<in> set (pg_data p)"
        unfolding d set_map using imageI [OF mem, of _ "\<lambda>r. snd (snd r)"] by (metis snd_conv)
    qed
  qed
qed

lemma scan_stable:
  assumes "\<forall>j. table_ok ky (S j)" and "1 \<le> limit" and "\<forall>t i. a = Some (t, i) \<longrightarrow> dt_ok t"
    and "iterate_pages n (\<lambda>j. paginate other (rows_of ky (S j)) limit) k (cursor_of a) = Some (ys, e)"
  shows "e = None \<and> scan_post ky S k a ys"
  using assms(3,4)
proof (induction n arbitrary: k a ys e)
  case 0
  then show ?case by simp
next
  case (Suc n)
  define p where "p = cut_page (below a (sort_rows (rows_of ky (S k)))) limit"
  have p: "paginate other (rows_of ky (S k)) limit (cursor_of a) = Inr p"
    using paginate_cursor_of [OF Suc.prems(1)] by (simp add: p_def)
  note page = scan_page [OF assms(1) [rule_format, of k] assms(2) Suc.prems(1) p]
  show ?case
  proof (cases "pg_has_more p")
    case False
    then have e: "ys = pg_data p" "e = None" using Suc.prems(2) p by auto
    have "\<forall>x \<in> set (S k). (\<forall>b. a = Some b \<longrightarrow> ky x < b) \<longrightarrow> x \<in> set (pg_data p)" using page False by argo
    then have "scan_post ky S k a (pg_data p)" using page unfolding scan_post_def by blast
    then show ?thesis using e by blast
  next
    case True
    then obtain r where r: "pg_cursor p = cursor_of (Some (ky r))" "dt_ok (fst (ky r))" "r \<in> set (pg_data p)"
      "\<forall>y \<in> set (pg_data p). ky r \<le> ky y" "\<forall>b. a = Some b \<longrightarrow> ky r < b"
      "\<forall>x \<in> set (S k). (\<forall>b. a = Some b \<longrightarrow> ky x < b) \<longrightarrow> ky x < ky r \<or> x \<in> set (pg_data p)"
      using page by auto
    have some: "pg_cursor p \<noteq> None" using r(1) by (simp add: cursor_of_def)
    obtain zs where zs: "iterate_pages n (\<lambda>j. paginate other (rows_of ky (S j)) limit) (Suc k) (cursor_of (Some (ky r))) = Some (zs, e)"
      "ys = pg_data p @ zs"
      using Suc.prems(2) p True some r(1) by auto
    have rok: "\<forall>t i. Some (ky r) = Some (t, i) \<longrightarrow> dt_ok t" using r(2) by (metis fst_conv option.inject)
    have ih: "e = None" "scan_post ky S (Suc k) (Some (ky r)) zs"
      using Suc.IH [OF rok zs(1)] by simp_all
    have "scan_post ky S k a ys"
      unfolding scan_post_def zs(2)
    proof (intro conjI ballI allI impI)
      have "\<forall>y \<in> set zs. ky y < ky r" using ih(2) by (simp add: scan_post_def)
      then show "sorted_wrt (\<lambda>x y. ky y < ky x) (pg_data p @ zs)"
        using page ih(2) r(4) by (fastforce simp: sorted_wrt_append scan_post_def)
    next
      fix y assume "y \<in> set (pg_data p @ zs)"
      moreover have "\<exists>j \<ge> k. z \<in> set (S j)" if "z \<in> set zs" for z
        using ih(2) that unfolding scan_post_def by (meson Suc_leD)
      moreover have "\<exists>j \<ge> k. z \<in> set (S j)" if "z \<in> set (pg_data p)" for z
        using page that by blast
      ultimately show "\<exists>j \<ge> k. y \<in> set (S j)" by auto
    next
      fix y b assume "y \<in> set (pg_data p @ zs)" "a = Some b"
      then show "ky y < b"
        using page ih(2) r(5) by (fastforce simp: scan_post_def)
    next
      fix x assume "(\<forall>j \<ge> k. x \<in> set (S j)) \<and> (\<forall>b. a = Some b \<longrightarrow> ky x < b)"
      then show "x \<in> set (pg_data p @ zs)"
        using r(6) ih(2) by (auto simp: scan_post_def)
    qed
    then show ?thesis using ih(1) by simp
  qed
qed

lemma scan_terminates:
  assumes "table_ok ky xs" and "1 \<le> limit" and "\<forall>t i. a = Some (t, i) \<longrightarrow> dt_ok t"
    and "card {x \<in> set xs. \<forall>b. a = Some b \<longrightarrow> ky x < b} < n"
  shows "\<exists>ys. iterate_pages n (\<lambda>j. paginate other (rows_of ky xs) limit) k (cursor_of a) = Some (ys, None)"
  using assms(3,4)
proof (induction n arbitrary: k a)
  case 0
  then show ?case by simp
next
  case (Suc n)
  define p where "p = cut_page (below a (sort_rows (rows_of ky xs))) limit"
  have p: "paginate other (rows_of ky xs) limit (cursor_of a) = Inr p"
    using paginate_cursor_of [OF Suc.prems(1)] by (simp add: p_def)
  note page = scan_page [OF assms(1,2) Suc.prems(1) p]
  show ?case
  proof (cases "pg_has_more p")
    case False
    then show ?thesis using p by simp
  next
    case True
    then obtain r where r: "pg_cursor p = cursor_of (Some (ky r))" "dt_ok (fst (ky r))" "r \<in> set xs" "\<forall>b. a = Some b \<longrightarrow> ky r < b"
      using page by auto
    let ?A = "\<lambda>a. {x \<in> set xs. \<forall>b. a = Some b \<longrightarrow> ky x < b}"
    have "r \<in> ?A a" "r \<notin> ?A (Some (ky r))" using r(3,4) by auto
    moreover have "?A (Some (ky r)) \<subseteq> ?A a" using r(4) by auto
    ultimately have "?A (Some (ky r)) \<subset> ?A a" by blast
    then have "card (?A (Some (ky r))) < card (?A a)" by (intro psubset_card_mono) auto
    then have "card (?A (Some (ky r))) < n" using Suc.prems(2) by linarith
    then obtain ys where "iterate_pages n (\<lambda>j. paginate other (rows_of ky xs) limit) (Suc k) (cursor_of (Some (ky r))) = Some (ys, None)"
      using Suc.IH [of "Some (ky r)" "Suc k"] r(2) by (metis fst_conv option.inject)
    then show ?thesis using p True r(1) by (auto simp: cursor_of_def)
  qed
qed

end
