(* ===== verification/Login.thy ===== *)
theory Login
  imports Client Pagination Cookies
begin

section \<open>The magic-link login\<close>

text \<open>
  \<^verbatim>\<open>claude_ai/login\<close>: reading a link, a bare nonce or a numeric code, and the flow that turns it into a verified session. The functions
  \<^verbatim>\<open>urlsplit\<close> and \<^verbatim>\<open>parse_qs\<close> of the standard library are modelled on the Latin-1 strings of the prelude; the
  validity of an address in brackets, which the standard library asks of \<^verbatim>\<open>ipaddress\<close>, is the argument \<open>ipv6\<close>. The client is the facade of the theory
  \<open>Client\<close> with its session; the cookies of that session are read from the world.
\<close>

subsection \<open>Splitting a URL\<close>

definition is_alpha :: "char \<Rightarrow> bool" where
  "is_alpha c \<longleftrightarrow> (let n = (of_char c :: nat) in (65 \<le> n \<and> n \<le> 90) \<or> (97 \<le> n \<and> n \<le> 122))"

definition scheme_char :: "char \<Rightarrow> bool" where
  "scheme_char c \<longleftrightarrow> is_alpha c \<or> is_digit c \<or> c \<in> set ''+-.''"

definition drop_scheme :: "string \<Rightarrow> string" where
  "drop_scheme url =
     (case partition_char (CHR '':'') url of
        (scheme, found, rest) \<Rightarrow>
          if found \<and> scheme \<noteq> [] \<and> is_alpha (hd scheme) \<and> list_all scheme_char scheme then rest else url)"

definition split_netloc :: "string \<Rightarrow> string \<times> string" where
  "split_netloc url =
     (if startswith url ''//''
      then (let delim = (\<lambda>c. c \<in> set ''/?#'') in (takeWhile (\<lambda>c. \<not> delim c) (drop 2 url), dropWhile (\<lambda>c. \<not> delim c) (drop 2 url)))
      else ([], url))"

record split_result =
  us_path :: string
  us_query :: string
  us_fragment :: string

definition urlsplit :: "(string \<Rightarrow> exn option) \<Rightarrow> string \<Rightarrow> exn + split_result" where
  "urlsplit ipv6 url =
     (let url = filter (\<lambda>c. c \<notin> {CHR 0x09, CHR 0x0D, CHR 0x0A}) (dropWhile (\<lambda>c. (of_char c :: nat) \<le> 32) url);
          (netloc, url) = split_netloc (drop_scheme url)
      in if (CHR ''['' \<in> set netloc) \<noteq> (CHR '']'' \<in> set netloc) then Inl (Py (ValueError ''Invalid IPv6 URL''))
         else (case (if CHR ''['' \<in> set netloc then ipv6 netloc else None) of
                 Some e \<Rightarrow> Inl e
               | None \<Rightarrow>
                   (let (url, _, fragment) = partition_char (CHR ''#'') url; (path, _, query) = partition_char (CHR ''?'') url
                    in Inr \<lparr>us_path = path, us_query = query, us_fragment = fragment\<rparr>)))"

definition plus_to_space :: "string \<Rightarrow> string" where
  "plus_to_space s = map (\<lambda>c. if c = CHR ''+'' then CHR '' '' else c) s"

definition parse_qs :: "string \<Rightarrow> (string \<times> string) list" where
  \<comment> \<open>\<open>parse_qsl\<close>; \<open>parse_qs\<close> collects the values of a name in this order\<close>
  "parse_qs qs =
     concat (map (\<lambda>nv. case partition_char (CHR ''='') nv of
         (name, found, v) \<Rightarrow> if found \<and> v \<noteq> [] then [(unquote (plus_to_space name), unquote (plus_to_space v))] else [])
       (split_char (CHR ''&'') qs))"

subsection \<open>Links\<close>

definition NONCE_QUERY_KEYS :: "string list" where
  "NONCE_QUERY_KEYS = [''nonce'', ''code'', ''token'']"

definition EMAIL_QUERY_KEYS :: "string list" where
  "EMAIL_QUERY_KEYS = [''encoded_email_address'', ''email'', ''e'']"

definition IGNORE_SEGMENTS :: "string list" where
  "IGNORE_SEGMENTS = [[], ''magic-link'', ''magic_link'', ''verify'', ''verify_magic_link'', ''login'', ''auth'']"

definition encode_email :: "string \<Rightarrow> string" where
  \<comment> \<open>\<open>b64encode\<close>, with the standard alphabet\<close>
  "encode_email email = map std_b64 (b64_encode (utf8_encode (strip email)))"

definition looks_like_encoded_email :: "string \<Rightarrow> bool" where
  \<comment> \<open>\<open>b64decode\<close> skips what is not in the standard alphabet and refuses other than ASCII text\<close>
  "looks_like_encoded_email segment \<longleftrightarrow>
     list_all is_ascii segment \<and>
     (let padded = segment @ replicate ((4 - length segment mod 4) mod 4) (CHR ''='')
      in case b64_decode (filter (\<lambda>c. c \<noteq> CHR ''-'' \<and> c \<noteq> CHR ''_'') padded) of
           None \<Rightarrow> False
         | Some bytes \<Rightarrow> utf8_valid bytes \<and> 64 \<in> set bytes)"

record parsed_link =
  pl_nonce :: "string option"
  pl_code :: "string option"
  pl_encoded_email :: "string option"

definition is_code :: "parsed_link \<Rightarrow> bool" where
  "is_code p \<longleftrightarrow> pl_code p \<noteq> None \<and> pl_nonce p = None"

definition isdigit_str :: "string \<Rightarrow> bool" where
  "isdigit_str s \<longleftrightarrow> s \<noteq> [] \<and> list_all isdigit_char s"

fun pick_param :: "string list \<Rightarrow> (string \<times> string) list \<Rightarrow> (string \<times> string) list \<Rightarrow> string option" where
  \<comment> \<open>the inner function \<open>pick\<close>\<close>
  "pick_param [] q f = None"
| "pick_param (key # keys) q f =
     (case map_of q key of
        Some v \<Rightarrow> Some v
      | None \<Rightarrow> (case map_of f key of Some v \<Rightarrow> Some v | None \<Rightarrow> pick_param keys q f))"

fun take_segments :: "string list \<Rightarrow> string option \<times> string option \<Rightarrow> string option \<times> string option" where
  \<comment> \<open>the loop over the segments, on \<open>(nonce, encoded_email)\<close>\<close>
  "take_segments [] p = p"
| "take_segments (seg # segs) (nonce, email) =
     take_segments segs
       (if email = None \<and> looks_like_encoded_email seg then (nonce, Some seg)
        else if nonce = None then (Some seg, email) else (nonce, email))"

definition link_result :: "string option \<times> string option \<Rightarrow> parsed_link" where
  "link_result p =
     (case p of
        (Some n, email) \<Rightarrow>
          if isdigit_str n then \<lparr>pl_nonce = None, pl_code = Some n, pl_encoded_email = email\<rparr>
          else \<lparr>pl_nonce = Some n, pl_code = None, pl_encoded_email = email\<rparr>
      | (None, email) \<Rightarrow> \<lparr>pl_nonce = None, pl_code = None, pl_encoded_email = email\<rparr>)"

definition link_segments :: "split_result \<Rightarrow> string list" where
  "link_segments parts =
     filter (\<lambda>s. s \<notin> set IGNORE_SEGMENTS) (split_char (CHR ''/'') (us_path parts) @ split_char (CHR ''/'') (us_fragment parts))"

definition parse_magic_link :: "(string \<Rightarrow> exn option) \<Rightarrow> string \<Rightarrow> exn + parsed_link" where
  "parse_magic_link ipv6 v =
     (let raw = strip v in
      if raw = [] then Inl (Py (ValueError ''empty magic link''))
      else if isdigit_str raw then Inr \<lparr>pl_nonce = None, pl_code = Some raw, pl_encoded_email = None\<rparr>
      else if list_all (\<lambda>c. c \<notin> set '':/?#'') raw then
        (if looks_like_encoded_email raw then Inr \<lparr>pl_nonce = None, pl_code = None, pl_encoded_email = Some raw\<rparr>
         else Inr \<lparr>pl_nonce = Some raw, pl_code = None, pl_encoded_email = None\<rparr>)
      else map_ok (\<lambda>parts.
             let q = parse_qs (us_query parts); f = parse_qs (us_fragment parts)
             in link_result (take_segments (link_segments parts)
                  (pick_param NONCE_QUERY_KEYS q f, pick_param EMAIL_QUERY_KEYS q f)))
           (urlsplit ipv6 raw))"

subsection \<open>The flow\<close>

record login_state =
  ls_email :: "string option"
  ls_client :: facade

record login_result =
  lr_email :: string
  lr_cookies :: cookies
  lr_org_uuid :: "string option"
  lr_account :: "json dict option"
  lr_secret :: "string option"

record auth_result =
  ar_success :: bool
  ar_secret :: "string option"
  ar_account :: "json dict option"

definition dict_or_empty :: "json \<Rightarrow> exn + json dict" where
  \<comment> \<open>\<open>(v or {}).get\<close>: a value that is true and no dictionary has no \<open>get\<close>\<close>
  "dict_or_empty v =
     (case v of
        JObj d \<Rightarrow> Inr d
      | _ \<Rightarrow> if truthy v then Inl (Py (AttributeError ''object has no attribute get'')) else Inr [])"

fun org_of_memberships :: "(pyfloat \<Rightarrow> string) \<Rightarrow> json list \<Rightarrow> exn + string option" where
  "org_of_memberships fr [] = Inr None"
| "org_of_memberships fr (m # ms) =
     bind_result (dict_or_empty m) (\<lambda>d. bind_result (dict_or_empty (obj_get d ''organization'')) (\<lambda>organization.
       let uuid = obj_get organization ''uuid''
       in if truthy uuid then Inr (Some (py_str fr uuid)) else org_of_memberships fr ms))"

definition extract_org_uuid :: "(pyfloat \<Rightarrow> string) \<Rightarrow> json dict option \<Rightarrow> exn + string option" where
  "extract_org_uuid fr account =
     (case account of
        Some (x # xs) \<Rightarrow>
          (let ms = obj_get (x # xs) ''memberships''
           in if truthy ms then bind_result (py_iter ms) (org_of_memberships fr) else Inr None)
      | _ \<Rightarrow> Inr None)"

record ('w, 'e) login_env =
  le_session :: "('w, 'e) base_session"
  le_auth :: "pyval \<Rightarrow> auth_result"             \<comment> \<open>the attributes of an \<open>AuthResult\<close>\<close>
  le_cookies :: "'w \<Rightarrow> cookies"                 \<comment> \<open>the cookies of the session\<close>
  le_ipv6 :: "string \<Rightarrow> exn option"
  le_fr :: "pyfloat \<Rightarrow> string"

definition login_call :: "('w, 'e) login_env \<Rightarrow> facade \<Rightarrow> exn + base_method \<Rightarrow> 'w \<Rightarrow> (exn + pyval parsed) \<times> 'w" where
  "login_call env c m w =
     (case m of
        Inl e \<Rightarrow> (Inl e, w)
      | Inr m \<Rightarrow>
          (case client_call (le_session env) c m w of
             (Inl e, w1) \<Rightarrow> (Inl e, w1)
           | (Inr (Value r), w1) \<Rightarrow> (Inr r, w1)
           | (Inr (Stream _), w1) \<Rightarrow> (Inr PNone, w1)))"

definition login_request ::
  "('w, 'e) login_env \<Rightarrow> string \<Rightarrow> string \<Rightarrow> source_app \<Rightarrow> int \<Rightarrow> login_state \<times> 'w \<Rightarrow> (exn + pyval parsed) \<times> login_state \<times> 'w" where
  "login_request env email loc source utc_offset st =
     (let s = (fst st)\<lparr>ls_email := Some email\<rparr>
      in case login_call env (ls_client s) (client_send_magic_link (ls_client s) email loc source utc_offset None None) (snd st) of
           (r, w1) \<Rightarrow> (r, (s, w1)))"

definition login_credentials :: "parsed_link \<Rightarrow> string option \<Rightarrow> exn + credential_method \<times> string option \<times> string option \<times> string" where
  \<comment> \<open>\<open>complete\<close> up to the request: the method, the nonce, the code and the encoded address\<close>
  "login_credentials parsed email =
     (case (if or_default (pl_encoded_email parsed) [] \<noteq> [] then pl_encoded_email parsed
            else if or_default email [] \<noteq> [] then Some (encode_email (or_default email [])) else None) of
        None \<Rightarrow> Inl (OtherException ''LoginError'' ''email is required to verify the magic link - pass email= or call request() first'')
      | Some encoded \<Rightarrow>
          if is_code parsed then Inr (CODE, None, pl_code parsed, encoded)
          else if or_default (pl_nonce parsed) [] \<noteq> [] then Inr (NONCE, pl_nonce parsed, None, encoded)
          else Inl (OtherException ''LoginError'' ''could not extract a nonce or code from the magic link''))"

definition login_finish ::
  "('w, 'e) login_env \<Rightarrow> string \<Rightarrow> pyval parsed \<Rightarrow> login_state \<times> 'w \<Rightarrow> (exn + login_result) \<times> login_state \<times> 'w" where
  \<comment> \<open>\<open>complete\<close> after the request; an answer that is no model has no attributes\<close>
  "login_finish env email r st =
     (case r of
        PModel v \<Rightarrow>
          (let a = le_auth env v in
           if \<not> ar_success a then (Inl (OtherException ''LoginError'' ''magic-link verification was not successful''), st)
           else (case extract_org_uuid (le_fr env) (ar_account a) of
                   Inl e \<Rightarrow> (Inl e, st)
                 | Inr org \<Rightarrow>
                     (Inr \<lparr>lr_email = email, lr_cookies = le_cookies env (snd st), lr_org_uuid = org, lr_account = ar_account a,
                           lr_secret = ar_secret a\<rparr>,
                      (if or_default org [] \<noteq> [] then (fst st)\<lparr>ls_client := client_set_org (or_default org []) (ls_client (fst st))\<rparr> else fst st,
                       snd st))))
      | _ \<Rightarrow> (Inl (Py (AttributeError ''object has no attribute success'')), st))"

definition login_complete ::
  "('w, 'e) login_env \<Rightarrow> string \<Rightarrow> string option \<Rightarrow> string \<Rightarrow> source_app \<Rightarrow> login_state \<times> 'w \<Rightarrow> (exn + login_result) \<times> login_state \<times> 'w" where
  "login_complete env link email loc source st =
     (let c = ls_client (fst st);
          resolved = or_default email (or_default (ls_email (fst st)) [])
      in case bind_result (parse_magic_link (le_ipv6 env) link) (\<lambda>p. login_credentials p (Some resolved)) of
           Inl e \<Rightarrow> (Inl e, st)
         | Inr (cm, nonce, code, encoded) \<Rightarrow>
             (case login_call env c (client_verify_magic_link c nonce (Some encoded) code cm loc source) (snd st) of
                (Inl e, w1) \<Rightarrow> (Inl e, (fst st, w1))
              | (Inr r, w1) \<Rightarrow> login_finish env resolved r (fst st, w1)))"

subsection \<open>Encoded addresses\<close>

lemma std_chars:
  "list_all (\<lambda>c. is_ascii (std_b64 c) \<and> std_b64 c \<notin> set '':?#-_= '' \<and> 32 < (of_char (std_b64 c) :: nat)) b64_alphabet"
  by (simp add: b64_alphabet_def std_b64_def is_ascii_def)

lemma std_char:
  assumes "n < 64"
  shows "is_ascii (std_b64 (b64_alphabet ! n)) \<and> std_b64 (b64_alphabet ! n) \<notin> set '':?#-_= '' \<and>
    32 < (of_char (std_b64 (b64_alphabet ! n)) :: nat)"
proof -
  have "length b64_alphabet = 64" by (simp add: b64_alphabet_def)
  then have "b64_alphabet ! n \<in> set b64_alphabet" using assms by (metis nth_mem)
  then show ?thesis using std_chars unfolding list_all_iff by blast
qed

lemma std_slash: "n < 64 \<Longrightarrow> std_b64 (b64_alphabet ! n) = CHR ''/'' \<Longrightarrow> n = 63"
  using b64_char [of n] by (auto simp: std_b64_def b64_val_def split: if_splits)

definition link_char :: "char \<Rightarrow> bool" where
  "link_char c \<longleftrightarrow> is_ascii c \<and> 32 < (of_char c :: nat) \<and> c \<notin> set '':?#/''"

definition email_char :: "char \<Rightarrow> bool" where
  "email_char c \<longleftrightarrow> 32 < (of_char c :: nat) \<and> (of_char c :: nat) < 127 \<and> (of_char c :: nat) \<noteq> 63"

lemma std_equals: "std_b64 (CHR ''='') = CHR ''=''"
  by (simp add: std_b64_def)

lemma encoded_chars:
  assumes "\<forall>b \<in> set bs. b < 127 \<and> b \<noteq> 63"
  shows "\<forall>c \<in> set (map std_b64 (b64_encode bs)). link_char c \<and> c \<noteq> CHR ''-'' \<and> c \<noteq> CHR ''_''"
proof -
  have ok: "link_char (std_b64 (b64_alphabet ! n)) \<and> std_b64 (b64_alphabet ! n) \<noteq> CHR ''-'' \<and> std_b64 (b64_alphabet ! n) \<noteq> CHR ''_''"
    if "n < 63" for n
    using std_char [of n] std_slash [of n] that by (auto simp: link_char_def)
  have eq: "link_char (CHR ''='')" by (simp add: link_char_def is_ascii_def)
  show ?thesis
    using assms
  proof (induction bs rule: b64_encode.induct)
    case (2 a)
    then have "a div 4 < 63" "16 * (a mod 4) < 63" by auto
    then show ?case using ok eq by (simp add: std_equals)
  next
    case (3 a b)
    then have "a div 4 < 63" "16 * (a mod 4) + b div 16 < 63" "4 * (b mod 16) < 63" by auto
    then show ?case using ok eq by (simp add: std_equals)
  next
    case (4 a b c r)
    then have "a div 4 < 63" "16 * (a mod 4) + b div 16 < 63" "4 * (b mod 16) + c div 64 < 63" by auto
    moreover have "c mod 64 < 63" using 4(2) by (cases "c < 64") (auto simp: le_mod_geq)
    ultimately show ?case using ok 4 by simp
  qed simp
qed

lemma b64_length: "length (b64_encode bs) mod 4 = 0"
  by (induction bs rule: b64_encode.induct) auto

lemma b64_loop_std: "b64_loop q left pads (map std_b64 s) = b64_loop q left pads s"
proof (induction s arbitrary: q left pads)
  case (Cons c s)
  have "b64_val (std_b64 c) = b64_val c" "std_b64 c = CHR ''='' \<longleftrightarrow> c = CHR ''=''"
    by (auto simp: std_b64_def b64_val_def)
  then show ?case using Cons by (simp del: b64_loop.simps(2) add: b64_loop.simps(2) [of _ _ _ "std_b64 c"] b64_loop.simps(2) [of _ _ _ c]
        split: option.split)
qed simp

lemma utf8_valid_encode: "utf8_valid (utf8_encode s)"
proof (induction s)
  case (Cons c s)
  have "utf8_valid (utf8_char c @ r) = utf8_valid r" for r
  proof (cases "(of_char c :: nat) < 128")
    case True
    then show ?thesis by (simp add: utf8_char_def)
  next
    case False
    define n where "n = (of_char c :: nat)"
    have "128 \<le> n" "n < 256" using False by (simp_all add: n_def)
    then have "n div 64 = 2 \<or> n div 64 = 3" by auto
    moreover have "utf8_char c = [192 + n div 64, 128 + n mod 64]" using False by (simp add: utf8_char_def n_def)
    ultimately show ?thesis by (auto simp: is_cont_def)
  qed
  then show ?case using Cons by (simp add: utf8_encode_def)
qed (simp add: utf8_encode_def)

lemma utf8_encode_ascii: "list_all is_ascii s \<Longrightarrow> utf8_encode s = map of_char s"
  by (induction s) (auto simp: utf8_encode_def utf8_char_def is_ascii_def)

definition good_email :: "string \<Rightarrow> bool" where
  \<comment> \<open>printable ASCII without question mark, with an at sign\<close>
  "good_email email \<longleftrightarrow> list_all email_char (strip email) \<and> CHR ''@'' \<in> set (strip email)"

lemma encoded_email_chars:
  assumes "good_email email"
  shows "\<forall>c \<in> set (encode_email email). link_char c \<and> c \<noteq> CHR ''-'' \<and> c \<noteq> CHR ''_''"
proof -
  have "list_all is_ascii (strip email)" using assms by (auto simp: good_email_def email_char_def is_ascii_def list_all_iff)
  then have enc: "utf8_encode (strip email) = map of_char (strip email)" by (rule utf8_encode_ascii)
  have "\<forall>c \<in> set (strip email). (of_char c :: nat) < 127 \<and> (of_char c :: nat) \<noteq> 63"
    using assms by (auto simp: good_email_def email_char_def list_all_iff)
  then show ?thesis unfolding encode_email_def enc by (intro encoded_chars) auto
qed

lemma encoded_email_recognized:
  assumes "good_email email"
  shows "looks_like_encoded_email (encode_email email)"
proof -
  let ?enc = "encode_email email" and ?bytes = "utf8_encode (strip email)"
  have asc: "list_all is_ascii ?enc" using encoded_email_chars [OF assms] by (auto simp: list_all_iff link_char_def)
  have len: "length ?enc mod 4 = 0" by (simp add: encode_email_def b64_length)
  have flt: "filter (\<lambda>c. c \<noteq> CHR ''-'' \<and> c \<noteq> CHR ''_'') ?enc = ?enc"
    using encoded_email_chars [OF assms] by (auto simp: filter_id_conv)
  have "b64_decode ?enc = Some ?bytes"
    unfolding b64_decode_def encode_email_def b64_loop_std by (rule b64_roundtrip) (use utf8_bytes in blast)
  moreover have "64 \<in> set ?bytes"
    using assms by (force simp: good_email_def utf8_encode_def utf8_char_def)
  ultimately show ?thesis
    using asc len flt utf8_valid_encode by (simp add: looks_like_encoded_email_def Let_def)
qed

subsection \<open>Reading a link\<close>

definition good_nonce :: "string \<Rightarrow> bool" where
  "good_nonce nonce \<longleftrightarrow>
     list_all link_char nonce \<and> nonce \<notin> set IGNORE_SEGMENTS \<and> \<not> looks_like_encoded_email nonce \<and> \<not> isdigit_str nonce"

definition magic_link :: "string \<Rightarrow> string \<Rightarrow> string" where
  \<comment> \<open>the link of the email, as the package documentation gives it\<close>
  "magic_link email nonce = ''https://claude.ai/magic-link/'' @ encode_email email @ ''/'' @ nonce"

lemma ignored_segments: "list_all (\<lambda>s. \<not> looks_like_encoded_email s) IGNORE_SEGMENTS"
  by code_simp

lemma strip_id: "s \<noteq> [] \<Longrightarrow> \<not> is_space (hd s) \<Longrightarrow> \<not> is_space (last s) \<Longrightarrow> strip s = s"
proof -
  assume "s \<noteq> []" "\<not> is_space (hd s)" "\<not> is_space (last s)"
  then have "dropWhile is_space s = s" "dropWhile is_space (rev s) = rev s"
    by (simp_all add: dropWhile_eq_self_iff hd_rev)
  then show ?thesis by (simp add: strip_def lstrip_chars_def rstrip_chars_def)
qed

lemma link_char_no_space: "link_char c \<Longrightarrow> \<not> is_space c"
  by (auto simp: link_char_def is_space_def is_ascii_def Let_def)

lemma partition_char_none: "c \<notin> set s \<Longrightarrow> partition_char c s = (s, False, [])"
proof -
  assume "c \<notin> set s"
  then have "dropWhile (\<lambda>x. x \<noteq> c) s = []" by (auto simp: dropWhile_eq_Nil_conv)
  then show ?thesis by (simp add: partition_char_def del: dropWhile_eq_Nil_conv)
qed

lemma split_magic_link:
  assumes "\<forall>c \<in> set p. link_char c \<or> c = CHR ''/''"
  shows "urlsplit ipv6 (''https://claude.ai/magic-link/'' @ p) =
    Inr \<lparr>us_path = ''/magic-link/'' @ p, us_query = [], us_fragment = []\<rparr>"
proof -
  let ?url = "''https://claude.ai/magic-link/'' @ p"
  have "c \<notin> {CHR 0x09, CHR 0x0D, CHR 0x0A}" if "c \<in> set p" for c
  proof -
    have "32 < (of_char c :: nat)" using assms that by (cases "c = CHR ''/''") (auto simp: link_char_def)
    then show ?thesis by auto
  qed
  then have "filter (\<lambda>c. c \<notin> {CHR 0x09, CHR 0x0D, CHR 0x0A}) p = p" by (intro filter_True) blast
  then have "filter (\<lambda>c. c \<notin> {CHR 0x09, CHR 0x0D, CHR 0x0A}) (dropWhile (\<lambda>c. (of_char c :: nat) \<le> 32) ?url) = ?url"
    by simp
  moreover have "split_netloc (drop_scheme ?url) = (''claude.ai'', ''/magic-link/'' @ p)"
    by (simp add: drop_scheme_def partition_char_def is_alpha_def scheme_char_def is_digit_def split_netloc_def)
  moreover have "CHR ''#'' \<notin> set (''/magic-link/'' @ p)" "CHR ''?'' \<notin> set (''/magic-link/'' @ p)"
    using assms by (auto simp: link_char_def)
  ultimately show ?thesis by (simp add: urlsplit_def partition_char_none del: append_Cons)
qed

lemma magic_link_parsed:
  assumes "good_email email" and "good_nonce nonce"
  shows "parse_magic_link ipv6 (magic_link email nonce) =
    Inr \<lparr>pl_nonce = Some nonce, pl_code = None, pl_encoded_email = Some (encode_email email)\<rparr>"
proof -
  let ?enc = "encode_email email" and ?link = "magic_link email nonce"
  have chars: "\<forall>c \<in> set (?enc @ ''/'' @ nonce). link_char c \<or> c = CHR ''/''"
    using encoded_email_chars [OF assms(1)] assms(2) by (auto simp: good_nonce_def list_all_iff)
  have nonempty: "nonce \<noteq> []" using assms(2) by (auto simp: good_nonce_def IGNORE_SEGMENTS_def)
  then have "last ?link = last nonce" by (simp add: magic_link_def)
  then have "\<not> is_space (last ?link)"
    using assms(2) nonempty link_char_no_space by (metis good_nonce_def last_in_set list_all_iff)
  then have raw: "strip ?link = ?link" by (intro strip_id) (auto simp: magic_link_def is_space_def)
  have slash: "CHR ''/'' \<notin> set ?enc" "CHR ''/'' \<notin> set nonce"
    using encoded_email_chars [OF assms(1)] assms(2) by (auto simp: good_nonce_def list_all_iff link_char_def)
  have segs: "link_segments \<lparr>us_path = ''/magic-link/'' @ ?enc @ ''/'' @ nonce, us_query = [], us_fragment = []\<rparr> = [?enc, nonce]"
  proof -
    have "?enc \<notin> set IGNORE_SEGMENTS"
      using encoded_email_recognized [OF assms(1)] ignored_segments by (auto simp: list_all_iff)
    moreover have "split_char (CHR ''/'') (''/magic-link/'' @ ?enc @ ''/'' @ nonce) = [[], ''magic-link'', ?enc, nonce]"
      by (simp add: split_char_append split_char_literal slash)
    ultimately show ?thesis using assms(2) by (simp add: link_segments_def good_nonce_def IGNORE_SEGMENTS_def)
  qed
  have "take_segments [?enc, nonce] (None, None) = (Some nonce, Some ?enc)"
    using encoded_email_recognized [OF assms(1)] by simp
  moreover have "urlsplit ipv6 ?link = Inr \<lparr>us_path = ''/magic-link/'' @ ?enc @ ''/'' @ nonce, us_query = [], us_fragment = []\<rparr>"
    using split_magic_link [OF chars] by (simp add: magic_link_def)
  moreover have "pick_param keys [] [] = None" for keys by (induction keys) auto
  moreover have "\<not> isdigit_str ?link" "\<not> list_all (\<lambda>c. c \<notin> set '':/?#'') ?link" "?link \<noteq> []"
    by (simp_all add: magic_link_def isdigit_str_def isdigit_char_def is_digit_def)
  moreover have "parse_qs [] = []" by (simp add: parse_qs_def partition_char_def)
  ultimately show ?thesis
    using raw segs assms(2) by (simp add: parse_magic_link_def Let_def map_ok_def bind_result_def link_result_def good_nonce_def)
qed


definition demo_login :: "(unit, unit) login_env" where
  \<comment> \<open>a server that confirms every verification\<close>
  "demo_login =
     \<lparr>le_session = \<lparr>bs_request = (\<lambda>m w. (Inr (PModel (VObj None [])), ())), bs_multipart = (\<lambda>m w. (Inr PNone, ())), bs_stream = (\<lambda>m w. (Inr (), ()))\<rparr>,
      le_auth = (\<lambda>v. \<lparr>ar_success = True, ar_secret = Some ''sec'',
        ar_account = Some [(''memberships'', JList [JObj [(''organization'', JObj [(''uuid'', JStr ''org-9'')])]])]\<rparr>),
      le_cookies = (\<lambda>w. [(''sessionKey'', ''sk'')]), le_ipv6 = (\<lambda>s. None), le_fr = (\<lambda>x. [])\<rparr>"

definition demo_login_state :: login_state where
  "demo_login_state = \<lparr>ls_email = Some ''a@b.com'', ls_client = client_init ''login'' None ''model'' ''UTC'' ''en-US''\<rparr>"


end
