(* ===== verification/Chat.thy ===== *)
theory Chat
  imports Client Streaming
begin

section \<open>Chat shortcuts\<close>

text \<open>
  \<^verbatim>\<open>claude_ai/helpers.py\<close> and \<open>send_message_and_collect\<close> of the client: compositions of client calls. A stream is the list of the events it
  yields and the exception it ends with, if it does. The UUID generator, the file system and the attributes of the response objects are
  arguments.
\<close>

type_synonym event_stream = "stream_event list \<times> exn option"

definition client_stream ::
  "('c, 'w, event_stream) client_env \<Rightarrow> facade \<Rightarrow> exn + base_method \<Rightarrow> 'c option \<times> 'w \<Rightarrow> (exn + event_stream) \<times> 'c option \<times> 'w" where
  \<comment> \<open>\<open>await self(SendMessage(), params)\<close>\<close>
  "client_stream env c m st =
     (case m of
        Inl e \<Rightarrow> (Inl e, st)
      | Inr m \<Rightarrow>
          (case client_call (ce_session env) c m (snd st) of
             (Inl e, w1) \<Rightarrow> (Inl e, (fst st, w1))
           | (Inr (Stream es), w1) \<Rightarrow> (Inr es, (fst st, w1))
           | (Inr (Value r), w1) \<Rightarrow> (Inr ([], None), (fst st, w1))))"

definition collect_stream :: "event_stream \<Rightarrow> exn + completion_result" where
  \<comment> \<open>\<open>StreamCollector(events).collect()\<close>: an exception of the stream ends the collection\<close>
  "collect_stream s = (case s of (events, None) \<Rightarrow> collect events | (events, Some e) \<Rightarrow> Inl e)"

definition client_send_message_and_collect ::
  "('c, 'w, event_stream) client_env \<Rightarrow> facade \<Rightarrow> string \<Rightarrow> string \<Rightarrow> string option \<Rightarrow> send_options \<Rightarrow> string option \<Rightarrow>
     'c option \<times> 'w \<Rightarrow> (exn + completion_result) \<times> 'c option \<times> 'w" where
  "client_send_message_and_collect env c conv_uuid prompt model opts org_uuid st =
     (case client_stream env c (client_send_message c conv_uuid prompt model opts org_uuid) st of
        (Inl e, st1) \<Rightarrow> (Inl e, st1)
      | (Inr es, st1) \<Rightarrow> (collect_stream es, st1))"

record chat_env =
  ch_uuid_of :: "pyval parsed \<Rightarrow> exn + string"          \<comment> \<open>\<open>conv.uuid\<close>, \<open>upload.uuid\<close>\<close>
  ch_file_name_of :: "pyval parsed \<Rightarrow> exn + string"     \<comment> \<open>\<open>upload.file_name\<close>\<close>
  ch_read_bytes :: "string \<Rightarrow> exn + string"
  ch_path_name :: "string \<Rightarrow> string"
  ch_guess_type :: "string \<Rightarrow> string option"

definition with_new_conversation ::
  "('c, 'w, event_stream) client_env \<Rightarrow> chat_env \<Rightarrow> facade \<Rightarrow> string \<Rightarrow> string option \<Rightarrow>
     (string \<Rightarrow> 'c option \<times> 'w \<Rightarrow> (exn + 'a) \<times> 'c option \<times> 'w) \<Rightarrow> 'c option \<times> 'w \<Rightarrow> (exn + 'a) \<times> 'c option \<times> 'w" where
  \<comment> \<open>the first line of every shortcut: create a conversation and go on with the UUID the server answers\<close>
  "with_new_conversation env ch c new_uuid model f st =
     (case client_create_conversation env c new_uuid [] model False None st of
        (Inl e, st1) \<Rightarrow> (Inl e, st1)
      | (Inr conv, st1) \<Rightarrow> (case ch_uuid_of ch conv of Inl e \<Rightarrow> (Inl e, st1) | Inr uuid \<Rightarrow> f uuid st1))"

definition chat_full ::
  "('c, 'w, event_stream) client_env \<Rightarrow> chat_env \<Rightarrow> facade \<Rightarrow> string \<Rightarrow> string \<Rightarrow> string option \<Rightarrow> send_options \<Rightarrow>
     'c option \<times> 'w \<Rightarrow> (exn + completion_result) \<times> 'c option \<times> 'w" where
  "chat_full env ch c new_uuid prompt model opts st =
     with_new_conversation env ch c new_uuid model (\<lambda>uuid. client_send_message_and_collect env c uuid prompt model opts None) st"

definition chat ::
  "('c, 'w, event_stream) client_env \<Rightarrow> chat_env \<Rightarrow> facade \<Rightarrow> string \<Rightarrow> string \<Rightarrow> string option \<Rightarrow> send_options \<Rightarrow>
     'c option \<times> 'w \<Rightarrow> (exn + string) \<times> 'c option \<times> 'w" where
  "chat env ch c new_uuid prompt model opts st =
     (case with_new_conversation env ch c new_uuid model (\<lambda>uuid. client_send_message_and_collect env c uuid prompt model opts None) st of
        (r, st1) \<Rightarrow> (map_ok cr_text r, st1))"

definition chat_stream ::
  "('c, 'w, event_stream) client_env \<Rightarrow> chat_env \<Rightarrow> facade \<Rightarrow> string \<Rightarrow> string \<Rightarrow> string option \<Rightarrow> send_options \<Rightarrow>
     'c option \<times> 'w \<Rightarrow> (exn + event_stream) \<times> 'c option \<times> 'w" where
  "chat_stream env ch c new_uuid prompt model opts st =
     with_new_conversation env ch c new_uuid model (\<lambda>uuid. client_stream env c (client_send_message c uuid prompt model opts None)) st"

definition upload_and_chat ::
  "('c, 'w, event_stream) client_env \<Rightarrow> chat_env \<Rightarrow> facade \<Rightarrow> string \<Rightarrow> string \<Rightarrow> string \<Rightarrow> string option \<Rightarrow> send_options \<Rightarrow>
     'c option \<times> 'w \<Rightarrow> (exn + completion_result) \<times> 'c option \<times> 'w" where
  \<comment> \<open>\<open>opts\<close> are the defaults; the files are the uploaded one\<close>
  "upload_and_chat env ch c new_uuid file_path prompt model opts st =
     (case ch_read_bytes ch file_path of
        Inl e \<Rightarrow> (Inl e, st)
      | Inr content \<Rightarrow>
          with_new_conversation env ch c new_uuid model (\<lambda>uuid st1.
            case client_value env c (client_upload_file (ch_guess_type ch) c uuid content (ch_path_name ch file_path) None) st1 of
              (Inl e, st2) \<Rightarrow> (Inl e, st2)
            | (Inr upload, st2) \<Rightarrow>
                (case bind_result (ch_uuid_of ch upload) (\<lambda>u. bind_result (ch_file_name_of ch upload) (\<lambda>n. Inr (u, n))) of
                   Inl e \<Rightarrow> (Inl e, st2)
                 | Inr (u, n) \<Rightarrow>
                     client_send_message_and_collect env c uuid prompt model
                       (opts\<lparr>so_files := [JObj [(''file_uuid'', JStr u), (''file_name'', JStr n)]]\<rparr>) None st2)) st)"

definition export_conversation ::
  "('c, 'w, 'e) client_env \<Rightarrow> facade \<Rightarrow> string \<Rightarrow> 'c option \<times> 'w \<Rightarrow> (exn + pyval parsed) \<times> 'c option \<times> 'w" where
  "export_conversation env c conv_uuid st = client_get_conversation env c conv_uuid True None st"

subsection \<open>What a chat sends\<close>

text \<open>
  The three forms of a chat send the same requests: the streamed chat, collected by the caller, is the full chat, and \<open>chat\<close> is its text.
\<close>

lemma chat_forms_agree:
  "chat_full env ch c u prompt model opts st =
     (case chat_stream env ch c u prompt model opts st of (Inl e, st1) \<Rightarrow> (Inl e, st1) | (Inr es, st1) \<Rightarrow> (collect_stream es, st1))"
  "chat env ch c u prompt model opts st = (case chat_full env ch c u prompt model opts st of (r, st1) \<Rightarrow> (map_ok cr_text r, st1))"
  by (auto simp: chat_full_def chat_def chat_stream_def with_new_conversation_def client_send_message_and_collect_def
      split: prod.splits sum.splits)

text \<open>Without an organization no shortcut sends anything.\<close>

lemma chat_needs_org:
  assumes "fc_org_uuid c = []"
  shows "\<exists>e. chat_stream env ch c u prompt model opts st = (Inl (Py (ValueError e)), st)"
  using assms
  by (simp add: chat_stream_def with_new_conversation_def client_create_conversation_def client_value_def org_or_cases or_default_def
      bind_result_def)

end
