(* ===== verification/File_Storage.thy ===== *)
theory File_Storage
  imports Streaming Storage_KV Cookies
begin

section \<open>State in JSON files\<close>

text \<open>
  \<^verbatim>\<open>claude_ai/storage/kv/file.py\<close> and \<^verbatim>\<open>claude_ai/storage/cookies/file.py\<close>: the storages that keep everything in one JSON file, which every
  operation reads and a changing one writes back as a whole. A file is its text, \<open>None\<close> if it does not exist; the lock makes each operation atomic towards the
  others. A file that holds anything but an object of objects was not written by these classes; an operation that meets such a value raises. \<open>jmsg\<close> is the text of a \<^verbatim>\<open>JSONDecodeError\<close>, \<open>fr\<close> prints a float. Shown: over any history the files answer like the
  memory storages (for values without floats, whose text is a parameter), and what a crash between truncation and write does.
\<close>

subsection \<open>Indented JSON\<close>

definition newline :: "nat \<Rightarrow> string" where
  "newline level = CHR 0x0A # replicate (2 * level) (CHR '' '')"

fun dumps_indent :: "(pyfloat \<Rightarrow> string) \<Rightarrow> nat \<Rightarrow> json \<Rightarrow> string" where
  \<comment> \<open>\<open>json.dumps(v, ensure_ascii=False, indent=2)\<close>, at a nesting level\<close>
  "dumps_indent fr l (JStr s) = raw_string s"
| "dumps_indent fr l (JList xs) =
     (if xs = [] then ''[]''
      else CHR ''['' # newline (Suc l) @ join (CHR '','' # newline (Suc l)) (map (dumps_indent fr (Suc l)) xs) @ newline l @ '']'')"
| "dumps_indent fr l (JObj d) =
     (if d = [] then ''{}''
      else CHR ''{'' # newline (Suc l) @
        join (CHR '','' # newline (Suc l)) (map (\<lambda>(k, v). raw_string k @ '': '' @ dumps_indent fr (Suc l) v) d) @ newline l @ ''}'')"
| "dumps_indent fr l v = json_dumps fr v"

lemma newline_ws: "list_all json_ws (newline l)"
  by (auto simp: newline_def json_ws_def list_all_iff)

lemma indent_text: "plain v \<Longrightarrow> json_text v (dumps_indent fr l v)"
proof (induction v arbitrary: l)
  case (JList xs)
  show ?case
  proof (cases "xs = []")
    case False
    have "elems_text xs (join (CHR '','' # newline (Suc l)) (map (dumps_indent fr (Suc l)) xs) @ newline l @ '']'')"
      using False JList newline_ws by (intro joined_elems) auto
    from text_list [OF newline_ws this] False show ?thesis by simp
  qed (simp add: text_nil)
next
  case (JObj d)
  let ?g = "\<lambda>(k, v). raw_string k @ '': '' @ dumps_indent fr (Suc l) v"
  show ?case
  proof (cases "d = []")
    case False
    have "members_text d (join (CHR '','' # newline (Suc l)) (map ?g d) @ newline l @ ''}'')"
    proof (rule joined_members [where ?w0.0 = "'' ''"])
      fix k v assume kv: "(k, v) \<in> set d"
      then have "json_text v (dumps_indent fr (Suc l) v)" using JObj.IH [OF kv, of v] JObj.prems by (auto simp: snds.simps)
      then show "\<exists>u s. ?g (k, v) = u @ CHR '':'' # '' '' @ s \<and> string_text k u \<and> json_text v s" using raw_string_text [of k] by auto
    qed (use False newline_ws in \<open>auto simp: json_ws_def\<close>)
    from text_obj [OF newline_ws _ this] False JObj.prems show ?thesis by simp
  qed (simp add: text_empty)
qed (use raw_string_text in \<open>auto simp: text_null text_true text_false text_int text_str\<close>)

lemma loads_indent: "plain v \<Longrightarrow> json_loads (dumps_indent fr l v) = Some v"
  by (intro loads_text indent_text)

subsection \<open>The file\<close>

type_synonym json_file = "string option"

definition malformed :: exn where
  "malformed = Py (TypeError ''not an object of objects'')"

definition file_read :: "(string \<Rightarrow> string) \<Rightarrow> json_file \<Rightarrow> exn + json" where
  \<comment> \<open>\<open>_read\<close>\<close>
  "file_read jmsg f =
     (case f of
        None \<Rightarrow> Inr (JObj [])
      | Some text \<Rightarrow>
          if strip text = [] then Inr (JObj [])
          else (case json_loads text of None \<Rightarrow> Inl (OtherException ''JSONDecodeError'' (jmsg text)) | Some v \<Rightarrow> Inr v))"

definition file_write :: "(pyfloat \<Rightarrow> string) \<Rightarrow> json \<Rightarrow> json_file" where
  \<comment> \<open>\<open>_write\<close>\<close>
  "file_write fr data = Some (dumps_indent fr 0 data)"

definition as_dict :: "json \<Rightarrow> exn + json dict" where
  "as_dict v = (case v of JObj d \<Rightarrow> Inr d | _ \<Rightarrow> Inl malformed)"

definition file_data :: "(string \<Rightarrow> string) \<Rightarrow> json_file \<Rightarrow> exn + json dict" where
  "file_data jmsg f = bind_result (file_read jmsg f) as_dict"

subsection \<open>FileStorage\<close>

definition file_items :: "(string \<Rightarrow> string) \<Rightarrow> json_file \<Rightarrow> string \<Rightarrow> exn + json dict" where
  "file_items jmsg f ns = bind_result (file_data jmsg f) (\<lambda>data. as_dict (dict_getd data ns (JObj [])))"

definition file_get :: "(string \<Rightarrow> string) \<Rightarrow> json_file \<Rightarrow> string \<Rightarrow> string \<Rightarrow> exn + json" where
  "file_get jmsg f ns k = map_ok (\<lambda>d. obj_get d k) (file_items jmsg f ns)"

definition file_set :: "(pyfloat \<Rightarrow> string) \<Rightarrow> (string \<Rightarrow> string) \<Rightarrow> json_file \<Rightarrow> string \<Rightarrow> string \<Rightarrow> json \<Rightarrow> (exn + unit) \<times> json_file" where
  "file_set fr jmsg f ns k v =
     (case bind_result (file_data jmsg f) (\<lambda>data.
             bind_result (as_dict (dict_getd data ns (JObj []))) (\<lambda>d. Inr (JObj (dict_set data ns (JObj (dict_set d k v)))))) of
        Inl e \<Rightarrow> (Inl e, f)
      | Inr data \<Rightarrow> (Inr (), file_write fr data))"

definition file_delete :: "(pyfloat \<Rightarrow> string) \<Rightarrow> (string \<Rightarrow> string) \<Rightarrow> json_file \<Rightarrow> string \<Rightarrow> string \<Rightarrow> (exn + unit) \<times> json_file" where
  \<comment> \<open>nothing is written when the key is absent or its value is \<open>None\<close>\<close>
  "file_delete fr jmsg f ns k =
     (case bind_result (file_data jmsg f) (\<lambda>data.
             bind_result (as_dict (dict_getd data ns (JObj []))) (\<lambda>d.
               Inr (if obj_get d k = JNull then None else Some (JObj (dict_set data ns (JObj (dict_del d k))))))) of
        Inl e \<Rightarrow> (Inl e, f)
      | Inr None \<Rightarrow> (Inr (), f)
      | Inr (Some data) \<Rightarrow> (Inr (), file_write fr data))"

subsection \<open>FileCookieStorage\<close>

definition fck_load :: "(string \<Rightarrow> string) \<Rightarrow> json_file \<Rightarrow> string \<Rightarrow> exn + json dict" where
  "fck_load jmsg f a = bind_result (file_data jmsg f) (\<lambda>data. as_dict (dict_getd data a (JObj [])))"

abbreviation str_values :: "string dict \<Rightarrow> json dict" where
  "str_values d \<equiv> map (\<lambda>(k, v). (k, JStr v)) d"

definition fck_save :: "(pyfloat \<Rightarrow> string) \<Rightarrow> (string \<Rightarrow> string) \<Rightarrow> json_file \<Rightarrow> string \<Rightarrow> cookies \<Rightarrow> (exn + unit) \<times> json_file" where
  "fck_save fr jmsg f a c =
     (case file_data jmsg f of
        Inl e \<Rightarrow> (Inl e, f)
      | Inr data \<Rightarrow> (Inr (), file_write fr (JObj (dict_set data a (JObj (str_values c))))))"

definition fck_update :: "(pyfloat \<Rightarrow> string) \<Rightarrow> (string \<Rightarrow> string) \<Rightarrow> json_file \<Rightarrow> string \<Rightarrow> cookies \<Rightarrow> (exn + unit) \<times> json_file" where
  "fck_update fr jmsg f a c =
     (case bind_result (file_data jmsg f) (\<lambda>data.
             bind_result (as_dict (dict_getd data a (JObj []))) (\<lambda>d. Inr (JObj (dict_set data a (JObj (dict_update d (str_values c))))))) of
        Inl e \<Rightarrow> (Inl e, f)
      | Inr data \<Rightarrow> (Inr (), file_write fr data))"

definition fck_delete :: "(pyfloat \<Rightarrow> string) \<Rightarrow> (string \<Rightarrow> string) \<Rightarrow> json_file \<Rightarrow> string \<Rightarrow> (exn + unit) \<times> json_file" where
  "fck_delete fr jmsg f a =
     (case file_data jmsg f of
        Inl e \<Rightarrow> (Inl e, f)
      | Inr data \<Rightarrow> if obj_get data a = JNull then (Inr (), f) else (Inr (), file_write fr (JObj (dict_del data a))))"

definition fck_list_accounts :: "(string \<Rightarrow> string) \<Rightarrow> json_file \<Rightarrow> exn + string list" where
  "fck_list_accounts jmsg f = map_ok dict_keys (file_data jmsg f)"

fun netscape_cookies :: "string list \<Rightarrow> cookies \<Rightarrow> cookies" where
  \<comment> \<open>the loop of \<open>from_netscape\<close>\<close>
  "netscape_cookies [] cookies = cookies"
| "netscape_cookies (l # ls) cookies =
     (let line = strip l; parts = split_char (CHR 0x09) line
      in netscape_cookies ls
           (if line = [] \<or> startswith line ''#'' then cookies
            else if length parts \<ge> 7 then dict_set cookies (parts ! 5) (parts ! 6) else cookies))"

definition fck_from_netscape ::
  "(pyfloat \<Rightarrow> string) \<Rightarrow> (string \<Rightarrow> string) \<Rightarrow> string \<Rightarrow> json_file \<Rightarrow> string \<Rightarrow> (exn + unit) \<times> json_file" where
  \<comment> \<open>\<open>text\<close> is the Netscape file, \<open>f\<close> the JSON file beside it\<close>
  "fck_from_netscape fr jmsg text f a = fck_save fr jmsg f a (netscape_cookies (splitlines text) [])"

subsection \<open>Histories\<close>

datatype file_op = FSet string string json | FDelete string string

fun file_step :: "(pyfloat \<Rightarrow> string) \<Rightarrow> (string \<Rightarrow> string) \<Rightarrow> file_op \<Rightarrow> json_file \<Rightarrow> json_file" where
  "file_step fr jmsg (FSet ns k v) f = snd (file_set fr jmsg f ns k v)"
| "file_step fr jmsg (FDelete ns k) f = snd (file_delete fr jmsg f ns k)"

fun mem_step :: "file_op \<Rightarrow> mem_storage \<Rightarrow> mem_storage" where
  "mem_step (FSet ns k v) s = mem_set s ns k v"
| "mem_step (FDelete ns k) s = mem_delete s ns k"

fun storable :: "file_op \<Rightarrow> bool" where
  "storable (FSet ns k v) = (plain v \<and> v \<noteq> JNull)"
| "storable (FDelete ns k) = True"

datatype cookie_op = CSave string cookies | CUpdate string cookies | CDelete string

fun fck_step :: "(pyfloat \<Rightarrow> string) \<Rightarrow> (string \<Rightarrow> string) \<Rightarrow> cookie_op \<Rightarrow> json_file \<Rightarrow> json_file" where
  "fck_step fr jmsg (CSave a c) f = snd (fck_save fr jmsg f a c)"
| "fck_step fr jmsg (CUpdate a c) f = snd (fck_update fr jmsg f a c)"
| "fck_step fr jmsg (CDelete a) f = snd (fck_delete fr jmsg f a)"

fun mck_step :: "cookie_op \<Rightarrow> mem_cookies \<Rightarrow> mem_cookies" where
  "mck_step (CSave a c) s = mck_save s a c"
| "mck_step (CUpdate a c) s = mck_update s a c"
| "mck_step (CDelete a) s = mck_delete s a"

fun jar_ok :: "cookie_op \<Rightarrow> bool" where
  "jar_ok (CSave a c) = dict_ok c"
| "jar_ok (CUpdate a c) = dict_ok c"
| "jar_ok (CDelete a) = True"

definition objects :: "json dict dict \<Rightarrow> json dict" where
  "objects s = map (\<lambda>(k, d). (k, JObj d)) s"

definition holds :: "(string \<Rightarrow> string) \<Rightarrow> json_file \<Rightarrow> json dict dict \<Rightarrow> bool" where
  \<comment> \<open>the file reads as this table of tables\<close>
  "holds jmsg f s \<longleftrightarrow> file_data jmsg f = Inr (objects s)"

definition values_ok :: "json dict \<Rightarrow> bool" where
  "values_ok d \<longleftrightarrow> dict_ok d \<and> (\<forall>p \<in> set d. plain (snd p) \<and> snd p \<noteq> JNull)"

definition tables_ok :: "json dict dict \<Rightarrow> bool" where
  "tables_ok s \<longleftrightarrow> dict_ok s \<and> (\<forall>p \<in> set s. values_ok (snd p))"

lemma strip_solid: "t \<noteq> [] \<Longrightarrow> \<not> is_space (hd t) \<Longrightarrow> strip t \<noteq> []"
  by (cases t) (auto simp: strip_def rstrip_chars_def lstrip_chars_def dropWhile_eq_Nil_conv)

lemma objects_lookup: "dict_getd (objects s) ns (JObj []) = JObj (dict_getd s ns [])" "dict_get (objects s) ns = map_option JObj (dict_get s ns)"
  by (simp_all add: objects_def map_of_map dict_getd_def split: option.splits)

lemma objects_set: "dict_set (objects s) ns (JObj d) = objects (dict_set s ns d)"
  by (induction s) (auto simp: objects_def)

lemma objects_del: "dict_del (objects s) ns = objects (dict_del s ns)"
  by (induction s) (auto simp: objects_def)

lemma table_plain: "tables_ok s \<Longrightarrow> plain (JObj (objects s))"
  by (auto simp: tables_ok_def values_ok_def objects_def)

lemma holds_write: "tables_ok s \<Longrightarrow> holds jmsg (file_write fr (JObj (objects s))) s"
proof -
  assume t: "tables_ok s"
  have "strip (dumps_indent fr 0 (JObj (objects s))) \<noteq> []" by (rule strip_solid) (simp_all add: is_space_def)
  then show ?thesis
    using loads_indent [OF table_plain [OF t], of fr 0] by (simp add: holds_def file_data_def file_read_def file_write_def as_dict_def bind_result_def del: dumps_indent.simps)
qed

lemma holds_new: "holds jmsg None []" "tables_ok []"
  by (simp_all add: holds_def file_data_def file_read_def as_dict_def bind_result_def objects_def tables_ok_def)

lemma table_entry: "tables_ok s \<Longrightarrow> values_ok (dict_getd s ns [])"
proof (cases "dict_get s ns")
  case (Some d)
  then have "(ns, d) \<in> set s" by (rule map_of_SomeD)
  moreover assume "tables_ok s"
  ultimately have "values_ok (snd (ns, d))" unfolding tables_ok_def by blast
  then show ?thesis using Some by (simp add: dict_getd_def)
qed (simp add: dict_getd_def values_ok_def)

lemma table_set: "tables_ok s \<Longrightarrow> values_ok d \<Longrightarrow> tables_ok (dict_set s ns d)"
  using dict_set_subset [of ns d s] by (fastforce simp: tables_ok_def)

lemma dict_del_subset: "set (dict_del d k) \<subseteq> set d"
  by (auto simp: AList.delete_eq)

lemma table_del: "tables_ok s \<Longrightarrow> tables_ok (dict_del s ns)"
  using dict_del_subset [where d = s and k = ns] by (auto simp: tables_ok_def)

lemma entry_set: "values_ok d \<Longrightarrow> plain v \<Longrightarrow> v \<noteq> JNull \<Longrightarrow> values_ok (dict_set d k v)"
  using dict_set_subset [of k v d] by (fastforce simp: values_ok_def)

lemma entry_del: "values_ok d \<Longrightarrow> values_ok (dict_del d k)"
  using dict_del_subset [where d = d and k = k] by (auto simp: values_ok_def)

lemma dict_del_absent: "dict_get d k = None \<Longrightarrow> dict_del d k = d"
  by (simp add: map_of_eq_None_iff)

lemma obj_get_null: "values_ok d \<Longrightarrow> obj_get d k = JNull \<longleftrightarrow> dict_get d k = None"
  by (auto simp: obj_get_def dict_getd_def values_ok_def split: option.splits dest!: map_of_SomeD)

lemma file_step_holds:
  assumes "holds jmsg f s" and "tables_ok s" and "storable op"
  shows "holds jmsg (file_step fr jmsg op f) (mem_step op s) \<and> tables_ok (mem_step op s)"
proof (cases op)
  case (FSet ns k v)
  have "tables_ok (mem_set s ns k v)"
    using entry_set [OF table_entry [OF assms(2)]] assms(3) FSet by (auto simp: mem_set_def intro!: table_set [OF assms(2)])
  then show ?thesis
    using holds_write [of "mem_set s ns k v" jmsg fr] assms(1) FSet
    by (simp add: file_set_def holds_def objects_lookup as_dict_def bind_result_def objects_set mem_set_def)
next
  case (FDelete ns k)
  let ?d = "dict_getd s ns []"
  have null: "obj_get ?d k = JNull \<longleftrightarrow> dict_get ?d k = None" by (rule obj_get_null [OF table_entry [OF assms(2)]])
  show ?thesis
  proof (cases "dict_get ?d k = None")
    case True
    then have "dict_del ?d k = ?d" by (rule dict_del_absent)
    then have "mem_delete s ns k = s" by (auto simp: mem_delete_def dict_getd_def update_triv split: option.splits)
    then show ?thesis
      using assms(1,2) null True FDelete by (simp add: file_delete_def holds_def objects_lookup as_dict_def bind_result_def)
  next
    case False
    then have m: "mem_delete s ns k = dict_set s ns (dict_del ?d k)" by (auto simp: mem_delete_def dict_getd_def split: option.splits)
    have "tables_ok (mem_delete s ns k)"
      unfolding m by (intro table_set [OF assms(2)] entry_del table_entry assms(2))
    then show ?thesis
      using holds_write [of "mem_delete s ns k" jmsg fr] assms(1) null False FDelete
      by (simp add: file_delete_def holds_def objects_lookup as_dict_def bind_result_def objects_set m)
  qed
qed

lemma file_run_holds:
  "holds jmsg f s \<Longrightarrow> tables_ok s \<Longrightarrow> \<forall>op \<in> set ops. storable op \<Longrightarrow>
     holds jmsg (fold (file_step fr jmsg) ops f) (fold mem_step ops s)"
  by (induction ops arbitrary: f s) (auto simp: file_step_holds)

definition jars :: "mem_cookies \<Rightarrow> json dict dict" where
  "jars s = map (\<lambda>(a, c). (a, str_values c)) s"

lemma jars_simps:
  "dict_set (jars s) a (str_values c) = jars (dict_set s a c)" "dict_del (jars s) a = jars (dict_del s a)"
  "dict_getd (jars s) a [] = str_values (dict_getd s a [])"
proof -
  show "dict_set (jars s) a (str_values c) = jars (dict_set s a c)" by (induction s) (auto simp: jars_def)
  show "dict_del (jars s) a = jars (dict_del s a)" by (induction s) (auto simp: jars_def)
  show "dict_getd (jars s) a [] = str_values (dict_getd s a [])" by (simp add: jars_def dict_getd_def map_of_map split: option.splits)
qed

lemma str_values_update: "dict_update (str_values d) (str_values c) = str_values (dict_update d c)"
proof -
  have one: "dict_set (str_values d) k (JStr v) = str_values (dict_set d k v)" for d k v by (induction d) auto
  show ?thesis by (induction c arbitrary: d) (auto simp: dict_update_def one)
qed

lemma jar_entry: "dict_ok c \<longleftrightarrow> values_ok (str_values c)"
  by (auto simp: values_ok_def)

lemma fck_step_holds:
  assumes "holds jmsg f (jars s)" and "tables_ok (jars s)" and "jar_ok op"
  shows "holds jmsg (fck_step fr jmsg op f) (jars (mck_step op s)) \<and> tables_ok (jars (mck_step op s))"
proof (cases op)
  case (CSave a c)
  have "tables_ok (jars (mck_save s a c))"
    unfolding mck_save_def jars_simps(1) [symmetric] using jar_entry [of c] assms(3) CSave by (intro table_set [OF assms(2)]) auto
  then show ?thesis
    using holds_write [of "jars (mck_save s a c)" jmsg fr] assms(1) CSave
    by (simp add: fck_save_def holds_def objects_set jars_simps mck_save_def)
next
  case (CUpdate a c)
  have "dict_ok (dict_getd s a [])" using table_entry [OF assms(2), of a] by (simp add: jars_simps jar_entry)
  then have "tables_ok (jars (mck_update s a c))"
    unfolding mck_update_def jars_simps(1) [symmetric] using jar_entry [of "dict_update (dict_getd s a []) c"]
    by (intro table_set [OF assms(2)]) auto
  then show ?thesis
    using holds_write [of "jars (mck_update s a c)" jmsg fr] assms(1) CUpdate
    by (simp add: fck_update_def holds_def objects_lookup as_dict_def bind_result_def objects_set jars_simps str_values_update mck_update_def)
next
  case (CDelete a)
  have null: "obj_get (objects (jars s)) a = JNull \<longleftrightarrow> dict_get (jars s) a = None"
    by (simp add: obj_get_def dict_getd_def objects_lookup(2) split: option.splits)
  have t: "tables_ok (jars (dict_del s a))" using table_del [OF assms(2), of a] by (simp add: jars_simps)
  have "dict_del (jars s) a = jars s" if "dict_get (jars s) a = None" using that by (rule dict_del_absent)
  then show ?thesis
    using holds_write [OF t, of jmsg fr] t assms(1) null CDelete
    by (auto simp: fck_delete_def holds_def objects_del jars_simps mck_delete_def)
qed

lemma fck_run_holds:
  "holds jmsg f (jars s) \<Longrightarrow> tables_ok (jars s) \<Longrightarrow> \<forall>op \<in> set ops. jar_ok op \<Longrightarrow>
     holds jmsg (fold (fck_step fr jmsg) ops f) (jars (fold mck_step ops s))"
  by (induction ops arbitrary: f s) (auto simp: fck_step_holds)

text \<open>
  C31. The file storages refine the memory storages. After any history of writes and deletions from an absent file, reading raises nothing and answers what the
  memory storage answers after the same history: every value and every namespace of the state storage, every jar and the list of the accounts
  of the cookie storage. The values of the state storage have to be free of floats and not \<open>None\<close>.
\<close>

theorem file_storages_refine_memory:
  assumes "\<forall>op \<in> set ops. storable op" and "\<forall>op \<in> set cops. jar_ok op"
  shows "(let f = fold (file_step fr jmsg) ops None; s = fold mem_step ops [] in
      file_get jmsg f ns k = Inr (mem_get s ns k) \<and> file_items jmsg f ns = Inr (mem_items s ns)) \<and>
    (let f = fold (fck_step fr jmsg) cops None; s = fold mck_step cops [] in
      fck_load jmsg f a = Inr (str_values (mck_load s a)) \<and> fck_list_accounts jmsg f = Inr (mck_list_accounts s))"
proof -
  have "holds jmsg (fold (file_step fr jmsg) ops None) (fold mem_step ops [])"
    using file_run_holds [OF holds_new assms(1)] .
  moreover have "holds jmsg (fold (fck_step fr jmsg) cops None) (jars (fold mck_step cops []))"
    using fck_run_holds [of jmsg None "[]" cops fr] holds_new assms(2) by (simp add: jars_def)
  moreover have "dict_keys (objects (jars s)) = dict_keys s" for s by (simp add: objects_def jars_def case_prod_unfold)
  ultimately show ?thesis
    by (simp add: Let_def file_get_def file_items_def fck_load_def fck_list_accounts_def holds_def objects_lookup as_dict_def bind_result_def mem_get_def
        mem_items_def jars_simps mck_load_def mck_list_accounts_def map_ok_def)
qed

theorem file_storages_refine_memory_witness:
  "file_get (\<lambda>t. []) (fold (file_step (\<lambda>x. []) (\<lambda>t. [])) [FSet ''affinity'' ''c1'' (JStr ''acc''), FSet ''affinity'' ''c2'' (JInt 5), FDelete ''affinity'' ''c2''] None)
     ''affinity'' ''c1'' = Inr (JStr ''acc'') \<and>
   fck_load (\<lambda>t. []) (fold (fck_step (\<lambda>x. []) (\<lambda>t. [])) [CSave ''acc'' [(''k'', ''1'')], CUpdate ''acc'' [(''k'', ''2'')]] None) ''acc'' = Inr [(''k'', JStr ''2'')]"
proof -
  have "\<forall>op \<in> set [FSet ''affinity'' ''c1'' (JStr ''acc''), FSet ''affinity'' ''c2'' (JInt 5), FDelete ''affinity'' ''c2'']. storable op"
    "\<forall>op \<in> set [CSave ''acc'' [(''k'', ''1'')], CUpdate ''acc'' [(''k'', ''2'')]]. jar_ok op"
    by (simp_all add: dict_ok_def)
  from file_storages_refine_memory [OF this, where fr = "\<lambda>x. []" and jmsg = "\<lambda>t. []" and ns = "''affinity''" and k = "''c1''" and a = "''acc''"]
  show ?thesis
    by (simp add: Let_def mem_get_def mem_set_def mem_delete_def obj_get_def dict_getd_def mck_load_def mck_save_def mck_update_def dict_update_def)
qed

subsection \<open>What the file storages do not keep\<close>

text \<open>
  A value \<open>None\<close> cannot be deleted: \<^verbatim>\<open>pop\<close> returns it, the test takes it for an absent key and nothing is written.
\<close>

lemma null_not_deleted:
  assumes "holds jmsg f s" and "dict_get (dict_getd s ns []) k = Some JNull"
  shows "file_delete fr jmsg f ns k = (Inr (), f)"
proof -
  have "obj_get (dict_getd s ns []) k = JNull" using assms(2) by (simp add: obj_get_def dict_getd_def)
  with assms(1) show ?thesis by (simp add: file_delete_def holds_def objects_lookup as_dict_def bind_result_def)
qed

text \<open>
  \<^verbatim>\<open>_write\<close> opens the file for writing, which truncates it, and writes afterwards. A process that stops in between leaves the empty file, which the next
  start reads as an empty storage, without an error.
\<close>

lemma truncated_file_reads_empty: "file_items jmsg (Some []) ns = Inr []" "fck_load jmsg (Some []) a = Inr []"
  by (simp_all add: file_items_def fck_load_def file_data_def file_read_def as_dict_def bind_result_def strip_def rstrip_chars_def lstrip_chars_def dict_getd_def)

end
