(* ===== verification/Databases.thy ===== *)
theory Databases
  imports Errors Json_Text
begin

section \<open>The databases behind the stores\<close>

text \<open>
  What the stores use of \<^verbatim>\<open>aiosqlite\<close> and of \<^verbatim>\<open>motor\<close>, as arguments of their models: a connection that executes
  statements given by their text, and a collection of documents. The state of a database is of an arbitrary type. A call may raise; it returns the
  exception or its result together with the state the database is in afterwards. What the stores rely on is stated by predicates over a reading
  of that state, for a database that raises nothing: \<open>connection_laws\<close> and \<open>writes\<close> say what a transaction of SQLite keeps and what a statement does to
  the table, \<open>mongo_laws\<close> what the operations do to the documents by their \<^verbatim>\<open>_id\<close>. A concrete database of each kind shows that the laws can hold.
\<close>

definition then_do :: "('e + 'a) \<times> 's \<Rightarrow> ('a \<Rightarrow> 's \<Rightarrow> ('e + 'b) \<times> 's) \<Rightarrow> ('e + 'b) \<times> 's" where
  \<comment> \<open>the statements after a call that may raise\<close>
  "then_do r f = (case r of (Inl e, s) \<Rightarrow> (Inl e, s) | (Inr x, s) \<Rightarrow> f x s)"

lemma then_do_simps [simp]: "then_do (Inl e, s) f = (Inl e, s)" "then_do (Inr x, s) f = f x s"
  by (simp_all add: then_do_def)

fun run_history :: "('op \<Rightarrow> 's \<Rightarrow> ('e + unit) \<times> 's) \<Rightarrow> 'op list \<Rightarrow> 's \<Rightarrow> ('e + unit) \<times> 's" where
  \<comment> \<open>operations one after the other, up to the first that raises\<close>
  "run_history step [] s = (Inr (), s)"
| "run_history step (op # ops) s = then_do (step op s) (\<lambda>_. run_history step ops)"

lemma run_history_sim:
  \<comment> \<open>simulation of a history by the same history of a reference\<close>
  assumes step: "\<And>op s m. sim s m \<Longrightarrow> allowed op \<Longrightarrow> \<exists>s'. step op s = (Inr (), s') \<and> sim s' (ref op m)"
    and "sim s m" and "\<forall>op \<in> set ops. allowed op"
  shows "\<exists>s'. run_history step ops s = (Inr (), s') \<and> sim s' (fold ref ops m)"
  using assms(2,3)
proof (induction ops arbitrary: s m)
  case (Cons op ops)
  from step [OF Cons.prems(1), of op] Cons.prems(2) obtain s' where s': "step op s = (Inr (), s')" "sim s' (ref op m)" by auto
  from Cons.IH [OF s'(2)] Cons.prems(2) s'(1) show ?case by simp
qed simp

lemma graph_dict:
  \<comment> \<open>a comprehension over the pairs of a function, in any order\<close>
  assumes "set ps = {(k, v). f k = Some v}"
  shows "dict_ok (dict_update [] ps) \<and> map_of (dict_update [] ps) = f"
proof -
  have "map_of (rev ps) k = f k" for k
  proof (cases "f k")
    case None
    then have "k \<notin> fst ` set (rev ps)" using assms by auto
    then show ?thesis using None by (simp add: map_of_eq_None_iff)
  next
    case (Some v)
    then have "(k, v) \<in> set (rev ps)" using assms by simp
    then have "map_of (rev ps) k \<noteq> None" by (simp add: map_of_eq_None_iff image_iff) force
    then obtain w where w: "map_of (rev ps) k = Some w" by blast
    then have "(k, w) \<in> set ps" by (auto dest: map_of_SomeD)
    then have "f k = Some w" using assms by simp
    then show ?thesis using w by simp
  qed
  then show ?thesis by (auto simp: map_of_dict_update fun_eq_iff dict_ok_def [of "[]"] split: option.splits)
qed

lemma collect_pairs:
  assumes xs: "set xs = {h k v |k v. f k = Some v}" and g: "\<And>k v. f k = Some v \<Longrightarrow> g (h k v) = Inr (k, v)"
  shows "\<exists>d. map_ok (dict_update []) (map_result g xs) = Inr d \<and> dict_ok d \<and> map_of d = f"
proof -
  have "g x = Inr (projr (g x))" if x: "x \<in> set xs" for x
  proof -
    obtain k v where "x = h k v" "f k = Some v" using x xs by blast
    then show ?thesis using g by simp
  qed
  then have all: "map_result g xs = Inr (map (\<lambda>x. projr (g x)) xs)" by (rule map_result_all)
  have "set (map (\<lambda>x. projr (g x)) xs) = (\<lambda>x. projr (g x)) ` {h k v |k v. f k = Some v}" by (simp add: xs)
  also have "\<dots> = {projr (g (h k v)) |k v. f k = Some v}" by blast
  also have "\<dots> = {(k, v). f k = Some v}" using g by force
  finally have "set (map (\<lambda>x. projr (g x)) xs) = {(k, v). f k = Some v}" .
  from graph_dict [OF this] all show ?thesis by (simp add: map_ok_def bind_result_def)
qed

subsection \<open>SQLite\<close>

datatype sql_value = SqlNull | SqlReal pyfloat | SqlText string

record 'd sqlite =
  sql_connect :: "string \<Rightarrow> 'd \<Rightarrow> (exn + unit) \<times> 'd"
  sql_execute :: "string \<Rightarrow> sql_value list \<Rightarrow> 'd \<Rightarrow> (exn + unit) \<times> 'd"
  sql_select :: "string \<Rightarrow> sql_value list \<Rightarrow> 'd \<Rightarrow> exn + sql_value list list"
  sql_commit :: "'d \<Rightarrow> (exn + unit) \<times> 'd"
  sql_close :: "'d \<Rightarrow> (exn + unit) \<times> 'd"

record 'd sq_store =
  sq_path :: string
  sq_conn :: bool     \<comment> \<open>\<open>_conn\<close> is not \<open>None\<close>\<close>
  sq_db :: 'd

definition on_db :: "('d \<Rightarrow> (exn + unit) \<times> 'd) \<Rightarrow> 'd sq_store \<Rightarrow> (exn + unit) \<times> 'd sq_store" where
  "on_db f s = (case f (sq_db s) of (r, d) \<Rightarrow> (r, s\<lparr>sq_db := d\<rparr>))"

definition sq_init :: "string \<Rightarrow> 'd \<Rightarrow> 'd sq_store" where
  "sq_init path d = \<lparr>sq_path = path, sq_conn = False, sq_db = d\<rparr>"

definition sq_new :: "bool \<Rightarrow> string \<Rightarrow> 'd \<Rightarrow> exn + 'd sq_store" where
  \<comment> \<open>the constructors; \<open>installed\<close>: the import of aiosqlite succeeded\<close>
  "sq_new installed path d =
     (if \<not> installed then Inl (Py (RuntimeError ''aiosqlite is not installed; pip install aiosqlite'')) else Inr (sq_init path d))"

definition sq_get_conn :: "'d sqlite \<Rightarrow> string \<Rightarrow> 'd sq_store \<Rightarrow> (exn + unit) \<times> 'd sq_store" where
  \<comment> \<open>\<open>_get\<close>: the connection is kept before the schema is executed\<close>
  "sq_get_conn sql schema s =
     (if sq_conn s then (Inr (), s)
      else then_do (on_db (sql_connect sql (sq_path s)) s) (\<lambda>_ s.
           then_do (on_db (sql_execute sql schema []) (s\<lparr>sq_conn := True\<rparr>)) (\<lambda>_ s.
           on_db (sql_commit sql) s)))"

definition sq_write :: "'d sqlite \<Rightarrow> string \<Rightarrow> string \<Rightarrow> sql_value list \<Rightarrow> 'd sq_store \<Rightarrow> (exn + unit) \<times> 'd sq_store" where
  \<comment> \<open>connect, execute, commit\<close>
  "sq_write sql schema stmt params s =
     then_do (sq_get_conn sql schema s) (\<lambda>_ s.
     then_do (on_db (sql_execute sql stmt params) s) (\<lambda>_ s.
     on_db (sql_commit sql) s))"

definition sq_read :: "'d sqlite \<Rightarrow> string \<Rightarrow> string \<Rightarrow> sql_value list \<Rightarrow> 'd sq_store \<Rightarrow> (exn + sql_value list list) \<times> 'd sq_store" where
  "sq_read sql schema stmt params s =
     then_do (sq_get_conn sql schema s) (\<lambda>_ s. (sql_select sql stmt params (sq_db s), s))"

definition sq_close :: "'d sqlite \<Rightarrow> 'd sq_store \<Rightarrow> (exn + unit) \<times> 'd sq_store" where
  "sq_close sql s =
     (if sq_conn s then then_do (on_db (sql_close sql) s) (\<lambda>_ s. (Inr (), s\<lparr>sq_conn := False\<rparr>)) else (Inr (), s))"

definition text_col :: "sql_value \<Rightarrow> exn + string" where
  \<comment> \<open>a column that the stores only ever fill with text\<close>
  "text_col v = (case v of SqlText s \<Rightarrow> Inr s | _ \<Rightarrow> Inl (Py (TypeError ''not a text column'')))"

definition loads_col :: "(string \<Rightarrow> string) \<Rightarrow> sql_value \<Rightarrow> exn + json" where
  \<comment> \<open>\<open>json.loads\<close> of a column\<close>
  "loads_col jmsg v = bind_result (text_col v) (\<lambda>t.
     case json_loads t of None \<Rightarrow> Inl (OtherException ''JSONDecodeError'' (jmsg t)) | Some j \<Rightarrow> Inr j)"

type_synonym sql_table = "sql_value list \<Rightarrow> sql_value list option"   \<comment> \<open>primary key to the other columns\<close>

definition connection_laws :: "'d sqlite \<Rightarrow> ('d \<Rightarrow> sql_table) \<Rightarrow> ('d \<Rightarrow> sql_table) \<Rightarrow> string \<Rightarrow> bool" where
  \<comment> \<open>\<open>live\<close> is the table the connection sees, \<open>kept\<close> the committed one in the file; a table that was never created is empty, and
     the schema creates it only if it does not exist\<close>
  "connection_laws sql live kept schema \<longleftrightarrow>
     (\<forall>p d. \<exists>d'. sql_connect sql p d = (Inr (), d') \<and> live d' = kept d \<and> kept d' = kept d) \<and>
     (\<forall>d. \<exists>d'. sql_execute sql schema [] d = (Inr (), d') \<and> live d' = live d \<and> kept d' = kept d) \<and>
     (\<forall>d. \<exists>d'. sql_commit sql d = (Inr (), d') \<and> live d' = live d \<and> kept d' = live d) \<and>
     (\<forall>d. \<exists>d'. sql_close sql d = (Inr (), d') \<and> kept d' = kept d)"

definition writes :: "'d sqlite \<Rightarrow> ('d \<Rightarrow> sql_table) \<Rightarrow> ('d \<Rightarrow> sql_table) \<Rightarrow> string \<Rightarrow> sql_value list \<Rightarrow> (sql_table \<Rightarrow> sql_table) \<Rightarrow> bool" where
  \<comment> \<open>the statement changes the table this way, and only commit makes the change last\<close>
  "writes sql live kept stmt params f \<longleftrightarrow>
     (\<forall>d. \<exists>d'. sql_execute sql stmt params d = (Inr (), d') \<and> live d' = f (live d) \<and> kept d' = kept d)"

definition committed :: "('d \<Rightarrow> sql_table) \<Rightarrow> ('d \<Rightarrow> sql_table) \<Rightarrow> 'd sq_store \<Rightarrow> sql_table \<Rightarrow> bool" where
  "committed live kept s t \<longleftrightarrow> kept (sq_db s) = t \<and> (sq_conn s \<longrightarrow> live (sq_db s) = t)"

lemma connected:
  assumes laws: "connection_laws sql live kept schema" and "committed live kept s t"
  obtains s' where "sq_get_conn sql schema s = (Inr (), s')" "sq_conn s'" "committed live kept s' t"
proof (cases "sq_conn s")
  case True
  show ?thesis by (rule that [of s]) (use assms(2) True in \<open>simp_all add: sq_get_conn_def\<close>)
next
  case False
  obtain d1 where d1: "sql_connect sql (sq_path s) (sq_db s) = (Inr (), d1)" "live d1 = kept (sq_db s)"
    using laws unfolding connection_laws_def by blast
  obtain d2 where d2: "sql_execute sql schema [] d1 = (Inr (), d2)" "live d2 = live d1"
    using laws unfolding connection_laws_def by blast
  obtain d3 where d3: "sql_commit sql d2 = (Inr (), d3)" "live d3 = live d2" "kept d3 = live d2"
    using laws unfolding connection_laws_def by blast
  show ?thesis
    by (rule that [of "s\<lparr>sq_conn := True, sq_db := d3\<rparr>"])
      (use assms(2) False d1 d2 d3 in \<open>simp_all add: sq_get_conn_def on_db_def committed_def\<close>)
qed

lemma sq_write_ok:
  assumes laws: "connection_laws sql live kept schema" and "committed live kept s t" and w: "writes sql live kept stmt params f"
  shows "\<exists>s'. sq_write sql schema stmt params s = (Inr (), s') \<and> committed live kept s' (f t)"
proof -
  obtain s1 where s1: "sq_get_conn sql schema s = (Inr (), s1)" "sq_conn s1" "committed live kept s1 t"
    by (rule connected [OF assms(1,2)])
  obtain d2 where d2: "sql_execute sql stmt params (sq_db s1) = (Inr (), d2)" "live d2 = f (live (sq_db s1))"
    using w unfolding writes_def by blast
  obtain d3 where d3: "sql_commit sql d2 = (Inr (), d3)" "live d3 = live d2" "kept d3 = live d2"
    using laws unfolding connection_laws_def by blast
  show ?thesis using s1 d2 d3 by (simp add: sq_write_def on_db_def committed_def)
qed

lemma sq_read_ok:
  assumes "connection_laws sql live kept schema" and "committed live kept s t"
  obtains s' where "sq_read sql schema stmt params s = (sql_select sql stmt params (sq_db s'), s')"
    "live (sq_db s') = t" "committed live kept s' t"
proof -
  obtain s1 where "sq_get_conn sql schema s = (Inr (), s1)" "sq_conn s1" "committed live kept s1 t"
    by (rule connected [OF assms])
  then show ?thesis by (intro that [of s1]) (simp_all add: sq_read_def committed_def)
qed

lemma sq_close_ok:
  assumes laws: "connection_laws sql live kept schema" and "committed live kept s t"
  shows "\<exists>s'. sq_close sql s = (Inr (), s') \<and> committed live kept s' t"
proof -
  obtain d where "sql_close sql (sq_db s) = (Inr (), d)" "kept d = kept (sq_db s)"
    using laws unfolding connection_laws_def by blast
  then show ?thesis using assms(2) by (cases "sq_conn s") (simp_all add: sq_close_def on_db_def committed_def)
qed

subsection \<open>MongoDB\<close>

datatype bson = BVal json | BDate pyfloat

type_synonym doc = "bson dict"

record 'm mongo_col =
  \<comment> \<open>a cursor hands over documents, and may raise after some of them\<close>
  mg_find_one :: "doc \<Rightarrow> 'm \<Rightarrow> exn + doc option"
  mg_find :: "doc \<Rightarrow> 'm \<Rightarrow> doc list \<times> exn option"
  mg_find_ids :: "doc \<Rightarrow> 'm \<Rightarrow> doc list \<times> exn option"     \<comment> \<open>\<open>find(q, {"_id": 1})\<close>\<close>
  mg_find_sorted :: "doc \<Rightarrow> string \<Rightarrow> int option \<Rightarrow> 'm \<Rightarrow> doc list \<times> exn option"     \<comment> \<open>\<open>find(q).sort(f, 1).limit(n)\<close>\<close>
  mg_replace_one :: "doc \<Rightarrow> doc \<Rightarrow> bool \<Rightarrow> 'm \<Rightarrow> (exn + unit) \<times> 'm"
  mg_update_one :: "doc \<Rightarrow> doc \<Rightarrow> 'm \<Rightarrow> (exn + unit) \<times> 'm"     \<comment> \<open>\<open>update_one(q, {"$set": d})\<close>\<close>
  mg_insert_one :: "doc \<Rightarrow> 'm \<Rightarrow> (exn + unit) \<times> 'm"
  mg_delete_one :: "doc \<Rightarrow> 'm \<Rightarrow> (exn + unit) \<times> 'm"
  mg_delete_many :: "doc \<Rightarrow> 'm \<Rightarrow> (exn + unit) \<times> 'm"

abbreviation by_id :: "string \<Rightarrow> doc" where
  "by_id i \<equiv> [(''_id'', BVal (JStr i))]"

fun bson_fits :: "json \<Rightarrow> bool" where
  \<comment> \<open>integers of at most eight bytes, keys without a zero character\<close>
  "bson_fits (JInt i) = (- (2 ^ 63) \<le> i \<and> i < 2 ^ 63)"
| "bson_fits (JList xs) = (\<forall>x \<in> set xs. bson_fits x)"
| "bson_fits (JObj d) = (dict_ok d \<and> (\<forall>p \<in> set d. CHR 0x00 \<notin> set (fst p) \<and> bson_fits (snd p)))"
| "bson_fits _ = True"

fun bson_ok :: "bson \<Rightarrow> bool" where
  "bson_ok (BVal v) = bson_fits v"
| "bson_ok (BDate t) = True"

fun bson_kept :: "bson \<Rightarrow> bson" where
  \<comment> \<open>what is read back: a date has milliseconds\<close>
  "bson_kept (BVal v) = BVal v"
| "bson_kept (BDate t) = BDate (of_int \<lfloor>t * 1000\<rfloor> / 1000)"

definition doc_ok :: "doc \<Rightarrow> bool" where
  "doc_ok d \<longleftrightarrow> dict_ok d \<and> (\<forall>p \<in> set d. bson_ok (snd p))"

definition doc_kept :: "doc \<Rightarrow> doc" where
  \<comment> \<open>the stored document: \<open>_id\<close> comes first\<close>
  "doc_kept d =
     (let d' = map (\<lambda>p. (fst p, bson_kept (snd p))) d
      in case dict_get d' ''_id'' of None \<Rightarrow> d' | Some i \<Rightarrow> (''_id'', i) # dict_del d' ''_id'')"

definition field_matches :: "bson \<Rightarrow> bson option \<Rightarrow> bool" where
  \<comment> \<open>\<open>{f: v}\<close> and \<open>{f: {"$in": vs}}\<close>\<close>
  "field_matches c v =
     (case c of
        BVal (JObj [(op, JList xs)]) \<Rightarrow> if op = ''$in'' then (\<exists>x \<in> set xs. v = Some (BVal x)) else v = Some c
      | _ \<Rightarrow> v = Some c)"

definition doc_matches :: "doc \<Rightarrow> doc \<Rightarrow> bool" where
  "doc_matches q d \<longleftrightarrow> (\<forall>p \<in> set q. field_matches (snd p) (dict_get d (fst p)))"

definition date_of :: "string \<Rightarrow> doc \<Rightarrow> pyfloat" where
  "date_of f d = (case dict_get d f of Some (BDate t) \<Rightarrow> t | _ \<Rightarrow> 0)"

definition mongo_laws :: "'m mongo_col \<Rightarrow> ('m \<Rightarrow> string \<Rightarrow> doc option) \<Rightarrow> bool" where
  \<comment> \<open>\<open>tab\<close> reads a collection whose documents have a text as \<open>_id\<close>\<close>
  "mongo_laws col tab \<longleftrightarrow>
     (\<forall>m i. mg_find_one col (by_id i) m = Inr (tab m i)) \<and>
     (\<forall>m q. \<exists>ds. mg_find col q m = (ds, None) \<and> distinct ds \<and> set ds = {d \<in> ran (tab m). doc_matches q d}) \<and>
     (\<forall>m. \<exists>is. mg_find_ids col [] m = (map by_id is, None) \<and> distinct is \<and> set is = dom (tab m)) \<and>
     (\<forall>m i d. doc_ok d \<and> dict_get d ''_id'' = Some (BVal (JStr i)) \<longrightarrow>
        (\<exists>m'. mg_replace_one col (by_id i) d True m = (Inr (), m') \<and> tab m' = (tab m)(i \<mapsto> doc_kept d))) \<and>
     (\<forall>m i. \<exists>m'. mg_delete_one col (by_id i) m = (Inr (), m') \<and> tab m' = (tab m)(i := None)) \<and>
     (\<forall>m q. \<exists>m'. mg_delete_many col q m = (Inr (), m') \<and>
        tab m' = (\<lambda>i. case tab m i of None \<Rightarrow> None | Some d \<Rightarrow> if doc_matches q d then None else Some d))"

lemma mongo_law_simps:
  assumes "mongo_laws col tab"
  shows mongo_find_one: "mg_find_one col (by_id i) m = Inr (tab m i)"
    and mongo_find: "\<exists>ds. mg_find col q m = (ds, None) \<and> distinct ds \<and> set ds = {d \<in> ran (tab m). doc_matches q d}"
    and mongo_find_ids: "\<exists>is. mg_find_ids col [] m = (map by_id is, None) \<and> distinct is \<and> set is = dom (tab m)"
    and mongo_replace: "doc_ok d \<Longrightarrow> dict_get d ''_id'' = Some (BVal (JStr i)) \<Longrightarrow>
      \<exists>m'. mg_replace_one col (by_id i) d True m = (Inr (), m') \<and> tab m' = (tab m)(i \<mapsto> doc_kept d)"
    and mongo_delete: "\<exists>m'. mg_delete_one col (by_id i) m = (Inr (), m') \<and> tab m' = (tab m)(i := None)"
    and mongo_delete_many: "\<exists>m'. mg_delete_many col q m = (Inr (), m') \<and>
      tab m' = (\<lambda>i. case tab m i of None \<Rightarrow> None | Some d \<Rightarrow> if doc_matches q d then None else Some d)"
  using assms unfolding mongo_laws_def by blast+

subsection \<open>Databases that keep the laws\<close>

type_synonym table_rows = "(sql_value list \<times> sql_value list) list"

definition list_sqlite ::
  "(string \<Rightarrow> sql_value list \<Rightarrow> table_rows \<Rightarrow> table_rows) \<Rightarrow> (string \<Rightarrow> sql_value list \<Rightarrow> table_rows \<Rightarrow> sql_value list list)
     \<Rightarrow> (table_rows \<times> table_rows) sqlite" where
  \<comment> \<open>what the connection sees and what is committed, as lists of rows\<close>
  "list_sqlite ex sel =
     \<lparr>sql_connect = \<lambda>p d. (Inr (), (snd d, snd d)), sql_execute = \<lambda>stmt ps d. (Inr (), (ex stmt ps (fst d), snd d)),
      sql_select = \<lambda>stmt ps d. Inr (sel stmt ps (fst d)), sql_commit = \<lambda>d. (Inr (), (fst d, fst d)), sql_close = \<lambda>d. (Inr (), d)\<rparr>"

abbreviation rows_live :: "table_rows \<times> table_rows \<Rightarrow> sql_table" where
  "rows_live d \<equiv> map_of (fst d)"

abbreviation rows_kept :: "table_rows \<times> table_rows \<Rightarrow> sql_table" where
  "rows_kept d \<equiv> map_of (snd d)"

lemma list_sqlite_laws:
  "(\<And>t. ex schema [] t = t) \<Longrightarrow> connection_laws (list_sqlite ex sel) rows_live rows_kept schema"
  "(\<And>t. map_of (ex stmt ps t) = f (map_of t)) \<Longrightarrow> writes (list_sqlite ex sel) rows_live rows_kept stmt ps f"
  "sql_select (list_sqlite ex sel) stmt ps d = Inr (sel stmt ps (fst d))"
  by (simp_all add: connection_laws_def writes_def list_sqlite_def)

definition list_find :: "doc \<Rightarrow> doc dict \<Rightarrow> doc list" where
  "list_find q m = filter (doc_matches q) (remdups (map (\<lambda>i. the (map_of m i)) (remdups (map fst m))))"

definition list_mongo :: "doc dict mongo_col" where
  "list_mongo =
     \<lparr>mg_find_one = \<lambda>q m. Inr (case q of [(_, BVal (JStr i))] \<Rightarrow> dict_get m i | _ \<Rightarrow> None),
      mg_find = \<lambda>q m. (list_find q m, None), mg_find_ids = \<lambda>q m. (map by_id (remdups (map fst m)), None),
      mg_find_sorted = \<lambda>q f n m. (let ds = sort_key (date_of f) (list_find q m)
         in case n of Some i \<Rightarrow> if i = 0 then ds else take (nat \<bar>i\<bar>) ds | None \<Rightarrow> ds, None),
      mg_replace_one = \<lambda>q d up m. (Inr (), case q of [(_, BVal (JStr i))] \<Rightarrow> dict_set m i (doc_kept d) | _ \<Rightarrow> m),
      mg_update_one = \<lambda>q d m. (Inr (), case q of [(_, BVal (JStr i))] \<Rightarrow>
         (case dict_get m i of None \<Rightarrow> m | Some e \<Rightarrow> dict_set m i (doc_kept (dict_update e d))) | _ \<Rightarrow> m),
      mg_insert_one = \<lambda>d m. (Inr (), m @ [([], doc_kept d)]),
      mg_delete_one = \<lambda>q m. (Inr (), case q of [(_, BVal (JStr i))] \<Rightarrow> dict_del m i | _ \<Rightarrow> m),
      mg_delete_many = \<lambda>q m. (Inr (), fold (\<lambda>i m. case dict_get m i of Some d \<Rightarrow> if doc_matches q d then dict_del m i else m | None \<Rightarrow> m) (map fst m) m)\<rparr>"

lemma list_find_set: "distinct (list_find q m) \<and> set (list_find q m) = {d \<in> ran (map_of m). doc_matches q d}"
proof -
  have "(\<lambda>i. the (map_of m i)) ` fst ` set m = ran (map_of m)"
    unfolding dom_map_of_conv_image_fst [symmetric] by (force simp: ran_def dom_def)
  then show ?thesis by (auto simp: list_find_def image_image)
qed

lemma delete_loop:
  "map_of (fold (\<lambda>i m. case dict_get m i of Some d \<Rightarrow> if p d then dict_del m i else m | None \<Rightarrow> m) ks m) k =
     (case map_of m k of None \<Rightarrow> None | Some d \<Rightarrow> if p d \<and> k \<in> set ks then None else Some d)"
proof (induction ks arbitrary: m)
  case (Cons i ks)
  show ?case
    by (auto simp: Cons.IH delete_conv' split: option.splits)
qed (simp split: option.splits)

lemma list_mongo_laws: "mongo_laws list_mongo map_of"
proof -
  have ids: "\<exists>is. map by_id (remdups (map fst m)) = map by_id is \<and> distinct is \<and> set is = dom (map_of m)" for m :: "doc dict"
    by (rule exI [of _ "remdups (map fst m)"]) (simp add: dom_map_of_conv_image_fst)
  have loop: "map_of (fold (\<lambda>i m. case dict_get m i of Some d \<Rightarrow> if doc_matches q d then dict_del m i else m | None \<Rightarrow> m) (map fst m) m) =
      (\<lambda>i. case map_of m i of None \<Rightarrow> None | Some d \<Rightarrow> if doc_matches q d then None else Some d)" for m :: "doc dict" and q
  proof
    fix i
    show "map_of (fold (\<lambda>i m. case dict_get m i of Some d \<Rightarrow> if doc_matches q d then dict_del m i else m | None \<Rightarrow> m) (map fst m) m) i =
      (case map_of m i of None \<Rightarrow> None | Some d \<Rightarrow> if doc_matches q d then None else Some d)"
      unfolding delete_loop by (cases "map_of m i") (auto simp: dom_map_of_conv_image_fst [symmetric])
  qed
  show ?thesis
    unfolding mongo_laws_def using list_find_set ids
    by (simp add: list_mongo_def update_conv' delete_conv' loop)
qed

end
