(* ===== verification/Db_Storage.thy ===== *)
theory Db_Storage
  imports Databases File_Storage
begin

section \<open>State and cookies in a database\<close>

text \<open>
  \<^verbatim>\<open>claude_ai/storage/{kv,cookies}/{sqlite,mongo}.py\<close>: the state and the cookies over SQLite and MongoDB. The statements are the texts of the
  source; the databases are arguments (theory \<open>Databases\<close>), and \<open>sqlite_kv\<close> and \<open>sqlite_cookies\<close> say what those statements do to the
  table they name. Shown: over any history, with the connection closed and opened again anywhere, both backends answer what the memory
  storages answer after the same history. For MongoDB the namespaces must not hold a colon, because the \<^verbatim>\<open>_id\<close> of an entry joins namespace and key by one.
\<close>

definition sql_lines :: "string list \<Rightarrow> string" where
  "sql_lines ls = join [CHR 0x0A] ([] # ls @ [[]])"

subsection \<open>AioSqliteStorage\<close>

definition KV_SCHEMA :: string where
  "KV_SCHEMA = sql_lines
     [''CREATE TABLE IF NOT EXISTS claude_kv ('', ''    namespace TEXT NOT NULL,'', ''    key       TEXT NOT NULL,'', ''    payload   TEXT NOT NULL,'',
      ''    PRIMARY KEY (namespace, key)'', '')'']"

definition KV_GET :: string where
  "KV_GET = ''SELECT payload FROM claude_kv WHERE namespace = ? AND key = ?''"

definition KV_SET :: string where
  "KV_SET = ''INSERT OR REPLACE INTO claude_kv(namespace, key, payload) VALUES(?, ?, ?)''"

definition KV_DELETE :: string where
  "KV_DELETE = ''DELETE FROM claude_kv WHERE namespace = ? AND key = ?''"

definition KV_ITEMS :: string where
  "KV_ITEMS = ''SELECT key, payload FROM claude_kv WHERE namespace = ?''"

definition skv_get :: "(string \<Rightarrow> string) \<Rightarrow> 'd sqlite \<Rightarrow> string \<Rightarrow> string \<Rightarrow> 'd sq_store \<Rightarrow> (exn + json) \<times> 'd sq_store" where
  "skv_get jmsg sql ns k s =
     then_do (sq_read sql KV_SCHEMA KV_GET [SqlText ns, SqlText k] s) (\<lambda>rows s.
       ((case rows of [] \<Rightarrow> Inr JNull | row # _ \<Rightarrow> loads_col jmsg (row ! 0)), s))"

definition skv_set :: "(pyfloat \<Rightarrow> string) \<Rightarrow> 'd sqlite \<Rightarrow> string \<Rightarrow> string \<Rightarrow> json \<Rightarrow> 'd sq_store \<Rightarrow> (exn + unit) \<times> 'd sq_store" where
  "skv_set fr sql ns k v s = sq_write sql KV_SCHEMA KV_SET [SqlText ns, SqlText k, SqlText (json_dumps fr v)] s"

definition skv_delete :: "'d sqlite \<Rightarrow> string \<Rightarrow> string \<Rightarrow> 'd sq_store \<Rightarrow> (exn + unit) \<times> 'd sq_store" where
  "skv_delete sql ns k s = sq_write sql KV_SCHEMA KV_DELETE [SqlText ns, SqlText k] s"

definition rows_dict :: "(string \<Rightarrow> string) \<Rightarrow> sql_value list list \<Rightarrow> exn + json dict" where
  \<comment> \<open>the comprehension \<open>{r[0]: json.loads(r[1]) for r in rows}\<close>\<close>
  "rows_dict jmsg rows = map_ok (dict_update [])
     (map_result (\<lambda>r. bind_result (text_col (r ! 0)) (\<lambda>k. map_ok (\<lambda>v. (k, v)) (loads_col jmsg (r ! 1)))) rows)"

definition skv_items :: "(string \<Rightarrow> string) \<Rightarrow> 'd sqlite \<Rightarrow> string \<Rightarrow> 'd sq_store \<Rightarrow> (exn + json dict) \<times> 'd sq_store" where
  "skv_items jmsg sql ns s = then_do (sq_read sql KV_SCHEMA KV_ITEMS [SqlText ns] s) (\<lambda>rows s. (rows_dict jmsg rows, s))"

definition sqlite_kv :: "'d sqlite \<Rightarrow> ('d \<Rightarrow> sql_table) \<Rightarrow> ('d \<Rightarrow> sql_table) \<Rightarrow> bool" where
  \<comment> \<open>what SQLite does for the statements on \<open>claude_kv\<close>, whose primary key is the namespace and the key\<close>
  "sqlite_kv sql live kept \<longleftrightarrow> connection_laws sql live kept KV_SCHEMA \<and>
     (\<forall>n k p. writes sql live kept KV_SET [n, k, p] (\<lambda>t. t([n, k] \<mapsto> [p]))) \<and>
     (\<forall>n k. writes sql live kept KV_DELETE [n, k] (\<lambda>t. t([n, k] := None))) \<and>
     (\<forall>n k d. sql_select sql KV_GET [n, k] d = Inr (case live d [n, k] of None \<Rightarrow> [] | Some r \<Rightarrow> [r])) \<and>
     (\<forall>n d. \<exists>rows. sql_select sql KV_ITEMS [n] d = Inr rows \<and> set rows = {k # r |k r. live d [n, k] = Some r})"

datatype 'op db_op = DbOp 'op | DbClose

fun db_ref :: "('op \<Rightarrow> 'm \<Rightarrow> 'm) \<Rightarrow> 'op db_op \<Rightarrow> 'm \<Rightarrow> 'm" where
  \<comment> \<open>closing a memory storage changes nothing\<close>
  "db_ref f (DbOp op) m = f op m"
| "db_ref f DbClose m = m"

fun skv_step :: "(pyfloat \<Rightarrow> string) \<Rightarrow> 'd sqlite \<Rightarrow> file_op db_op \<Rightarrow> 'd sq_store \<Rightarrow> (exn + unit) \<times> 'd sq_store" where
  "skv_step fr sql (DbOp (FSet ns k v)) s = skv_set fr sql ns k v s"
| "skv_step fr sql (DbOp (FDelete ns k)) s = skv_delete sql ns k s"
| "skv_step fr sql DbClose s = sq_close sql s"

fun db_storable :: "file_op db_op \<Rightarrow> bool" where
  \<comment> \<open>a value of the state storage without floats\<close>
  "db_storable (DbOp (FSet ns k v)) = plain v"
| "db_storable (DbOp (FDelete ns k)) = True"
| "db_storable DbClose = True"

definition kv_lookup :: "mem_storage \<Rightarrow> string \<Rightarrow> string \<Rightarrow> json option" where
  "kv_lookup m ns k = dict_get (mem_items m ns) k"

definition ns_table :: "('v \<Rightarrow> sql_value list) \<Rightarrow> (string \<Rightarrow> string \<Rightarrow> 'v option) \<Rightarrow> sql_table" where
  \<comment> \<open>the table that holds one row for every namespace and key with a value\<close>
  "ns_table row lk key = (case key of [SqlText ns, SqlText k] \<Rightarrow> map_option row (lk ns k) | _ \<Rightarrow> None)"

abbreviation kv_table :: "(pyfloat \<Rightarrow> string) \<Rightarrow> mem_storage \<Rightarrow> sql_table" where
  "kv_table fr m \<equiv> ns_table (\<lambda>v. [SqlText (json_dumps fr v)]) (kv_lookup m)"

lemma ns_table_upd:
  assumes "\<And>ns' k'. lk' ns' k' = (if ns' = ns \<and> k' = k then x else lk ns' k')"
  shows "ns_table row lk' = (ns_table row lk)([SqlText ns, SqlText k] := map_option row x)"
  by (auto simp: ns_table_def assms fun_eq_iff split: list.splits sql_value.splits)

lemma ns_table_cases:
  "ns_table row lk [SqlText ns, k] = Some r \<longleftrightarrow> (\<exists>k' v. k = SqlText k' \<and> r = row v \<and> lk ns k' = Some v)"
  by (cases k) (auto simp: ns_table_def)

definition kv_plain :: "mem_storage \<Rightarrow> bool" where
  "kv_plain m \<longleftrightarrow> (\<forall>ns k v. kv_lookup m ns k = Some v \<longrightarrow> plain v)"

lemma kv_lookup_step:
  "kv_lookup (mem_set m ns k v) ns' k' = (if ns' = ns \<and> k' = k then Some v else kv_lookup m ns' k')"
  "kv_lookup (mem_delete m ns k) ns' k' = (if ns' = ns \<and> k' = k then None else kv_lookup m ns' k')"
  by (auto simp: kv_lookup_def mem_items_def mem_set_def mem_delete_def dict_getd_def update_conv' delete_conv' split: option.splits)

lemma kv_lookup_get: "mem_get m ns k = (case kv_lookup m ns k of None \<Rightarrow> JNull | Some v \<Rightarrow> v)"
  by (simp add: kv_lookup_def mem_get_def mem_items_def obj_get_def dict_getd_def)

lemma kv_plain_step: "kv_plain m \<Longrightarrow> db_storable op \<Longrightarrow> kv_plain (db_ref mem_step op m)"
  by (cases op rule: db_storable.cases) (auto simp: kv_plain_def kv_lookup_step split: if_splits)

lemma kv_empty: "kv_table fr [] = Map.empty" "kv_plain []"
  by (auto simp: ns_table_def kv_plain_def kv_lookup_def mem_items_def dict_getd_def fun_eq_iff split: list.splits sql_value.splits)

definition skv_sim :: "(pyfloat \<Rightarrow> string) \<Rightarrow> ('d \<Rightarrow> sql_table) \<Rightarrow> ('d \<Rightarrow> sql_table) \<Rightarrow> 'd sq_store \<Rightarrow> mem_storage \<Rightarrow> bool" where
  "skv_sim fr live kept s m \<longleftrightarrow> committed live kept s (kv_table fr m) \<and> kv_plain m"

lemma skv_step_sim:
  assumes laws: "sqlite_kv sql live kept" and sim: "skv_sim fr live kept s m" and ok: "db_storable op"
  shows "\<exists>s'. skv_step fr sql op s = (Inr (), s') \<and> skv_sim fr live kept s' (db_ref mem_step op m)"
proof -
  have conn: "connection_laws sql live kept KV_SCHEMA" using laws by (simp add: sqlite_kv_def)
  have com: "committed live kept s (kv_table fr m)" and pl: "kv_plain m" using sim by (simp_all add: skv_sim_def)
  have "\<exists>s'. skv_step fr sql op s = (Inr (), s') \<and> committed live kept s' (kv_table fr (db_ref mem_step op m))"
  proof (cases op rule: db_storable.cases)
    case (1 ns k v)
    have "writes sql live kept KV_SET [SqlText ns, SqlText k, SqlText (json_dumps fr v)]
        (\<lambda>t. t([SqlText ns, SqlText k] \<mapsto> [SqlText (json_dumps fr v)]))" using laws by (simp add: sqlite_kv_def)
    from sq_write_ok [OF conn com this] show ?thesis using 1 by (simp add: skv_set_def ns_table_upd [OF kv_lookup_step(1)])
  next
    case (2 ns k)
    have "writes sql live kept KV_DELETE [SqlText ns, SqlText k] (\<lambda>t. t([SqlText ns, SqlText k] := None))"
      using laws by (simp add: sqlite_kv_def)
    from sq_write_ok [OF conn com this] show ?thesis using 2 by (simp add: skv_delete_def ns_table_upd [OF kv_lookup_step(2)])
  next
    case 3
    from sq_close_ok [OF conn com] show ?thesis using 3 by simp
  qed
  then show ?thesis using kv_plain_step [OF pl ok] by (auto simp: skv_sim_def)
qed

lemma loads_dumped: "plain v \<Longrightarrow> loads_col jmsg (SqlText (json_dumps fr v)) = Inr v"
  by (simp add: loads_col_def text_col_def bind_result_def json_roundtrip)

lemma skv_get_sim:
  assumes laws: "sqlite_kv sql live kept" and sim: "skv_sim fr live kept s m"
  shows "fst (skv_get jmsg sql ns k s) = Inr (mem_get m ns k)"
proof -
  have conn: "connection_laws sql live kept KV_SCHEMA" using laws by (simp add: sqlite_kv_def)
  have com: "committed live kept s (kv_table fr m)" and pl: "kv_plain m" using sim by (simp_all add: skv_sim_def)
  obtain s' where s': "sq_read sql KV_SCHEMA KV_GET [SqlText ns, SqlText k] s = (sql_select sql KV_GET [SqlText ns, SqlText k] (sq_db s'), s')"
    "live (sq_db s') = kv_table fr m" by (rule sq_read_ok [OF conn com])
  have "sql_select sql KV_GET [SqlText ns, SqlText k] (sq_db s') = Inr (case kv_table fr m [SqlText ns, SqlText k] of None \<Rightarrow> [] | Some r \<Rightarrow> [r])"
    using laws s'(2) by (simp add: sqlite_kv_def)
  with s' pl show ?thesis
    by (auto simp: skv_get_def kv_lookup_get ns_table_def kv_plain_def loads_dumped split: option.splits)
qed

lemma rows_dict_ok:
  assumes rows: "set rows = {[SqlText k, SqlText (json_dumps fr v)] |k v. f k = Some v}" and "\<And>k v. f k = Some v \<Longrightarrow> plain v"
  shows "\<exists>d. rows_dict jmsg rows = Inr d \<and> dict_ok d \<and> map_of d = f"
  unfolding rows_dict_def
  by (rule collect_pairs [OF rows]) (simp add: assms(2) text_col_def bind_result_def map_ok_def loads_dumped)

lemma skv_items_sim:
  assumes laws: "sqlite_kv sql live kept" and sim: "skv_sim fr live kept s m"
  shows "\<exists>d. fst (skv_items jmsg sql ns s) = Inr d \<and> dict_ok d \<and> map_of d = map_of (mem_items m ns)"
proof -
  have conn: "connection_laws sql live kept KV_SCHEMA" using laws by (simp add: sqlite_kv_def)
  have com: "committed live kept s (kv_table fr m)" and pl: "kv_plain m" using sim by (simp_all add: skv_sim_def)
  obtain s' where s': "sq_read sql KV_SCHEMA KV_ITEMS [SqlText ns] s = (sql_select sql KV_ITEMS [SqlText ns] (sq_db s'), s')"
    "live (sq_db s') = kv_table fr m" by (rule sq_read_ok [OF conn com])
  have "\<exists>rows. sql_select sql KV_ITEMS [SqlText ns] (sq_db s') = Inr rows \<and>
      set rows = {k # r |k r. live (sq_db s') [SqlText ns, k] = Some r}" using laws by (simp add: sqlite_kv_def)
  then obtain rows where rows: "sql_select sql KV_ITEMS [SqlText ns] (sq_db s') = Inr rows"
      "set rows = {k # r |k r. kv_table fr m [SqlText ns, k] = Some r}" using s'(2) by auto
  have "\<exists>d. rows_dict jmsg rows = Inr d \<and> dict_ok d \<and> map_of d = kv_lookup m ns"
  proof (rule rows_dict_ok)
    show "set rows = {[SqlText k, SqlText (json_dumps fr v)] |k v. kv_lookup m ns k = Some v}" unfolding rows(2) ns_table_cases by blast
    show "plain v" if "kv_lookup m ns k = Some v" for k v using that pl by (simp add: kv_plain_def)
  qed
  then show ?thesis using s' rows(1) by (simp add: skv_items_def kv_lookup_def [abs_def])
qed

subsection \<open>MongoStorage\<close>

definition mongo_collection :: "bool \<Rightarrow> (string \<Rightarrow> 'm) \<Rightarrow> 'm option \<Rightarrow> string option \<Rightarrow> exn + 'm" where
  \<comment> \<open>the constructors: a collection, or the one of a client for the uri, when motor is installed\<close>
  "mongo_collection motor connect collection uri =
     (case collection of
        Some m \<Rightarrow> Inr m
      | None \<Rightarrow>
          if \<not> motor then Inl (Py (RuntimeError ''motor is not installed; pip install motor''))
          else (case uri of None \<Rightarrow> Inl (Py (ValueError ''Either collection or uri must be provided'')) | Some u \<Rightarrow> Inr (connect u)))"

definition doc_value :: "doc \<Rightarrow> string \<Rightarrow> json" where
  \<comment> \<open>\<open>doc.get(f)\<close> of a field these classes never fill with a date\<close>
  "doc_value d f = (case dict_get d f of Some (BVal v) \<Rightarrow> v | _ \<Rightarrow> JNull)"

definition mkv_id :: "string \<Rightarrow> string \<Rightarrow> string" where
  "mkv_id ns k = ns @ '':'' @ k"

definition mkv_doc :: "string \<Rightarrow> string \<Rightarrow> json \<Rightarrow> doc" where
  "mkv_doc ns k v =
     [(''_id'', BVal (JStr (mkv_id ns k))), (''namespace'', BVal (JStr ns)), (''key'', BVal (JStr k)), (''value'', BVal v)]"

definition mkv_get :: "'m mongo_col \<Rightarrow> string \<Rightarrow> string \<Rightarrow> 'm \<Rightarrow> exn + json" where
  "mkv_get col ns k m = map_ok (\<lambda>d. case d of None \<Rightarrow> JNull | Some d \<Rightarrow> if d = [] then JNull else doc_value d ''value'') (mg_find_one col (by_id (mkv_id ns k)) m)"

definition mkv_set :: "'m mongo_col \<Rightarrow> string \<Rightarrow> string \<Rightarrow> json \<Rightarrow> 'm \<Rightarrow> (exn + unit) \<times> 'm" where
  "mkv_set col ns k v m = mg_replace_one col (by_id (mkv_id ns k)) (mkv_doc ns k v) True m"

definition mkv_delete :: "'m mongo_col \<Rightarrow> string \<Rightarrow> string \<Rightarrow> 'm \<Rightarrow> (exn + unit) \<times> 'm" where
  "mkv_delete col ns k m = mg_delete_one col (by_id (mkv_id ns k)) m"

definition cursor_all :: "(doc \<Rightarrow> exn + 'a) \<Rightarrow> doc list \<times> exn option \<Rightarrow> exn + 'a list" where
  \<comment> \<open>an \<open>async for\<close> that collects: what the body raises, or what the cursor raises at its end\<close>
  "cursor_all f c = (case c of (ds, e) \<Rightarrow> bind_result (map_result f ds) (\<lambda>xs. case e of None \<Rightarrow> Inr xs | Some e \<Rightarrow> Inl e))"

definition doc_key :: "string \<Rightarrow> doc \<Rightarrow> exn + string" where
  \<comment> \<open>\<open>doc[f]\<close> of a field that holds a string\<close>
  "doc_key f d =
     (case dict_get d f of None \<Rightarrow> Inl (Py (KeyError f)) | Some (BVal (JStr k)) \<Rightarrow> Inr k | _ \<Rightarrow> Inl (Py (TypeError ''not a string'')))"

definition mkv_items :: "'m mongo_col \<Rightarrow> string \<Rightarrow> 'm \<Rightarrow> exn + json dict" where
  "mkv_items col ns m =
     map_ok (dict_update []) (cursor_all (\<lambda>d. map_ok (\<lambda>k. (k, doc_value d ''value'')) (doc_key ''key'' d))
       (mg_find col [(''namespace'', BVal (JStr ns))] m))"

fun mkv_step :: "'m mongo_col \<Rightarrow> file_op \<Rightarrow> 'm \<Rightarrow> (exn + unit) \<times> 'm" where
  "mkv_step col (FSet ns k v) m = mkv_set col ns k v m"
| "mkv_step col (FDelete ns k) m = mkv_delete col ns k m"

fun mongo_storable :: "file_op \<Rightarrow> bool" where
  \<comment> \<open>a namespace without a colon, a value of BSON\<close>
  "mongo_storable (FSet ns k v) = (CHR '':'' \<notin> set ns \<and> bson_fits v)"
| "mongo_storable (FDelete ns k) = (CHR '':'' \<notin> set ns)"

definition id_table :: "(string \<Rightarrow> string \<Rightarrow> 'v \<Rightarrow> doc) \<Rightarrow> (string \<Rightarrow> string \<Rightarrow> 'v option) \<Rightarrow> string \<Rightarrow> doc option" where
  \<comment> \<open>the collection that holds one document for every namespace without a colon and key with a value\<close>
  "id_table mk lk i =
     (case partition_char (CHR '':'') i of
        (ns, True, k) \<Rightarrow> map_option (mk ns k) (lk ns k)
      | _ \<Rightarrow> None)"

abbreviation mkv_table :: "mem_storage \<Rightarrow> string \<Rightarrow> doc option" where
  "mkv_table s \<equiv> id_table mkv_doc (kv_lookup s)"

lemma mkv_id_split: "CHR '':'' \<notin> set ns \<Longrightarrow> partition_char (CHR '':'') (mkv_id ns k) = (ns, True, k)"
  by (simp add: partition_char_sep mkv_id_def)

lemma mkv_id_of: "partition_char (CHR '':'') i = (ns, True, k) \<Longrightarrow> i = mkv_id ns k \<and> CHR '':'' \<notin> set ns"
  by (simp add: partition_char_sep mkv_id_def)

lemma mkv_id_inj: "CHR '':'' \<notin> set ns \<Longrightarrow> CHR '':'' \<notin> set ns' \<Longrightarrow> mkv_id ns k = mkv_id ns' k' \<longleftrightarrow> ns = ns' \<and> k = k'"
  by (metis mkv_id_split prod.inject)

lemma id_table_cases:
  "id_table mk lk i = Some d \<longleftrightarrow> (\<exists>ns k v. i = mkv_id ns k \<and> CHR '':'' \<notin> set ns \<and> d = mk ns k v \<and> lk ns k = Some v)"
proof -
  obtain ns b k where p: "partition_char (CHR '':'') i = (ns, b, k)" by (cases "partition_char (CHR '':'') i") auto
  show ?thesis
  proof (cases b)
    case True
    then show ?thesis using p mkv_id_of [of i ns k] by (auto simp: id_table_def mkv_id_inj)
  next
    case False
    then have "\<nexists>ns k. i = mkv_id ns k \<and> CHR '':'' \<notin> set ns" using p mkv_id_split by auto
    then show ?thesis using p False by (auto simp: id_table_def)
  qed
qed

lemma id_table_at: "CHR '':'' \<notin> set ns \<Longrightarrow> id_table mk lk (mkv_id ns k) = map_option (mk ns k) (lk ns k)"
  by (simp add: id_table_def mkv_id_split)

lemma id_table_upd:
  assumes upd: "\<And>ns' k'. lk' ns' k' = (if ns' = ns \<and> k' = k then x else lk ns' k')" and ns: "CHR '':'' \<notin> set ns"
  shows "id_table mk lk' = (id_table mk lk)(mkv_id ns k := map_option (mk ns k) x)"
proof
  fix i
  show "id_table mk lk' i = ((id_table mk lk)(mkv_id ns k := map_option (mk ns k) x)) i"
  proof (cases "i = mkv_id ns k")
    case False
    then have "(ns', k') \<noteq> (ns, k)" if "partition_char (CHR '':'') i = (ns', True, k')" for ns' k'
      using mkv_id_of [OF that] by auto
    then show ?thesis using False by (auto simp: id_table_def upd split: prod.splits bool.splits)
  qed (simp add: id_table_at ns upd)
qed

lemma id_table_ns:
  \<comment> \<open>what a query for one namespace finds\<close>
  assumes "CHR '':'' \<notin> set ns" and "\<And>ns' k v. doc_matches [(''namespace'', BVal (JStr ns))] (mk ns' k v) \<longleftrightarrow> ns' = ns"
  shows "{d \<in> ran (id_table mk lk). doc_matches [(''namespace'', BVal (JStr ns))] d} = {mk ns k v |k v. lk ns k = Some v}"
  unfolding ran_def id_table_cases using assms by (auto, blast)

lemma mkv_doc_kept: "doc_kept (mkv_doc ns k v) = mkv_doc ns k v" "bson_fits v \<Longrightarrow> doc_ok (mkv_doc ns k v)"
  by (simp_all add: doc_kept_def mkv_doc_def doc_ok_def dict_ok_def)

lemma mkv_step_sim:
  assumes laws: "mongo_laws col tab" and "tab m = mkv_table s" and "mongo_storable op"
  shows "\<exists>m'. mkv_step col op m = (Inr (), m') \<and> tab m' = mkv_table (mem_step op s)"
proof (cases op)
  case (FSet ns k v)
  have "dict_get (mkv_doc ns k v) ''_id'' = Some (BVal (JStr (mkv_id ns k)))" by (simp add: mkv_doc_def)
  from mongo_replace [OF laws _ this, where m = m] FSet assms show ?thesis by (simp add: mkv_set_def id_table_upd [OF kv_lookup_step(1)] mkv_doc_kept)
next
  case (FDelete ns k)
  with mongo_delete [OF laws, of "mkv_id ns k" m] assms show ?thesis by (simp add: mkv_delete_def id_table_upd [OF kv_lookup_step(2)])
qed

lemma mkv_get_sim:
  assumes "mongo_laws col tab" and "tab m = mkv_table s" and "CHR '':'' \<notin> set ns"
  shows "mkv_get col ns k m = Inr (mem_get s ns k)"
  using assms by (auto simp: mkv_get_def mongo_find_one map_ok_def bind_result_def id_table_at kv_lookup_get mkv_doc_def doc_value_def split: option.splits)

lemma mkv_items_sim:
  assumes laws: "mongo_laws col tab" and tab: "tab m = mkv_table s" and "CHR '':'' \<notin> set ns"
  shows "\<exists>d. mkv_items col ns m = Inr d \<and> dict_ok d \<and> map_of d = map_of (mem_items s ns)"
proof -
  let ?q = "[(''namespace'', BVal (JStr ns))]" and ?g = "\<lambda>d. map_ok (\<lambda>k. (k, doc_value d ''value'')) (doc_key ''key'' d)"
  obtain ds where ds: "mg_find col ?q m = (ds, None)" "set ds = {d \<in> ran (tab m). doc_matches ?q d}"
    using mongo_find [OF laws, of ?q m] by blast
  have field: "doc_matches ?q (mkv_doc ns' k v) \<longleftrightarrow> ns' = ns" for ns' k v
    by (simp add: doc_matches_def field_matches_def mkv_doc_def)
  have docs: "set ds = {mkv_doc ns k v |k v. kv_lookup s ns k = Some v}"
    unfolding ds(2) tab by (rule id_table_ns [OF assms(3) field])
  have "\<exists>d. map_ok (dict_update []) (map_result ?g ds) = Inr d \<and> dict_ok d \<and> map_of d = kv_lookup s ns"
    by (rule collect_pairs [OF docs]) (simp add: map_ok_def bind_result_def doc_key_def doc_value_def mkv_doc_def)
  then show ?thesis using ds(1) by (simp add: mkv_items_def cursor_all_def map_ok_def bind_result_def kv_lookup_def [abs_def] split: sum.splits)
qed

subsection \<open>AioSqliteCookieStorage\<close>

definition COOKIES_SCHEMA :: string where
  "COOKIES_SCHEMA = sql_lines
     [''CREATE TABLE IF NOT EXISTS claude_cookies ('', ''    account_id TEXT PRIMARY KEY,'', ''    payload    TEXT NOT NULL'', '')'']"

definition COOKIES_LOAD :: string where
  "COOKIES_LOAD = ''SELECT payload FROM claude_cookies WHERE account_id = ?''"

definition COOKIES_SAVE :: string where
  "COOKIES_SAVE = ''INSERT OR REPLACE INTO claude_cookies(account_id, payload) VALUES(?, ?)''"

definition COOKIES_DELETE :: string where
  "COOKIES_DELETE = ''DELETE FROM claude_cookies WHERE account_id = ?''"

definition COOKIES_LIST :: string where
  "COOKIES_LIST = ''SELECT account_id FROM claude_cookies''"

definition sck_load :: "(string \<Rightarrow> string) \<Rightarrow> 'd sqlite \<Rightarrow> string \<Rightarrow> 'd sq_store \<Rightarrow> (exn + json dict) \<times> 'd sq_store" where
  \<comment> \<open>a payload that is no object was not written by this class\<close>
  "sck_load jmsg sql a s =
     then_do (sq_read sql COOKIES_SCHEMA COOKIES_LOAD [SqlText a] s) (\<lambda>rows s.
       ((case rows of [] \<Rightarrow> Inr [] | row # _ \<Rightarrow> bind_result (loads_col jmsg (row ! 0)) as_dict), s))"

definition sck_save :: "(pyfloat \<Rightarrow> string) \<Rightarrow> 'd sqlite \<Rightarrow> string \<Rightarrow> json dict \<Rightarrow> 'd sq_store \<Rightarrow> (exn + unit) \<times> 'd sq_store" where
  "sck_save fr sql a c s = sq_write sql COOKIES_SCHEMA COOKIES_SAVE [SqlText a, SqlText (json_dumps fr (JObj c))] s"

definition sck_update ::
  "(pyfloat \<Rightarrow> string) \<Rightarrow> (string \<Rightarrow> string) \<Rightarrow> 'd sqlite \<Rightarrow> string \<Rightarrow> json dict \<Rightarrow> 'd sq_store \<Rightarrow> (exn + unit) \<times> 'd sq_store" where
  "sck_update fr jmsg sql a c s = then_do (sck_load jmsg sql a s) (\<lambda>existing. sck_save fr sql a (dict_update existing c))"

definition sck_delete :: "'d sqlite \<Rightarrow> string \<Rightarrow> 'd sq_store \<Rightarrow> (exn + unit) \<times> 'd sq_store" where
  "sck_delete sql a s = sq_write sql COOKIES_SCHEMA COOKIES_DELETE [SqlText a] s"

definition sck_list_accounts :: "'d sqlite \<Rightarrow> 'd sq_store \<Rightarrow> (exn + string list) \<times> 'd sq_store" where
  "sck_list_accounts sql s =
     then_do (sq_read sql COOKIES_SCHEMA COOKIES_LIST [] s) (\<lambda>rows s. (map_result (\<lambda>r. text_col (r ! 0)) rows, s))"

definition sqlite_cookies :: "'d sqlite \<Rightarrow> ('d \<Rightarrow> sql_table) \<Rightarrow> ('d \<Rightarrow> sql_table) \<Rightarrow> bool" where
  "sqlite_cookies sql live kept \<longleftrightarrow> connection_laws sql live kept COOKIES_SCHEMA \<and>
     (\<forall>a p. writes sql live kept COOKIES_SAVE [a, p] (\<lambda>t. t([a] \<mapsto> [p]))) \<and>
     (\<forall>a. writes sql live kept COOKIES_DELETE [a] (\<lambda>t. t([a] := None))) \<and>
     (\<forall>a d. sql_select sql COOKIES_LOAD [a] d = Inr (case live d [a] of None \<Rightarrow> [] | Some r \<Rightarrow> [r])) \<and>
     (\<forall>d. \<exists>rows. sql_select sql COOKIES_LIST [] d = Inr rows \<and> distinct rows \<and> set rows = {k \<in> dom (live d). length k = 1})"

fun sck_step :: "(pyfloat \<Rightarrow> string) \<Rightarrow> (string \<Rightarrow> string) \<Rightarrow> 'd sqlite \<Rightarrow> cookie_op db_op \<Rightarrow> 'd sq_store \<Rightarrow> (exn + unit) \<times> 'd sq_store" where
  "sck_step fr jmsg sql (DbOp (CSave a c)) s = sck_save fr sql a (str_values c) s"
| "sck_step fr jmsg sql (DbOp (CUpdate a c)) s = sck_update fr jmsg sql a (str_values c) s"
| "sck_step fr jmsg sql (DbOp (CDelete a)) s = sck_delete sql a s"
| "sck_step fr jmsg sql DbClose s = sq_close sql s"

fun db_jar_ok :: "cookie_op db_op \<Rightarrow> bool" where
  "db_jar_ok (DbOp op) = jar_ok op"
| "db_jar_ok DbClose = True"

definition jar_table :: "(pyfloat \<Rightarrow> string) \<Rightarrow> mem_cookies \<Rightarrow> sql_table" where
  "jar_table fr m key =
     (case key of [SqlText a] \<Rightarrow> map_option (\<lambda>c. [SqlText (json_dumps fr (JObj (str_values c)))]) (dict_get m a) | _ \<Rightarrow> None)"

definition jars_ok :: "mem_cookies \<Rightarrow> bool" where
  "jars_ok m \<longleftrightarrow> dict_ok m \<and> (\<forall>a. dict_ok (mck_load m a))"

lemma jars_ok_step: "jars_ok m \<Longrightarrow> jar_ok op \<Longrightarrow> jars_ok (mck_step op m)"
  by (cases op) (auto simp: jars_ok_def mck_save_def mck_update_def mck_delete_def mck_load_def dict_getd_def update_conv' delete_conv')

lemma jar_table_set: "jar_table fr (dict_set m a c) = (jar_table fr m)([SqlText a] \<mapsto> [SqlText (json_dumps fr (JObj (str_values c)))])"
  by (auto simp: jar_table_def update_conv' fun_eq_iff split: list.splits sql_value.splits)

lemma jar_table_del: "jar_table fr (dict_del m a) = (jar_table fr m)([SqlText a] := None)"
  by (auto simp: jar_table_def delete_conv' fun_eq_iff split: list.splits sql_value.splits)

lemma jar_plain: "dict_ok c \<Longrightarrow> plain (JObj (str_values c))"
  by (auto simp: dict_ok_def case_prod_unfold comp_def)

lemma jar_table_dom: "dom (jar_table fr m) = (\<lambda>a. [SqlText a]) ` set (mck_list_accounts m)"
proof -
  have "jar_table fr m k \<noteq> None \<longleftrightarrow> (\<exists>a. k = [SqlText a] \<and> dict_get m a \<noteq> None)" for k
    by (auto simp: jar_table_def split: list.splits sql_value.splits)
  moreover have "dict_get m a \<noteq> None \<longleftrightarrow> a \<in> set (mck_list_accounts m)" for a
    by (simp add: mck_list_accounts_def map_of_eq_None_iff)
  ultimately show ?thesis unfolding dom_def image_def by simp blast
qed

definition sck_sim :: "(pyfloat \<Rightarrow> string) \<Rightarrow> ('d \<Rightarrow> sql_table) \<Rightarrow> ('d \<Rightarrow> sql_table) \<Rightarrow> 'd sq_store \<Rightarrow> mem_cookies \<Rightarrow> bool" where
  "sck_sim fr live kept s m \<longleftrightarrow> committed live kept s (jar_table fr m) \<and> jars_ok m"

lemma sck_load_sim:
  assumes laws: "sqlite_cookies sql live kept" and sim: "sck_sim fr live kept s m"
  shows "\<exists>s'. sck_load jmsg sql a s = (Inr (str_values (mck_load m a)), s') \<and> sck_sim fr live kept s' m"
proof -
  have conn: "connection_laws sql live kept COOKIES_SCHEMA" using laws by (simp add: sqlite_cookies_def)
  have com: "committed live kept s (jar_table fr m)" and ok: "jars_ok m" using sim by (simp_all add: sck_sim_def)
  obtain s' where s': "sq_read sql COOKIES_SCHEMA COOKIES_LOAD [SqlText a] s = (sql_select sql COOKIES_LOAD [SqlText a] (sq_db s'), s')"
    "live (sq_db s') = jar_table fr m" "committed live kept s' (jar_table fr m)" by (rule sq_read_ok [OF conn com])
  have sel: "sql_select sql COOKIES_LOAD [SqlText a] (sq_db s') = Inr (case jar_table fr m [SqlText a] of None \<Rightarrow> [] | Some r \<Rightarrow> [r])"
    using laws s'(2) by (simp add: sqlite_cookies_def)
  have dumped: "loads_col jmsg (SqlText (json_dumps fr (JObj (str_values c)))) = Inr (JObj (str_values c))" if "dict_get m a = Some c" for c
    using ok that by (intro loads_dumped jar_plain) (auto simp: jars_ok_def mck_load_def dict_getd_def dest: spec [of _ a])
  show ?thesis
    using s' sel ok by (cases "dict_get m a")
      (simp_all add: sck_load_def sck_sim_def jar_table_def mck_load_def dict_getd_def dumped as_dict_def bind_result_def del: json_dumps.simps)
qed

lemma sck_save_sim:
  assumes laws: "sqlite_cookies sql live kept" and sim: "sck_sim fr live kept s m" and ok: "jar_ok (CSave a c)"
  shows "\<exists>s'. sck_save fr sql a (str_values c) s = (Inr (), s') \<and> sck_sim fr live kept s' (mck_save m a c)"
proof -
  have conn: "connection_laws sql live kept COOKIES_SCHEMA" using laws by (simp add: sqlite_cookies_def)
  have com: "committed live kept s (jar_table fr m)" and j: "jars_ok m" using sim by (simp_all add: sck_sim_def)
  have "writes sql live kept COOKIES_SAVE [SqlText a, SqlText (json_dumps fr (JObj (str_values c)))]
      (\<lambda>t. t([SqlText a] \<mapsto> [SqlText (json_dumps fr (JObj (str_values c)))]))" using laws by (simp add: sqlite_cookies_def)
  from sq_write_ok [OF conn com this] jars_ok_step [OF j ok] show ?thesis
    by (simp add: sck_save_def sck_sim_def mck_save_def jar_table_set)
qed

lemma sck_step_sim:
  assumes laws: "sqlite_cookies sql live kept" and sim: "sck_sim fr live kept s m" and ok: "db_jar_ok op"
  shows "\<exists>s'. sck_step fr jmsg sql op s = (Inr (), s') \<and> sck_sim fr live kept s' (db_ref mck_step op m)"
proof (cases op)
  case (DbOp cop)
  show ?thesis
  proof (cases cop)
    case (CSave a c)
    then show ?thesis using sck_save_sim [OF laws sim] ok DbOp by simp
  next
    case (CUpdate a c)
    obtain s1 where s1: "sck_load jmsg sql a s = (Inr (str_values (mck_load m a)), s1)" "sck_sim fr live kept s1 m"
      using sck_load_sim [OF laws sim] by blast
    have "dict_ok (mck_load m a)" using sim by (simp add: sck_sim_def jars_ok_def)
    then have "jar_ok (CSave a (dict_update (mck_load m a) c))" by simp
    from sck_save_sim [OF laws s1(2) this] show ?thesis
      using DbOp CUpdate s1(1) by (simp add: sck_update_def str_values_update mck_save_def mck_update_def mck_load_def)
  next
    case (CDelete a)
    have conn: "connection_laws sql live kept COOKIES_SCHEMA" using laws by (simp add: sqlite_cookies_def)
    have com: "committed live kept s (jar_table fr m)" and j: "jars_ok m" using sim by (simp_all add: sck_sim_def)
    have "writes sql live kept COOKIES_DELETE [SqlText a] (\<lambda>t. t([SqlText a] := None))" using laws by (simp add: sqlite_cookies_def)
    from sq_write_ok [OF conn com this] jars_ok_step [OF j, of cop] show ?thesis
      using DbOp CDelete by (simp add: sck_delete_def sck_sim_def mck_delete_def jar_table_del)
  qed
next
  case DbClose
  have "connection_laws sql live kept COOKIES_SCHEMA" using laws by (simp add: sqlite_cookies_def)
  from sq_close_ok [OF this] sim show ?thesis using DbClose by (simp add: sck_sim_def)
qed

lemma sck_list_sim:
  assumes laws: "sqlite_cookies sql live kept" and sim: "sck_sim fr live kept s m"
  shows "\<exists>as. fst (sck_list_accounts sql s) = Inr as \<and> distinct as \<and> set as = set (mck_list_accounts m)"
proof -
  have conn: "connection_laws sql live kept COOKIES_SCHEMA" using laws by (simp add: sqlite_cookies_def)
  have com: "committed live kept s (jar_table fr m)" using sim by (simp add: sck_sim_def)
  obtain s' where s': "sq_read sql COOKIES_SCHEMA COOKIES_LIST [] s = (sql_select sql COOKIES_LIST [] (sq_db s'), s')"
    "live (sq_db s') = jar_table fr m" by (rule sq_read_ok [OF conn com])
  have "\<exists>rows. sql_select sql COOKIES_LIST [] (sq_db s') = Inr rows \<and> distinct rows \<and> set rows = {k \<in> dom (live (sq_db s')). length k = 1}"
    using laws by (simp add: sqlite_cookies_def)
  then obtain rows where rows: "sql_select sql COOKIES_LIST [] (sq_db s') = Inr rows" "distinct rows"
    "set rows = {k \<in> dom (jar_table fr m). length k = 1}" using s'(2) by auto
  have keys: "set rows = (\<lambda>a. [SqlText a]) ` set (mck_list_accounts m)"
    unfolding rows(3) jar_table_dom by auto
  let ?t = "\<lambda>r. projr (text_col (r ! 0))"
  have "map_result (\<lambda>r. text_col (r ! 0)) rows = Inr (map ?t rows)" by (rule map_result_all) (auto simp: keys text_col_def)
  moreover have "inj_on ?t (set rows)" by (auto simp: keys text_col_def inj_on_def)
  moreover have "?t ` set rows = set (mck_list_accounts m)" by (auto simp: keys text_col_def image_iff)
  ultimately show ?thesis using s'(1) rows(1,2) by (simp add: sck_list_accounts_def distinct_map)
qed

subsection \<open>MongoCookieStorage\<close>

definition mgc_load :: "'m mongo_col \<Rightarrow> string \<Rightarrow> 'm \<Rightarrow> exn + json dict" where
  "mgc_load col a m =
     bind_result (mg_find_one col (by_id a) m) (\<lambda>d. case d of
       None \<Rightarrow> Inr []
     | Some d \<Rightarrow> if d = [] then Inr [] else as_dict (if dict_get d ''cookies'' = None then JObj [] else doc_value d ''cookies''))"

definition mgc_doc :: "string \<Rightarrow> json dict \<Rightarrow> doc" where
  "mgc_doc a c = [(''_id'', BVal (JStr a)), (''cookies'', BVal (JObj c))]"

definition mgc_save :: "'m mongo_col \<Rightarrow> string \<Rightarrow> json dict \<Rightarrow> 'm \<Rightarrow> (exn + unit) \<times> 'm" where
  "mgc_save col a c m = mg_replace_one col (by_id a) (mgc_doc a c) True m"

definition mgc_update :: "'m mongo_col \<Rightarrow> string \<Rightarrow> json dict \<Rightarrow> 'm \<Rightarrow> (exn + unit) \<times> 'm" where
  "mgc_update col a c m = then_do (mgc_load col a m, m) (\<lambda>existing. mgc_save col a (dict_update existing c))"

definition mgc_delete :: "'m mongo_col \<Rightarrow> string \<Rightarrow> 'm \<Rightarrow> (exn + unit) \<times> 'm" where
  "mgc_delete col a m = mg_delete_one col (by_id a) m"

definition mgc_list_accounts :: "'m mongo_col \<Rightarrow> 'm \<Rightarrow> exn + string list" where
  "mgc_list_accounts col m = cursor_all (doc_key ''_id'') (mg_find_ids col [] m)"

fun mgc_step :: "'m mongo_col \<Rightarrow> cookie_op \<Rightarrow> 'm \<Rightarrow> (exn + unit) \<times> 'm" where
  "mgc_step col (CSave a c) m = mgc_save col a (str_values c) m"
| "mgc_step col (CUpdate a c) m = mgc_update col a (str_values c) m"
| "mgc_step col (CDelete a) m = mgc_delete col a m"

fun mongo_jar_ok :: "cookie_op \<Rightarrow> bool" where
  \<comment> \<open>a cookie name is a key of the document\<close>
  "mongo_jar_ok (CSave a c) = (dict_ok c \<and> (\<forall>p \<in> set c. CHR 0x00 \<notin> set (fst p)))"
| "mongo_jar_ok (CUpdate a c) = (dict_ok c \<and> (\<forall>p \<in> set c. CHR 0x00 \<notin> set (fst p)))"
| "mongo_jar_ok (CDelete a) = True"

definition bson_jar :: "cookies \<Rightarrow> bool" where
  "bson_jar c \<longleftrightarrow> dict_ok c \<and> (\<forall>p \<in> set c. CHR 0x00 \<notin> set (fst p))"

definition jar_docs :: "mem_cookies \<Rightarrow> string \<Rightarrow> doc option" where
  "jar_docs s a = map_option (\<lambda>c. mgc_doc a (str_values c)) (dict_get s a)"

definition mgc_sim :: "('m \<Rightarrow> string \<Rightarrow> doc option) \<Rightarrow> 'm \<Rightarrow> mem_cookies \<Rightarrow> bool" where
  "mgc_sim tab m s \<longleftrightarrow> tab m = jar_docs s \<and> (\<forall>a. bson_jar (mck_load s a))"

lemma bson_jar_update: "bson_jar c \<Longrightarrow> bson_jar d \<Longrightarrow> bson_jar (dict_update c d)"
proof -
  have "set (dict_update c d) \<subseteq> set c \<union> set d"
    unfolding dict_update_def using dict_set_subset by (induction d arbitrary: c) fastforce+
  then show "bson_jar c \<Longrightarrow> bson_jar d \<Longrightarrow> bson_jar (dict_update c d)" by (auto simp: bson_jar_def)
qed

lemma mgc_doc_kept: "doc_kept (mgc_doc a c) = mgc_doc a c" "bson_jar j \<Longrightarrow> doc_ok (mgc_doc a (str_values j))"
  by (auto simp: doc_kept_def mgc_doc_def doc_ok_def bson_jar_def dict_ok_def case_prod_unfold comp_def)

lemma mgc_load_sim: "mongo_laws col tab \<Longrightarrow> mgc_sim tab m s \<Longrightarrow> mgc_load col a m = Inr (str_values (mck_load s a))"
  by (auto simp: mgc_load_def mongo_find_one mgc_sim_def jar_docs_def bind_result_def mck_load_def dict_getd_def mgc_doc_def
      doc_value_def as_dict_def split: option.splits)

lemma mgc_save_sim:
  assumes laws: "mongo_laws col tab" and sim: "mgc_sim tab m s" and jar: "bson_jar c"
  shows "\<exists>m'. mgc_save col a (str_values c) m = (Inr (), m') \<and> mgc_sim tab m' (mck_save s a c)"
proof -
  have id: "dict_get (mgc_doc a (str_values c)) ''_id'' = Some (BVal (JStr a))" by (simp add: mgc_doc_def)
  obtain m' where m': "mg_replace_one col (by_id a) (mgc_doc a (str_values c)) True m = (Inr (), m')"
    "tab m' = (tab m)(a \<mapsto> mgc_doc a (str_values c))"
    using mongo_replace [OF laws mgc_doc_kept(2) [OF jar] id, where m = m] by (auto simp: mgc_doc_kept(1))
  have "tab m' = jar_docs (mck_save s a c)" using m'(2) sim
    by (auto simp: mgc_sim_def jar_docs_def mck_save_def update_conv' fun_eq_iff)
  moreover have "bson_jar (mck_load (mck_save s a c) b)" for b
    using sim jar by (auto simp: mgc_sim_def mck_load_def mck_save_def dict_getd_def update_conv' split: if_splits)
  ultimately show ?thesis using m'(1) by (simp add: mgc_save_def mgc_sim_def)
qed

lemma mgc_step_sim:
  assumes laws: "mongo_laws col tab" and sim: "mgc_sim tab m s" and ok: "mongo_jar_ok op"
  shows "\<exists>m'. mgc_step col op m = (Inr (), m') \<and> mgc_sim tab m' (mck_step op s)"
proof (cases op)
  case (CSave a c)
  then show ?thesis using mgc_save_sim [OF laws sim, of c a] ok by (simp add: bson_jar_def)
next
  case (CUpdate a c)
  have "bson_jar (dict_update (mck_load s a) c)" using sim ok CUpdate by (intro bson_jar_update) (simp_all add: mgc_sim_def bson_jar_def)
  from mgc_save_sim [OF laws sim this, of a] CUpdate show ?thesis
    by (simp add: mgc_update_def mgc_load_sim [OF laws sim] str_values_update mck_save_def mck_update_def mck_load_def)
next
  case (CDelete a)
  obtain m' where m': "mg_delete_one col (by_id a) m = (Inr (), m')" "tab m' = (tab m)(a := None)"
    using mongo_delete [OF laws] by blast
  have "tab m' = jar_docs (mck_delete s a)" using m'(2) sim
    by (auto simp: mgc_sim_def jar_docs_def mck_delete_def delete_conv' fun_eq_iff)
  moreover have "bson_jar (mck_load (mck_delete s a) b)" for b
    using sim by (auto simp: mgc_sim_def mck_load_def mck_delete_def dict_getd_def delete_conv' bson_jar_def dict_ok_def)
  ultimately show ?thesis using m'(1) CDelete by (simp add: mgc_delete_def mgc_sim_def)
qed

lemma mgc_list_sim:
  assumes laws: "mongo_laws col tab" and sim: "mgc_sim tab m s"
  shows "\<exists>as. mgc_list_accounts col m = Inr as \<and> distinct as \<and> set as = set (mck_list_accounts s)"
proof -
  obtain ids where ids: "mg_find_ids col [] m = (map by_id ids, None)" "distinct ids" "set ids = dom (tab m)"
    using mongo_find_ids [OF laws] by blast
  have "map_result (doc_key ''_id'') (map by_id ids) = Inr (map (\<lambda>d. projr (doc_key ''_id'' d)) (map by_id ids))"
    by (rule map_result_all) (auto simp: doc_key_def)
  moreover have "map (\<lambda>d. projr (doc_key ''_id'' d)) (map by_id ids) = ids" by (simp add: comp_def doc_key_def)
  ultimately have "mgc_list_accounts col m = Inr ids" using ids(1) by (simp add: mgc_list_accounts_def cursor_all_def bind_result_def)
  moreover have "dom (tab m) = dom (map_of s)" using sim by (auto simp: mgc_sim_def jar_docs_def dom_def)
  then have "dom (tab m) = set (mck_list_accounts s)" by (simp add: dom_map_of_conv_image_fst mck_list_accounts_def)
  ultimately show ?thesis using ids by simp
qed

subsection \<open>Both databases against memory\<close>

lemma db_runs:
  shows skv_run: "sqlite_kv sql live kept \<Longrightarrow> skv_sim fr live kept s m \<Longrightarrow> \<forall>op \<in> set ops. db_storable op \<Longrightarrow>
      \<exists>s'. run_history (skv_step fr sql) ops s = (Inr (), s') \<and> skv_sim fr live kept s' (fold (db_ref mem_step) ops m)"
    and mkv_run: "mongo_laws col tab \<Longrightarrow> tab c = mkv_table m \<Longrightarrow> \<forall>op \<in> set mops. mongo_storable op \<Longrightarrow>
      \<exists>c'. run_history (mkv_step col) mops c = (Inr (), c') \<and> tab c' = mkv_table (fold mem_step mops m)"
    and sck_run: "sqlite_cookies sql live kept \<Longrightarrow> sck_sim fr live kept s j \<Longrightarrow> \<forall>op \<in> set cops. db_jar_ok op \<Longrightarrow>
      \<exists>s'. run_history (sck_step fr jmsg sql) cops s = (Inr (), s') \<and> sck_sim fr live kept s' (fold (db_ref mck_step) cops j)"
    and mgc_run: "mongo_laws col tab \<Longrightarrow> mgc_sim tab c j \<Longrightarrow> \<forall>op \<in> set jops. mongo_jar_ok op \<Longrightarrow>
      \<exists>c'. run_history (mgc_step col) jops c = (Inr (), c') \<and> mgc_sim tab c' (fold mck_step jops j)"
proof -
  show "sqlite_kv sql live kept \<Longrightarrow> skv_sim fr live kept s m \<Longrightarrow> \<forall>op \<in> set ops. db_storable op \<Longrightarrow>
      \<exists>s'. run_history (skv_step fr sql) ops s = (Inr (), s') \<and> skv_sim fr live kept s' (fold (db_ref mem_step) ops m)"
    by (rule run_history_sim [where allowed = db_storable]) (rule skv_step_sim)
  show "mongo_laws col tab \<Longrightarrow> tab c = mkv_table m \<Longrightarrow> \<forall>op \<in> set mops. mongo_storable op \<Longrightarrow>
      \<exists>c'. run_history (mkv_step col) mops c = (Inr (), c') \<and> tab c' = mkv_table (fold mem_step mops m)"
    by (rule run_history_sim [where allowed = mongo_storable and sim = "\<lambda>c m. tab c = mkv_table m"]) (rule mkv_step_sim)
  show "sqlite_cookies sql live kept \<Longrightarrow> sck_sim fr live kept s j \<Longrightarrow> \<forall>op \<in> set cops. db_jar_ok op \<Longrightarrow>
      \<exists>s'. run_history (sck_step fr jmsg sql) cops s = (Inr (), s') \<and> sck_sim fr live kept s' (fold (db_ref mck_step) cops j)"
    by (rule run_history_sim [where allowed = db_jar_ok]) (rule sck_step_sim)
  show "mongo_laws col tab \<Longrightarrow> mgc_sim tab c j \<Longrightarrow> \<forall>op \<in> set jops. mongo_jar_ok op \<Longrightarrow>
      \<exists>c'. run_history (mgc_step col) jops c = (Inr (), c') \<and> mgc_sim tab c' (fold mck_step jops j)"
    by (rule run_history_sim [where allowed = mongo_jar_ok]) (rule mgc_step_sim)
qed

text \<open>
  C25. The databases refine the memory storages. From an empty database, every history of writes and deletions is carried out without an exception, with the SQLite
  connection closed and opened again at any place, and afterwards every value, every namespace, every jar and the set of the accounts are
  what the memory storages hold after the same history. The values must be free of floats (SQLite keeps their text) or fit BSON (MongoDB), and for
  MongoDB no namespace may hold a colon.
\<close>

theorem db_storages_refine_memory:
  assumes "sqlite_kv sql live kept" and "sqlite_cookies sqlc livec keptc" and "mongo_laws col tab"
    and "kept d0 = Map.empty" and "keptc c0 = Map.empty" and "tab m0 = Map.empty"
    and "\<forall>op \<in> set ops. db_storable op" and "\<forall>op \<in> set cops. db_jar_ok op"
    and "\<forall>op \<in> set mops. mongo_storable op" and "\<forall>op \<in> set jops. mongo_jar_ok op" and "CHR '':'' \<notin> set ns"
  shows "(\<exists>s. run_history (skv_step fr sql) ops (sq_init path d0) = (Inr (), s) \<and>
      fst (skv_get jmsg sql n k s) = Inr (mem_get (fold (db_ref mem_step) ops []) n k) \<and>
      (\<exists>d. fst (skv_items jmsg sql n s) = Inr d \<and> dict_ok d \<and> map_of d = map_of (mem_items (fold (db_ref mem_step) ops []) n))) \<and>
    (\<exists>m. run_history (mkv_step col) mops m0 = (Inr (), m) \<and> mkv_get col ns k m = Inr (mem_get (fold mem_step mops []) ns k) \<and>
      (\<exists>d. mkv_items col ns m = Inr d \<and> dict_ok d \<and> map_of d = map_of (mem_items (fold mem_step mops []) ns))) \<and>
    (\<exists>s. run_history (sck_step fr jmsg sqlc) cops (sq_init path c0) = (Inr (), s) \<and>
      fst (sck_load jmsg sqlc a s) = Inr (str_values (mck_load (fold (db_ref mck_step) cops []) a)) \<and>
      (\<exists>as. fst (sck_list_accounts sqlc s) = Inr as \<and> distinct as \<and> set as = set (mck_list_accounts (fold (db_ref mck_step) cops [])))) \<and>
    (\<exists>m. run_history (mgc_step col) jops m0 = (Inr (), m) \<and> mgc_load col a m = Inr (str_values (mck_load (fold mck_step jops []) a)) \<and>
      (\<exists>as. mgc_list_accounts col m = Inr as \<and> distinct as \<and> set as = set (mck_list_accounts (fold mck_step jops []))))"
proof (intro conjI)
  have "skv_sim fr live kept (sq_init path d0) []" using assms(4) kv_empty by (simp add: skv_sim_def committed_def sq_init_def)
  from skv_run [OF assms(1) this assms(7)]
  show "\<exists>s. run_history (skv_step fr sql) ops (sq_init path d0) = (Inr (), s) \<and>
      fst (skv_get jmsg sql n k s) = Inr (mem_get (fold (db_ref mem_step) ops []) n k) \<and>
      (\<exists>d. fst (skv_items jmsg sql n s) = Inr d \<and> dict_ok d \<and> map_of d = map_of (mem_items (fold (db_ref mem_step) ops []) n))"
    using skv_get_sim [OF assms(1)] skv_items_sim [OF assms(1)] by blast
  have "tab m0 = mkv_table []"
    using assms(6) by (auto simp: id_table_def kv_lookup_def mem_items_def dict_getd_def fun_eq_iff split: prod.splits bool.splits)
  from mkv_run [OF assms(3) this assms(9)]
  show "\<exists>m. run_history (mkv_step col) mops m0 = (Inr (), m) \<and> mkv_get col ns k m = Inr (mem_get (fold mem_step mops []) ns k) \<and>
      (\<exists>d. mkv_items col ns m = Inr d \<and> dict_ok d \<and> map_of d = map_of (mem_items (fold mem_step mops []) ns))"
    using mkv_get_sim [OF assms(3) _ assms(11)] mkv_items_sim [OF assms(3) _ assms(11)] by blast
  have "sck_sim fr livec keptc (sq_init path c0) []"
    using assms(5) by (auto simp: sck_sim_def committed_def sq_init_def jar_table_def jars_ok_def mck_load_def dict_getd_def dict_ok_def fun_eq_iff
        split: list.splits sql_value.splits)
  from sck_run [OF assms(2) this assms(8)]
  show "\<exists>s. run_history (sck_step fr jmsg sqlc) cops (sq_init path c0) = (Inr (), s) \<and>
      fst (sck_load jmsg sqlc a s) = Inr (str_values (mck_load (fold (db_ref mck_step) cops []) a)) \<and>
      (\<exists>as. fst (sck_list_accounts sqlc s) = Inr as \<and> distinct as \<and> set as = set (mck_list_accounts (fold (db_ref mck_step) cops [])))"
    using sck_load_sim [OF assms(2), where jmsg = jmsg] sck_list_sim [OF assms(2)] by (metis fst_conv)
  have "mgc_sim tab m0 []"
    using assms(6) by (auto simp: mgc_sim_def jar_docs_def bson_jar_def mck_load_def dict_getd_def dict_ok_def)
  from mgc_run [OF assms(3) this assms(10)]
  show "\<exists>m. run_history (mgc_step col) jops m0 = (Inr (), m) \<and> mgc_load col a m = Inr (str_values (mck_load (fold mck_step jops []) a)) \<and>
      (\<exists>as. mgc_list_accounts col m = Inr as \<and> distinct as \<and> set as = set (mck_list_accounts (fold mck_step jops [])))"
    using mgc_load_sim [OF assms(3)] mgc_list_sim [OF assms(3)] by blast
qed

definition demo_exec :: "string \<Rightarrow> sql_value list \<Rightarrow> table_rows \<Rightarrow> table_rows" where
  "demo_exec stmt ps t =
     (if stmt = KV_SET then dict_set t (take 2 ps) (drop 2 ps) else if stmt = COOKIES_SAVE then dict_set t (take 1 ps) (drop 1 ps)
      else if stmt = KV_DELETE \<or> stmt = COOKIES_DELETE then dict_del t ps else t)"

definition demo_select :: "string \<Rightarrow> sql_value list \<Rightarrow> table_rows \<Rightarrow> sql_value list list" where
  "demo_select stmt ps t =
     (if stmt = KV_GET \<or> stmt = COOKIES_LOAD then (case map_of t ps of None \<Rightarrow> [] | Some r \<Rightarrow> [r])
      else if stmt = KV_ITEMS then map (\<lambda>k. k ! 1 # the (map_of t k)) (filter (\<lambda>k. length k = 2 \<and> take 1 k = ps) (remdups (map fst t)))
      else filter (\<lambda>k. length k = 1) (remdups (map fst t)))"

lemma demo_statements:
  "KV_SCHEMA \<notin> {KV_SET, KV_DELETE, COOKIES_SAVE, COOKIES_DELETE}" "COOKIES_SCHEMA \<notin> {KV_SET, KV_DELETE, COOKIES_SAVE, COOKIES_DELETE}"
  "KV_DELETE \<notin> {KV_SET, COOKIES_SAVE}" "COOKIES_DELETE \<notin> {KV_SET, COOKIES_SAVE}" "COOKIES_SAVE \<noteq> KV_SET"
  "KV_ITEMS \<notin> {KV_GET, COOKIES_LOAD}" "COOKIES_LIST \<notin> {KV_GET, COOKIES_LOAD, KV_ITEMS}"
  by code_simp+

lemma demo_kv: "sqlite_kv (list_sqlite demo_exec demo_select) rows_live rows_kept"
proof -
  have items: "set (demo_select KV_ITEMS [n] t) = {k # r |k r. map_of t [n, k] = Some r}" for n and t :: table_rows
  proof -
    have two: "length k = 2 \<and> take (Suc 0) k = [n] \<longleftrightarrow> (\<exists>x. k = [n, x])" for k :: "sql_value list"
      by (cases k; cases "tl k") (auto simp: length_Suc_conv)
    have "set (demo_select KV_ITEMS [n] t) = (\<lambda>k. k ! 1 # the (map_of t k)) ` {k \<in> dom (map_of t). \<exists>x. k = [n, x]}"
      using demo_statements(6) by (auto simp: demo_select_def two dom_map_of_conv_image_fst)
    also have "\<dots> = {k # r |k r. map_of t [n, k] = Some r}" by force
    finally show ?thesis .
  qed
  show ?thesis
    unfolding sqlite_kv_def
    using demo_statements items
    by (auto simp: list_sqlite_laws(3) demo_exec_def update_conv' delete_conv' demo_select_def intro!: list_sqlite_laws(1,2))
qed

lemma demo_cookies: "sqlite_cookies (list_sqlite demo_exec demo_select) rows_live rows_kept"
  unfolding sqlite_cookies_def
  using demo_statements
  by (auto simp: list_sqlite_laws(3) demo_exec_def update_conv' delete_conv' demo_select_def dom_map_of_conv_image_fst intro!: list_sqlite_laws(1,2))

theorem db_storages_refine_memory_witness:
  "(\<exists>s. run_history (skv_step (\<lambda>x. []) (list_sqlite demo_exec demo_select))
        [DbOp (FSet ''affinity'' ''c1'' (JStr ''acc'')), DbClose, DbOp (FDelete ''affinity'' ''c2'')] (sq_init ''state.db'' ([], [])) = (Inr (), s) \<and>
      fst (skv_get (\<lambda>t. []) (list_sqlite demo_exec demo_select) ''affinity'' ''c1'' s) = Inr (JStr ''acc'')) \<and>
   (\<exists>m. run_history (mkv_step list_mongo) [FSet ''affinity'' ''c1'' (JStr ''acc''), FSet ''parking'' ''c1'' (JInt 5)] [] = (Inr (), m) \<and>
      mkv_get list_mongo ''affinity'' ''c1'' m = Inr (JStr ''acc''))"
proof -
  let ?ops = "[DbOp (FSet ''affinity'' ''c1'' (JStr ''acc'')), DbClose, DbOp (FDelete ''affinity'' ''c2'')]"
  let ?mops = "[FSet ''affinity'' ''c1'' (JStr ''acc''), FSet ''parking'' ''c1'' (JInt 5)]"
  have ok: "\<forall>op \<in> set ?ops. db_storable op" "\<forall>op \<in> set ([] :: cookie_op db_op list). db_jar_ok op" "\<forall>op \<in> set ?mops. mongo_storable op"
    "\<forall>op \<in> set ([] :: cookie_op list). mongo_jar_ok op" "CHR '':'' \<notin> set ''affinity''" by simp_all
  have empty: "rows_kept ([], []) = Map.empty" "map_of ([] :: doc dict) = Map.empty" by simp_all
  have ref: "mem_get (fold (db_ref mem_step) ?ops []) ''affinity'' ''c1'' = JStr ''acc''" "mem_get (fold mem_step ?mops []) ''affinity'' ''c1'' = JStr ''acc''"
    by (simp_all add: mem_get_def mem_set_def mem_delete_def obj_get_def dict_getd_def)
  from db_storages_refine_memory [OF demo_kv demo_cookies list_mongo_laws empty(1) empty(1) empty(2) ok,
    where fr = "\<lambda>x. []" and jmsg = "\<lambda>t. []" and path = "''state.db''" and n = "''affinity''" and k = "''c1''" and a = "''acc''"]
  show ?thesis unfolding ref by blast
qed

text \<open>
  The joined \<^verbatim>\<open>_id\<close> of \<^verbatim>\<open>MongoStorage\<close> is not one-to-one: with a colon in a namespace, a write to one entry replaces another one, which disappears from its
  namespace, and a read of the other entry answers the foreign value.
\<close>

lemma mongo_entries_collide:
  assumes laws: "mongo_laws col tab" and "bson_fits v"
  shows "\<exists>m'. mkv_set col (ns @ '':'' @ x) k v m = (Inr (), m') \<and> mkv_get col ns (x @ '':'' @ k) m' = Inr v"
proof -
  have id: "mkv_id ns (x @ '':'' @ k) = mkv_id (ns @ '':'' @ x) k" by (simp add: mkv_id_def)
  have "dict_get (mkv_doc (ns @ '':'' @ x) k v) ''_id'' = Some (BVal (JStr (mkv_id (ns @ '':'' @ x) k)))" by (simp add: mkv_doc_def)
  from mongo_replace [OF laws mkv_doc_kept(2) [OF assms(2)] this, of m] obtain m' where
    m': "mg_replace_one col (by_id (mkv_id (ns @ '':'' @ x) k)) (mkv_doc (ns @ '':'' @ x) k v) True m = (Inr (), m')"
      "tab m' (mkv_id (ns @ '':'' @ x) k) = Some (mkv_doc (ns @ '':'' @ x) k v)" by (auto simp: mkv_doc_kept(1))
  then show ?thesis
    using id by (simp add: mkv_set_def mkv_get_def mongo_find_one [OF laws] map_ok_def bind_result_def doc_value_def mkv_doc_def)
qed

end
