(* ===== verification/Db_Cache.thy ===== *)
theory Db_Cache
  imports Db_Storage Client_Laws
begin

section \<open>The response cache in a database\<close>

text \<open>
  \<^verbatim>\<open>claude_ai/storage/cache/{sqlite,mongo}.py\<close>: the cache over SQLite and MongoDB, with the databases of theory \<open>Databases\<close> as arguments. An expired entry
  is deleted by the read that meets it. The clock is an argument of each operation. Shown: after any history of reads, writes, deletions and clears, a read
  answers what the memory cache answers after the same history at the same times.
\<close>

fun cache_ns :: "cache_namespace \<Rightarrow> string" where
  \<comment> \<open>the values of \<open>CacheNamespace\<close>, through \<open>_ns\<close>\<close>
  "cache_ns CONVERSATION = ''conversation''"
| "cache_ns CONVERSATION_LIST = ''conversation_list''"
| "cache_ns MESSAGE = ''message''"
| "cache_ns MESSAGE_LIST = ''message_list''"
| "cache_ns PROJECT = ''project''"
| "cache_ns PROJECT_LIST = ''project_list''"
| "cache_ns PROJECT_DOC = ''project_doc''"
| "cache_ns ORGANIZATION = ''organization''"
| "cache_ns ACCOUNT = ''account''"

lemma cache_ns_inj [simp]: "cache_ns n = cache_ns n' \<longleftrightarrow> n = n'"
  by (cases n; cases n') simp_all

lemma cache_ns_colon [simp]: "CHR '':'' \<notin> set (cache_ns n)"
  by (cases n) simp_all

definition expires_at :: "pyfloat option \<Rightarrow> pyfloat option \<Rightarrow> pyfloat \<Rightarrow> pyfloat option" where
  \<comment> \<open>\<open>effective_ttl\<close> and \<open>expires\<close> of both \<open>set\<close> methods\<close>
  "expires_at default_ttl ttl now =
     (case (case ttl of Some t \<Rightarrow> Some t | None \<Rightarrow> default_ttl) of None \<Rightarrow> None | Some t \<Rightarrow> if t = 0 then None else Some (now + t))"

definition expired :: "pyfloat option \<Rightarrow> pyfloat \<Rightarrow> bool" where
  "expired expires now \<longleftrightarrow> (case expires of None \<Rightarrow> False | Some t \<Rightarrow> t < now)"

subsection \<open>AioSqliteCache\<close>

definition CACHE_SCHEMA :: string where
  "CACHE_SCHEMA = sql_lines
     [''CREATE TABLE IF NOT EXISTS claude_cache ('', ''    namespace TEXT NOT NULL,'', ''    key       TEXT NOT NULL,'', ''    payload   TEXT NOT NULL,'',
      ''    expires   REAL,'', ''    PRIMARY KEY (namespace, key)'', '')'']"

definition CACHE_GET :: string where
  "CACHE_GET = ''SELECT payload, expires FROM claude_cache WHERE namespace=? AND key=?''"

definition CACHE_SET :: string where
  "CACHE_SET = ''INSERT OR REPLACE INTO claude_cache(namespace, key, payload, expires) VALUES(?,?,?,?)''"

definition CACHE_DELETE :: string where
  "CACHE_DELETE = ''DELETE FROM claude_cache WHERE namespace=? AND key=?''"

definition CACHE_CLEAR :: string where
  "CACHE_CLEAR = ''DELETE FROM claude_cache''"

definition CACHE_CLEAR_NS :: string where
  "CACHE_CLEAR_NS = ''DELETE FROM claude_cache WHERE namespace=?''"

definition sca_delete :: "'d sqlite \<Rightarrow> cache_namespace \<Rightarrow> string \<Rightarrow> 'd sq_store \<Rightarrow> (exn + unit) \<times> 'd sq_store" where
  "sca_delete sql ns k s = sq_write sql CACHE_SCHEMA CACHE_DELETE [SqlText (cache_ns ns), SqlText k] s"

definition real_col :: "sql_value \<Rightarrow> pyfloat option" where
  \<comment> \<open>a column that is a number or \<open>NULL\<close>\<close>
  "real_col v = (case v of SqlReal r \<Rightarrow> Some r | _ \<Rightarrow> None)"

definition sca_get ::
  "(string \<Rightarrow> string) \<Rightarrow> 'd sqlite \<Rightarrow> cache_namespace \<Rightarrow> string \<Rightarrow> pyfloat \<Rightarrow> 'd sq_store \<Rightarrow> (exn + json) \<times> 'd sq_store" where
  "sca_get jmsg sql ns k now s =
     then_do (sq_read sql CACHE_SCHEMA CACHE_GET [SqlText (cache_ns ns), SqlText k] s) (\<lambda>rows s.
       case rows of
         [] \<Rightarrow> (Inr JNull, s)
       | row # _ \<Rightarrow>
           if expired (real_col (row ! 1)) now then then_do (sca_delete sql ns k s) (\<lambda>_ s. (Inr JNull, s))
           else (loads_col jmsg (row ! 0), s))"

definition real_value :: "pyfloat option \<Rightarrow> sql_value" where
  "real_value e = (case e of None \<Rightarrow> SqlNull | Some r \<Rightarrow> SqlReal r)"

definition sca_set ::
  "(pyfloat \<Rightarrow> string) \<Rightarrow> pyfloat option \<Rightarrow> 'd sqlite \<Rightarrow> cache_namespace \<Rightarrow> string \<Rightarrow> json \<Rightarrow> pyfloat option \<Rightarrow> pyfloat
     \<Rightarrow> 'd sq_store \<Rightarrow> (exn + unit) \<times> 'd sq_store" where
  "sca_set fr default_ttl sql ns k v ttl now s =
     sq_write sql CACHE_SCHEMA CACHE_SET
       [SqlText (cache_ns ns), SqlText k, SqlText (json_dumps fr v), real_value (expires_at default_ttl ttl now)] s"

definition sca_clear :: "'d sqlite \<Rightarrow> cache_namespace option \<Rightarrow> 'd sq_store \<Rightarrow> (exn + unit) \<times> 'd sq_store" where
  "sca_clear sql ns s =
     (case ns of
        None \<Rightarrow> sq_write sql CACHE_SCHEMA CACHE_CLEAR [] s
      | Some n \<Rightarrow> sq_write sql CACHE_SCHEMA CACHE_CLEAR_NS [SqlText (cache_ns n)] s)"

definition sqlite_cache :: "'d sqlite \<Rightarrow> ('d \<Rightarrow> sql_table) \<Rightarrow> ('d \<Rightarrow> sql_table) \<Rightarrow> bool" where
  "sqlite_cache sql live kept \<longleftrightarrow> connection_laws sql live kept CACHE_SCHEMA \<and>
     (\<forall>n k p e. writes sql live kept CACHE_SET [n, k, p, e] (\<lambda>t. t([n, k] \<mapsto> [p, e]))) \<and>
     (\<forall>n k. writes sql live kept CACHE_DELETE [n, k] (\<lambda>t. t([n, k] := None))) \<and>
     writes sql live kept CACHE_CLEAR [] (\<lambda>t. Map.empty) \<and>
     (\<forall>n. writes sql live kept CACHE_CLEAR_NS [n] (\<lambda>t key. if take 1 key = [n] then None else t key)) \<and>
     (\<forall>n k d. sql_select sql CACHE_GET [n, k] d = Inr (case live d [n, k] of None \<Rightarrow> [] | Some r \<Rightarrow> [r]))"

subsection \<open>MongoCache\<close>

definition mca_doc_id :: "string \<Rightarrow> string \<Rightarrow> string" where
  "mca_doc_id ns k = ns @ '':'' @ k"

definition mca_delete :: "'m mongo_col \<Rightarrow> cache_namespace \<Rightarrow> string \<Rightarrow> 'm \<Rightarrow> (exn + unit) \<times> 'm" where
  "mca_delete col ns k m = mg_delete_one col (by_id (mca_doc_id (cache_ns ns) k)) m"

definition doc_expires :: "doc \<Rightarrow> pyfloat option" where
  \<comment> \<open>\<open>doc.get("expires")\<close>: a number or \<open>None\<close>\<close>
  "doc_expires d = (case doc_value d ''expires'' of JFloat r \<Rightarrow> Some r | JInt i \<Rightarrow> Some (of_int i) | _ \<Rightarrow> None)"

definition mca_get :: "'m mongo_col \<Rightarrow> cache_namespace \<Rightarrow> string \<Rightarrow> pyfloat \<Rightarrow> 'm \<Rightarrow> (exn + json) \<times> 'm" where
  "mca_get col ns k now m =
     then_do (mg_find_one col (by_id (mca_doc_id (cache_ns ns) k)) m, m) (\<lambda>d m.
       case d of
         None \<Rightarrow> (Inr JNull, m)
       | Some d \<Rightarrow>
           if expired (doc_expires d) now then then_do (mca_delete col ns k m) (\<lambda>_ m. (Inr JNull, m))
           else (Inr (doc_value d ''value''), m))"

definition mca_doc :: "string \<Rightarrow> string \<Rightarrow> json \<times> pyfloat option \<Rightarrow> doc" where
  "mca_doc ns k e =
     [(''_id'', BVal (JStr (mca_doc_id ns k))), (''namespace'', BVal (JStr ns)), (''key'', BVal (JStr k)), (''value'', BVal (fst e)),
      (''expires'', BVal (case snd e of None \<Rightarrow> JNull | Some r \<Rightarrow> JFloat r))]"

definition mca_set ::
  "pyfloat option \<Rightarrow> 'm mongo_col \<Rightarrow> cache_namespace \<Rightarrow> string \<Rightarrow> json \<Rightarrow> pyfloat option \<Rightarrow> pyfloat \<Rightarrow> 'm \<Rightarrow> (exn + unit) \<times> 'm" where
  "mca_set default_ttl col ns k v ttl now m =
     mg_replace_one col (by_id (mca_doc_id (cache_ns ns) k)) (mca_doc (cache_ns ns) k (v, expires_at default_ttl ttl now)) True m"

definition mca_clear :: "'m mongo_col \<Rightarrow> cache_namespace option \<Rightarrow> 'm \<Rightarrow> (exn + unit) \<times> 'm" where
  "mca_clear col ns m =
     mg_delete_many col (case ns of None \<Rightarrow> [] | Some n \<Rightarrow> [(''namespace'', BVal (JStr (cache_ns n)))]) m"

subsection \<open>Histories\<close>

datatype cache_op =
    KGet cache_namespace string pyfloat
  | KSet cache_namespace string json "pyfloat option" pyfloat
  | KDelete cache_namespace string
  | KClear "cache_namespace option"

fun mca_step :: "pyfloat option \<Rightarrow> 'm mongo_col \<Rightarrow> cache_op \<Rightarrow> 'm \<Rightarrow> (exn + unit) \<times> 'm" where
  "mca_step dt col (KGet ns k now) m = then_do (mca_get col ns k now m) (\<lambda>_ m. (Inr (), m))"
| "mca_step dt col (KSet ns k v ttl now) m = mca_set dt col ns k v ttl now m"
| "mca_step dt col (KDelete ns k) m = mca_delete col ns k m"
| "mca_step dt col (KClear ns) m = mca_clear col ns m"

fun sca_step :: "(pyfloat \<Rightarrow> string) \<Rightarrow> (string \<Rightarrow> string) \<Rightarrow> pyfloat option \<Rightarrow> 'd sqlite \<Rightarrow> cache_op db_op \<Rightarrow> 'd sq_store \<Rightarrow> (exn + unit) \<times> 'd sq_store" where
  "sca_step fr jmsg dt sql (DbOp (KGet ns k now)) s = then_do (sca_get jmsg sql ns k now s) (\<lambda>_ s. (Inr (), s))"
| "sca_step fr jmsg dt sql (DbOp (KSet ns k v ttl now)) s = sca_set fr dt sql ns k v ttl now s"
| "sca_step fr jmsg dt sql (DbOp (KDelete ns k)) s = sca_delete sql ns k s"
| "sca_step fr jmsg dt sql (DbOp (KClear ns)) s = sca_clear sql ns s"
| "sca_step fr jmsg dt sql DbClose s = sq_close sql s"

fun mc_step :: "cache_op \<Rightarrow> mem_cache \<Rightarrow> mem_cache" where
  "mc_step (KGet ns k now) c = snd (mc_get ns k now c)"
| "mc_step (KSet ns k v ttl now) c = mc_set ns k v ttl now c"
| "mc_step (KDelete ns k) c = mc_delete ns k c"
| "mc_step (KClear ns) c = mc_clear ns c"

fun cache_plain :: "cache_op db_op \<Rightarrow> bool" where
  "cache_plain (DbOp (KSet ns k v ttl now)) = plain v"
| "cache_plain _ = True"

fun cache_fits :: "cache_op \<Rightarrow> bool" where
  "cache_fits (KSet ns k v ttl now) = bson_fits v"
| "cache_fits _ = True"

definition cache_entry :: "mem_cache \<Rightarrow> cache_namespace \<Rightarrow> string \<Rightarrow> (json \<times> pyfloat option) option" where
  "cache_entry c n k = dict_get (dict_getd (mc_data c) n []) k"

lemma cache_entry_set:
  "cache_entry (mc_set n k v ttl now c) n' k' =
     (if n' = n \<and> k' = k then Some (v, expires_at (mc_default_ttl c) ttl now) else cache_entry c n' k')"
  by (auto simp: cache_entry_def mc_set_def Let_def dict_getd_def update_conv' expires_at_def split: option.splits)

lemma cache_entry_delete:
  "cache_entry (mc_delete n k c) n' k' = (if n' = n \<and> k' = k then None else cache_entry c n' k')"
  by (auto simp: cache_entry_def mc_delete_def dict_getd_def update_conv' delete_conv' split: option.splits)

lemma cache_entry_get:
  "cache_entry (snd (mc_get n k now c)) n' k' =
     (if n' = n \<and> k' = k \<and> (\<exists>v e. cache_entry c n k = Some (v, e) \<and> expired e now) then None else cache_entry c n' k')"
  by (auto simp: cache_entry_def mc_get_def Let_def dict_getd_def update_conv' delete_conv' expired_def split: option.splits)

lemma cache_entry_clear: "cache_entry (mc_clear ns c) n' k' = (if ns = None \<or> ns = Some n' then None else cache_entry c n' k')"
  by (auto simp: cache_entry_def mc_clear_def dict_getd_def delete_conv' split: option.splits)

lemma mc_get_entry: "fst (mc_get n k now c) = (case cache_entry c n k of None \<Rightarrow> JNull | Some (v, e) \<Rightarrow> if expired e now then JNull else v)"
  by (auto simp: cache_entry_def mc_get_def Let_def expired_def split: option.splits)

lemma mc_default_step [simp]: "mc_default_ttl (mc_step op c) = mc_default_ttl c"
  by (cases op) (auto simp: mc_get_def mc_set_def mc_delete_def mc_clear_def Let_def split: option.splits)

definition ns_lookup :: "mem_cache \<Rightarrow> string \<Rightarrow> string \<Rightarrow> (json \<times> pyfloat option) option" where
  \<comment> \<open>the entries by the text of the namespace\<close>
  "ns_lookup c s k =
     (case find (\<lambda>n. cache_ns n = s) [CONVERSATION, CONVERSATION_LIST, MESSAGE, MESSAGE_LIST, PROJECT, PROJECT_LIST, PROJECT_DOC, ORGANIZATION, ACCOUNT] of
        None \<Rightarrow> None | Some n \<Rightarrow> cache_entry c n k)"

lemma ns_lookup_at: "ns_lookup c (cache_ns n) k = cache_entry c n k"
  by (cases n) (simp_all add: ns_lookup_def)

lemma ns_lookup_other: "(\<nexists>n. s = cache_ns n) \<Longrightarrow> ns_lookup c s k = None"
proof -
  assume "\<nexists>n. s = cache_ns n"
  then have "find (\<lambda>n. cache_ns n = s) xs = None" for xs by (auto simp: find_None_iff)
  then show ?thesis by (simp only: ns_lookup_def option.case)
qed

lemma ns_lookup_upd:
  assumes "\<And>n' k'. cache_entry c' n' k' = (if n' = n \<and> k' = k then x else cache_entry c n' k')"
  shows "ns_lookup c' s k' = (if s = cache_ns n \<and> k' = k then x else ns_lookup c s k')"
  by (cases "\<exists>n. s = cache_ns n") (auto simp: ns_lookup_at ns_lookup_other assms)

lemma ns_lookup_clear: "ns_lookup (mc_clear ns c) s k = (if ns = None \<or> map_option cache_ns ns = Some s then None else ns_lookup c s k)"
  by (cases "\<exists>n. s = cache_ns n") (auto simp: ns_lookup_at ns_lookup_other cache_entry_clear)

subsection \<open>SQLite against memory\<close>

abbreviation cache_row :: "(pyfloat \<Rightarrow> string) \<Rightarrow> json \<times> pyfloat option \<Rightarrow> sql_value list" where
  "cache_row fr e \<equiv> [SqlText (json_dumps fr (fst e)), real_value (snd e)]"

definition sca_sim ::
  "(pyfloat \<Rightarrow> string) \<Rightarrow> pyfloat option \<Rightarrow> ('d \<Rightarrow> sql_table) \<Rightarrow> ('d \<Rightarrow> sql_table) \<Rightarrow> 'd sq_store \<Rightarrow> mem_cache \<Rightarrow> bool" where
  "sca_sim fr dt live kept s c \<longleftrightarrow> committed live kept s (ns_table (cache_row fr) (ns_lookup c)) \<and>
     (\<forall>n k v e. cache_entry c n k = Some (v, e) \<longrightarrow> plain v) \<and> mc_default_ttl c = dt"

lemma real_col_value [simp]: "real_col (real_value e) = e"
  by (simp add: real_col_def real_value_def split: option.splits)

lemma cache_values_step:
  assumes "\<forall>n k v e. cache_entry c n k = Some (v, e) \<longrightarrow> plain v" and "cache_plain (DbOp op)"
  shows "\<forall>n k v e. cache_entry (mc_step op c) n k = Some (v, e) \<longrightarrow> plain v"
  using assms by (cases op) (auto simp: cache_entry_set cache_entry_delete cache_entry_get cache_entry_clear split: if_splits)

lemma sca_delete_sim:
  assumes laws: "sqlite_cache sql live kept" and sim: "sca_sim fr dt live kept s c"
  shows "\<exists>s'. sca_delete sql n k s = (Inr (), s') \<and> sca_sim fr dt live kept s' (mc_delete n k c)"
proof -
  have conn: "connection_laws sql live kept CACHE_SCHEMA" using laws by (simp add: sqlite_cache_def)
  have com: "committed live kept s (ns_table (cache_row fr) (ns_lookup c))" using sim by (simp add: sca_sim_def)
  have "writes sql live kept CACHE_DELETE [SqlText (cache_ns n), SqlText k] (\<lambda>t. t([SqlText (cache_ns n), SqlText k] := None))"
    using laws by (simp add: sqlite_cache_def)
  note stored = sq_write_ok [OF conn com this]
  have "\<forall>n k v e. cache_entry c n k = Some (v, e) \<longrightarrow> plain v" using sim unfolding sca_sim_def by blast
  from cache_values_step [OF this, of "KDelete n k"]
  have "\<forall>n' k' v e. cache_entry (mc_delete n k c) n' k' = Some (v, e) \<longrightarrow> plain v" unfolding mc_step.simps cache_plain.simps by blast
  moreover have "mc_default_ttl (mc_delete n k c) = dt"
    using sim mc_default_step [of "KDelete n k" c] unfolding mc_step.simps sca_sim_def by blast
  moreover have "ns_table (cache_row fr) (ns_lookup (mc_delete n k c)) = (ns_table (cache_row fr) (ns_lookup c))([SqlText (cache_ns n), SqlText k] := None)"
    using ns_table_upd [OF ns_lookup_upd [OF cache_entry_delete], of "cache_row fr"] by simp
  ultimately show ?thesis using stored unfolding sca_delete_def sca_sim_def by auto
qed

lemma sca_get_sim:
  assumes laws: "sqlite_cache sql live kept" and sim: "sca_sim fr dt live kept s c"
  shows "\<exists>s'. sca_get jmsg sql n k now s = (Inr (fst (mc_get n k now c)), s') \<and> sca_sim fr dt live kept s' (snd (mc_get n k now c))"
proof -
  let ?t = "ns_table (cache_row fr) (ns_lookup c)" and ?ps = "[SqlText (cache_ns n), SqlText k]"
  have conn: "connection_laws sql live kept CACHE_SCHEMA" using laws by (simp add: sqlite_cache_def)
  have com: "committed live kept s ?t" using sim by (simp add: sca_sim_def)
  obtain s' where s': "sq_read sql CACHE_SCHEMA CACHE_GET ?ps s = (sql_select sql CACHE_GET ?ps (sq_db s'), s')"
    "live (sq_db s') = ?t" "committed live kept s' ?t" by (rule sq_read_ok [OF conn com])
  have sim': "sca_sim fr dt live kept s' c" using s'(3) sim by (simp add: sca_sim_def)
  have sel: "sql_select sql CACHE_GET ?ps (sq_db s') = Inr (case cache_entry c n k of None \<Rightarrow> [] | Some e \<Rightarrow> [cache_row fr e])"
    using laws s'(2) by (simp add: sqlite_cache_def ns_table_def ns_lookup_at split: option.splits)
  show ?thesis
  proof (cases "cache_entry c n k")
    case None
    then have "snd (mc_get n k now c) = c" by (auto simp: cache_entry_def mc_get_def)
    then show ?thesis using None s'(1) sel sim' by (simp add: sca_get_def mc_get_entry)
  next
    case (Some e)
    obtain v x where e: "e = (v, x)" by (meson surj_pair)
    have pl: "plain v" using sim Some e by (auto simp: sca_sim_def)
    show ?thesis
    proof (cases "expired x now")
      case True
      have "cache_entry c n k = Some (v, x)" using Some e by simp
      then have "snd (mc_get n k now c) = mc_delete n k c" using True
        by (auto simp: cache_entry_def mc_get_def mc_delete_def Let_def expired_def dict_getd_def split: option.splits)
      then show ?thesis using sca_delete_sim [OF laws sim', of n k] True Some e s'(1) sel by (auto simp: sca_get_def mc_get_entry)
    next
      case False
      then have "snd (mc_get n k now c) = c" using Some e by (auto simp: cache_entry_def mc_get_def Let_def expired_def split: option.splits)
      then show ?thesis using False Some e s'(1) sel sim' by (simp add: sca_get_def mc_get_entry loads_dumped [OF pl])
    qed
  qed
qed

lemma sca_step_sim:
  assumes laws: "sqlite_cache sql live kept" and sim: "sca_sim fr dt live kept s c" and ok: "cache_plain op"
  shows "\<exists>s'. sca_step fr jmsg dt sql op s = (Inr (), s') \<and> sca_sim fr dt live kept s' (db_ref mc_step op c)"
proof -
  have conn: "connection_laws sql live kept CACHE_SCHEMA" using laws by (simp add: sqlite_cache_def)
  have com: "committed live kept s (ns_table (cache_row fr) (ns_lookup c))" using sim by (simp add: sca_sim_def)
  have rest: "(\<forall>n k v e. cache_entry (mc_step op' c) n k = Some (v, e) \<longrightarrow> plain v) \<and> mc_default_ttl (mc_step op' c) = dt" if "op = DbOp op'" for op'
    using cache_values_step [of c op'] sim ok that by (simp add: sca_sim_def)
  show ?thesis
  proof (cases op)
    case (DbOp op')
    show ?thesis
    proof (cases op')
      case (KGet n k now)
      then show ?thesis using sca_get_sim [OF laws sim, of jmsg n k now] DbOp by auto
    next
      case (KSet n k v ttl now)
      have "writes sql live kept CACHE_SET [SqlText (cache_ns n), SqlText k, SqlText (json_dumps fr v), real_value (expires_at dt ttl now)]
          (\<lambda>t. t([SqlText (cache_ns n), SqlText k] \<mapsto> [SqlText (json_dumps fr v), real_value (expires_at dt ttl now)]))"
        using laws by (simp add: sqlite_cache_def)
      from sq_write_ok [OF conn com this] rest [OF DbOp] sim show ?thesis
        using DbOp KSet by (simp add: sca_set_def sca_sim_def ns_table_upd [OF ns_lookup_upd [OF cache_entry_set]])
    next
      case (KDelete n k)
      then show ?thesis using sca_delete_sim [OF laws sim, of n k] DbOp by simp
    next
      case (KClear ns)
      have all: "writes sql live kept CACHE_CLEAR [] (\<lambda>t. Map.empty)"
        "writes sql live kept CACHE_CLEAR_NS [n] (\<lambda>t key. if take 1 key = [n] then None else t key)" for n
        using laws by (simp_all add: sqlite_cache_def)
      have none: "ns_table (cache_row fr) (ns_lookup (mc_clear None c)) = Map.empty"
        by (auto simp: ns_table_def ns_lookup_clear fun_eq_iff split: list.splits sql_value.splits)
      have some: "ns_table (cache_row fr) (ns_lookup (mc_clear (Some n) c)) =
          (\<lambda>key. if take 1 key = [SqlText (cache_ns n)] then None else ns_table (cache_row fr) (ns_lookup c) key)" for n
        by (auto simp: ns_table_def ns_lookup_clear fun_eq_iff split: list.splits sql_value.splits)
      show ?thesis
        using DbOp KClear rest [OF DbOp] sq_write_ok [OF conn com all(1)] sq_write_ok [OF conn com all(2)]
        by (cases ns) (auto simp: sca_clear_def sca_sim_def none some)
    qed
  next
    case DbClose
    then show ?thesis using sq_close_ok [OF conn com] sim by (simp add: sca_sim_def)
  qed
qed

subsection \<open>MongoDB against memory\<close>

definition mca_sim :: "pyfloat option \<Rightarrow> ('m \<Rightarrow> string \<Rightarrow> doc option) \<Rightarrow> 'm \<Rightarrow> mem_cache \<Rightarrow> bool" where
  "mca_sim dt tab m c \<longleftrightarrow> tab m = id_table mca_doc (ns_lookup c) \<and> mc_default_ttl c = dt"

lemma mca_id: "mca_doc_id ns k = mkv_id ns k"
  by (simp add: mca_doc_id_def mkv_id_def)

lemma mca_doc_kept: "doc_kept (mca_doc ns k e) = mca_doc ns k e" "bson_fits (fst e) \<Longrightarrow> doc_ok (mca_doc ns k e)"
  by (auto simp: doc_kept_def mca_doc_def doc_ok_def dict_ok_def split: option.splits)

lemma mca_doc_fields: "doc_value (mca_doc ns k e) ''value'' = fst e" "doc_expires (mca_doc ns k e) = snd e"
  by (auto simp: doc_value_def doc_expires_def mca_doc_def split: option.splits)

lemma mca_delete_sim:
  assumes laws: "mongo_laws col tab" and sim: "mca_sim dt tab m c"
  shows "\<exists>m'. mca_delete col n k m = (Inr (), m') \<and> mca_sim dt tab m' (mc_delete n k c)"
  using mongo_delete [OF laws, of "mkv_id (cache_ns n) k" m] sim mc_default_step [of "KDelete n k" c]
  by (simp add: mca_delete_def mca_id mca_sim_def id_table_upd [OF ns_lookup_upd [OF cache_entry_delete]])

lemma mca_get_sim:
  assumes laws: "mongo_laws col tab" and sim: "mca_sim dt tab m c"
  shows "\<exists>m'. mca_get col n k now m = (Inr (fst (mc_get n k now c)), m') \<and> mca_sim dt tab m' (snd (mc_get n k now c))"
proof -
  have one: "mg_find_one col (by_id (mca_doc_id (cache_ns n) k)) m = Inr (map_option (mca_doc (cache_ns n) k) (cache_entry c n k))"
    using sim by (simp add: mongo_find_one [OF laws] mca_id mca_sim_def id_table_at ns_lookup_at)
  show ?thesis
  proof (cases "cache_entry c n k")
    case None
    then have "snd (mc_get n k now c) = c" by (auto simp: cache_entry_def mc_get_def)
    then show ?thesis using None one sim by (simp add: mca_get_def mc_get_entry)
  next
    case (Some e)
    obtain v x where e: "e = (v, x)" by (meson surj_pair)
    show ?thesis
    proof (cases "expired x now")
      case True
      have "cache_entry c n k = Some (v, x)" using Some e by simp
      then have "snd (mc_get n k now c) = mc_delete n k c" using True
        by (auto simp: cache_entry_def mc_get_def mc_delete_def Let_def expired_def dict_getd_def split: option.splits)
      then show ?thesis using mca_delete_sim [OF laws sim, of n k] True Some e one by (auto simp: mca_get_def mc_get_entry mca_doc_fields)
    next
      case False
      then have "snd (mc_get n k now c) = c" using Some e by (auto simp: cache_entry_def mc_get_def Let_def expired_def split: option.splits)
      then show ?thesis using False Some e one sim by (simp add: mca_get_def mc_get_entry mca_doc_fields)
    qed
  qed
qed

lemma mca_clear_table:
  "(\<lambda>i. case id_table mca_doc (ns_lookup c) i of None \<Rightarrow> None
      | Some d \<Rightarrow> if doc_matches (case ns of None \<Rightarrow> [] | Some n \<Rightarrow> [(''namespace'', BVal (JStr (cache_ns n)))]) d then None else Some d) =
    id_table mca_doc (ns_lookup (mc_clear ns c))"
  by (auto simp: id_table_def ns_lookup_clear doc_matches_def field_matches_def mca_doc_def fun_eq_iff split: prod.splits bool.splits option.splits)

lemma mca_step_sim:
  assumes laws: "mongo_laws col tab" and sim: "mca_sim dt tab m c" and ok: "cache_fits op"
  shows "\<exists>m'. mca_step dt col op m = (Inr (), m') \<and> mca_sim dt tab m' (mc_step op c)"
proof (cases op)
  case (KGet n k now)
  then show ?thesis using mca_get_sim [OF laws sim, of n k now] by auto
next
  case (KSet n k v ttl now)
  let ?d = "mca_doc (cache_ns n) k (v, expires_at dt ttl now)"
  have ok': "doc_ok ?d" using ok KSet by (intro mca_doc_kept) simp
  have "dict_get ?d ''_id'' = Some (BVal (JStr (mkv_id (cache_ns n) k)))" by (simp add: mca_doc_def mca_id)
  from mongo_replace [OF laws ok' this, where m = m] sim show ?thesis
    using KSet mc_default_step [of op c]
    by (simp add: mca_set_def mca_id mca_sim_def mca_doc_kept(1) id_table_upd [OF ns_lookup_upd [OF cache_entry_set]])
next
  case (KDelete n k)
  then show ?thesis using mca_delete_sim [OF laws sim, of n k] by simp
next
  case (KClear ns)
  then show ?thesis
    using mongo_delete_many [OF laws, of "case ns of None \<Rightarrow> [] | Some n \<Rightarrow> [(''namespace'', BVal (JStr (cache_ns n)))]" m] sim mc_default_step [of op c]
    by (auto simp: mca_clear_def mca_sim_def mca_clear_table)
qed

text \<open>
  C30. The database caches refine the memory cache. After any history of reads, writes, deletions and clears on an empty database, each at its own time, no operation
  has raised, and a read answers what the memory cache with the same default time to live answers: the last value written, unless it was deleted, cleared
  or has expired.
\<close>

theorem db_cache_refines_memory:
  assumes "sqlite_cache sql live kept" and "kept d0 = Map.empty" and "\<forall>op \<in> set ops. cache_plain op"
    and "mongo_laws col tab" and "tab m0 = Map.empty" and "\<forall>op \<in> set mops. cache_fits op"
  shows "(\<exists>s. run_history (sca_step fr jmsg dt sql) ops (sq_init path d0) = (Inr (), s) \<and>
      fst (sca_get jmsg sql n k now s) = Inr (fst (mc_get n k now (fold (db_ref mc_step) ops (mem_cache_init dt))))) \<and>
    (\<exists>m. run_history (mca_step dt col) mops m0 = (Inr (), m) \<and>
      fst (mca_get col n k now m) = Inr (fst (mc_get n k now (fold mc_step mops (mem_cache_init dt)))))"
proof
  have none: "ns_lookup (mem_cache_init dt) ns key = None" for ns key
    by (cases "\<exists>n. ns = cache_ns n") (auto simp: ns_lookup_at ns_lookup_other cache_entry_def mem_cache_init_def dict_getd_def)
  have tables: "ns_table (cache_row fr) (ns_lookup (mem_cache_init dt)) = Map.empty" "id_table mca_doc (ns_lookup (mem_cache_init dt)) = Map.empty"
    by (auto simp: ns_table_def id_table_def none fun_eq_iff split: list.splits sql_value.splits prod.splits bool.splits)
  have init: "cache_entry (mem_cache_init dt) n' k' = None" "mc_default_ttl (mem_cache_init dt) = dt" for n' k'
    by (simp_all add: cache_entry_def mem_cache_init_def dict_getd_def)
  have "sca_sim fr dt live kept (sq_init path d0) (mem_cache_init dt)"
    using assms(2) by (simp add: sca_sim_def committed_def sq_init_def tables init)
  from run_history_sim [where sim = "sca_sim fr dt live kept" and step = "sca_step fr jmsg dt sql" and ref = "db_ref mc_step" and allowed = cache_plain,
      OF _ this assms(3)] sca_step_sim [OF assms(1)]
  obtain s where "run_history (sca_step fr jmsg dt sql) ops (sq_init path d0) = (Inr (), s)"
    "sca_sim fr dt live kept s (fold (db_ref mc_step) ops (mem_cache_init dt))" by blast
  then show "\<exists>s. run_history (sca_step fr jmsg dt sql) ops (sq_init path d0) = (Inr (), s) \<and>
      fst (sca_get jmsg sql n k now s) = Inr (fst (mc_get n k now (fold (db_ref mc_step) ops (mem_cache_init dt))))"
    using sca_get_sim [OF assms(1), where jmsg = jmsg] by (metis fst_conv)
  have "mca_sim dt tab m0 (mem_cache_init dt)"
    using assms(5) by (simp add: mca_sim_def tables init)
  from run_history_sim [where sim = "mca_sim dt tab" and step = "mca_step dt col" and ref = mc_step and allowed = cache_fits,
      OF _ this assms(6)] mca_step_sim [OF assms(4)]
  obtain m where "run_history (mca_step dt col) mops m0 = (Inr (), m)" "mca_sim dt tab m (fold mc_step mops (mem_cache_init dt))" by blast
  then show "\<exists>m. run_history (mca_step dt col) mops m0 = (Inr (), m) \<and>
      fst (mca_get col n k now m) = Inr (fst (mc_get n k now (fold mc_step mops (mem_cache_init dt))))"
    using mca_get_sim [OF assms(4)] by (metis fst_conv)
qed

definition cache_exec :: "string \<Rightarrow> sql_value list \<Rightarrow> table_rows \<Rightarrow> table_rows" where
  "cache_exec stmt ps t =
     (if stmt = CACHE_SET then dict_set t (take 2 ps) (drop 2 ps) else if stmt = CACHE_DELETE then dict_del t ps
      else if stmt = CACHE_CLEAR then [] else if stmt = CACHE_CLEAR_NS then filter (\<lambda>r. take 1 (fst r) \<noteq> ps) t else t)"

definition cache_select :: "string \<Rightarrow> sql_value list \<Rightarrow> table_rows \<Rightarrow> sql_value list list" where
  "cache_select stmt ps t = (case map_of t ps of None \<Rightarrow> [] | Some r \<Rightarrow> [r])"

lemma cache_statements:
  "CACHE_SCHEMA \<notin> {CACHE_SET, CACHE_DELETE, CACHE_CLEAR, CACHE_CLEAR_NS}" "CACHE_DELETE \<noteq> CACHE_SET" "CACHE_CLEAR \<notin> {CACHE_SET, CACHE_DELETE}"
  "CACHE_CLEAR_NS \<notin> {CACHE_SET, CACHE_DELETE, CACHE_CLEAR}"
  by code_simp+

lemma demo_cache: "sqlite_cache (list_sqlite cache_exec cache_select) rows_live rows_kept"
proof -
  have keep: "map_of (filter (\<lambda>r. take (Suc 0) (fst r) \<noteq> [n]) t) = (\<lambda>key. if take (Suc 0) key = [n] then None else map_of t key)" for n and t :: table_rows
    by (induction t) (auto simp: fun_eq_iff)
  show ?thesis
    unfolding sqlite_cache_def using cache_statements
    by (auto simp: list_sqlite_laws(3) cache_exec_def update_conv' delete_conv' cache_select_def keep intro!: list_sqlite_laws(1,2))
qed

theorem db_cache_refines_memory_witness:
  "(\<exists>s. run_history (sca_step (\<lambda>x. []) (\<lambda>t. []) None (list_sqlite cache_exec cache_select))
        [DbOp (KSet CONVERSATION ''c1'' (JInt 7) (Some 10) 100), DbClose] (sq_init ''cache.db'' ([], [])) = (Inr (), s) \<and>
      fst (sca_get (\<lambda>t. []) (list_sqlite cache_exec cache_select) CONVERSATION ''c1'' 105 s) = Inr (JInt 7)) \<and>
   (\<exists>m. run_history (mca_step None list_mongo) [KSet CONVERSATION ''c1'' (JInt 8) (Some 100) 100, KClear (Some MESSAGE)] [] = (Inr (), m) \<and>
      fst (mca_get list_mongo CONVERSATION ''c1'' 105 m) = Inr (JInt 8))"
proof -
  let ?ops = "[DbOp (KSet CONVERSATION ''c1'' (JInt 7) (Some 10) 100), DbClose]" and ?mops = "[KSet CONVERSATION ''c1'' (JInt 8) (Some 100) 100, KClear (Some MESSAGE)]"
  have ok: "\<forall>op \<in> set ?ops. cache_plain op" "\<forall>op \<in> set ?mops. cache_fits op" by simp_all
  have empty: "rows_kept ([], []) = Map.empty" "map_of ([] :: doc dict) = Map.empty" by simp_all
  have ref: "fst (mc_get CONVERSATION ''c1'' 105 (fold (db_ref mc_step) ?ops (mem_cache_init None))) = JInt 7"
    "fst (mc_get CONVERSATION ''c1'' 105 (fold mc_step ?mops (mem_cache_init None))) = JInt 8"
    by code_simp+
  from db_cache_refines_memory [OF demo_cache empty(1) ok(1) list_mongo_laws empty(2) ok(2),
    where fr = "\<lambda>x. []" and jmsg = "\<lambda>t. []" and path = "''cache.db''" and dt = None and n = CONVERSATION and k = "''c1''" and now = 105]
  show ?thesis unfolding ref by blast
qed

end
