(* ===== verification/Db_Events.thy ===== *)
theory Db_Events
  imports Databases Bus_Dispatch
begin

section \<open>Event stores in Redis and MongoDB\<close>

text \<open>
  \<^verbatim>\<open>claude_ai/bus/store/{null,redis,mongo}.py\<close>. The client of Redis is an argument like the databases of theory \<open>Databases\<close>: \<open>redis_laws\<close> says what its
  commands do to the hashes and lists of the server. A call of the client that raises is wrapped in \<^verbatim>\<open>EventStoreError\<close> where the source wraps it. Shown: over any
  history of envelopes, Redis holds for every envelope the event that \<^verbatim>\<open>MemoryEventStore\<close> holds, and the same dead letters, and replays the same events
  when no identity is saved twice; MongoDB agrees on the status of every envelope and replays in the order of the enqueue times.
\<close>

definition EventStoreError :: "string \<Rightarrow> (string \<times> string) list \<Rightarrow> exn" where
  "EventStoreError message ctx = OtherException ''EventStoreError'' (event_bus_error_str message ctx)"

definition wrapped :: "string \<Rightarrow> (string \<times> string) list \<Rightarrow> (exn + 'a) \<times> 's \<Rightarrow> (exn + 'a) \<times> 's" where
  \<comment> \<open>\<open>except Exception as exc: raise EventStoreError(message, context=ctx) from exc\<close>\<close>
  "wrapped message ctx r = (case r of (Inl e, s) \<Rightarrow> (Inl (EventStoreError message ctx), s) | (Inr x, s) \<Rightarrow> (Inr x, s))"

lemma wrapped_ok [simp]: "wrapped message ctx (Inr x, s) = (Inr x, s)"
  by (simp add: wrapped_def)

datatype es_op = ESave envelope | EProcessed string | EFailed string string int | EDead envelope string "string option"

fun mes_step :: "(event \<Rightarrow> json dict) \<Rightarrow> es_op \<Rightarrow> mem_event_store \<Rightarrow> mem_event_store" where
  "mes_step dump (ESave en) s = mes_save dump s en"
| "mes_step dump (EProcessed i) s = mes_mark_processed s i"
| "mes_step dump (EFailed i err a) s = mes_mark_failed s i err a"
| "mes_step dump (EDead en err h) s = mes_dead_letter dump s en err h"

subsection \<open>NullEventStore\<close>

definition null_step :: "es_op \<Rightarrow> unit \<Rightarrow> (exn + unit) \<times> unit" where
  \<comment> \<open>every operation returns at once\<close>
  "null_step op s = (Inr (), s)"

definition null_replay :: "string list option \<Rightarrow> string list option \<Rightarrow> int option \<Rightarrow> stored_event list \<times> exn option" where
  "null_replay types statuses limit = ([], None)"

subsection \<open>RedisEventStore\<close>

datatype redis_cmd = HSET string string string | RPUSH string string

record 'r redis =
  rd_from_url :: "string \<Rightarrow> 'r \<Rightarrow> (exn + unit) \<times> 'r"
  rd_ping :: "'r \<Rightarrow> (exn + unit) \<times> 'r"
  rd_aclose :: "'r \<Rightarrow> (exn + unit) \<times> 'r"
  rd_pipeline :: "redis_cmd list \<Rightarrow> 'r \<Rightarrow> (exn + unit) \<times> 'r"
  rd_hset :: "string \<Rightarrow> string \<Rightarrow> string \<Rightarrow> 'r \<Rightarrow> (exn + unit) \<times> 'r"
  rd_hget :: "string \<Rightarrow> string \<Rightarrow> 'r \<Rightarrow> exn + string option"
  rd_lrange :: "string \<Rightarrow> int \<Rightarrow> int \<Rightarrow> 'r \<Rightarrow> exn + string list"

record 'r redis_store =
  rs_url :: string
  rs_prefix :: string
  rs_owned :: bool
  rs_client :: bool     \<comment> \<open>\<open>_client\<close> is not \<open>None\<close>\<close>
  rs_db :: 'r

definition rs_init :: "string \<Rightarrow> string \<Rightarrow> bool \<Rightarrow> 'r \<Rightarrow> 'r redis_store" where
  \<comment> \<open>\<open>client\<close> says whether one is handed over\<close>
  "rs_init url key_prefix client r =
     \<lparr>rs_url = url, rs_prefix = rstrip_chars (\<lambda>c. c = CHR '':'') key_prefix, rs_owned = (\<not> client), rs_client = client, rs_db = r\<rparr>"

definition rs_items_key :: "'r redis_store \<Rightarrow> string" where
  "rs_items_key s = rs_prefix s @ '':items''"

definition rs_order_key :: "'r redis_store \<Rightarrow> string" where
  "rs_order_key s = rs_prefix s @ '':order''"

definition rs_dead_key :: "'r redis_store \<Rightarrow> string" where
  "rs_dead_key s = rs_prefix s @ '':dead''"

definition on_redis :: "('r \<Rightarrow> (exn + 'a) \<times> 'r) \<Rightarrow> 'r redis_store \<Rightarrow> (exn + 'a) \<times> 'r redis_store" where
  "on_redis f s = (case f (rs_db s) of (x, r) \<Rightarrow> (x, s\<lparr>rs_db := r\<rparr>))"

definition rs_open :: "bool \<Rightarrow> 'r redis \<Rightarrow> 'r redis_store \<Rightarrow> (exn + unit) \<times> 'r redis_store" where
  \<comment> \<open>\<open>installed\<close>: the import of redis succeeds; the client is kept when the ping fails\<close>
  "rs_open installed rd s =
     (if rs_client s then (Inr (), s)
      else if \<not> installed then (Inl (EventStoreError ''redis package required for RedisEventStore (pip install redis)'' []), s)
      else wrapped ''failed to connect to Redis'' [(''url'', repr_str (rs_url s))]
        (then_do (on_redis (rd_from_url rd (rs_url s)) s) (\<lambda>_ s. on_redis (rd_ping rd) (s\<lparr>rs_client := True\<rparr>))))"

definition rs_close :: "'r redis \<Rightarrow> 'r redis_store \<Rightarrow> 'r redis_store" where
  "rs_close rd s = (if \<not> rs_client s \<or> \<not> rs_owned s then s else (snd (on_redis (rd_aclose rd) s))\<lparr>rs_client := False\<rparr>)"

definition rs_get_client :: "bool \<Rightarrow> 'r redis \<Rightarrow> 'r redis_store \<Rightarrow> (exn + unit) \<times> 'r redis_store" where
  "rs_get_client installed rd s = (if rs_client s then (Inr (), s) else rs_open installed rd s)"

definition stored_json :: "(pyfloat \<Rightarrow> string) \<Rightarrow> (pyfloat \<Rightarrow> string) \<Rightarrow> stored_event \<Rightarrow> string" where
  \<comment> \<open>\<open>json.dumps(stored.to_dict())\<close>\<close>
  "stored_json fr isofmt se = json_dumps fr (JObj (stored_to_dict isofmt se))"

definition rs_save ::
  "(pyfloat \<Rightarrow> string) \<Rightarrow> (event \<Rightarrow> json dict) \<Rightarrow> (pyfloat \<Rightarrow> string) \<Rightarrow> bool \<Rightarrow> 'r redis \<Rightarrow> envelope \<Rightarrow> 'r redis_store \<Rightarrow> (exn + unit) \<times> 'r redis_store" where
  "rs_save fr dump isofmt inst rd en s =
     then_do (rs_get_client inst rd s) (\<lambda>_ s.
       let stored = stored_from_envelope dump en ''pending''
       in wrapped ''redis save failed'' [(''id'', repr_str (se_id stored))]
            (on_redis (rd_pipeline rd [HSET (rs_items_key s) (se_id stored) (stored_json fr isofmt stored), RPUSH (rs_order_key s) (se_id stored)]) s))"

definition loads_dict :: "(string \<Rightarrow> string) \<Rightarrow> string \<Rightarrow> exn + json dict" where
  \<comment> \<open>\<open>json.loads\<close> of a stored event, whose methods are then called\<close>
  "loads_dict jmsg raw =
     (case json_loads raw of
        None \<Rightarrow> Inl (OtherException ''JSONDecodeError'' (jmsg raw))
      | Some (JObj d) \<Rightarrow> Inr d
      | Some _ \<Rightarrow> Inl (Py (AttributeError ''object has no attribute'')))"

definition rs_update ::
  "(pyfloat \<Rightarrow> string) \<Rightarrow> (string \<Rightarrow> string) \<Rightarrow> bool \<Rightarrow> 'r redis \<Rightarrow> string \<Rightarrow> json dict \<Rightarrow> 'r redis_store \<Rightarrow> (exn + unit) \<times> 'r redis_store" where
  "rs_update fr jmsg inst rd i changes s =
     then_do (rs_get_client inst rd s) (\<lambda>_ s.
       wrapped ''redis update failed'' [(''id'', repr_str i)]
         (then_do (rd_hget rd (rs_items_key s) i (rs_db s), s) (\<lambda>raw s.
            case raw of
              None \<Rightarrow> (Inr (), s)
            | Some t \<Rightarrow> then_do (loads_dict jmsg t, s) (\<lambda>d.
                on_redis (rd_hset rd (rs_items_key s) i (json_dumps fr (JObj (dict_update d changes))))))))"

definition rs_mark_processed ::
  "(pyfloat \<Rightarrow> string) \<Rightarrow> (string \<Rightarrow> string) \<Rightarrow> bool \<Rightarrow> 'r redis \<Rightarrow> string \<Rightarrow> 'r redis_store \<Rightarrow> (exn + unit) \<times> 'r redis_store" where
  "rs_mark_processed fr jmsg inst rd i s = rs_update fr jmsg inst rd i [(''status'', JStr ''processed'')] s"

definition rs_mark_failed ::
  "(pyfloat \<Rightarrow> string) \<Rightarrow> (string \<Rightarrow> string) \<Rightarrow> bool \<Rightarrow> 'r redis \<Rightarrow> string \<Rightarrow> string \<Rightarrow> int \<Rightarrow> 'r redis_store \<Rightarrow> (exn + unit) \<times> 'r redis_store" where
  "rs_mark_failed fr jmsg inst rd i err attempt s =
     rs_update fr jmsg inst rd i [(''status'', JStr ''failed''), (''last_error'', JStr err), (''attempt'', JInt attempt)] s"

definition rs_dead_letter ::
  "(pyfloat \<Rightarrow> string) \<Rightarrow> (event \<Rightarrow> json dict) \<Rightarrow> (pyfloat \<Rightarrow> string) \<Rightarrow> bool \<Rightarrow> 'r redis \<Rightarrow> envelope \<Rightarrow> string \<Rightarrow> string option
     \<Rightarrow> 'r redis_store \<Rightarrow> (exn + unit) \<times> 'r redis_store" where
  "rs_dead_letter fr dump isofmt inst rd en err handler s =
     then_do (rs_get_client inst rd s) (\<lambda>_ s.
       let stored = (stored_from_envelope dump en ''dead'')\<lparr>se_last_error := Some err\<rparr>;
           record = dict_update (stored_to_dict isofmt stored) [(''handler'', jopt_str handler)]
       in wrapped ''redis dead_letter failed'' [(''id'', repr_str (se_id stored))]
            (on_redis (rd_pipeline rd [HSET (rs_items_key s) (se_id stored) (stored_json fr isofmt stored),
               RPUSH (rs_dead_key s) (json_dumps fr (JObj record))]) s))"

fun rs_replay_loop ::
  "(string \<Rightarrow> string) \<Rightarrow> (string \<Rightarrow> pyfloat option) \<Rightarrow> pyfloat \<Rightarrow> (string \<Rightarrow> exn + string option) \<Rightarrow> string list option \<Rightarrow> string list option
     \<Rightarrow> int option \<Rightarrow> string list \<Rightarrow> int \<Rightarrow> stored_event list \<times> exn option" where
  \<comment> \<open>what the generator yields, and what it raises after that; only the reading of the order is wrapped\<close>
  "rs_replay_loop jmsg of_iso now hget types statuses limit [] emitted = ([], None)"
| "rs_replay_loop jmsg of_iso now hget types statuses limit (eid # ids) emitted =
     (case hget eid of
        Inl e \<Rightarrow> ([], Some e)
      | Inr None \<Rightarrow> rs_replay_loop jmsg of_iso now hget types statuses limit ids emitted
      | Inr (Some raw) \<Rightarrow>
          (case loads_dict jmsg raw of
             Inl e \<Rightarrow> ([], Some e)
           | Inr d \<Rightarrow>
               (case stored_from_dict of_iso now d of
                  Inl e \<Rightarrow> ([], Some (Py e))
                | Inr se \<Rightarrow>
                    if \<not> replay_selects types statuses se then rs_replay_loop jmsg of_iso now hget types statuses limit ids emitted
                    else if (case limit of None \<Rightarrow> False | Some n \<Rightarrow> emitted + 1 \<ge> n) then ([se], None)
                    else (case rs_replay_loop jmsg of_iso now hget types statuses limit ids (emitted + 1) of (ses, e) \<Rightarrow> (se # ses, e)))))"

definition rs_replay ::
  "(string \<Rightarrow> string) \<Rightarrow> (string \<Rightarrow> pyfloat option) \<Rightarrow> pyfloat \<Rightarrow> bool \<Rightarrow> 'r redis \<Rightarrow> string list option \<Rightarrow> string list option \<Rightarrow> int option
     \<Rightarrow> 'r redis_store \<Rightarrow> (stored_event list \<times> exn option) \<times> 'r redis_store" where
  \<comment> \<open>run to its end with no change of the store meanwhile\<close>
  "rs_replay jmsg of_iso now inst rd types statuses limit s =
     (case rs_get_client inst rd s of
        (Inl e, s) \<Rightarrow> (([], Some e), s)
      | (Inr _, s) \<Rightarrow>
          (case rd_lrange rd (rs_order_key s) 0 (- 1) (rs_db s) of
             Inl e \<Rightarrow> (([], Some (EventStoreError ''redis replay failed'' [])), s)
           | Inr ids \<Rightarrow> (rs_replay_loop jmsg of_iso now (\<lambda>i. rd_hget rd (rs_items_key s) i (rs_db s)) types statuses limit ids 0, s)))"

subsection \<open>What Redis does\<close>

fun hash_cmd :: "redis_cmd \<Rightarrow> (string \<Rightarrow> string \<Rightarrow> string option) \<Rightarrow> string \<Rightarrow> string \<Rightarrow> string option" where
  "hash_cmd (HSET key f v) h = h(key := (h key)(f \<mapsto> v))"
| "hash_cmd (RPUSH key v) h = h"

fun list_cmd :: "redis_cmd \<Rightarrow> (string \<Rightarrow> string list) \<Rightarrow> string \<Rightarrow> string list" where
  "list_cmd (HSET key f v) l = l"
| "list_cmd (RPUSH key v) l = l(key := l key @ [v])"

definition redis_laws :: "'r redis \<Rightarrow> ('r \<Rightarrow> string \<Rightarrow> string \<Rightarrow> string option) \<Rightarrow> ('r \<Rightarrow> string \<Rightarrow> string list) \<Rightarrow> bool" where
  "redis_laws rd hash lst \<longleftrightarrow>
     (\<forall>url r. \<exists>r'. rd_from_url rd url r = (Inr (), r') \<and> hash r' = hash r \<and> lst r' = lst r) \<and>
     (\<forall>r. \<exists>r'. rd_ping rd r = (Inr (), r') \<and> hash r' = hash r \<and> lst r' = lst r) \<and>
     (\<forall>cmds r. \<exists>r'. rd_pipeline rd cmds r = (Inr (), r') \<and> hash r' = fold hash_cmd cmds (hash r) \<and> lst r' = fold list_cmd cmds (lst r)) \<and>
     (\<forall>key f v r. \<exists>r'. rd_hset rd key f v r = (Inr (), r') \<and> hash r' = hash_cmd (HSET key f v) (hash r) \<and> lst r' = lst r) \<and>
     (\<forall>key f r. rd_hget rd key f r = Inr (hash r key f)) \<and>
     (\<forall>key r. rd_lrange rd key 0 (- 1) r = Inr (lst r key))"

lemma rs_client_ok:
  assumes laws: "redis_laws rd hash lst"
  obtains s' where "rs_get_client True rd s = (Inr (), s')" "rs_prefix s' = rs_prefix s"
    "hash (rs_db s') = hash (rs_db s)" "lst (rs_db s') = lst (rs_db s)"
proof (cases "rs_client s")
  case True
  then show ?thesis by (intro that [of s]) (simp_all add: rs_get_client_def)
next
  case False
  obtain r1 where r1: "rd_from_url rd (rs_url s) (rs_db s) = (Inr (), r1)" "hash r1 = hash (rs_db s)" "lst r1 = lst (rs_db s)"
    using laws unfolding redis_laws_def by blast
  obtain r2 where r2: "rd_ping rd r1 = (Inr (), r2)" "hash r2 = hash r1" "lst r2 = lst r1"
    using laws unfolding redis_laws_def by blast
  show ?thesis
    by (rule that [of "s\<lparr>rs_client := True, rs_db := r2\<rparr>"])
      (use False r1 r2 in \<open>simp_all add: rs_get_client_def rs_open_def on_redis_def\<close>)
qed

subsection \<open>Redis against memory\<close>

definition mes_lookup :: "mem_event_store \<Rightarrow> string \<Rightarrow> stored_event option" where
  "mes_lookup s i = map_option ((!) (ms_heap s)) (map_of (ms_events s) i)"

lemma mes_lookup_addr:
  assumes "mes_inv s" and "map_of (ms_events s) i = Some p"
  shows "p < length (ms_heap s)" "se_id (ms_heap s ! p) = i"
  using assms unfolding mes_inv_def by blast+

lemma mes_lookup_new:
  "mes_inv s \<Longrightarrow> mes_lookup (mes_save dump s en) i = (if i = en_id en then Some (stored_from_envelope dump en ''pending'') else mes_lookup s i)"
  "mes_inv s \<Longrightarrow> mes_lookup (mes_dead_letter dump s en err h) i =
     (if i = en_id en then Some ((stored_from_envelope dump en ''dead'')\<lparr>se_last_error := Some err\<rparr>) else mes_lookup s i)"
  by (auto simp: mes_lookup_def mes_save_eq mes_dead_eq mes_save_id update_conv' nth_append dest: mes_lookup_addr(1) intro!: option.map_cong)

lemma mes_lookup_change:
  assumes inv: "mes_inv s" and "map_of (ms_events s) j = Some p"
  shows "mes_lookup (s\<lparr>ms_heap := (ms_heap s)[p := f (ms_heap s ! p)]\<rparr>) i = (if i = j then map_option f (mes_lookup s j) else mes_lookup s i)"
proof (cases "i = j")
  case True
  then show ?thesis using mes_lookup_addr(1) [OF assms] assms(2) by (simp add: mes_lookup_def)
next
  case False
  then have "q \<noteq> p" if "map_of (ms_events s) i = Some q" for q
    using mes_lookup_addr(2) [OF inv that] mes_lookup_addr(2) [OF assms] by auto
  then show ?thesis using False by (cases "map_of (ms_events s) i") (simp_all add: mes_lookup_def)
qed

lemma mes_lookup_mark:
  assumes "mes_inv s"
  shows "mes_lookup (mes_mark_processed s j) i = (if i = j then map_option (se_status_update (\<lambda>_. ''processed'')) (mes_lookup s j) else mes_lookup s i)"
    and "mes_lookup (mes_mark_failed s j err a) i = (if i = j then map_option (\<lambda>se. se\<lparr>se_status := ''failed'', se_last_error := Some err, se_attempt := a\<rparr>)
      (mes_lookup s j) else mes_lookup s i)"
proof -
  show "mes_lookup (mes_mark_processed s j) i = (if i = j then map_option (se_status_update (\<lambda>_. ''processed'')) (mes_lookup s j) else mes_lookup s i)"
    using mes_lookup_change [OF assms, of j _ "se_status_update (\<lambda>_. ''processed'')"]
    by (cases "map_of (ms_events s) j") (auto simp: mes_mark_processed_def mes_lookup_def)
  show "mes_lookup (mes_mark_failed s j err a) i = (if i = j then map_option (\<lambda>se. se\<lparr>se_status := ''failed'', se_last_error := Some err, se_attempt := a\<rparr>)
      (mes_lookup s j) else mes_lookup s i)"
    using mes_lookup_change [OF assms, of j _ "\<lambda>se. se\<lparr>se_status := ''failed'', se_last_error := Some err, se_attempt := a\<rparr>"]
    by (cases "map_of (ms_events s) j") (auto simp: mes_mark_failed_def mes_lookup_def)
qed

definition se_ok :: "(pyfloat \<Rightarrow> string) \<Rightarrow> (string \<Rightarrow> pyfloat option) \<Rightarrow> stored_event \<Rightarrow> bool" where
  \<comment> \<open>payload and metadata without floats, a time stamp that survives its text\<close>
  "se_ok isofmt of_iso se \<longleftrightarrow>
     plain (JObj (se_payload se)) \<and> plain (JObj (se_metadata se)) \<and> of_iso (isofmt (se_enqueued_at se)) = Some (se_enqueued_at se)"

definition en_ok :: "(event \<Rightarrow> json dict) \<Rightarrow> (pyfloat \<Rightarrow> string) \<Rightarrow> (string \<Rightarrow> pyfloat option) \<Rightarrow> envelope \<Rightarrow> bool" where
  "en_ok dump isofmt of_iso en \<longleftrightarrow> se_ok isofmt of_iso (stored_from_envelope dump en ''pending'')"

fun op_ok :: "(event \<Rightarrow> json dict) \<Rightarrow> (pyfloat \<Rightarrow> string) \<Rightarrow> (string \<Rightarrow> pyfloat option) \<Rightarrow> es_op \<Rightarrow> bool" where
  "op_ok dump isofmt of_iso (ESave en) = en_ok dump isofmt of_iso en"
| "op_ok dump isofmt of_iso (EDead en err h) = en_ok dump isofmt of_iso en"
| "op_ok dump isofmt of_iso _ = True"

fun rs_step ::
  "(pyfloat \<Rightarrow> string) \<Rightarrow> (string \<Rightarrow> string) \<Rightarrow> (event \<Rightarrow> json dict) \<Rightarrow> (pyfloat \<Rightarrow> string) \<Rightarrow> 'r redis \<Rightarrow> es_op
     \<Rightarrow> 'r redis_store \<Rightarrow> (exn + unit) \<times> 'r redis_store" where
  "rs_step fr jmsg dump isofmt rd (ESave en) s = rs_save fr dump isofmt True rd en s"
| "rs_step fr jmsg dump isofmt rd (EProcessed i) s = rs_mark_processed fr jmsg True rd i s"
| "rs_step fr jmsg dump isofmt rd (EFailed i err a) s = rs_mark_failed fr jmsg True rd i err a s"
| "rs_step fr jmsg dump isofmt rd (EDead en err h) s = rs_dead_letter fr dump isofmt True rd en err h s"

definition text_id :: "string \<Rightarrow> string" where
  "text_id t = (case json_loads t of Some (JObj d) \<Rightarrow> (case obj_get d ''id'' of JStr i \<Rightarrow> i | _ \<Rightarrow> []) | _ \<Rightarrow> [])"

definition rs_sim ::
  "(pyfloat \<Rightarrow> string) \<Rightarrow> (pyfloat \<Rightarrow> string) \<Rightarrow> (string \<Rightarrow> pyfloat option) \<Rightarrow> ('r \<Rightarrow> string \<Rightarrow> string \<Rightarrow> string option) \<Rightarrow> ('r \<Rightarrow> string \<Rightarrow> string list)
     \<Rightarrow> 'r redis_store \<Rightarrow> mem_event_store \<Rightarrow> bool" where
  "rs_sim fr isofmt of_iso hash lst s m \<longleftrightarrow> mes_inv m \<and>
     hash (rs_db s) (rs_items_key s) = (\<lambda>i. map_option (stored_json fr isofmt) (mes_lookup m i)) \<and>
     map text_id (lst (rs_db s) (rs_dead_key s)) = mes_dead_ids m \<and>
     (\<forall>i se. mes_lookup m i = Some se \<longrightarrow> se_ok isofmt of_iso se)"

lemma stored_plain: "se_ok isofmt of_iso se \<Longrightarrow> plain (JObj (stored_to_dict isofmt se))"
  by (auto simp: se_ok_def stored_to_dict_def dict_ok_def jopt_str_def split: option.splits)

lemma loads_stored: "se_ok isofmt of_iso se \<Longrightarrow> loads_dict jmsg (stored_json fr isofmt se) = Inr (stored_to_dict isofmt se)"
  unfolding stored_json_def loads_dict_def by (simp add: json_roundtrip [OF stored_plain] del: json_dumps.simps)

lemma dict_update_snoc: "dict_update d (xs @ ys) = dict_update (dict_update d xs) ys"
  by (simp add: dict_update_def)

lemma stored_changes:
  "dict_update (stored_to_dict isofmt se) [(''status'', JStr x)] = stored_to_dict isofmt (se\<lparr>se_status := x\<rparr>)"
  "dict_update (stored_to_dict isofmt se) [(''status'', JStr x), (''last_error'', JStr err), (''attempt'', JInt a)] =
     stored_to_dict isofmt (se\<lparr>se_status := x, se_last_error := Some err, se_attempt := a\<rparr>)"
  by (simp_all add: dict_update_def stored_to_dict_def jopt_str_def)

lemma redis_keys: "rs_items_key s \<noteq> rs_order_key s" "rs_items_key s \<noteq> rs_dead_key s" "rs_dead_key s \<noteq> rs_order_key s"
  by (simp_all add: rs_items_key_def rs_order_key_def rs_dead_key_def)

lemma rs_key_simps:
  "rs_items_key (s\<lparr>rs_db := r\<rparr>) = rs_items_key s" "rs_order_key (s\<lparr>rs_db := r\<rparr>) = rs_order_key s" "rs_dead_key (s\<lparr>rs_db := r\<rparr>) = rs_dead_key s"
  "rs_prefix s' = rs_prefix s \<Longrightarrow> rs_items_key s' = rs_items_key s" "rs_prefix s' = rs_prefix s \<Longrightarrow> rs_order_key s' = rs_order_key s"
  "rs_prefix s' = rs_prefix s \<Longrightarrow> rs_dead_key s' = rs_dead_key s"
  by (simp_all add: rs_items_key_def rs_order_key_def rs_dead_key_def)

lemma rs_pipeline_ok:
  assumes laws: "redis_laws rd hash lst"
  shows "\<exists>s'. then_do (rs_get_client True rd s) (\<lambda>_ s. wrapped msg ctx (on_redis (rd_pipeline rd (cmds (rs_items_key s) (rs_order_key s) (rs_dead_key s))) s)) = (Inr (), s') \<and>
    rs_prefix s' = rs_prefix s \<and>
    hash (rs_db s') = fold hash_cmd (cmds (rs_items_key s) (rs_order_key s) (rs_dead_key s)) (hash (rs_db s)) \<and>
    lst (rs_db s') = fold list_cmd (cmds (rs_items_key s) (rs_order_key s) (rs_dead_key s)) (lst (rs_db s))"
proof -
  obtain s1 where s1: "rs_get_client True rd s = (Inr (), s1)" "rs_prefix s1 = rs_prefix s"
    "hash (rs_db s1) = hash (rs_db s)" "lst (rs_db s1) = lst (rs_db s)" by (rule rs_client_ok [OF laws])
  let ?c = "cmds (rs_items_key s) (rs_order_key s) (rs_dead_key s)"
  obtain r where "rd_pipeline rd ?c (rs_db s1) = (Inr (), r)" "hash r = fold hash_cmd ?c (hash (rs_db s1))" "lst r = fold list_cmd ?c (lst (rs_db s1))"
    using laws unfolding redis_laws_def by blast
  then show ?thesis using s1 rs_key_simps(4-6) [OF s1(2)] by (simp add: on_redis_def)
qed

lemma rs_update_ok:
  assumes laws: "redis_laws rd hash lst" and sim: "rs_sim fr isofmt of_iso hash lst s m"
    and ch: "\<And>se. dict_update (stored_to_dict isofmt se) changes = stored_to_dict isofmt (f se)"
  shows "\<exists>s'. rs_update fr jmsg True rd i changes s = (Inr (), s') \<and> rs_prefix s' = rs_prefix s \<and> lst (rs_db s') = lst (rs_db s) \<and>
    hash (rs_db s') (rs_items_key s) = (\<lambda>j. map_option (stored_json fr isofmt) (if j = i then map_option f (mes_lookup m i) else mes_lookup m j))"
proof -
  obtain s1 where s1: "rs_get_client True rd s = (Inr (), s1)" "rs_prefix s1 = rs_prefix s"
    "hash (rs_db s1) = hash (rs_db s)" "lst (rs_db s1) = lst (rs_db s)" by (rule rs_client_ok [OF laws])
  have hget: "rd_hget rd (rs_items_key s1) i (rs_db s1) = Inr (map_option (stored_json fr isofmt) (mes_lookup m i))"
    using laws sim s1(3) rs_key_simps(4) [OF s1(2)] by (simp add: redis_laws_def rs_sim_def)
  have h: "hash (rs_db s1) (rs_items_key s) = (\<lambda>j. map_option (stored_json fr isofmt) (mes_lookup m j))" using sim s1(3) by (simp add: rs_sim_def)
  show ?thesis
  proof (cases "mes_lookup m i")
    case None
    have "hash (rs_db s1) (rs_items_key s) = (\<lambda>j. map_option (stored_json fr isofmt) (if j = i then map_option f (mes_lookup m i) else mes_lookup m j))"
      using h None by (auto simp: fun_eq_iff)
    then show ?thesis using None s1 hget by (auto simp: rs_update_def)
  next
    case (Some se)
    then have ok: "se_ok isofmt of_iso se" using sim unfolding rs_sim_def by blast
    obtain r where r: "rd_hset rd (rs_items_key s1) i (stored_json fr isofmt (f se)) (rs_db s1) = (Inr (), r)"
      "hash r = hash_cmd (HSET (rs_items_key s1) i (stored_json fr isofmt (f se))) (hash (rs_db s1))" "lst r = lst (rs_db s1)"
      using laws unfolding redis_laws_def by blast
    have "hash r (rs_items_key s) = (\<lambda>j. map_option (stored_json fr isofmt) (if j = i then map_option f (mes_lookup m i) else mes_lookup m j))"
      using r(2) h Some rs_key_simps(4) [OF s1(2)] by (auto simp: fun_eq_iff)
    then show ?thesis
      using Some s1 hget r by (auto simp: rs_update_def loads_stored [OF ok] ch stored_json_def [symmetric] on_redis_def simp del: json_dumps.simps)
  qed
qed

lemma dead_record_id:
  assumes "se_ok isofmt of_iso se"
  shows "text_id (json_dumps fr (JObj (dict_update (stored_to_dict isofmt se) [(''handler'', jopt_str h)]))) = se_id se"
proof -
  have "plain (JObj (dict_update (stored_to_dict isofmt se) [(''handler'', jopt_str h)]))"
    using assms by (auto simp: se_ok_def stored_to_dict_def dict_update_def dict_ok_def jopt_str_def split: option.splits)
  then show ?thesis
    unfolding text_id_def json_roundtrip [OF \<open>plain _\<close>] by (simp add: stored_to_dict_def dict_update_def obj_get_def dict_getd_def)
qed

lemma mes_step_laws:
  assumes "mes_inv m"
  shows "mes_inv (mes_step dump op m)"
    and "mes_dead_ids (mes_step dump op m) = mes_dead_ids m @ (case op of EDead en err h \<Rightarrow> [en_id en] | _ \<Rightarrow> [])"
  using assms mes.dead_others [OF assms, of dump] mes.dead_dead [OF assms, of dump] mes.inv_all [OF assms, of dump]
  by (cases op; simp add: mes_ops_def)+

lemma se_ok_simps:
  "se_ok isofmt of_iso (se\<lparr>se_status := x\<rparr>) = se_ok isofmt of_iso se" "se_ok isofmt of_iso (se\<lparr>se_last_error := e\<rparr>) = se_ok isofmt of_iso se"
  "se_ok isofmt of_iso (se\<lparr>se_attempt := a\<rparr>) = se_ok isofmt of_iso se"
  "se_ok isofmt of_iso (stored_from_envelope dump en st) = en_ok dump isofmt of_iso en"
  by (simp_all add: se_ok_def en_ok_def stored_from_envelope_def)

lemma se_ok_step:
  assumes inv: "mes_inv m" and ok: "\<forall>i se. mes_lookup m i = Some se \<longrightarrow> se_ok isofmt of_iso se" and "op_ok dump isofmt of_iso op"
  shows "\<forall>i se. mes_lookup (mes_step dump op m) i = Some se \<longrightarrow> se_ok isofmt of_iso se"
proof (intro allI impI)
  fix i se assume l: "mes_lookup (mes_step dump op m) i = Some se"
  have old: "se_ok isofmt of_iso x" if "mes_lookup m j = Some x" for j x using ok that by blast
  show "se_ok isofmt of_iso se"
    using l assms(3)
    by (cases op)
      (auto simp: mes_lookup_new [OF inv] mes_lookup_mark [OF inv] se_ok_simps split: if_splits dest: old)
qed

lemma rs_step_sim:
  assumes laws: "redis_laws rd hash lst" and sim: "rs_sim fr isofmt of_iso hash lst s m" and ok: "op_ok dump isofmt of_iso op"
  shows "\<exists>s'. rs_step fr jmsg dump isofmt rd op s = (Inr (), s') \<and> rs_sim fr isofmt of_iso hash lst s' (mes_step dump op m) \<and> rs_prefix s' = rs_prefix s \<and>
    lst (rs_db s') (rs_order_key s) = lst (rs_db s) (rs_order_key s) @ (case op of ESave en \<Rightarrow> [en_id en] | _ \<Rightarrow> [])"
proof -
  have inv: "mes_inv m" and h: "hash (rs_db s) (rs_items_key s) = (\<lambda>i. map_option (stored_json fr isofmt) (mes_lookup m i))"
    and d: "map text_id (lst (rs_db s) (rs_dead_key s)) = mes_dead_ids m" and oks: "\<forall>i se. mes_lookup m i = Some se \<longrightarrow> se_ok isofmt of_iso se"
    using sim unfolding rs_sim_def by blast+
  have finish: ?thesis
    if "rs_step fr jmsg dump isofmt rd op s = (Inr (), s')" "rs_prefix s' = rs_prefix s"
      "hash (rs_db s') (rs_items_key s) = (\<lambda>i. map_option (stored_json fr isofmt) (mes_lookup (mes_step dump op m) i))"
      "map text_id (lst (rs_db s') (rs_dead_key s)) = mes_dead_ids (mes_step dump op m)"
      "lst (rs_db s') (rs_order_key s) = lst (rs_db s) (rs_order_key s) @ (case op of ESave en \<Rightarrow> [en_id en] | _ \<Rightarrow> [])" for s'
    using that mes_step_laws(1) [OF inv, of dump op] se_ok_step [OF inv oks ok] rs_key_simps(4-6) [OF that(2)] unfolding rs_sim_def by auto
  show ?thesis
  proof (cases op)
    case (ESave en)
    let ?se = "stored_from_envelope dump en ''pending''"
    obtain s' where s': "rs_save fr dump isofmt True rd en s = (Inr (), s')" "rs_prefix s' = rs_prefix s"
      "hash (rs_db s') = fold hash_cmd [HSET (rs_items_key s) (se_id ?se) (stored_json fr isofmt ?se), RPUSH (rs_order_key s) (se_id ?se)] (hash (rs_db s))"
      "lst (rs_db s') = fold list_cmd [HSET (rs_items_key s) (se_id ?se) (stored_json fr isofmt ?se), RPUSH (rs_order_key s) (se_id ?se)] (lst (rs_db s))"
      using rs_pipeline_ok [OF laws, where s = s and msg = "''redis save failed''" and ctx = "[(''id'', repr_str (se_id ?se))]" and
        cmds = "\<lambda>items order dead. [HSET items (se_id ?se) (stored_json fr isofmt ?se), RPUSH order (se_id ?se)]"]
      by (auto simp: rs_save_def Let_def)
    show ?thesis
      using ESave s' h d mes_step_laws(2) [OF inv, of dump op] redis_keys [of s]
      by (intro finish [of s']) (auto simp: mes_save_id mes_lookup_new(1) [OF inv] fun_eq_iff)
  next
    case (EProcessed i)
    obtain s' where "rs_mark_processed fr jmsg True rd i s = (Inr (), s')" "rs_prefix s' = rs_prefix s" "lst (rs_db s') = lst (rs_db s)"
      "hash (rs_db s') (rs_items_key s) = (\<lambda>j. map_option (stored_json fr isofmt) (mes_lookup (mes_step dump op m) j))"
      using rs_update_ok [OF laws sim stored_changes(1) [where x = "''processed''"], where i = i and jmsg = jmsg] EProcessed
      by (auto simp: rs_mark_processed_def mes_lookup_mark [OF inv])
    then show ?thesis using EProcessed d mes_step_laws(2) [OF inv, of dump op] by (intro finish [of s']) auto
  next
    case (EFailed i err a)
    obtain s' where "rs_mark_failed fr jmsg True rd i err a s = (Inr (), s')" "rs_prefix s' = rs_prefix s" "lst (rs_db s') = lst (rs_db s)"
      "hash (rs_db s') (rs_items_key s) = (\<lambda>j. map_option (stored_json fr isofmt) (mes_lookup (mes_step dump op m) j))"
      using rs_update_ok [OF laws sim stored_changes(2) [where x = "''failed''" and err = err and a = a], where i = i and jmsg = jmsg] EFailed
      by (auto simp: rs_mark_failed_def mes_lookup_mark [OF inv])
    then show ?thesis using EFailed d mes_step_laws(2) [OF inv, of dump op] by (intro finish [of s']) auto
  next
    case (EDead en err hd)
    let ?se = "(stored_from_envelope dump en ''dead'')\<lparr>se_last_error := Some err\<rparr>"
    let ?rec = "json_dumps fr (JObj (dict_update (stored_to_dict isofmt ?se) [(''handler'', jopt_str hd)]))"
    obtain s' where s': "rs_dead_letter fr dump isofmt True rd en err hd s = (Inr (), s')" "rs_prefix s' = rs_prefix s"
      "hash (rs_db s') = fold hash_cmd [HSET (rs_items_key s) (se_id ?se) (stored_json fr isofmt ?se), RPUSH (rs_dead_key s) ?rec] (hash (rs_db s))"
      "lst (rs_db s') = fold list_cmd [HSET (rs_items_key s) (se_id ?se) (stored_json fr isofmt ?se), RPUSH (rs_dead_key s) ?rec] (lst (rs_db s))"
      using rs_pipeline_ok [OF laws, where s = s and msg = "''redis dead_letter failed''" and ctx = "[(''id'', repr_str (se_id ?se))]" and
        cmds = "\<lambda>items order dead. [HSET items (se_id ?se) (stored_json fr isofmt ?se), RPUSH dead ?rec]"]
      by (auto simp: rs_dead_letter_def Let_def simp del: json_dumps.simps)
    have "se_ok isofmt of_iso ?se" using ok EDead by (simp add: en_ok_def se_ok_def stored_from_envelope_def)
    then have "text_id ?rec = en_id en" using dead_record_id [of isofmt of_iso ?se fr hd] by (simp add: mes_save_id del: json_dumps.simps)
    then show ?thesis
      using EDead s' h d mes_step_laws(2) [OF inv, of dump op] redis_keys [of s]
      by (intro finish [of s']) (auto simp: mes_save_id mes_lookup_new(2) [OF inv] fun_eq_iff simp del: json_dumps.simps)
  qed
qed

fun fresh_saves :: "string list \<Rightarrow> es_op list \<Rightarrow> bool" where
  \<comment> \<open>an identity is saved at most once, and before its dead letter\<close>
  "fresh_saves seen [] = True"
| "fresh_saves seen (ESave en # ops) = (en_id en \<notin> set seen \<and> fresh_saves (en_id en # seen) ops)"
| "fresh_saves seen (EDead en err h # ops) = (en_id en \<in> set seen \<and> fresh_saves seen ops)"
| "fresh_saves seen (op # ops) = fresh_saves seen ops"

definition seen_after :: "string list \<Rightarrow> es_op \<Rightarrow> string list" where
  "seen_after seen op = (case op of ESave en \<Rightarrow> en_id en # seen | _ \<Rightarrow> seen)"

lemma fresh_step:
  assumes "mes_inv m" and "dom (mes_lookup m) = set seen" and "fresh_saves seen (op # ops)"
  shows "fresh_saves (seen_after seen op) ops" "dom (mes_lookup (mes_step dump op m)) = set (seen_after seen op)"
    and "ms_order (mes_step dump op m) = ms_order m @ (case op of ESave en \<Rightarrow> [en_id en] | _ \<Rightarrow> [])"
proof -
  show "fresh_saves (seen_after seen op) ops" using assms(3) by (cases op) (simp_all add: seen_after_def)
  show "dom (mes_lookup (mes_step dump op m)) = set (seen_after seen op)"
    using assms(2,3)
    by (cases op) (auto simp: seen_after_def mes_lookup_new [OF assms(1)] mes_lookup_mark [OF assms(1)] dom_def split: if_splits)
  have none: "map_of (ms_events m) i = None \<longleftrightarrow> i \<notin> set seen" for i
    unfolding assms(2) [symmetric] by (simp add: domIff mes_lookup_def)
  show "ms_order (mes_step dump op m) = ms_order m @ (case op of ESave en \<Rightarrow> [en_id en] | _ \<Rightarrow> [])"
    using assms(3) none
    by (cases op) (auto simp: mes_save_eq mes_dead_eq mes_mark_processed_def mes_mark_failed_def split: option.splits)
qed

lemma rs_run:
  assumes laws: "redis_laws rd hash lst"
  shows "rs_sim fr isofmt of_iso hash lst s m \<Longrightarrow> \<forall>op \<in> set ops. op_ok dump isofmt of_iso op \<Longrightarrow>
    \<exists>s'. run_history (rs_step fr jmsg dump isofmt rd) ops s = (Inr (), s') \<and> rs_sim fr isofmt of_iso hash lst s' (fold (mes_step dump) ops m) \<and>
      (fresh_saves seen ops \<and> dom (mes_lookup m) = set seen \<and> lst (rs_db s) (rs_order_key s) = ms_order m \<longrightarrow>
        lst (rs_db s') (rs_order_key s') = ms_order (fold (mes_step dump) ops m))"
proof (induction ops arbitrary: s m seen)
  case (Cons op ops)
  obtain s1 where s1: "rs_step fr jmsg dump isofmt rd op s = (Inr (), s1)" "rs_sim fr isofmt of_iso hash lst s1 (mes_step dump op m)" "rs_prefix s1 = rs_prefix s"
    "lst (rs_db s1) (rs_order_key s) = lst (rs_db s) (rs_order_key s) @ (case op of ESave en \<Rightarrow> [en_id en] | _ \<Rightarrow> [])"
    using rs_step_sim [OF laws Cons.prems(1), of dump op jmsg] Cons.prems(2) by auto
  have inv: "mes_inv m" using Cons.prems(1) by (simp add: rs_sim_def)
  have rest: "\<forall>op \<in> set ops. op_ok dump isofmt of_iso op" using Cons.prems(2) by simp
  from Cons.IH [OF s1(2) rest, of "seen_after seen op"] obtain s' where
    s': "run_history (rs_step fr jmsg dump isofmt rd) ops s1 = (Inr (), s')" "rs_sim fr isofmt of_iso hash lst s' (fold (mes_step dump) ops (mes_step dump op m))"
    "fresh_saves (seen_after seen op) ops \<and> dom (mes_lookup (mes_step dump op m)) = set (seen_after seen op) \<and>
      lst (rs_db s1) (rs_order_key s1) = ms_order (mes_step dump op m) \<longrightarrow>
        lst (rs_db s') (rs_order_key s') = ms_order (fold (mes_step dump) ops (mes_step dump op m))" by blast
  have "lst (rs_db s') (rs_order_key s') = ms_order (fold (mes_step dump) (op # ops) m)"
    if "fresh_saves seen (op # ops)" "dom (mes_lookup m) = set seen" "lst (rs_db s) (rs_order_key s) = ms_order m"
    using s'(3) s1(4) rs_key_simps(5) [OF s1(3)] fresh_step(1) [OF inv that(2,1)] fresh_step(2,3) [OF inv that(2,1), of dump] that(3) by simp
  then show ?case using s1(1) s'(1,2) by auto
qed simp

text \<open>
  The order list of Redis has one entry for every save, so an identity that is saved again is replayed again; the order of the memory store is free of repetitions.
\<close>

lemma redis_order_repeats:
  assumes laws: "redis_laws rd hash lst"
  shows "rs_sim fr isofmt of_iso hash lst s m \<Longrightarrow> \<forall>op \<in> set ops. op_ok dump isofmt of_iso op \<Longrightarrow>
    \<exists>s'. run_history (rs_step fr jmsg dump isofmt rd) ops s = (Inr (), s') \<and> distinct (ms_order (fold (mes_step dump) ops m)) \<and>
      lst (rs_db s') (rs_order_key s') = lst (rs_db s) (rs_order_key s) @ concat (map (\<lambda>op. case op of ESave en \<Rightarrow> [en_id en] | _ \<Rightarrow> []) ops)"
proof (induction ops arbitrary: s m)
  case Nil
  then show ?case by (simp add: rs_sim_def mes_inv_def)
next
  case (Cons op ops)
  obtain s1 where s1: "rs_step fr jmsg dump isofmt rd op s = (Inr (), s1)" "rs_sim fr isofmt of_iso hash lst s1 (mes_step dump op m)" "rs_prefix s1 = rs_prefix s"
    "lst (rs_db s1) (rs_order_key s) = lst (rs_db s) (rs_order_key s) @ (case op of ESave en \<Rightarrow> [en_id en] | _ \<Rightarrow> [])"
    using rs_step_sim [OF laws Cons.prems(1), of dump op jmsg] Cons.prems(2) by auto
  from Cons.IH [OF s1(2)] Cons.prems(2) s1(1,4) rs_key_simps(5) [OF s1(3)] show ?case by auto
qed

lemma rs_replay_same:
  assumes "\<forall>i se. mes_lookup m i = Some se \<longrightarrow> se_ok isofmt of_iso se"
  shows "rs_replay_loop jmsg of_iso now (\<lambda>i. Inr (map_option (stored_json fr isofmt) (mes_lookup m i))) types statuses limit ids k =
    (replay_loop m types statuses limit ids k, None)"
proof (induction ids arbitrary: k)
  case (Cons i ids)
  show ?case
  proof (cases "map_of (ms_events m) i")
    case None
    then show ?thesis using Cons.IH by (simp add: mes_lookup_def)
  next
    case (Some p)
    then have l: "mes_lookup m i = Some (ms_heap m ! p)" by (simp add: mes_lookup_def)
    then have ok: "se_ok isofmt of_iso (ms_heap m ! p)" using assms by blast
    then have "stored_from_dict of_iso now (stored_to_dict isofmt (ms_heap m ! p)) = Inr (ms_heap m ! p)"
      by (intro stored_roundtrip) (simp add: se_ok_def)
    then show ?thesis using Cons.IH by (simp add: l loads_stored [OF ok] Some Let_def)
  qed
qed simp

text \<open>
  C28. The Redis store refines the memory store. Over any history from an empty server no operation raises; afterwards the hash holds for every envelope the JSON text of the
  event that the memory store holds, reading it back gives that event, and the dead letters have the same identities in the same order. When no
  identity is saved twice and dead letters follow a save, a replay yields what the memory store yields, for every filter and limit.
\<close>

theorem redis_refines_memory:
  assumes laws: "redis_laws rd hash lst" and empty: "hash r0 = (\<lambda>key. Map.empty)" "lst r0 = (\<lambda>key. [])"
    and ok: "\<forall>op \<in> set ops. op_ok dump isofmt of_iso op"
  shows "\<exists>s. run_history (rs_step fr jmsg dump isofmt rd) ops (rs_init url prefix client r0) = (Inr (), s) \<and>
    (\<forall>i. rd_hget rd (rs_items_key s) i (rs_db s) = Inr (map_option (stored_json fr isofmt) (mes_lookup (fold (mes_step dump) ops mes_empty) i))) \<and>
    (\<forall>i se. mes_lookup (fold (mes_step dump) ops mes_empty) i = Some se \<longrightarrow>
      bind_result (loads_dict jmsg (stored_json fr isofmt se)) (\<lambda>d. case stored_from_dict of_iso now d of Inl e \<Rightarrow> Inl (Py e) | Inr x \<Rightarrow> Inr x) = Inr se) \<and>
    map text_id (lst (rs_db s) (rs_dead_key s)) = mes_dead_ids (fold (mes_step dump) ops mes_empty) \<and>
    (fresh_saves [] ops \<longrightarrow>
      fst (rs_replay jmsg of_iso now True rd types statuses limit s) = (mes_replay (fold (mes_step dump) ops mes_empty) types statuses limit, None))"
proof -
  let ?m = "fold (mes_step dump) ops mes_empty"
  have sim0: "rs_sim fr isofmt of_iso hash lst (rs_init url prefix client r0) mes_empty"
    using empty by (simp add: rs_sim_def rs_init_def mes_lookup_def mes_empty_def mes_dead_ids_def mes_dead_letters_def) (simp add: mes_inv_def)
  obtain s where s: "run_history (rs_step fr jmsg dump isofmt rd) ops (rs_init url prefix client r0) = (Inr (), s)" "rs_sim fr isofmt of_iso hash lst s ?m"
    "fresh_saves [] ops \<longrightarrow> lst (rs_db s) (rs_order_key s) = ms_order ?m"
    using rs_run [OF laws sim0 ok, of jmsg "[]"] empty by (auto simp: rs_init_def mes_lookup_def mes_empty_def)
  have h: "hash (rs_db s) (rs_items_key s) = (\<lambda>i. map_option (stored_json fr isofmt) (mes_lookup ?m i))"
    and oks: "\<forall>i se. mes_lookup ?m i = Some se \<longrightarrow> se_ok isofmt of_iso se" using s(2) unfolding rs_sim_def by blast+
  have hget: "rd_hget rd (rs_items_key s) i (rs_db s) = Inr (map_option (stored_json fr isofmt) (mes_lookup ?m i))" for i
    using laws h by (simp add: redis_laws_def)
  have reads: "bind_result (loads_dict jmsg (stored_json fr isofmt se)) (\<lambda>d. case stored_from_dict of_iso now d of Inl e \<Rightarrow> Inl (Py e) | Inr x \<Rightarrow> Inr x) = Inr se"
    if "mes_lookup ?m i = Some se" for i se
  proof -
    have "se_ok isofmt of_iso se" using oks that by blast
    then show ?thesis using stored_roundtrip [of of_iso isofmt se now] by (simp add: loads_stored bind_result_def se_ok_def)
  qed
  have replay: "fst (rs_replay jmsg of_iso now True rd types statuses limit s) = (mes_replay ?m types statuses limit, None)" if "fresh_saves [] ops"
  proof -
    obtain s1 where s1: "rs_get_client True rd s = (Inr (), s1)" "rs_prefix s1 = rs_prefix s"
      "hash (rs_db s1) = hash (rs_db s)" "lst (rs_db s1) = lst (rs_db s)" by (rule rs_client_ok [OF laws])
    have "rd_lrange rd (rs_order_key s1) 0 (- 1) (rs_db s1) = Inr (ms_order ?m)"
      using laws s(3) that s1(4) rs_key_simps(5) [OF s1(2)] by (simp add: redis_laws_def)
    moreover have "rd_hget rd (rs_items_key s1) i (rs_db s1) = Inr (map_option (stored_json fr isofmt) (mes_lookup ?m i))" for i
      using laws h s1(3) rs_key_simps(4) [OF s1(2)] by (simp add: redis_laws_def)
    ultimately show ?thesis using s1(1) rs_replay_same [OF oks] by (simp add: rs_replay_def mes_replay_def)
  qed
  show ?thesis using s hget reads replay unfolding rs_sim_def by blast
qed

subsection \<open>A Redis server that keeps the laws\<close>

type_synonym redis_state = "(string \<Rightarrow> string \<Rightarrow> string option) \<times> (string \<Rightarrow> string list)"

definition fun_redis :: "redis_state redis" where
  "fun_redis =
     \<lparr>rd_from_url = \<lambda>u r. (Inr (), r), rd_ping = \<lambda>r. (Inr (), r), rd_aclose = \<lambda>r. (Inr (), r),
      rd_pipeline = \<lambda>cmds r. (Inr (), (fold hash_cmd cmds (fst r), fold list_cmd cmds (snd r))),
      rd_hset = \<lambda>key f v r. (Inr (), (hash_cmd (HSET key f v) (fst r), snd r)),
      rd_hget = \<lambda>key f r. Inr (fst r key f), rd_lrange = \<lambda>key a b r. Inr (snd r key)\<rparr>"

lemma fun_redis_laws: "redis_laws fun_redis fst snd"
  by (simp add: redis_laws_def fun_redis_def)

definition demo_envelope :: envelope where
  "demo_envelope = mk_envelope (mk_event 0 None BaseBody) ''e1'' 17"

theorem redis_refines_memory_witness:
  "\<exists>s se. run_history (rs_step (\<lambda>x. []) (\<lambda>t. []) (\<lambda>e. []) (\<lambda>r. string_of_int \<lfloor>r\<rfloor>) fun_redis)
        [ESave demo_envelope, EFailed ''e1'' ''boom'' 1, EDead demo_envelope ''boom'' None] (rs_init ''redis://h'' ''p:'' False (\<lambda>key. Map.empty, \<lambda>key. [])) = (Inr (), s) \<and>
      map text_id (snd (rs_db s) (rs_dead_key s)) = [''e1''] \<and>
      fst (rs_replay (\<lambda>t. []) float_of_string 5 True fun_redis None (Some [''dead'']) None s) = ([se], None) \<and> se_id se = ''e1'' \<and> se_status se = ''dead''"
proof -
  let ?ops = "[ESave demo_envelope, EFailed ''e1'' ''boom'' 1, EDead demo_envelope ''boom'' None]"
  let ?m = "fold (mes_step (\<lambda>e. [])) ?ops mes_empty"
  have ok: "\<forall>op \<in> set ?ops. op_ok (\<lambda>e. []) (\<lambda>r. string_of_int \<lfloor>r\<rfloor>) float_of_string op" by code_simp
  have fresh: "fresh_saves [] ?ops" by simp
  have ref: "mes_dead_ids ?m = [''e1'']" "\<exists>se. mes_replay ?m None (Some [''dead'']) None = [se] \<and> se_id se = ''e1'' \<and> se_status se = ''dead''"
  proof -
    show "mes_dead_ids ?m = [''e1'']" by code_simp
    have "map se_id (mes_replay ?m None (Some [''dead'']) None) = [''e1'']" "map se_status (mes_replay ?m None (Some [''dead'']) None) = [''dead'']" by code_simp+
    then show "\<exists>se. mes_replay ?m None (Some [''dead'']) None = [se] \<and> se_id se = ''e1'' \<and> se_status se = ''dead''" by auto
  qed
  have empty: "fst (\<lambda>key. Map.empty, \<lambda>key. []) = (\<lambda>key. Map.empty)" "snd (\<lambda>key. Map.empty, \<lambda>key. []) = (\<lambda>key. [])" by simp_all
  from redis_refines_memory [OF fun_redis_laws empty ok, where url = "''redis://h''" and prefix = "''p:''" and client = False and now = 5
      and types = None and statuses = "Some [''dead'']" and limit = None and fr = "\<lambda>x. []" and jmsg = "\<lambda>t. []"] fresh ref
  show ?thesis by fastforce
qed

subsection \<open>MongoEventStore\<close>

record 'm mongo_env =
  \<comment> \<open>the client class of motor and the creation of an index\<close>
  mo_connect :: "string \<Rightarrow> exn + unit"
  mo_create_index :: "string \<Rightarrow> 'm \<Rightarrow> (exn + unit) \<times> 'm"

record 'm mongo_events =
  me_url :: string
  me_owned :: bool
  me_client :: bool     \<comment> \<open>\<open>_client\<close> is not \<open>None\<close>\<close>
  me_opened :: bool     \<comment> \<open>\<open>_events\<close> is not \<open>None\<close>\<close>
  me_events :: 'm
  me_dead :: 'm

definition me_init :: "string \<Rightarrow> bool \<Rightarrow> 'm \<Rightarrow> 'm \<Rightarrow> 'm mongo_events" where
  "me_init url client ev dl = \<lparr>me_url = url, me_owned = (\<not> client), me_client = client, me_opened = False, me_events = ev, me_dead = dl\<rparr>"

definition on_events :: "('m \<Rightarrow> (exn + 'a) \<times> 'm) \<Rightarrow> 'm mongo_events \<Rightarrow> (exn + 'a) \<times> 'm mongo_events" where
  "on_events f s = (case f (me_events s) of (x, m) \<Rightarrow> (x, s\<lparr>me_events := m\<rparr>))"

definition on_dead :: "('m \<Rightarrow> (exn + 'a) \<times> 'm) \<Rightarrow> 'm mongo_events \<Rightarrow> (exn + 'a) \<times> 'm mongo_events" where
  "on_dead f s = (case f (me_dead s) of (x, m) \<Rightarrow> (x, s\<lparr>me_dead := m\<rparr>))"

definition me_indexes :: "'m mongo_env \<Rightarrow> 'm mongo_events \<Rightarrow> 'm mongo_events" where
  \<comment> \<open>the three indexes; the first exception ends the attempt and is dropped\<close>
  "me_indexes mo s =
     snd (then_do (on_events (mo_create_index mo ''enqueued_at'') s) (\<lambda>_ s.
          then_do (on_events (mo_create_index mo ''event_type'') s) (\<lambda>_ s. on_events (mo_create_index mo ''status'') s)))"

definition me_open :: "bool \<Rightarrow> 'm mongo_env \<Rightarrow> 'm mongo_events \<Rightarrow> (exn + unit) \<times> 'm mongo_events" where
  "me_open inst mo s =
     (if me_opened s then (Inr (), s)
      else if \<not> me_client s \<and> \<not> inst then (Inl (EventStoreError ''motor package required for MongoEventStore (pip install motor)'' []), s)
      else (case (if me_client s then Inr () else mo_connect mo (me_url s)) of
              Inl e \<Rightarrow> (Inl (EventStoreError ''failed to connect to Mongo'' [(''url'', repr_str (me_url s))]), s)
            | Inr _ \<Rightarrow> (Inr (), me_indexes mo (s\<lparr>me_client := True, me_opened := True\<rparr>))))"

definition me_close :: "'m mongo_events \<Rightarrow> 'm mongo_events" where
  "me_close s = (if \<not> me_client s \<or> \<not> me_owned s then s else s\<lparr>me_client := False, me_opened := False\<rparr>)"

definition me_ensure :: "bool \<Rightarrow> 'm mongo_env \<Rightarrow> 'm mongo_events \<Rightarrow> (exn + unit) \<times> 'm mongo_events" where
  "me_ensure inst mo s = (if me_opened s then (Inr (), s) else me_open inst mo s)"

definition me_doc :: "(pyfloat \<Rightarrow> string) \<Rightarrow> stored_event \<Rightarrow> doc" where
  \<comment> \<open>\<open>to_dict\<close> with \<open>id\<close> renamed and the time stamp as a date\<close>
  "me_doc isofmt se =
     dict_set (dict_set (dict_del (map (\<lambda>(k, v). (k, BVal v)) (stored_to_dict isofmt se)) ''id'') ''_id'' (BVal (JStr (se_id se))))
       ''enqueued_at'' (BDate (se_enqueued_at se))"

definition me_save ::
  "(event \<Rightarrow> json dict) \<Rightarrow> (pyfloat \<Rightarrow> string) \<Rightarrow> bool \<Rightarrow> 'm mongo_env \<Rightarrow> 'm mongo_col \<Rightarrow> envelope \<Rightarrow> 'm mongo_events \<Rightarrow> (exn + unit) \<times> 'm mongo_events" where
  "me_save dump isofmt inst mo col en s =
     then_do (me_ensure inst mo s) (\<lambda>_ s.
       let stored = stored_from_envelope dump en ''pending''
       in wrapped ''mongo save failed'' [(''id'', repr_str (se_id stored))]
            (on_events (mg_replace_one col (by_id (se_id stored)) (me_doc isofmt stored) True) s))"

definition me_mark_processed ::
  "bool \<Rightarrow> 'm mongo_env \<Rightarrow> 'm mongo_col \<Rightarrow> string \<Rightarrow> 'm mongo_events \<Rightarrow> (exn + unit) \<times> 'm mongo_events" where
  "me_mark_processed inst mo col i s =
     then_do (me_ensure inst mo s) (\<lambda>_ s.
       wrapped ''mongo mark_processed failed'' [(''id'', repr_str i)]
         (on_events (mg_update_one col (by_id i) [(''status'', BVal (JStr ''processed''))]) s))"

definition me_mark_failed ::
  "bool \<Rightarrow> 'm mongo_env \<Rightarrow> 'm mongo_col \<Rightarrow> string \<Rightarrow> string \<Rightarrow> int \<Rightarrow> 'm mongo_events \<Rightarrow> (exn + unit) \<times> 'm mongo_events" where
  "me_mark_failed inst mo col i err attempt s =
     then_do (me_ensure inst mo s) (\<lambda>_ s.
       wrapped ''mongo mark_failed failed'' [(''id'', repr_str i)]
         (on_events (mg_update_one col (by_id i)
            [(''status'', BVal (JStr ''failed'')), (''last_error'', BVal (JStr err)), (''attempt'', BVal (JInt attempt))]) s))"

definition dead_doc :: "(event \<Rightarrow> json dict) \<Rightarrow> pyfloat \<Rightarrow> envelope \<Rightarrow> string \<Rightarrow> string option \<Rightarrow> doc" where
  "dead_doc dump now en err handler =
     [(''event_id'', BVal (JStr (en_id en))), (''event_type'', BVal (JStr (envelope_type en))), (''payload'', BVal (JObj (dump (en_event en)))),
      (''error'', BVal (JStr err)), (''handler'', BVal (jopt_str handler)), (''ts'', BDate now), (''attempt'', BVal (JInt (en_attempt en)))]"

definition me_dead_letter ::
  "(event \<Rightarrow> json dict) \<Rightarrow> pyfloat \<Rightarrow> bool \<Rightarrow> 'm mongo_env \<Rightarrow> 'm mongo_col \<Rightarrow> envelope \<Rightarrow> string \<Rightarrow> string option
     \<Rightarrow> 'm mongo_events \<Rightarrow> (exn + unit) \<times> 'm mongo_events" where
  "me_dead_letter dump now inst mo col en err handler s =
     then_do (me_ensure inst mo s) (\<lambda>_ s.
       wrapped ''mongo dead_letter failed'' [(''id'', repr_str (en_id en))]
         (then_do (on_dead (mg_insert_one col (dead_doc dump now en err handler)) s) (\<lambda>_ s.
            on_events (mg_update_one col (by_id (en_id en)) [(''status'', BVal (JStr ''dead'')), (''last_error'', BVal (JStr err))]) s)))"

definition me_query :: "string list option \<Rightarrow> string list option \<Rightarrow> doc" where
  "me_query types statuses =
     (case types of None \<Rightarrow> [] | Some ts \<Rightarrow> if ts = [] then [] else [(''event_type'', BVal (JObj [(''$in'', JList (map JStr ts))]))]) @
     (case statuses of None \<Rightarrow> [] | Some ss \<Rightarrow> if ss = [] then [] else [(''status'', BVal (JObj [(''$in'', JList (map JStr ss))]))])"

definition stored_from_doc :: "(string \<Rightarrow> pyfloat option) \<Rightarrow> pyfloat \<Rightarrow> doc \<Rightarrow> py_error + stored_event" where
  \<comment> \<open>\<open>doc["id"] = doc.pop("_id")\<close> and \<open>StoredEvent.from_dict\<close>, which takes a date as it is\<close>
  "stored_from_doc of_iso now d =
     (case dict_get d ''_id'' of
        None \<Rightarrow> Inl (KeyError ''_id'')
      | Some i \<Rightarrow>
          stored_from_dict of_iso (case dict_get d ''enqueued_at'' of Some (BDate t) \<Rightarrow> t | _ \<Rightarrow> now)
            (map (\<lambda>(k, v). (k, case v of BVal j \<Rightarrow> j | BDate _ \<Rightarrow> JNull)) (dict_set (dict_del d ''_id'') ''id'' i)))"

fun me_yields :: "(string \<Rightarrow> pyfloat option) \<Rightarrow> pyfloat \<Rightarrow> doc list \<Rightarrow> exn option \<Rightarrow> stored_event list \<times> exn option" where
  \<comment> \<open>the loop over the cursor, which may raise at its end\<close>
  "me_yields of_iso now [] e = ([], map_option (\<lambda>_. EventStoreError ''mongo replay failed'' []) e)"
| "me_yields of_iso now (d # ds) e =
     (case stored_from_doc of_iso now d of
        Inl err \<Rightarrow> ([], Some (EventStoreError ''mongo replay failed'' []))
      | Inr se \<Rightarrow> (case me_yields of_iso now ds e of (ses, x) \<Rightarrow> (se # ses, x)))"

definition me_replay ::
  "(string \<Rightarrow> pyfloat option) \<Rightarrow> pyfloat \<Rightarrow> bool \<Rightarrow> 'm mongo_env \<Rightarrow> 'm mongo_col \<Rightarrow> string list option \<Rightarrow> string list option \<Rightarrow> int option
     \<Rightarrow> 'm mongo_events \<Rightarrow> (stored_event list \<times> exn option) \<times> 'm mongo_events" where
  "me_replay of_iso now inst mo col types statuses limit s =
     (case me_ensure inst mo s of
        (Inl e, s) \<Rightarrow> (([], Some e), s)
      | (Inr _, s) \<Rightarrow> (case mg_find_sorted col (me_query types statuses) ''enqueued_at'' limit (me_events s) of (ds, e) \<Rightarrow> (me_yields of_iso now ds e, s)))"

subsection \<open>MongoDB against memory\<close>

fun me_step ::
  "(event \<Rightarrow> json dict) \<Rightarrow> (pyfloat \<Rightarrow> string) \<Rightarrow> pyfloat \<Rightarrow> 'm mongo_env \<Rightarrow> 'm mongo_col \<Rightarrow> es_op \<Rightarrow> 'm mongo_events \<Rightarrow> (exn + unit) \<times> 'm mongo_events" where
  "me_step dump isofmt now mo col (ESave en) s = me_save dump isofmt True mo col en s"
| "me_step dump isofmt now mo col (EProcessed i) s = me_mark_processed True mo col i s"
| "me_step dump isofmt now mo col (EFailed i err a) s = me_mark_failed True mo col i err a s"
| "me_step dump isofmt now mo col (EDead en err h) s = me_dead_letter dump now True mo col en err h s"

definition mongo_event_laws ::
  "'m mongo_env \<Rightarrow> 'm mongo_col \<Rightarrow> ('m \<Rightarrow> string \<Rightarrow> doc option) \<Rightarrow> ('m \<Rightarrow> doc list) \<Rightarrow> bool" where
  \<comment> \<open>an index changes no document; an update changes the one document, if there is one; documents of one time come in any order; limit 0 is no limit\<close>
  "mongo_event_laws mo col tab dlog \<longleftrightarrow> mongo_laws col tab \<and>
     (\<forall>url. mo_connect mo url = Inr ()) \<and>
     (\<forall>f m. \<exists>x m'. mo_create_index mo f m = (x, m') \<and> tab m' = tab m) \<and>
     (\<forall>m i d. doc_ok d \<longrightarrow> (\<exists>m'. mg_update_one col (by_id i) d m = (Inr (), m') \<and>
        tab m' = (case tab m i of None \<Rightarrow> tab m | Some e \<Rightarrow> (tab m)(i \<mapsto> doc_kept (dict_update e d))))) \<and>
     (\<forall>m d. doc_ok d \<longrightarrow> (\<exists>m'. mg_insert_one col d m = (Inr (), m') \<and> dlog m' = dlog m @ [doc_kept d])) \<and>
     (\<forall>q f n m. \<exists>ds. distinct ds \<and> set ds = {d \<in> ran (tab m). doc_matches q d} \<and> sorted (map (date_of f) ds) \<and>
        mg_find_sorted col q f n m = (case n of None \<Rightarrow> ds | Some k \<Rightarrow> if k = 0 then ds else take (nat \<bar>k\<bar>) ds, None))"

definition fits64 :: "int \<Rightarrow> bool" where
  "fits64 i \<longleftrightarrow> - (2 ^ 63) \<le> i \<and> i < 2 ^ 63"

definition se_fits :: "stored_event \<Rightarrow> bool" where
  "se_fits se \<longleftrightarrow> bson_fits (JObj (se_payload se)) \<and> bson_fits (JObj (se_metadata se)) \<and> fits64 (se_attempt se)"

fun op_fits :: "(event \<Rightarrow> json dict) \<Rightarrow> (string \<Rightarrow> string) \<Rightarrow> es_op \<Rightarrow> bool" where
  \<comment> \<open>values of BSON; the envelopes of one identity carry one event type\<close>
  "op_fits dump ty (ESave en) = (se_fits (stored_from_envelope dump en ''pending'') \<and> envelope_type en = ty (en_id en))"
| "op_fits dump ty (EDead en err h) = (se_fits (stored_from_envelope dump en ''pending'') \<and> envelope_type en = ty (en_id en))"
| "op_fits dump ty (EFailed i err a) = fits64 a"
| "op_fits dump ty (EProcessed i) = True"

definition millis :: "pyfloat \<Rightarrow> pyfloat" where
  "millis t = of_int \<lfloor>t * 1000\<rfloor> / 1000"

lemma millis_idem [simp]: "millis (millis t) = millis t"
  by (simp add: millis_def)

lemma me_doc_eq:
  "doc_kept (me_doc isofmt se) =
     [(''_id'', BVal (JStr (se_id se))), (''event_type'', BVal (JStr (se_event_type se))), (''payload'', BVal (JObj (se_payload se))),
      (''enqueued_at'', BDate (millis (se_enqueued_at se))), (''attempt'', BVal (JInt (se_attempt se))), (''status'', BVal (JStr (se_status se))),
      (''last_error'', BVal (jopt_str (se_last_error se))), (''metadata'', BVal (JObj (se_metadata se)))]"
  by (simp add: me_doc_def stored_to_dict_def doc_kept_def millis_def)

lemma me_doc_update:
  "doc_kept (dict_update (doc_kept (me_doc isofmt se)) [(''status'', BVal (JStr x))]) = doc_kept (me_doc isofmt (se\<lparr>se_status := x\<rparr>))"
  "doc_kept (dict_update (doc_kept (me_doc isofmt se)) [(''status'', BVal (JStr x)), (''last_error'', BVal (JStr err))]) =
     doc_kept (me_doc isofmt (se\<lparr>se_status := x, se_last_error := Some err\<rparr>))"
  "doc_kept (dict_update (doc_kept (me_doc isofmt se)) [(''status'', BVal (JStr x)), (''last_error'', BVal (JStr err)), (''attempt'', BVal (JInt a))]) =
     doc_kept (me_doc isofmt (se\<lparr>se_status := x, se_last_error := Some err, se_attempt := a\<rparr>))"
  unfolding me_doc_eq by (simp_all add: dict_update_def doc_kept_def jopt_str_def millis_def)

lemma me_doc_ok: "se_fits se \<Longrightarrow> doc_ok (me_doc isofmt se)" "dict_get (me_doc isofmt se) ''_id'' = Some (BVal (JStr (se_id se)))"
  by (auto simp: me_doc_def stored_to_dict_def doc_ok_def dict_ok_def se_fits_def fits64_def jopt_str_def split: option.splits)

definition se_view :: "stored_event \<Rightarrow> string \<times> string \<times> string \<times> string option" where
  "se_view se = (se_id se, se_event_type se, se_status se, se_last_error se)"

definition me_sim ::
  "(pyfloat \<Rightarrow> string) \<Rightarrow> (string \<Rightarrow> string) \<Rightarrow> ('m \<Rightarrow> string \<Rightarrow> doc option) \<Rightarrow> ('m \<Rightarrow> doc list) \<Rightarrow> 'm mongo_events \<Rightarrow> mem_event_store \<Rightarrow> bool" where
  "me_sim isofmt ty tab dlog s m \<longleftrightarrow> mes_inv m \<and>
     (\<exists>ev. tab (me_events s) = (\<lambda>i. map_option (\<lambda>se. doc_kept (me_doc isofmt se)) (ev i)) \<and>
        (\<forall>i. map_option se_view (ev i) = map_option se_view (mes_lookup m i)) \<and>
        (\<forall>i se. ev i = Some se \<longrightarrow> se_id se = i \<and> se_event_type se = ty i)) \<and>
     map (\<lambda>d. dict_get d ''event_id'') (dlog (me_dead s)) = map (\<lambda>i. Some (BVal (JStr i))) (mes_dead_ids m)"

lemma me_ensure_ok:
  assumes "mongo_event_laws mo col tab dlog"
  obtains s' where "me_ensure True mo s = (Inr (), s')" "tab (me_events s') = tab (me_events s)" "me_dead s' = me_dead s"
proof (cases "me_opened s")
  case True
  then show ?thesis by (intro that [of s]) (simp_all add: me_ensure_def)
next
  case False
  have idx: "tab (me_events (me_indexes mo x)) = tab (me_events x) \<and> me_dead (me_indexes mo x) = me_dead x" for x
  proof -
    obtain r1 m1 where 1: "mo_create_index mo ''enqueued_at'' (me_events x) = (r1, m1)" "tab m1 = tab (me_events x)"
      using assms unfolding mongo_event_laws_def by blast
    obtain r2 m2 where 2: "mo_create_index mo ''event_type'' m1 = (r2, m2)" "tab m2 = tab m1"
      using assms unfolding mongo_event_laws_def by blast
    obtain r3 m3 where 3: "mo_create_index mo ''status'' m2 = (r3, m3)" "tab m3 = tab m2"
      using assms unfolding mongo_event_laws_def by blast
    show ?thesis using 1 2 3 by (cases r1; cases r2) (simp_all add: me_indexes_def on_events_def)
  qed
  have "mo_connect mo (me_url s) = Inr ()" using assms by (simp add: mongo_event_laws_def)
  then show ?thesis using False idx
    by (intro that [of "me_indexes mo (s\<lparr>me_client := True, me_opened := True\<rparr>)"]) (simp_all add: me_ensure_def me_open_def)
qed

lemma me_update_ok:
  assumes laws: "mongo_event_laws mo col tab dlog" and "doc_ok d"
    and tab: "tab (me_events s) = (\<lambda>i. map_option (\<lambda>se. doc_kept (me_doc isofmt se)) (ev i))"
    and ch: "\<And>se. doc_kept (dict_update (doc_kept (me_doc isofmt se)) d) = doc_kept (me_doc isofmt (f se))"
  obtains s' where "on_events (mg_update_one col (by_id i) d) s = (Inr (), s')" "me_dead s' = me_dead s"
    "tab (me_events s') = (\<lambda>j. map_option (\<lambda>se. doc_kept (me_doc isofmt se)) (if j = i then map_option f (ev i) else ev j))"
proof -
  obtain m' where m': "mg_update_one col (by_id i) d (me_events s) = (Inr (), m')"
    "tab m' = (case tab (me_events s) i of None \<Rightarrow> tab (me_events s) | Some e \<Rightarrow> (tab (me_events s))(i \<mapsto> doc_kept (dict_update e d)))"
    using laws assms(2) unfolding mongo_event_laws_def by blast
  have "tab m' = (\<lambda>j. map_option (\<lambda>se. doc_kept (me_doc isofmt se)) (if j = i then map_option f (ev i) else ev j))"
    using m'(2) tab by (cases "ev i") (auto simp: ch fun_eq_iff)
  then show ?thesis using m'(1) by (intro that [of "s\<lparr>me_events := m'\<rparr>"]) (simp_all add: on_events_def)
qed

lemma view_change:
  assumes "\<And>x y. se_view x = se_view y \<Longrightarrow> se_view (f x) = se_view (g y)" and "map_option se_view a = map_option se_view b"
  shows "map_option se_view (map_option f a) = map_option se_view (map_option g b)"
  using assms by (cases a; cases b) auto

lemma me_sim_step:
  \<comment> \<open>the events change in the same way on both sides\<close>
  assumes sim: "me_sim isofmt ty tab dlog s m" and "mes_inv m'"
    and tab: "tab (me_events s') = (\<lambda>j. map_option (\<lambda>se. doc_kept (me_doc isofmt se)) (if j = i then x else ev j))"
    and ev: "\<forall>i. map_option se_view (ev i) = map_option se_view (mes_lookup m i)" "\<forall>i se. ev i = Some se \<longrightarrow> se_id se = i \<and> se_event_type se = ty i"
    and l: "\<And>j. j \<noteq> i \<Longrightarrow> mes_lookup m' j = mes_lookup m j" and "map_option se_view x = map_option se_view (mes_lookup m' i)"
    and "\<And>se. x = Some se \<Longrightarrow> se_id se = i \<and> se_event_type se = ty i"
    and "map (\<lambda>d. dict_get d ''event_id'') (dlog (me_dead s')) = map (\<lambda>i. Some (BVal (JStr i))) (mes_dead_ids m')"
  shows "me_sim isofmt ty tab dlog s' m'"
proof -
  have "map_option se_view (if j = i then x else ev j) = map_option se_view (mes_lookup m' j)" for j using ev(1) l assms(7) by auto
  moreover have "(if j = i then x else ev j) = Some se \<longrightarrow> se_id se = j \<and> se_event_type se = ty j" for j se using ev(2) assms(8) by auto
  ultimately have "\<exists>ev. tab (me_events s') = (\<lambda>i. map_option (\<lambda>se. doc_kept (me_doc isofmt se)) (ev i)) \<and>
      (\<forall>i. map_option se_view (ev i) = map_option se_view (mes_lookup m' i)) \<and> (\<forall>i se. ev i = Some se \<longrightarrow> se_id se = i \<and> se_event_type se = ty i)"
    using tab by (intro exI [of _ "\<lambda>j. if j = i then x else ev j"]) blast
  then show ?thesis unfolding me_sim_def using assms(2,9) by blast
qed

lemma me_step_sim:
  assumes laws: "mongo_event_laws mo col tab dlog" and sim: "me_sim isofmt ty tab dlog s m" and ok: "op_fits dump ty op"
    and seen: "\<And>en err h. op = EDead en err h \<Longrightarrow> mes_lookup m (en_id en) \<noteq> None"
  shows "\<exists>s'. me_step dump isofmt now mo col op s = (Inr (), s') \<and> me_sim isofmt ty tab dlog s' (mes_step dump op m)"
proof -
  have inv: "mes_inv m" using sim by (simp add: me_sim_def)
  obtain ev where ev: "tab (me_events s) = (\<lambda>i. map_option (\<lambda>se. doc_kept (me_doc isofmt se)) (ev i))"
    "\<forall>i. map_option se_view (ev i) = map_option se_view (mes_lookup m i)" "\<forall>i se. ev i = Some se \<longrightarrow> se_id se = i \<and> se_event_type se = ty i"
    using sim unfolding me_sim_def by blast
  have dead: "map (\<lambda>d. dict_get d ''event_id'') (dlog (me_dead s)) = map (\<lambda>i. Some (BVal (JStr i))) (mes_dead_ids m)"
    using sim unfolding me_sim_def by blast
  obtain s1 where s1: "me_ensure True mo s = (Inr (), s1)" "tab (me_events s1) = tab (me_events s)" "me_dead s1 = me_dead s"
    by (rule me_ensure_ok [OF laws])
  note tab1 = trans [OF s1(2) ev(1)]
  note inv' = mes_step_laws(1) [OF inv, of dump op] and dead' = mes_step_laws(2) [OF inv, of dump op]
  show ?thesis
  proof (cases op)
    case (ESave en)
    let ?se = "stored_from_envelope dump en ''pending''"
    have fits: "se_fits ?se" "envelope_type en = ty (en_id en)" using ok ESave by simp_all
    have "mongo_laws col tab" using laws by (simp add: mongo_event_laws_def)
    from mongo_replace [OF this me_doc_ok(1) [OF fits(1)] me_doc_ok(2)] obtain m' where
      m': "mg_replace_one col (by_id (se_id ?se)) (me_doc isofmt ?se) True (me_events s1) = (Inr (), m')"
        "tab m' = (tab (me_events s1))(se_id ?se \<mapsto> doc_kept (me_doc isofmt ?se))" by blast
    have "me_sim isofmt ty tab dlog (s1\<lparr>me_events := m'\<rparr>) (mes_step dump op m)"
    proof (rule me_sim_step [OF sim inv' _ ev(2,3)])
      show "tab (me_events (s1\<lparr>me_events := m'\<rparr>)) =
          (\<lambda>j. map_option (\<lambda>se. doc_kept (me_doc isofmt se)) (if j = en_id en then Some ?se else ev j))"
        using m'(2) tab1 by (auto simp: mes_save_id fun_eq_iff)
    qed (use ESave fits dead dead' s1(3) mes_lookup_new(1) [OF inv] in \<open>auto simp: mes_save_id stored_from_envelope_def\<close>)
    then show ?thesis using m'(1) s1(1) ESave by (simp add: me_save_def Let_def on_events_def)
  next
    case (EProcessed i)
    obtain s2 where s2: "on_events (mg_update_one col (by_id i) [(''status'', BVal (JStr ''processed''))]) s1 = (Inr (), s2)" "me_dead s2 = me_dead s1"
      "tab (me_events s2) = (\<lambda>j. map_option (\<lambda>se. doc_kept (me_doc isofmt se)) (if j = i then map_option (se_status_update (\<lambda>_. ''processed'')) (ev i) else ev j))"
      by (rule me_update_ok [OF laws _ tab1 me_doc_update(1)]) (simp add: doc_ok_def dict_ok_def)
    have "me_sim isofmt ty tab dlog s2 (mes_step dump op m)"
      by (rule me_sim_step [OF sim inv' s2(3) ev(2,3)])
        (use EProcessed ev dead dead' s1(3) s2(2) mes_lookup_mark(1) [OF inv] in \<open>auto simp: se_view_def intro!: view_change\<close>)
    then show ?thesis using s2(1) s1(1) EProcessed by (simp add: me_mark_processed_def)
  next
    case (EFailed i err a)
    let ?f = "\<lambda>se. se\<lparr>se_status := ''failed'', se_last_error := Some err, se_attempt := a\<rparr>"
    obtain s2 where s2: "on_events (mg_update_one col (by_id i)
        [(''status'', BVal (JStr ''failed'')), (''last_error'', BVal (JStr err)), (''attempt'', BVal (JInt a))]) s1 = (Inr (), s2)" "me_dead s2 = me_dead s1"
      "tab (me_events s2) = (\<lambda>j. map_option (\<lambda>se. doc_kept (me_doc isofmt se)) (if j = i then map_option ?f (ev i) else ev j))"
      by (rule me_update_ok [OF laws _ tab1 me_doc_update(3)]) (use ok EFailed in \<open>simp add: doc_ok_def dict_ok_def fits64_def\<close>)
    have "me_sim isofmt ty tab dlog s2 (mes_step dump op m)"
      by (rule me_sim_step [OF sim inv' s2(3) ev(2,3)])
        (use EFailed ev dead dead' s1(3) s2(2) mes_lookup_mark(2) [OF inv] in \<open>auto simp: se_view_def intro!: view_change\<close>)
    then show ?thesis using s2(1) s1(1) EFailed by (simp add: me_mark_failed_def)
  next
    case (EDead en err h)
    let ?f = "\<lambda>se. se\<lparr>se_status := ''dead'', se_last_error := Some err\<rparr>" and ?d = "dead_doc dump now en err h"
    have fits: "se_fits (stored_from_envelope dump en ''pending'')" "envelope_type en = ty (en_id en)" using ok EDead by simp_all
    have "doc_ok ?d"
      using fits(1) by (auto simp: dead_doc_def doc_ok_def dict_ok_def se_fits_def fits64_def stored_from_envelope_def jopt_str_def split: option.splits)
    then obtain md where md: "mg_insert_one col ?d (me_dead s1) = (Inr (), md)" "dlog md = dlog (me_dead s1) @ [doc_kept ?d]"
      using laws unfolding mongo_event_laws_def by blast
    obtain s2 where s2: "on_events (mg_update_one col (by_id (en_id en)) [(''status'', BVal (JStr ''dead'')), (''last_error'', BVal (JStr err))])
        (s1\<lparr>me_dead := md\<rparr>) = (Inr (), s2)" "me_dead s2 = me_dead (s1\<lparr>me_dead := md\<rparr>)"
      "tab (me_events s2) = (\<lambda>j. map_option (\<lambda>se. doc_kept (me_doc isofmt se)) (if j = en_id en then map_option ?f (ev (en_id en)) else ev j))"
      by (rule me_update_ok [OF laws _ _ me_doc_update(2), where s = "s1\<lparr>me_dead := md\<rparr>"]) (use tab1 in \<open>simp_all add: doc_ok_def dict_ok_def\<close>)
    obtain old where old: "mes_lookup m (en_id en) = Some old" using seen [OF EDead] by auto
    then obtain se where se: "ev (en_id en) = Some se" "se_id se = en_id en" "se_event_type se = envelope_type en"
      using ev(2) [rule_format, of "en_id en"] ev(3) fits(2) by (cases "ev (en_id en)") auto
    have "dict_get (doc_kept ?d) ''event_id'' = Some (BVal (JStr (en_id en)))" by (simp add: dead_doc_def doc_kept_def)
    then have "me_sim isofmt ty tab dlog s2 (mes_step dump op m)"
      by (intro me_sim_step [OF sim inv' s2(3) ev(2,3)])
        (use EDead se fits dead dead' s1(3) s2(2) md(2) mes_lookup_new(2) [OF inv] in \<open>auto simp: se_view_def stored_from_envelope_def\<close>)
    then show ?thesis using md(1) s2(1) s1(1) EDead by (simp add: me_dead_letter_def on_dead_def)
  qed
qed

lemma me_run:
  assumes laws: "mongo_event_laws mo col tab dlog"
  shows "me_sim isofmt ty tab dlog s m \<Longrightarrow> \<forall>op \<in> set ops. op_fits dump ty op \<Longrightarrow> fresh_saves seen ops \<Longrightarrow> dom (mes_lookup m) = set seen \<Longrightarrow>
    set (ms_order m) = set seen \<Longrightarrow>
    \<exists>s'. run_history (me_step dump isofmt now mo col) ops s = (Inr (), s') \<and> me_sim isofmt ty tab dlog s' (fold (mes_step dump) ops m) \<and>
      set (ms_order (fold (mes_step dump) ops m)) = dom (mes_lookup (fold (mes_step dump) ops m))"
proof (induction ops arbitrary: s m seen)
  case (Cons op ops)
  have inv: "mes_inv m" using Cons.prems(1) by (simp add: me_sim_def)
  have "mes_lookup m (en_id en) \<noteq> None" if "op = EDead en err h" for en err h
    using that Cons.prems(3,4) by (auto simp: dom_def)
  then obtain s1 where s1: "me_step dump isofmt now mo col op s = (Inr (), s1)" "me_sim isofmt ty tab dlog s1 (mes_step dump op m)"
    using me_step_sim [OF laws Cons.prems(1), of dump op now] Cons.prems(2) by auto
  note f = fresh_step [OF inv Cons.prems(4,3)]
  have "set (ms_order (mes_step dump op m)) = set (seen_after seen op)" using f(3) [of dump] Cons.prems(5) by (cases op) (simp_all add: seen_after_def)
  from Cons.IH [OF s1(2) _ f(1) f(2) [of dump] this] Cons.prems(2) s1(1) show ?case by auto
qed simp

lemma me_doc_read:
  "stored_from_doc of_iso now (doc_kept (me_doc isofmt se)) = Inr (se\<lparr>se_enqueued_at := millis (se_enqueued_at se)\<rparr>)"
  "date_of ''enqueued_at'' (doc_kept (me_doc isofmt se)) = millis (se_enqueued_at se)"
  "dict_get (doc_kept (me_doc isofmt se)) ''status'' = Some (BVal (JStr (se_status se)))"
proof -
  show "stored_from_doc of_iso now (doc_kept (me_doc isofmt se)) = Inr (se\<lparr>se_enqueued_at := millis (se_enqueued_at se)\<rparr>)"
    unfolding me_doc_eq
    by (cases "se_last_error se")
      (simp_all add: stored_from_doc_def stored_from_dict_def obj_get_def dict_getd_def jopt_str_def bind_result_def)
qed (simp_all add: me_doc_eq date_of_def)

lemma me_query_selects: "doc_matches (me_query types statuses) (doc_kept (me_doc isofmt se)) \<longleftrightarrow> replay_selects types statuses se"
proof -
  have parts: "doc_matches (q @ r) d \<longleftrightarrow> doc_matches q d \<and> doc_matches r d" "doc_matches [] d" "doc_matches [(f, c)] d \<longleftrightarrow> field_matches c (dict_get d f)" for q r f c d
    by (auto simp: doc_matches_def)
  have within: "field_matches (BVal (JObj [(''$in'', JList (map JStr xs))])) (Some (BVal (JStr x))) \<longleftrightarrow> x \<in> set xs" for x xs
    by (auto simp: field_matches_def)
  show ?thesis
    unfolding me_query_def parts(1) replay_selects_def me_doc_eq by (cases types; cases statuses) (simp_all add: parts(2,3) within)
qed

lemma me_yields_all:
  "\<forall>d \<in> set ds. stored_from_doc of_iso now d = Inr (g d) \<Longrightarrow> me_yields of_iso now ds None = (map g ds, None)"
  by (induction ds) auto

lemma mes_replay_set:
  assumes "set (ms_order m) = dom (mes_lookup m)"
  shows "set (mes_replay m types statuses None) = {se. \<exists>i. mes_lookup m i = Some se \<and> replay_selects types statuses se}"
proof -
  have "set (List.map_filter f xs) = {y. \<exists>x \<in> set xs. f x = Some y}" for f :: "string \<Rightarrow> stored_event option" and xs
    by (induction xs) (auto simp: map_filter_simps split: option.splits)
  then show ?thesis
    unfolding mes_replay_def replay_loop_unlimited mes_lookup_def [symmetric] assms
    using assms by (auto simp: dom_def)
qed

lemma selected_views:
  assumes "\<And>i. map_option se_view (ev i) = map_option se_view (lk i)"
  shows "{se_view se |i se. ev i = Some se \<and> replay_selects types statuses se} = {se_view se |i se. lk i = Some se \<and> replay_selects types statuses se}"
proof -
  have sel: "replay_selects types statuses x = replay_selects types statuses y" if "se_view x = se_view y" for x y
    using that by (cases types; cases statuses) (simp_all add: replay_selects_def se_view_def)
  have "(\<exists>se. ev i = Some se \<and> replay_selects types statuses se \<and> v = se_view se) \<longleftrightarrow>
      (\<exists>se. lk i = Some se \<and> replay_selects types statuses se \<and> v = se_view se)" for i v
  proof (cases "ev i")
    case None
    then show ?thesis using assms [of i] by simp
  next
    case (Some x)
    then obtain y where "lk i = Some y" "se_view x = se_view y" using assms [of i] by (cases "lk i") auto
    then show ?thesis using Some sel [of x y] by auto
  qed
  then show ?thesis by blast
qed

lemma me_replay_views:
  assumes laws: "mongo_event_laws mo col tab dlog" and sim: "me_sim isofmt ty tab dlog s m" and order: "set (ms_order m) = dom (mes_lookup m)"
  shows "\<exists>ses. fst (me_replay of_iso now True mo col types statuses None s) = (ses, None) \<and> distinct (map se_id ses) \<and> sorted (map se_enqueued_at ses) \<and>
    se_view ` set ses = se_view ` set (mes_replay m types statuses None)"
proof -
  obtain ev where ev: "tab (me_events s) = (\<lambda>i. map_option (\<lambda>se. doc_kept (me_doc isofmt se)) (ev i))"
    "\<And>i. map_option se_view (ev i) = map_option se_view (mes_lookup m i)" "\<And>i se. ev i = Some se \<Longrightarrow> se_id se = i"
    using sim unfolding me_sim_def by blast
  obtain s1 where s1: "me_ensure True mo s = (Inr (), s1)" "tab (me_events s1) = tab (me_events s)" by (rule me_ensure_ok [OF laws])
  obtain ds where ds: "distinct ds" "set ds = {d \<in> ran (tab (me_events s1)). doc_matches (me_query types statuses) d}" "sorted (map (date_of ''enqueued_at'') ds)"
    "mg_find_sorted col (me_query types statuses) ''enqueued_at'' None (me_events s1) = (ds, None)"
  proof -
    have "\<exists>ds. distinct ds \<and> set ds = {d \<in> ran (tab (me_events s1)). doc_matches (me_query types statuses) d} \<and> sorted (map (date_of ''enqueued_at'') ds) \<and>
        mg_find_sorted col (me_query types statuses) ''enqueued_at'' None (me_events s1) =
          (case None of None \<Rightarrow> ds | Some k \<Rightarrow> if k = 0 then ds else take (nat \<bar>k\<bar>) ds, None)"
      using laws unfolding mongo_event_laws_def by blast
    then show ?thesis using that by auto
  qed
  define g where "g d = projr (stored_from_doc of_iso now d)" for d
  let ?D = "\<lambda>se. doc_kept (me_doc isofmt se)" and ?K = "\<lambda>se. se\<lparr>se_enqueued_at := millis (se_enqueued_at se)\<rparr>"
  have gD: "g (?D se) = ?K se" for se by (simp add: g_def me_doc_read(1))
  have docs: "set ds = {?D se |i se. ev i = Some se \<and> replay_selects types statuses se}"
    unfolding ds(2) s1(2) ev(1) ran_def by (auto simp: me_query_selects) blast
  have "\<forall>d \<in> set ds. stored_from_doc of_iso now d = Inr (g d)" unfolding docs using gD by (auto simp: me_doc_read(1))
  then have yields: "fst (me_replay of_iso now True mo col types statuses None s) = (map g ds, None)"
    using me_yields_all [of ds of_iso now g] s1(1) ds(4) by (simp add: me_replay_def)
  have "se_enqueued_at (g d) = date_of ''enqueued_at'' d" if "d \<in> set ds" for d using that unfolding docs by (auto simp: gD me_doc_read(2))
  then have sorted: "sorted (map se_enqueued_at (map g ds))" using ds(3) by (simp add: comp_def cong: map_cong)
  have "inj_on (\<lambda>d. se_id (g d)) (set ds)" unfolding docs inj_on_def using gD ev(3) by fastforce
  then have dist: "distinct (map se_id (map g ds))" using ds(1) by (simp add: distinct_map comp_def)
  have K: "se_view (?K se) = se_view se" for se by (simp add: se_view_def)
  have "se_view ` set (map g ds) = {se_view (g (?D se)) |i se. ev i = Some se \<and> replay_selects types statuses se}" unfolding set_map docs by blast
  also have "\<dots> = {se_view se |i se. ev i = Some se \<and> replay_selects types statuses se}" by (simp only: gD K)
  also have "\<dots> = {se_view se |i se. mes_lookup m i = Some se \<and> replay_selects types statuses se}" using ev(2) by (rule selected_views)
  also have "\<dots> = se_view ` set (mes_replay m types statuses None)" unfolding mes_replay_set [OF order] by blast
  finally show ?thesis using yields sorted dist by blast
qed

text \<open>
  C29. The MongoDB store agrees with the memory store. Over any history in which an identity is saved once and its dead letters follow, no operation raises; afterwards every
  envelope has the status that the memory store gives it, and the dead letters have the same identities in the same order. A replay without a limit yields each
  selected event once, in the order of the enqueue times, and as a set these are the events of the memory store's replay, compared by identity, type, status and last error.
\<close>

theorem mongo_events_refine_memory:
  assumes laws: "mongo_event_laws mo col tab dlog" and empty: "tab e0 = Map.empty" "dlog d0 = []"
    and ok: "\<forall>op \<in> set ops. op_fits dump ty op" and fresh: "fresh_saves [] ops"
  shows "\<exists>s ses. run_history (me_step dump isofmt now mo col) ops (me_init url client e0 d0) = (Inr (), s) \<and>
    (\<forall>i. map_option (\<lambda>d. dict_get d ''status'') (tab (me_events s) i) =
      map_option (\<lambda>st. Some (BVal (JStr st))) (mes_status (fold (mes_step dump) ops mes_empty) i)) \<and>
    map (\<lambda>d. dict_get d ''event_id'') (dlog (me_dead s)) = map (\<lambda>i. Some (BVal (JStr i))) (mes_dead_ids (fold (mes_step dump) ops mes_empty)) \<and>
    fst (me_replay of_iso now True mo col types statuses None s) = (ses, None) \<and> distinct (map se_id ses) \<and> sorted (map se_enqueued_at ses) \<and>
    se_view ` set ses = se_view ` set (mes_replay (fold (mes_step dump) ops mes_empty) types statuses None)"
proof -
  let ?m = "fold (mes_step dump) ops mes_empty"
  have sim0: "me_sim isofmt ty tab dlog (me_init url client e0 d0) mes_empty"
    using empty by (auto simp: me_sim_def me_init_def mes_lookup_def mes_empty_def mes_dead_ids_def mes_dead_letters_def mes_inv_def intro!: exI [of _ Map.empty])
  obtain s where s: "run_history (me_step dump isofmt now mo col) ops (me_init url client e0 d0) = (Inr (), s)" "me_sim isofmt ty tab dlog s ?m"
    "set (ms_order ?m) = dom (mes_lookup ?m)"
  proof -
    have "dom (mes_lookup mes_empty) = set []" "set (ms_order mes_empty) = set []" by (auto simp: mes_lookup_def mes_empty_def)
    from me_run [OF laws sim0 ok fresh this, of now] show ?thesis using that by blast
  qed
  obtain ev where ev: "tab (me_events s) = (\<lambda>i. map_option (\<lambda>se. doc_kept (me_doc isofmt se)) (ev i))"
    "\<And>i. map_option se_view (ev i) = map_option se_view (mes_lookup ?m i)" "\<And>i se. ev i = Some se \<Longrightarrow> se_id se = i"
    and dead: "map (\<lambda>d. dict_get d ''event_id'') (dlog (me_dead s)) = map (\<lambda>i. Some (BVal (JStr i))) (mes_dead_ids ?m)"
    using s(2) unfolding me_sim_def by blast
  have status: "map_option (\<lambda>d. dict_get d ''status'') (tab (me_events s) i) = map_option (\<lambda>st. Some (BVal (JStr st))) (mes_status ?m i)" for i
  proof -
    have "mes_status ?m i = map_option se_status (mes_lookup ?m i)" by (simp add: mes_status_def mes_lookup_def option.map_comp comp_def)
    then show ?thesis using ev(2) [of i] by (cases "ev i"; cases "mes_lookup ?m i") (auto simp: ev(1) me_doc_read(3) se_view_def)
  qed
  show ?thesis using s(1) status dead me_replay_views [OF laws s(2,3)] by blast
qed

definition list_mongo_env :: "doc dict mongo_env" where
  "list_mongo_env = \<lparr>mo_connect = \<lambda>url. Inr (), mo_create_index = \<lambda>f m. (Inr (), m)\<rparr>"

lemma list_mongo_events: "mongo_event_laws list_mongo_env list_mongo map_of (map snd)"
proof -
  have upd: "map_of (case map_of m i of None \<Rightarrow> m | Some e \<Rightarrow> dict_set m i (f e)) = (case map_of m i of None \<Rightarrow> map_of m | Some e \<Rightarrow> (map_of m)(i \<mapsto> f e))"
    for m :: "doc dict" and i f by (simp add: update_conv' split: option.splits)
  have find: "\<exists>ds. distinct ds \<and> set ds = {d \<in> ran (map_of m). doc_matches q d} \<and> sorted (map (date_of f) ds) \<and>
      mg_find_sorted list_mongo q f n m = (case n of None \<Rightarrow> ds | Some k \<Rightarrow> if k = 0 then ds else take (nat \<bar>k\<bar>) ds, None)" for q f n m
    by (rule exI [of _ "sort_key (date_of f) (list_find q m)"])
      (use list_find_set [of q m] in \<open>auto simp: list_mongo_def Let_def split: option.splits\<close>)
  show ?thesis
    unfolding mongo_event_laws_def using list_mongo_laws find
    by (simp add: list_mongo_env_def) (simp add: list_mongo_def upd)
qed

theorem mongo_events_refine_memory_witness:
  "\<exists>s ses. run_history (me_step (\<lambda>e. []) (\<lambda>t. []) 20 list_mongo_env list_mongo)
        [ESave demo_envelope, EFailed ''e1'' ''boom'' 1, EDead demo_envelope ''boom'' None] (me_init ''mongodb://h'' False [] []) = (Inr (), s) \<and>
      fst (me_replay (\<lambda>t. None) 20 True list_mongo_env list_mongo None (Some [''dead'']) None s) = (ses, None) \<and>
      se_view ` set ses = {(''e1'', [], ''dead'', Some ''boom'')}"
proof -
  let ?ops = "[ESave demo_envelope, EFailed ''e1'' ''boom'' 1, EDead demo_envelope ''boom'' None]"
  let ?m = "fold (mes_step (\<lambda>e. [])) ?ops mes_empty"
  have ok: "\<forall>op \<in> set ?ops. op_fits (\<lambda>e. []) (\<lambda>i. []) op" by code_simp
  have fresh: "fresh_saves [] ?ops" by simp
  have ref: "se_view ` set (mes_replay ?m None (Some [''dead'']) None) = {(''e1'', [], ''dead'', Some ''boom'')}" by code_simp
  have empty: "map_of ([] :: doc dict) = Map.empty" "map snd ([] :: doc dict) = []" by simp_all
  from mongo_events_refine_memory [OF list_mongo_events empty ok fresh, where url = "''mongodb://h''" and client = False and isofmt = "\<lambda>t. []"
      and of_iso = "\<lambda>t. None" and now = 20 and types = None and statuses = "Some [''dead'']"]
  show ?thesis unfolding ref by blast
qed

text \<open>
  Where the stores differ. A dead letter of an envelope that was never saved is recorded by the memory store as a dead event, while the update of MongoDB, which does not insert,
  leaves the events as they are; a limit of 0 is no limit for MongoDB, while the loop of the memory store (and of Redis) yields one event before it looks at the limit.
\<close>

lemma mongo_dead_letter_unsaved:
  assumes laws: "mongo_event_laws mo col tab dlog" and "tab (me_events s) (en_id en) = None" and "se_fits (stored_from_envelope dump en ''pending'')"
  shows "\<exists>s'. me_dead_letter dump now True mo col en err h s = (Inr (), s') \<and> tab (me_events s') = tab (me_events s)"
proof -
  obtain s1 where s1: "me_ensure True mo s = (Inr (), s1)" "tab (me_events s1) = tab (me_events s)" by (rule me_ensure_ok [OF laws])
  let ?d = "dead_doc dump now en err h" and ?u = "[(''status'', BVal (JStr ''dead'')), (''last_error'', BVal (JStr err))]"
  have "doc_ok ?d"
    using assms(3) by (auto simp: dead_doc_def doc_ok_def dict_ok_def se_fits_def fits64_def stored_from_envelope_def jopt_str_def split: option.splits)
  then obtain md where md: "mg_insert_one col ?d (me_dead s1) = (Inr (), md)" using laws unfolding mongo_event_laws_def by blast
  have "doc_ok ?u" by (simp add: doc_ok_def dict_ok_def)
  then obtain m' where "mg_update_one col (by_id (en_id en)) ?u (me_events s1) = (Inr (), m')"
    "tab m' = (case tab (me_events s1) (en_id en) of None \<Rightarrow> tab (me_events s1) | Some e \<Rightarrow> (tab (me_events s1))(en_id en \<mapsto> doc_kept (dict_update e ?u)))"
    using laws unfolding mongo_event_laws_def by blast
  then show ?thesis using md s1 assms(2) by (simp add: me_dead_letter_def on_dead_def on_events_def)
qed

lemma replay_limit_zero:
  assumes "mes_replay m types statuses None = se # ses"
  shows "mes_replay m types statuses (Some 0) = [se]"
proof -
  have "replay_loop m types statuses (Some 0) ids k = take 1 (replay_loop m types statuses None ids k)" if "0 \<le> k" for ids k
    using that by (induction ids) (auto simp: Let_def split: option.splits)
  then show ?thesis using assms by (simp add: mes_replay_def)
qed

end
