(* ===== verification/Gateway_Base.thy ===== *)
theory Gateway_Base
  imports Errors Json_Text
begin

section \<open>Gateway foundations: errors, principals, rate limiting, model names\<close>

text \<open>
  The parts of \<^verbatim>\<open>gateway/base\<close> and \<^verbatim>\<open>gateway/shared\<close> every feature uses: the exception tree
  with the mapping to an HTTP status and an error body (\<^verbatim>\<open>base/errors.py\<close>, \<^verbatim>\<open>shared/errors.py\<close>
  and the error classes of the features), the authenticated caller (\<^verbatim>\<open>shared/principal.py\<close>), the
  token-bucket limiter (\<^verbatim>\<open>shared/rate_limit.py\<close>) and the model names (\<^verbatim>\<open>features/models_map\<close>).
  Shown: the window bound of the limiter and that spaced calls are never refused, that an
  in-band error frame is a single server-sent event holding the error body.
\<close>

subsection \<open>Errors\<close>

text \<open>The dash of some messages, a character outside the model's strings, is written as a hyphen.\<close>

record gateway_error =
  ge_status_code :: int
  ge_error_type :: string
  ge_message :: string
  ge_code :: "string option"

datatype gexn =
    Gateway gateway_error
  | Sdk exn
  | Validation "(string list \<times> string) list"  \<comment> \<open>pydantic: the location and message of each error\<close>

definition gateway_error_of :: "int \<Rightarrow> string \<Rightarrow> string \<Rightarrow> string option \<Rightarrow> gexn" where
  \<comment> \<open>an instance of a class with this status, type and default message, raised with \<open>msg\<close> if given\<close>
  "gateway_error_of status ty default_msg msg =
     Gateway \<lparr>ge_status_code = status, ge_error_type = ty,
              ge_message = (case msg of None \<Rightarrow> default_msg | Some m \<Rightarrow> m), ge_code = None\<rparr>"

definition MissingApiKey :: gexn where
  "MissingApiKey = gateway_error_of 401 ''authentication_error'' (''Missing API key - send 'Authorization: Bearer sk-...'' @ [CHR 0x27]) None"

definition InvalidApiKey :: gexn where
  "InvalidApiKey = gateway_error_of 401 ''authentication_error'' ''Invalid API key'' None"

definition RevokedApiKey :: gexn where
  "RevokedApiKey = gateway_error_of 401 ''authentication_error'' ''API key has been revoked'' None"

definition AdminForbidden :: gexn where
  "AdminForbidden = gateway_error_of 401 ''authentication_error'' ''Invalid or missing admin token'' None"

definition AccountForbidden :: gexn where
  "AccountForbidden = gateway_error_of 403 ''permission_error'' ''This API key may not target that account'' None"

definition AccountNotFound :: "string \<Rightarrow> gexn" where
  "AccountNotFound m = gateway_error_of 404 ''not_found_error'' ''Account not found'' (Some m)"

definition AccountUnavailable :: "string \<Rightarrow> gexn" where
  "AccountUnavailable m = gateway_error_of 404 ''not_found_error'' ''Account is not registered in the pool'' (Some m)"

definition CookieParseError :: "string \<Rightarrow> gexn" where
  "CookieParseError m = gateway_error_of 400 ''invalid_request_error'' ''Could not parse cookies'' (Some m)"

definition KeyTargetRequired :: gexn where
  "KeyTargetRequired =
     gateway_error_of 400 ''invalid_request_error'' (''generate requires either 'account_id' or 'cookies'' @ [CHR 0x27]) None"

definition NoMessages :: gexn where
  "NoMessages = gateway_error_of 400 ''invalid_request_error'' ''Request contains no usable message text'' None"

definition UnknownMethod :: "string \<Rightarrow> gexn" where
  "UnknownMethod m = gateway_error_of 400 ''invalid_request_error'' ''Unknown method'' (Some m)"

definition MethodParamsInvalid :: "string \<Rightarrow> gexn" where
  "MethodParamsInvalid m = gateway_error_of 422 ''invalid_request_error'' ''Invalid params for method'' (Some m)"

definition MultipartNotSupported :: "string \<Rightarrow> gexn" where
  "MultipartNotSupported m =
     gateway_error_of 400 ''invalid_request_error'' ''Multipart methods are not callable via generic dispatch - use the dedicated endpoint'' (Some m)"

definition RateLimited :: gexn where
  "RateLimited = gateway_error_of 429 ''rate_limit_error'' ''Rate limit exceeded - slow down'' None"

definition TYPE_BY_STATUS :: "(int \<times> string) list" where
  "TYPE_BY_STATUS =
     [(400, ''invalid_request_error''), (401, ''authentication_error''), (403, ''permission_error''),
      (404, ''not_found_error''), (409, ''conflict_error''), (422, ''invalid_request_error''), (429, ''rate_limit_error'')]"

record error_response =
  er_status :: int
  er_payload :: json

definition error_envelope :: "string \<Rightarrow> string \<Rightarrow> string option \<Rightarrow> json" where
  "error_envelope message ty code =
     JObj [(''error'', JObj [(''message'', JStr message), (''type'', JStr ty),
                             (''code'', case code of None \<Rightarrow> JNull | Some c \<Rightarrow> JStr c)])]"

definition first_validation_message :: "(string list \<times> string) list \<Rightarrow> string" where
  "first_validation_message errors =
     (case errors of
        [] \<Rightarrow> ''Invalid request''
      | (loc, msg) # _ \<Rightarrow> let l = join ''.'' loc in if l \<noteq> [] then l @ '': '' @ msg else msg)"

definition sdk_error :: "exn \<Rightarrow> bool" where
  \<comment> \<open>\<open>isinstance(exc, ClaudeAIError)\<close> for an exception that is no \<open>APIError\<close>\<close>
  "sdk_error e = (case e of StreamError _ _ _ \<Rightarrow> True | SessionError _ _ \<Rightarrow> True | NetworkError _ _ \<Rightarrow> True | _ \<Rightarrow> False)"

definition map_exception :: "gexn \<Rightarrow> error_response" where
  "map_exception exc =
     (case exc of
        Gateway g \<Rightarrow>
          (let ty = (if ge_error_type g \<noteq> [] then ge_error_type g else dict_getd TYPE_BY_STATUS (ge_status_code g) ''api_error'')
           in \<lparr>er_status = ge_status_code g, er_payload = error_envelope (ge_message g) ty (ge_code g)\<rparr>)
      | Validation errors \<Rightarrow> \<lparr>er_status = 422, er_payload = error_envelope (first_validation_message errors) ''invalid_request_error'' None\<rparr>
      | Sdk e \<Rightarrow>
          (case e of
             Api a \<Rightarrow>
               (let status = api_status_code a;
                    ty = dict_getd TYPE_BY_STATUS status (if status < 500 then ''api_error'' else ''server_error'')
                in \<lparr>er_status = status, er_payload = error_envelope (exn_str e) ty None\<rparr>)
           | _ \<Rightarrow>
               if sdk_error e
               then \<lparr>er_status = 502, er_payload = error_envelope (if exn_str e \<noteq> [] then exn_str e else ''Upstream error'') ''api_error'' (Some ''upstream_error'')\<rparr>
               else \<lparr>er_status = 500, er_payload = error_envelope ''Internal server error'' ''server_error'' None\<rparr>))"

definition LF :: char where
  "LF = CHR 0x0A"

definition error_sse_frame :: "(pyfloat \<Rightarrow> string) \<Rightarrow> gexn \<Rightarrow> string" where
  "error_sse_frame fr exc = ''data: '' @ json_dumps fr (er_payload (map_exception exc)) @ [LF, LF]"

lemma envelope_plain: "plain (error_envelope m t c)"
  by (simp add: error_envelope_def dict_ok_def split: option.split)

lemma map_exception_envelope: "\<exists>m t c. er_payload (map_exception exc) = error_envelope m t c"
  by (auto simp: map_exception_def Let_def split: gexn.split exn.split)

lemma dumps_envelope_ascii:
  "\<forall>c \<in> set (json_dumps fr (error_envelope m t code)). 32 \<le> (of_char c :: nat)"
  using dump_string_ascii by (auto simp: error_envelope_def split: option.split)

subsection \<open>Callers\<close>

datatype key_scope = SCOPE_ACCOUNT | SCOPE_ADMIN

record principal =
  pr_key_id :: string
  pr_account_id :: account_id
  pr_scope :: key_scope
  pr_org_uuid :: "string option"

definition is_admin :: "principal \<Rightarrow> bool" where
  "is_admin p \<longleftrightarrow> pr_scope p = SCOPE_ADMIN"

subsection \<open>Model names\<close>

definition KNOWN_CLAUDE :: "string list" where
  "KNOWN_CLAUDE = [''claude-opus-4-6'', ''claude-sonnet-4-6'', ''claude-haiku-4-5'']"

definition DEFAULT_ALIASES :: "string dict" where
  "DEFAULT_ALIASES =
     [(''gemini-3.5-flash'', ''claude-haiku-4-5''), (''gemini-3.5-flash-thinking'', ''claude-sonnet-4-6''),
      (''gemini-3.5-pro'', ''claude-opus-4-6''), (''gpt-4o'', ''claude-sonnet-4-6''), (''gpt-4o-mini'', ''claude-haiku-4-5''),
      (''gpt-4-turbo'', ''claude-opus-4-6''), (''claude-3-opus'', ''claude-opus-4-6''),
      (''claude-3-sonnet'', ''claude-sonnet-4-6''), (''claude-3-haiku'', ''claude-haiku-4-5'')]"

record model_mapper =
  mm_aliases :: "string dict"
  mm_default :: string

definition mapper_init :: "string dict option \<Rightarrow> string \<Rightarrow> model_mapper" where
  "mapper_init aliases default_model =
     \<lparr>mm_aliases = dict_update DEFAULT_ALIASES (case aliases of None \<Rightarrow> [] | Some a \<Rightarrow> a), mm_default = default_model\<rparr>"

definition resolve_model :: "model_mapper \<Rightarrow> string \<Rightarrow> string" where
  "resolve_model m name =
     (case dict_get (mm_aliases m) name of
        Some x \<Rightarrow> x
      | None \<Rightarrow> if name \<in> set KNOWN_CLAUDE then name else mm_default m)"

definition list_model_ids :: "model_mapper \<Rightarrow> string list" where
  "list_model_ids m = sort (remdups (dict_keys (mm_aliases m) @ KNOWN_CLAUDE))"

lemma resolve_model_known:
  assumes "set (dict_values (mm_aliases m)) \<subseteq> set KNOWN_CLAUDE" and "mm_default m \<in> set KNOWN_CLAUDE"
  shows "resolve_model m name \<in> set KNOWN_CLAUDE"
  using assms by (force simp: resolve_model_def split: option.split dest: map_of_SomeD)

subsection \<open>The token bucket\<close>

record token_bucket =
  tb_capacity :: pyfloat
  tb_refill_per_sec :: pyfloat
  tb_tokens :: pyfloat
  tb_last :: pyfloat

definition bucket_init :: "pyfloat \<Rightarrow> pyfloat \<Rightarrow> pyfloat \<Rightarrow> pyfloat \<Rightarrow> token_bucket" where
  \<comment> \<open>the dataclass constructor with \<open>__post_init__\<close>: no tokens given means a full bucket\<close>
  "bucket_init capacity refill tokens now =
     \<lparr>tb_capacity = capacity, tb_refill_per_sec = refill, tb_tokens = (if tokens = 0 then capacity else tokens), tb_last = now\<rparr>"

definition bucket_allow :: "pyfloat \<Rightarrow> pyfloat \<Rightarrow> token_bucket \<Rightarrow> bool \<times> token_bucket" where
  "bucket_allow cost now b =
     (let tokens = min (tb_capacity b) (tb_tokens b + (now - tb_last b) * tb_refill_per_sec b);
          b1 = b\<lparr>tb_tokens := tokens, tb_last := now\<rparr>
      in if tokens \<ge> cost then (True, b1\<lparr>tb_tokens := tokens - cost\<rparr>) else (False, b1))"

record rate_limiter =
  rl_per_min :: int
  rl_buckets :: "token_bucket dict"

definition limiter_init :: "int \<Rightarrow> rate_limiter" where
  "limiter_init per_min = \<lparr>rl_per_min = per_min, rl_buckets = []\<rparr>"

definition limiter_allow :: "string \<Rightarrow> pyfloat \<Rightarrow> pyfloat \<Rightarrow> rate_limiter \<Rightarrow> bool \<times> rate_limiter" where
  \<comment> \<open>the clock is read at \<open>made\<close> when a bucket is created and at \<open>now\<close> by \<open>bucket.allow()\<close>\<close>
  "limiter_allow key made now l =
     (if rl_per_min l \<le> 0 then (True, l)
      else (let bucket = (case dict_get (rl_buckets l) key of
                            Some b \<Rightarrow> b
                          | None \<Rightarrow> bucket_init (of_int (rl_per_min l)) (of_int (rl_per_min l) / 60) 0 made);
                (ok, b) = bucket_allow 1 now bucket
            in (ok, l\<lparr>rl_buckets := dict_set (rl_buckets l) key b\<rparr>)))"

text \<open>A call is a key with its two clock readings; a run answers the calls one after the other.\<close>

type_synonym limiter_call = "string \<times> pyfloat \<times> pyfloat"

fun limiter_run :: "limiter_call list \<Rightarrow> rate_limiter \<Rightarrow> (limiter_call \<times> bool) list" where
  "limiter_run [] l = []"
| "limiter_run ((key, made, now) # cs) l =
     (let (ok, l1) = limiter_allow key made now l in ((key, made, now), ok) # limiter_run cs l1)"

fun bucket_run :: "pyfloat list \<Rightarrow> token_bucket \<Rightarrow> bool list" where
  "bucket_run [] b = []"
| "bucket_run (t # ts) b = (let (ok, b1) = bucket_allow 1 t b in ok # bucket_run ts b1)"

fun clocked :: "pyfloat \<Rightarrow> limiter_call list \<Rightarrow> bool" where
  \<comment> \<open>the readings of a monotonic clock\<close>
  "clocked t [] = True"
| "clocked t ((key, made, now) # cs) = (t \<le> made \<and> made \<le> now \<and> clocked now cs)"

definition answers :: "string \<Rightarrow> (limiter_call \<times> bool) list \<Rightarrow> bool list" where
  "answers key rs = map snd (filter (\<lambda>r. fst (fst r) = key) rs)"

definition times_of :: "string \<Rightarrow> limiter_call list \<Rightarrow> pyfloat list" where
  "times_of key cs = map (\<lambda>(k, made, now). now) (filter (\<lambda>c. fst c = key) cs)"

definition bucket_ok :: "token_bucket \<Rightarrow> bool" where
  "bucket_ok b \<longleftrightarrow> 0 \<le> tb_tokens b \<and> tb_tokens b \<le> tb_capacity b \<and> 0 \<le> tb_refill_per_sec b"

lemma bucket_allow_ok:
  assumes "bucket_ok b" and "tb_last b \<le> t" and "bucket_allow 1 t b = (ok, b1)"
  shows "bucket_ok b1 \<and> tb_last b1 = t \<and> tb_capacity b1 = tb_capacity b \<and> tb_refill_per_sec b1 = tb_refill_per_sec b \<and>
     tb_tokens b1 + (if ok then 1 else 0) \<le> tb_tokens b + (t - tb_last b) * tb_refill_per_sec b \<and>
     tb_tokens b1 + (if ok then 1 else 0) \<le> tb_capacity b"
proof -
  have "0 \<le> (t - tb_last b) * tb_refill_per_sec b" using assms(1,2) by (simp add: bucket_ok_def)
  then show ?thesis
    using assms(1,3) by (auto simp: bucket_allow_def bucket_ok_def Let_def split: if_splits)
qed

lemma bucket_run_count:
  assumes "bucket_ok b" and "sorted (tb_last b # ts)"
  shows "of_nat (count_list (bucket_run ts b) True) \<le> tb_tokens b + (last (tb_last b # ts) - tb_last b) * tb_refill_per_sec b"
  using assms
proof (induction ts arbitrary: b)
  case Nil
  then show ?case by (simp add: bucket_ok_def)
next
  case (Cons t ts)
  obtain ok b1 where a: "bucket_allow 1 t b = (ok, b1)" by fastforce
  note s = bucket_allow_ok [OF Cons.prems(1) _ a]
  have le: "tb_last b \<le> t" using Cons.prems(2) by simp
  have "of_nat (count_list (bucket_run ts b1) True) \<le> tb_tokens b1 + (last (t # ts) - t) * tb_refill_per_sec b"
    using Cons.IH [of b1] s [OF le] Cons.prems(2) by simp
  then show ?case
    using s [OF le] a by (auto simp: algebra_simps split: if_splits)
qed

lemma bucket_run_window:
  \<comment> \<open>the bound over a window that starts at its first call, whatever was left in the bucket\<close>
  assumes "bucket_ok b" and "sorted (tb_last b # t # ts)"
  shows "of_nat (count_list (bucket_run (t # ts) b) True) \<le> tb_capacity b + (last (t # ts) - t) * tb_refill_per_sec b"
proof -
  obtain ok b1 where a: "bucket_allow 1 t b = (ok, b1)" by fastforce
  have le: "tb_last b \<le> t" using assms(2) by simp
  note s = bucket_allow_ok [OF assms(1) le a]
  have "of_nat (count_list (bucket_run ts b1) True) \<le> tb_tokens b1 + (last (t # ts) - t) * tb_refill_per_sec b"
    using bucket_run_count [of b1 ts] s assms(2) by simp
  then show ?thesis using s a by (auto split: if_splits)
qed

lemma bucket_run_spaced:
  assumes "bucket_ok b" and "1 \<le> tb_capacity b" and "sorted_wrt (\<lambda>x y. 1 \<le> (y - x) * tb_refill_per_sec b \<and> x \<le> y) ts"
    and "ts \<noteq> [] \<Longrightarrow> tb_last b \<le> hd ts \<and> 1 \<le> tb_tokens b + (hd ts - tb_last b) * tb_refill_per_sec b"
  shows "set (bucket_run ts b) \<subseteq> {True}"
  using assms
proof (induction ts arbitrary: b)
  case Nil
  then show ?case by simp
next
  case (Cons t ts)
  obtain ok b1 where a: "bucket_allow 1 t b = (ok, b1)" by fastforce
  have le: "tb_last b \<le> t" using Cons.prems(4) by simp
  note s = bucket_allow_ok [OF Cons.prems(1) le a]
  have ok: "ok" using a Cons.prems(2,4) by (auto simp: bucket_allow_def Let_def split: if_splits)
  have "set (bucket_run ts b1) \<subseteq> {True}"
  proof (rule Cons.IH)
    show "bucket_ok b1" "1 \<le> tb_capacity b1" using s Cons.prems(2) by auto
    show "sorted_wrt (\<lambda>x y. 1 \<le> (y - x) * tb_refill_per_sec b1 \<and> x \<le> y) ts" using Cons.prems(3) s by simp
    show "tb_last b1 \<le> hd ts \<and> 1 \<le> tb_tokens b1 + (hd ts - tb_last b1) * tb_refill_per_sec b1" if "ts \<noteq> []"
    proof -
      have "1 \<le> (hd ts - t) * tb_refill_per_sec b" "t \<le> hd ts" using Cons.prems(3) that by (cases ts; simp)+
      then show ?thesis using s by (simp add: bucket_ok_def)
    qed
  qed
  then show ?case using ok a by simp
qed

definition limiter_ok :: "pyfloat \<Rightarrow> rate_limiter \<Rightarrow> bool" where
  "limiter_ok t l \<longleftrightarrow> 0 < rl_per_min l \<and>
     (\<forall>key b. dict_get (rl_buckets l) key = Some b \<longrightarrow>
        bucket_ok b \<and> tb_last b \<le> t \<and> tb_capacity b = of_int (rl_per_min l) \<and> tb_refill_per_sec b = of_int (rl_per_min l) / 60)"

definition bucket_for :: "string \<Rightarrow> pyfloat \<Rightarrow> rate_limiter \<Rightarrow> token_bucket" where
  "bucket_for key made l =
     (case dict_get (rl_buckets l) key of
        Some b \<Rightarrow> b | None \<Rightarrow> bucket_init (of_int (rl_per_min l)) (of_int (rl_per_min l) / 60) 0 made)"

lemma bucket_for_ok:
  "limiter_ok t l \<Longrightarrow> t \<le> made \<Longrightarrow> bucket_ok (bucket_for key made l) \<and> tb_last (bucket_for key made l) \<le> made \<and>
     tb_capacity (bucket_for key made l) = of_int (rl_per_min l) \<and> tb_refill_per_sec (bucket_for key made l) = of_int (rl_per_min l) / 60"
proof (cases "dict_get (rl_buckets l) key")
  case (Some b)
  assume "limiter_ok t l" "t \<le> made"
  with Some have "bucket_ok b \<and> tb_last b \<le> t \<and> tb_capacity b = of_int (rl_per_min l) \<and> tb_refill_per_sec b = of_int (rl_per_min l) / 60"
    unfolding limiter_ok_def by blast
  then show ?thesis using Some \<open>t \<le> made\<close> by (simp add: bucket_for_def)
qed (simp add: limiter_ok_def bucket_for_def bucket_init_def bucket_ok_def)

lemma limiter_allow_eq:
  "0 < rl_per_min l \<Longrightarrow> limiter_allow key made now l =
     (fst (bucket_allow 1 now (bucket_for key made l)),
      l\<lparr>rl_buckets := dict_set (rl_buckets l) key (snd (bucket_allow 1 now (bucket_for key made l)))\<rparr>)"
  by (simp add: limiter_allow_def bucket_for_def Let_def case_prod_unfold)

lemma limiter_allow_ok:
  assumes "limiter_ok t l" and "t \<le> made" and "made \<le> now"
  shows "limiter_ok now (snd (limiter_allow key made now l))"
proof -
  note b = bucket_for_ok [OF assms(1,2), of key]
  have last: "tb_last (bucket_for key made l) \<le> now" using b assms(3) by simp
  obtain ok b1 where a: "bucket_allow 1 now (bucket_for key made l) = (ok, b1)" by fastforce
  have pos: "0 < rl_per_min l" using assms(1) by (simp add: limiter_ok_def)
  show ?thesis
    using assms b bucket_allow_ok [OF _ last a] a unfolding limiter_allow_eq [OF pos]
    by (fastforce simp: limiter_ok_def)
qed

lemma limiter_run_key:
  assumes "limiter_ok t l" and "clocked t cs" and "dict_get (rl_buckets l) key = Some b"
  shows "answers key (limiter_run cs l) = bucket_run (times_of key cs) b"
  using assms
proof (induction cs l arbitrary: t b rule: limiter_run.induct)
  case (1 l)
  then show ?case by (simp add: answers_def times_of_def)
next
  case (2 k made now cs l)
  obtain ok l1 where a: "limiter_allow k made now l = (ok, l1)" by fastforce
  have pos: "0 < rl_per_min l" using 2 by (simp add: limiter_ok_def)
  have ok1: "limiter_ok now l1" using limiter_allow_ok [of t l made now k] 2 a by simp
  have l1: "ok = fst (bucket_allow 1 now (bucket_for k made l))"
    "rl_buckets l1 = dict_set (rl_buckets l) k (snd (bucket_allow 1 now (bucket_for k made l)))"
    using a unfolding limiter_allow_eq [OF pos] by auto
  show ?case
  proof (cases "k = key")
    case True
    have "bucket_for k made l = b" using 2 True by (simp add: bucket_for_def)
    then have "answers key (limiter_run cs l1) = bucket_run (times_of key cs) (snd (bucket_allow 1 now b))"
      using "2.IH" [OF a [symmetric] refl ok1] 2 l1 True by simp
    then show ?thesis
      using True a l1 \<open>bucket_for k made l = b\<close> by (simp add: answers_def times_of_def case_prod_unfold Let_def)
  next
    case False
    have "answers key (limiter_run cs l1) = bucket_run (times_of key cs) b"
      using "2.IH" [OF a [symmetric] refl ok1] 2 l1 False by simp
    then show ?thesis using False a by (simp add: answers_def times_of_def)
  qed
qed

lemma times_of_Cons: "times_of key ((k, made, now) # cs) = (if k = key then now # times_of key cs else times_of key cs)"
  by (simp add: times_of_def)

lemma clocked_times: "clocked t cs \<Longrightarrow> sorted (t # times_of key cs)"
proof (induction t cs rule: clocked.induct)
  case (1 t)
  then show ?case by (simp add: times_of_def)
next
  case (2 t k made now cs)
  then have s: "sorted (now # times_of key cs)" "t \<le> now" by auto
  then have "sorted (t # now # times_of key cs)" by (simp only: sorted2)
  then show ?case by (auto simp: times_of_Cons)
qed

lemma limiter_run_fresh:
  assumes "limiter_ok t l" and "clocked t cs"
  shows "\<exists>b. bucket_ok b \<and> tb_capacity b = of_int (rl_per_min l) \<and> tb_refill_per_sec b = of_int (rl_per_min l) / 60 \<and>
     sorted (tb_last b # times_of key cs) \<and> answers key (limiter_run cs l) = bucket_run (times_of key cs) b \<and>
     (dict_get (rl_buckets l) key = None \<longrightarrow> tb_tokens b = tb_capacity b)"
  using assms
proof (induction cs l arbitrary: t rule: limiter_run.induct)
  case (1 l)
  then show ?case
    by (intro exI [of _ "bucket_init (of_int (rl_per_min l)) (of_int (rl_per_min l) / 60) 0 0"])
       (auto simp: answers_def times_of_def bucket_init_def bucket_ok_def limiter_ok_def)
next
  case (2 k made now cs l)
  obtain ok l1 where a: "limiter_allow k made now l = (ok, l1)" by fastforce
  have pos: "0 < rl_per_min l" using 2 by (simp add: limiter_ok_def)
  have ok1: "limiter_ok now l1" using limiter_allow_ok [of t l made now k] 2 a by simp
  have l1: "ok = fst (bucket_allow 1 now (bucket_for k made l))" "rl_per_min l1 = rl_per_min l"
    "rl_buckets l1 = dict_set (rl_buckets l) k (snd (bucket_allow 1 now (bucket_for k made l)))"
    using a unfolding limiter_allow_eq [OF pos] by auto
  have rest: "sorted (now # times_of key cs)" using clocked_times [of now cs] 2(3) by simp
  show ?case
  proof (cases "k = key")
    case True
    let ?b = "bucket_for k made l"
    have b: "bucket_ok ?b \<and> tb_last ?b \<le> made \<and> tb_capacity ?b = of_int (rl_per_min l) \<and> tb_refill_per_sec ?b = of_int (rl_per_min l) / 60"
      using bucket_for_ok 2 by simp
    have "answers key (limiter_run cs l1) = bucket_run (times_of key cs) (snd (bucket_allow 1 now ?b))"
      using limiter_run_key [OF ok1] 2(3) l1 True by simp
    then have f1: "answers key (limiter_run ((k, made, now) # cs) l) = bucket_run (times_of key ((k, made, now) # cs)) ?b"
      using True a l1 by (simp add: answers_def times_of_def case_prod_unfold Let_def)
    have f2: "sorted (tb_last ?b # times_of key ((k, made, now) # cs))"
    proof -
      have "tb_last ?b \<le> now" using b 2(3) by simp
      then have "sorted (tb_last ?b # now # times_of key cs)" using rest by (simp only: sorted2)
      then show ?thesis using True by (simp only: times_of_Cons if_True simp_thms)
    qed
    have f3: "dict_get (rl_buckets l) key = None \<longrightarrow> tb_tokens ?b = tb_capacity ?b"
      using True by (simp add: bucket_for_def bucket_init_def)
    show ?thesis using b f1 f2 f3 by (intro exI [of _ ?b] conjI) (simp_all only: simp_thms)
  next
    case False
    then show ?thesis
      using "2.IH" [OF a [symmetric] refl ok1] 2(3) l1 a by (simp add: answers_def times_of_def)
  qed
qed

lemma limiter_run_append:
  assumes "limiter_ok t l" and "clocked t (pre @ win)"
  shows "\<exists>u m. limiter_ok u m \<and> clocked u win \<and> rl_per_min m = rl_per_min l \<and> drop (length pre) (limiter_run (pre @ win) l) = limiter_run win m"
  using assms
proof (induction pre l arbitrary: t rule: limiter_run.induct)
  case (1 l)
  then show ?case by auto
next
  case (2 k made now cs l)
  obtain ok l1 where a: "limiter_allow k made now l = (ok, l1)" by fastforce
  have pos: "0 < rl_per_min l" using 2 by (simp add: limiter_ok_def)
  have "rl_per_min l1 = rl_per_min l" using a unfolding limiter_allow_eq [OF pos] by auto
  moreover have "limiter_ok now l1" using limiter_allow_ok [of t l made now k] 2 a by simp
  ultimately show ?case
    using "2.IH" [OF a [symmetric] refl] 2(3) a by fastforce
qed

lemma bucket_window_bound:
  assumes "bucket_ok b" and "sorted (tb_last b # ts)" and "\<forall>t \<in> set ts. lo \<le> t \<and> t \<le> hi" and "lo \<le> hi"
  shows "of_nat (count_list (bucket_run ts b) True) \<le> tb_capacity b + (hi - lo) * tb_refill_per_sec b"
proof (cases ts)
  case Nil
  have "0 \<le> (hi - lo) * tb_refill_per_sec b" "0 \<le> tb_capacity b" using assms(1,4) by (auto simp: bucket_ok_def)
  then show ?thesis using Nil by simp
next
  case (Cons t ts')
  have "last ts \<in> set ts" using Cons by simp
  then have "last (t # ts') - t \<le> hi - lo" using assms(3) Cons by (auto intro: diff_mono)
  then have "(last (t # ts') - t) * tb_refill_per_sec b \<le> (hi - lo) * tb_refill_per_sec b"
    using assms(1) by (intro mult_right_mono) (auto simp: bucket_ok_def)
  then show ?thesis using bucket_run_window [OF assms(1) assms(2) [unfolded Cons]] Cons by simp
qed

lemma rate_limiter_count:
  assumes "0 < per_min" and "clocked t (pre @ win)"
    and "\<forall>s \<in> set (times_of key win). lo \<le> s \<and> s \<le> hi" and "lo \<le> hi"
  shows "of_nat (count_list (answers key (drop (length pre) (limiter_run (pre @ win) (limiter_init per_min)))) True)
      \<le> of_int per_min + (hi - lo) * (of_int per_min / 60)"
proof -
  have init: "limiter_ok t (limiter_init per_min)" using assms(1) by (simp add: limiter_ok_def limiter_init_def)
  obtain u m where m: "limiter_ok u m" "clocked u win" "rl_per_min m = per_min"
    "drop (length pre) (limiter_run (pre @ win) (limiter_init per_min)) = limiter_run win m"
    using limiter_run_append [OF init assms(2)] by (auto simp: limiter_init_def)
  obtain b where b: "bucket_ok b" "tb_capacity b = of_int per_min" "tb_refill_per_sec b = of_int per_min / 60"
    "sorted (tb_last b # times_of key win)" "answers key (limiter_run win m) = bucket_run (times_of key win) b"
    using limiter_run_fresh [OF m(1,2), of key] m(3) by metis
  show ?thesis
    using bucket_window_bound [OF b(1,4) assms(3,4)] b m(4) by simp
qed

lemma rate_limiter_spaced:
  assumes "0 < per_min" and "clocked t cs" and spaced: "sorted_wrt (\<lambda>x y. 60 / of_int per_min \<le> y - x) (times_of key cs)"
  shows "set (answers key (limiter_run cs (limiter_init per_min))) \<subseteq> {True}"
proof -
  have init: "limiter_ok t (limiter_init per_min)" using assms(1) by (simp add: limiter_ok_def limiter_init_def)
  obtain b where b: "bucket_ok b" "tb_capacity b = of_int per_min" "tb_refill_per_sec b = of_int per_min / 60"
    "sorted (tb_last b # times_of key cs)"
    "answers key (limiter_run cs (limiter_init per_min)) = bucket_run (times_of key cs) b"
    "tb_tokens b = tb_capacity b"
    using limiter_run_fresh [OF init assms(2), of key] by (auto simp: limiter_init_def)
  have pos: "0 < (of_int per_min :: rat)" using assms(1) by simp
  have step: "1 \<le> (y - x) * tb_refill_per_sec b \<and> x \<le> y" if "60 / of_int per_min \<le> y - x" for x y
  proof -
    have "0 < 60 / (of_int per_min :: rat)" using pos by simp
    moreover have "60 / of_int per_min * tb_refill_per_sec b \<le> (y - x) * tb_refill_per_sec b"
      using that b(1) by (intro mult_right_mono) (auto simp: bucket_ok_def)
    moreover have "60 / of_int per_min * tb_refill_per_sec b = 1" using pos b(3) by simp
    ultimately show ?thesis using that by linarith
  qed
  have cap: "1 \<le> tb_capacity b" using assms(1) b(2) by simp
  have "set (bucket_run (times_of key cs) b) \<subseteq> {True}"
  proof (rule bucket_run_spaced [OF b(1) cap])
    show "sorted_wrt (\<lambda>x y. 1 \<le> (y - x) * tb_refill_per_sec b \<and> x \<le> y) (times_of key cs)"
      by (rule sorted_wrt_mono_rel [OF _ spaced]) (rule step)
    show "tb_last b \<le> hd (times_of key cs) \<and> 1 \<le> tb_tokens b + (hd (times_of key cs) - tb_last b) * tb_refill_per_sec b"
      if "times_of key cs \<noteq> []"
    proof -
      have le: "tb_last b \<le> hd (times_of key cs)" using b(4) that by (cases "times_of key cs") auto
      then have "0 \<le> (hd (times_of key cs) - tb_last b) * tb_refill_per_sec b" using b(1) by (simp add: bucket_ok_def)
      then show ?thesis using le cap b(6) by linarith
    qed
  qed
  then show "set (answers key (limiter_run cs (limiter_init per_min))) \<subseteq> {True}" using b(5) by simp
qed

text \<open>
  C9. The rate limiter of the gateway keeps its promise per API key: in every stretch of a run of
  calls, however calls of other keys are mixed in, a key is allowed at most \<open>per_min\<close> calls plus
  \<open>per_min / 60\<close> per second between any two bounds on the times of its calls there; and a key
  whose calls are at least \<open>60 / per_min\<close> seconds apart is never refused.
\<close>

theorem rate_limiter_window:
  assumes "0 < per_min" and "clocked t (pre @ win)"
    and "\<forall>s \<in> set (times_of key win). lo \<le> s \<and> s \<le> hi" and "lo \<le> hi"
  shows "of_nat (count_list (answers key (drop (length pre) (limiter_run (pre @ win) (limiter_init per_min)))) True)
      \<le> of_int per_min + (hi - lo) * (of_int per_min / 60) \<and>
    (sorted_wrt (\<lambda>x y. 60 / of_int per_min \<le> y - x) (times_of key (pre @ win)) \<longrightarrow>
      set (answers key (limiter_run (pre @ win) (limiter_init per_min))) \<subseteq> {True})"
  using rate_limiter_count [OF assms] rate_limiter_spaced [OF assms(1,2)] by blast

definition demo_calls :: "limiter_call list" where
  "demo_calls = [(''k'', 0, 1), (''k'', 2, 2), (''x'', 3, 3), (''k'', 4, 5), (''k'', 40, 41)]"

theorem rate_limiter_window_witness:
  "of_nat (count_list (answers ''k'' (drop 1 (limiter_run demo_calls (limiter_init 2)))) True)
      \<le> (of_int 2 + (41 - 2) * (of_int 2 / 60) :: rat) \<and>
   answers ''k'' (limiter_run demo_calls (limiter_init 2)) = [True, True, False, True]"
proof
  show "of_nat (count_list (answers ''k'' (drop 1 (limiter_run demo_calls (limiter_init 2)))) True)
      \<le> (of_int 2 + (41 - 2) * (of_int 2 / 60) :: rat)"
    using rate_limiter_window [of 2 0 "take 1 demo_calls" "drop 1 demo_calls" "''k''" 2 41]
    by (simp add: demo_calls_def times_of_def)
  show "answers ''k'' (limiter_run demo_calls (limiter_init 2)) = [True, True, False, True]"
    by code_simp
qed

end
