(* ===== verification/Gateway_Auth.thy ===== *)
theory Gateway_Auth
  imports Gateway_Base Pagination Http_Session Routing
begin

section \<open>Gateway accounts and API keys\<close>

text \<open>
  \<^verbatim>\<open>gateway/features/auth\<close> and the authentication of \<^verbatim>\<open>gateway/shared/container.py\<close>: key
  minting and hashing, cookie inputs, the two stores with the in-memory backend, the account
  service over the pool, the key service, and \<open>authenticate\<close> with the rate limiter. The stores and
  the pool are interfaces with a contract each (the locales \<open>api_key_store\<close> and \<open>account_pool\<close>);
  both are interpreted on the program's own components, the memory store and the orchestrator.
  \<open>sha256\<close>, the random token and the uuid are arguments.
\<close>

subsection \<open>Records\<close>

record account =
  ac_account_id :: account_id
  ac_org_uuid :: "string option"
  ac_name :: "string option"
  ac_tier :: account_tier
  ac_cookies :: cookies
  ac_user_agent :: "string option"
  ac_revoked :: bool
  ac_created_at :: datetime
  ac_updated_at :: datetime

record api_key =
  ak_key_id :: string
  ak_key_hash :: string
  ak_account_id :: account_id
  ak_name :: "string option"
  ak_scope :: key_scope
  ak_revoked :: bool
  ak_created_at :: datetime
  ak_last_used_at :: "datetime option"

record key_info =
  ki_key_id :: string
  ki_account_id :: account_id
  ki_name :: "string option"
  ki_scope :: key_scope
  ki_revoked :: bool
  ki_created_at :: datetime
  ki_last_used_at :: "datetime option"

definition key_info_of :: "api_key \<Rightarrow> key_info" where
  "key_info_of k = \<lparr>ki_key_id = ak_key_id k, ki_account_id = ak_account_id k, ki_name = ak_name k, ki_scope = ak_scope k,
     ki_revoked = ak_revoked k, ki_created_at = ak_created_at k, ki_last_used_at = ak_last_used_at k\<rparr>"

record account_info =
  ai_account_id :: account_id
  ai_org_uuid :: "string option"
  ai_name :: "string option"
  ai_tier :: account_tier
  ai_user_agent :: "string option"
  ai_revoked :: bool
  ai_created_at :: datetime

definition account_info_of :: "account \<Rightarrow> account_info" where
  "account_info_of a = \<lparr>ai_account_id = ac_account_id a, ai_org_uuid = ac_org_uuid a, ai_name = ac_name a, ai_tier = ac_tier a,
     ai_user_agent = ac_user_agent a, ai_revoked = ac_revoked a, ai_created_at = ac_created_at a\<rparr>"

record generate_key_request =
  gk_account_id :: "string option"
  gk_cookies :: "json option"
  gk_org_uuid :: "string option"
  gk_name :: "string option"
  gk_scope :: key_scope
  gk_tier :: string
  gk_user_agent :: "string option"

subsection \<open>Keys\<close>

definition KEY_PREFIX :: string where
  "KEY_PREFIX = ''sk-''"

definition generate_key :: "(string \<Rightarrow> string) \<Rightarrow> string \<Rightarrow> string \<times> string" where
  "generate_key sha token = (let raw = KEY_PREFIX @ token in (raw, sha raw))"

definition verify_key :: "(string \<Rightarrow> string) \<Rightarrow> string \<Rightarrow> string \<Rightarrow> bool" where
  "verify_key sha raw stored_hash \<longleftrightarrow> sha raw = stored_hash"

definition strip_bearer :: "string \<Rightarrow> string" where
  "strip_bearer header =
     (let v = strip header in if startswith (lower v) ''bearer '' then strip (drop 7 v) else v)"

subsection \<open>Cookie inputs\<close>

fun from_list :: "(pyfloat \<Rightarrow> string) \<Rightarrow> json list \<Rightarrow> cookies \<Rightarrow> gexn + cookies" where
  "from_list fr [] out =
     (if out = [] then Inl (CookieParseError ''cookie list contained no {name, value} entries'') else Inr out)"
| "from_list fr (item # items) out =
     (case item of
        JObj d \<Rightarrow>
          (case (obj_get d ''name'', dict_get d ''value'') of
             (JNull, _) \<Rightarrow> from_list fr items out
           | (_, None) \<Rightarrow> from_list fr items out
           | (name, Some v) \<Rightarrow> from_list fr items (dict_set out (py_str fr name) (py_str fr v)))
      | _ \<Rightarrow> Inl (Sdk (Py (AttributeError ''object has no attribute 'get''))))"

definition from_netscape_line :: "string \<Rightarrow> cookies \<Rightarrow> cookies" where
  "from_netscape_line line out =
     (let stripped = strip line in
      if stripped = [] \<or> startswith stripped ''#'' then out
      else (let fields = split_char (CHR 0x09) line in
            if 7 \<le> length fields then dict_set out (fields ! 5) (fields ! 6) else out))"

definition from_netscape :: "string \<Rightarrow> gexn + cookies" where
  "from_netscape text =
     (let out = fold from_netscape_line (splitlines text) [] in
      if out = [] then Inl (CookieParseError ''no cookies found in Netscape input'') else Inr out)"

definition cookies_of_json :: "(pyfloat \<Rightarrow> string) \<Rightarrow> json \<Rightarrow> gexn + cookies" where
  \<comment> \<open>the branches of \<open>parse_cookies\<close> for a dict and a list\<close>
  "cookies_of_json fr v =
     (case v of
        JObj d \<Rightarrow> Inr (map (\<lambda>(k, w). (k, py_str fr w)) d)
      | JList items \<Rightarrow> from_list fr items []
      | _ \<Rightarrow> Inl (CookieParseError ''unsupported cookie input type''))"

definition parse_cookies :: "(pyfloat \<Rightarrow> string) \<Rightarrow> (string \<Rightarrow> string) \<Rightarrow> json \<Rightarrow> gexn + cookies" where
  \<comment> \<open>\<open>jmsg\<close> is the text of the JSON decoder's error; a text that starts with a bracket decodes, if at
     all, to a dict or a list, so the recursive call ends there\<close>
  "parse_cookies fr jmsg v =
     (case v of
        JStr s \<Rightarrow>
          (let text = strip s in
           if take 1 text = ''{'' \<or> take 1 text = ''['' then
             (case json_loads text of
                Some w \<Rightarrow> cookies_of_json fr w
              | None \<Rightarrow> Inl (CookieParseError (''invalid cookie JSON: '' @ jmsg text)))
           else from_netscape text)
      | _ \<Rightarrow> cookies_of_json fr v)"

subsection \<open>The key store\<close>

record 'k key_ops =
  ks_create :: "api_key \<Rightarrow> 'k \<Rightarrow> 'k"
  ks_get :: "string \<Rightarrow> 'k \<Rightarrow> api_key option"
  ks_get_by_hash :: "string \<Rightarrow> 'k \<Rightarrow> api_key option"
  ks_page :: "account_id option \<Rightarrow> int \<Rightarrow> string option \<Rightarrow> 'k \<Rightarrow> py_error + api_key page"
  ks_revoke :: "string \<Rightarrow> 'k \<Rightarrow> 'k"
  ks_touch :: "string \<Rightarrow> datetime \<Rightarrow> 'k \<Rightarrow> 'k"

type_synonym mem_keys = "api_key dict"

definition mks_create :: "api_key \<Rightarrow> mem_keys \<Rightarrow> mem_keys" where
  "mks_create k s = dict_set s (ak_key_id k) k"

definition mks_get :: "string \<Rightarrow> mem_keys \<Rightarrow> api_key option" where
  "mks_get i s = dict_get s i"

definition mks_get_by_hash :: "string \<Rightarrow> mem_keys \<Rightarrow> api_key option" where
  "mks_get_by_hash h s = find (\<lambda>k. ak_key_hash k = h) (dict_values s)"

definition mks_page :: "iso_parser \<Rightarrow> account_id option \<Rightarrow> int \<Rightarrow> string option \<Rightarrow> mem_keys \<Rightarrow> py_error + api_key page" where
  "mks_page other acc limit cursor s =
     paginate other
       (map (\<lambda>k. (ak_created_at k, ak_key_id k, k)) (filter (\<lambda>k. acc = None \<or> Some (ak_account_id k) = acc) (dict_values s)))
       limit cursor"

definition mks_revoke :: "string \<Rightarrow> mem_keys \<Rightarrow> mem_keys" where
  "mks_revoke i s = (case dict_get s i of None \<Rightarrow> s | Some k \<Rightarrow> dict_set s i (k\<lparr>ak_revoked := True\<rparr>))"

definition mks_touch :: "string \<Rightarrow> datetime \<Rightarrow> mem_keys \<Rightarrow> mem_keys" where
  "mks_touch i when s = (case dict_get s i of None \<Rightarrow> s | Some k \<Rightarrow> dict_set s i (k\<lparr>ak_last_used_at := Some when\<rparr>))"

definition mks_ops :: "iso_parser \<Rightarrow> mem_keys key_ops" where
  "mks_ops other = \<lparr>ks_create = mks_create, ks_get = mks_get, ks_get_by_hash = mks_get_by_hash, ks_page = mks_page other,
     ks_revoke = mks_revoke, ks_touch = mks_touch\<rparr>"

definition mks_inv :: "mem_keys \<Rightarrow> bool" where
  "mks_inv s \<longleftrightarrow> dict_ok s \<and> (\<forall>(i, k) \<in> set s. ak_key_id k = i)"

subsection \<open>The account store\<close>

type_synonym mem_accounts = "account dict"

definition mas_upsert :: "account \<Rightarrow> mem_accounts \<Rightarrow> mem_accounts" where
  "mas_upsert a s = dict_set s (ac_account_id a) a"

definition mas_get :: "account_id \<Rightarrow> mem_accounts \<Rightarrow> account option" where
  "mas_get i s = dict_get s i"

definition mas_visible :: "bool \<Rightarrow> mem_accounts \<Rightarrow> account list" where
  "mas_visible include_revoked s = filter (\<lambda>a. include_revoked \<or> \<not> ac_revoked a) (dict_values s)"

definition account_key :: "account \<Rightarrow> datetime \<times> string" where
  "account_key a = (ac_created_at a, ac_account_id a)"

definition mas_page :: "iso_parser \<Rightarrow> bool \<Rightarrow> int \<Rightarrow> string option \<Rightarrow> mem_accounts \<Rightarrow> py_error + account page" where
  "mas_page other include_revoked limit cursor s = paginate other (rows_of account_key (mas_visible include_revoked s)) limit cursor"

definition mas_iterate_all :: "nat \<Rightarrow> iso_parser \<Rightarrow> bool \<Rightarrow> (nat \<Rightarrow> mem_accounts) \<Rightarrow> (account list \<times> py_error option) option" where
  \<comment> \<open>\<open>snap k\<close> is the table at the time of the \<open>k\<close>-th page: the consumer of the iterator runs, and may
     await, between two pages\<close>
  "mas_iterate_all fuel other include_revoked snap =
     iterate_pages fuel (\<lambda>k cursor. mas_page other include_revoked 500 cursor (snap k)) 0 None"

definition mas_revoke :: "account_id \<Rightarrow> mem_accounts \<Rightarrow> mem_accounts" where
  "mas_revoke i s = (case dict_get s i of None \<Rightarrow> s | Some a \<Rightarrow> dict_set s i (a\<lparr>ac_revoked := True\<rparr>))"

definition mas_inv :: "mem_accounts \<Rightarrow> bool" where
  "mas_inv s \<longleftrightarrow> dict_ok s \<and> (\<forall>(i, a) \<in> set s. ac_account_id a = i \<and> dt_ok (ac_created_at a))"

subsection \<open>The pool\<close>

record gw_client =
  gc_account_id :: account_id
  gc_session :: http_session
  gc_org_uuid :: string

record 'o pool_ops =
  pool_add :: "gw_client \<Rightarrow> account_tier \<Rightarrow> 'o \<Rightarrow> (exn + unit) \<times> 'o"
  pool_remove :: "account_id \<Rightarrow> 'o \<Rightarrow> 'o"
  pool_get :: "account_id \<Rightarrow> 'o \<Rightarrow> exn + gw_client"

definition resolve_client :: "'o pool_ops \<Rightarrow> account_id \<Rightarrow> 'o \<Rightarrow> gexn + gw_client" where
  "resolve_client pl a pool =
     (case pool_get pl a pool of
        Inr c \<Rightarrow> Inr c
      | Inl (Py (KeyError m)) \<Rightarrow> Inl (AccountUnavailable (''account '' @ repr_str a @ '' is not registered''))
      | Inl e \<Rightarrow> Inl (Sdk e))"

text \<open>
  The pool of the gateway is the orchestrator. Its client table refers to client objects; the part
  of an object the orchestrator looks at is the model's client record, the session and the
  organisation are kept beside it. \<open>add\<close> opens the client, which opens the session on the
  session's own memory storage.
\<close>

definition open_client :: "gw_client \<Rightarrow> gw_client" where
  "open_client c = c\<lparr>gc_session := fst (session_open mck_ops (gc_session c, []))\<rparr>"

definition pool_client :: "gw_client \<Rightarrow> client" where
  "pool_client c =
     \<lparr>cl_account_id = gc_account_id c, cl_limit_state = Some (hs_limit_state (gc_session c)), cl_bus = True, cl_cache = None, cl_opened = False\<rparr>"

type_synonym 's orch_pool = "'s orchestrator \<times> gw_client dict"

definition orch_pool_add ::
  "(pyfloat \<Rightarrow> string) \<Rightarrow> 's storage_ops \<Rightarrow> gw_client \<Rightarrow> account_tier \<Rightarrow> 's orch_pool \<Rightarrow> (exn + unit) \<times> 's orch_pool" where
  "orch_pool_add fr st c tier p =
     (case or_add fr st (pool_client c) tier (fst p) of
        (Inl e, o1) \<Rightarrow> (Inl e, (o1, snd p))
      | (Inr _, o1) \<Rightarrow> (Inr (), (o1, dict_set (snd p) (gc_account_id c) (open_client c))))"

definition orch_pool_remove :: "'s storage_ops \<Rightarrow> account_id \<Rightarrow> 's orch_pool \<Rightarrow> 's orch_pool" where
  "orch_pool_remove st a p = (snd (or_remove st a (fst p)), dict_del (snd p) a)"

definition orch_pool_get :: "account_id \<Rightarrow> 's orch_pool \<Rightarrow> exn + gw_client" where
  "orch_pool_get a p =
     (case or_get a (fst p) of
        Inl e \<Rightarrow> Inl e
      | Inr c \<Rightarrow> (case dict_get (snd p) a of Some g \<Rightarrow> Inr g | None \<Rightarrow> Inl (Py (KeyError a))))"

definition orch_pool_ops :: "(pyfloat \<Rightarrow> string) \<Rightarrow> 's storage_ops \<Rightarrow> 's orch_pool pool_ops" where
  "orch_pool_ops fr st = \<lparr>pool_add = orch_pool_add fr st, pool_remove = orch_pool_remove st, pool_get = orch_pool_get\<rparr>"

definition orch_pool_ready :: "'s orch_pool \<Rightarrow> bool" where
  "orch_pool_ready p \<longleftrightarrow> or_started (fst p) \<and> (\<forall>a. (dict_get (or_clients (fst p)) a = None) = (dict_get (snd p) a = None))"

subsection \<open>The account service\<close>

record sdk_settings =
  ss_base_url :: string
  ss_user_agent :: string

definition resolve_tier :: "string \<Rightarrow> account_tier" where
  \<comment> \<open>no character outside ASCII has an upper case made of the letters of the three names\<close>
  "resolve_tier name =
     (let n = upper_ascii (strip name) in
      if n = ''PRO'' then PRO else if n = ''MAX'' then MAX_TIER else FREE)"

definition build_client :: "sdk_settings \<Rightarrow> account \<Rightarrow> gw_client" where
  "build_client cfg a =
     \<lparr>gc_account_id = ac_account_id a,
      gc_session = session_init (ac_account_id a) (Some (ac_cookies a)) (ss_base_url cfg) (ss_user_agent cfg) (ac_user_agent a) True,
      gc_org_uuid = or_default (ac_org_uuid a) []\<rparr>"

definition service_get :: "account_id \<Rightarrow> mem_accounts \<Rightarrow> gexn + account" where
  "service_get i accs =
     (case mas_get i accs of
        None \<Rightarrow> Inl (AccountNotFound (''account '' @ repr_str i @ '' not found''))
      | Some a \<Rightarrow> Inr a)"

definition provision ::
  "'o pool_ops \<Rightarrow> sdk_settings \<Rightarrow> string \<Rightarrow> datetime \<Rightarrow> gexn + cookies \<Rightarrow> string option \<Rightarrow> string option \<Rightarrow> account_tier \<Rightarrow>
     string option \<Rightarrow> mem_accounts \<times> 'o \<Rightarrow> (gexn + account) \<times> mem_accounts \<times> 'o" where
  \<comment> \<open>the result of \<open>parse_cookies\<close>, the new uuid and the time are arguments\<close>
  "provision pl cfg uid now parsed org name tier ua s =
     (case parsed of
        Inl e \<Rightarrow> (Inl e, s)
      | Inr ck \<Rightarrow>
          (let account = \<lparr>ac_account_id = ''acc_'' @ uid, ac_org_uuid = org, ac_name = name, ac_tier = tier, ac_cookies = ck,
                 ac_user_agent = ua, ac_revoked = False, ac_created_at = now, ac_updated_at = now\<rparr>;
               accs = mas_upsert account (fst s)
           in case pool_add pl (build_client cfg account) tier (snd s) of
                (Inl e, pool) \<Rightarrow> (Inl (Sdk e), (accs, pool))
              | (Inr _, pool) \<Rightarrow> (Inr account, (accs, pool))))"

definition update_cookies ::
  "'o pool_ops \<Rightarrow> sdk_settings \<Rightarrow> datetime \<Rightarrow> account_id \<Rightarrow> gexn + cookies \<Rightarrow> string option \<Rightarrow> mem_accounts \<times> 'o \<Rightarrow>
     (gexn + account) \<times> mem_accounts \<times> 'o" where
  "update_cookies pl cfg now i parsed ua s =
     (case service_get i (fst s) of
        Inl e \<Rightarrow> (Inl e, s)
      | Inr a \<Rightarrow>
          (case parsed of
             Inl e \<Rightarrow> (Inl e, s)
           | Inr ck \<Rightarrow>
               (let updated = a\<lparr>ac_cookies := ck, ac_user_agent := (case ua of Some u \<Rightarrow> Some u | None \<Rightarrow> ac_user_agent a), ac_updated_at := now\<rparr>;
                    accs = mas_upsert updated (fst s)
                in if \<not> ac_revoked updated then
                     (case pool_add pl (build_client cfg updated) (ac_tier updated) (pool_remove pl i (snd s)) of
                        (Inl e, pool) \<Rightarrow> (Inl (Sdk e), (accs, pool))
                      | (Inr _, pool) \<Rightarrow> (Inr updated, (accs, pool)))
                   else (Inr updated, (accs, snd s)))))"

fun add_accounts :: "'o pool_ops \<Rightarrow> sdk_settings \<Rightarrow> account list \<Rightarrow> 'o \<Rightarrow> (gexn + nat) \<times> 'o" where
  "add_accounts pl cfg [] pool = (Inr 0, pool)"
| "add_accounts pl cfg (a # as) pool =
     (case pool_add pl (build_client cfg a) (ac_tier a) pool of
        (Inl e, p1) \<Rightarrow> (Inl (Sdk e), p1)
      | (Inr _, p1) \<Rightarrow> (case add_accounts pl cfg as p1 of (Inl e, p2) \<Rightarrow> (Inl e, p2) | (Inr n, p2) \<Rightarrow> (Inr (Suc n), p2)))"

definition rehydrate_all ::
  "nat \<Rightarrow> iso_parser \<Rightarrow> 'o pool_ops \<Rightarrow> sdk_settings \<Rightarrow> mem_accounts \<Rightarrow> 'o \<Rightarrow> ((gexn + nat) \<times> 'o) option" where
  "rehydrate_all fuel other pl cfg accs pool =
     map_option (\<lambda>(as, e).
        case add_accounts pl cfg as pool of
          (Inl x, p1) \<Rightarrow> (Inl x, p1)
        | (Inr n, p1) \<Rightarrow> (case e of None \<Rightarrow> (Inr n, p1) | Some x \<Rightarrow> (Inl (Sdk (Py x)), p1)))
       (mas_iterate_all fuel other False (\<lambda>k. accs))"

definition account_page :: "iso_parser \<Rightarrow> int \<Rightarrow> string option \<Rightarrow> mem_accounts \<Rightarrow> gexn + account_info page" where
  "account_page other limit cursor accs =
     (case mas_page other True limit cursor accs of
        Inl e \<Rightarrow> Inl (Sdk (Py e))
      | Inr p \<Rightarrow> Inr \<lparr>pg_data = map account_info_of (pg_data p), pg_has_more = pg_has_more p, pg_cursor = pg_cursor p, pg_total = None\<rparr>)"

subsection \<open>The key service and the container\<close>

definition generate ::
  "(string \<Rightarrow> string) \<Rightarrow> 'o pool_ops \<Rightarrow> sdk_settings \<Rightarrow> (json \<Rightarrow> gexn + cookies) \<Rightarrow> string \<Rightarrow> string \<Rightarrow> string \<Rightarrow> datetime \<Rightarrow>
     'k key_ops \<Rightarrow> generate_key_request \<Rightarrow> mem_accounts \<times> 'o \<times> 'k \<Rightarrow> (gexn + key_info \<times> string) \<times> mem_accounts \<times> 'o \<times> 'k" where
  \<comment> \<open>\<open>acc_uid\<close>, \<open>key_uid\<close> and \<open>token\<close> are the random values, \<open>parse\<close> the cookie parser\<close>
  "generate sha pl cfg parse acc_uid key_uid token now ks req s =
     (case s of (accs, pool, keys) \<Rightarrow>
        (let (target, accs1, pool1) =
               (case gk_cookies req of
                  Some ck \<Rightarrow>
                    (case provision pl cfg acc_uid now (parse ck) (gk_org_uuid req) (gk_name req) (resolve_tier (gk_tier req)) (gk_user_agent req) (accs, pool) of
                       (Inl e, accs1, pool1) \<Rightarrow> (Inl e, accs1, pool1)
                     | (Inr a, accs1, pool1) \<Rightarrow> (Inr (ac_account_id a), accs1, pool1))
                | None \<Rightarrow>
                    (case gk_account_id req of
                       Some (c # cs) \<Rightarrow>
                         (case service_get (c # cs) accs of Inl e \<Rightarrow> (Inl e, accs, pool) | Inr _ \<Rightarrow> (Inr (c # cs), accs, pool))
                     | _ \<Rightarrow> (Inl KeyTargetRequired, accs, pool)))
         in case target of
              Inl e \<Rightarrow> (Inl e, accs1, pool1, keys)
            | Inr account_id \<Rightarrow>
                (let (raw, h) = generate_key sha token;
                     key = \<lparr>ak_key_id = ''key_'' @ key_uid, ak_key_hash = h, ak_account_id = account_id, ak_name = gk_name req,
                            ak_scope = gk_scope req, ak_revoked = False, ak_created_at = now, ak_last_used_at = None\<rparr>
                 in (Inr (key_info_of key, raw), accs1, pool1, ks_create ks key keys))))"

definition authenticate :: "(string \<Rightarrow> string) \<Rightarrow> 'k key_ops \<Rightarrow> string option \<Rightarrow> 'k \<Rightarrow> gexn + principal" where
  "authenticate sha ks authorization keys =
     (let token = strip_bearer (or_default authorization []) in
      if or_default authorization [] = [] \<or> token = [] then Inl MissingApiKey
      else (case ks_get_by_hash ks (sha token) keys of
              None \<Rightarrow> Inl InvalidApiKey
            | Some k \<Rightarrow>
                if ak_revoked k then Inl RevokedApiKey
                else Inr \<lparr>pr_key_id = ak_key_id k, pr_account_id = ak_account_id k, pr_scope = ak_scope k, pr_org_uuid = None\<rparr>))"

definition key_page :: "'k key_ops \<Rightarrow> account_id option \<Rightarrow> int \<Rightarrow> string option \<Rightarrow> 'k \<Rightarrow> gexn + key_info page" where
  "key_page ks acc limit cursor keys =
     (case ks_page ks acc limit cursor keys of
        Inl e \<Rightarrow> Inl (Sdk (Py e))
      | Inr p \<Rightarrow> Inr \<lparr>pg_data = map key_info_of (pg_data p), pg_has_more = pg_has_more p, pg_cursor = pg_cursor p, pg_total = None\<rparr>)"

definition container_authenticate ::
  "(string \<Rightarrow> string) \<Rightarrow> 'k key_ops \<Rightarrow> pyfloat \<Rightarrow> pyfloat \<Rightarrow> string option \<Rightarrow> 'k \<times> rate_limiter \<Rightarrow>
     (gexn + principal) \<times> rate_limiter \<times> string list" where
  \<comment> \<open>with the ids of the keys whose \<open>touch\<close> is scheduled; \<open>made\<close> and \<open>now\<close> are the clock readings of the limiter\<close>
  "container_authenticate sha ks made now authorization s =
     (case authenticate sha ks authorization (fst s) of
        Inl e \<Rightarrow> (Inl e, snd s, [])
      | Inr p \<Rightarrow>
          (let (ok, l) = limiter_allow (pr_key_id p) made now (snd s)
           in if \<not> ok then (Inl RateLimited, l, []) else (Inr p, l, [pr_key_id p])))"

definition verify_admin :: "string \<Rightarrow> string option \<Rightarrow> gexn + unit" where
  \<comment> \<open>\<open>hmac.compare_digest\<close> takes ASCII strings only\<close>
  "verify_admin admin_token token =
     (let t = or_default token [] in
      if t = [] then Inl AdminForbidden
      else if \<not> list_all is_ascii t \<or> \<not> list_all is_ascii admin_token
           then Inl (Sdk (Py (TypeError ''comparing strings with non-ASCII characters is not supported'')))
      else if t \<noteq> admin_token then Inl AdminForbidden else Inr ())"

subsection \<open>The life of a key\<close>

datatype key_op = KCreate api_key | KRevoke string | KTouch string datetime

fun key_step :: "'k key_ops \<Rightarrow> key_op \<Rightarrow> 'k \<Rightarrow> 'k" where
  "key_step ks (KCreate k) s = ks_create ks k s"
| "key_step ks (KRevoke i) s = ks_revoke ks i s"
| "key_step ks (KTouch i when) s = ks_touch ks i when s"

fun created :: "key_op list \<Rightarrow> api_key list" where
  "created [] = []"
| "created (KCreate k # ops) = k # created ops"
| "created (_ # ops) = created ops"

definition live_key :: "key_op list \<Rightarrow> api_key \<Rightarrow> bool" where
  \<comment> \<open>created, and not revoked afterwards\<close>
  "live_key ops k \<longleftrightarrow> (\<exists>ops1 ops2. ops = ops1 @ KCreate k # ops2 \<and> KRevoke (ak_key_id k) \<notin> set ops2)"

definition key_view :: "api_key \<Rightarrow> string \<times> string \<times> account_id \<times> key_scope" where
  "key_view k = (ak_key_id k, ak_key_hash k, ak_account_id k, ak_scope k)"

definition principal_of :: "api_key \<Rightarrow> principal" where
  "principal_of k = \<lparr>pr_key_id = ak_key_id k, pr_account_id = ak_account_id k, pr_scope = ak_scope k, pr_org_uuid = None\<rparr>"

lemma strip_bearer_Nil [simp]: "strip_bearer [] = []"
  by (simp add: strip_bearer_def strip_def lstrip_chars_def rstrip_chars_def lower_def)

lemma created_append [simp]: "created (xs @ ys) = created xs @ created ys"
  by (induction xs rule: created.induct) auto

lemma created_mem: "KCreate k \<in> set ops \<longleftrightarrow> k \<in> set (created ops)"
  by (induction ops rule: created.induct) auto

lemma live_key_created: "live_key ops k \<Longrightarrow> k \<in> set (created ops)"
  by (auto simp: live_key_def)

lemma live_key_snoc_iff:
  "live_key (ops @ [x]) k \<longleftrightarrow> (live_key ops k \<and> x \<noteq> KRevoke (ak_key_id k)) \<or> x = KCreate k"
proof
  assume "live_key (ops @ [x]) k"
  then obtain ops1 ops2 where o: "ops @ [x] = ops1 @ KCreate k # ops2" "KRevoke (ak_key_id k) \<notin> set ops2"
    unfolding live_key_def by blast
  show "(live_key ops k \<and> x \<noteq> KRevoke (ak_key_id k)) \<or> x = KCreate k"
  proof (cases ops2 rule: rev_cases)
    case Nil
    then show ?thesis using o by simp
  next
    case (snoc o2 y)
    then have "ops = ops1 @ KCreate k # o2" "y = x" using o(1) by auto
    then show ?thesis using o(2) snoc by (auto simp: live_key_def)
  qed
next
  assume "(live_key ops k \<and> x \<noteq> KRevoke (ak_key_id k)) \<or> x = KCreate k"
  then show "live_key (ops @ [x]) k"
  proof
    assume a: "live_key ops k \<and> x \<noteq> KRevoke (ak_key_id k)"
    then obtain ops1 ops2 where "ops = ops1 @ KCreate k # ops2" "KRevoke (ak_key_id k) \<notin> set ops2" unfolding live_key_def by blast
    then have "ops @ [x] = ops1 @ KCreate k # (ops2 @ [x])" "KRevoke (ak_key_id k) \<notin> set (ops2 @ [x])" using a by auto
    then show ?thesis unfolding live_key_def by blast
  next
    assume "x = KCreate k"
    then have "ops @ [x] = ops @ KCreate k # []" "KRevoke (ak_key_id k) \<notin> set []" by auto
    then show ?thesis unfolding live_key_def by blast
  qed
qed

lemma live_key_snoc:
  "live_key (ops @ [KCreate k]) k' \<longleftrightarrow> live_key ops k' \<or> k' = k"
  "live_key (ops @ [KRevoke i]) k' \<longleftrightarrow> live_key ops k' \<and> ak_key_id k' \<noteq> i"
  "live_key (ops @ [KTouch i t]) k' \<longleftrightarrow> live_key ops k'"
  by (auto simp: live_key_snoc_iff)

locale api_key_store =
  fixes ks :: "'k key_ops" and inv :: "'k \<Rightarrow> bool"
  assumes inv_create: "inv s \<Longrightarrow> inv (ks_create ks k s)"
    and inv_revoke: "inv s \<Longrightarrow> inv (ks_revoke ks i s)"
    and inv_touch: "inv s \<Longrightarrow> inv (ks_touch ks i t s)"
    and get_id: "inv s \<Longrightarrow> ks_get ks i s = Some k \<Longrightarrow> ak_key_id k = i"
    and get_create: "inv s \<Longrightarrow> ks_get ks i (ks_create ks k s) = (if i = ak_key_id k then Some k else ks_get ks i s)"
    and get_revoke: "inv s \<Longrightarrow> ks_get ks i (ks_revoke ks j s) =
      (if i = j then map_option (\<lambda>k. k\<lparr>ak_revoked := True\<rparr>) (ks_get ks i s) else ks_get ks i s)"
    and get_touch: "inv s \<Longrightarrow> ks_get ks i (ks_touch ks j t s) =
      (if i = j then map_option (\<lambda>k. k\<lparr>ak_last_used_at := Some t\<rparr>) (ks_get ks i s) else ks_get ks i s)"
    and by_hash_sound: "inv s \<Longrightarrow> ks_get_by_hash ks h s = Some k \<Longrightarrow> ks_get ks (ak_key_id k) s = Some k \<and> ak_key_hash k = h"
    and by_hash_complete: "inv s \<Longrightarrow> ks_get_by_hash ks h s = None \<Longrightarrow> ks_get ks i s = Some k \<Longrightarrow> ak_key_hash k \<noteq> h"
begin

lemma inv_step: "inv s \<Longrightarrow> inv (key_step ks op s)"
  by (cases op) (simp_all add: inv_create inv_revoke inv_touch)

lemma inv_run: "inv s \<Longrightarrow> inv (fold (key_step ks) ops s)"
  by (induction ops arbitrary: s) (simp_all add: inv_step)

lemma run_keys:
  assumes "inv s" and "\<forall>i. ks_get ks i s = None" and "distinct (map ak_key_id (created ops))"
    and "\<forall>k \<in> set (created ops). \<not> ak_revoked k"
  shows "(\<forall>i k'. ks_get ks i (fold (key_step ks) ops s) = Some k' \<longrightarrow>
            (\<exists>k \<in> set (created ops). ak_key_id k = i \<and> key_view k' = key_view k \<and> ak_revoked k' = (\<not> live_key ops k))) \<and>
         (\<forall>k \<in> set (created ops). ks_get ks (ak_key_id k) (fold (key_step ks) ops s) \<noteq> None)"
  using assms(3,4)
proof (induction ops rule: rev_induct)
  case Nil
  then show ?case using assms(2) by simp
next
  case (snoc op ops)
  let ?t = "fold (key_step ks) ops s"
  have inv: "inv ?t" by (rule inv_run [OF assms(1)])
  have ih1: "\<exists>k \<in> set (created ops). ak_key_id k = i \<and> key_view k' = key_view k \<and> ak_revoked k' = (\<not> live_key ops k)"
    if "ks_get ks i ?t = Some k'" for i k' using snoc that by simp
  have ih2: "ks_get ks (ak_key_id k) ?t \<noteq> None" if "k \<in> set (created ops)" for k using snoc that by simp
  show ?case
  proof (cases op)
    case (KCreate k)
    have new: "ak_key_id x \<noteq> ak_key_id k" if "x \<in> set (created ops)" for x using snoc.prems(1) KCreate that by (auto simp: image_iff)
    have "\<not> ak_revoked k" using snoc.prems(2) KCreate by simp
    then show ?thesis
      using KCreate ih1 ih2 new live_key_created
      by (auto simp: get_create [OF inv] live_key_snoc; blast)
  next
    case (KRevoke j)
    show ?thesis
    proof (intro conjI allI impI ballI)
      fix i k' assume "ks_get ks i (fold (key_step ks) (ops @ [op]) s) = Some k'"
      then obtain k0 where k0: "ks_get ks i ?t = Some k0" "k' = (if i = j then k0\<lparr>ak_revoked := True\<rparr> else k0)"
        using KRevoke by (auto simp: get_revoke [OF inv] split: if_splits)
      from ih1 [OF k0(1)] show "\<exists>k \<in> set (created (ops @ [op])). ak_key_id k = i \<and> key_view k' = key_view k \<and> ak_revoked k' = (\<not> live_key (ops @ [op]) k)"
        using KRevoke k0(2) by (auto simp: live_key_snoc key_view_def)
    qed (use KRevoke ih2 in \<open>auto simp: get_revoke [OF inv]\<close>)
  next
    case (KTouch j t)
    show ?thesis
    proof (intro conjI allI impI ballI)
      fix i k' assume "ks_get ks i (fold (key_step ks) (ops @ [op]) s) = Some k'"
      then obtain k0 where k0: "ks_get ks i ?t = Some k0" "k' = (if i = j then k0\<lparr>ak_last_used_at := Some t\<rparr> else k0)"
        using KTouch by (auto simp: get_touch [OF inv] split: if_splits)
      from ih1 [OF k0(1)] show "\<exists>k \<in> set (created (ops @ [op])). ak_key_id k = i \<and> key_view k' = key_view k \<and> ak_revoked k' = (\<not> live_key (ops @ [op]) k)"
        using KTouch k0(2) by (auto simp: live_key_snoc key_view_def)
    qed (use KTouch ih2 in \<open>auto simp: get_touch [OF inv]\<close>)
  qed
qed

lemma authenticate_run:
  assumes "inv s" and "\<forall>i. ks_get ks i s = None" and "distinct (map ak_key_id (created ops))"
    and "distinct (map ak_key_hash (created ops))" and "\<forall>k \<in> set (created ops). \<not> ak_revoked k"
    and "strip_bearer (or_default header []) \<noteq> []"
  shows "authenticate sha ks header (fold (key_step ks) ops s) = Inr p \<longleftrightarrow>
     (\<exists>k. live_key ops k \<and> ak_key_hash k = sha (strip_bearer (or_default header [])) \<and> p = principal_of k)"
proof -
  let ?t = "fold (key_step ks) ops s" and ?h = "sha (strip_bearer (or_default header []))"
  have inv: "inv ?t" by (rule inv_run [OF assms(1)])
  note keys = run_keys [OF assms(1,2,3,5)]
  have ne: "or_default header [] \<noteq> []" using assms(6) by (metis strip_bearer_Nil)
  show ?thesis
  proof (cases "ks_get_by_hash ks ?h ?t")
    case None
    have "ak_key_hash k \<noteq> ?h" if live: "live_key ops k" for k
    proof -
      obtain k' where k': "ks_get ks (ak_key_id k) ?t = Some k'" using keys live_key_created [OF live] by blast
      then obtain k0 where "k0 \<in> set (created ops)" "ak_key_id k0 = ak_key_id k" "key_view k' = key_view k0" using keys by blast
      moreover have "k0 = k" using calculation live_key_created [OF live] assms(3) by (simp add: distinct_map inj_on_def)
      ultimately show ?thesis using by_hash_complete [OF inv None k'] by (simp add: key_view_def)
    qed
    then show ?thesis using None ne assms(6) by (auto simp: authenticate_def Let_def)
  next
    case (Some k')
    note k' = by_hash_sound [OF inv Some]
    obtain k where k: "k \<in> set (created ops)" "key_view k' = key_view k" "ak_revoked k' = (\<not> live_key ops k)" using keys k' by blast
    have hash: "ak_key_hash k = ?h" using k' k(2) by (simp add: key_view_def)
    have uniq: "x = k" if "live_key ops x" "ak_key_hash x = ?h" for x
      using live_key_created [OF that(1)] k(1) assms(4) hash that(2) by (simp add: distinct_map inj_on_def)
    have "authenticate sha ks header ?t = (if ak_revoked k' then Inl RevokedApiKey else Inr (principal_of k))"
      using Some ne assms(6) k(2) by (simp add: authenticate_def Let_def principal_of_def key_view_def)
    then have "authenticate sha ks header ?t = Inr p \<longleftrightarrow> live_key ops k \<and> p = principal_of k"
      using k(3) by auto
    then show ?thesis using hash uniq by blast
  qed
qed

end

lemma mks_inv_get: "mks_inv s \<Longrightarrow> dict_get s i = Some k \<Longrightarrow> ak_key_id k = i"
  by (auto simp: mks_inv_def dest: map_of_SomeD)

interpretation mks: api_key_store "mks_ops other" mks_inv
proof
  show "mks_inv (ks_create (mks_ops other) k s)" if "mks_inv s" for s k
    using that dict_set_subset by (fastforce simp: mks_inv_def mks_ops_def mks_create_def)
  show "mks_inv (ks_revoke (mks_ops other) i s)" if "mks_inv s" for s i
    using that dict_set_subset mks_inv_get [OF that]
    by (fastforce simp: mks_inv_def mks_ops_def mks_revoke_def split: option.split)
  show "mks_inv (ks_touch (mks_ops other) i t s)" if "mks_inv s" for s i t
    using that dict_set_subset mks_inv_get [OF that]
    by (fastforce simp: mks_inv_def mks_ops_def mks_touch_def split: option.split)
  show "ks_get (mks_ops other) (ak_key_id k) s = Some k \<and> ak_key_hash k = h"
    if "mks_inv s" "ks_get_by_hash (mks_ops other) h s = Some k" for s h k
  proof -
    have "find (\<lambda>k. ak_key_hash k = h) (dict_values s) = Some k"
      using \<open>ks_get_by_hash (mks_ops other) h s = Some k\<close> by (simp add: mks_ops_def mks_get_by_hash_def)
    then obtain i where "(i, k) \<in> set s" "ak_key_hash k = h"
      by (auto simp: find_Some_iff in_set_conv_nth) (metis nth_mem prod.collapse)
    then show ?thesis using \<open>mks_inv s\<close> by (auto simp: mks_inv_def mks_ops_def mks_get_def dict_get_in_iff)
  qed
  show "ak_key_hash k \<noteq> h" if "mks_inv s" "ks_get_by_hash (mks_ops other) h s = None" "ks_get (mks_ops other) i s = Some k" for s h i k
    using that by (force simp: mks_ops_def mks_get_by_hash_def mks_get_def find_None_iff dest: map_of_SomeD)
qed (auto simp: mks_ops_def mks_create_def mks_get_def mks_revoke_def mks_touch_def split: option.split dest: mks_inv_get)

text \<open>
  C7. Authentication follows the life of the keys. After any history of key creations, revocations
  and touches in which no id and no hash is created twice, an authorization header is accepted
  exactly if its token, without the bearer prefix, hashes to the hash of a key that was created and
  not revoked since; the principal is that of this key.
\<close>

theorem key_lifecycle:
  assumes "distinct (map ak_key_id (created ops))" and "distinct (map ak_key_hash (created ops))"
    and "\<forall>k \<in> set (created ops). \<not> ak_revoked k"
    and "strip_bearer (or_default header []) \<noteq> []"
  shows "authenticate sha (mks_ops other) header (fold (key_step (mks_ops other)) ops []) = Inr p \<longleftrightarrow>
     (\<exists>k. live_key ops k \<and> ak_key_hash k = sha (strip_bearer (or_default header [])) \<and> p = principal_of k)"
  by (rule mks.authenticate_run) (use assms in \<open>auto simp: mks_inv_def mks_ops_def mks_get_def\<close>)

definition demo_time :: datetime where
  "demo_time = DT 2026 1 31 12 30 0 5"

definition demo_key :: "string \<Rightarrow> string \<Rightarrow> api_key" where
  "demo_key i h = \<lparr>ak_key_id = i, ak_key_hash = h, ak_account_id = ''acc_1'', ak_name = None, ak_scope = SCOPE_ACCOUNT,
     ak_revoked = False, ak_created_at = demo_time, ak_last_used_at = None\<rparr>"

definition demo_key_ops :: "key_op list" where
  "demo_key_ops = [KCreate (demo_key ''k1'' ''1-ks''), KTouch ''k1'' demo_time, KCreate (demo_key ''k2'' ''2-ks''), KRevoke ''k1'']"

theorem key_lifecycle_witness:
  "authenticate rev (mks_ops (\<lambda>s. None)) (Some ''Bearer sk-2'') (fold (key_step (mks_ops (\<lambda>s. None))) demo_key_ops []) =
     Inr (principal_of (demo_key ''k2'' ''2-ks'')) \<and>
   authenticate rev (mks_ops (\<lambda>s. None)) (Some ''Bearer sk-1'') (fold (key_step (mks_ops (\<lambda>s. None))) demo_key_ops []) =
     Inl RevokedApiKey"
proof
  have live: "live_key demo_key_ops (demo_key ''k2'' ''2-ks'')"
    unfolding live_key_def demo_key_ops_def
    by (rule exI [of _ "[KCreate (demo_key ''k1'' ''1-ks''), KTouch ''k1'' demo_time]"], rule exI [of _ "[KRevoke ''k1'']"])
       (simp add: demo_key_def)
  have token: "strip_bearer (or_default (Some ''Bearer sk-2'') []) = ''sk-2''" by code_simp
  have "authenticate rev (mks_ops (\<lambda>s. None)) (Some ''Bearer sk-2'') (fold (key_step (mks_ops (\<lambda>s. None))) demo_key_ops []) =
     Inr (principal_of (demo_key ''k2'' ''2-ks'')) \<longleftrightarrow>
     (\<exists>k. live_key demo_key_ops k \<and> ak_key_hash k = rev (strip_bearer (or_default (Some ''Bearer sk-2'') [])) \<and>
        principal_of (demo_key ''k2'' ''2-ks'') = principal_of k)"
    by (rule key_lifecycle) (unfold token, simp_all add: demo_key_ops_def demo_key_def)
  then show "authenticate rev (mks_ops (\<lambda>s. None)) (Some ''Bearer sk-2'') (fold (key_step (mks_ops (\<lambda>s. None))) demo_key_ops []) =
     Inr (principal_of (demo_key ''k2'' ''2-ks''))"
    using live token by (auto simp: demo_key_def)
  show "authenticate rev (mks_ops (\<lambda>s. None)) (Some ''Bearer sk-1'') (fold (key_step (mks_ops (\<lambda>s. None))) demo_key_ops []) =
     Inl RevokedApiKey"
    by code_simp
qed

subsection \<open>The account scan\<close>

lemma mas_table_ok: "mas_inv s \<Longrightarrow> table_ok account_key (mas_visible b s)"
proof -
  assume inv: "mas_inv s"
  have "x = y" if "(i, x) \<in> set s" "(j, y) \<in> set s" "account_key x = account_key y" for i j x y
  proof -
    have "ac_account_id x = i" "ac_account_id y = j" using inv that by (auto simp: mas_inv_def)
    then have "i = j" using that by (simp add: account_key_def)
    then show ?thesis using eq_key_imp_eq_value [of s i x y] inv that by (simp add: mas_inv_def dict_ok_def)
  qed
  then have "inj_on account_key (snd ` set s)" by (auto simp: inj_on_def)
  moreover have "distinct (dict_values s)"
  proof -
    have "dict_keys s = map ac_account_id (dict_values s)" using inv by (auto simp: mas_inv_def)
    then show ?thesis using inv by (metis distinct_map mas_inv_def dict_ok_def)
  qed
  ultimately have "distinct (map account_key (mas_visible b s))"
    by (auto simp: mas_visible_def distinct_map inj_on_def)
  then show ?thesis
    using inv by (auto simp: table_ok_def mas_visible_def account_key_def mas_inv_def)
qed

lemma mas_scan_const:
  assumes "mas_inv s" and "length s < fuel"
  shows "\<exists>ys. mas_iterate_all fuel other b (\<lambda>k. s) = Some (ys, None) \<and> set ys = set (mas_visible b s) \<and>
     sorted_wrt (\<lambda>x y. account_key y < account_key x) ys"
proof -
  have ok: "table_ok account_key (mas_visible b s)" by (rule mas_table_ok [OF assms(1)])
  have scan: "mas_iterate_all fuel other b (\<lambda>k. s) = iterate_pages fuel (\<lambda>k. paginate other (rows_of account_key (mas_visible b s)) 500) 0 (cursor_of None)"
    by (simp add: mas_iterate_all_def mas_page_def cursor_of_def)
  have "length (mas_visible b s) \<le> length s" unfolding mas_visible_def by (metis length_filter_le length_map)
  then have "card (set (mas_visible b s)) < fuel" using card_length [of "mas_visible b s"] assms(2) by linarith
  then obtain ys where ys: "mas_iterate_all fuel other b (\<lambda>k. s) = Some (ys, None)"
    using scan_terminates [OF ok, of 500 None fuel other 0] unfolding scan by auto
  then have "scan_post account_key (\<lambda>k. mas_visible b s) 0 None ys"
    using scan_stable [of account_key "\<lambda>k. mas_visible b s" 500 None fuel other 0 ys None] ok unfolding scan by simp
  then show ?thesis using ys by (auto simp: scan_post_def)
qed

text \<open>
  C10. The cursor scan over the accounts. On a table that does not change the scan ends, given one
  unit of fuel more than there are accounts, and yields exactly the visible accounts; and whatever
  is inserted, changed or removed between two pages, a scan that ends has raised nothing, has
  yielded the accounts in strictly descending order of creation time and id, so none twice, only
  accounts that some page saw, and every account that was visible unchanged throughout.
\<close>

theorem account_scan:
  assumes "\<forall>k. mas_inv (snap k)"
  shows "(\<forall>s. (\<forall>k. snap k = s) \<and> length s < fuel \<longrightarrow>
            (\<exists>ys. mas_iterate_all fuel other b snap = Some (ys, None) \<and> set ys = set (mas_visible b s))) \<and>
     (\<forall>ys e. mas_iterate_all fuel other b snap = Some (ys, e) \<longrightarrow>
        e = None \<and> sorted_wrt (\<lambda>x y. account_key y < account_key x) ys \<and>
        (\<forall>y \<in> set ys. \<exists>k. y \<in> set (mas_visible b (snap k))) \<and>
        (\<forall>x. (\<forall>k. x \<in> set (mas_visible b (snap k))) \<longrightarrow> x \<in> set ys))"
proof -
  let ?S = "\<lambda>k. mas_visible b (snap k)"
  have scan: "mas_iterate_all fuel other b snap = iterate_pages fuel (\<lambda>k. paginate other (rows_of account_key (?S k)) 500) 0 (cursor_of None)"
    by (simp add: mas_iterate_all_def mas_page_def cursor_of_def)
  have ok: "\<forall>k. table_ok account_key (?S k)" using mas_table_ok assms by blast
  have post: "e = None \<and> scan_post account_key ?S 0 None ys" if "mas_iterate_all fuel other b snap = Some (ys, e)" for ys e
    using scan_stable [OF ok, of 500 None fuel other 0 ys e] that unfolding scan by simp
  have ends: "\<exists>ys. mas_iterate_all fuel other b snap = Some (ys, None) \<and> set ys = set (mas_visible b s)"
    if const: "\<forall>k. snap k = s" and fuel: "length s < fuel" for s
  proof -
    have "snap = (\<lambda>k. s)" using const by auto
    then show ?thesis using mas_scan_const [of s fuel other b] assms const fuel by metis
  qed
  show ?thesis
    using ends post by (auto simp: scan_post_def)
qed

definition demo_account :: "string \<Rightarrow> nat \<Rightarrow> bool \<Rightarrow> account" where
  "demo_account i d r = \<lparr>ac_account_id = i, ac_org_uuid = None, ac_name = None, ac_tier = PRO, ac_cookies = [(''sessionKey'', i)],
     ac_user_agent = None, ac_revoked = r, ac_created_at = DT 2026 2 d 0 0 0 0, ac_updated_at = DT 2026 2 d 0 0 0 0\<rparr>"

definition demo_accounts :: mem_accounts where
  "demo_accounts = [(''a'', demo_account ''a'' 3 False), (''b'', demo_account ''b'' 9 True), (''c'', demo_account ''c'' 3 False)]"

lemma demo_accounts_inv: "mas_inv demo_accounts"
  by (simp add: mas_inv_def demo_accounts_def demo_account_def dict_ok_def dt_ok_def days_in_month_def)

theorem account_scan_witness:
  "\<exists>ys. mas_iterate_all 4 (\<lambda>s. None) False (\<lambda>k. demo_accounts) = Some (ys, None) \<and>
     set ys = {demo_account ''a'' 3 False, demo_account ''c'' 3 False}"
  using account_scan [of "\<lambda>k. demo_accounts" 4 "\<lambda>s. None" False] demo_accounts_inv
  by (auto simp: demo_accounts_def mas_visible_def demo_account_def)

subsection \<open>Accounts and the pool\<close>

lemma strictly_descending_distinct: "sorted_wrt (\<lambda>x y. (f y :: 'b :: linorder) < f x) ys \<Longrightarrow> distinct ys"
  by (induction ys) auto

lemma mas_get_id: "mas_inv s \<Longrightarrow> mas_get i s = Some a \<Longrightarrow> ac_account_id a = i \<and> dt_ok (ac_created_at a)"
  by (auto simp: mas_inv_def mas_get_def dest: map_of_SomeD)

locale account_pool =
  fixes pl :: "'o pool_ops" and ready :: "'o \<Rightarrow> bool"
  assumes add: "ready p \<Longrightarrow> \<exists>q. pool_add pl c t p = (Inr (), q) \<and> ready q \<and> pool_get pl (gc_account_id c) q = Inr (open_client c) \<and>
      (\<forall>b. b \<noteq> gc_account_id c \<longrightarrow> pool_get pl b q = pool_get pl b p)"
    and remove: "ready p \<Longrightarrow> ready (pool_remove pl a p) \<and> (\<exists>m. pool_get pl a (pool_remove pl a p) = Inl (Py (KeyError m))) \<and>
      (\<forall>b. b \<noteq> a \<longrightarrow> pool_get pl b (pool_remove pl a p) = pool_get pl b p)"
begin

lemma resolve_add:
  "ready p \<Longrightarrow> \<exists>q. pool_add pl c t p = (Inr (), q) \<and> ready q \<and>
     (\<forall>b. resolve_client pl b q = (if b = gc_account_id c then Inr (open_client c) else resolve_client pl b p))"
  using add [of p c t] by (fastforce simp: resolve_client_def)

lemma resolve_remove:
  "ready p \<Longrightarrow> ready (pool_remove pl a p) \<and> (\<forall>b. b \<noteq> a \<longrightarrow> resolve_client pl b (pool_remove pl a p) = resolve_client pl b p)"
  using remove [of p a] by (auto simp: resolve_client_def)

lemma add_accounts_resolve:
  assumes "ready p" and "distinct (map ac_account_id as)"
  shows "\<exists>q. add_accounts pl cfg as p = (Inr (length as), q) \<and> ready q \<and>
     (\<forall>b. resolve_client pl b q =
        (case find (\<lambda>a. ac_account_id a = b) as of Some a \<Rightarrow> Inr (open_client (build_client cfg a)) | None \<Rightarrow> resolve_client pl b p))"
  using assms
proof (induction as arbitrary: p)
  case Nil
  then show ?case by simp
next
  case (Cons a as)
  obtain q where q: "pool_add pl (build_client cfg a) (ac_tier a) p = (Inr (), q)" "ready q"
    "\<forall>b. resolve_client pl b q = (if b = ac_account_id a then Inr (open_client (build_client cfg a)) else resolve_client pl b p)"
    using resolve_add [OF Cons.prems(1), of "build_client cfg a" "ac_tier a"] by (auto simp: build_client_def)
  obtain r where r: "add_accounts pl cfg as q = (Inr (length as), r)" "ready r"
    "\<forall>b. resolve_client pl b r =
        (case find (\<lambda>a. ac_account_id a = b) as of Some a \<Rightarrow> Inr (open_client (build_client cfg a)) | None \<Rightarrow> resolve_client pl b q)"
    using Cons.IH [OF q(2)] Cons.prems(2) by auto
  have "find (\<lambda>x. ac_account_id x = ac_account_id a) as = None"
    unfolding find_None_iff using Cons.prems(2) by (metis distinct.simps(2) image_eqI list.set_map list.simps(9))
  then show ?case using q r by (auto split: option.split)
qed

definition mirrors :: "sdk_settings \<Rightarrow> mem_accounts \<Rightarrow> 'o \<Rightarrow> bool" where
  \<comment> \<open>the pool resolves exactly the accounts of the table that are not revoked, to clients of their current data\<close>
  "mirrors cfg accs p \<longleftrightarrow> mas_inv accs \<and> ready p \<and>
     (\<forall>b. resolve_client pl b p =
        (case mas_get b accs of
           Some a \<Rightarrow> if ac_revoked a then Inl (AccountUnavailable (''account '' @ repr_str b @ '' is not registered'')) else Inr (open_client (build_client cfg a))
         | None \<Rightarrow> Inl (AccountUnavailable (''account '' @ repr_str b @ '' is not registered''))))"

lemma mas_inv_upsert: "mas_inv s \<Longrightarrow> dt_ok (ac_created_at a) \<Longrightarrow> mas_inv (mas_upsert a s)"
  using dict_set_subset by (fastforce simp: mas_inv_def mas_upsert_def)

lemma mirrors_provision:
  assumes "mirrors cfg accs p" and "dt_ok now"
  shows "case provision pl cfg uid now parsed org name tier ua (accs, p) of (r, accs1, p1) \<Rightarrow> mirrors cfg accs1 p1"
proof (cases parsed)
  case (Inl e)
  then show ?thesis using assms by (simp add: provision_def)
next
  case (Inr ck)
  define a where "a = \<lparr>ac_account_id = ''acc_'' @ uid, ac_org_uuid = org, ac_name = name, ac_tier = tier, ac_cookies = ck,
                 ac_user_agent = ua, ac_revoked = False, ac_created_at = now, ac_updated_at = now\<rparr>"
  have ready: "ready p" "mas_inv accs" using assms by (auto simp: mirrors_def)
  obtain q where q: "pool_add pl (build_client cfg a) tier p = (Inr (), q)" "ready q"
    "\<forall>b. resolve_client pl b q = (if b = ac_account_id a then Inr (open_client (build_client cfg a)) else resolve_client pl b p)"
    using resolve_add [OF ready(1), of "build_client cfg a" tier] by (auto simp: build_client_def)
  have "mas_inv (mas_upsert a accs)" using mas_inv_upsert [OF ready(2), of a] assms(2) by (simp add: a_def)
  moreover have "\<not> ac_revoked a" by (simp add: a_def)
  ultimately have "mirrors cfg (mas_upsert a accs) q"
    using q assms(1) by (auto simp: mirrors_def mas_get_def mas_upsert_def)
  then show ?thesis using Inr q(1) by (simp add: provision_def Let_def a_def)
qed

lemma mirrors_update:
  assumes "mirrors cfg accs p"
  shows "case update_cookies pl cfg now i parsed ua (accs, p) of (r, accs1, p1) \<Rightarrow> mirrors cfg accs1 p1"
proof (cases "mas_get i accs")
  case None
  then show ?thesis using assms by (simp add: update_cookies_def service_get_def)
next
  case (Some a)
  have ready: "ready p" "mas_inv accs" using assms by (auto simp: mirrors_def)
  have a: "ac_account_id a = i" "dt_ok (ac_created_at a)"
    using mas_get_id [OF ready(2) Some] by blast+
  show ?thesis
  proof (cases parsed)
    case (Inl e)
    then show ?thesis using assms Some by (simp add: update_cookies_def service_get_def)
  next
    case (Inr ck)
    define u where "u = a\<lparr>ac_cookies := ck, ac_user_agent := (case ua of Some u \<Rightarrow> Some u | None \<Rightarrow> ac_user_agent a), ac_updated_at := now\<rparr>"
    have u: "ac_account_id u = i" "ac_revoked u = ac_revoked a" "dt_ok (ac_created_at u)" using a by (simp_all add: u_def)
    have inv: "mas_inv (mas_upsert u accs)" using mas_inv_upsert [OF ready(2) u(3)] .
    have get: "mas_get b (mas_upsert u accs) = (if b = i then Some u else mas_get b accs)" for b
      using u(1) by (simp add: mas_get_def mas_upsert_def)
    obtain q where q: "pool_add pl (build_client cfg u) (ac_tier u) (pool_remove pl i p) = (Inr (), q)" "ready q"
      "\<forall>b. resolve_client pl b q = (if b = i then Inr (open_client (build_client cfg u)) else resolve_client pl b (pool_remove pl i p))"
      using resolve_add [of "pool_remove pl i p" "build_client cfg u" "ac_tier u"] resolve_remove [OF ready(1), of i] u(1)
      by (auto simp: build_client_def)
    have "mirrors cfg (mas_upsert u accs) q" if "\<not> ac_revoked u"
      using q resolve_remove [OF ready(1), of i] assms inv that by (auto simp: mirrors_def get)
    moreover have "mirrors cfg (mas_upsert u accs) p" if "ac_revoked u"
      using assms inv that u(2) Some by (auto simp: mirrors_def get)
    ultimately show ?thesis
      using Some Inr q(1) by (auto simp: update_cookies_def service_get_def Let_def u_def [symmetric])
  qed
qed

lemma rehydrate_mirrors:
  assumes "mas_inv accs" and "ready p" and "\<forall>b. resolve_client pl b p = Inl (AccountUnavailable (''account '' @ repr_str b @ '' is not registered''))"
    and "length accs < fuel"
  shows "\<exists>n q. rehydrate_all fuel other pl cfg accs p = Some (Inr n, q) \<and> mirrors cfg accs q"
proof -
  have inv: "\<forall>k. mas_inv ((\<lambda>k. accs) k)" using assms(1) by simp
  obtain ys where ys: "mas_iterate_all fuel other False (\<lambda>k. accs) = Some (ys, None)" "set ys = set (mas_visible False accs)"
    "sorted_wrt (\<lambda>x y. account_key y < account_key x) ys"
    using mas_scan_const [OF assms(1,4)] by blast
  have vis: "a \<in> set ys \<longleftrightarrow> mas_get (ac_account_id a) accs = Some a \<and> \<not> ac_revoked a" for a
  proof -
    have "a \<in> set ys \<longleftrightarrow> (\<exists>i. (i, a) \<in> set accs) \<and> \<not> ac_revoked a" using ys(2) by (force simp: mas_visible_def)
    moreover have "(\<exists>i. (i, a) \<in> set accs) \<longleftrightarrow> (ac_account_id a, a) \<in> set accs" using assms(1) by (auto simp: mas_inv_def)
    ultimately show ?thesis using assms(1) by (simp add: mas_get_def mas_inv_def dict_get_in_iff)
  qed
  have dk: "distinct ys" using ys(3) by (rule strictly_descending_distinct)
  have eq: "x = y" if "x \<in> set ys" "y \<in> set ys" "ac_account_id x = ac_account_id y" for x y
    using vis [of x] vis [of y] that by simp
  have "distinct (map ac_account_id ys)"
    using dk eq by (simp add: distinct_map inj_on_def)
  then obtain q where q: "add_accounts pl cfg ys p = (Inr (length ys), q)" "ready q"
    "\<forall>b. resolve_client pl b q =
        (case find (\<lambda>a. ac_account_id a = b) ys of Some a \<Rightarrow> Inr (open_client (build_client cfg a)) | None \<Rightarrow> resolve_client pl b p)"
    using add_accounts_resolve [OF assms(2)] by blast
  have found: "find (\<lambda>a. ac_account_id a = b) ys =
      (case mas_get b accs of Some a \<Rightarrow> if ac_revoked a then None else Some a | None \<Rightarrow> None)" for b
  proof (cases "find (\<lambda>a. ac_account_id a = b) ys")
    case None
    then have "a \<notin> set ys" if "ac_account_id a = b" for a using that by (auto simp: find_None_iff)
    then have "ac_revoked a" if "mas_get b accs = Some a" for a
      using vis [of a] that mas_get_id [OF assms(1) that] by metis
    then show ?thesis using None by (auto split: option.split)
  next
    case (Some a)
    then have "a \<in> set ys" "ac_account_id a = b" by (auto simp: find_Some_iff)
    then show ?thesis using Some vis [of a] by simp
  qed
  have "resolve_client pl b q =
        (case mas_get b accs of
           Some a \<Rightarrow> if ac_revoked a then Inl (AccountUnavailable (''account '' @ repr_str b @ '' is not registered'')) else Inr (open_client (build_client cfg a))
         | None \<Rightarrow> Inl (AccountUnavailable (''account '' @ repr_str b @ '' is not registered'')))" for b
    using q(3) [rule_format, of b] assms(3) by (simp add: found split: option.split)
  then have "mirrors cfg accs q"
    using q(2) assms(1) by (simp add: mirrors_def)
  then show ?thesis using q(1) ys(1) by (simp add: rehydrate_all_def)
qed

end

lemma or_remove_table:
  "or_started (snd (or_remove st a o')) = or_started o'" "or_clients (snd (or_remove st a o')) = dict_del (or_clients o') a"
  by (simp_all add: or_remove_def Let_def or_set_avail_def case_prod_unfold)

interpretation orch: account_pool "orch_pool_ops fr st" orch_pool_ready
proof
  fix p :: "'a orch_pool" and c t
  assume "orch_pool_ready p"
  then show "\<exists>q. pool_add (orch_pool_ops fr st) c t p = (Inr (), q) \<and> orch_pool_ready q \<and>
      pool_get (orch_pool_ops fr st) (gc_account_id c) q = Inr (open_client c) \<and>
      (\<forall>b. b \<noteq> gc_account_id c \<longrightarrow> pool_get (orch_pool_ops fr st) b q = pool_get (orch_pool_ops fr st) b p)"
    by (cases p) (simp add: orch_pool_ops_def orch_pool_add_def orch_pool_get_def orch_pool_ready_def or_add_def or_get_def pool_client_def Let_def split: option.split)
next
  fix p :: "'a orch_pool" and a
  assume r: "orch_pool_ready p"
  then show "orch_pool_ready (pool_remove (orch_pool_ops fr st) a p) \<and>
      (\<exists>m. pool_get (orch_pool_ops fr st) a (pool_remove (orch_pool_ops fr st) a p) = Inl (Py (KeyError m))) \<and>
      (\<forall>b. b \<noteq> a \<longrightarrow> pool_get (orch_pool_ops fr st) b (pool_remove (orch_pool_ops fr st) a p) = pool_get (orch_pool_ops fr st) b p)"
    by (cases p) (simp add: orch_pool_ops_def orch_pool_remove_def orch_pool_get_def orch_pool_ready_def or_remove_table or_get_def split: option.split)
qed

text \<open>The operations of the account service that change the table or the pool, as a client sees them.\<close>

datatype service_op =
    SProvision string datetime "gexn + cookies" "string option" "string option" account_tier "string option"
  | SUpdate datetime account_id "gexn + cookies" "string option"

fun service_step :: "'o pool_ops \<Rightarrow> sdk_settings \<Rightarrow> service_op \<Rightarrow> mem_accounts \<times> 'o \<Rightarrow> mem_accounts \<times> 'o" where
  "service_step pl cfg (SProvision uid now parsed org name tier ua) s = snd (provision pl cfg uid now parsed org name tier ua s)"
| "service_step pl cfg (SUpdate now i parsed ua) s = snd (update_cookies pl cfg now i parsed ua s)"

fun op_clock_ok :: "service_op \<Rightarrow> bool" where
  "op_clock_ok (SProvision uid now parsed org name tier ua) = dt_ok now"
| "op_clock_ok (SUpdate now i parsed ua) = dt_ok now"

lemma service_mirrors:
  assumes "orch_pool_ready p" and "orch.mirrors fr st cfg accs p" and "\<forall>op \<in> set ops. op_clock_ok op"
  shows "case fold (service_step (orch_pool_ops fr st) cfg) ops (accs, p) of (accs1, p1) \<Rightarrow> orch.mirrors fr st cfg accs1 p1"
  using assms
proof (induction ops arbitrary: accs p)
  case Nil
  then show ?case by simp
next
  case (Cons op ops)
  obtain accs1 p1 where s: "service_step (orch_pool_ops fr st) cfg op (accs, p) = (accs1, p1)" by (rule prod.exhaust)
  have "orch.mirrors fr st cfg accs1 p1"
  proof (cases op)
    case (SProvision uid now parsed org name tier ua)
    then show ?thesis
      using orch.mirrors_provision [OF Cons.prems(2), of now uid parsed org name tier ua] Cons.prems(3) s by (auto split: prod.splits)
  next
    case (SUpdate now i parsed ua)
    then show ?thesis
      using orch.mirrors_update [OF Cons.prems(2), of now i parsed ua] s by (auto split: prod.splits)
  qed
  then show ?case using Cons.IH [of p1 accs1] Cons.prems(3) s by (auto simp: orch.mirrors_def)
qed

text \<open>
  C16. A restart rebuilds the pool. After any history of provisioning and cookie updates on an
  orchestrator that has started, rehydrating a new empty one from the account table succeeds, and
  the new pool resolves every account id exactly as the old one did: to a client with the stored
  cookies, user agent and organisation, or to the 404 error.
\<close>

theorem restart_restores_pool:
  assumes "orch_pool_ready p0" and "snd p0 = []" and "orch_pool_ready q0" and "snd q0 = []"
    and "\<forall>op \<in> set ops. op_clock_ok op"
    and "fold (service_step (orch_pool_ops fr st) cfg) ops ([], p0) = (accs, p)" and "length accs < fuel"
  shows "\<exists>n q. rehydrate_all fuel other (orch_pool_ops fr st) cfg accs q0 = Some (Inr n, q) \<and>
     (\<forall>a. resolve_client (orch_pool_ops fr st) a q = resolve_client (orch_pool_ops fr st) a p) \<and>
     (\<forall>a c. resolve_client (orch_pool_ops fr st) a p = Inr c \<longrightarrow>
        (\<exists>ac. mas_get a accs = Some ac \<and> \<not> ac_revoked ac \<and> c = open_client (build_client cfg ac)))"
proof -
  have empty: "resolve_client (orch_pool_ops fr st) b r = Inl (AccountUnavailable (''account '' @ repr_str b @ '' is not registered''))"
    if "orch_pool_ready r" "snd r = []" for b and r :: "'a orch_pool"
    using that by (simp add: resolve_client_def orch_pool_ops_def orch_pool_get_def orch_pool_ready_def or_get_def)
  have "orch.mirrors fr st cfg [] p0"
    using empty [OF assms(1,2)] assms(1) by (simp add: orch.mirrors_def mas_get_def mas_inv_def)
  then have m: "orch.mirrors fr st cfg accs p"
    using service_mirrors [OF assms(1) _ assms(5), of fr st cfg "[]"] assms(6) by simp
  obtain n q where q: "rehydrate_all fuel other (orch_pool_ops fr st) cfg accs q0 = Some (Inr n, q)" "orch.mirrors fr st cfg accs q"
    using orch.rehydrate_mirrors [of accs q0 fr st fuel other cfg] m empty [OF assms(3,4)] assms(3,7) by (auto simp: orch.mirrors_def)
  have eq: "resolve_client (orch_pool_ops fr st) a q = resolve_client (orch_pool_ops fr st) a p" for a
    using q(2) m unfolding orch.mirrors_def by metis
  have "\<exists>ac. mas_get a accs = Some ac \<and> \<not> ac_revoked ac \<and> c = open_client (build_client cfg ac)"
    if "resolve_client (orch_pool_ops fr st) a p = Inr c" for a c
    using m that unfolding orch.mirrors_def by (auto split: option.splits if_splits)
  then show ?thesis using q(1) eq by blast
qed

definition demo_pool :: "mem_storage orch_pool" where
  "demo_pool = (snd (or_start (\<lambda>x. []) mem_ops (or_init 0 [] True None None False None (9/10))), [])"

definition demo_service :: "service_op list" where
  "demo_service = [SProvision ''1'' demo_time (Inr [(''sessionKey'', ''s'')]) None None PRO None,
     SUpdate demo_time ''acc_1'' (Inr [(''sessionKey'', ''t'')]) (Some ''UA'')]"

definition demo_settings :: sdk_settings where
  "demo_settings = \<lparr>ss_base_url = ''https://claude.ai'', ss_user_agent = ''agent''\<rparr>"

lemma demo_pool_ready: "orch_pool_ready demo_pool \<and> snd demo_pool = []"
proof -
  have "or_started (fst demo_pool)" "or_clients (fst demo_pool) = []" by code_simp+
  then show ?thesis by (simp add: orch_pool_ready_def demo_pool_def)
qed

theorem restart_restores_pool_witness:
  "\<exists>accs p n q. fold (service_step (orch_pool_ops (\<lambda>x. []) mem_ops) demo_settings) demo_service ([], demo_pool) = (accs, p) \<and>
     rehydrate_all 3 (\<lambda>s. None) (orch_pool_ops (\<lambda>x. []) mem_ops) demo_settings accs demo_pool = Some (Inr n, q) \<and>
     (\<forall>a. resolve_client (orch_pool_ops (\<lambda>x. []) mem_ops) a q = resolve_client (orch_pool_ops (\<lambda>x. []) mem_ops) a p) \<and>
     map_sum (\<lambda>e. ()) (\<lambda>c. hs_cookies (gc_session c)) (resolve_client (orch_pool_ops (\<lambda>x. []) mem_ops) ''acc_1'' q) = Inr [(''sessionKey'', ''t'')]"
proof -
  let ?pl = "orch_pool_ops (\<lambda>x. []) (mem_ops :: mem_storage storage_ops)"
  define run where "run = fold (service_step ?pl demo_settings) demo_service ([], demo_pool)"
  have run: "fold (service_step ?pl demo_settings) demo_service ([], demo_pool) = (fst run, snd run)" by (simp add: run_def)
  have len: "length (fst run) < 3" unfolding run_def by code_simp
  have ck: "map_sum (\<lambda>e. ()) (\<lambda>c. hs_cookies (gc_session c)) (resolve_client ?pl ''acc_1'' (snd run)) = Inr [(''sessionKey'', ''t'')]"
    unfolding run_def by code_simp
  have clocks: "\<forall>op \<in> set demo_service. op_clock_ok op"
    by (simp add: demo_service_def demo_time_def dt_ok_def days_in_month_def)
  have "\<exists>n q. rehydrate_all 3 (\<lambda>s. None) ?pl demo_settings (fst run) demo_pool = Some (Inr n, q) \<and>
     (\<forall>a. resolve_client ?pl a q = resolve_client ?pl a (snd run)) \<and>
     (\<forall>a c. resolve_client ?pl a (snd run) = Inr c \<longrightarrow>
        (\<exists>ac. mas_get a (fst run) = Some ac \<and> \<not> ac_revoked ac \<and> c = open_client (build_client demo_settings ac)))"
    by (rule restart_restores_pool [OF _ _ _ _ clocks run len]) (simp_all add: demo_pool_ready)
  then show ?thesis using run ck by metis
qed

end
