(* ===== verification/Gateway_Completion.thy ===== *)
theory Gateway_Completion
  imports Gateway_Auth
begin

section \<open>Chat completions of the gateway\<close>

text \<open>
  \<^verbatim>\<open>gateway/features/completion\<close>: the OpenAI wire records, the prompt builder, the tool-call
  protocol (splitting native and emulated tools, the preamble, and the tolerant parser of the
  model's reply with its two regular expressions written out as scanners), the mapping of results
  and stream events to responses and chunks, and the completion service. The calls on the SDK
  client are an argument, so are the uuids and the epoch. Shown: rendered tool calls are parsed
  back, and streaming delivers what the buffered endpoint returns.
\<close>

subsection \<open>Wire records\<close>

datatype role = SYSTEM | USER | ASSISTANT | TOOL

record tool_function =
  tf_name :: string
  tf_description :: "string option"
  tf_parameters :: "json dict option"

record tool_def =
  td_function :: tool_function

record tool_call =
  tc_id :: string
  tc_name :: string
  tc_arguments :: string

datatype content = TextContent string | BlockContent "json dict list"

record in_message =
  im_role :: role
  im_content :: "content option"
  im_name :: "string option"
  im_tool_call_id :: "string option"
  im_tool_calls :: "tool_call list option"

record out_message =
  om_role :: role
  om_content :: "string option"
  om_tool_calls :: "tool_call list option"

record chat_choice =
  cc_index :: int
  cc_message :: out_message
  cc_finish_reason :: "string option"

record usage =
  us_prompt_tokens :: int
  us_completion_tokens :: int
  us_total_tokens :: int

record chat_completion_response =
  cp_id :: string
  cp_created :: int
  cp_model :: string
  cp_choices :: "chat_choice list"
  cp_usage :: usage

record chunk_choice =
  ck_index :: int
  ck_delta :: "json dict"
  ck_finish_reason :: "string option"

record chat_completion_chunk =
  ch_id :: string
  ch_created :: int
  ch_model :: string
  ch_choices :: "chunk_choice list"

record completion_input =
  ci_messages :: "in_message list"
  ci_model_alias :: string
  ci_conversation_id :: "string option"
  ci_stream :: bool
  ci_tools :: "tool_def list option"
  ci_tool_choice :: json   \<comment> \<open>a string, an object, or \<open>None\<close>\<close>

subsection \<open>The prompt builder\<close>

fun ROLE_LABEL :: "role \<Rightarrow> string" where
  "ROLE_LABEL SYSTEM = ''System''"
| "ROLE_LABEL USER = ''User''"
| "ROLE_LABEL ASSISTANT = ''Assistant''"
| "ROLE_LABEL TOOL = ''Tool''"

definition text_of :: "content option \<Rightarrow> string" where
  "text_of content =
     (case content of
        None \<Rightarrow> []
      | Some (TextContent s) \<Rightarrow> s
      | Some (BlockContent blocks) \<Rightarrow>
          join [LF] (concat (map (\<lambda>b. case obj_get b ''text'' of JStr s \<Rightarrow> [s] | _ \<Rightarrow> []) blocks)))"

definition render_tool_calls :: "tool_call list \<Rightarrow> string" where
  "render_tool_calls calls =
     join [LF] (map (\<lambda>c. ''Assistant called: '' @ tc_name c @ ''('' @ tc_arguments c @ '')'') calls)"

definition calls_of :: "in_message \<Rightarrow> tool_call list" where
  \<comment> \<open>the truth value of \<open>message.tool_calls\<close> is that of this list\<close>
  "calls_of m = (case im_tool_calls m of None \<Rightarrow> [] | Some cs \<Rightarrow> cs)"

definition has_tool_history :: "in_message list \<Rightarrow> bool" where
  "has_tool_history messages = list_ex (\<lambda>m. im_role m = TOOL \<or> calls_of m \<noteq> []) messages"

definition flatten_message :: "in_message \<Rightarrow> string list" where
  "flatten_message m =
     (let body = strip (text_of (im_content m)) in
      if im_role m = TOOL then
        [''Tool result ['' @ or_default (im_tool_call_id m) (or_default (im_name m) []) @ '']: '' @ body]
      else if im_role m = ASSISTANT \<and> calls_of m \<noteq> [] then
        (let rendered = render_tool_calls (calls_of m)
         in [if body \<noteq> [] then strip (rendered @ [LF] @ body) else rendered])
      else if body \<noteq> [] then [ROLE_LABEL (im_role m) @ '': '' @ body] else [])"

definition flatten :: "in_message list \<Rightarrow> string" where
  "flatten messages = join [LF, LF] (concat (map flatten_message messages))"

definition last_user :: "in_message list \<Rightarrow> string" where
  "last_user messages =
     (case find (\<lambda>m. im_role m = USER \<and> strip (text_of (im_content m)) \<noteq> []) (rev messages) of
        Some m \<Rightarrow> strip (text_of (im_content m))
      | None \<Rightarrow> flatten messages)"

subsection \<open>Tools\<close>

definition NATIVE :: "string dict" where
  \<comment> \<open>the wire value of the native tool type\<close>
  "NATIVE = [(''web_search'', ''web_search_v0'')]"

record native_tool =
  nt_name :: string
  nt_type :: string

definition native_as_dict :: "native_tool \<Rightarrow> json" where
  "native_as_dict n = JObj [(''type'', JStr (nt_type n)), (''name'', JStr (nt_name n))]"

fun split_loop :: "bool \<Rightarrow> tool_def list \<Rightarrow> native_tool list \<times> tool_def list" where
  "split_loop suppress [] = ([], [])"
| "split_loop suppress (t # ts) =
     (let (native, custom) = split_loop suppress ts in
      case dict_get NATIVE (tf_name (td_function t)) of
        Some ty \<Rightarrow> (\<lparr>nt_name = tf_name (td_function t), nt_type = ty\<rparr> # native, custom)
      | None \<Rightarrow> if suppress then (native, custom) else (native, t # custom))"

definition split_tools :: "tool_def list option \<Rightarrow> json \<Rightarrow> native_tool list \<times> tool_def list" where
  "split_tools tools choice =
     (case tools of None \<Rightarrow> ([], []) | Some ts \<Rightarrow> split_loop (choice = JStr ''none'') ts)"

definition forced_name :: "json \<Rightarrow> string option" where
  "forced_name choice =
     (case choice of
        JObj d \<Rightarrow> (case obj_get d ''function'' of
                     JObj f \<Rightarrow> (case obj_get f ''name'' of JStr n \<Rightarrow> Some n | _ \<Rightarrow> None)
                   | _ \<Rightarrow> None)
      | _ \<Rightarrow> None)"

definition render_tool :: "(pyfloat \<Rightarrow> string) \<Rightarrow> tool_def \<Rightarrow> string" where
  \<comment> \<open>the dash before the description is a character outside the model's strings, here a hyphen\<close>
  "render_tool fr t =
     (let fn = td_function t;
          schema = json_raw fr (JObj (case tf_parameters fn of None \<Rightarrow> [] | Some p \<Rightarrow> p));
          desc = (case tf_description fn of Some (c # cs) \<Rightarrow> '' - '' @ c # cs | _ \<Rightarrow> [])
      in ''- '' @ tf_name fn @ desc @ [LF] @ ''  parameters (JSON Schema): '' @ schema)"

definition PREAMBLE :: "string list" where
  "PREAMBLE =
     [''You have access to the following tools. To call a tool, emit a line of the form:'',
      ''<tool_call>{'' @ [CHR 0x22] @ ''name'' @ [CHR 0x22] @ '': '' @ [CHR 0x22] @ ''<tool_name>'' @ [CHR 0x22] @ '', '' @ [CHR 0x22] @
        ''arguments'' @ [CHR 0x22] @ '': {<json args>}}</tool_call>'',
      ''Emit one <tool_call> block per call (multiple allowed). Emit nothing else on those lines. If no tool is needed, answer normally.'',
      [], ''Tools:'']"

definition render_tools_preamble :: "(pyfloat \<Rightarrow> string) \<Rightarrow> tool_def list \<Rightarrow> json \<Rightarrow> string" where
  "render_tools_preamble fr custom choice =
     join [LF]
       (PREAMBLE @ map (render_tool fr) custom @
        (case forced_name choice of
           Some (c # cs) \<Rightarrow> [[LF] @ ''You MUST call the `'' @ c # cs @ ''` tool to answer this request.'']
         | _ \<Rightarrow> if choice = JStr ''required'' then [[LF] @ ''You MUST call one of the tools above to answer this request.''] else []))"

subsection \<open>Parsing a reply\<close>

record parsed_call =
  pc_name :: string
  pc_arguments :: "json dict"

definition OPEN_TAG :: string where
  "OPEN_TAG = ''<tool_call>''"

definition CLOSE_TAG :: string where
  "CLOSE_TAG = ''</tool_call>''"

fun split_at :: "string \<Rightarrow> string \<Rightarrow> (string \<times> string) option" where
  \<comment> \<open>what is before and after the first occurrence of \<open>p\<close>\<close>
  "split_at p [] = (if p = [] then Some ([], []) else None)"
| "split_at p (c # cs) =
     (if startswith (c # cs) p then Some ([], drop (length p) (c # cs))
      else map_option (\<lambda>(a, b). (c # a, b)) (split_at p cs))"

lemma split_at_length: "split_at p s = Some (a, b) \<Longrightarrow> length a + length p + length b = length s"
proof (induction p s arbitrary: a b rule: split_at.induct)
  case (1 p)
  then show ?case by (auto split: if_splits)
next
  case (2 p c cs)
  show ?case
  proof (cases "startswith (c # cs) p")
    case True
    then have "length p \<le> length (c # cs)" by (metis length_take min.cobounded1 startswith_iff)
    then show ?thesis using 2(2) True by auto
  next
    case False
    then show ?thesis using 2 by auto
  qed
qed

function tag_blocks :: "string \<Rightarrow> string list" where
  \<comment> \<open>\<open>_TAG_RE.findall\<close>: the shortest body up to a closing tag, without the whitespace around it\<close>
  "tag_blocks [] = []"
| "tag_blocks (c # cs) =
     (if startswith (c # cs) OPEN_TAG then
        (case split_at CLOSE_TAG (drop (length OPEN_TAG) (c # cs)) of
           Some (body, rest) \<Rightarrow> strip body # tag_blocks rest
         | None \<Rightarrow> tag_blocks cs)
      else tag_blocks cs)"
  by pat_completeness auto
termination
  by (relation "measure length") (auto dest!: split_at_length simp: OPEN_TAG_def)

fun close_fence :: "string \<Rightarrow> (string \<times> string) option" where
  \<comment> \<open>the shortest text that ends in a brace with whitespace and a closing fence behind it\<close>
  "close_fence [] = None"
| "close_fence (c # cs) =
     (if c = CHR ''}'' \<and> startswith (dropWhile is_space cs) ''```'' then Some ([c], drop 3 (dropWhile is_space cs))
      else map_option (\<lambda>(a, b). (c # a, b)) (close_fence cs))"

lemma close_fence_length: "close_fence s = Some (a, b) \<Longrightarrow> length b < length s"
proof (induction s arbitrary: a)
  case (Cons c cs)
  have "length (dropWhile is_space cs) \<le> length cs" by (rule length_dropWhile_le)
  then have "length (drop 3 (dropWhile is_space cs)) < length (c # cs)" by simp
  then show ?case using Cons by (auto split: if_splits)
qed simp

definition fence_here :: "string \<Rightarrow> (string \<times> string) option" where
  \<comment> \<open>\<open>_FENCE_RE\<close> at the start of the text: the group and what follows the match\<close>
  "fence_here s =
     (if startswith s ''```'' then
        (let r = drop 3 s; r1 = (if startswith r ''json'' then drop 4 r else r); r2 = dropWhile is_space r1
         in if startswith r2 ''{'' then close_fence r2 else None)
      else None)"

lemma fence_here_length: "fence_here s = Some (a, b) \<Longrightarrow> length b < length s"
proof -
  assume f: "fence_here s = Some (a, b)"
  let ?r = "drop 3 s" let ?r1 = "if startswith ?r ''json'' then drop 4 ?r else ?r"
  have "length (dropWhile is_space ?r1) \<le> length ?r1" by (rule length_dropWhile_le)
  also have "length ?r1 \<le> length s" by simp
  finally show ?thesis
    using f close_fence_length [of "dropWhile is_space ?r1" a b] by (auto simp: fence_here_def Let_def split: if_splits)
qed

function fence_blocks :: "string \<Rightarrow> string list" where
  "fence_blocks [] = []"
| "fence_blocks (c # cs) =
     (case fence_here (c # cs) of Some (grp, rest) \<Rightarrow> grp # fence_blocks rest | None \<Rightarrow> fence_blocks cs)"
  by pat_completeness auto
termination
  by (relation "measure length") (auto dest!: fence_here_length)

definition coerce :: "json \<Rightarrow> parsed_call option" where
  "coerce obj =
     (case obj of
        JObj d \<Rightarrow>
          (case obj_get d ''name'' of
             JStr (c # cs) \<Rightarrow>
               (let args = dict_getd d ''arguments'' (JObj []);
                    args1 = (case args of JStr s \<Rightarrow> (case json_loads s of Some v \<Rightarrow> v | None \<Rightarrow> JObj []) | _ \<Rightarrow> args)
                in Some \<lparr>pc_name = c # cs, pc_arguments = (case args1 of JObj a \<Rightarrow> a | _ \<Rightarrow> [])\<rparr>)
           | _ \<Rightarrow> None)
      | _ \<Rightarrow> None)"

definition calls_in :: "string list \<Rightarrow> parsed_call list" where
  \<comment> \<open>the loop over the candidates: those that are no JSON or no call are skipped\<close>
  "calls_in raws = List.map_filter (\<lambda>raw. Option.bind (json_loads raw) coerce) raws"

definition parse_tool_calls :: "string \<Rightarrow> parsed_call list" where
  "parse_tool_calls text =
     (if text = [] then []
      else if calls_in (tag_blocks text) \<noteq> [] then calls_in (tag_blocks text)
      else if calls_in (fence_blocks text) \<noteq> [] then calls_in (fence_blocks text)
      else (let stripped = strip text in
            if startswith stripped ''{'' \<and> endswith stripped ''}'' then calls_in [stripped] else []))"

subsection \<open>Responses and chunks\<close>

definition DONE_FRAME :: string where
  "DONE_FRAME = ''data: [DONE]'' @ [LF, LF]"

definition FINISH :: "string dict" where
  "FINISH = [(''end_turn'', ''stop''), (''stop_sequence'', ''stop''), (''max_tokens'', ''length'')]"

definition map_finish :: "string option \<Rightarrow> string option" where
  "map_finish stop_reason = (case stop_reason of None \<Rightarrow> None | Some r \<Rightarrow> Some (dict_getd FINISH r ''stop''))"

definition text_of_event :: "stream_event \<Rightarrow> string option" where
  "text_of_event event =
     (case event of
        ContentBlockDelta raw i (TextDelta t) \<Rightarrow> Some t
      | ContentBlockDelta raw i (DictDelta d) \<Rightarrow>
          if obj_get d ''type'' = JStr ''text_delta''
          then (case dict_getd d ''text'' (JStr []) of JStr t \<Rightarrow> Some t | _ \<Rightarrow> None) else None
      | _ \<Rightarrow> None)"

definition finish_of_event :: "stream_event \<Rightarrow> string option" where
  "finish_of_event event = (case event of MessageDelta raw d n \<Rightarrow> map_finish (sd_stop_reason d) | _ \<Rightarrow> None)"

definition make_chunk :: "string \<Rightarrow> int \<Rightarrow> string \<Rightarrow> json dict \<Rightarrow> string option \<Rightarrow> chat_completion_chunk" where
  "make_chunk ident epoch model delta finish =
     \<lparr>ch_id = ident, ch_created = epoch, ch_model = model,
      ch_choices = [\<lparr>ck_index = 0, ck_delta = delta, ck_finish_reason = finish\<rparr>]\<rparr>"

definition estimate_tokens :: "string \<Rightarrow> int" where
  "estimate_tokens text = max 0 (int (length text) div 4)"

definition to_tool_calls :: "(pyfloat \<Rightarrow> string) \<Rightarrow> (nat \<Rightarrow> string) \<Rightarrow> parsed_call list \<Rightarrow> tool_call list" where
  \<comment> \<open>\<open>mint n\<close> is the uuid of the \<open>n\<close>-th call\<close>
  "to_tool_calls fr mint calls =
     map (\<lambda>(n, c). \<lparr>tc_id = ''call_'' @ mint n, tc_name = pc_name c, tc_arguments = json_raw fr (JObj (pc_arguments c))\<rparr>)
       (enumerate 0 calls)"

definition usage_of :: "string \<Rightarrow> int \<Rightarrow> usage" where
  "usage_of prompt output_tokens =
     \<lparr>us_prompt_tokens = estimate_tokens prompt, us_completion_tokens = output_tokens,
      us_total_tokens = estimate_tokens prompt + output_tokens\<rparr>"

definition make_tool_response ::
  "(pyfloat \<Rightarrow> string) \<Rightarrow> (nat \<Rightarrow> string) \<Rightarrow> string \<Rightarrow> int \<Rightarrow> parsed_call list \<Rightarrow> string \<Rightarrow> string \<Rightarrow> int \<Rightarrow> chat_completion_response" where
  "make_tool_response fr mint cid epoch calls model prompt output_tokens =
     \<lparr>cp_id = cid, cp_created = epoch, cp_model = model,
      cp_choices = [\<lparr>cc_index = 0,
        cc_message = \<lparr>om_role = ASSISTANT, om_content = None, om_tool_calls = Some (to_tool_calls fr mint calls)\<rparr>,
        cc_finish_reason = Some ''tool_calls''\<rparr>],
      cp_usage = usage_of prompt output_tokens\<rparr>"

definition call_json :: "nat \<times> tool_call \<Rightarrow> json" where
  "call_json p =
     (case p of (n, t) \<Rightarrow>
        JObj [(''index'', JInt (int n)), (''id'', JStr (tc_id t)), (''type'', JStr ''function''),
              (''function'', JObj [(''name'', JStr (tc_name t)), (''arguments'', JStr (tc_arguments t))])])"

definition tool_calls_chunk ::
  "(pyfloat \<Rightarrow> string) \<Rightarrow> (nat \<Rightarrow> string) \<Rightarrow> string \<Rightarrow> int \<Rightarrow> string \<Rightarrow> parsed_call list \<Rightarrow> chat_completion_chunk" where
  "tool_calls_chunk fr mint ident epoch model calls =
     make_chunk ident epoch model
       [(''tool_calls'', JList (map call_json (enumerate 0 (to_tool_calls fr mint calls))))] (Some ''tool_calls'')"

definition make_response ::
  "string \<Rightarrow> int \<Rightarrow> string \<Rightarrow> string option \<Rightarrow> int \<Rightarrow> string \<Rightarrow> string \<Rightarrow> chat_completion_response" where
  "make_response cid epoch text stop_reason output_tokens model prompt =
     \<lparr>cp_id = cid, cp_created = epoch, cp_model = model,
      cp_choices = [\<lparr>cc_index = 0, cc_message = \<lparr>om_role = ASSISTANT, om_content = Some text, om_tool_calls = None\<rparr>,
        cc_finish_reason = Some (case map_finish stop_reason of Some f \<Rightarrow> f | None \<Rightarrow> ''stop'')\<rparr>],
      cp_usage = usage_of prompt output_tokens\<rparr>"

subsection \<open>The completion service\<close>

record client_calls =
  \<comment> \<open>the methods of \<open>ClaudeAIClient\<close> the service calls; an event stream is its events and the exception that ends it, if one does\<close>
  cl_create_conversation_for_prompt :: "string \<Rightarrow> gexn + string"
  cl_send_message_and_collect :: "string \<Rightarrow> string \<Rightarrow> string \<Rightarrow> json list option \<Rightarrow> gexn + completion_result"
  cl_send_message :: "string \<Rightarrow> string \<Rightarrow> string \<Rightarrow> json list option \<Rightarrow> gexn + stream_event list \<times> gexn option"

record prepared =
  pp_conv_uuid :: string
  pp_prompt :: string
  pp_model :: string
  pp_native :: "native_tool list"
  pp_has_custom :: bool

definition prompt_for :: "completion_input \<Rightarrow> string" where
  "prompt_for req =
     (if or_default (ci_conversation_id req) [] \<noteq> [] \<and> \<not> has_tool_history (ci_messages req)
      then last_user (ci_messages req) else flatten (ci_messages req))"

definition prepare :: "(pyfloat \<Rightarrow> string) \<Rightarrow> model_mapper \<Rightarrow> client_calls \<Rightarrow> completion_input \<Rightarrow> gexn + prepared" where
  "prepare fr mapper client req =
     (let model = resolve_model mapper (ci_model_alias req);
          (native, custom) = split_tools (ci_tools req) (ci_tool_choice req);
          prompt = prompt_for req
      in if prompt = [] then Inl NoMessages
         else (let prompt1 = (if custom \<noteq> [] then prompt @ [LF, LF] @ render_tools_preamble fr custom (ci_tool_choice req) else prompt)
               in bind_result
                    (if or_default (ci_conversation_id req) [] \<noteq> [] then Inr (or_default (ci_conversation_id req) [])
                     else cl_create_conversation_for_prompt client prompt1)
                    (\<lambda>conv. Inr \<lparr>pp_conv_uuid = conv, pp_prompt = prompt1, pp_model = model, pp_native = native, pp_has_custom = (custom \<noteq> [])\<rparr>)))"

definition native_dicts :: "prepared \<Rightarrow> json list" where
  "native_dicts p = map native_as_dict (pp_native p)"

definition complete ::
  "(pyfloat \<Rightarrow> string) \<Rightarrow> (nat \<Rightarrow> string) \<Rightarrow> string \<Rightarrow> int \<Rightarrow> model_mapper \<Rightarrow> gexn + client_calls \<Rightarrow> completion_input \<Rightarrow> gexn + chat_completion_response" where
  \<comment> \<open>the client is the result of \<open>resolve_client\<close> for the account of the caller\<close>
  "complete fr mint cid epoch mapper client req =
     bind_result client (\<lambda>client.
     bind_result (prepare fr mapper client req) (\<lambda>prep.
     bind_result (cl_send_message_and_collect client (pp_conv_uuid prep) (pp_prompt prep) (pp_model prep) (Some (native_dicts prep))) (\<lambda>result.
       let calls = (if pp_has_custom prep then parse_tool_calls (cr_text result) else [])
       in if calls \<noteq> []
          then Inr (make_tool_response fr mint cid epoch calls (ci_model_alias req) (pp_prompt prep) (cr_output_tokens result))
          else Inr (make_response cid epoch (cr_text result) (cr_stop_reason result) (cr_output_tokens result) (ci_model_alias req) (pp_prompt prep)))))"

definition content_chunks :: "string \<Rightarrow> int \<Rightarrow> string \<Rightarrow> stream_event \<Rightarrow> chat_completion_chunk list" where
  "content_chunks cid epoch model event =
     (case text_of_event event of
        Some (c # cs) \<Rightarrow> [make_chunk cid epoch model [(''content'', JStr (c # cs))] None]
      | _ \<Rightarrow> [])"

definition last_finish :: "stream_event list \<Rightarrow> string option" where
  "last_finish events = fold (\<lambda>e f. case finish_of_event e of Some (c # cs) \<Rightarrow> Some (c # cs) | _ \<Rightarrow> f) events None"

definition completion_stream ::
  "(pyfloat \<Rightarrow> string) \<Rightarrow> (nat \<Rightarrow> string) \<Rightarrow> string \<Rightarrow> int \<Rightarrow> model_mapper \<Rightarrow> gexn + client_calls \<Rightarrow> completion_input \<Rightarrow>
     chat_completion_chunk list \<times> gexn option" where
  \<comment> \<open>the chunks yielded and the exception that ends the generator, if one does\<close>
  "completion_stream fr mint cid epoch mapper client req =
     (case bind_result client (\<lambda>client. bind_result (prepare fr mapper client req) (\<lambda>prep. Inr (client, prep))) of
        Inl e \<Rightarrow> ([], Some e)
      | Inr (client, prep) \<Rightarrow>
          (let model = ci_model_alias req;
               role_chunk = make_chunk cid epoch model [(''role'', JStr ''assistant'')] None
           in if pp_has_custom prep then
                (case cl_send_message_and_collect client (pp_conv_uuid prep) (pp_prompt prep) (pp_model prep) (Some (native_dicts prep)) of
                   Inl e \<Rightarrow> ([], Some e)
                 | Inr result \<Rightarrow>
                     (let calls = parse_tool_calls (cr_text result)
                      in if calls \<noteq> [] then ([role_chunk, tool_calls_chunk fr mint cid epoch model calls], None)
                         else (role_chunk # (if cr_text result \<noteq> [] then [make_chunk cid epoch model [(''content'', JStr (cr_text result))] None] else [])
                                 @ [make_chunk cid epoch model [] (Some ''stop'')], None)))
              else
                (case cl_send_message client (pp_conv_uuid prep) (pp_prompt prep) (pp_model prep) (Some (native_dicts prep)) of
                   Inl e \<Rightarrow> ([role_chunk], Some e)
                 | Inr (events, err) \<Rightarrow>
                     (let body = role_chunk # concat (map (content_chunks cid epoch model) events)
                      in case err of
                           Some e \<Rightarrow> (body, Some e)
                         | None \<Rightarrow> (body @ [make_chunk cid epoch model [] (Some (case last_finish events of Some f \<Rightarrow> f | None \<Rightarrow> ''stop''))], None)))))"

definition text_prompt ::
  "(pyfloat \<Rightarrow> string) \<Rightarrow> model_mapper \<Rightarrow> string \<Rightarrow> gexn + client_calls \<Rightarrow> string \<Rightarrow> string option \<Rightarrow> string option \<Rightarrow> gexn + string \<times> string" where
  \<comment> \<open>the \<open>/v1/prompt\<close> endpoint: the answer and the conversation it is in\<close>
  "text_prompt fr mapper default_model client text model conversation_id =
     bind_result client (\<lambda>client.
       let req = \<lparr>ci_messages = [\<lparr>im_role = USER, im_content = Some (TextContent text), im_name = None, im_tool_call_id = None, im_tool_calls = None\<rparr>],
                  ci_model_alias = or_default model default_model, ci_conversation_id = conversation_id, ci_stream = False,
                  ci_tools = None, ci_tool_choice = JNull\<rparr>
       in bind_result (prepare fr mapper client req) (\<lambda>prep.
          bind_result (cl_send_message_and_collect client (pp_conv_uuid prep) (pp_prompt prep) (pp_model prep) None) (\<lambda>result.
            Inr (cr_text result, pp_conv_uuid prep))))"

subsection \<open>Tool calls round trip\<close>

definition render_call :: "(pyfloat \<Rightarrow> string) \<Rightarrow> parsed_call \<Rightarrow> string" where
  \<comment> \<open>a reply that follows the contract of the preamble\<close>
  "render_call fr c =
     OPEN_TAG @ json_dumps fr (JObj [(''name'', JStr (pc_name c)), (''arguments'', JObj (pc_arguments c))]) @ CLOSE_TAG"

definition occurs :: "string \<Rightarrow> string \<Rightarrow> bool" where
  "occurs p s \<longleftrightarrow> (\<exists>a b. s = a @ p @ b)"

definition callable :: "(pyfloat \<Rightarrow> string) \<Rightarrow> parsed_call \<Rightarrow> bool" where
  "callable fr c \<longleftrightarrow> pc_name c \<noteq> [] \<and> plain (JObj (pc_arguments c)) \<and>
     \<not> occurs CLOSE_TAG (json_dumps fr (JObj [(''name'', JStr (pc_name c)), (''arguments'', JObj (pc_arguments c))]))"

lemma no_crossing:
  \<comment> \<open>a pattern whose first character does not come back in it cannot start in a text and end behind it\<close>
  assumes "c \<notin> set q" and "g \<noteq> []" and "\<not> occurs (c # q) g"
  shows "\<not> startswith (g @ (c # q) @ r) (c # q)"
proof
  assume "startswith (g @ (c # q) @ r) (c # q)"
  then have t: "take (length (c # q)) (g @ (c # q) @ r) = c # q" by (simp only: startswith_iff)
  show False
  proof (cases "length (c # q) \<le> length g")
    case True
    then have "take (length (c # q)) g = c # q" using t by simp
    then have "g = [] @ (c # q) @ drop (length (c # q)) g" by (metis append_Nil append_take_drop_id)
    then show False using assms(3) unfolding occurs_def by blast
  next
    case False
    then have "(c # q) ! length g = (g @ (c # q) @ r) ! length g"
      using t by (metis not_le nth_take)
    then have "(c # q) ! length g = c" by (simp add: nth_append)
    moreover have "(c # q) ! length g \<in> set q" using False assms(2) by (cases g) auto
    ultimately show False using assms(1) by simp
  qed
qed

lemma occurs_tl: "\<not> occurs p (x # xs) \<Longrightarrow> \<not> occurs p xs"
  unfolding occurs_def by (metis append_Cons)

lemma close_tag: "CLOSE_TAG = CHR ''<'' # ''/tool_call>''" and open_tag: "OPEN_TAG = CHR ''<'' # ''tool_call>''"
  by (simp_all add: CLOSE_TAG_def OPEN_TAG_def)

lemma split_at_first: "\<not> occurs CLOSE_TAG body \<Longrightarrow> split_at CLOSE_TAG (body @ CLOSE_TAG @ rest) = Some (body, rest)"
proof (induction body)
  case Nil
  then show ?case by (simp add: close_tag)
next
  case (Cons x xs)
  have "\<not> startswith ((x # xs) @ CLOSE_TAG @ rest) CLOSE_TAG"
    unfolding close_tag by (rule no_crossing) (use Cons.prems in \<open>simp_all add: close_tag\<close>)
  then show ?case using Cons occurs_tl by simp
qed

lemma tag_blocks_gap: "\<not> occurs OPEN_TAG gap \<Longrightarrow> tag_blocks (gap @ OPEN_TAG @ r) = tag_blocks (OPEN_TAG @ r)"
proof (induction gap)
  case (Cons x xs)
  have "\<not> startswith ((x # xs) @ OPEN_TAG @ r) OPEN_TAG"
    unfolding open_tag by (rule no_crossing) (use Cons.prems in \<open>simp_all add: open_tag\<close>)
  then show ?case using Cons occurs_tl by simp
qed simp

lemma tag_blocks_none: "\<not> occurs OPEN_TAG gap \<Longrightarrow> tag_blocks gap = []"
proof (induction gap)
  case (Cons x xs)
  have "\<not> startswith (x # xs) OPEN_TAG"
    using Cons.prems unfolding occurs_def startswith_iff by (metis append_Nil append_take_drop_id)
  then show ?case using Cons occurs_tl by simp
qed simp

lemma tag_blocks_block:
  "\<not> occurs CLOSE_TAG body \<Longrightarrow> tag_blocks (OPEN_TAG @ body @ CLOSE_TAG @ rest) = strip body # tag_blocks rest"
proof -
  assume "\<not> occurs CLOSE_TAG body"
  then have "split_at CLOSE_TAG (body @ CLOSE_TAG @ rest) = Some (body, rest)" by (rule split_at_first)
  moreover have "startswith (OPEN_TAG @ body @ CLOSE_TAG @ rest) OPEN_TAG" by simp
  ultimately show ?thesis by (simp add: open_tag)
qed

lemma strip_object: "strip (''{'' @ s @ ''}'') = ''{'' @ s @ ''}''"
  by (simp add: strip_def lstrip_chars_def rstrip_chars_def is_space_def)

lemma dump_call_parses:
  assumes "callable fr c"
  shows "Option.bind (json_loads (strip (json_dumps fr (JObj [(''name'', JStr (pc_name c)), (''arguments'', JObj (pc_arguments c))])))) coerce = Some c"
proof -
  let ?j = "JObj [(''name'', JStr (pc_name c)), (''arguments'', JObj (pc_arguments c))]"
  have "plain ?j" using assms by (simp add: callable_def dict_ok_def)
  then have "json_loads (json_dumps fr ?j) = Some ?j" by (rule json_roundtrip)
  moreover have "strip (json_dumps fr ?j) = json_dumps fr ?j"
    using strip_object by (simp only: json_dumps.simps(7))
  moreover have "coerce ?j = Some c"
    using assms by (cases c; cases "pc_name c") (auto simp: coerce_def callable_def Let_def)
  ultimately show ?thesis by simp
qed

lemma tag_blocks_reply:
  assumes "\<forall>x \<in> set xs. callable fr (fst x) \<and> \<not> occurs OPEN_TAG (snd x)" and "\<not> occurs OPEN_TAG gap"
  shows "calls_in (tag_blocks (gap @ concat (map (\<lambda>(c, t). render_call fr c @ t) xs))) = map fst xs"
  using assms
proof (induction xs arbitrary: gap)
  case Nil
  then show ?case by (simp add: tag_blocks_none calls_in_def List.map_filter_def)
next
  case (Cons x xs)
  obtain c t where x: "x = (c, t)" by (cases x)
  let ?rest = "t @ concat (map (\<lambda>(c, t). render_call fr c @ t) xs)"
  let ?b = "json_dumps fr (JObj [(''name'', JStr (pc_name c)), (''arguments'', JObj (pc_arguments c))])"
  have c: "callable fr c" "\<not> occurs OPEN_TAG t" using Cons.prems(1) x by auto
  have nc: "\<not> occurs CLOSE_TAG ?b" using c(1) unfolding callable_def by blast
  have "tag_blocks (gap @ concat (map (\<lambda>(c, t). render_call fr c @ t) (x # xs))) = tag_blocks (gap @ OPEN_TAG @ ?b @ CLOSE_TAG @ ?rest)"
    by (simp only: x list.map concat.simps case_prod_conv render_call_def append_assoc)
  also have "\<dots> = strip ?b # tag_blocks ?rest"
    unfolding tag_blocks_gap [OF Cons.prems(2)] by (rule tag_blocks_block [OF nc])
  finally have "calls_in (tag_blocks (gap @ concat (map (\<lambda>(c, t). render_call fr c @ t) (x # xs)))) = c # calls_in (tag_blocks ?rest)"
    using dump_call_parses [OF c(1)] by (simp add: calls_in_def List.map_filter_def)
  then show ?case using Cons.IH [OF _ c(2)] Cons.prems(1) x by simp
qed

text \<open>
  C17. The tool-call protocol is faithful: a reply that contains, between any texts free of the
  opening tag, calls rendered as the preamble asks for is parsed to exactly these calls in this
  order, for all names that are not empty and all JSON arguments, as long as the rendered JSON
  does not itself contain the closing tag. That condition is needed: a call whose argument
  contains the tag is lost, and the reply is passed on as plain text.
\<close>

theorem tool_calls_roundtrip:
  assumes "\<forall>x \<in> set xs. callable fr (fst x) \<and> \<not> occurs OPEN_TAG (snd x)" and "\<not> occurs OPEN_TAG gap" and "xs \<noteq> []"
  shows "parse_tool_calls (gap @ concat (map (\<lambda>(c, t). render_call fr c @ t) xs)) = map fst xs \<and>
     parse_tool_calls (render_call fr \<lparr>pc_name = ''f'', pc_arguments = [(''x'', JStr CLOSE_TAG)]\<rparr>) = []"
proof
  let ?text = "gap @ concat (map (\<lambda>(c, t). render_call fr c @ t) xs)"
  have c: "calls_in (tag_blocks ?text) = map fst xs" by (rule tag_blocks_reply [OF assms(1,2)])
  have ne: "?text \<noteq> []" using assms(3) by (cases xs) (auto simp: render_call_def open_tag)
  show "parse_tool_calls ?text = map fst xs"
    unfolding parse_tool_calls_def using c ne assms(3) by simp
  have r: "render_call fr \<lparr>pc_name = ''f'', pc_arguments = [(''x'', JStr CLOSE_TAG)]\<rparr> =
      render_call (\<lambda>x. []) \<lparr>pc_name = ''f'', pc_arguments = [(''x'', JStr CLOSE_TAG)]\<rparr>"
    by (simp add: render_call_def)
  show "parse_tool_calls (render_call fr \<lparr>pc_name = ''f'', pc_arguments = [(''x'', JStr CLOSE_TAG)]\<rparr>) = []"
    unfolding r by code_simp
qed

definition demo_calls_list :: "(parsed_call \<times> string) list" where
  "demo_calls_list = [(\<lparr>pc_name = ''add'', pc_arguments = [(''x'', JInt 3), (''y'', JStr ''<b>'')]\<rparr>, [LF]),
     (\<lparr>pc_name = ''noop'', pc_arguments = []\<rparr>, ''bye < now'')]"

theorem tool_calls_roundtrip_witness:
  "parse_tool_calls (''Sure: '' @ concat (map (\<lambda>(c, t). render_call (\<lambda>x. []) c @ t) demo_calls_list)) = map fst demo_calls_list"
proof -
  have occ: "occurs p s \<longleftrightarrow> list_ex (\<lambda>i. take (length p) (drop i s) = p) [0..<Suc (length s)]" for p s
  proof
    assume "occurs p s"
    then obtain a b where "s = a @ p @ b" unfolding occurs_def by blast
    then show "list_ex (\<lambda>i. take (length p) (drop i s) = p) [0..<Suc (length s)]"
      by (auto simp: list_ex_iff intro!: bexI [of _ "length a"])
  next
    assume "list_ex (\<lambda>i. take (length p) (drop i s) = p) [0..<Suc (length s)]"
    then obtain i where "take (length p) (drop i s) = p" by (auto simp: list_ex_iff)
    then have "s = take i s @ p @ drop (length p) (drop i s)" by (metis append_take_drop_id)
    then show "occurs p s" unfolding occurs_def by blast
  qed
  have "list_all (\<lambda>x. callable (\<lambda>x. []) (fst x) \<and> \<not> occurs OPEN_TAG (snd x)) demo_calls_list" "\<not> occurs OPEN_TAG ''Sure: ''"
    unfolding callable_def occ by code_simp+
  then show ?thesis
    using tool_calls_roundtrip [of demo_calls_list "\<lambda>x. []" "''Sure: ''"] by (simp add: list_all_iff demo_calls_list_def)
qed

subsection \<open>Streaming and buffered completions\<close>

definition collects :: "client_calls \<Rightarrow> bool" where
  \<comment> \<open>\<open>ClaudeAIClient.send_message_and_collect\<close> is \<open>StreamCollector\<close> on the stream of \<open>send_message\<close>\<close>
  "collects client \<longleftrightarrow>
     (\<forall>conv p m t. cl_send_message_and_collect client conv p m t =
        (case cl_send_message client conv p m t of
           Inl e \<Rightarrow> Inl e
         | Inr (events, Some e) \<Rightarrow> Inl e
         | Inr (events, None) \<Rightarrow> (case collect events of Inl e \<Rightarrow> Inl (Sdk e) | Inr r \<Rightarrow> Inr r)))"

definition settled :: "stream_event \<Rightarrow> bool" where
  \<comment> \<open>a message delta that carries a stop reason\<close>
  "settled e = (case e of MessageDelta raw d n \<Rightarrow> sd_stop_reason d \<noteq> None | _ \<Rightarrow> True)"

definition response_text :: "chat_completion_response \<Rightarrow> string" where
  "response_text r = concat (map (\<lambda>c. case om_content (cc_message c) of Some t \<Rightarrow> t | None \<Rightarrow> []) (cp_choices r))"

definition response_calls :: "chat_completion_response \<Rightarrow> tool_call list" where
  "response_calls r = concat (map (\<lambda>c. case om_tool_calls (cc_message c) of Some t \<Rightarrow> t | None \<Rightarrow> []) (cp_choices r))"

definition response_finish :: "chat_completion_response \<Rightarrow> string option list" where
  "response_finish r = map cc_finish_reason (cp_choices r)"

definition chunk_deltas :: "chat_completion_chunk list \<Rightarrow> json dict list" where
  "chunk_deltas chunks = concat (map (\<lambda>c. map ck_delta (ch_choices c)) chunks)"

definition stream_text :: "chat_completion_chunk list \<Rightarrow> string" where
  "stream_text chunks = concat (map (\<lambda>d. case obj_get d ''content'' of JStr t \<Rightarrow> t | _ \<Rightarrow> []) (chunk_deltas chunks))"

definition stream_calls :: "chat_completion_chunk list \<Rightarrow> json list" where
  "stream_calls chunks = concat (map (\<lambda>d. case obj_get d ''tool_calls'' of JList cs \<Rightarrow> cs | _ \<Rightarrow> []) (chunk_deltas chunks))"

definition stream_finish :: "chat_completion_chunk list \<Rightarrow> string option list" where
  "stream_finish chunks = map ck_finish_reason (ch_choices (last chunks))"

definition event_parts :: "stream_event \<Rightarrow> json list" where
  "event_parts e = (case e of ContentBlockDelta raw i d \<Rightarrow> delta_text d | _ \<Rightarrow> [])"

definition stop_after :: "stream_event list \<Rightarrow> string option \<Rightarrow> string option" where
  "stop_after events s = fold (\<lambda>e s. case e of MessageDelta raw d n \<Rightarrow> sd_stop_reason d | _ \<Rightarrow> s) events s"

lemma collect_fold:
  "\<exists>r' k'. fold collect_step events (r, t, k) = (r', t @ concat (map event_parts events), k') \<and>
     cr_stop_reason r' = stop_after events (cr_stop_reason r)"
proof (induction events arbitrary: r t k)
  case Nil
  then show ?case by (simp add: stop_after_def)
next
  case (Cons e es)
  obtain r1 k1 where e: "collect_step e (r, t, k) = (r1, t @ event_parts e, k1)"
    "cr_stop_reason r1 = (case e of MessageDelta raw d n \<Rightarrow> sd_stop_reason d | _ \<Rightarrow> cr_stop_reason r)"
    by (cases e) (auto simp: collect_step_def event_parts_def)
  then show ?case using Cons.IH [of r1 "t @ event_parts e" k1] by (auto simp: stop_after_def)
qed

lemma join_parts_pieces:
  "join_parts (concat (map event_parts events)) = Inr t \<Longrightarrow> t = concat (map (\<lambda>e. case text_of_event e of Some s \<Rightarrow> s | None \<Rightarrow> []) events)"
proof (induction events arbitrary: t)
  case (Cons e es)
  have "event_parts e = [] \<and> (text_of_event e = None) \<or> (\<exists>j. event_parts e = [j] \<and> text_of_event e = (case j of JStr s \<Rightarrow> Some s | _ \<Rightarrow> None))"
    by (auto simp: event_parts_def text_of_event_def delta_text_def split: stream_event.split block_delta.split)
  then show ?case
  proof
    assume "event_parts e = [] \<and> text_of_event e = None"
    then show ?thesis using Cons by simp
  next
    assume "\<exists>j. event_parts e = [j] \<and> text_of_event e = (case j of JStr s \<Rightarrow> Some s | _ \<Rightarrow> None)"
    then obtain j where j: "event_parts e = [j]" "text_of_event e = (case j of JStr s \<Rightarrow> Some s | _ \<Rightarrow> None)" by blast
    then obtain s u where "j = JStr s" "join_parts (concat (map event_parts es)) = Inr u" "t = s @ u"
      using Cons.prems by (cases j) (auto simp: bind_result_Inr_iff)
    then show ?thesis using Cons.IH j by simp
  qed
qed simp

lemma collect_result:
  assumes "collect events = Inr r"
  shows "cr_text r = concat (map (\<lambda>e. case text_of_event e of Some s \<Rightarrow> s | None \<Rightarrow> []) events) \<and> cr_stop_reason r = stop_after events None"
proof -
  obtain r' k' where f: "fold collect_step events (completion_result_default, [], []) = (r', concat (map event_parts events), k')"
    "cr_stop_reason r' = stop_after events None"
    using collect_fold [of events completion_result_default "[]" "[]"] by (auto simp: completion_result_default_def)
  then show ?thesis using assms join_parts_pieces by (auto simp: collect_def bind_result_Inr_iff)
qed

lemma map_finish_Some: "\<exists>c cs. map_finish (Some r) = Some (c # cs)"
  by (auto simp: map_finish_def FINISH_def dict_getd_def)

lemma last_finish_settled:
  assumes "list_all settled events"
  shows "last_finish events = map_finish (stop_after events None)"
proof -
  have "fold (\<lambda>e f. case finish_of_event e of Some (c # cs) \<Rightarrow> Some (c # cs) | _ \<Rightarrow> f) events (map_finish s) = map_finish (stop_after events s)" for s
    using assms
  proof (induction events arbitrary: s)
    case (Cons e es)
    have "(case finish_of_event e of Some (c # cs) \<Rightarrow> Some (c # cs) | _ \<Rightarrow> map_finish s) =
        map_finish (case e of MessageDelta raw d n \<Rightarrow> sd_stop_reason d | _ \<Rightarrow> s)"
    proof (cases e)
      case (MessageDelta raw d n)
      then obtain r where "sd_stop_reason d = Some r" using Cons.prems by (auto simp: settled_def)
      then show ?thesis using MessageDelta map_finish_Some [of r] by (auto simp: finish_of_event_def)
    qed (simp_all add: finish_of_event_def)
    then show ?case using Cons by (simp add: stop_after_def)
  qed (simp add: stop_after_def)
  from this [of None] show ?thesis by (simp add: last_finish_def map_finish_def)
qed

lemma chunk_deltas_simps:
  "chunk_deltas [] = []" "chunk_deltas (c # cs) = map ck_delta (ch_choices c) @ chunk_deltas cs" "chunk_deltas (xs @ ys) = chunk_deltas xs @ chunk_deltas ys"
  by (simp_all add: chunk_deltas_def)

lemma content_chunks_text:
  "stream_text (concat (map (content_chunks cid epoch model) events)) = concat (map (\<lambda>e. case text_of_event e of Some s \<Rightarrow> s | None \<Rightarrow> []) events) \<and>
   stream_calls (concat (map (content_chunks cid epoch model) events)) = []"
proof (induction events)
  case (Cons e es)
  then show ?case
    by (auto simp: content_chunks_def make_chunk_def stream_text_def stream_calls_def chunk_deltas_simps split: option.split list.split)
qed (simp add: stream_text_def stream_calls_def chunk_deltas_simps)

lemma prepare_custom:
  "prepare fr mapper client req = Inr prep \<Longrightarrow> pp_has_custom prep = (snd (split_tools (ci_tools req) (ci_tool_choice req)) \<noteq> [])"
  by (auto simp: prepare_def Let_def bind_result_Inr_iff split: prod.splits if_splits)

lemma stream_of_custom:
  assumes "prepare fr mapper client req = Inr prep" and "pp_has_custom prep"
    and "cl_send_message_and_collect client (pp_conv_uuid prep) (pp_prompt prep) (pp_model prep) (Some (native_dicts prep)) = Inr result"
  shows "\<exists>chunks. completion_stream fr mint cid epoch mapper (Inr client) req = (chunks, None) \<and>
     (if parse_tool_calls (cr_text result) = []
      then stream_text chunks = cr_text result \<and> stream_calls chunks = [] \<and> stream_finish chunks = [Some ''stop'']
      else stream_text chunks = [] \<and> stream_calls chunks = map call_json (enumerate 0 (to_tool_calls fr mint (parse_tool_calls (cr_text result)))) \<and>
           stream_finish chunks = [Some ''tool_calls''])"
  using assms
  by (simp add: completion_stream_def Let_def tool_calls_chunk_def make_chunk_def stream_text_def stream_calls_def stream_finish_def chunk_deltas_simps)

lemma stream_of_events:
  assumes "prepare fr mapper client req = Inr prep" and "\<not> pp_has_custom prep"
    and "cl_send_message client (pp_conv_uuid prep) (pp_prompt prep) (pp_model prep) (Some (native_dicts prep)) = Inr (events, None)"
  shows "\<exists>chunks. completion_stream fr mint cid epoch mapper (Inr client) req = (chunks, None) \<and>
     stream_text chunks = concat (map (\<lambda>e. case text_of_event e of Some s \<Rightarrow> s | None \<Rightarrow> []) events) \<and> stream_calls chunks = [] \<and>
     stream_finish chunks = [Some (case last_finish events of Some f \<Rightarrow> f | None \<Rightarrow> ''stop'')]"
proof -
  let ?role = "make_chunk cid epoch (ci_model_alias req) [(''role'', JStr ''assistant'')] None"
  let ?body = "concat (map (content_chunks cid epoch (ci_model_alias req)) events)"
  let ?fin = "make_chunk cid epoch (ci_model_alias req) [] (Some (case last_finish events of Some f \<Rightarrow> f | None \<Rightarrow> ''stop''))"
  have "completion_stream fr mint cid epoch mapper (Inr client) req = (?role # ?body @ [?fin], None)"
    using assms by (simp add: completion_stream_def Let_def)
  moreover have "stream_text (?role # ?body @ [?fin]) = stream_text ?body" "stream_calls (?role # ?body @ [?fin]) = stream_calls ?body"
    by (simp_all add: stream_text_def stream_calls_def chunk_deltas_simps make_chunk_def)
  moreover have "stream_finish (?role # ?body @ [?fin]) = [Some (case last_finish events of Some f \<Rightarrow> f | None \<Rightarrow> ''stop'')]"
    by (simp add: stream_finish_def make_chunk_def)
  ultimately show ?thesis using content_chunks_text by metis
qed

text \<open>
  C12. The streaming endpoint delivers what the buffered one returns. Whenever a completion
  succeeds, the stream of the same request ends without an exception; the contents of its chunks
  add up to the content of the response, its tool calls are those of the response, and, without
  emulated tools and with a stop reason in every message delta, the finish reason of the last chunk
  is that of the response. With emulated tools and no call in the reply the stream always reports
  \<open>stop\<close>, also where the response says that the token limit ended the answer.
\<close>

theorem stream_matches_complete:
  assumes "collects client" and "complete fr mint cid epoch mapper (Inr client) req = Inr resp"
  shows "\<exists>chunks. completion_stream fr mint cid epoch mapper (Inr client) req = (chunks, None) \<and>
     stream_text chunks = response_text resp \<and> stream_calls chunks = map call_json (enumerate 0 (response_calls resp)) \<and>
     (if snd (split_tools (ci_tools req) (ci_tool_choice req)) = []
      then (\<forall>conv p m t events. cl_send_message client conv p m t = Inr (events, None) \<longrightarrow> list_all settled events) \<longrightarrow>
             stream_finish chunks = response_finish resp
      else stream_finish chunks = [Some (if response_calls resp = [] then ''stop'' else ''tool_calls'')])"
proof -
  obtain prep result where p: "prepare fr mapper client req = Inr prep"
    and r: "cl_send_message_and_collect client (pp_conv_uuid prep) (pp_prompt prep) (pp_model prep) (Some (native_dicts prep)) = Inr result"
    and resp: "resp = (let calls = (if pp_has_custom prep then parse_tool_calls (cr_text result) else [])
       in if calls \<noteq> []
          then make_tool_response fr mint cid epoch calls (ci_model_alias req) (pp_prompt prep) (cr_output_tokens result)
          else make_response cid epoch (cr_text result) (cr_stop_reason result) (cr_output_tokens result) (ci_model_alias req) (pp_prompt prep))"
    using assms(2) by (auto simp: complete_def bind_result_Inr_iff Let_def split: if_splits)
  have calls: "to_tool_calls fr mint cs = [] \<longleftrightarrow> cs = []" for cs by (cases cs) (simp_all add: to_tool_calls_def)
  show ?thesis
  proof (cases "pp_has_custom prep")
    case True
    then show ?thesis
      using stream_of_custom [OF p True r, of mint cid epoch] prepare_custom [OF p] resp
      by (auto simp: Let_def response_text_def response_calls_def make_tool_response_def make_response_def calls)
  next
    case False
    obtain events where ev: "cl_send_message client (pp_conv_uuid prep) (pp_prompt prep) (pp_model prep) (Some (native_dicts prep)) = Inr (events, None)"
      "collect events = Inr result"
      using r assms(1) by (auto simp: collects_def split: sum.splits option.splits prod.splits)
    have resp': "response_text resp = cr_text result" "response_calls resp = []"
      "response_finish resp = [Some (case map_finish (cr_stop_reason result) of Some f \<Rightarrow> f | None \<Rightarrow> ''stop'')]"
      using resp False by (simp_all add: Let_def response_text_def response_calls_def response_finish_def make_response_def)
    have fin: "last_finish events = map_finish (cr_stop_reason result)" if "list_all settled events"
      using last_finish_settled [OF that] collect_result [OF ev(2)] by simp
    show ?thesis
      using stream_of_events [OF p False ev(1), of mint cid epoch] collect_result [OF ev(2)] resp' fin ev(1) prepare_custom [OF p] False
      by auto
  qed
qed

definition demo_events :: "stream_event list" where
  "demo_events = [ContentBlockDelta [] 0 (TextDelta ''Hel''),
     ContentBlockDelta [] 0 (DictDelta [(''type'', JStr ''text_delta''), (''text'', JStr ''lo'')]),
     MessageDelta [] \<lparr>sd_stop_reason = Some ''max_tokens'', sd_stop_sequence = None\<rparr> 7]"

definition demo_client :: client_calls where
  "demo_client = \<lparr>cl_create_conversation_for_prompt = (\<lambda>p. Inr ''conv''),
     cl_send_message_and_collect = (\<lambda>conv p m t. case collect demo_events of Inl e \<Rightarrow> Inl (Sdk e) | Inr r \<Rightarrow> Inr r),
     cl_send_message = (\<lambda>conv p m t. Inr (demo_events, None))\<rparr>"

definition demo_request :: completion_input where
  "demo_request = \<lparr>ci_messages = [\<lparr>im_role = USER, im_content = Some (TextContent ''hi''), im_name = None, im_tool_call_id = None, im_tool_calls = None\<rparr>],
     ci_model_alias = ''gpt-4o'', ci_conversation_id = None, ci_stream = True, ci_tools = None, ci_tool_choice = JNull\<rparr>"

theorem stream_matches_complete_witness:
  "\<exists>chunks. completion_stream (\<lambda>x. []) (\<lambda>n. []) ''c'' 0 (mapper_init None ''claude-sonnet-4-6'') (Inr demo_client) demo_request = (chunks, None) \<and>
     stream_text chunks = ''Hello'' \<and> stream_finish chunks = [Some ''length'']"
proof -
  let ?m = "mapper_init None ''claude-sonnet-4-6''"
  have "case complete (\<lambda>x. []) (\<lambda>n. []) ''c'' 0 ?m (Inr demo_client) demo_request of
      Inl e \<Rightarrow> False | Inr r \<Rightarrow> response_text r = ''Hello'' \<and> response_finish r = [Some ''length'']"
    by code_simp
  then obtain resp where r: "complete (\<lambda>x. []) (\<lambda>n. []) ''c'' 0 ?m (Inr demo_client) demo_request = Inr resp"
    "response_text resp = ''Hello''" "response_finish resp = [Some ''length'']"
    by (auto split: sum.splits)
  have col: "collects demo_client" by (simp add: collects_def demo_client_def)
  have "list_all settled demo_events" by (simp add: demo_events_def settled_def)
  then have set: "\<forall>conv p m t events. cl_send_message demo_client conv p m t = Inr (events, None) \<longrightarrow> list_all settled events"
    by (simp add: demo_client_def)
  have none: "snd (split_tools (ci_tools demo_request) (ci_tool_choice demo_request)) = []" by code_simp
  show ?thesis using stream_matches_complete [OF col r(1)] set none r(2,3) by auto
qed

end
