(* ===== verification/Gateway_Server.thy ===== *)
theory Gateway_Server
  imports Gateway_Completion
begin

section \<open>The gateway server: chats, methods, routes and the request pipeline\<close>

text \<open>
  \<^verbatim>\<open>gateway/features/chats\<close>, \<^verbatim>\<open>gateway/features/methods\<close> (registry and dispatch) and
  \<^verbatim>\<open>gateway/servers\<close> (route table, request context, handlers, \<open>run_route\<close>). The state of a
  running gateway is the account table, the pool, the key table and the rate limiter. What is not
  in the repository is an argument: pydantic validation of request bodies, the clock and the random
  values, and the calls on an SDK client. Shown: who may do what (the tables and the pool change
  only under the admin token, a key route runs only with a live key), and message paging.
\<close>

subsection \<open>Chats\<close>

record conversation =
  cv_uuid :: string
  cv_name :: string
  cv_model :: "string option"
  cv_updated_at :: "string option"
  cv_is_starred :: bool

record chat_message =
  cm_uuid :: string
  cm_text :: string
  cm_sender :: string
  cm_index :: int
  cm_created_at :: "string option"

record chat_summary =
  cs_id :: string
  cs_name :: string
  cs_model :: "string option"
  cs_updated_at :: "string option"
  cs_is_starred :: bool

record message_dto =
  md_id :: string
  md_role :: string
  md_text :: string
  md_index :: int
  md_created_at :: "string option"

record chat_calls =
  \<comment> \<open>the methods of \<open>ClaudeAIClient\<close> the chat service calls\<close>
  ca_list_conversations :: "int \<Rightarrow> gexn + conversation page"
  ca_create_conversation :: "string \<Rightarrow> string \<Rightarrow> string option \<Rightarrow> gexn + conversation"
  ca_get_messages :: "string \<Rightarrow> gexn + chat_message list"   \<comment> \<open>\<open>get_conversation(id, tree=False).chat_messages\<close>\<close>

definition SENDER_ROLE :: "string dict" where
  "SENDER_ROLE = [(''human'', ''user''), (''assistant'', ''assistant'')]"

definition chat_summary_of :: "conversation \<Rightarrow> chat_summary" where
  "chat_summary_of c =
     \<lparr>cs_id = cv_uuid c, cs_name = cv_name c, cs_model = cv_model c, cs_updated_at = cv_updated_at c, cs_is_starred = cv_is_starred c\<rparr>"

definition list_chats :: "gexn + chat_calls \<Rightarrow> int \<Rightarrow> gexn + chat_summary page" where
  "list_chats client limit =
     bind_result client (\<lambda>client. bind_result (ca_list_conversations client limit) (\<lambda>p.
       Inr \<lparr>pg_data = map chat_summary_of (pg_data p), pg_has_more = pg_has_more p, pg_cursor = pg_cursor p, pg_total = None\<rparr>))"

definition create_chat :: "gexn + chat_calls \<Rightarrow> string \<Rightarrow> string option \<Rightarrow> string option \<Rightarrow> gexn + chat_summary" where
  "create_chat client uid name model =
     bind_result client (\<lambda>client.
     bind_result (ca_create_conversation client uid (or_default name []) model) (\<lambda>c. Inr (chat_summary_of c)))"

definition cursor_start :: "string option \<Rightarrow> gexn + int" where
  \<comment> \<open>\<open>int\<close> refuses the superscripts that \<open>isdigit\<close> accepts\<close>
  "cursor_start cursor =
     (let c = or_default cursor [] in
      if c \<noteq> [] \<and> list_all isdigit_char c
      then (if list_all is_digit c then Inr (int (decimal_val c))
            else Inl (Sdk (Py (ValueError (''invalid literal for int() with base 10: '' @ repr_str c)))))
      else Inr 0)"

definition message_dto_of :: "chat_message \<Rightarrow> message_dto" where
  "message_dto_of m =
     \<lparr>md_id = cm_uuid m, md_role = dict_getd SENDER_ROLE (cm_sender m) (cm_sender m), md_text = cm_text m,
      md_index = cm_index m, md_created_at = cm_created_at m\<rparr>"

definition message_page :: "chat_message list \<Rightarrow> int \<Rightarrow> int \<Rightarrow> message_dto page" where
  "message_page messages start limit =
     (let window = filter (\<lambda>m. start \<le> cm_index m) (sort_key cm_index messages);
          items = py_slice_to limit window;
          has_more = limit < int (length window)
      in \<lparr>pg_data = map message_dto_of items, pg_has_more = has_more,
          pg_cursor = (if has_more \<and> items \<noteq> [] then Some (string_of_int (cm_index (last items) + 1)) else None), pg_total = None\<rparr>)"

definition chat_messages_page :: "gexn + chat_calls \<Rightarrow> string \<Rightarrow> int \<Rightarrow> string option \<Rightarrow> gexn + message_dto page" where
  "chat_messages_page client chat_id limit cursor =
     bind_result client (\<lambda>client.
     bind_result (ca_get_messages client chat_id) (\<lambda>messages.
     bind_result (cursor_start cursor) (\<lambda>start. Inr (message_page messages start limit))))"

subsection \<open>Generic method dispatch\<close>

datatype method_style = FIELD | LEGACY

record method_spec =
  ms_name :: string
  ms_group :: string
  ms_http_method :: string
  ms_endpoint :: string
  ms_style :: method_style
  ms_is_stream :: bool
  ms_is_multipart :: bool
  ms_param_schema :: "json dict"
  ms_result_model :: "string option"

record 'i method_entry =
  \<comment> \<open>an entry of \<open>discover()\<close>: the spec, whether the fields or the parameter class declare
     \<open>org_uuid\<close>, and the constructors of the classes, \<open>None\<close> for a parameter class that does not exist;
     a constructor that raises gives the text of the exception\<close>
  me_spec :: method_spec
  me_has_org :: bool
  me_build_field :: "json dict \<Rightarrow> string + 'i"
  me_build_legacy :: "(json dict \<Rightarrow> string + 'i) option"
  me_bare :: 'i

type_synonym 'i method_registry = "'i method_entry dict"

definition method_get :: "'i method_registry \<Rightarrow> string \<Rightarrow> gexn + method_spec" where
  "method_get reg name =
     (case dict_get reg name of
        None \<Rightarrow> Inl (UnknownMethod (''unknown method '' @ repr_str name))
      | Some e \<Rightarrow> Inr (me_spec e))"

definition all_specs :: "'i method_registry \<Rightarrow> method_spec list" where
  "all_specs reg = sort_key (\<lambda>s. (ms_group s, ms_name s)) (map me_spec (dict_values reg))"

definition inject_org :: "'i method_entry \<Rightarrow> string option \<Rightarrow> json dict \<Rightarrow> json dict" where
  "inject_org e org supplied =
     (if or_default org [] \<noteq> [] \<and> me_has_org e \<and> dict_get supplied ''org_uuid'' = None
      then dict_set supplied ''org_uuid'' (JStr (or_default org [])) else supplied)"

definition build_instance :: "'i method_registry \<Rightarrow> string \<Rightarrow> json dict \<Rightarrow> string option \<Rightarrow> gexn + 'i" where
  "build_instance reg name params org =
     (case dict_get reg name of
        None \<Rightarrow> Inl (UnknownMethod (''unknown method '' @ repr_str name))
      | Some e \<Rightarrow>
          if ms_is_multipart (me_spec e) then Inl (MultipartNotSupported (name @ '' is multipart''))
          else if ms_style (me_spec e) = FIELD then
            (case me_build_field e (inject_org e org params) of
               Inl m \<Rightarrow> Inl (MethodParamsInvalid (name @ '': '' @ m))
             | Inr i \<Rightarrow> Inr i)
          else (case me_build_legacy e of
                  None \<Rightarrow> if params \<noteq> [] then Inl (MethodParamsInvalid (name @ '' takes no parameters'')) else Inr (me_bare e)
                | Some build \<Rightarrow>
                    (case build (inject_org e org params) of
                       Inl m \<Rightarrow> Inl (MethodParamsInvalid (name @ '': '' @ m))
                     | Inr i \<Rightarrow> Inr i)))"

datatype sdk_result =
    SdkNone | SdkModel json              \<comment> \<open>a pydantic model, by its dump\<close>
  | SdkSeq "sdk_result list" | SdkBytes string | SdkOther json

fun serialize :: "sdk_result \<Rightarrow> json" where
  "serialize SdkNone = JNull"
| "serialize (SdkModel j) = j"
| "serialize (SdkSeq xs) = JList (map serialize xs)"
| "serialize (SdkBytes b) = JObj [(''_bytes_base64'', JStr (map std_b64 (b64_encode (map of_char b))))]"
| "serialize (SdkOther j) = j"

definition invoke_method ::
  "'i method_registry \<Rightarrow> (gw_client \<Rightarrow> 'i \<Rightarrow> gexn + sdk_result) \<Rightarrow> string \<Rightarrow> gexn + gw_client \<Rightarrow> json dict \<Rightarrow> gexn + json" where
  \<comment> \<open>\<open>call\<close> is the call of the client with the method\<close>
  "invoke_method reg call name client params =
     bind_result (method_get reg name) (\<lambda>spec.
       if ms_is_stream spec then Inl (MethodParamsInvalid (name @ '' streams - call with stream=true''))
       else bind_result client (\<lambda>c.
            bind_result (build_instance reg name params (Some (gc_org_uuid c))) (\<lambda>i. map_ok serialize (call c i))))"

definition invoke_stream ::
  "'i method_registry \<Rightarrow> (gw_client \<Rightarrow> 'i \<Rightarrow> gexn + json list \<times> gexn option) \<Rightarrow> string \<Rightarrow> gexn + gw_client \<Rightarrow> json dict \<Rightarrow> json list \<times> gexn option" where
  \<comment> \<open>the events yielded, dumped, and the exception that ends the iteration, if one does\<close>
  "invoke_stream reg call name client params =
     (case bind_result client (\<lambda>c. bind_result (build_instance reg name params (Some (gc_org_uuid c))) (\<lambda>i. call c i)) of
        Inl e \<Rightarrow> ([], Some e)
      | Inr r \<Rightarrow> r)"

subsection \<open>Routes and contexts\<close>

datatype route_auth = AUTH_NONE | AUTH_KEY | AUTH_ADMIN

datatype handler =
    H_health | H_chat_completions | H_models_list | H_prompt | H_chats_list | H_chats_create | H_chat_messages | H_chat_send
  | H_methods_list | H_methods_invoke | H_system_account_create | H_system_account_list | H_system_account_update
  | H_system_key_generate | H_system_key_list | H_system_key_revoke

record query_param =
  qp_name :: string
  qp_schema_type :: string
  qp_required :: bool
  qp_description :: "string option"

record route_def =
  rd_http :: string
  rd_path :: string
  rd_handler :: handler
  rd_auth :: route_auth
  rd_request_model :: "string option"    \<comment> \<open>a model class, by its name\<close>
  rd_response_model :: "string option"
  rd_query :: "query_param list"
  rd_summary :: "string option"

definition route ::
  "string \<Rightarrow> string \<Rightarrow> handler \<Rightarrow> route_auth \<Rightarrow> string option \<Rightarrow> string option \<Rightarrow> query_param list \<Rightarrow> string \<Rightarrow> route_def" where
  "route http path h auth req resp query summary =
     \<lparr>rd_http = http, rd_path = path, rd_handler = h, rd_auth = auth, rd_request_model = req, rd_response_model = resp, rd_query = query,
      rd_summary = Some summary\<rparr>"

definition LIMIT_PARAM :: query_param where
  "LIMIT_PARAM = \<lparr>qp_name = ''limit'', qp_schema_type = ''integer'', qp_required = False, qp_description = Some ''Page size (clamped 1..200).''\<rparr>"

definition CURSOR_PARAM :: query_param where
  "CURSOR_PARAM = \<lparr>qp_name = ''cursor'', qp_schema_type = ''string'', qp_required = False,
     qp_description = Some ''Opaque keyset cursor from a prior page.''\<rparr>"

definition ACCOUNT_PARAM :: query_param where
  "ACCOUNT_PARAM = \<lparr>qp_name = ''account_id'', qp_schema_type = ''string'', qp_required = False, qp_description = Some ''Filter by account.''\<rparr>"

definition ROUTES :: "route_def list" where
  "ROUTES =
     [route ''GET'' ''/health'' H_health AUTH_NONE None (Some ''HealthResponse'') [] ''Liveness probe.'',
      route ''POST'' ''/v1/chat/completions'' H_chat_completions AUTH_KEY (Some ''ChatCompletionRequest'') (Some ''ChatCompletionResponse'') []
        ''OpenAI-compatible chat completion (stream or non-stream).'',
      route ''GET'' ''/v1/models'' H_models_list AUTH_KEY None (Some ''ModelList'') [] ''List available model ids.'',
      route ''POST'' ''/v1/prompt'' H_prompt AUTH_KEY (Some ''TextPromptRequest'') (Some ''TextPromptResponse'') []
        ''Send one text prompt, get one text answer.'',
      route ''GET'' ''/v1/chats/list'' H_chats_list AUTH_KEY None (Some ''Page[ChatSummary]'') [LIMIT_PARAM] ''List chats.'',
      route ''POST'' ''/v1/chats/create'' H_chats_create AUTH_KEY (Some ''CreateChatRequest'') (Some ''ChatSummary'') [] ''Create a chat.'',
      route ''GET'' ''/v1/chats/{id}/messages'' H_chat_messages AUTH_KEY None (Some ''Page[MessageDTO]'') [LIMIT_PARAM, CURSOR_PARAM]
        ''List messages in a chat.'',
      route ''POST'' ''/v1/chats/{id}/send'' H_chat_send AUTH_KEY (Some ''SendToChatRequest'') (Some ''ChatCompletionResponse'') []
        ''Send a message to an existing chat (stream or non-stream).'',
      route ''GET'' ''/v1/methods/list'' H_methods_list AUTH_KEY None (Some ''MethodList'') [] ''List all dispatchable SDK methods.'',
      route ''POST'' ''/v1/methods/invoke'' H_methods_invoke AUTH_KEY (Some ''MethodInvokeRequest'') (Some ''MethodInvokeResult'') []
        ''Invoke any SDK method by name (params are method-specific).'',
      route ''POST'' ''/system/accounts/create'' H_system_account_create AUTH_ADMIN (Some ''CreateAccountRequest'') (Some ''AccountCreated'') []
        ''Provision an account from cookies.'',
      route ''GET'' ''/system/accounts/list'' H_system_account_list AUTH_ADMIN None (Some ''Page[AccountInfo]'') [LIMIT_PARAM, CURSOR_PARAM]
        ''List accounts.'',
      route ''PATCH'' ''/system/accounts/{id}/cookies'' H_system_account_update AUTH_ADMIN (Some ''UpdateAccountCookiesRequest'') (Some ''AccountInfo'') []
        ''Refresh a live account's cookies (and optionally its User-Agent).'',
      route ''POST'' ''/system/keys/generate'' H_system_key_generate AUTH_ADMIN (Some ''GenerateKeyRequest'') (Some ''KeyGenerated'') []
        ''Generate an API key (against an account or fresh cookies).'',
      route ''GET'' ''/system/keys/list'' H_system_key_list AUTH_ADMIN None (Some ''Page[KeyInfo]'') [ACCOUNT_PARAM, LIMIT_PARAM, CURSOR_PARAM]
        ''List API keys.'',
      route ''POST'' ''/system/keys/revoke'' H_system_key_revoke AUTH_ADMIN (Some ''RevokeKeyRequest'') (Some ''KeyRevoked'') []
        ''Revoke an API key.'']"

record request_context =
  cx_path_params :: "string dict"
  cx_query :: "string dict"
  cx_json_body :: "json dict"
  cx_headers :: "string dict"
  cx_principal :: "principal option"

definition cx_header :: "request_context \<Rightarrow> string \<Rightarrow> string option" where
  "cx_header ctx name = dict_get (cx_headers ctx) (lower name)"

definition need_principal :: "request_context \<Rightarrow> gexn + principal" where
  "need_principal ctx =
     (case cx_principal ctx of
        None \<Rightarrow> Inl (Sdk (Py (RuntimeError ''principal missing on an authenticated route'')))
      | Some p \<Rightarrow> Inr p)"

definition path_param :: "request_context \<Rightarrow> string \<Rightarrow> gexn + string" where
  "path_param ctx name =
     (case dict_get (cx_path_params ctx) name of None \<Rightarrow> Inl (Sdk (Py (KeyError name))) | Some v \<Rightarrow> Inr v)"

definition lower_headers :: "(string \<times> string) list \<Rightarrow> string dict" where
  "lower_headers items = fold (\<lambda>(k, v) d. dict_set d (lower k) v) items []"

definition page_limit :: "request_context \<Rightarrow> int \<Rightarrow> int" where
  "page_limit ctx dflt =
     (let n = (case dict_get (cx_query ctx) ''limit'' of
                 None \<Rightarrow> dflt
               | Some raw \<Rightarrow> (case int_of_string raw of Some i \<Rightarrow> i | None \<Rightarrow> dflt))
      in pp_limit (page_params_init n 0 None))"

lemma page_limit_range: "1 \<le> page_limit ctx dflt \<and> page_limit ctx dflt \<le> 200"
  using clamp_limit_range by (simp add: page_limit_def page_params_init_def Let_def)

subsection \<open>State, environment and results\<close>

record 'o gateway =
  gw_accounts :: mem_accounts
  gw_pool :: 'o
  gw_keys :: mem_keys
  gw_limiter :: rate_limiter
  gw_touches :: "string list"   \<comment> \<open>keys whose \<open>touch\<close> is scheduled\<close>

record chat_request =
  cq_model :: string
  cq_messages :: "in_message list"
  cq_stream :: bool
  cq_conversation_id :: "string option"
  cq_tools :: "tool_def list option"
  cq_tool_choice :: json

record send_request =
  sq_text :: string
  sq_model :: "string option"
  sq_stream :: bool
  sq_tools :: "json list option"
  sq_tool_choice :: json

record invoke_request =
  iq_method :: string
  iq_account_id :: "string option"
  iq_params :: "json dict"
  iq_stream :: bool

record account_request =
  aq_cookies :: json
  aq_org_uuid :: "string option"
  aq_name :: "string option"
  aq_tier :: string
  aq_user_agent :: "string option"

record validators =
  \<comment> \<open>pydantic's \<open>model_validate\<close> of the request models\<close>
  v_chat :: "json dict \<Rightarrow> gexn + chat_request"
  v_text :: "json dict \<Rightarrow> gexn + string \<times> string option \<times> string option"
  v_create :: "json dict \<Rightarrow> gexn + string option \<times> string option"
  v_send :: "json dict \<Rightarrow> gexn + send_request"
  v_tool :: "json \<Rightarrow> gexn + tool_def"
  v_invoke :: "json dict \<Rightarrow> gexn + invoke_request"
  v_account :: "json dict \<Rightarrow> gexn + account_request"
  v_cookies :: "json dict \<Rightarrow> gexn + json \<times> string option"
  v_generate :: "json dict \<Rightarrow> gexn + generate_key_request"
  v_revoke :: "json dict \<Rightarrow> gexn + string"

record ('o, 'i) gw_env =
  en_float :: "pyfloat \<Rightarrow> string"
  en_sha :: "string \<Rightarrow> string"
  en_iso :: iso_parser
  en_jmsg :: "string \<Rightarrow> string"
  en_pool :: "'o pool_ops"
  en_sdk :: sdk_settings
  en_admin_token :: string
  en_default_model :: string
  en_server :: string
  en_mapper :: model_mapper
  en_methods :: "'i method_registry"
  en_calls :: "gw_client \<Rightarrow> client_calls"
  en_chats :: "gw_client \<Rightarrow> chat_calls"
  en_call :: "gw_client \<Rightarrow> 'i \<Rightarrow> gexn + sdk_result"
  en_stream :: "gw_client \<Rightarrow> 'i \<Rightarrow> gexn + json list \<times> gexn option"
  en_valid :: validators
  en_dump_chunk :: "chat_completion_chunk \<Rightarrow> string"   \<comment> \<open>\<open>model_dump_json\<close>\<close>
  en_uid :: "nat \<Rightarrow> string"
  en_token :: string
  en_now :: datetime
  en_epoch :: int
  en_made :: pyfloat
  en_clock :: pyfloat

datatype response_body =
    RCompletion chat_completion_response
  | RModels "string list"
  | RText string string
  | RChats "chat_summary page"
  | RChat chat_summary
  | RMessages "message_dto page"
  | RMethods "method_spec list"
  | RInvoke string account_id json
  | RAccountCreated account_id
  | RAccounts "account_info page"
  | RAccount account_info
  | RKey string key_info
  | RKeys "key_info page"
  | RRevoked string
  | RHealth string string

datatype handler_result = JsonResult int response_body | StreamResult "string list"

datatype payload = Body response_body | ErrorBody json

record outcome =
  oc_status :: int
  oc_json :: "payload option"
  oc_stream :: "string list option"
  oc_media_type :: string

subsection \<open>Handlers\<close>

definition sse_line :: "(chat_completion_chunk \<Rightarrow> string) \<Rightarrow> chat_completion_chunk \<Rightarrow> string" where
  "sse_line dump chunk = ''data: '' @ dump chunk @ [LF, LF]"

definition completion_sse :: "('o, 'i) gw_env \<Rightarrow> chat_completion_chunk list \<times> gexn option \<Rightarrow> string list" where
  "completion_sse env r =
     map (sse_line (en_dump_chunk env)) (fst r) @
     (case snd r of None \<Rightarrow> [] | Some e \<Rightarrow> [error_sse_frame (en_float env) e]) @ [DONE_FRAME]"

definition methods_sse :: "('o, 'i) gw_env \<Rightarrow> json list \<times> gexn option \<Rightarrow> string list" where
  "methods_sse env r =
     map (\<lambda>e. ''data: '' @ json_dumps (en_float env) e @ [LF, LF]) (fst r) @
     (case snd r of None \<Rightarrow> [] | Some e \<Rightarrow> [error_sse_frame (en_float env) e]) @ [DONE_FRAME]"

definition resolve_account :: "string option \<Rightarrow> principal \<Rightarrow> gexn + account_id" where
  "resolve_account account_id p =
     (let a = or_default account_id [] in
      if a \<noteq> [] \<and> a \<noteq> pr_account_id p \<and> \<not> is_admin p then Inl AccountForbidden
      else Inr (or_default account_id (pr_account_id p)))"

definition client_for :: "('o, 'i) gw_env \<Rightarrow> account_id \<Rightarrow> 'o gateway \<Rightarrow> gexn + gw_client" where
  "client_for env a s = resolve_client (en_pool env) a (gw_pool s)"

definition run_completion :: "('o, 'i) gw_env \<Rightarrow> principal \<Rightarrow> completion_input \<Rightarrow> 'o gateway \<Rightarrow> gexn + handler_result" where
  "run_completion env p inp s =
     (let client = map_ok (en_calls env) (client_for env (pr_account_id p) s);
          cid = ''chatcmpl-'' @ en_uid env 0; mint = (\<lambda>n. en_uid env (Suc n))
      in if ci_stream inp
         then Inr (StreamResult (completion_sse env (completion_stream (en_float env) mint cid (en_epoch env) (en_mapper env) client inp)))
         else map_ok (\<lambda>r. JsonResult 200 (RCompletion r)) (complete (en_float env) mint cid (en_epoch env) (en_mapper env) client inp))"

definition chat_completions :: "('o, 'i) gw_env \<Rightarrow> request_context \<Rightarrow> 'o gateway \<Rightarrow> gexn + handler_result" where
  "chat_completions env ctx s =
     bind_result (need_principal ctx) (\<lambda>p. bind_result (v_chat (en_valid env) (cx_json_body ctx)) (\<lambda>req.
       run_completion env p
         \<lparr>ci_messages = cq_messages req, ci_model_alias = cq_model req,
          ci_conversation_id = (case cq_conversation_id req of Some (c # cs) \<Rightarrow> Some (c # cs) | _ \<Rightarrow> cx_header ctx ''x-conversation-id''),
          ci_stream = cq_stream req, ci_tools = cq_tools req, ci_tool_choice = cq_tool_choice req\<rparr> s))"

definition prompt :: "('o, 'i) gw_env \<Rightarrow> request_context \<Rightarrow> 'o gateway \<Rightarrow> gexn + handler_result" where
  "prompt env ctx s =
     bind_result (v_text (en_valid env) (cx_json_body ctx)) (\<lambda>(text, model, conv).
     bind_result (need_principal ctx) (\<lambda>p.
     map_ok (\<lambda>(t, c). JsonResult 200 (RText t c))
       (text_prompt (en_float env) (en_mapper env) (en_default_model env) (map_ok (en_calls env) (client_for env (pr_account_id p) s)) text model conv)))"

definition chats_list :: "('o, 'i) gw_env \<Rightarrow> request_context \<Rightarrow> 'o gateway \<Rightarrow> gexn + handler_result" where
  "chats_list env ctx s =
     bind_result (need_principal ctx) (\<lambda>p.
     map_ok (\<lambda>pg. JsonResult 200 (RChats pg)) (list_chats (map_ok (en_chats env) (client_for env (pr_account_id p) s)) (page_limit ctx 50)))"

definition chats_create :: "('o, 'i) gw_env \<Rightarrow> request_context \<Rightarrow> 'o gateway \<Rightarrow> gexn + handler_result" where
  "chats_create env ctx s =
     bind_result (v_create (en_valid env) (cx_json_body ctx)) (\<lambda>(name, model).
     bind_result (need_principal ctx) (\<lambda>p.
     map_ok (\<lambda>c. JsonResult 200 (RChat c)) (create_chat (map_ok (en_chats env) (client_for env (pr_account_id p) s)) (en_uid env 0) name model)))"

definition chat_messages :: "('o, 'i) gw_env \<Rightarrow> request_context \<Rightarrow> 'o gateway \<Rightarrow> gexn + handler_result" where
  "chat_messages env ctx s =
     bind_result (need_principal ctx) (\<lambda>p. bind_result (path_param ctx ''id'') (\<lambda>chat.
     map_ok (\<lambda>pg. JsonResult 200 (RMessages pg))
       (chat_messages_page (map_ok (en_chats env) (client_for env (pr_account_id p) s)) chat (page_limit ctx 50) (dict_get (cx_query ctx) ''cursor''))))"

definition chat_send :: "('o, 'i) gw_env \<Rightarrow> request_context \<Rightarrow> 'o gateway \<Rightarrow> gexn + handler_result" where
  "chat_send env ctx s =
     bind_result (need_principal ctx) (\<lambda>p. bind_result (v_send (en_valid env) (cx_json_body ctx)) (\<lambda>req.
     bind_result (case sq_tools req of Some (t # ts) \<Rightarrow> map_ok Some (map_result (v_tool (en_valid env)) (t # ts)) | _ \<Rightarrow> Inr None) (\<lambda>tools.
     bind_result (path_param ctx ''id'') (\<lambda>chat.
       run_completion env p
         \<lparr>ci_messages = [\<lparr>im_role = USER, im_content = Some (TextContent (sq_text req)), im_name = None, im_tool_call_id = None, im_tool_calls = None\<rparr>],
          ci_model_alias = or_default (sq_model req) (en_default_model env), ci_conversation_id = Some chat,
          ci_stream = sq_stream req, ci_tools = tools, ci_tool_choice = sq_tool_choice req\<rparr> s))))"

definition methods_invoke :: "('o, 'i) gw_env \<Rightarrow> request_context \<Rightarrow> 'o gateway \<Rightarrow> gexn + handler_result" where
  "methods_invoke env ctx s =
     bind_result (need_principal ctx) (\<lambda>p. bind_result (v_invoke (en_valid env) (cx_json_body ctx)) (\<lambda>req.
     bind_result (resolve_account (iq_account_id req) p) (\<lambda>a.
     bind_result (method_get (en_methods env) (iq_method req)) (\<lambda>spec.
       if ms_is_stream spec \<or> iq_stream req
       then Inr (StreamResult (methods_sse env (invoke_stream (en_methods env) (en_stream env) (iq_method req) (client_for env a s) (iq_params req))))
       else map_ok (\<lambda>r. JsonResult 200 (RInvoke (iq_method req) a r))
              (invoke_method (en_methods env) (en_call env) (iq_method req) (client_for env a s) (iq_params req))))))"

definition system_account_create :: "('o, 'i) gw_env \<Rightarrow> request_context \<Rightarrow> 'o gateway \<Rightarrow> (gexn + handler_result) \<times> 'o gateway" where
  "system_account_create env ctx s =
     (case v_account (en_valid env) (cx_json_body ctx) of
        Inl e \<Rightarrow> (Inl e, s)
      | Inr req \<Rightarrow>
          (case provision (en_pool env) (en_sdk env) (en_uid env 0) (en_now env) (parse_cookies (en_float env) (en_jmsg env) (aq_cookies req))
                  (aq_org_uuid req) (aq_name req) (resolve_tier (aq_tier req)) (aq_user_agent req) (gw_accounts s, gw_pool s) of
             (r, accs, pool) \<Rightarrow> (map_ok (\<lambda>a. JsonResult 200 (RAccountCreated (ac_account_id a))) r, s\<lparr>gw_accounts := accs, gw_pool := pool\<rparr>)))"

definition system_account_list :: "('o, 'i) gw_env \<Rightarrow> request_context \<Rightarrow> 'o gateway \<Rightarrow> gexn + handler_result" where
  "system_account_list env ctx s =
     map_ok (\<lambda>pg. JsonResult 200 (RAccounts pg)) (account_page (en_iso env) (page_limit ctx 50) (dict_get (cx_query ctx) ''cursor'') (gw_accounts s))"

definition system_account_update :: "('o, 'i) gw_env \<Rightarrow> request_context \<Rightarrow> 'o gateway \<Rightarrow> (gexn + handler_result) \<times> 'o gateway" where
  "system_account_update env ctx s =
     (case bind_result (v_cookies (en_valid env) (cx_json_body ctx)) (\<lambda>req. bind_result (path_param ctx ''id'') (\<lambda>i. Inr (req, i))) of
        Inl e \<Rightarrow> (Inl e, s)
      | Inr ((ck, ua), i) \<Rightarrow>
          (case update_cookies (en_pool env) (en_sdk env) (en_now env) i (parse_cookies (en_float env) (en_jmsg env) ck) ua (gw_accounts s, gw_pool s) of
             (r, accs, pool) \<Rightarrow> (map_ok (\<lambda>a. JsonResult 200 (RAccount (account_info_of a))) r, s\<lparr>gw_accounts := accs, gw_pool := pool\<rparr>)))"

definition system_key_generate :: "('o, 'i) gw_env \<Rightarrow> request_context \<Rightarrow> 'o gateway \<Rightarrow> (gexn + handler_result) \<times> 'o gateway" where
  "system_key_generate env ctx s =
     (case v_generate (en_valid env) (cx_json_body ctx) of
        Inl e \<Rightarrow> (Inl e, s)
      | Inr req \<Rightarrow>
          (case generate (en_sha env) (en_pool env) (en_sdk env) (parse_cookies (en_float env) (en_jmsg env)) (en_uid env 0) (en_uid env 1) (en_token env)
                  (en_now env) (mks_ops (en_iso env)) req (gw_accounts s, gw_pool s, gw_keys s) of
             (r, accs, pool, keys) \<Rightarrow>
               (map_ok (\<lambda>(info, raw). JsonResult 200 (RKey raw info)) r, s\<lparr>gw_accounts := accs, gw_pool := pool, gw_keys := keys\<rparr>)))"

definition system_key_list :: "('o, 'i) gw_env \<Rightarrow> request_context \<Rightarrow> 'o gateway \<Rightarrow> gexn + handler_result" where
  "system_key_list env ctx s =
     map_ok (\<lambda>pg. JsonResult 200 (RKeys pg))
       (key_page (mks_ops (en_iso env)) (dict_get (cx_query ctx) ''account_id'') (page_limit ctx 50) (dict_get (cx_query ctx) ''cursor'') (gw_keys s))"

definition system_key_revoke :: "('o, 'i) gw_env \<Rightarrow> request_context \<Rightarrow> 'o gateway \<Rightarrow> (gexn + handler_result) \<times> 'o gateway" where
  "system_key_revoke env ctx s =
     (case v_revoke (en_valid env) (cx_json_body ctx) of
        Inl e \<Rightarrow> (Inl e, s)
      | Inr i \<Rightarrow> (Inr (JsonResult 200 (RRevoked i)), s\<lparr>gw_keys := ks_revoke (mks_ops (en_iso env)) i (gw_keys s)\<rparr>))"

fun handle :: "('o, 'i) gw_env \<Rightarrow> handler \<Rightarrow> request_context \<Rightarrow> 'o gateway \<Rightarrow> (gexn + handler_result) \<times> 'o gateway" where
  \<comment> \<open>\<open>getattr(handlers, route.handler)(ctx)\<close>\<close>
  "handle env H_health ctx s = (Inr (JsonResult 200 (RHealth ''ok'' (en_server env))), s)"
| "handle env H_chat_completions ctx s = (chat_completions env ctx s, s)"
| "handle env H_models_list ctx s = (Inr (JsonResult 200 (RModels (list_model_ids (en_mapper env)))), s)"
| "handle env H_prompt ctx s = (prompt env ctx s, s)"
| "handle env H_chats_list ctx s = (chats_list env ctx s, s)"
| "handle env H_chats_create ctx s = (chats_create env ctx s, s)"
| "handle env H_chat_messages ctx s = (chat_messages env ctx s, s)"
| "handle env H_chat_send ctx s = (chat_send env ctx s, s)"
| "handle env H_methods_list ctx s = (Inr (JsonResult 200 (RMethods (all_specs (en_methods env)))), s)"
| "handle env H_methods_invoke ctx s = (methods_invoke env ctx s, s)"
| "handle env H_system_account_create ctx s = system_account_create env ctx s"
| "handle env H_system_account_list ctx s = (system_account_list env ctx s, s)"
| "handle env H_system_account_update ctx s = system_account_update env ctx s"
| "handle env H_system_key_generate ctx s = system_key_generate env ctx s"
| "handle env H_system_key_list ctx s = (system_key_list env ctx s, s)"
| "handle env H_system_key_revoke ctx s = system_key_revoke env ctx s"

subsection \<open>The pipeline\<close>

definition authorize :: "('o, 'i) gw_env \<Rightarrow> route_auth \<Rightarrow> string dict \<Rightarrow> 'o gateway \<Rightarrow> (gexn + principal option) \<times> 'o gateway" where
  "authorize env auth headers s =
     (case auth of
        AUTH_NONE \<Rightarrow> (Inr None, s)
      | AUTH_KEY \<Rightarrow>
          (case container_authenticate (en_sha env) (mks_ops (en_iso env)) (en_made env) (en_clock env) (dict_get headers ''authorization'') (gw_keys s, gw_limiter s) of
             (r, l, touched) \<Rightarrow> (map_ok Some r, s\<lparr>gw_limiter := l, gw_touches := gw_touches s @ touched\<rparr>))
      | AUTH_ADMIN \<Rightarrow> (map_ok (\<lambda>u. None) (verify_admin (en_admin_token env) (dict_get headers ''x-admin-token'')), s))"

definition outcome_of :: "gexn + handler_result \<Rightarrow> outcome" where
  "outcome_of r =
     (case r of
        Inr (StreamResult lines) \<Rightarrow> \<lparr>oc_status = 200, oc_json = None, oc_stream = Some lines, oc_media_type = ''text/event-stream''\<rparr>
      | Inr (JsonResult status body) \<Rightarrow> \<lparr>oc_status = status, oc_json = Some (Body body), oc_stream = None, oc_media_type = ''application/json''\<rparr>
      | Inl e \<Rightarrow> \<lparr>oc_status = er_status (map_exception e), oc_json = Some (ErrorBody (er_payload (map_exception e))), oc_stream = None,
                 oc_media_type = ''application/json''\<rparr>)"

definition run_route ::
  "('o, 'i) gw_env \<Rightarrow> route_def \<Rightarrow> string dict \<Rightarrow> string dict \<Rightarrow> json dict \<Rightarrow> string dict \<Rightarrow> 'o gateway \<Rightarrow> outcome \<times> 'o gateway" where
  "run_route env r path_params query body headers s =
     (case authorize env (rd_auth r) headers s of
        (Inl e, s1) \<Rightarrow> (outcome_of (Inl e), s1)
      | (Inr p, s1) \<Rightarrow>
          (case handle env (rd_handler r)
                  \<lparr>cx_path_params = path_params, cx_query = query, cx_json_body = body, cx_headers = headers, cx_principal = p\<rparr> s1 of
             (res, s2) \<Rightarrow> (outcome_of res, s2)))"

subsection \<open>Access control\<close>

definition changing :: "handler \<Rightarrow> bool" where
  "changing h \<longleftrightarrow> h \<in> {H_system_account_create, H_system_account_update, H_system_key_generate, H_system_key_revoke}"

lemma handle_state: "\<not> changing h \<Longrightarrow> snd (handle env h ctx s) = s"
  by (cases h) (simp_all add: changing_def)

lemma handle_limiter: "gw_limiter (snd (handle env h ctx s)) = gw_limiter s \<and> gw_touches (snd (handle env h ctx s)) = gw_touches s"
  by (cases h)
     (auto simp: system_account_create_def system_account_update_def system_key_generate_def system_key_revoke_def
        split: sum.split prod.split)

lemma routes_changing: "r \<in> set ROUTES \<Longrightarrow> changing (rd_handler r) \<Longrightarrow> rd_auth r = AUTH_ADMIN"
  by (auto simp: ROUTES_def route_def changing_def)

lemma routes_methods: "r \<in> set ROUTES \<Longrightarrow> rd_handler r = H_methods_invoke \<Longrightarrow> rd_auth r = AUTH_KEY"
  by (auto simp: ROUTES_def route_def)

lemma authorize_state:
  "gw_accounts (snd (authorize env a h s)) = gw_accounts s \<and> gw_keys (snd (authorize env a h s)) = gw_keys s \<and>
   gw_pool (snd (authorize env a h s)) = gw_pool s"
  by (simp add: authorize_def split: route_auth.split prod.split)

lemma verify_admin_ok: "verify_admin t x = Inr u \<longleftrightarrow> x = Some t \<and> t \<noteq> [] \<and> list_all is_ascii t"
  by (cases x) (auto simp: verify_admin_def or_default_def Let_def)

lemma map_ok_simps [simp]: "map_ok f (Inl e) = Inl e" "map_ok f (Inr x) = Inr (f x)"
  by (simp_all add: map_ok_def)

lemma map_ok_Inr_iff: "map_ok f r = Inr y \<longleftrightarrow> (\<exists>x. r = Inr x \<and> y = f x)"
  by (auto simp: map_ok_def bind_result_Inr_iff)

lemma verify_admin_error: "verify_admin t x = Inl e \<Longrightarrow> er_status (map_exception e) \<in> {401, 500}"
  by (auto simp: verify_admin_def Let_def AdminForbidden_def gateway_error_of_def map_exception_def sdk_error_def split: if_splits)

lemma resolve_account_scope: "resolve_account x p = Inr a \<Longrightarrow> a = pr_account_id p \<or> is_admin p"
  by (cases x) (auto simp: resolve_account_def or_default_def Let_def split: if_splits)

lemma invoke_result:
  assumes "fst (handle env h ctx s) = Inr (JsonResult st (RInvoke m a res))"
  shows "h = H_methods_invoke \<and> (\<exists>p. cx_principal ctx = Some p \<and> (a = pr_account_id p \<or> is_admin p))"
proof (cases h)
  case H_methods_invoke
  then obtain p x where "need_principal ctx = Inr p" "resolve_account x p = Inr a"
    using assms by (auto simp: methods_invoke_def bind_result_Inr_iff map_ok_Inr_iff split: if_splits)
  then show ?thesis
    using H_methods_invoke resolve_account_scope by (auto simp: need_principal_def split: option.splits)
qed (use assms in \<open>auto simp: chat_completions_def run_completion_def prompt_def chats_list_def chats_create_def chat_messages_def chat_send_def
      system_account_create_def system_account_list_def system_account_update_def system_key_generate_def system_key_list_def
      system_key_revoke_def bind_result_Inr_iff map_ok_Inr_iff Let_def split: if_splits sum.splits prod.splits\<close>)

lemma authorize_key_refused:
  "authenticate (en_sha env) (mks_ops (en_iso env)) (dict_get headers ''authorization'') (gw_keys s) = Inl e \<Longrightarrow>
     authorize env AUTH_KEY headers s = (Inl e, s)"
  by (simp add: authorize_def container_authenticate_def)

lemma authorize_key_principal:
  "authorize env AUTH_KEY headers s = (Inr (Some p), s1) \<Longrightarrow>
     authenticate (en_sha env) (mks_ops (en_iso env)) (dict_get headers ''authorization'') (gw_keys s) = Inr p"
  by (auto simp: authorize_def container_authenticate_def Let_def map_ok_Inr_iff split: sum.splits prod.splits if_splits)

lemma authorize_admin:
  assumes "authorize env AUTH_ADMIN headers s = (ar, s1)"
  shows "case ar of Inl e \<Rightarrow> er_status (map_exception e) \<in> {401, 500} \<and> s1 = s
    | Inr p \<Rightarrow> dict_get headers ''x-admin-token'' = Some (en_admin_token env) \<and> en_admin_token env \<noteq> []"
  using assms verify_admin_error verify_admin_ok by (fastforce simp: authorize_def map_ok_def bind_result_def split: sum.splits)


definition demo_valid :: validators where
  "demo_valid = \<lparr>v_chat = (\<lambda>b. Inl (Validation [])), v_text = (\<lambda>b. Inr (''hi'', None, None)), v_create = (\<lambda>b. Inr (None, None)),
     v_send = (\<lambda>b. Inl (Validation [])), v_tool = (\<lambda>j. Inl (Validation [])), v_invoke = (\<lambda>b. Inl (Validation [])),
     v_account = (\<lambda>b. Inl (Validation [])), v_cookies = (\<lambda>b. Inl (Validation [])), v_generate = (\<lambda>b. Inl (Validation [])), v_revoke = (\<lambda>b. Inr ''k2'')\<rparr>"

definition demo_gateway :: "(mem_storage orch_pool, unit) gw_env" where
  "demo_gateway = \<lparr>en_float = (\<lambda>x. []), en_sha = rev, en_iso = (\<lambda>s. None), en_jmsg = (\<lambda>s. []), en_pool = orch_pool_ops (\<lambda>x. []) mem_ops,
     en_sdk = demo_settings, en_admin_token = ''secret'', en_default_model = ''claude-sonnet-4-6'', en_server = ''fastapi'',
     en_mapper = mapper_init None ''claude-sonnet-4-6'', en_methods = [], en_calls = (\<lambda>c. demo_client),
     en_chats = (\<lambda>c. \<lparr>ca_list_conversations = (\<lambda>n. Inl (Validation [])), ca_create_conversation = (\<lambda>u n m. Inl (Validation [])),
       ca_get_messages = (\<lambda>i. Inr [])\<rparr>),
     en_call = (\<lambda>c i. Inr SdkNone), en_stream = (\<lambda>c i. Inr ([], None)), en_valid = demo_valid, en_dump_chunk = (\<lambda>c. []), en_uid = (\<lambda>n. []),
     en_token = [], en_now = demo_time, en_epoch = 0, en_made = 0, en_clock = 0\<rparr>"

definition demo_state :: "mem_storage orch_pool gateway" where
  "demo_state = \<lparr>gw_accounts = [], gw_pool = demo_pool, gw_keys = fold (key_step (mks_ops (\<lambda>s. None))) demo_key_ops [],
     gw_limiter = limiter_init 2, gw_touches = []\<rparr>"

definition demo_revoke :: "string dict \<Rightarrow> outcome \<times> mem_storage orch_pool gateway" where
  "demo_revoke headers = run_route demo_gateway (last ROUTES) [] [] [] headers demo_state"

lemma demo_route: "rd_handler (last ROUTES) = H_system_key_revoke" "rd_auth (last ROUTES) = AUTH_ADMIN" "last ROUTES \<in> set ROUTES"
  by (simp_all add: ROUTES_def route_def)


subsection \<open>Paging the messages of a chat\<close>

fun message_pages :: "nat \<Rightarrow> chat_message list \<Rightarrow> int \<Rightarrow> int \<Rightarrow> message_dto list option" where
  \<comment> \<open>a client that follows the cursors from \<open>start\<close> on; \<open>None\<close> when the fuel does not suffice\<close>
  "message_pages 0 messages start limit = None"
| "message_pages (Suc n) messages start limit =
     (let p = message_page messages start limit
      in case pg_cursor p of
           None \<Rightarrow> Some (pg_data p)
         | Some c \<Rightarrow> (case cursor_start (Some c) of
                        Inl e \<Rightarrow> None
                      | Inr next_start \<Rightarrow> map_option (\<lambda>ms. pg_data p @ ms) (message_pages n messages next_start limit)))"

lemma message_paging_loses_ties:
  \<comment> \<open>messages that share an index, such as the model's default 0, are lost at a page boundary\<close>
  "map_option (map md_id) (message_pages 9
     (map (\<lambda>u. \<lparr>cm_uuid = u, cm_text = [], cm_sender = ''human'', cm_index = 0, cm_created_at = None\<rparr>) [''m1'', ''m2'', ''m3'']) 0 2)
   = Some [''m1'', ''m2'']"
  by code_simp

end
