(* ===== verification/Gateway_Docs.thy ===== *)
theory Gateway_Docs
  imports Gateway_Server
begin

section \<open>What the gateway says about itself\<close>

text \<open>
  \<^verbatim>\<open>gateway/features/methods/introspect.py\<close> and \<^verbatim>\<open>docgen_service.py\<close> (the discovery of the method classes, their list and the Markdown
  reference) and \<^verbatim>\<open>gateway/servers/openapi.py\<close> (the OpenAPI document of the route table). What Python's reflection tells about a class is
  the record \<open>method_class\<close>; the schema generator of pydantic is the argument \<open>mjs\<close>: for a list of models it returns the reference of each and
  the definitions they refer to. Characters of the Markdown text outside Latin-1 are transliterated.
\<close>

subsection \<open>Discovery of the methods\<close>

record annotation =
  an_name :: "string option"    \<comment> \<open>\<open>__name__\<close>, if it has one\<close>
  an_str :: string

record param_field =
  pf_name :: string
  pf_type :: annotation
  pf_has_default :: bool

record 'i params_class =
  pc_is_dataclass :: bool
  pc_fields :: "param_field list"
  pc_new :: "json dict \<Rightarrow> string + 'i"

record 'i method_class =
  mc_name :: string
  mc_http_method :: "string option"
  mc_endpoint :: "string option"
  mc_is_stream :: bool
  mc_is_multipart :: bool
  mc_is_pydantic :: bool              \<comment> \<open>a subclass of \<open>BaseModel\<close>\<close>
  mc_json_schema :: "json dict"       \<comment> \<open>\<open>model_json_schema()\<close>\<close>
  mc_model_fields :: "string list"
  mc_model :: "string option"         \<comment> \<open>the name of \<open>__model__\<close>, if that is a class\<close>
  mc_new_field :: "json dict \<Rightarrow> string + 'i"
  mc_new :: 'i
  mc_params :: "'i params_class option"   \<comment> \<open>the class \<open><Name>Params\<close> of the module the method is defined in\<close>

datatype 'i export = MethodExport "'i method_class" | OtherExport

definition type_name :: "annotation \<Rightarrow> string" where
  "type_name a = or_default (an_name a) (an_str a)"

definition legacy_schema :: "'i params_class option \<Rightarrow> json dict" where
  "legacy_schema p =
     (case p of
        Some pc \<Rightarrow>
          if pc_is_dataclass pc
          then [(''type'', JStr ''object''),
                (''properties'', JObj (fold (\<lambda>f d. dict_set d (pf_name f) (JObj [(''type'', JStr (type_name (pf_type f)))])) (pc_fields pc) [])),
                (''required'', JList (map (JStr \<circ> pf_name) (filter (\<lambda>f. \<not> pf_has_default f) (pc_fields pc))))]
          else [(''type'', JStr ''object''), (''properties'', JObj [])]
      | None \<Rightarrow> [(''type'', JStr ''object''), (''properties'', JObj [])])"

definition param_schema :: "'i method_class \<Rightarrow> method_style \<Rightarrow> json dict" where
  "param_schema c style = (if style = FIELD then mc_json_schema c else legacy_schema (mc_params c))"

definition extract_spec :: "'i method_class \<Rightarrow> string \<Rightarrow> method_spec" where
  "extract_spec c grp =
     (let style = (if mc_is_pydantic c then FIELD else LEGACY)
      in \<lparr>ms_name = mc_name c, ms_group = grp,
          ms_http_method = (case mc_http_method c of None \<Rightarrow> ''GET'' | Some m \<Rightarrow> m),
          ms_endpoint = (case mc_endpoint c of None \<Rightarrow> [] | Some e \<Rightarrow> e),
          ms_style = style, ms_is_stream = mc_is_stream c, ms_is_multipart = mc_is_multipart c,
          ms_param_schema = param_schema c style, ms_result_model = mc_model c\<rparr>)"

definition legacy_has_field :: "'i params_class option \<Rightarrow> string \<Rightarrow> bool" where
  "legacy_has_field p name \<longleftrightarrow>
     (case p of None \<Rightarrow> False | Some pc \<Rightarrow> pc_is_dataclass pc \<and> list_ex (\<lambda>f. pf_name f = name) (pc_fields pc))"

definition method_entry_of :: "'i method_class \<Rightarrow> string \<Rightarrow> 'i method_entry" where
  "method_entry_of c grp =
     \<lparr>me_spec = extract_spec c grp,
      me_has_org = (if mc_is_pydantic c then ''org_uuid'' \<in> set (mc_model_fields c) else legacy_has_field (mc_params c) ''org_uuid''),
      me_build_field = mc_new_field c, me_build_legacy = map_option pc_new (mc_params c), me_bare = mc_new c\<rparr>"

definition discover_exports :: "string \<Rightarrow> 'i export list \<Rightarrow> 'i method_registry \<Rightarrow> 'i method_registry" where
  \<comment> \<open>the names of \<open>__all__\<close> in their order; \<open>OtherExport\<close> is what is no method class, or one of the two base classes\<close>
  "discover_exports grp exports d =
     fold (\<lambda>x d. case x of MethodExport c \<Rightarrow> dict_set d (mc_name c) (method_entry_of c grp) | OtherExport \<Rightarrow> d) exports d"

definition discover :: "(string \<times> bool \<times> 'i export list) list \<Rightarrow> 'i method_registry" where
  \<comment> \<open>the modules below \<open>claude_ai.methods\<close>: name, whether it is a package, exports\<close>
  "discover modules = fold (\<lambda>(grp, ispkg, exports) d. if ispkg then discover_exports grp exports d else d) modules []"

subsection \<open>The reference of the methods\<close>

definition as_list :: "'i method_registry \<Rightarrow> method_spec list" where
  "as_list reg = all_specs reg"

definition spec_lines :: "(pyfloat \<Rightarrow> string) \<Rightarrow> method_spec \<Rightarrow> string list" where
  "spec_lines fr spec =
     [''### '' @ ms_name spec @ (if ms_is_stream spec then '' '' @ [CHR 0xB7] @ '' stream'' else []) @
        (if ms_is_multipart spec then '' '' @ [CHR 0xB7] @ '' multipart (not dispatchable)'' else []),
      ''- `'' @ ms_http_method spec @ '' '' @ ms_endpoint spec @ ''` -> `'' @ (case ms_result_model spec of None \<Rightarrow> ''None'' | Some m \<Rightarrow> m) @ ''`'',
      ''- style: `'' @ (case ms_style spec of FIELD \<Rightarrow> ''field'' | LEGACY \<Rightarrow> ''legacy'') @ ''`''] @
     (case dict_getd (ms_param_schema spec) ''properties'' (JObj []) of
        JObj (p # ps) \<Rightarrow> [''- params: `'' @ json_raw fr (JList (map JStr (sort (dict_keys (p # ps))))) @ ''`'']
      | _ \<Rightarrow> []) @ [[]]"

fun method_lines :: "(pyfloat \<Rightarrow> string) \<Rightarrow> string option \<Rightarrow> method_spec list \<Rightarrow> string list" where
  \<comment> \<open>the loop over the specs with \<open>current_group\<close>\<close>
  "method_lines fr g [] = []"
| "method_lines fr g (spec # specs) =
     (if Some (ms_group spec) \<noteq> g then [''## '' @ ms_group spec, []] else []) @ spec_lines fr spec @ method_lines fr (Some (ms_group spec)) specs"

definition markdown_lines :: "(pyfloat \<Rightarrow> string) \<Rightarrow> 'i method_registry \<Rightarrow> string list" where
  "markdown_lines fr reg =
     [''# SDK Methods - generic dispatch reference'', [], ''Auto-generated from the `claude_ai.methods` classes. Call any method via:'', [],
      ''```'', ''POST /v1/methods/invoke'', ''{ \"method\": \"<name>\", \"account_id\": \"<acc>\", \"params\": { ... } }'', ''```'', []] @
     method_lines fr None (all_specs reg)"

definition as_markdown :: "(pyfloat \<Rightarrow> string) \<Rightarrow> 'i method_registry \<Rightarrow> string" where
  "as_markdown fr reg = join [LF] (markdown_lines fr reg)"

subsection \<open>The OpenAPI document\<close>

definition SECURITY_SCHEMES :: "json dict" where
  "SECURITY_SCHEMES =
     [(''ApiKey'', JObj [(''type'', JStr ''http''), (''scheme'', JStr ''bearer''), (''bearerFormat'', JStr ''sk-...'')]),
      (''AdminToken'', JObj [(''type'', JStr ''apiKey''), (''in'', JStr ''header''), (''name'', JStr ''X-Admin-Token'')])]"

definition SECURITY_BY_AUTH :: "route_auth \<Rightarrow> json option" where
  "SECURITY_BY_AUTH auth =
     (case auth of
        AUTH_NONE \<Rightarrow> None
      | AUTH_KEY \<Rightarrow> Some (JList [JObj [(''ApiKey'', JList [])]])
      | AUTH_ADMIN \<Rightarrow> Some (JList [JObj [(''AdminToken'', JList [])]]))"

fun handler_name :: "handler \<Rightarrow> string" where
  "handler_name H_health = ''health''"
| "handler_name H_chat_completions = ''chat_completions''"
| "handler_name H_models_list = ''models_list''"
| "handler_name H_prompt = ''prompt''"
| "handler_name H_chats_list = ''chats_list''"
| "handler_name H_chats_create = ''chats_create''"
| "handler_name H_chat_messages = ''chat_messages''"
| "handler_name H_chat_send = ''chat_send''"
| "handler_name H_methods_list = ''methods_list''"
| "handler_name H_methods_invoke = ''methods_invoke''"
| "handler_name H_system_account_create = ''system_account_create''"
| "handler_name H_system_account_list = ''system_account_list''"
| "handler_name H_system_account_update = ''system_account_update''"
| "handler_name H_system_key_generate = ''system_key_generate''"
| "handler_name H_system_key_list = ''system_key_list''"
| "handler_name H_system_key_revoke = ''system_key_revoke''"

definition scalar_html :: "string \<Rightarrow> string \<Rightarrow> string" where
  "scalar_html openapi_url title =
     ''<!doctype html><html><head><title>'' @ title @ ''</title><meta charset=\"utf-8\"/><meta name=\"viewport\" content=\"width=device-width, initial-scale=1\"/></head><body><script id=\"api-reference\" data-url=\"'' @
     openapi_url @ ''\"></script><script src=\"https://cdn.jsdelivr.net/npm/@scalar/api-reference\"></script></body></html>''"

definition tag_of :: "string \<Rightarrow> string" where
  "tag_of path =
     (if startswith path ''/system'' then ''System''
      else if startswith path ''/v1/chats'' then ''Chats''
      else if startswith path ''/v1/methods'' then ''Methods''
      else if path = ''/health'' then ''Health''
      else ''Completion'')"

definition option_list :: "'a option \<Rightarrow> 'a list" where
  "option_list x = (case x of None \<Rightarrow> [] | Some y \<Rightarrow> [y])"

definition collect_models :: "route_def list \<Rightarrow> string list" where
  \<comment> \<open>\<open>list(dict.fromkeys(models))\<close>\<close>
  "collect_models routes =
     dict_keys (fold (\<lambda>m d. dict_set d m ())
       (''OpenAIErrorEnvelope'' # concat (map (\<lambda>r. option_list (rd_request_model r) @ option_list (rd_response_model r)) routes)) [])"

function path_names :: "string \<Rightarrow> string list" where
  \<comment> \<open>\<open>_PATH_PARAM.findall(path)\<close>: word characters in braces\<close>
  "path_names [] = []"
| "path_names (c # cs) =
     (if c = CHR ''{'' \<and> takeWhile is_word_char cs \<noteq> [] \<and> startswith (dropWhile is_word_char cs) ''}''
      then takeWhile is_word_char cs # path_names (drop 1 (dropWhile is_word_char cs))
      else path_names cs)"
  by pat_completeness auto
termination
  by (relation "measure length") (auto intro: le_less_trans [OF diff_le_self] le_imp_less_Suc length_dropWhile_le)

definition path_parameters :: "string \<Rightarrow> json list" where
  "path_parameters path =
     map (\<lambda>name. JObj [(''name'', JStr name), (''in'', JStr ''path''), (''required'', JBool True), (''schema'', JObj [(''type'', JStr ''string'')])])
       (path_names path)"

definition query_parameters :: "query_param list \<Rightarrow> json list" where
  "query_parameters query =
     map (\<lambda>q. JObj ([(''name'', JStr (qp_name q)), (''in'', JStr ''query''), (''required'', JBool (qp_required q)),
                     (''schema'', JObj [(''type'', JStr (qp_schema_type q))])] @
                    (if or_default (qp_description q) [] \<noteq> [] then [(''description'', JStr (or_default (qp_description q) []))] else []))) query"

definition ref_content :: "string dict \<Rightarrow> string \<Rightarrow> exn + json" where
  \<comment> \<open>the content that refers to a model; \<open>ref_for[model]\<close>\<close>
  "ref_content ref m =
     (case dict_get ref m of
        None \<Rightarrow> Inl (Py (KeyError m))
      | Some x \<Rightarrow> Inr (JObj [(''application/json'', JObj [(''schema'', JObj [(''$ref'', JStr x)])])]))"

definition responses :: "route_def \<Rightarrow> string dict \<Rightarrow> exn + json dict" where
  "responses r ref =
     bind_result
       (case rd_response_model r of
          Some m \<Rightarrow> map_ok (\<lambda>c. JObj [(''description'', JStr ''Successful Response''), (''content'', c)]) (ref_content ref m)
        | None \<Rightarrow> Inr (JObj [(''description'', JStr ''Successful Response'')]))
       (\<lambda>success.
         if rd_auth r = AUTH_NONE then Inr [(''200'', success)]
         else map_ok (\<lambda>c. [(''200'', success), (''default'', JObj [(''description'', JStr ''Error''), (''content'', c)])])
                (ref_content ref ''OpenAIErrorEnvelope''))"

definition operation :: "route_def \<Rightarrow> string dict \<Rightarrow> exn + json dict" where
  "operation r ref =
     bind_result (responses r ref) (\<lambda>resp.
     bind_result
       (case rd_request_model r of
          None \<Rightarrow> Inr []
        | Some m \<Rightarrow> map_ok (\<lambda>c. [(''requestBody'', JObj [(''required'', JBool True), (''content'', c)])]) (ref_content ref m)) (\<lambda>body.
       let parameters = path_parameters (rd_path r) @ query_parameters (rd_query r)
       in Inr ([(''tags'', JList [JStr (tag_of (rd_path r))]), (''operationId'', JStr (handler_name (rd_handler r))), (''responses'', JObj resp)] @
               (if or_default (rd_summary r) [] \<noteq> [] then [(''summary'', JStr (or_default (rd_summary r) []))] else []) @
               (if parameters \<noteq> [] then [(''parameters'', JList parameters)] else []) @ body @
               (case SECURITY_BY_AUTH (rd_auth r) of None \<Rightarrow> [] | Some s \<Rightarrow> [(''security'', s)]))))"

fun add_routes :: "string dict \<Rightarrow> route_def list \<Rightarrow> json dict dict \<Rightarrow> exn + json dict dict" where
  "add_routes ref [] paths = Inr paths"
| "add_routes ref (r # rs) paths =
     bind_result (operation r ref) (\<lambda>op.
       add_routes ref rs (dict_set paths (rd_path r) (dict_set (dict_getd paths (rd_path r) []) (lower (rd_http r)) (JObj op))))"

fun refs_of :: "string dict \<Rightarrow> string list \<Rightarrow> exn + string dict" where
  "refs_of key_map [] = Inr []"
| "refs_of key_map (m # ms) =
     (case dict_get key_map m of
        None \<Rightarrow> Inl (Py (KeyError m))
      | Some x \<Rightarrow> map_ok (\<lambda>d. (m, x) # d) (refs_of key_map ms))"

definition build_openapi :: "(string list \<Rightarrow> string dict \<times> json dict) \<Rightarrow> route_def list \<Rightarrow> string \<Rightarrow> string \<Rightarrow> exn + json dict" where
  "build_openapi mjs routes title version =
     (let models = collect_models routes; (key_map, defs) = mjs models
      in bind_result (refs_of key_map models) (\<lambda>ref.
         map_ok (\<lambda>paths.
             [(''openapi'', JStr ''3.1.0''), (''info'', JObj [(''title'', JStr title), (''version'', JStr version)]),
              (''paths'', JObj (map (\<lambda>(p, ops). (p, JObj ops)) paths)),
              (''components'', JObj [(''schemas'', JObj defs), (''securitySchemes'', JObj SECURITY_SCHEMES)])])
           (add_routes ref routes [])))"

subsection \<open>Every method is documented once\<close>

definition registry_ok :: "'i method_registry \<Rightarrow> bool" where
  "registry_ok d \<longleftrightarrow> dict_ok d \<and> (\<forall>(k, e) \<in> set d. ms_name (me_spec e) = k)"

definition method_names :: "(string \<times> bool \<times> 'i export list) list \<Rightarrow> string set" where
  \<comment> \<open>the names of the method classes the packages export\<close>
  "method_names modules = {mc_name c |c g xs. (g, True, xs) \<in> set modules \<and> MethodExport c \<in> set xs}"

lemma registry_ok_set: "registry_ok d \<Longrightarrow> registry_ok (dict_set d (mc_name c) (method_entry_of c g))"
  using dict_set_subset [of "mc_name c" "method_entry_of c g" d]
  by (auto simp: registry_ok_def method_entry_of_def extract_spec_def Let_def)

lemma dict_keys_image: "fst ` set (dict_set d k v) = insert k (fst ` set d)"
  using dict_keys_set [of k v d] by (simp del: dict_keys_set)

lemma discover_exports_ok:
  "registry_ok d \<Longrightarrow> registry_ok (discover_exports g xs d) \<and>
     set (dict_keys (discover_exports g xs d)) = set (dict_keys d) \<union> {mc_name c |c. MethodExport c \<in> set xs}"
proof (induction xs arbitrary: d)
  case (Cons x xs)
  show ?case
    using Cons.IH [OF Cons.prems] Cons.IH [OF registry_ok_set [OF Cons.prems]]
    by (cases x) (auto simp: discover_exports_def dict_keys_image)
qed (simp add: discover_exports_def)

lemma discover_loop_ok:
  "registry_ok d \<Longrightarrow>
     registry_ok (fold (\<lambda>(g, ispkg, xs) d. if ispkg then discover_exports g xs d else d) modules d) \<and>
     set (dict_keys (fold (\<lambda>(g, ispkg, xs) d. if ispkg then discover_exports g xs d else d) modules d)) = set (dict_keys d) \<union> method_names modules"
proof (induction modules arbitrary: d)
  case (Cons m modules)
  obtain g ispkg xs where m: "m = (g, ispkg, xs)" by (cases m)
  have "method_names (m # modules) = (if ispkg then {mc_name c |c. MethodExport c \<in> set xs} else {}) \<union> method_names modules"
    by (auto simp: method_names_def m)
  then show ?case
    using Cons.IH [OF Cons.prems] Cons.IH [of "discover_exports g xs d"] discover_exports_ok [OF Cons.prems, of g xs]
    by (simp add: m Un_assoc)
qed (simp add: method_names_def)

lemma discover_ok: "registry_ok (discover modules)" "set (dict_keys (discover modules)) = method_names modules"
  using discover_loop_ok [of "[]" modules] by (simp_all add: discover_def registry_ok_def)

lemma all_specs_names:
  assumes "registry_ok reg"
  shows "mset (map ms_name (all_specs reg)) = mset (dict_keys reg)"
proof -
  have "map ms_name (map me_spec (dict_values reg)) = dict_keys reg"
    using assms by (auto simp: registry_ok_def)
  moreover have "mset (map ms_name (all_specs reg)) = mset (map ms_name (map me_spec (dict_values reg)))"
    unfolding all_specs_def mset_map [of ms_name] by simp
  ultimately show ?thesis by (simp only:)
qed

lemma all_specs_sorted: "sorted (map (\<lambda>s. (ms_group s, ms_name s)) (all_specs reg))" "sorted (map ms_group (all_specs reg))"
proof -
  show *: "sorted (map (\<lambda>s. (ms_group s, ms_name s)) (all_specs reg))" by (simp add: all_specs_def)
  show "sorted (map ms_group (all_specs reg))"
    using * unfolding sorted_map by (rule sorted_wrt_mono_rel [rotated]) (auto simp: less_eq_prod_def)
qed

lemma spec_lines_no_heading: "''## '' @ g \<notin> set (spec_lines fr spec)"
  by (auto simp: spec_lines_def split: json.splits list.splits)

lemma heading_count:
  assumes "sorted (map ms_group specs)" and "\<And>c s. cur = Some c \<Longrightarrow> s \<in> set specs \<Longrightarrow> c \<le> ms_group s"
  shows "count_list (method_lines fr cur specs) (''## '' @ g) = (if g \<in> ms_group ` set specs \<and> cur \<noteq> Some g then 1 else 0)"
  using assms
proof (induction specs arbitrary: cur)
  case (Cons s specs)
  have rest: "count_list (method_lines fr (Some (ms_group s)) specs) (''## '' @ g) = (if g \<in> ms_group ` set specs \<and> ms_group s \<noteq> g then 1 else 0)"
  proof -
    have "count_list (method_lines fr (Some (ms_group s)) specs) (''## '' @ g) =
        (if g \<in> ms_group ` set specs \<and> Some (ms_group s) \<noteq> Some g then 1 else 0)"
    proof (rule Cons.IH)
      show "sorted (map ms_group specs)" using Cons.prems(1) by simp
      show "c \<le> ms_group s'" if "Some (ms_group s) = Some c" "s' \<in> set specs" for c s' using Cons.prems(1) that by auto
    qed
    then show ?thesis by (simp only: option.inject)
  qed
  have own: "count_list (spec_lines fr s) (''## '' @ g) = 0" using spec_lines_no_heading count_list_0_iff by metis
  have "g \<notin> ms_group ` set specs" if "cur = Some g" "g \<noteq> ms_group s"
    using Cons.prems(1) Cons.prems(2) [OF that(1), of s] that(2) by fastforce
  then show ?case using rest own by auto
qed simp

text \<open>
  The reference of the methods is complete and free of repetitions, whatever the packages export: the list the gateway serves is sorted by group and name and holds
  exactly the method classes the packages export, each once; the Markdown text has exactly one heading for every group with a method.
\<close>

theorem methods_documented_once:
  "sorted (map (\<lambda>s. (ms_group s, ms_name s)) (as_list (discover modules))) \<and>
   distinct (map ms_name (as_list (discover modules))) \<and> set (map ms_name (as_list (discover modules))) = method_names modules \<and>
   count_list (markdown_lines fr (discover modules)) (''## '' @ g) = (if g \<in> ms_group ` set (as_list (discover modules)) then 1 else 0)"
proof -
  note m = all_specs_names [OF discover_ok(1), of modules]
  have "distinct (dict_keys (discover modules))" using discover_ok(1) [of modules] by (simp add: registry_ok_def dict_ok_def)
  then have "distinct (map ms_name (all_specs (discover modules)))" using mset_eq_imp_distinct_iff [OF m] by simp
  moreover have "set (map ms_name (all_specs (discover modules))) = method_names modules"
    using mset_eq_setD [OF m] discover_ok(2) by simp
  ultimately show ?thesis
    using all_specs_sorted [of "discover modules"] heading_count [OF all_specs_sorted(2), of None "discover modules" fr g]
    by (simp add: as_list_def markdown_lines_def)
qed

subsection \<open>The document tells the truth about access\<close>

definition path_operation :: "json dict dict \<Rightarrow> string \<Rightarrow> string \<Rightarrow> json option" where
  "path_operation paths path verb = map_of (dict_getd paths path []) verb"

definition doc_operation :: "json dict \<Rightarrow> string \<Rightarrow> string \<Rightarrow> json dict option" where
  \<comment> \<open>how a reader of the document finds an operation\<close>
  "doc_operation doc path verb =
     (case dict_get doc ''paths'' of
        Some (JObj ps) \<Rightarrow>
          (case dict_get ps path of
             Some (JObj ops) \<Rightarrow> (case dict_get ops verb of Some (JObj op) \<Rightarrow> Some op | _ \<Rightarrow> None)
           | _ \<Rightarrow> None)
      | _ \<Rightarrow> None)"

definition credential_header :: "string \<Rightarrow> string" where
  \<comment> \<open>the header a security scheme of the document asks for\<close>
  "credential_header scheme =
     (case dict_get SECURITY_SCHEMES scheme of
        Some (JObj d) \<Rightarrow>
          if dict_get d ''type'' = Some (JStr ''http'') then ''authorization''
          else (case dict_get d ''name'' of Some (JStr n) \<Rightarrow> lower n | _ \<Rightarrow> [])
      | _ \<Rightarrow> [])"

definition lacks_credential :: "json dict \<Rightarrow> string dict \<Rightarrow> bool" where
  "lacks_credential op headers \<longleftrightarrow>
     (case dict_get op ''security'' of
        Some (JList [JObj [(scheme, _)]]) \<Rightarrow> dict_get headers (credential_header scheme) = None
      | _ \<Rightarrow> False)"

definition covers :: "(string list \<Rightarrow> string dict \<times> json dict) \<Rightarrow> bool" where
  \<comment> \<open>the schema generator returns a reference for every model it is given\<close>
  "covers mjs \<longleftrightarrow> (\<forall>ms. \<forall>m \<in> set ms. dict_get (fst (mjs ms)) m \<noteq> None)"

lemma refs_of_ok: "(\<And>m. m \<in> set ms \<Longrightarrow> dict_get km m \<noteq> None) \<Longrightarrow> \<exists>ref. refs_of km ms = Inr ref \<and> (\<forall>m \<in> set ms. dict_get ref m \<noteq> None)"
proof (induction ms)
  case (Cons m ms)
  then obtain ref x where "refs_of km ms = Inr ref" "\<forall>m \<in> set ms. dict_get ref m \<noteq> None" "dict_get km m = Some x" by fastforce
  then show ?case by simp
qed simp

lemma fromkeys_keys: "set (dict_keys (fold (\<lambda>m d. dict_set d m ()) ms d)) = set (dict_keys d) \<union> set ms"
  by (induction ms arbitrary: d) (auto simp: dict_keys_image)

lemma collect_models_has:
  "''OpenAIErrorEnvelope'' \<in> set (collect_models routes)"
  "r \<in> set routes \<Longrightarrow> rd_request_model r = Some m \<Longrightarrow> m \<in> set (collect_models routes)"
  "r \<in> set routes \<Longrightarrow> rd_response_model r = Some m \<Longrightarrow> m \<in> set (collect_models routes)"
  unfolding collect_models_def fromkeys_keys by (force simp: option_list_def)+

lemma ref_content_ok: "dict_get ref m \<noteq> None \<Longrightarrow> \<exists>c. ref_content ref m = Inr c"
  by (auto simp: ref_content_def)

lemma operation_ok:
  assumes "dict_get ref ''OpenAIErrorEnvelope'' \<noteq> None" and "\<And>m. rd_request_model r = Some m \<Longrightarrow> dict_get ref m \<noteq> None"
    and "\<And>m. rd_response_model r = Some m \<Longrightarrow> dict_get ref m \<noteq> None"
  shows "\<exists>op. operation r ref = Inr op \<and> dict_get op ''operationId'' = Some (JStr (handler_name (rd_handler r))) \<and>
    dict_get op ''security'' = SECURITY_BY_AUTH (rd_auth r)"
proof -
  have "\<exists>resp. responses r ref = Inr resp"
    using ref_content_ok [OF assms(1)] ref_content_ok [OF assms(3)]
    by (cases "rd_response_model r") (auto simp: responses_def bind_result_def)
  then obtain resp where resp: "responses r ref = Inr resp" ..
  show ?thesis
  proof (cases "rd_request_model r")
    case None
    then show ?thesis by (auto simp: operation_def resp bind_result_def Let_def split: option.splits)
  next
    case (Some m)
    then obtain c where "ref_content ref m = Inr c" using ref_content_ok [OF assms(2)] by blast
    with Some show ?thesis by (auto simp: operation_def resp bind_result_def Let_def split: option.splits)
  qed
qed

lemma path_operation_set:
  "path_operation (dict_set paths p (dict_set (dict_getd paths p []) v x)) path verb =
     (if path = p \<and> verb = v then Some x else path_operation paths path verb)"
  by (auto simp: path_operation_def dict_getd_def)

abbreviation route_keys :: "route_def list \<Rightarrow> (string \<times> string) list" where
  "route_keys rs \<equiv> map (\<lambda>r. (rd_path r, lower (rd_http r))) rs"

lemma add_routes_ok:
  assumes "\<And>r. r \<in> set rs \<Longrightarrow> \<exists>op. operation r ref = Inr op" and "distinct (route_keys rs)"
  shows "\<exists>paths. add_routes ref rs p0 = Inr paths \<and>
    (\<forall>r \<in> set rs. \<forall>op. operation r ref = Inr op \<longrightarrow> path_operation paths (rd_path r) (lower (rd_http r)) = Some (JObj op)) \<and>
    (\<forall>path verb. (path, verb) \<notin> set (route_keys rs) \<longrightarrow> path_operation paths path verb = path_operation p0 path verb)"
  using assms
proof (induction rs arbitrary: p0)
  case (Cons r rs)
  obtain op where op: "operation r ref = Inr op" using Cons.prems(1) by auto
  let ?p = "dict_set p0 (rd_path r) (dict_set (dict_getd p0 (rd_path r) []) (lower (rd_http r)) (JObj op))"
  obtain paths where "add_routes ref rs ?p = Inr paths"
    "\<forall>r \<in> set rs. \<forall>op. operation r ref = Inr op \<longrightarrow> path_operation paths (rd_path r) (lower (rd_http r)) = Some (JObj op)"
    and other: "\<forall>path verb. (path, verb) \<notin> set (route_keys rs) \<longrightarrow> path_operation paths path verb = path_operation ?p path verb"
    using Cons.IH [of ?p] Cons.prems by (metis (mono_tags, lifting) distinct.simps(2) list.set_intros(2) list.simps(9))
  moreover have "path_operation paths (rd_path r) (lower (rd_http r)) = Some (JObj op)"
    using other Cons.prems(2) by (simp add: path_operation_set)
  ultimately show ?case
    using op by (auto simp: bind_result_def path_operation_set)
qed simp

lemma routes_distinct: "distinct (route_keys ROUTES)"
  by code_simp

lemma no_key_refused:
  "rd_auth r = AUTH_KEY \<Longrightarrow> dict_get headers ''authorization'' = None \<Longrightarrow> run_route env r pp q b headers s = (outcome_of (Inl MissingApiKey), s)"
  by (simp add: run_route_def authorize_def container_authenticate_def authenticate_def or_default_def Let_def)

lemma no_token_refused:
  "rd_auth r = AUTH_ADMIN \<Longrightarrow> dict_get headers ''x-admin-token'' = None \<Longrightarrow> run_route env r pp q b headers s = (outcome_of (Inl AdminForbidden), s)"
  by (simp add: run_route_def authorize_def verify_admin_def or_default_def Let_def)

lemma refusal_status: "oc_status (outcome_of (Inl MissingApiKey)) = 401" "oc_status (outcome_of (Inl AdminForbidden)) = 401"
  by (simp_all add: outcome_of_def map_exception_def MissingApiKey_def AdminForbidden_def gateway_error_of_def Let_def)

lemma credential_headers: "credential_header ''ApiKey'' = ''authorization''" "credential_header ''AdminToken'' = ''x-admin-token''"
  by code_simp+

lemma documented_access:
  assumes "dict_get op ''security'' = SECURITY_BY_AUTH (rd_auth r)"
  shows "dict_get op ''security'' = None \<Longrightarrow> authorize env (rd_auth r) headers s = (Inr None, s)"
    and "lacks_credential op headers \<Longrightarrow> oc_status (fst (run_route env r pp q b headers s)) = 401 \<and> snd (run_route env r pp q b headers s) = s"
  using assms no_key_refused [of r headers env pp q b s] no_token_refused [of r headers env pp q b s]
  by (auto simp: SECURITY_BY_AUTH_def authorize_def lacks_credential_def credential_headers refusal_status split: route_auth.splits)

text \<open>Building the document succeeds, and a reader finds the operation of every route, and no other.\<close>

lemma openapi_built:
  assumes "covers mjs" and "distinct (route_keys routes)"
  obtains doc where "build_openapi mjs routes title version = Inr doc"
    and "\<And>r. r \<in> set routes \<Longrightarrow> \<exists>op. doc_operation doc (rd_path r) (lower (rd_http r)) = Some op \<and>
      dict_get op ''operationId'' = Some (JStr (handler_name (rd_handler r))) \<and> dict_get op ''security'' = SECURITY_BY_AUTH (rd_auth r)"
    and "\<And>path verb. (path, verb) \<notin> set (route_keys routes) \<Longrightarrow> doc_operation doc path verb = None"
proof -
  let ?models = "collect_models routes"
  obtain km defs where km: "mjs ?models = (km, defs)" by (meson surj_pair)
  obtain ref where ref: "refs_of km ?models = Inr ref" "\<forall>m \<in> set ?models. dict_get ref m \<noteq> None"
    using refs_of_ok [of ?models km] assms(1) km by (metis covers_def fst_conv)
  have ops: "\<exists>op. operation r ref = Inr op \<and> dict_get op ''operationId'' = Some (JStr (handler_name (rd_handler r))) \<and>
      dict_get op ''security'' = SECURITY_BY_AUTH (rd_auth r)" if "r \<in> set routes" for r
    using ref(2) collect_models_has [where routes = routes] that by (intro operation_ok) blast+
  obtain paths where paths: "add_routes ref routes [] = Inr paths"
    "\<forall>r \<in> set routes. \<forall>op. operation r ref = Inr op \<longrightarrow> path_operation paths (rd_path r) (lower (rd_http r)) = Some (JObj op)"
    "\<forall>path verb. (path, verb) \<notin> set (route_keys routes) \<longrightarrow> path_operation paths path verb = path_operation [] path verb"
    using add_routes_ok [OF _ assms(2), of ref "[]"] ops by meson
  let ?doc = "[(''openapi'', JStr ''3.1.0''), (''info'', JObj [(''title'', JStr title), (''version'', JStr version)]),
              (''paths'', JObj (map (\<lambda>(p, ops). (p, JObj ops)) paths)),
              (''components'', JObj [(''schemas'', JObj defs), (''securitySchemes'', JObj SECURITY_SCHEMES)])]"
  have find: "doc_operation ?doc path verb = (case path_operation paths path verb of Some (JObj op) \<Rightarrow> Some op | _ \<Rightarrow> None)" for path verb
    by (auto simp: doc_operation_def path_operation_def map_of_map dict_getd_def split: option.splits)
  show ?thesis
  proof (rule that [of ?doc])
    show "build_openapi mjs routes title version = Inr ?doc" by (simp add: build_openapi_def km ref(1) paths(1) bind_result_def)
    show "\<exists>op. doc_operation ?doc (rd_path r) (lower (rd_http r)) = Some op \<and>
      dict_get op ''operationId'' = Some (JStr (handler_name (rd_handler r))) \<and> dict_get op ''security'' = SECURITY_BY_AUTH (rd_auth r)"
      if "r \<in> set routes" for r using ops [OF that] paths(2) that by (auto simp: find)
    show "doc_operation ?doc path verb = None" if "(path, verb) \<notin> set (route_keys routes)" for path verb
      using paths(3) that by (simp add: find path_operation_def dict_getd_def)
  qed
qed

text \<open>
  C23. The OpenAPI document of the route table can be built whatever the schema generator returns, as long as it answers for every model. It has an operation for
  every route and none besides. An operation without a security entry is open to every request; one with an entry refuses
  with status 401, and without changing anything, every request that lacks the header its security scheme names.
\<close>

theorem openapi_describes_server:
  assumes "covers mjs"
  shows "\<exists>doc. build_openapi mjs ROUTES title version = Inr doc \<and>
    (\<forall>path verb. doc_operation doc path verb \<noteq> None \<longleftrightarrow> (path, verb) \<in> set (route_keys ROUTES)) \<and>
    (\<forall>r \<in> set ROUTES. \<exists>op. doc_operation doc (rd_path r) (lower (rd_http r)) = Some op \<and>
       dict_get op ''operationId'' = Some (JStr (handler_name (rd_handler r))) \<and>
       (dict_get op ''security'' = None \<longrightarrow> (\<forall>headers s. authorize env (rd_auth r) headers s = (Inr None, s))) \<and>
       (\<forall>pp q b headers s. lacks_credential op headers \<longrightarrow>
          oc_status (fst (run_route env r pp q b headers s)) = 401 \<and> snd (run_route env r pp q b headers s) = s))"
proof -
  obtain doc where doc: "build_openapi mjs ROUTES title version = Inr doc"
    and ops: "\<And>r. r \<in> set ROUTES \<Longrightarrow> \<exists>op. doc_operation doc (rd_path r) (lower (rd_http r)) = Some op \<and>
      dict_get op ''operationId'' = Some (JStr (handler_name (rd_handler r))) \<and> dict_get op ''security'' = SECURITY_BY_AUTH (rd_auth r)"
    and none: "\<And>path verb. (path, verb) \<notin> set (route_keys ROUTES) \<Longrightarrow> doc_operation doc path verb = None"
    using openapi_built [OF assms routes_distinct, of title version] by blast
  show ?thesis
  proof (rule exI [of _ doc], intro conjI allI ballI)
    show "(doc_operation doc path verb \<noteq> None) = ((path, verb) \<in> set (route_keys ROUTES))" for path verb
      using ops none [of path verb] by fastforce
    fix r assume "r \<in> set ROUTES"
    then obtain op where op: "doc_operation doc (rd_path r) (lower (rd_http r)) = Some op"
      "dict_get op ''operationId'' = Some (JStr (handler_name (rd_handler r)))" "dict_get op ''security'' = SECURITY_BY_AUTH (rd_auth r)"
      using ops by blast
    show "\<exists>op. doc_operation doc (rd_path r) (lower (rd_http r)) = Some op \<and>
       dict_get op ''operationId'' = Some (JStr (handler_name (rd_handler r))) \<and>
       (dict_get op ''security'' = None \<longrightarrow> (\<forall>headers s. authorize env (rd_auth r) headers s = (Inr None, s))) \<and>
       (\<forall>pp q b headers s. lacks_credential op headers \<longrightarrow>
          oc_status (fst (run_route env r pp q b headers s)) = 401 \<and> snd (run_route env r pp q b headers s) = s)"
      using op documented_access [OF op(3)] by blast
  qed (rule doc)
qed

definition demo_schemas :: "string list \<Rightarrow> string dict \<times> json dict" where
  "demo_schemas ms = (map (\<lambda>m. (m, ''#/components/schemas/'' @ m)) ms, map (\<lambda>m. (m, JObj [])) ms)"

theorem openapi_describes_server_witness:
  "\<exists>doc. build_openapi demo_schemas ROUTES ''claude-gateway'' ''1.0.0'' = Inr doc \<and> doc_operation doc ''/health'' ''get'' \<noteq> None \<and>
    doc_operation doc ''/docs'' ''get'' = None"
proof -
  have "covers demo_schemas" by (auto simp: covers_def demo_schemas_def map_of_map_restrict comp_def restrict_map_def)
  then obtain doc where "build_openapi demo_schemas ROUTES ''claude-gateway'' ''1.0.0'' = Inr doc"
    "\<forall>path verb. doc_operation doc path verb \<noteq> None \<longleftrightarrow> (path, verb) \<in> set (route_keys ROUTES)"
    using openapi_describes_server by blast
  moreover have "(''/health'', ''get'') \<in> set (route_keys ROUTES)" "(''/docs'', ''get'') \<notin> set (route_keys ROUTES)" by code_simp+
  ultimately show ?thesis by blast
qed

end
