(* ===== verification/Gateway_Postgres.thy ===== *)
theory Gateway_Postgres
  imports Gateway_Auth File_Storage Databases
begin

section \<open>The gateway's stores in Postgres\<close>

text \<open>
  \<^verbatim>\<open>gateway/features/auth/store/postgres.py\<close>, \<^verbatim>\<open>gateway/shared/db/repo.py\<close> and \<^verbatim>\<open>gateway/features/auth/cipher.py\<close>: the accounts and keys in
  Postgres behind SQLAlchemy, and the encryption of the cookies at rest. Arguments: a session of SQLAlchemy on one table (\<open>sa_db\<close>), the Fernet cipher, and the dump and the
  validation of pydantic. \<open>table_laws\<close> says what a session does to the table and in which order a \<^verbatim>\<open>SELECT\<close> answers; the order of the ids is that of the code points, which Postgres
  has for the collation \<^verbatim>\<open>C\<close>. \<^verbatim>\<open>JSONB\<close> keeps the entries of an object, not their order. Shown: what the cipher seals it opens again; over any history, the accounts are answered like those of the
  memory store, by id, page by page and in a full scan, and the keys by id and by hash.
\<close>

subsection \<open>CookieCipher\<close>

record fernet =
  fn_encrypt :: "nat \<Rightarrow> string \<Rightarrow> string"     \<comment> \<open>the first argument stands for the random part of the token\<close>
  fn_decrypt :: "string \<Rightarrow> string option"          \<comment> \<open>\<open>None\<close>: \<open>InvalidToken\<close>\<close>

definition CookieDecryptError :: "string \<Rightarrow> gexn" where
  "CookieDecryptError m = gateway_error_of 500 ''api_error'' ''Could not decrypt stored cookies'' (Some m)"

definition cookies_text :: "cookies \<Rightarrow> string" where
  \<comment> \<open>\<open>json.dumps(cookies, separators=(",", ":"))\<close>\<close>
  "cookies_text c = ''{'' @ join '','' (map (\<lambda>(k, v). dump_string k @ '':'' @ dump_string v) c) @ ''}''"

definition cipher_encrypt :: "fernet \<Rightarrow> nat \<Rightarrow> cookies \<Rightarrow> string" where
  "cipher_encrypt fn seed c = fn_encrypt fn seed (cookies_text c)"

definition cipher_decrypt :: "(pyfloat \<Rightarrow> string) \<Rightarrow> (string \<Rightarrow> string) \<Rightarrow> fernet \<Rightarrow> string \<Rightarrow> gexn + cookies" where
  "cipher_decrypt fr jmsg fn token =
     (case fn_decrypt fn token of
        None \<Rightarrow> Inl (CookieDecryptError ''stored cookies could not be decrypted - wrong COOKIE_ENCRYPTION_KEY?'')
      | Some raw \<Rightarrow>
          (case json_loads raw of
             None \<Rightarrow> Inl (Sdk (OtherException ''JSONDecodeError'' (jmsg raw)))
           | Some (JObj d) \<Rightarrow> Inr (map (\<lambda>(k, v). (k, py_str fr v)) d)
           | Some _ \<Rightarrow> Inl (Sdk (Py (AttributeError ''object has no attribute 'items'')))))"

lemma cookies_text_loads: "dict_ok c \<Longrightarrow> json_loads (cookies_text c) = Some (JObj (str_values c))"
proof (rule loads_text)
  assume ok: "dict_ok c"
  show "json_text (JObj (str_values c)) (cookies_text c)"
  proof (cases "c = []")
    case False
    let ?g = "\<lambda>(k, v). dump_string k @ '':'' @ (case v of JStr s \<Rightarrow> dump_string s | _ \<Rightarrow> [])"
    have "members_text (str_values c) (join '','' (map ?g (str_values c)) @ [] @ ''}'')"
    proof (rule joined_members [where ?w0.0 = "[]"])
      fix k v assume "(k, v) \<in> set (str_values c)"
      then obtain x where "v = JStr x" by auto
      then show "\<exists>u t. ?g (k, v) = u @ CHR '':'' # [] @ t \<and> string_text k u \<and> json_text v t"
        using dump_string_text [of k] text_str [OF dump_string_text [of x]] by (intro exI [of _ "dump_string k"] exI [of _ "dump_string x"]) simp
    qed (use False in simp_all)
    moreover have "map ?g (str_values c) = map (\<lambda>(k, v). dump_string k @ '':'' @ dump_string v) c" by auto
    ultimately show ?thesis
      using text_obj [of "[]" "str_values c"] ok by (auto simp: cookies_text_def dict_ok_def case_prod_unfold comp_def)
  qed (simp add: cookies_text_def text_empty)
qed

lemma cipher_roundtrip:
  assumes "fn_decrypt fn (fn_encrypt fn seed (cookies_text c)) = Some (cookies_text c)" and "dict_ok c"
  shows "cipher_decrypt fr jmsg fn (cipher_encrypt fn seed c) = Inr c"
  using assms by (simp add: cipher_decrypt_def cipher_encrypt_def cookies_text_loads comp_def case_prod_unfold)

subsection \<open>BaseRepo\<close>

record 'r sa_stmt =
  st_where :: "('r \<Rightarrow> bool) list"
  st_before :: "(iso_time \<times> string) option"   \<comment> \<open>\<open>(created_at, id) < anchor\<close>\<close>
  st_newest :: bool                             \<comment> \<open>\<open>order_by(created_at.desc(), id.desc())\<close>\<close>
  st_limit :: int

record ('r, 'd) sa_db =
  sa_get :: "string \<Rightarrow> 'd \<Rightarrow> exn + 'r option"
  sa_execute :: "'r sa_stmt \<Rightarrow> 'd \<Rightarrow> exn + 'r list"
  sa_merge :: "'r \<Rightarrow> 'd \<Rightarrow> (exn + unit) \<times> 'd"
  sa_delete :: "'r \<Rightarrow> 'd \<Rightarrow> (exn + unit) \<times> 'd"
  sa_commit :: "'d \<Rightarrow> (exn + unit) \<times> 'd"
  sa_id :: "'r \<Rightarrow> string"                   \<comment> \<open>the columns every table has\<close>
  sa_created_at :: "'r \<Rightarrow> datetime"

definition repo_get :: "('r, 'd) sa_db \<Rightarrow> string \<Rightarrow> 'd \<Rightarrow> exn + 'r option" where
  "repo_get db i d = sa_get db i d"

definition repo_get_by :: "('r, 'd) sa_db \<Rightarrow> ('r \<Rightarrow> bool) \<Rightarrow> 'd \<Rightarrow> exn + 'r option" where
  "repo_get_by db clause d =
     map_ok (\<lambda>rows. case rows of [] \<Rightarrow> None | r # _ \<Rightarrow> Some r)
       (sa_execute db \<lparr>st_where = [clause], st_before = None, st_newest = False, st_limit = 1\<rparr> d)"

definition repo_upsert :: "('r, 'd) sa_db \<Rightarrow> 'r \<Rightarrow> 'd \<Rightarrow> (exn + unit) \<times> 'd" where
  "repo_upsert db row d = then_do (sa_merge db row d) (\<lambda>_. sa_commit db)"

definition repo_anchor :: "iso_parser \<Rightarrow> string option \<Rightarrow> py_error + (iso_time \<times> string) option" where
  \<comment> \<open>an empty cursor counts as none\<close>
  "repo_anchor other cursor =
     (case cursor of
        Some (c # cs) \<Rightarrow> bind_result (decode_cursor (c # cs)) (\<lambda>(ts, i). map_ok (\<lambda>t. Some (t, i)) (fromisoformat other ts))
      | _ \<Rightarrow> Inr None)"

definition repo_page ::
  "('r, 'd) sa_db \<Rightarrow> iso_parser \<Rightarrow> int \<Rightarrow> string option \<Rightarrow> ('r \<Rightarrow> bool) list \<Rightarrow> 'd \<Rightarrow> exn + 'r list \<times> string option \<times> bool" where
  "repo_page db other limit cursor wher d =
     (case repo_anchor other cursor of
        Inl e \<Rightarrow> Inl (Py e)
      | Inr anchor \<Rightarrow>
          bind_result (sa_execute db \<lparr>st_where = wher, st_before = anchor, st_newest = True, st_limit = limit + 1\<rparr> d) (\<lambda>rows.
            let has_more = limit < int (length rows);
                rows = py_slice_to limit rows;
                next_cursor = (if has_more \<and> rows \<noteq> [] then Some (encode_cursor (sa_created_at db (last rows)) (sa_id db (last rows))) else None)
            in Inr (rows, next_cursor, has_more)))"

fun repo_iterate_all ::
  "nat \<Rightarrow> ('r, 'd) sa_db \<Rightarrow> iso_parser \<Rightarrow> int \<Rightarrow> ('r \<Rightarrow> bool) list \<Rightarrow> (nat \<Rightarrow> 'd) \<Rightarrow> nat \<Rightarrow> string option \<Rightarrow> ('r list \<times> exn option) option" where
  \<comment> \<open>the rows yielded and the exception that ended the scan; \<open>snap k\<close> is the table at the \<open>k\<close>-th page; \<open>None\<close>: the fuel does not suffice\<close>
  "repo_iterate_all 0 db other batch wher snap k cursor = None"
| "repo_iterate_all (Suc n) db other batch wher snap k cursor =
     (case repo_page db other batch cursor wher (snap k) of
        Inl e \<Rightarrow> Some ([], Some e)
      | Inr (rows, next_cursor, has_more) \<Rightarrow>
          if \<not> has_more \<or> next_cursor = None then Some (rows, None)
          else map_option (\<lambda>(rs, e). (rows @ rs, e)) (repo_iterate_all n db other batch wher snap (Suc k) next_cursor))"

definition repo_delete :: "('r, 'd) sa_db \<Rightarrow> string \<Rightarrow> 'd \<Rightarrow> (exn + unit) \<times> 'd" where
  "repo_delete db i d =
     then_do (sa_get db i d, d) (\<lambda>obj d.
       case obj of None \<Rightarrow> (Inr (), d) | Some row \<Rightarrow> then_do (sa_delete db row d) (\<lambda>_. sa_commit db))"

subsection \<open>PostgresAccountStore\<close>

record account_row =
  ar_id :: string
  ar_data :: "json dict"
  ar_tier :: int
  ar_revoked :: bool
  ar_created_at :: datetime
  ar_updated_at :: datetime

record 'a dto_model =
  \<comment> \<open>\<open>model_dump(mode="json")\<close> and \<open>model_validate\<close>\<close>
  dm_dump :: "'a \<Rightarrow> json dict"
  dm_validate :: "json dict \<Rightarrow> gexn + 'a"

definition pg_row :: "account dto_model \<Rightarrow> fernet option \<Rightarrow> nat \<Rightarrow> account \<Rightarrow> account_row" where
  "pg_row dm cipher seed a =
     (let d = dm_dump dm a;
          data = (case cipher of None \<Rightarrow> d | Some fn \<Rightarrow> dict_set d ''cookies'' (JStr (cipher_encrypt fn seed (ac_cookies a))))
      in \<lparr>ar_id = ac_account_id a, ar_data = data, ar_tier = int (tier_value (ac_tier a)), ar_revoked = ac_revoked a,
          ar_created_at = ac_created_at a, ar_updated_at = ac_updated_at a\<rparr>)"

definition pg_dto :: "(pyfloat \<Rightarrow> string) \<Rightarrow> (string \<Rightarrow> string) \<Rightarrow> account dto_model \<Rightarrow> fernet option \<Rightarrow> account_row \<Rightarrow> gexn + account" where
  "pg_dto fr jmsg dm cipher row =
     (case obj_get (ar_data row) ''cookies'' of
        JStr token \<Rightarrow>
          (case cipher of
             None \<Rightarrow> Inl (CookieDecryptError ''cookies are encrypted at rest but no COOKIE_ENCRYPTION_KEY is set'')
           | Some fn \<Rightarrow> bind_result (cipher_decrypt fr jmsg fn token) (\<lambda>c. dm_validate dm (dict_set (ar_data row) ''cookies'' (JObj (str_values c)))))
      | _ \<Rightarrow> dm_validate dm (ar_data row))"

definition lift_sdk :: "exn + 'a \<Rightarrow> gexn + 'a" where
  "lift_sdk r = (case r of Inl e \<Rightarrow> Inl (Sdk e) | Inr x \<Rightarrow> Inr x)"

definition pg_upsert ::
  "account dto_model \<Rightarrow> fernet option \<Rightarrow> (account_row, 'd) sa_db \<Rightarrow> nat \<Rightarrow> account \<Rightarrow> 'd \<Rightarrow> (exn + unit) \<times> 'd" where
  "pg_upsert dm cipher db seed a d = repo_upsert db (pg_row dm cipher seed a) d"

definition pg_get ::
  "(pyfloat \<Rightarrow> string) \<Rightarrow> (string \<Rightarrow> string) \<Rightarrow> account dto_model \<Rightarrow> fernet option \<Rightarrow> (account_row, 'd) sa_db \<Rightarrow> account_id \<Rightarrow> 'd \<Rightarrow> gexn + account option" where
  "pg_get fr jmsg dm cipher db i d =
     bind_result (lift_sdk (repo_get db i d)) (\<lambda>row.
       case row of None \<Rightarrow> Inr None | Some r \<Rightarrow> map_ok Some (pg_dto fr jmsg dm cipher r))"

definition pg_where :: "bool \<Rightarrow> (account_row \<Rightarrow> bool) list" where
  "pg_where include_revoked = (if include_revoked then [] else [\<lambda>r. \<not> ar_revoked r])"

definition pg_page ::
  "(pyfloat \<Rightarrow> string) \<Rightarrow> (string \<Rightarrow> string) \<Rightarrow> account dto_model \<Rightarrow> fernet option \<Rightarrow> (account_row, 'd) sa_db \<Rightarrow> iso_parser \<Rightarrow> bool \<Rightarrow> int \<Rightarrow> string option
     \<Rightarrow> 'd \<Rightarrow> gexn + account page" where
  "pg_page fr jmsg dm cipher db other include_revoked limit cursor d =
     bind_result (lift_sdk (repo_page db other limit cursor (pg_where include_revoked) d)) (\<lambda>(rows, next_cursor, has_more).
       map_ok (\<lambda>as. \<lparr>pg_data = as, pg_has_more = has_more, pg_cursor = next_cursor, pg_total = None\<rparr>) (map_result (pg_dto fr jmsg dm cipher) rows))"

fun yield_dtos :: "('r \<Rightarrow> gexn + 'a) \<Rightarrow> 'r list \<Rightarrow> gexn option \<Rightarrow> 'a list \<times> gexn option" where
  \<comment> \<open>a row that cannot be read ends the iteration\<close>
  "yield_dtos f [] e = ([], e)"
| "yield_dtos f (r # rs) e = (case f r of Inl x \<Rightarrow> ([], Some x) | Inr a \<Rightarrow> (case yield_dtos f rs e of (as, x) \<Rightarrow> (a # as, x)))"

definition pg_iterate_all ::
  "nat \<Rightarrow> (pyfloat \<Rightarrow> string) \<Rightarrow> (string \<Rightarrow> string) \<Rightarrow> account dto_model \<Rightarrow> fernet option \<Rightarrow> (account_row, 'd) sa_db \<Rightarrow> iso_parser \<Rightarrow> bool \<Rightarrow> (nat \<Rightarrow> 'd)
     \<Rightarrow> (account list \<times> gexn option) option" where
  "pg_iterate_all fuel fr jmsg dm cipher db other include_revoked snap =
     map_option (\<lambda>(rows, e). yield_dtos (pg_dto fr jmsg dm cipher) rows (map_option Sdk e))
       (repo_iterate_all fuel db other 500 (pg_where include_revoked) snap 0 None)"

definition pg_revoke ::
  "(pyfloat \<Rightarrow> string) \<Rightarrow> (string \<Rightarrow> string) \<Rightarrow> account dto_model \<Rightarrow> fernet option \<Rightarrow> (account_row, 'd) sa_db \<Rightarrow> nat \<Rightarrow> datetime \<Rightarrow> account_id \<Rightarrow> 'd
     \<Rightarrow> (gexn + unit) \<times> 'd" where
  "pg_revoke fr jmsg dm cipher db seed now i d =
     (case pg_get fr jmsg dm cipher db i d of
        Inl e \<Rightarrow> (Inl e, d)
      | Inr None \<Rightarrow> (Inr (), d)
      | Inr (Some a) \<Rightarrow> (case pg_upsert dm cipher db seed (a\<lparr>ac_revoked := True, ac_updated_at := now\<rparr>) d of (r, d') \<Rightarrow> (lift_sdk r, d')))"

subsection \<open>PostgresApiKeyStore\<close>

record key_row =
  kr_id :: string
  kr_data :: "json dict"
  kr_key_hash :: string
  kr_account_id :: string
  kr_revoked :: bool
  kr_created_at :: datetime
  kr_updated_at :: datetime

definition pgk_row :: "api_key dto_model \<Rightarrow> api_key \<Rightarrow> key_row" where
  "pgk_row dm k =
     \<lparr>kr_id = ak_key_id k, kr_data = dm_dump dm k, kr_key_hash = ak_key_hash k, kr_account_id = ak_account_id k, kr_revoked = ak_revoked k,
      kr_created_at = ak_created_at k, kr_updated_at = ak_created_at k\<rparr>"

definition pgk_dto :: "api_key dto_model \<Rightarrow> key_row \<Rightarrow> gexn + api_key" where
  "pgk_dto dm row = dm_validate dm (kr_data row)"

definition pgk_create :: "api_key dto_model \<Rightarrow> (key_row, 'd) sa_db \<Rightarrow> api_key \<Rightarrow> 'd \<Rightarrow> (exn + unit) \<times> 'd" where
  "pgk_create dm db k d = repo_upsert db (pgk_row dm k) d"

definition pgk_get :: "api_key dto_model \<Rightarrow> (key_row, 'd) sa_db \<Rightarrow> string \<Rightarrow> 'd \<Rightarrow> gexn + api_key option" where
  "pgk_get dm db i d =
     bind_result (lift_sdk (repo_get db i d)) (\<lambda>row. case row of None \<Rightarrow> Inr None | Some r \<Rightarrow> map_ok Some (pgk_dto dm r))"

definition pgk_get_by_hash :: "api_key dto_model \<Rightarrow> (key_row, 'd) sa_db \<Rightarrow> string \<Rightarrow> 'd \<Rightarrow> gexn + api_key option" where
  "pgk_get_by_hash dm db h d =
     bind_result (lift_sdk (repo_get_by db (\<lambda>r. kr_key_hash r = h) d)) (\<lambda>row. case row of None \<Rightarrow> Inr None | Some r \<Rightarrow> map_ok Some (pgk_dto dm r))"

definition pgk_page ::
  "api_key dto_model \<Rightarrow> (key_row, 'd) sa_db \<Rightarrow> iso_parser \<Rightarrow> account_id option \<Rightarrow> int \<Rightarrow> string option \<Rightarrow> 'd \<Rightarrow> gexn + api_key page" where
  "pgk_page dm db other acc limit cursor d =
     bind_result (lift_sdk (repo_page db other limit cursor (case acc of None \<Rightarrow> [] | Some a \<Rightarrow> [\<lambda>r. kr_account_id r = a]) d)) (\<lambda>(rows, next_cursor, has_more).
       map_ok (\<lambda>ks. \<lparr>pg_data = ks, pg_has_more = has_more, pg_cursor = next_cursor, pg_total = None\<rparr>) (map_result (pgk_dto dm) rows))"

definition pgk_change :: "api_key dto_model \<Rightarrow> (key_row, 'd) sa_db \<Rightarrow> (api_key \<Rightarrow> api_key) \<Rightarrow> string \<Rightarrow> 'd \<Rightarrow> (gexn + unit) \<times> 'd" where
  \<comment> \<open>\<open>revoke\<close> and \<open>touch\<close>: read, copy with an update, write back\<close>
  "pgk_change dm db f i d =
     (case pgk_get dm db i d of
        Inl e \<Rightarrow> (Inl e, d)
      | Inr None \<Rightarrow> (Inr (), d)
      | Inr (Some k) \<Rightarrow> (case pgk_create dm db (f k) d of (r, d') \<Rightarrow> (lift_sdk r, d')))"

definition pgk_revoke :: "api_key dto_model \<Rightarrow> (key_row, 'd) sa_db \<Rightarrow> string \<Rightarrow> 'd \<Rightarrow> (gexn + unit) \<times> 'd" where
  "pgk_revoke dm db i d = pgk_change dm db (\<lambda>k. k\<lparr>ak_revoked := True\<rparr>) i d"

definition pgk_touch :: "api_key dto_model \<Rightarrow> (key_row, 'd) sa_db \<Rightarrow> string \<Rightarrow> datetime \<Rightarrow> 'd \<Rightarrow> (gexn + unit) \<times> 'd" where
  "pgk_touch dm db i when d = pgk_change dm db (\<lambda>k. k\<lparr>ak_last_used_at := Some when\<rparr>) i d"

subsection \<open>What Postgres does\<close>

definition sa_order :: "('r, 'd) sa_db \<Rightarrow> 'r \<Rightarrow> datetime \<times> string" where
  "sa_order db r = (sa_created_at db r, sa_id db r)"

definition stmt_selects :: "('r, 'd) sa_db \<Rightarrow> 'r sa_stmt \<Rightarrow> 'r \<Rightarrow> bool" where
  "stmt_selects db st r \<longleftrightarrow> (\<forall>w \<in> set (st_where st). w r) \<and>
     (case st_before st of Some (Aware t, i) \<Rightarrow> sa_order db r < (t, i) | _ \<Rightarrow> True)"

definition comparable :: "(iso_time \<times> string) option \<Rightarrow> bool" where
  \<comment> \<open>a time without an offset is refused by the driver\<close>
  "comparable a \<longleftrightarrow> (case a of Some (Naive, i) \<Rightarrow> False | _ \<Rightarrow> True)"

definition table_laws :: "('r, 'd) sa_db \<Rightarrow> ('d \<Rightarrow> string \<Rightarrow> 'r option) \<Rightarrow> ('r \<Rightarrow> 'r) \<Rightarrow> ('r \<Rightarrow> 'r \<Rightarrow> bool) \<Rightarrow> bool" where
  \<comment> \<open>\<open>kept\<close> is what is read back of a row; \<open>clash\<close> are the rows that a unique column keeps apart\<close>
  "table_laws db tab kept clash \<longleftrightarrow>
     (\<forall>d i r. tab d i = Some r \<longrightarrow> sa_id db r = i) \<and>
     (\<forall>i d. sa_get db i d = Inr (tab d i)) \<and>
     (\<forall>row d. (\<forall>r \<in> ran (tab d). sa_id db r \<noteq> sa_id db row \<longrightarrow> \<not> clash row r) \<longrightarrow> (\<exists>d1 d2. sa_merge db row d = (Inr (), d1) \<and> sa_commit db d1 = (Inr (), d2) \<and> tab d2 = (tab d)(sa_id db row \<mapsto> kept row))) \<and>
     (\<forall>st d. 0 \<le> st_limit st \<and> comparable (st_before st) \<longrightarrow>
        (\<exists>rs. distinct rs \<and> set rs = {r \<in> ran (tab d). stmt_selects db st r} \<and> (st_newest st \<longrightarrow> sorted_wrt (\<lambda>r q. sa_order db q < sa_order db r) rs) \<and>
           sa_execute db st d = Inr (take (nat (st_limit st)) rs)))"

definition account_db :: "(account_row, 'd) sa_db \<Rightarrow> bool" where
  "account_db db \<longleftrightarrow> sa_id db = ar_id \<and> sa_created_at db = ar_created_at"

definition flat :: "json \<Rightarrow> bool" where
  "flat v \<longleftrightarrow> (case v of JObj d \<Rightarrow> False | JList xs \<Rightarrow> False | JFloat r \<Rightarrow> False | _ \<Rightarrow> True)"

definition jsonb_laws :: "(account_row \<Rightarrow> account_row) \<Rightarrow> bool" where
  \<comment> \<open>the columns are read back as they are; an object of scalars keeps its entries in some order\<close>
  "jsonb_laws kept \<longleftrightarrow> (\<forall>row. ar_id (kept row) = ar_id row \<and> ar_revoked (kept row) = ar_revoked row \<and> ar_created_at (kept row) = ar_created_at row \<and>
     ((\<forall>k v. dict_get (ar_data row) k = Some v \<longrightarrow> flat v) \<longrightarrow> map_of (ar_data (kept row)) = map_of (ar_data row)))"

definition account_ok :: "account \<Rightarrow> bool" where
  "account_ok a \<longleftrightarrow> dict_ok (ac_cookies a) \<and> dt_ok (ac_created_at a) \<and> dt_ok (ac_updated_at a)"

definition account_model :: "account dto_model \<Rightarrow> bool" where
  \<comment> \<open>pydantic: the jar is an object of strings, the other fields are scalars, and an object with the entries of a dump is read as the account\<close>
  "account_model dm \<longleftrightarrow> (\<forall>a. account_ok a \<longrightarrow> dict_get (dm_dump dm a) ''cookies'' = Some (JObj (str_values (ac_cookies a))) \<and>
     (\<forall>k v. k \<noteq> ''cookies'' \<longrightarrow> dict_get (dm_dump dm a) k = Some v \<longrightarrow> flat v) \<and>
     (\<forall>d. map_of d = map_of (dm_dump dm a) \<longrightarrow> dm_validate dm d = Inr a))"

definition fernet_laws :: "fernet \<Rightarrow> bool" where
  "fernet_laws fn \<longleftrightarrow> (\<forall>seed raw. fn_decrypt fn (fn_encrypt fn seed raw) = Some raw)"

lemma table_execute:
  assumes "table_laws db tab kept clash" and "0 \<le> st_limit st" and "comparable (st_before st)"
  shows "\<exists>rs. distinct rs \<and> set rs = {r \<in> ran (tab d). stmt_selects db st r} \<and> (st_newest st \<longrightarrow> sorted_wrt (\<lambda>r q. sa_order db q < sa_order db r) rs) \<and>
     sa_execute db st d = Inr (take (nat (st_limit st)) rs)"
  using assms unfolding table_laws_def by blast

lemma pg_roundtrip:
  \<comment> \<open>a written account is read back from what \<open>JSONB\<close> keeps of its row\<close>
  assumes "jsonb_laws kept" and "account_model dm" and "fernet_laws fn" and "account_ok a"
  shows "pg_dto fr jmsg dm (Some fn) (kept (pg_row dm (Some fn) seed a)) = Inr a"
proof -
  let ?tok = "JStr (cipher_encrypt fn seed (ac_cookies a))" and ?row = "pg_row dm (Some fn) seed a"
  have data: "map_of (ar_data ?row) = (map_of (dm_dump dm a))(''cookies'' \<mapsto> ?tok)" by (simp add: pg_row_def update_conv')
  have "flat v" if "dict_get (ar_data ?row) k = Some v" for k v
    using that assms(2,4) by (cases "k = ''cookies''") (auto simp: data account_model_def flat_def [of ?tok] flat_def)
  then have stored: "map_of (ar_data (kept ?row)) = (map_of (dm_dump dm a))(''cookies'' \<mapsto> ?tok)" using assms(1) data by (simp add: jsonb_laws_def)
  have dec: "cipher_decrypt fr jmsg fn (cipher_encrypt fn seed (ac_cookies a)) = Inr (ac_cookies a)"
    using assms(3,4) by (intro cipher_roundtrip) (simp_all add: fernet_laws_def account_ok_def)
  have "map_of (dict_set (ar_data (kept ?row)) ''cookies'' (JObj (str_values (ac_cookies a)))) = map_of (dm_dump dm a)"
    using assms(2,4) stored by (auto simp: update_conv' account_model_def fun_eq_iff)
  then have "dm_validate dm (dict_set (ar_data (kept ?row)) ''cookies'' (JObj (str_values (ac_cookies a)))) = Inr a"
    using assms(2,4) by (simp add: account_model_def)
  then show ?thesis by (simp add: pg_dto_def obj_get_def dict_getd_def stored dec bind_result_def)
qed

subsection \<open>The account store against memory\<close>

datatype account_op = AUpsert account nat | ARevoke account_id datetime nat

fun pg_step ::
  "(pyfloat \<Rightarrow> string) \<Rightarrow> (string \<Rightarrow> string) \<Rightarrow> account dto_model \<Rightarrow> fernet option \<Rightarrow> (account_row, 'd) sa_db \<Rightarrow> account_op \<Rightarrow> 'd \<Rightarrow> (gexn + unit) \<times> 'd" where
  "pg_step fr jmsg dm cipher db (AUpsert a seed) d = (case pg_upsert dm cipher db seed a d of (r, d') \<Rightarrow> (lift_sdk r, d'))"
| "pg_step fr jmsg dm cipher db (ARevoke i now seed) d = pg_revoke fr jmsg dm cipher db seed now i d"

fun mas_step :: "account_op \<Rightarrow> mem_accounts \<Rightarrow> mem_accounts" where
  "mas_step (AUpsert a seed) s = mas_upsert a s"
| "mas_step (ARevoke i now seed) s = mas_revoke i s"

fun account_op_ok :: "account_op \<Rightarrow> bool" where
  "account_op_ok (AUpsert a seed) = account_ok a"
| "account_op_ok (ARevoke i now seed) = dt_ok now"

definition timeless :: "account \<Rightarrow> account" where
  \<comment> \<open>an account up to the time of its last change\<close>
  "timeless a = a\<lparr>ac_updated_at := ac_created_at a\<rparr>"

definition row_holds ::
  "(pyfloat \<Rightarrow> string) \<Rightarrow> (string \<Rightarrow> string) \<Rightarrow> account dto_model \<Rightarrow> fernet option \<Rightarrow> account_row \<Rightarrow> account \<Rightarrow> bool" where
  "row_holds fr jmsg dm cipher row a \<longleftrightarrow>
     (\<exists>b. pg_dto fr jmsg dm cipher row = Inr b \<and> timeless b = timeless a \<and> account_ok b) \<and>
     ar_id row = ac_account_id a \<and> ar_revoked row = ac_revoked a \<and> ar_created_at row = ac_created_at a"

definition pg_sim ::
  "(pyfloat \<Rightarrow> string) \<Rightarrow> (string \<Rightarrow> string) \<Rightarrow> account dto_model \<Rightarrow> fernet option \<Rightarrow> ('d \<Rightarrow> string \<Rightarrow> account_row option) \<Rightarrow> 'd \<Rightarrow> mem_accounts \<Rightarrow> bool" where
  "pg_sim fr jmsg dm cipher tab d s \<longleftrightarrow> mas_inv s \<and> (\<forall>i. rel_option (row_holds fr jmsg dm cipher) (tab d i) (dict_get s i))"

lemma timeless_fields:
  "timeless b = timeless a \<Longrightarrow> ac_account_id b = ac_account_id a \<and> ac_revoked b = ac_revoked a \<and> ac_created_at b = ac_created_at a \<and> ac_cookies b = ac_cookies a"
  by (cases a; cases b) (simp add: timeless_def)

lemma timeless_revoke: "timeless b = timeless a \<Longrightarrow> timeless (b\<lparr>ac_revoked := True, ac_updated_at := now\<rparr>) = timeless (a\<lparr>ac_revoked := True\<rparr>)"
  by (cases a; cases b) (simp add: timeless_def)

lemma mas_inv_get: "mas_inv s \<Longrightarrow> dict_get s i = Some a \<Longrightarrow> ac_account_id a = i \<and> dt_ok (ac_created_at a)"
  by (auto simp: mas_inv_def dest!: map_of_SomeD)

lemma mas_inv_set: "mas_inv s \<Longrightarrow> ac_account_id a = i \<Longrightarrow> dt_ok (ac_created_at a) \<Longrightarrow> mas_inv (dict_set s i a)"
  using dict_set_subset [of i a s] by (fastforce simp: mas_inv_def)

lemma pg_write_sim:
  assumes laws: "table_laws db tab kept (\<lambda>_ _. False)" "account_db db" "jsonb_laws kept" "account_model dm" "fernet_laws fn"
    and sim: "pg_sim fr jmsg dm (Some fn) tab d s" and b: "account_ok b" and a: "timeless b = timeless a" "dt_ok (ac_created_at a)"
  shows "\<exists>d'. pg_upsert dm (Some fn) db seed b d = (Inr (), d') \<and> pg_sim fr jmsg dm (Some fn) tab d' (dict_set s (ac_account_id a) a)"
proof -
  let ?row = "pg_row dm (Some fn) seed b"
  note f = timeless_fields [OF a(1)]
  obtain d1 d2 where d: "sa_merge db ?row d = (Inr (), d1)" "sa_commit db d1 = (Inr (), d2)" "tab d2 = (tab d)(sa_id db ?row \<mapsto> kept ?row)"
    using laws(1) unfolding table_laws_def by blast
  have id: "sa_id db ?row = ac_account_id a" using laws(2) f by (simp add: account_db_def pg_row_def)
  have "row_holds fr jmsg dm (Some fn) (kept ?row) a"
    using pg_roundtrip [OF laws(3-5) b, of fr jmsg seed] laws(3) a b f by (simp add: row_holds_def jsonb_laws_def pg_row_def)
  then have "rel_option (row_holds fr jmsg dm (Some fn)) (tab d2 i) (dict_get (dict_set s (ac_account_id a) a) i)" for i
    using sim d(3) id by (simp add: pg_sim_def update_conv')
  then show ?thesis
    using d(1,2) mas_inv_set [of s a "ac_account_id a"] sim a(2) by (simp add: pg_upsert_def repo_upsert_def pg_sim_def)
qed

lemma pg_get_sim:
  assumes "table_laws db tab kept (\<lambda>_ _. False)" and "pg_sim fr jmsg dm cipher tab d s"
  shows "\<exists>x. pg_get fr jmsg dm cipher db i d = Inr x \<and> map_option timeless x = map_option timeless (mas_get i s) \<and> (\<forall>b. x = Some b \<longrightarrow> account_ok b)"
proof -
  have get: "repo_get db i d = Inr (tab d i)" using assms(1) by (simp add: table_laws_def repo_get_def)
  have rel: "rel_option (row_holds fr jmsg dm cipher) (tab d i) (dict_get s i)" using assms(2) by (simp add: pg_sim_def)
  then show ?thesis
    by (cases "tab d i"; cases "dict_get s i") (auto simp: pg_get_def get lift_sdk_def bind_result_def mas_get_def row_holds_def map_ok_def)
qed

lemma pg_step_sim:
  assumes laws: "table_laws db tab kept (\<lambda>_ _. False)" "account_db db" "jsonb_laws kept" "account_model dm" "fernet_laws fn"
    and sim: "pg_sim fr jmsg dm (Some fn) tab d s" and ok: "account_op_ok op"
  shows "\<exists>d'. pg_step fr jmsg dm (Some fn) db op d = (Inr (), d') \<and> pg_sim fr jmsg dm (Some fn) tab d' (mas_step op s)"
proof (cases op)
  case (AUpsert a seed)
  then show ?thesis using pg_write_sim [OF laws sim, of a a seed] ok by (auto simp: lift_sdk_def mas_upsert_def account_ok_def)
next
  case (ARevoke i now seed)
  obtain x where x: "pg_get fr jmsg dm (Some fn) db i d = Inr x" "map_option timeless x = map_option timeless (mas_get i s)" "\<forall>b. x = Some b \<longrightarrow> account_ok b"
    using pg_get_sim [OF laws(1) sim] by blast
  show ?thesis
  proof (cases x)
    case None
    then show ?thesis using ARevoke x sim by (simp add: pg_revoke_def mas_revoke_def mas_get_def)
  next
    case (Some b)
    then obtain a where a: "dict_get s i = Some a" "timeless b = timeless a" using x(2) by (cases "dict_get s i") (simp_all add: mas_get_def)
    have inv: "ac_account_id a = i" "dt_ok (ac_created_at a)" using mas_inv_get [OF _ a(1)] sim by (auto simp: pg_sim_def)
    from pg_write_sim [OF laws sim, of "b\<lparr>ac_revoked := True, ac_updated_at := now\<rparr>" "a\<lparr>ac_revoked := True\<rparr>" seed] timeless_revoke [OF a(2), of now] x(3) Some inv ok ARevoke
    show ?thesis using ARevoke x(1) a(1) by (auto simp: pg_revoke_def mas_revoke_def lift_sdk_def account_ok_def)
  qed
qed

subsection \<open>Pages\<close>

lemma descending_unique:
  \<comment> \<open>two strictly descending lists with the same keys\<close>
  assumes "sorted_wrt (\<lambda>x y. f y < f x) xs" and "sorted_wrt (\<lambda>x y. g y < g x) ys" and "f ` set xs = g ` set ys"
  shows "map f xs = map (g :: 'b \<Rightarrow> 'k :: linorder) ys"
proof -
  have "sorted_wrt (<) (rev (map f xs))" "sorted_wrt (<) (rev (map g ys))" using assms(1,2) by (simp_all add: sorted_wrt_rev sorted_wrt_map)
  then have "rev (map f xs) = rev (map g ys)" using assms(3) by (intro strict_sorted_equal) simp_all
  then show ?thesis by simp
qed

lemma map_eq_list_all2:
  "map f xs = map g ys \<Longrightarrow> (\<And>x y. x \<in> set xs \<Longrightarrow> y \<in> set ys \<Longrightarrow> f x = g y \<Longrightarrow> P x y) \<Longrightarrow> list_all2 P xs ys"
proof (induction xs arbitrary: ys)
  case (Cons x xs)
  then show ?case by (cases ys) auto
qed simp

fun aware_anchor :: "(iso_time \<times> string) option \<Rightarrow> (datetime \<times> string) option" where
  "aware_anchor (Some (Aware t, i)) = Some (t, i)"
| "aware_anchor _ = None"

lemma paginate_anchor:
  "paginate other rows limit cursor =
     (case repo_anchor other cursor of
        Inl e \<Rightarrow> Inl e
      | Inr a \<Rightarrow> if comparable a then Inr (cut_page (below (aware_anchor a) (sort_rows rows)) limit)
                else bind_result (rows_before Naive [] (sort_rows rows)) (\<lambda>rows. Inr (cut_page rows limit)))"
  by (auto simp: paginate_def repo_anchor_def below_def rows_before_def bind_result_def map_ok_def comparable_def
      split: option.split list.split sum.split prod.split iso_time.split)

lemma pg_sim_row:
  assumes "table_laws db tab kept (\<lambda>_ _. False)" and "account_db db" and "pg_sim fr jmsg dm cipher tab d s" and "r \<in> ran (tab d)"
  obtains a where "a \<in> snd ` set s" and "row_holds fr jmsg dm cipher r a" and "sa_order db r = account_key a"
proof -
  obtain i where i: "tab d i = Some r" using assms(4) by (auto simp: ran_def)
  have "rel_option (row_holds fr jmsg dm cipher) (tab d i) (dict_get s i)" using assms(3) by (simp add: pg_sim_def)
  then obtain a where a: "dict_get s i = Some a" "row_holds fr jmsg dm cipher r a" using i by (cases "dict_get s i") simp_all
  show ?thesis
    by (rule that [of a]) (use a assms(2) in \<open>auto simp: account_key_def sa_order_def account_db_def row_holds_def dest!: map_of_SomeD intro: rev_image_eqI\<close>)
qed

lemma pg_sim_account:
  assumes "table_laws db tab kept (\<lambda>_ _. False)" and "account_db db" and "pg_sim fr jmsg dm cipher tab d s" and "a \<in> snd ` set s"
  shows "\<exists>r. tab d (ac_account_id a) = Some r \<and> row_holds fr jmsg dm cipher r a \<and> sa_order db r = account_key a"
proof -
  have inv: "mas_inv s" using assms(3) by (simp add: pg_sim_def)
  obtain i where i: "(i, a) \<in> set s" using assms(4) by force
  then have "dict_get s i = Some a" "ac_account_id a = i" using inv by (auto simp: mas_inv_def dict_get_in_iff)
  moreover have "rel_option (row_holds fr jmsg dm cipher) (tab d i) (dict_get s i)" using assms(3) by (simp add: pg_sim_def)
  ultimately obtain r where r: "tab d (ac_account_id a) = Some r" "row_holds fr jmsg dm cipher r a" by (cases "tab d i") simp_all
  then show ?thesis using assms(2) by (auto simp: account_key_def sa_order_def account_db_def row_holds_def)
qed

definition page_stmt :: "bool \<Rightarrow> (iso_time \<times> string) option \<Rightarrow> int \<Rightarrow> account_row sa_stmt" where
  "page_stmt inc anchor n = \<lparr>st_where = pg_where inc, st_before = anchor, st_newest = True, st_limit = n\<rparr>"

lemma page_rows_sim:
  \<comment> \<open>the rows a page statement selects, newest first, are those of the memory store\<close>
  assumes laws: "table_laws db tab kept (\<lambda>_ _. False)" "account_db db" and sim: "pg_sim fr jmsg dm cipher tab d s"
    and cmp: "comparable anchor" and n: "0 \<le> n"
  shows "\<exists>rs. sa_execute db (page_stmt inc anchor n) d = Inr (take (nat n) rs) \<and>
     list_all2 (\<lambda>r q. sa_order db r = row_key q \<and> row_holds fr jmsg dm cipher r (snd (snd q)) \<and> dt_ok (fst (row_key q))) rs
       (below (aware_anchor anchor) (sort_rows (rows_of account_key (mas_visible inc s))))"
proof -
  let ?st = "page_stmt inc anchor n" and ?Q = "below (aware_anchor anchor) (sort_rows (rows_of account_key (mas_visible inc s)))"
  have inv: "mas_inv s" using sim by (simp add: pg_sim_def)
  obtain rs where rs: "set rs = {r \<in> ran (tab d). stmt_selects db ?st r}" "sorted_wrt (\<lambda>r q. sa_order db q < sa_order db r) rs"
      "sa_execute db ?st d = Inr (take (nat n) rs)"
    using table_execute [OF laws(1), of ?st d] cmp n unfolding page_stmt_def by auto
  have sel: "stmt_selects db ?st r \<longleftrightarrow> (inc \<or> \<not> ar_revoked r) \<and> (\<forall>k. aware_anchor anchor = Some k \<longrightarrow> sa_order db r < k)" for r
    by (cases anchor rule: aware_anchor.cases) (use cmp in \<open>auto simp: stmt_selects_def page_stmt_def pg_where_def comparable_def\<close>)
  have vis: "a \<in> set (mas_visible inc s) \<longleftrightarrow> a \<in> snd ` set s \<and> (inc \<or> \<not> ac_revoked a)" for a by (auto simp: mas_visible_def)
  have rk: "row_key (fst (account_key a), snd (account_key a), a) = account_key a" for a by (simp add: row_key_def)
  have Q: "q \<in> set ?Q \<longleftrightarrow> (\<exists>a \<in> set (mas_visible inc s). q = (fst (account_key a), snd (account_key a), a) \<and> (\<forall>k. aware_anchor anchor = Some k \<longrightarrow> account_key a < k))" for q
    unfolding below_mem sort_rows_set rows_of_def set_map image_iff by (auto simp: rk)
  have keys: "sa_order db ` set rs = row_key ` set ?Q"
  proof (intro equalityI subsetI)
    fix k assume "k \<in> sa_order db ` set rs"
    then obtain r where r: "r \<in> ran (tab d)" "stmt_selects db ?st r" "k = sa_order db r" using rs(1) by auto
    from pg_sim_row [OF laws sim r(1)] obtain a where a: "a \<in> snd ` set s" "row_holds fr jmsg dm cipher r a" "sa_order db r = account_key a" .
    have "a \<in> set (mas_visible inc s)" using r(2) a unfolding vis sel by (simp add: row_holds_def)
    then have "(fst (account_key a), snd (account_key a), a) \<in> set ?Q" using r(2) a(3) unfolding Q sel by auto
    then show "k \<in> row_key ` set ?Q" using r(3) a(3) by (auto simp: rk intro!: rev_image_eqI)
  next
    fix k assume "k \<in> row_key ` set ?Q"
    then obtain a where a: "a \<in> snd ` set s" "inc \<or> \<not> ac_revoked a" "\<forall>k. aware_anchor anchor = Some k \<longrightarrow> account_key a < k" "k = account_key a"
      unfolding image_iff Q Bex_def vis by (auto simp: rk)
    from pg_sim_account [OF laws sim a(1)] obtain r where "tab d (ac_account_id a) = Some r" "row_holds fr jmsg dm cipher r a" "sa_order db r = account_key a" by blast
    then show "k \<in> sa_order db ` set rs" using a unfolding rs(1) by (intro rev_image_eqI [of r]) (auto simp: sel ranI row_holds_def)
  qed
  have "map (sa_order db) rs = map row_key ?Q"
    by (rule descending_unique [OF rs(2) _ keys]) (intro descending_below sort_rows_descending rows_of_distinct mas_table_ok inv)
  then have "list_all2 (\<lambda>r q. sa_order db r = row_key q \<and> row_holds fr jmsg dm cipher r (snd (snd q)) \<and> dt_ok (fst (row_key q))) rs ?Q"
  proof (rule map_eq_list_all2)
    fix r q assume r: "r \<in> set rs" and q: "q \<in> set ?Q" and eq: "sa_order db r = row_key q"
    obtain a where a: "a \<in> snd ` set s" "q = (fst (account_key a), snd (account_key a), a)" using q unfolding Q Bex_def vis by blast
    obtain r' where r': "tab d (ac_account_id a) = Some r'" "row_holds fr jmsg dm cipher r' a" "sa_order db r' = account_key a"
      using pg_sim_account [OF laws sim a(1)] by blast
    obtain i where i: "tab d i = Some r" using r rs(1) by (auto simp: ran_def)
    have "sa_id db r = i" using laws(1) i by (simp add: table_laws_def)
    moreover have "sa_id db r = ac_account_id a" using eq a(2) by (simp add: sa_order_def row_key_def account_key_def)
    ultimately have "r = r'" using i r'(1) by simp
    moreover have "dt_ok (ac_created_at a)" using a(1) inv by (auto simp: mas_inv_def)
    ultimately show "sa_order db r = row_key q \<and> row_holds fr jmsg dm cipher r (snd (snd q)) \<and> dt_ok (fst (row_key q))"
      using eq r'(2) a(2) by (simp add: row_key_def account_key_def)
  qed
  then show ?thesis using rs(3) by blast
qed

lemma list_all2_last: "list_all2 P xs ys \<Longrightarrow> xs \<noteq> [] \<Longrightarrow> P (last xs) (last ys)"
  by (induction rule: list_all2_induct) auto

lemma repo_page_sim:
  assumes laws: "table_laws db tab kept (\<lambda>_ _. False)" "account_db db" and sim: "pg_sim fr jmsg dm cipher tab d s"
    and anchor: "repo_anchor other cursor = Inr anchor" "comparable anchor" and limit: "0 \<le> limit"
  shows "\<exists>rows q. repo_page db other limit cursor (pg_where inc) d = Inr (rows, pg_cursor q, pg_has_more q) \<and> mas_page other inc limit cursor s = Inr q \<and>
     list_all2 (row_holds fr jmsg dm cipher) rows (pg_data q) \<and> pg_total q = None \<and>
     (\<forall>c. pg_cursor q = Some c \<longrightarrow> (\<exists>t i. dt_ok t \<and> c = encode_cursor t i))"
proof -
  let ?Q = "below (aware_anchor anchor) (sort_rows (rows_of account_key (mas_visible inc s)))"
  let ?P = "\<lambda>r q. sa_order db r = row_key q \<and> row_holds fr jmsg dm cipher r (snd (snd q)) \<and> dt_ok (fst (row_key q))"
  obtain rs where rs: "sa_execute db (page_stmt inc anchor (limit + 1)) d = Inr (take (nat (limit + 1)) rs)" "list_all2 ?P rs ?Q"
    using page_rows_sim [OF laws sim anchor(2), of "limit + 1" inc] limit by auto
  let ?rows = "take (nat limit) rs" and ?q = "cut_page ?Q limit"
  have mem: "mas_page other inc limit cursor s = Inr ?q" by (simp add: mas_page_def paginate_anchor anchor)
  have part: "list_all2 ?P ?rows (take (nat limit) ?Q)" using rs(2) by (rule list_all2_takeI)
  have data: "pg_data ?q = map (\<lambda>r. snd (snd r)) (take (nat limit) ?Q)" using limit by (simp add: cut_page_def Let_def py_slice_to_def)
  have "list_all2 (row_holds fr jmsg dm cipher) ?rows (pg_data ?q)" unfolding data list.rel_map using part by (rule list_all2_mono) blast
  moreover have more: "pg_has_more ?q = (limit < int (length (take (nat (limit + 1)) rs)))"
    using list_all2_lengthD [OF rs(2)] limit by (auto simp: cut_page_def Let_def)
  moreover have rows: "py_slice_to limit (take (nat (limit + 1)) rs) = ?rows" using limit by (simp add: py_slice_to_def min_def)
  moreover have ne: "?rows = [] \<longleftrightarrow> take (nat limit) ?Q = []" using list_all2_lengthD [OF part] by (metis length_0_conv)
  moreover have cur: "pg_cursor ?q = (if pg_has_more ?q \<and> ?rows \<noteq> [] then Some (encode_cursor (sa_created_at db (last ?rows)) (sa_id db (last ?rows))) else None)"
    using list_all2_last [OF part] limit ne by (auto simp: cut_page_def Let_def py_slice_to_def sa_order_def row_key_def)
  moreover have "dt_ok (sa_created_at db (last ?rows))" if "?rows \<noteq> []" using list_all2_last [OF part that] by (metis fst_conv sa_order_def)
  ultimately have "repo_page db other limit cursor (pg_where inc) d = Inr (?rows, pg_cursor ?q, pg_has_more ?q)"
    "\<forall>c. pg_cursor ?q = Some c \<longrightarrow> (\<exists>t i. dt_ok t \<and> c = encode_cursor t i)"
    using rs(1) unfolding repo_page_def anchor page_stmt_def by (auto simp: Let_def)
  then show ?thesis using mem \<open>list_all2 (row_holds fr jmsg dm cipher) ?rows (pg_data ?q)\<close> by (intro exI [of _ ?rows] exI [of _ ?q]) (simp add: cut_page_def Let_def)
qed

definition timeless_page :: "account page \<Rightarrow> account page" where
  "timeless_page p = p\<lparr>pg_data := map timeless (pg_data p)\<rparr>"

lemma dtos_sim:
  assumes "list_all2 (row_holds fr jmsg dm cipher) rows as"
  shows "\<exists>bs. map_result (pg_dto fr jmsg dm cipher) rows = Inr bs \<and> (\<forall>e. yield_dtos (pg_dto fr jmsg dm cipher) rows e = (bs, e)) \<and> map timeless bs = map timeless as"
  using assms
proof (induction rule: list_all2_induct)
  case (Cons r rows a as)
  then obtain b bs where "pg_dto fr jmsg dm cipher r = Inr b" "timeless b = timeless a"
    "map_result (pg_dto fr jmsg dm cipher) rows = Inr bs" "\<forall>e. yield_dtos (pg_dto fr jmsg dm cipher) rows e = (bs, e)" "map timeless bs = map timeless as"
    by (auto simp: row_holds_def)
  then show ?case by (intro exI [of _ "b # bs"]) simp
qed simp

definition cursor_aware :: "iso_parser \<Rightarrow> string option \<Rightarrow> bool" where
  "cursor_aware other cursor \<longleftrightarrow> (case repo_anchor other cursor of Inl e \<Rightarrow> True | Inr a \<Rightarrow> comparable a)"

lemma pg_page_sim:
  assumes "table_laws db tab kept (\<lambda>_ _. False)" "account_db db" "pg_sim fr jmsg dm cipher tab d s" "cursor_aware other cursor" "0 \<le> limit"
  shows "case mas_page other inc limit cursor s of
     Inl e \<Rightarrow> pg_page fr jmsg dm cipher db other inc limit cursor d = Inl (Sdk (Py e))
   | Inr q \<Rightarrow> \<exists>p. pg_page fr jmsg dm cipher db other inc limit cursor d = Inr p \<and> timeless_page p = timeless_page q"
proof (cases "repo_anchor other cursor")
  case (Inl e)
  then show ?thesis by (simp add: mas_page_def paginate_anchor pg_page_def repo_page_def lift_sdk_def)
next
  case (Inr anchor)
  then have "comparable anchor" using assms(4) by (simp add: cursor_aware_def)
  from repo_page_sim [OF assms(1-3) Inr this assms(5), of inc] obtain rows q where q: "repo_page db other limit cursor (pg_where inc) d = Inr (rows, pg_cursor q, pg_has_more q)"
    "mas_page other inc limit cursor s = Inr q" "list_all2 (row_holds fr jmsg dm cipher) rows (pg_data q)" "pg_total q = None" by blast
  from dtos_sim [OF q(3)] obtain bs where "map_result (pg_dto fr jmsg dm cipher) rows = Inr bs" "map timeless bs = map timeless (pg_data q)" by blast
  then show ?thesis using q by (simp add: pg_page_def lift_sdk_def map_ok_def timeless_page_def)
qed

lemma encoded_anchor: "dt_ok t \<Longrightarrow> repo_anchor other (Some (encode_cursor t i)) = Inr (Some (Aware t, i))"
  using encode_cursor_not_empty [of t i] decode_encode_cursor [of t i]
  by (auto simp: repo_anchor_def fromisoformat_def parse_utc_isoformat map_ok_def)

lemma repo_iterate_sim:
  assumes laws: "table_laws db tab kept (\<lambda>_ _. False)" "account_db db" and sim: "\<And>k. pg_sim fr jmsg dm cipher tab (snap k) (mem k)"
    and cursor: "cursor = None \<or> (\<exists>t i. dt_ok t \<and> cursor = Some (encode_cursor t i))" and batch: "0 \<le> batch"
  shows "rel_option (\<lambda>(rows, e) (as, x). list_all2 (row_holds fr jmsg dm cipher) rows as \<and> e = None \<and> x = None)
     (repo_iterate_all fuel db other batch (pg_where inc) snap k cursor) (iterate_pages fuel (\<lambda>k cursor. mas_page other inc batch cursor (mem k)) k cursor)"
  using cursor
proof (induction fuel arbitrary: k cursor)
  case (Suc fuel)
  obtain anchor where a: "repo_anchor other cursor = Inr anchor" "comparable anchor"
    using Suc.prems encoded_anchor by (fastforce simp: repo_anchor_def comparable_def)
  from repo_page_sim [OF laws sim [of k] a batch, of inc] obtain rows q where q: "repo_page db other batch cursor (pg_where inc) (snap k) = Inr (rows, pg_cursor q, pg_has_more q)"
    "mas_page other inc batch cursor (mem k) = Inr q" "list_all2 (row_holds fr jmsg dm cipher) rows (pg_data q)" "\<forall>c. pg_cursor q = Some c \<longrightarrow> (\<exists>t i. dt_ok t \<and> c = encode_cursor t i)" by blast
  show ?case
  proof (cases "pg_has_more q \<and> pg_cursor q \<noteq> None")
    case False
    then show ?thesis using q by auto
  next
    case True
    have "rel_option (\<lambda>(rows, e) (as, x). list_all2 (row_holds fr jmsg dm cipher) rows as \<and> e = None \<and> x = None)
      (repo_iterate_all fuel db other batch (pg_where inc) snap (Suc k) (pg_cursor q)) (iterate_pages fuel (\<lambda>k cursor. mas_page other inc batch cursor (mem k)) (Suc k) (pg_cursor q))"
      using q(4) True by (intro Suc.IH) auto
    then show ?thesis
      using q(1-3) True by (auto simp: option.rel_map elim!: option.rel_mono_strong intro: list_all2_appendI)
  qed
qed simp

lemma pg_iterate_sim:
  assumes "table_laws db tab kept (\<lambda>_ _. False)" "account_db db" and "\<And>k. pg_sim fr jmsg dm cipher tab (snap k) (mem k)"
  shows "rel_option (\<lambda>(bs, e) (as, x). map timeless bs = map timeless as \<and> e = None \<and> x = None)
     (pg_iterate_all fuel fr jmsg dm cipher db other inc snap) (mas_iterate_all fuel other inc mem)"
proof -
  have "rel_option (\<lambda>(rows, e) (as, x). list_all2 (row_holds fr jmsg dm cipher) rows as \<and> e = None \<and> x = None)
     (repo_iterate_all fuel db other 500 (pg_where inc) snap 0 None) (mas_iterate_all fuel other inc mem)"
    using repo_iterate_sim [OF assms, where cursor = None and batch = 500 and k = 0 and fuel = fuel and other = other and inc = inc] by (simp add: mas_iterate_all_def)
  then show ?thesis
    unfolding pg_iterate_all_def option.rel_map using dtos_sim by (elim option.rel_mono_strong) (fastforce simp: case_prod_unfold)
qed


subsection \<open>A table in memory\<close>

definition list_rows :: "('r \<Rightarrow> string) \<Rightarrow> 'r list \<Rightarrow> 'r list" where
  "list_rows idf d = filter (\<lambda>r. find (\<lambda>q. idf q = idf r) d = Some r) (remdups d)"

definition list_table :: "('r \<Rightarrow> string) \<Rightarrow> ('r \<Rightarrow> datetime) \<Rightarrow> ('r, 'r list) sa_db" where
  "list_table idf crf =
     \<lparr>sa_get = \<lambda>i d. Inr (find (\<lambda>q. idf q = i) d),
      sa_execute = \<lambda>st d. Inr (take (nat (st_limit st)) (rev (sort_key (\<lambda>r. (crf r, idf r)) (filter (\<lambda>r. list_all (\<lambda>w. w r) (st_where st) \<and>
        (case st_before st of Some (Aware t, i) \<Rightarrow> (crf r, idf r) < (t, i) | _ \<Rightarrow> True)) (list_rows idf d))))),
      sa_merge = \<lambda>row d. (Inr (), row # d),
      sa_delete = \<lambda>row d. (Inr (), filter (\<lambda>q. idf q \<noteq> idf row) d),
      sa_commit = \<lambda>d. (Inr (), d), sa_id = idf, sa_created_at = crf\<rparr>"

definition list_lookup :: "('r \<Rightarrow> string) \<Rightarrow> 'r list \<Rightarrow> string \<Rightarrow> 'r option" where
  "list_lookup idf d i = find (\<lambda>q. idf q = i) d"

lemma list_rows_ran: "set (list_rows idf d) = ran (list_lookup idf d)"
  by (auto simp: list_rows_def list_lookup_def ran_def find_Some_iff)

lemma list_table_laws: "table_laws (list_table idf crf) (list_lookup idf) (\<lambda>r. r) clash"
  unfolding table_laws_def
proof (intro conjI allI impI)
  show "sa_id (list_table idf crf) r = i" if "list_lookup idf d i = Some r" for d i r
    using that by (auto simp: list_table_def list_lookup_def find_Some_iff)
  show "\<exists>d1 d2. sa_merge (list_table idf crf) row d = (Inr (), d1) \<and> sa_commit (list_table idf crf) d1 = (Inr (), d2) \<and>
     list_lookup idf d2 = (list_lookup idf d)(sa_id (list_table idf crf) row \<mapsto> row)" for row d
    by (auto simp: list_table_def list_lookup_def fun_eq_iff)
  fix st :: "'a sa_stmt" and d
  let ?db = "list_table idf crf"
  let ?rs = "rev (sort_key (sa_order ?db) (filter (stmt_selects ?db st) (list_rows idf d)))"
  have ord: "sa_order ?db = (\<lambda>r. (crf r, idf r))" by (simp add: fun_eq_iff sa_order_def list_table_def)
  have sel: "stmt_selects ?db st = (\<lambda>r. list_all (\<lambda>w. w r) (st_where st) \<and> (case st_before st of Some (Aware t, i) \<Rightarrow> (crf r, idf r) < (t, i) | _ \<Rightarrow> True))"
    unfolding fun_eq_iff stmt_selects_def ord list_all_iff by simp
  have "inj_on (sa_order ?db) (set (list_rows idf d))"
  proof (rule inj_onI)
    fix r q assume r: "r \<in> set (list_rows idf d)" and q: "q \<in> set (list_rows idf d)" and eq: "sa_order ?db r = sa_order ?db q"
    have "find (\<lambda>x. idf x = idf y) d = Some y" if "y \<in> set (list_rows idf d)" for y using that unfolding list_rows_def by simp
    from this [OF r] this [OF q] have "find (\<lambda>x. idf x = idf r) d = Some r" "find (\<lambda>x. idf x = idf q) d = Some q" .
    moreover have "idf r = idf q" using eq unfolding sa_order_def list_table_def by simp
    ultimately show "r = q" by (metis option.inject)
  qed
  then have "distinct (map (sa_order ?db) (rev ?rs))" by (auto simp: distinct_map list_rows_def intro: inj_on_subset)
  then have "sorted_wrt (<) (map (sa_order ?db) (rev ?rs))" unfolding strict_sorted_iff by simp
  then have "sorted_wrt (\<lambda>r q. sa_order ?db q < sa_order ?db r) ?rs" by (simp add: sorted_wrt_rev sorted_wrt_map)
  moreover have "sa_execute ?db st d = Inr (take (nat (st_limit st)) ?rs)"
    unfolding sel ord by (simp add: list_table_def)
  moreover have "distinct ?rs" "set ?rs = {r \<in> ran (list_lookup idf d). stmt_selects ?db st r}"
    by (auto simp: list_rows_ran [symmetric] list_rows_def)
  ultimately show "\<exists>rs. distinct rs \<and> set rs = {r \<in> ran (list_lookup idf d). stmt_selects ?db st r} \<and>
     (st_newest st \<longrightarrow> sorted_wrt (\<lambda>r q. sa_order ?db q < sa_order ?db r) rs) \<and> sa_execute ?db st d = Inr (take (nat (st_limit st)) rs)"
    by blast
qed (simp add: list_table_def list_lookup_def)

definition opt_text :: "string option \<Rightarrow> json" where
  "opt_text v = (case v of None \<Rightarrow> JNull | Some s \<Rightarrow> JStr s)"

definition text_opt :: "json \<Rightarrow> string option" where
  "text_opt v = (case v of JStr s \<Rightarrow> Some s | _ \<Rightarrow> None)"

lemma text_opt_inverse [simp]: "text_opt (opt_text v) = v"
  by (simp add: text_opt_def opt_text_def split: option.split)

lemma text_opt_JStr [simp]: "text_opt (JStr s) = Some s"
  by (simp add: text_opt_def)

definition stamp_json :: "datetime \<Rightarrow> json" where
  "stamp_json t = JStr (isoformat t)"

definition json_stamp :: "json \<Rightarrow> datetime" where
  "json_stamp v = (case Option.bind (text_opt v) parse_utc of Some t \<Rightarrow> t | None \<Rightarrow> DT 1 1 1 0 0 0 0)"

lemma json_stamp_inverse [simp]: "dt_ok t \<Longrightarrow> json_stamp (stamp_json t) = t"
  by (simp add: json_stamp_def stamp_json_def text_opt_def parse_utc_isoformat)

definition demo_account_model :: "account dto_model" where
  "demo_account_model =
     \<lparr>dm_dump = \<lambda>a. [(''account_id'', JStr (ac_account_id a)), (''org_uuid'', opt_text (ac_org_uuid a)), (''name'', opt_text (ac_name a)),
        (''tier'', JInt (int (tier_value (ac_tier a)))), (''cookies'', JObj (str_values (ac_cookies a))), (''user_agent'', opt_text (ac_user_agent a)),
        (''revoked'', JBool (ac_revoked a)), (''created_at'', stamp_json (ac_created_at a)), (''updated_at'', stamp_json (ac_updated_at a))],
      dm_validate = \<lambda>d. Inr \<lparr>ac_account_id = the (text_opt (obj_get d ''account_id'')), ac_org_uuid = text_opt (obj_get d ''org_uuid''), ac_name = text_opt (obj_get d ''name''),
        ac_tier = (case obj_get d ''tier'' of JInt n \<Rightarrow> if n = 0 then FREE else if n = 1 then PRO else MAX_TIER | _ \<Rightarrow> FREE),
        ac_cookies = (case obj_get d ''cookies'' of JObj c \<Rightarrow> map (\<lambda>(k, v). (k, the (text_opt v))) c | _ \<Rightarrow> []),
        ac_user_agent = text_opt (obj_get d ''user_agent''), ac_revoked = (obj_get d ''revoked'' = JBool True),
        ac_created_at = json_stamp (obj_get d ''created_at''), ac_updated_at = json_stamp (obj_get d ''updated_at'')\<rparr>\<rparr>"

lemma demo_account_model_ok: "account_model demo_account_model"
proof -
  have val: "dm_validate demo_account_model d = Inr a" if "map_of d = map_of (dm_dump demo_account_model a)" "account_ok a" for a d
  proof -
    have get: "obj_get d k = obj_get (dm_dump demo_account_model a) k" for k using that(1) by (simp add: obj_get_def dict_getd_def)
    show ?thesis
      using that(2) unfolding demo_account_model_def dto_model.simps get [unfolded demo_account_model_def dto_model.simps]
      by (cases a; cases "ac_tier a") (simp_all add: obj_get_def dict_getd_def account_ok_def comp_def case_prod_unfold)
  qed
  have "flat v" if "k \<noteq> ''cookies''" "dict_get (dm_dump demo_account_model a) k = Some v" for a k v
    using that by (auto simp: demo_account_model_def flat_def opt_text_def stamp_json_def split: if_splits option.splits)
  moreover have "dict_get (dm_dump demo_account_model a) ''cookies'' = Some (JObj (str_values (ac_cookies a)))" for a by (simp add: demo_account_model_def)
  ultimately show ?thesis using val unfolding account_model_def by blast
qed

definition demo_fernet :: fernet where
  "demo_fernet = \<lparr>fn_encrypt = \<lambda>seed s. pad_digits 4 seed @ rev s, fn_decrypt = \<lambda>t. if length t < 4 then None else Some (rev (drop 4 t))\<rparr>"

definition demo_account_ops :: "account_op list" where
  "demo_account_ops = [AUpsert (demo_account ''a'' 3 False) 7, AUpsert (demo_account ''c'' 5 False) 8, ARevoke ''a'' demo_time 9]"

abbreviation demo_account_db :: "(account_row, account_row list) sa_db" where
  "demo_account_db \<equiv> list_table ar_id ar_created_at"


subsection \<open>The key store against memory\<close>

definition key_db :: "(key_row, 'd) sa_db \<Rightarrow> bool" where
  "key_db db \<longleftrightarrow> sa_id db = kr_id \<and> sa_created_at db = kr_created_at"

definition key_clash :: "key_row \<Rightarrow> key_row \<Rightarrow> bool" where
  \<comment> \<open>the column \<open>key_hash\<close> is unique\<close>
  "key_clash row r \<longleftrightarrow> kr_key_hash row = kr_key_hash r"

definition key_jsonb_laws :: "(key_row \<Rightarrow> key_row) \<Rightarrow> bool" where
  "key_jsonb_laws kept \<longleftrightarrow> (\<forall>row. kr_id (kept row) = kr_id row \<and> kr_key_hash (kept row) = kr_key_hash row \<and>
     ((\<forall>k v. dict_get (kr_data row) k = Some v \<longrightarrow> flat v) \<longrightarrow> map_of (kr_data (kept row)) = map_of (kr_data row)))"

definition key_ok :: "api_key \<Rightarrow> bool" where
  "key_ok k \<longleftrightarrow> dt_ok (ak_created_at k) \<and> (\<forall>t. ak_last_used_at k = Some t \<longrightarrow> dt_ok t)"

definition key_model :: "api_key dto_model \<Rightarrow> bool" where
  "key_model dm \<longleftrightarrow> (\<forall>k. key_ok k \<longrightarrow> (\<forall>x v. dict_get (dm_dump dm k) x = Some v \<longrightarrow> flat v) \<and>
     (\<forall>d. map_of d = map_of (dm_dump dm k) \<longrightarrow> dm_validate dm d = Inr k))"

fun pgk_step :: "api_key dto_model \<Rightarrow> (key_row, 'd) sa_db \<Rightarrow> key_op \<Rightarrow> 'd \<Rightarrow> (gexn + unit) \<times> 'd" where
  "pgk_step dm db (KCreate k) d = (case pgk_create dm db k d of (r, d') \<Rightarrow> (lift_sdk r, d'))"
| "pgk_step dm db (KRevoke i) d = pgk_revoke dm db i d"
| "pgk_step dm db (KTouch i when) d = pgk_touch dm db i when d"

fun key_op_ok :: "(string \<times> string) set \<Rightarrow> key_op \<Rightarrow> bool" where
  "key_op_ok K (KCreate k) = (key_ok k \<and> (ak_key_id k, ak_key_hash k) \<in> K)"
| "key_op_ok K (KRevoke i) = True"
| "key_op_ok K (KTouch i when) = dt_ok when"

definition one_owner :: "(string \<times> string) set \<Rightarrow> bool" where
  "one_owner K \<longleftrightarrow> (\<forall>i j h. (i, h) \<in> K \<longrightarrow> (j, h) \<in> K \<longrightarrow> i = j)"

definition pgk_holds :: "api_key dto_model \<Rightarrow> (string \<times> string) set \<Rightarrow> key_row \<Rightarrow> api_key \<Rightarrow> bool" where
  "pgk_holds dm K r k \<longleftrightarrow> pgk_dto dm r = Inr k \<and> kr_id r = ak_key_id k \<and> kr_key_hash r = ak_key_hash k \<and> key_ok k \<and> (ak_key_id k, ak_key_hash k) \<in> K"

definition pgk_sim :: "api_key dto_model \<Rightarrow> ('d \<Rightarrow> string \<Rightarrow> key_row option) \<Rightarrow> (string \<times> string) set \<Rightarrow> 'd \<Rightarrow> mem_keys \<Rightarrow> bool" where
  "pgk_sim dm tab K d s \<longleftrightarrow> mks_inv s \<and> (\<forall>i. rel_option (pgk_holds dm K) (tab d i) (dict_get s i))"

lemma pgk_sim_at: "pgk_sim dm tab K d s \<Longrightarrow> rel_option (pgk_holds dm K) (tab d i) (dict_get s i)"
  by (simp add: pgk_sim_def)

lemma pgk_roundtrip: "key_jsonb_laws kept \<Longrightarrow> key_model dm \<Longrightarrow> key_ok k \<Longrightarrow> pgk_dto dm (kept (pgk_row dm k)) = Inr k"
  by (simp add: key_jsonb_laws_def key_model_def pgk_dto_def pgk_row_def)

lemma pgk_write_sim:
  assumes laws: "table_laws db tab kept key_clash" "key_db db" "key_jsonb_laws kept" "key_model dm" "one_owner K"
    and sim: "pgk_sim dm tab K d s" and k: "key_ok k" "(ak_key_id k, ak_key_hash k) \<in> K"
  shows "\<exists>d'. pgk_create dm db k d = (Inr (), d') \<and> pgk_sim dm tab K d' (dict_set s (ak_key_id k) k)"
proof -
  let ?row = "pgk_row dm k"
  have id: "sa_id db ?row = ak_key_id k" "kr_key_hash ?row = ak_key_hash k" using laws(2) by (simp_all add: key_db_def pgk_row_def)
  have free: "\<not> key_clash ?row r" if r: "r \<in> ran (tab d)" "sa_id db r \<noteq> sa_id db ?row" for r
  proof -
    obtain i where "tab d i = Some r" using r(1) by (auto simp: ran_def)
    then obtain k' where "pgk_holds dm K r k'" using pgk_sim_at [OF sim, of i] by (cases "dict_get s i") simp_all
    then show ?thesis using r(2) id k(2) laws(2,5) unfolding one_owner_def pgk_holds_def key_clash_def key_db_def by metis
  qed
  obtain d1 d2 where d: "sa_merge db ?row d = (Inr (), d1)" "sa_commit db d1 = (Inr (), d2)" "tab d2 = (tab d)(sa_id db ?row \<mapsto> kept ?row)"
    using laws(1) free unfolding table_laws_def by meson
  have "pgk_holds dm K (kept ?row) k"
    using pgk_roundtrip [OF laws(3,4) k(1)] k laws(3) by (simp add: pgk_holds_def key_jsonb_laws_def pgk_row_def)
  then have "rel_option (pgk_holds dm K) (tab d2 i) (dict_get (dict_set s (ak_key_id k) k) i)" for i
    using pgk_sim_at [OF sim, of i] d(3) id by (simp add: update_conv')
  moreover have "mks_inv (dict_set s (ak_key_id k) k)" using sim dict_set_subset [of "ak_key_id k" k s] by (fastforce simp: pgk_sim_def mks_inv_def)
  ultimately show ?thesis using d(1,2) by (simp add: pgk_create_def repo_upsert_def pgk_sim_def)
qed

lemma pgk_get_sim:
  assumes "table_laws db tab kept key_clash" and "pgk_sim dm tab K d s"
  shows "pgk_get dm db i d = Inr (mks_get i s)"
proof -
  have "repo_get db i d = Inr (tab d i)" using assms(1) by (simp add: table_laws_def repo_get_def)
  then show ?thesis using pgk_sim_at [OF assms(2), of i]
    by (cases "tab d i"; cases "dict_get s i") (simp_all add: pgk_get_def lift_sdk_def mks_get_def pgk_holds_def map_ok_def)
qed

lemma pgk_change_sim:
  assumes laws: "table_laws db tab kept key_clash" "key_db db" "key_jsonb_laws kept" "key_model dm" "one_owner K"
    and sim: "pgk_sim dm tab K d s" and f: "\<And>k. key_ok k \<Longrightarrow> key_ok (f k) \<and> ak_key_id (f k) = ak_key_id k \<and> ak_key_hash (f k) = ak_key_hash k"
  shows "\<exists>d'. pgk_change dm db f i d = (Inr (), d') \<and> pgk_sim dm tab K d' (case dict_get s i of None \<Rightarrow> s | Some k \<Rightarrow> dict_set s i (f k))"
proof (cases "dict_get s i")
  case None
  then show ?thesis using pgk_get_sim [OF laws(1) sim, of i] sim by (simp add: pgk_change_def mks_get_def)
next
  case (Some k)
  have "ak_key_id k = i" using mks_inv_get [OF _ Some] sim by (simp add: pgk_sim_def)
  moreover have "key_ok k" "(ak_key_id k, ak_key_hash k) \<in> K" using pgk_sim_at [OF sim, of i] Some by (cases "tab d i"; simp add: pgk_holds_def)+
  ultimately have "\<exists>d'. pgk_create dm db (f k) d = (Inr (), d') \<and> pgk_sim dm tab K d' (dict_set s i (f k))"
    using pgk_write_sim [OF laws sim, of "f k"] f [of k] by simp
  then show ?thesis using pgk_get_sim [OF laws(1) sim, of i] Some by (auto simp: pgk_change_def mks_get_def lift_sdk_def)
qed

lemma pgk_step_sim:
  assumes laws: "table_laws db tab kept key_clash" "key_db db" "key_jsonb_laws kept" "key_model dm" "one_owner K"
    and sim: "pgk_sim dm tab K d s" and ok: "key_op_ok K op"
  shows "\<exists>d'. pgk_step dm db op d = (Inr (), d') \<and> pgk_sim dm tab K d' (key_step (mks_ops other) op s)"
proof (cases op)
  case (KCreate k)
  then show ?thesis using pgk_write_sim [OF laws sim, of k] ok by (auto simp: lift_sdk_def mks_ops_def mks_create_def)
next
  case (KRevoke i)
  then show ?thesis using pgk_change_sim [OF laws sim, of "\<lambda>k. k\<lparr>ak_revoked := True\<rparr>" i]
    by (simp add: pgk_revoke_def mks_ops_def mks_revoke_def key_ok_def)
next
  case (KTouch i t)
  then show ?thesis using pgk_change_sim [OF laws sim, of "\<lambda>k. k\<lparr>ak_last_used_at := Some t\<rparr>" i] ok
    by (simp add: pgk_touch_def mks_ops_def mks_touch_def key_ok_def)
qed

lemma pgk_by_hash_sim:
  assumes laws: "table_laws db tab kept key_clash" "one_owner K" and sim: "pgk_sim dm tab K d s"
  shows "pgk_get_by_hash dm db h d = Inr (mks_get_by_hash h s)"
proof -
  let ?st = "\<lparr>st_where = [\<lambda>r. kr_key_hash r = h], st_before = None, st_newest = False, st_limit = 1\<rparr>"
  obtain rs where rs: "set rs = {r \<in> ran (tab d). kr_key_hash r = h}" "sa_execute db ?st d = Inr (take 1 rs)"
    using table_execute [OF laws(1), of ?st d] by (auto simp: comparable_def stmt_selects_def)
  have get: "repo_get_by db (\<lambda>r. kr_key_hash r = h) d = Inr (case rs of [] \<Rightarrow> None | r # _ \<Rightarrow> Some r)"
    unfolding repo_get_by_def rs(2) by (cases rs) (simp_all add: map_ok_def)
  have row: "\<exists>r \<in> set rs. pgk_holds dm K r k" if "(i, k) \<in> set s" "ak_key_hash k = h" for i k
  proof -
    have "dict_get s i = Some k" using that(1) sim by (simp add: pgk_sim_def mks_inv_def dict_get_in_iff)
    then obtain r where "tab d i = Some r" "pgk_holds dm K r k" using pgk_sim_at [OF sim, of i] by (cases "tab d i") simp_all
    then show ?thesis using that(2) rs(1) by (auto simp: pgk_holds_def ran_def)
  qed
  show ?thesis
  proof (cases rs)
    case Nil
    have "ak_key_hash k \<noteq> h" if "(i, k) \<in> set s" for i k using row [OF that] Nil by auto
    then have "mks_get_by_hash h s = None" unfolding mks_get_by_hash_def find_None_iff by force
    then show ?thesis using get Nil by (simp add: pgk_get_by_hash_def lift_sdk_def)
  next
    case (Cons r qs)
    then obtain i where i: "tab d i = Some r" "kr_key_hash r = h" using rs(1) by (auto simp: ran_def)
    then obtain k where k: "dict_get s i = Some k" "pgk_holds dm K r k" using pgk_sim_at [OF sim, of i] by (cases "dict_get s i") simp_all
    have uniq: "k' = k" if "(j, k') \<in> set s" "ak_key_hash k' = h" for j k'
    proof -
      have "(ak_key_id k', h) \<in> K" "(ak_key_id k, h) \<in> K" using row [OF that] k(2) i(2) that(2) by (auto simp: pgk_holds_def)
      then have "ak_key_id k' = ak_key_id k" using laws(2) unfolding one_owner_def by blast
      moreover have "j = ak_key_id k'" "i = ak_key_id k" using that(1) k(1) sim by (auto simp: pgk_sim_def mks_inv_def dest!: map_of_SomeD)
      moreover have "dict_get s j = Some k'" using that(1) sim by (simp add: pgk_sim_def mks_inv_def dict_get_in_iff)
      ultimately show ?thesis using k(1) by simp
    qed
    have "k \<in> set (dict_values s)" "ak_key_hash k = h" using map_of_SomeD [OF k(1)] k(2) i(2) by (force simp: pgk_holds_def)+
    then have "find (\<lambda>k. ak_key_hash k = h) (dict_values s) \<noteq> None" unfolding find_None_iff by blast
    then obtain k' where k': "find (\<lambda>k. ak_key_hash k = h) (dict_values s) = Some k'" by blast
    then have "ak_key_hash k' = h" "k' \<in> snd ` set s" by (auto simp: find_Some_iff in_set_conv_nth image_iff) (metis nth_mem snd_conv surjective_pairing)+
    then have "k' = k" using uniq by auto
    then show ?thesis using get Cons k' k(2) by (simp add: pgk_get_by_hash_def lift_sdk_def mks_get_by_hash_def pgk_holds_def map_ok_def)
  qed
qed

text \<open>
  C27. The Postgres key store answers like the memory store. From an empty table, every history of creations, revocations and touches in which no hash belongs to two key ids succeeds, and
  afterwards the lookups by id and by hash, on which the authentication of a request rests, return exactly what the memory store returns after the same history.
\<close>

theorem pg_keys_refine_memory:
  assumes "table_laws db tab kept key_clash" "key_db db" "key_jsonb_laws kept" "key_model dm"
    and "tab d0 = Map.empty" and "one_owner K" and "\<forall>op \<in> set ops. key_op_ok K op"
  shows "\<exists>d. run_history (pgk_step dm db) ops d0 = (Inr (), d) \<and>
     (\<forall>i. pgk_get dm db i d = Inr (mks_get i (fold (key_step (mks_ops other)) ops []))) \<and>
     (\<forall>h. pgk_get_by_hash dm db h d = Inr (mks_get_by_hash h (fold (key_step (mks_ops other)) ops [])))"
proof -
  have "pgk_sim dm tab K d0 []" using assms(5) by (simp add: pgk_sim_def mks_inv_def dict_ok_def)
  from run_history_sim [of "pgk_sim dm tab K" "key_op_ok K" "pgk_step dm db" "key_step (mks_ops other)", OF pgk_step_sim [OF assms(1-4,6)] this assms(7)]
  obtain d where d: "run_history (pgk_step dm db) ops d0 = (Inr (), d)" "pgk_sim dm tab K d (fold (key_step (mks_ops other)) ops [])" by blast
  then show ?thesis using pgk_get_sim [OF assms(1) d(2)] pgk_by_hash_sim [OF assms(1,6) d(2)] by blast
qed

definition demo_key_model :: "api_key dto_model" where
  "demo_key_model =
     \<lparr>dm_dump = \<lambda>k. [(''key_id'', JStr (ak_key_id k)), (''key_hash'', JStr (ak_key_hash k)), (''account_id'', JStr (ak_account_id k)), (''name'', opt_text (ak_name k)),
        (''scope'', JBool (ak_scope k = SCOPE_ADMIN)), (''revoked'', JBool (ak_revoked k)), (''created_at'', stamp_json (ak_created_at k)),
        (''last_used_at'', case ak_last_used_at k of None \<Rightarrow> JNull | Some t \<Rightarrow> stamp_json t)],
      dm_validate = \<lambda>d. Inr \<lparr>ak_key_id = the (text_opt (obj_get d ''key_id'')), ak_key_hash = the (text_opt (obj_get d ''key_hash'')),
        ak_account_id = the (text_opt (obj_get d ''account_id'')), ak_name = text_opt (obj_get d ''name''),
        ak_scope = (if obj_get d ''scope'' = JBool True then SCOPE_ADMIN else SCOPE_ACCOUNT), ak_revoked = (obj_get d ''revoked'' = JBool True),
        ak_created_at = json_stamp (obj_get d ''created_at''),
        ak_last_used_at = (case obj_get d ''last_used_at'' of JNull \<Rightarrow> None | v \<Rightarrow> Some (json_stamp v))\<rparr>\<rparr>"

lemma demo_key_model_ok: "key_model demo_key_model"
proof -
  have "dm_validate demo_key_model d = Inr k" if "map_of d = map_of (dm_dump demo_key_model k)" "key_ok k" for k d
  proof -
    have get: "obj_get d x = obj_get (dm_dump demo_key_model k) x" for x using that(1) by (simp add: obj_get_def dict_getd_def)
    have last: "(case case v of None \<Rightarrow> JNull | Some t \<Rightarrow> stamp_json t of JNull \<Rightarrow> None | v \<Rightarrow> Some (json_stamp v)) = v" if "\<forall>t. v = Some t \<longrightarrow> dt_ok t" for v
      using that by (cases v) (simp_all add: stamp_json_def json_stamp_def parse_utc_isoformat)
    show ?thesis
      using that(2) unfolding demo_key_model_def dto_model.simps get [unfolded demo_key_model_def dto_model.simps]
      by (cases k; cases "ak_scope k") (simp_all add: obj_get_def dict_getd_def key_ok_def last)
  qed
  moreover have "flat v" if "dict_get (dm_dump demo_key_model k) x = Some v" for k x v
    using that by (auto simp: demo_key_model_def flat_def opt_text_def stamp_json_def split: if_splits option.splits)
  ultimately show ?thesis unfolding key_model_def by blast
qed

abbreviation demo_key_db :: "(key_row, key_row list) sa_db" where
  "demo_key_db \<equiv> list_table kr_id kr_created_at"

theorem pg_keys_refine_memory_witness:
  "\<exists>d. run_history (pgk_step demo_key_model demo_key_db) demo_key_ops [] = (Inr (), d) \<and>
     pgk_get_by_hash demo_key_model demo_key_db ''2-ks'' d = Inr (Some (demo_key ''k2'' ''2-ks'')) \<and>
     pgk_get_by_hash demo_key_model demo_key_db ''3-ks'' d = Inr None"
proof -
  let ?K = "{(''k1'', ''1-ks''), (''k2'', ''2-ks'')}" and ?mem = "fold (key_step (mks_ops (\<lambda>s. None))) demo_key_ops []"
  have ops: "one_owner ?K" "\<forall>op \<in> set demo_key_ops. key_op_ok ?K op"
    by (auto simp: one_owner_def demo_key_ops_def demo_key_def key_ok_def demo_time_def dt_ok_def days_in_month_def)
  have empty: "list_lookup kr_id [] = Map.empty" by (simp add: list_lookup_def fun_eq_iff)
  have laws: "key_db demo_key_db" "key_jsonb_laws (\<lambda>r. r)" by (simp_all add: key_db_def list_table_def key_jsonb_laws_def)
  from pg_keys_refine_memory [OF list_table_laws laws demo_key_model_ok empty ops, of "\<lambda>s. None"]
  obtain d where d: "run_history (pgk_step demo_key_model demo_key_db) demo_key_ops [] = (Inr (), d)"
    "\<forall>h. pgk_get_by_hash demo_key_model demo_key_db h d = Inr (mks_get_by_hash h ?mem)" by blast
  moreover have "mks_get_by_hash ''2-ks'' ?mem = Some (demo_key ''k2'' ''2-ks'')" "mks_get_by_hash ''3-ks'' ?mem = None" by code_simp+
  ultimately show ?thesis by metis
qed

lemma pg_revoke_stamps:
  \<comment> \<open>a revocation changes the time of the last change in Postgres and leaves it in memory\<close>
  assumes "pg_get fr jmsg dm cipher db i d = Inr (Some a)" and "mas_get i s = Some a"
  shows "pg_revoke fr jmsg dm cipher db seed now i d = (case pg_upsert dm cipher db seed (a\<lparr>ac_revoked := True, ac_updated_at := now\<rparr>) d of (r, d') \<Rightarrow> (lift_sdk r, d'))"
    and "mas_get i (mas_revoke i s) = Some (a\<lparr>ac_revoked := True\<rparr>)"
  using assms by (simp_all add: pg_revoke_def mas_revoke_def mas_get_def)

lemma lost_key_blocks_scan:
  \<comment> \<open>one account sealed under a key that is no longer set ends a scan and a page of all accounts\<close>
  assumes "obj_get (ar_data r) ''cookies'' = JStr token"
  shows "map_result (pg_dto fr jmsg dm None) (rs @ r # qs) \<noteq> Inr as"
    and "\<exists>bs e. yield_dtos (pg_dto fr jmsg dm None) (rs @ r # qs) x = (bs, Some e) \<and> length bs \<le> length rs"
proof -
  have r: "pg_dto fr jmsg dm None r = Inl (CookieDecryptError ''cookies are encrypted at rest but no COOKIE_ENCRYPTION_KEY is set'')"
    using assms by (simp add: pg_dto_def)
  show "map_result (pg_dto fr jmsg dm None) (rs @ r # qs) \<noteq> Inr as"
    by (induction rs arbitrary: as) (auto simp: r bind_result_def split: sum.splits)
  show "\<exists>bs e. yield_dtos (pg_dto fr jmsg dm None) (rs @ r # qs) x = (bs, Some e) \<and> length bs \<le> length rs"
    by (induction rs) (auto simp: r split: sum.split)
qed

end
