(* ===== verification/Gateway_Apps.thy ===== *)
theory Gateway_Apps
  imports Gateway_Docs Gateway_Postgres Methods
begin

section \<open>The three servers and the life of the gateway\<close>

text \<open>
  \<^verbatim>\<open>gateway/servers/fastapi_app.py\<close>, \<^verbatim>\<open>litestar_app.py\<close> and \<^verbatim>\<open>aiohttp_app.py\<close>, which put the route table on three web frameworks, \<^verbatim>\<open>gateway/run.py\<close>, which chooses one, and the
  parts of \<^verbatim>\<open>gateway/shared/container.py\<close> and \<^verbatim>\<open>config.py\<close> that build the stores, open and close. A framework is an argument: its router, of which \<open>router_laws\<close> says that it serves a request with
  an entry whose method and path pattern fit, in whatever order it tries them, and the value its query dictionary has for a key. Shown: no two pages of the site compete for a request, and the three
  servers give the same responses and leave the same state, from startup to shutdown.
\<close>

subsection \<open>Settings and stores\<close>

datatype server_kind = SRV_FASTAPI | SRV_LITESTAR | SRV_AIOHTTP

datatype db_kind = DB_POSTGRES | DB_MEMORY

record gateway_settings =
  gs_server :: server_kind
  gs_host :: string
  gs_port :: int
  gs_db :: db_kind
  gs_database_url :: "string option"
  gs_admin_token :: string
  gs_default_model :: string
  gs_model_aliases :: "string dict"
  gs_rate_limit_per_min :: int
  gs_cookie_encryption_key :: "string option"

definition require_database_url :: "gateway_settings \<Rightarrow> exn + gateway_settings" where
  "require_database_url st =
     (if gs_db st = DB_POSTGRES \<and> or_default (gs_database_url st) [] = []
      then Inl (Py (ValueError ''CLAUDE_GATEWAY_DATABASE_URL is required when CLAUDE_GATEWAY_DB=postgres'')) else Inr st)"

record cli_args =
  cl_server :: "server_kind option"
  cl_host :: "string option"
  cl_port :: "int option"

definition settings_from_cli :: "cli_args \<Rightarrow> gateway_settings \<Rightarrow> gateway_settings" where
  \<comment> \<open>\<open>model_copy\<close> with the arguments that are given; it does not validate again\<close>
  "settings_from_cli args st =
     st\<lparr>gs_server := (case cl_server args of None \<Rightarrow> gs_server st | Some v \<Rightarrow> v), gs_host := (case cl_host args of None \<Rightarrow> gs_host st | Some v \<Rightarrow> v),
        gs_port := (case cl_port args of None \<Rightarrow> gs_port st | Some v \<Rightarrow> v)\<rparr>"

definition build_cipher :: "(string \<Rightarrow> exn + fernet) \<Rightarrow> gateway_settings \<Rightarrow> exn + fernet option" where
  \<comment> \<open>the constructor of Fernet refuses a malformed key\<close>
  "build_cipher mk st = (case gs_cookie_encryption_key st of Some (c # cs) \<Rightarrow> map_ok Some (mk (c # cs)) | _ \<Rightarrow> Inr None)"

datatype stores = MemoryStores | PostgresStores string "fernet option"

definition build_stores :: "(string \<Rightarrow> exn + fernet) \<Rightarrow> gateway_settings \<Rightarrow> exn + stores" where
  "build_stores mk st =
     (if gs_db st = DB_MEMORY then Inr MemoryStores
      else (case gs_database_url st of
              None \<Rightarrow> Inl (OtherException ''AssertionError'' [])
            | Some url \<Rightarrow> map_ok (PostgresStores url) (build_cipher mk st)))"

record container =
  ct_settings :: gateway_settings
  ct_stores :: stores
  ct_mapper :: model_mapper
  ct_limiter :: rate_limiter

definition container_init :: "(string \<Rightarrow> exn + fernet) \<Rightarrow> gateway_settings \<Rightarrow> exn + container" where
  "container_init mk st =
     map_ok (\<lambda>sto. \<lparr>ct_settings = st, ct_stores = sto, ct_mapper = mapper_init (Some (gs_model_aliases st)) (gs_default_model st),
                    ct_limiter = limiter_init (gs_rate_limit_per_min st)\<rparr>) (build_stores mk st)"

subsection \<open>Opening and closing\<close>

definition container_open ::
  "(exn + unit) option \<Rightarrow> ('o \<Rightarrow> (exn + unit) \<times> 'o) \<Rightarrow> nat \<Rightarrow> ('o, 'i) gw_env \<Rightarrow> 'o gateway \<Rightarrow> ((gexn + nat) \<times> 'o gateway) option" where
  \<comment> \<open>\<open>create_all\<close> is the outcome of the schema bootstrap, with a database; the fuel is that of the account scan\<close>
  "container_open create_all start fuel env s =
     (case create_all of
        Some (Inl e) \<Rightarrow> Some (Inl (Sdk e), s)
      | _ \<Rightarrow>
          (case start (gw_pool s) of
             (Inl e, p) \<Rightarrow> Some (Inl (Sdk e), s\<lparr>gw_pool := p\<rparr>)
           | (Inr _, p) \<Rightarrow>
               map_option (\<lambda>(r, q). (r, s\<lparr>gw_pool := q\<rparr>)) (rehydrate_all fuel (en_iso env) (en_pool env) (en_sdk env) (gw_accounts s) p)))"

definition container_close :: "(exn + unit) option \<Rightarrow> ('o \<Rightarrow> (exn + unit) \<times> 'o) \<Rightarrow> 'o gateway \<Rightarrow> (exn + unit) \<times> 'o gateway" where
  \<comment> \<open>the \<open>close\<close> of both stores does nothing\<close>
  "container_close db_close stop s =
     (case stop (gw_pool s) of
        (Inl e, p) \<Rightarrow> (Inl e, s\<lparr>gw_pool := p\<rparr>)
      | (Inr _, p) \<Rightarrow> ((case db_close of None \<Rightarrow> Inr () | Some r \<Rightarrow> r), s\<lparr>gw_pool := p\<rparr>))"

subsection \<open>Background tasks and the availability report\<close>

definition service_touch :: "datetime \<Rightarrow> string \<Rightarrow> iso_parser \<Rightarrow> mem_keys \<Rightarrow> mem_keys" where
  "service_touch now key_id other keys = ks_touch (mks_ops other) key_id now keys"

definition run_background :: "('o, 'i) gw_env \<Rightarrow> nat \<Rightarrow> 'o gateway \<Rightarrow> 'o gateway" where
  \<comment> \<open>the \<open>n\<close>-th pending task of the container runs to its end and leaves the set\<close>
  "run_background env n s =
     (if n < length (gw_touches s)
      then s\<lparr>gw_keys := service_touch (en_now env) (gw_touches s ! n) (en_iso env) (gw_keys s), gw_touches := take n (gw_touches s) @ drop (Suc n) (gw_touches s)\<rparr>
      else s)"

record availability_report =
  rp_available :: bool
  rp_in_flight :: int
  rp_utilization :: pyfloat

definition account_availability :: "account_id \<Rightarrow> 's orchestrator \<Rightarrow> availability_report \<times> 's orchestrator" where
  \<comment> \<open>asking the tracker drops an expired park\<close>
  "account_availability a o' =
     (case av_is_available (or_avail o') a (or_clock o') of (ok, av) \<Rightarrow>
        (\<lparr>rp_available = ok, rp_in_flight = in_flight (tr_metrics (or_trackers o')) a, rp_utilization = snapshot_score (limit_get (tr_limits (or_trackers o')) a (or_clock o'))\<rparr>,
         o'\<lparr>or_avail := av\<rparr>))"

subsection \<open>Requests, responses and endpoints\<close>

record native_request =
  nq_method :: string
  nq_path :: string
  nq_query :: "(string \<times> string) list"      \<comment> \<open>the pairs of the query string, in order\<close>
  nq_headers :: "(string \<times> string) list"
  nq_body :: "json option"                   \<comment> \<open>\<open>None\<close>: \<open>request.json()\<close> raises\<close>

record framework =
  fw_router :: "(string \<times> string) list \<Rightarrow> string \<Rightarrow> string \<Rightarrow> (nat \<times> string dict) option"
    \<comment> \<open>of the registered methods and patterns, which entry serves a request, with the path parameters; \<open>None\<close>: the framework answers 404 or 405\<close>
  fw_getone :: "(string \<times> string) list \<Rightarrow> string \<Rightarrow> string option"
    \<comment> \<open>the item of the query multi-dictionary\<close>

datatype native_response =
    JsonResponse int "payload option"
  | StreamingResponse int string "string list"
  | SpecResponse "json dict"
  | HtmlResponse string
  | RaisedError exn
  | NotServed

definition query_dict :: "((string \<times> string) list \<Rightarrow> string \<Rightarrow> string option) \<Rightarrow> (string \<times> string) list \<Rightarrow> string dict" where
  "query_dict get items = fold (\<lambda>(k, v) d. case get items k of None \<Rightarrow> d | Some w \<Rightarrow> dict_set d k w) items []"

definition reject_body :: "gexn \<Rightarrow> validators \<Rightarrow> validators" where
  "reject_body e v =
     v\<lparr>v_chat := (\<lambda>_. Inl e), v_text := (\<lambda>_. Inl e), v_create := (\<lambda>_. Inl e), v_send := (\<lambda>_. Inl e), v_invoke := (\<lambda>_. Inl e), v_account := (\<lambda>_. Inl e),
       v_cookies := (\<lambda>_. Inl e), v_generate := (\<lambda>_. Inl e), v_revoke := (\<lambda>_. Inl e)\<rparr>"

definition read_body :: "(route_def \<Rightarrow> json \<Rightarrow> gexn) \<Rightarrow> route_def \<Rightarrow> native_request \<Rightarrow> ('o, 'i) gw_env \<Rightarrow> ('o, 'i) gw_env \<times> json dict" where
  \<comment> \<open>an empty, invalid or falsy body becomes \<open>{}\<close>; a body that is no object is handed to the handler, where pydantic refuses it (\<open>reject\<close>)\<close>
  "read_body reject r req env =
     (if rd_http r = ''POST'' \<or> rd_http r = ''PATCH'' \<or> rd_http r = ''PUT'' then
        (case nq_body req of
           None \<Rightarrow> (env, [])
         | Some j \<Rightarrow>
             if \<not> truthy j then (env, [])
             else (case j of JObj d \<Rightarrow> (env, d) | _ \<Rightarrow> (env\<lparr>en_valid := reject_body (reject r j) (en_valid env)\<rparr>, [])))
      else (env, []))"

definition fastapi_endpoint ::
  "framework \<Rightarrow> (route_def \<Rightarrow> json \<Rightarrow> gexn) \<Rightarrow> route_def \<Rightarrow> string dict \<Rightarrow> native_request \<Rightarrow> ('o, 'i) gw_env \<Rightarrow> 'o gateway \<Rightarrow> native_response \<times> 'o gateway" where
  "fastapi_endpoint fw reject r params req env s =
     (case read_body reject r req env of (env', body) \<Rightarrow>
        (case run_route env' r params (query_dict (fw_getone fw) (nq_query req)) body (lower_headers (nq_headers req)) s of (out, s') \<Rightarrow>
           ((case oc_stream out of
               Some ls \<Rightarrow> StreamingResponse (oc_status out) (oc_media_type out) ls
             | None \<Rightarrow> JsonResponse (oc_status out) (oc_json out)), s')))"

definition litestar_endpoint ::
  "framework \<Rightarrow> (route_def \<Rightarrow> json \<Rightarrow> gexn) \<Rightarrow> route_def \<Rightarrow> string dict \<Rightarrow> native_request \<Rightarrow> ('o, 'i) gw_env \<Rightarrow> 'o gateway \<Rightarrow> native_response \<times> 'o gateway" where
  \<comment> \<open>\<open>str\<close> of a path parameter of type \<open>str\<close> is the parameter\<close>
  "litestar_endpoint fw reject r params req env s =
     (case read_body reject r req env of (env', body) \<Rightarrow>
        (case run_route env' r (map (\<lambda>(k, v). (k, v)) params)
                (dict_update [] (map (\<lambda>k. (k, or_default (fw_getone fw (nq_query req) k) [])) (filter (\<lambda>k. fw_getone fw (nq_query req) k \<noteq> None) (map fst (nq_query req)))))
                body (lower_headers (nq_headers req)) s of (out, s') \<Rightarrow>
           ((case oc_stream out of
               Some ls \<Rightarrow> StreamingResponse (oc_status out) (oc_media_type out) ls
             | None \<Rightarrow> JsonResponse (oc_status out) (oc_json out)), s')))"

fun write_lines :: "string list \<Rightarrow> string list \<Rightarrow> string list" where
  \<comment> \<open>\<open>async for line in outcome.stream: await response.write(...)\<close>\<close>
  "write_lines sent [] = sent"
| "write_lines sent (l # ls) = write_lines (sent @ [l]) ls"

definition aiohttp_endpoint ::
  "framework \<Rightarrow> (route_def \<Rightarrow> json \<Rightarrow> gexn) \<Rightarrow> route_def \<Rightarrow> string dict \<Rightarrow> native_request \<Rightarrow> ('o, 'i) gw_env \<Rightarrow> 'o gateway \<Rightarrow> native_response \<times> 'o gateway" where
  "aiohttp_endpoint fw reject r params req env s =
     (case read_body reject r req env of (env', body) \<Rightarrow>
        (case run_route env' r params (query_dict (fw_getone fw) (nq_query req)) body (lower_headers (nq_headers req)) s of (out, s') \<Rightarrow>
           ((case oc_stream out of
               Some ls \<Rightarrow> StreamingResponse (oc_status out) (oc_media_type out) (write_lines [] ls)
             | None \<Rightarrow> JsonResponse (oc_status out) (oc_json out)), s')))"

subsection \<open>Applications\<close>

datatype page_kind = ApiRoute route_def | OpenapiPage | ScalarPage

record web_app =
  wa_kind :: server_kind
  wa_table :: "(string \<times> string \<times> page_kind) list"    \<comment> \<open>method, pattern and what is served\<close>
  wa_schema :: "json dict option"
  wa_html :: string

abbreviation scalar_pages :: "(string \<times> string \<times> page_kind) list" where
  "scalar_pages \<equiv> [(''GET'', ''/docs'', ScalarPage), (''GET'', ''/scalar'', ScalarPage)]"

definition openapi_spec :: "(string list \<Rightarrow> string dict \<times> json dict) \<Rightarrow> exn + json dict" where
  "openapi_spec mjs = build_openapi mjs ROUTES ''claude-gateway'' ''1.0.0''"

definition reference_html :: string where
  "reference_html = scalar_html ''/openapi.json'' ''claude-gateway API''"

definition create_fastapi_app :: web_app where
  \<comment> \<open>FastAPI itself serves \<open>/openapi.json\<close>, from the method that is replaced; the schema is built at the first request for it\<close>
  "create_fastapi_app =
     \<lparr>wa_kind = SRV_FASTAPI,
      wa_table = (''GET'', ''/openapi.json'', OpenapiPage) # scalar_pages @ map (\<lambda>r. (rd_http r, rd_path r, ApiRoute r)) ROUTES,
      wa_schema = None, wa_html = reference_html\<rparr>"

definition create_litestar_app :: "(string list \<Rightarrow> string dict \<times> json dict) \<Rightarrow> exn + web_app" where
  "create_litestar_app mjs =
     map_ok (\<lambda>spec.
       \<lparr>wa_kind = SRV_LITESTAR,
        wa_table = map (\<lambda>r. (rd_http r, replace_all ''{id}'' ''{id:str}'' (rd_path r), ApiRoute r)) ROUTES @ (''GET'', ''/openapi.json'', OpenapiPage) # scalar_pages,
        wa_schema = Some spec, wa_html = reference_html\<rparr>) (openapi_spec mjs)"

definition create_aiohttp_app :: "(string list \<Rightarrow> string dict \<times> json dict) \<Rightarrow> exn + web_app" where
  "create_aiohttp_app mjs =
     map_ok (\<lambda>spec.
       \<lparr>wa_kind = SRV_AIOHTTP,
        wa_table = map (\<lambda>r. (rd_http r, rd_path r, ApiRoute r)) ROUTES @ (''GET'', ''/openapi.json'', OpenapiPage) # scalar_pages,
        wa_schema = Some spec, wa_html = reference_html\<rparr>) (openapi_spec mjs)"

definition build_app :: "(string list \<Rightarrow> string dict \<times> json dict) \<Rightarrow> server_kind \<Rightarrow> exn + web_app" where
  "build_app mjs kind =
     (if kind = SRV_FASTAPI then Inr create_fastapi_app
      else if kind = SRV_LITESTAR then create_litestar_app mjs
      else create_aiohttp_app mjs)"

definition custom_openapi :: "(string list \<Rightarrow> string dict \<times> json dict) \<Rightarrow> web_app \<Rightarrow> (exn + json dict) \<times> web_app" where
  "custom_openapi mjs wa =
     (case wa_schema wa of
        Some spec \<Rightarrow> (Inr spec, wa)
      | None \<Rightarrow> (case openapi_spec mjs of Inl e \<Rightarrow> (Inl e, wa) | Inr spec \<Rightarrow> (Inr spec, wa\<lparr>wa_schema := Some spec\<rparr>)))"

definition native_endpoint ::
  "server_kind \<Rightarrow> framework \<Rightarrow> (route_def \<Rightarrow> json \<Rightarrow> gexn) \<Rightarrow> route_def \<Rightarrow> string dict \<Rightarrow> native_request \<Rightarrow> ('o, 'i) gw_env \<Rightarrow> 'o gateway
     \<Rightarrow> native_response \<times> 'o gateway" where
  "native_endpoint kind =
     (case kind of SRV_FASTAPI \<Rightarrow> fastapi_endpoint | SRV_LITESTAR \<Rightarrow> litestar_endpoint | SRV_AIOHTTP \<Rightarrow> aiohttp_endpoint)"

definition routed :: "framework \<Rightarrow> web_app \<Rightarrow> native_request \<Rightarrow> (page_kind \<times> string dict) option" where
  "routed fw wa req =
     map_option (\<lambda>(i, params). (snd (snd (wa_table wa ! i)), params)) (fw_router fw (map (\<lambda>(m, p, k). (m, p)) (wa_table wa)) (nq_method req) (nq_path req))"

definition app_step ::
  "framework \<Rightarrow> (route_def \<Rightarrow> json \<Rightarrow> gexn) \<Rightarrow> (string list \<Rightarrow> string dict \<times> json dict) \<Rightarrow> ('o, 'i) gw_env \<Rightarrow> native_request \<Rightarrow> web_app \<times> 'o gateway
     \<Rightarrow> native_response \<times> web_app \<times> 'o gateway" where
  "app_step fw reject mjs env req ws =
     (case ws of (wa, s) \<Rightarrow>
        (case routed fw wa req of
           None \<Rightarrow> (NotServed, wa, s)
         | Some (ApiRoute r, params) \<Rightarrow> (case native_endpoint (wa_kind wa) fw reject r params req env s of (resp, s') \<Rightarrow> (resp, wa, s'))
         | Some (OpenapiPage, _) \<Rightarrow> (case custom_openapi mjs wa of (Inl e, wa') \<Rightarrow> (RaisedError e, wa', s) | (Inr spec, wa') \<Rightarrow> (SpecResponse spec, wa', s))
         | Some (ScalarPage, _) \<Rightarrow> (HtmlResponse (wa_html wa), wa, s)))"

fun app_steps ::
  "framework \<Rightarrow> (route_def \<Rightarrow> json \<Rightarrow> gexn) \<Rightarrow> (string list \<Rightarrow> string dict \<times> json dict) \<Rightarrow> (('o, 'i) gw_env \<times> native_request) list \<Rightarrow> web_app \<times> 'o gateway
     \<Rightarrow> native_response list \<times> web_app \<times> 'o gateway" where
  \<comment> \<open>requests one after the other, each with its own clock and random values\<close>
  "app_steps fw reject mjs [] ws = ([], ws)"
| "app_steps fw reject mjs ((env, req) # reqs) ws =
     (case app_step fw reject mjs env req ws of (resp, ws') \<Rightarrow> (case app_steps fw reject mjs reqs ws' of (resps, ws'') \<Rightarrow> (resp # resps, ws'')))"

record 'o lifecycle =
  lc_create_all :: "(exn + unit) option"
  lc_start :: "'o \<Rightarrow> (exn + unit) \<times> 'o"
  lc_stop :: "'o \<Rightarrow> (exn + unit) \<times> 'o"
  lc_db_close :: "(exn + unit) option"

definition run_app ::
  "(server_kind \<Rightarrow> framework) \<Rightarrow> (route_def \<Rightarrow> json \<Rightarrow> gexn) \<Rightarrow> (string list \<Rightarrow> string dict \<times> json dict) \<Rightarrow> 'o lifecycle \<Rightarrow> nat \<Rightarrow> server_kind
     \<Rightarrow> ('o, 'i) gw_env \<Rightarrow> (('o, 'i) gw_env \<times> native_request) list \<Rightarrow> 'o gateway \<Rightarrow> ((gexn + unit) \<times> native_response list \<times> 'o gateway) option" where
  \<comment> \<open>startup, requests, shutdown; a startup that raises serves nothing and closes nothing\<close>
  "run_app fws reject mjs lc fuel kind env reqs s =
     (case build_app mjs kind of
        Inl e \<Rightarrow> Some (Inl (Sdk e), [], s)
      | Inr wa \<Rightarrow>
          (case container_open (lc_create_all lc) (lc_start lc) fuel env s of
             None \<Rightarrow> None
           | Some (Inl e, s1) \<Rightarrow> Some (Inl e, [], s1)
           | Some (Inr n, s1) \<Rightarrow>
               (case app_steps (fws kind) reject mjs reqs (wa, s1) of (resps, _, s2) \<Rightarrow>
                  (case container_close (lc_db_close lc) (lc_stop lc) s2 of (r, s3) \<Rightarrow> Some (lift_sdk r, resps, s3)))))"

subsection \<open>What a framework does\<close>

definition brace_param :: "string \<Rightarrow> string option" where
  \<comment> \<open>the name of the parameter a segment of a pattern stands for\<close>
  "brace_param seg = (if 2 \<le> length seg \<and> hd seg = CHR ''{'' \<and> last seg = CHR ''}'' then Some (butlast (tl seg)) else None)"

definition typed_param :: "string \<Rightarrow> string option" where
  "typed_param seg =
     Option.bind (brace_param seg) (\<lambda>s. case partition_char (CHR '':'') s of (n, sep, t) \<Rightarrow> if sep \<and> t = ''str'' then Some n else None)"

definition param_style :: "server_kind \<Rightarrow> string \<Rightarrow> string option" where
  "param_style kind = (if kind = SRV_LITESTAR then typed_param else brace_param)"

fun match_segs :: "(string \<Rightarrow> string option) \<Rightarrow> string list \<Rightarrow> string list \<Rightarrow> string dict option" where
  "match_segs par [] [] = Some []"
| "match_segs par (p # ps) (s # ss) =
     (case par p of
        Some n \<Rightarrow> map_option (Cons (n, s)) (match_segs par ps ss)
      | None \<Rightarrow> if p = s then match_segs par ps ss else None)"
| "match_segs par _ _ = None"

abbreviation segments :: "string \<Rightarrow> string list" where
  "segments path \<equiv> split_char (CHR ''/'') path"

definition plain_char :: "char \<Rightarrow> bool" where
  \<comment> \<open>letters, digits, \<open>-\<close>, \<open>.\<close> and \<open>_\<close>\<close>
  "plain_char c \<longleftrightarrow> (let n = of_char c :: nat in 48 \<le> n \<and> n \<le> 57 \<or> 65 \<le> n \<and> n \<le> 90 \<or> 97 \<le> n \<and> n \<le> 122 \<or> n \<in> {45, 46, 95})"

definition plain_segment :: "string \<Rightarrow> bool" where
  "plain_segment s \<longleftrightarrow> s \<noteq> [] \<and> hd s \<noteq> CHR ''.'' \<and> list_all plain_char s"

definition plain_request :: "native_request \<Rightarrow> bool" where
  \<comment> \<open>an unescaped path of non-empty segments, and each query parameter once\<close>
  "plain_request req \<longleftrightarrow> nq_method req \<in> {''GET'', ''POST'', ''PUT'', ''PATCH'', ''DELETE''} \<and> startswith (nq_path req) ''/'' \<and>
     list_all plain_segment (tl (segments (nq_path req))) \<and> distinct (map fst (nq_query req))"

definition router_laws :: "(string \<Rightarrow> string option) \<Rightarrow> framework \<Rightarrow> bool" where
  \<comment> \<open>an entry that fits serves the request, whatever the order in which the router tries them\<close>
  "router_laws par fw \<longleftrightarrow> (\<forall>table req. plain_request req \<longrightarrow>
     (case fw_router fw table (nq_method req) (nq_path req) of
        None \<Rightarrow> \<forall>(m, p) \<in> set table. m = nq_method req \<longrightarrow> match_segs par (segments p) (segments (nq_path req)) = None
      | Some (i, ps) \<Rightarrow> i < length table \<and> fst (table ! i) = nq_method req \<and> match_segs par (segments (snd (table ! i))) (segments (nq_path req)) = Some ps))"

definition getone_laws :: "framework \<Rightarrow> bool" where
  \<comment> \<open>a key has one of its values\<close>
  "getone_laws fw \<longleftrightarrow> (\<forall>items k v. (k, v) \<in> set items \<longrightarrow> (\<exists>w. fw_getone fw items k = Some w \<and> (k, w) \<in> set items))"

subsection \<open>The endpoints agree\<close>

definition answer ::
  "(route_def \<Rightarrow> json \<Rightarrow> gexn) \<Rightarrow> route_def \<Rightarrow> string dict \<Rightarrow> native_request \<Rightarrow> ('o, 'i) gw_env \<Rightarrow> 'o gateway \<Rightarrow> native_response \<times> 'o gateway" where
  "answer reject r params req env s =
     (case read_body reject r req env of (env', body) \<Rightarrow>
        (case run_route env' r params (dict_update [] (nq_query req)) body (lower_headers (nq_headers req)) s of (out, s') \<Rightarrow>
           ((case oc_stream out of
               Some ls \<Rightarrow> StreamingResponse (oc_status out) (oc_media_type out) ls
             | None \<Rightarrow> JsonResponse (oc_status out) (oc_json out)), s')))"

lemma write_lines_all [simp]: "write_lines sent ls = sent @ ls"
  by (induction ls arbitrary: sent) simp_all

lemma getone_distinct: "getone_laws fw \<Longrightarrow> distinct (map fst items) \<Longrightarrow> (k, v) \<in> set items \<Longrightarrow> fw_getone fw items k = Some v"
  unfolding getone_laws_def by (metis eq_key_imp_eq_value)

lemma query_dict_distinct:
  assumes "getone_laws fw" and "distinct (map fst items)"
  shows "query_dict (fw_getone fw) items = dict_update [] items"
  unfolding query_dict_def dict_update_def by (rule fold_cong) (use getone_distinct [OF assms] in auto)

lemma litestar_query:
  assumes "getone_laws fw" and "distinct (map fst items)"
  shows "map (\<lambda>k. (k, or_default (fw_getone fw items k) [])) (filter (\<lambda>k. fw_getone fw items k \<noteq> None) (map fst items)) = items"
proof -
  have get: "fw_getone fw items (fst kv) = Some (snd kv)" if "kv \<in> set items" for kv using getone_distinct [OF assms, of "fst kv" "snd kv"] that by simp
  then have "filter (\<lambda>k. fw_getone fw items k \<noteq> None) (map fst items) = map fst items" by (intro filter_True) auto
  then show ?thesis using get by (simp add: comp_def or_default_def map_idI)
qed

lemma endpoints_agree:
  assumes "getone_laws fw" and "distinct (map fst (nq_query req))"
  shows "native_endpoint kind fw reject r params req env s = answer reject r params req env s"
proof -
  have same: "map (\<lambda>(k, v). (k, v)) params = params" by (induction params) auto
  have "fastapi_endpoint fw reject r params req env s = answer reject r params req env s"
    unfolding fastapi_endpoint_def answer_def query_dict_distinct [OF assms] ..
  moreover have "litestar_endpoint fw reject r params req env s = answer reject r params req env s"
    unfolding litestar_endpoint_def answer_def litestar_query [OF assms] same ..
  moreover have "aiohttp_endpoint fw reject r params req env s = answer reject r params req env s"
    unfolding aiohttp_endpoint_def answer_def query_dict_distinct [OF assms] write_lines_all append_Nil ..
  ultimately show ?thesis by (cases kind) (simp_all add: native_endpoint_def)
qed

subsection \<open>The routers agree\<close>

definition site :: "(string \<times> string \<times> page_kind) list" where
  "site = map (\<lambda>r. (rd_http r, rd_path r, ApiRoute r)) ROUTES @ (''GET'', ''/openapi.json'', OpenapiPage) # scalar_pages"

definition serves :: "(string \<Rightarrow> string option) \<Rightarrow> (string \<times> string \<times> page_kind) list \<Rightarrow> native_request \<Rightarrow> page_kind \<Rightarrow> string dict \<Rightarrow> bool" where
  "serves par table req pg params \<longleftrightarrow>
     (\<exists>p. (nq_method req, p, pg) \<in> set table \<and> match_segs par (segments p) (segments (nq_path req)) = Some params)"

fun overlap :: "string list \<Rightarrow> string list \<Rightarrow> bool" where
  "overlap [] [] = True"
| "overlap (p # ps) (q # qs) = ((brace_param p \<noteq> None \<or> brace_param q \<noteq> None \<or> p = q) \<and> overlap ps qs)"
| "overlap _ _ = False"

fun apart :: "(string \<times> string \<times> 'a) list \<Rightarrow> bool" where
  \<comment> \<open>no two entries can fit one request\<close>
  "apart [] = True"
| "apart ((m, p, k) # es) = (list_all (\<lambda>(m', p', k'). m' = m \<longrightarrow> \<not> overlap (segments p) (segments p')) es \<and> apart es)"

lemma match_overlap: "match_segs brace_param ps ss = Some x \<Longrightarrow> match_segs brace_param qs ss = Some y \<Longrightarrow> overlap ps qs"
proof (induction ps qs arbitrary: ss x y rule: overlap.induct)
  case (2 p ps q qs)
  then show ?case by (cases ss) (auto split: option.splits if_splits)
qed (auto elim: match_segs.elims)

lemma overlap_sym: "overlap ps qs \<Longrightarrow> overlap qs ps"
  by (induction ps qs rule: overlap.induct) auto

lemma apart_unique:
  "apart es \<Longrightarrow> (m, p, k) \<in> set es \<Longrightarrow> (m, q, l) \<in> set es \<Longrightarrow> overlap (segments p) (segments q) \<Longrightarrow> p = q \<and> k = l"
  by (induction es rule: apart.induct) (auto simp: list_all_iff dest: overlap_sym)

lemma apart_pages: "apart (map (\<lambda>(m, p, k). (m, p, f k)) es) = apart es"
  by (induction es rule: apart.induct) (auto simp: list_all_iff)

lemma site_apart: "apart site"
proof -
  have "apart (map (\<lambda>(m, p, k). (m, p, ())) site)" by code_simp
  then show ?thesis unfolding apart_pages .
qed

definition app_ok :: "(string list \<Rightarrow> string dict \<times> json dict) \<Rightarrow> web_app \<Rightarrow> bool" where
  \<comment> \<open>an application as it was built, whether or not its schema has been asked for\<close>
  "app_ok mjs wa \<longleftrightarrow> (\<exists>wa'. build_app mjs (wa_kind wa) = Inr wa' \<and> wa_kind wa' = wa_kind wa \<and> wa_table wa' = wa_table wa) \<and> wa_html wa = reference_html \<and>
     (\<forall>spec. wa_schema wa = Some spec \<longrightarrow> openapi_spec mjs = Inr spec)"

lemma map_ok_InrD: "map_ok f r = Inr y \<Longrightarrow> \<exists>x. r = Inr x \<and> y = f x"
  by (cases r) auto

lemma build_app_ok: "build_app mjs kind = Inr wa \<Longrightarrow> app_ok mjs wa \<and> wa_kind wa = kind"
  by (cases kind) (auto simp: app_ok_def build_app_def create_fastapi_app_def create_litestar_app_def create_aiohttp_app_def dest!: map_ok_InrD)

lemma litestar_patterns:
  "list_all (\<lambda>r. list_all2 (\<lambda>p q. typed_param q = brace_param p \<and> (brace_param p = None \<longrightarrow> q = p)) (segments (rd_path r))
     (segments (replace_all ''{id}'' ''{id:str}'' (rd_path r)))) ROUTES"
  by code_simp

lemma match_typed:
  "list_all2 (\<lambda>p q. typed_param q = brace_param p \<and> (brace_param p = None \<longrightarrow> q = p)) ps qs \<Longrightarrow> match_segs typed_param qs ss = match_segs brace_param ps ss"
proof (induction arbitrary: ss rule: list_all2_induct)
  case Nil
  then show ?case by (cases ss) simp_all
next
  case (Cons p ps q qs)
  then show ?case by (cases ss) (auto split: option.split)
qed

lemma table_serves:
  assumes "app_ok mjs wa"
  shows "serves (param_style (wa_kind wa)) (wa_table wa) req pg params \<longleftrightarrow> serves brace_param site req pg params"
proof (cases "wa_kind wa")
  case SRV_FASTAPI
  then have "wa_table wa = wa_table create_fastapi_app" using assms by (auto simp: app_ok_def build_app_def)
  then show ?thesis using SRV_FASTAPI by (auto simp: serves_def param_style_def create_fastapi_app_def site_def)
next
  case SRV_AIOHTTP
  then have "wa_table wa = site" using assms by (auto simp: app_ok_def build_app_def create_aiohttp_app_def site_def dest!: map_ok_InrD)
  then show ?thesis using SRV_AIOHTTP by (simp add: param_style_def)
next
  case SRV_LITESTAR
  let ?new = "\<lambda>p. replace_all ''{id}'' ''{id:str}'' p" and ?q = "segments (nq_path req)"
  define docs where "docs = (''GET'', ''/openapi.json'', OpenapiPage) # scalar_pages"
  have table: "wa_table wa = map (\<lambda>r. (rd_http r, ?new (rd_path r), ApiRoute r)) ROUTES @ docs"
    using SRV_LITESTAR assms by (auto simp: app_ok_def build_app_def create_litestar_app_def docs_def dest!: map_ok_InrD)
  have route: "match_segs typed_param (segments (?new (rd_path r))) ss = match_segs brace_param (segments (rd_path r)) ss" if "r \<in> set ROUTES" for r ss
    using litestar_patterns that by (intro match_typed) (auto simp: list_all_iff)
  have "list_all (\<lambda>(m, p, k). list_all2 (\<lambda>p q. typed_param q = brace_param p \<and> (brace_param p = None \<longrightarrow> q = p)) (segments p) (segments p)) docs"
    unfolding docs_def by code_simp
  then have page: "match_segs typed_param (segments p) ss = match_segs brace_param (segments p) ss" if "(m, p, k) \<in> set docs" for m p k ss
    using that by (intro match_typed) (auto simp: list_all_iff)
  have split: "serves par (map (\<lambda>r. (rd_http r, f (rd_path r), ApiRoute r)) ROUTES @ docs) req pg params \<longleftrightarrow>
      (\<exists>r. r \<in> set ROUTES \<and> rd_http r = nq_method req \<and> ApiRoute r = pg \<and> match_segs par (segments (f (rd_path r))) ?q = Some params) \<or>
      (\<exists>p. (nq_method req, p, pg) \<in> set docs \<and> match_segs par (segments p) ?q = Some params)" for par f
    unfolding serves_def set_append set_map Un_iff image_iff Bex_def prod.inject by metis
  have "serves typed_param (wa_table wa) req pg params \<longleftrightarrow> serves brace_param (map (\<lambda>r. (rd_http r, rd_path r, ApiRoute r)) ROUTES @ docs) req pg params"
    unfolding table split split [of _ "\<lambda>p. p"]
    by (intro arg_cong2 [where f = "(\<or>)"] ex_cong1 conj_cong refl) (simp_all only: route page)
  then show ?thesis by (simp add: SRV_LITESTAR param_style_def site_def docs_def)
qed

lemma serves_unique: "serves brace_param site req pg params \<Longrightarrow> serves brace_param site req pg' params' \<Longrightarrow> pg = pg' \<and> params = params'"
  unfolding serves_def using apart_unique [OF site_apart] match_overlap by (metis option.inject)

lemma routed_serves:
  assumes "router_laws (param_style (wa_kind wa)) fw" and "plain_request req" and "app_ok mjs wa"
  shows "routed fw wa req = Some (pg, params) \<longleftrightarrow> serves brace_param site req pg params"
proof -
  let ?par = "param_style (wa_kind wa)" and ?T = "map (\<lambda>(m, p, k). (m, p)) (wa_table wa)"
  note law = assms(1) [unfolded router_laws_def, rule_format, OF assms(2), of ?T]
  note same = table_serves [OF assms(3), of req, symmetric]
  show ?thesis
  proof (cases "fw_router fw ?T (nq_method req) (nq_path req)")
    case None
    then have none: "m = nq_method req \<longrightarrow> match_segs ?par (segments p) (segments (nq_path req)) = None" if "(m, p, k) \<in> set (wa_table wa)" for m p k
      using law that by force
    then have "\<not> serves ?par (wa_table wa) req pg params" unfolding serves_def by fastforce
    then show ?thesis using None same by (simp add: routed_def)
  next
    case (Some r)
    obtain i ps where r: "r = (i, ps)" by (cases r)
    obtain m p k where e: "wa_table wa ! i = (m, p, k)" by (cases "wa_table wa ! i")
    have i: "i < length (wa_table wa)" "m = nq_method req" "match_segs ?par (segments p) (segments (nq_path req)) = Some ps"
      using law Some r e by (auto simp: nth_map)
    then have "serves ?par (wa_table wa) req k ps" unfolding serves_def using e nth_mem [OF i(1)] by auto
    then have "serves brace_param site req k ps" using same by simp
    moreover have "routed fw wa req = Some (k, ps)" using Some r e by (simp add: routed_def)
    ultimately show ?thesis using serves_unique by auto
  qed
qed

lemma custom_openapi_ok:
  assumes "app_ok mjs wa" and "openapi_spec mjs = Inr spec"
  obtains wa' where "custom_openapi mjs wa = (Inr spec, wa')" and "app_ok mjs wa'" and "wa_kind wa' = wa_kind wa"
proof (cases "wa_schema wa")
  case None
  then show ?thesis using assms that [of "wa\<lparr>wa_schema := Some spec\<rparr>"] by (simp add: custom_openapi_def app_ok_def)
next
  case (Some x)
  then have "x = spec" using assms by (simp add: app_ok_def)
  then show ?thesis using that [of wa] assms Some by (simp add: custom_openapi_def)
qed

lemma app_step_agree:
  assumes "\<forall>k. router_laws (param_style k) (fws k) \<and> getone_laws (fws k)" and "openapi_spec mjs = Inr spec" and "plain_request req"
    and "app_ok mjs wa" and "app_ok mjs wb"
  shows "\<exists>resp wa' wb' s'. app_step (fws (wa_kind wa)) reject mjs env req (wa, s) = (resp, wa', s') \<and> app_step (fws (wa_kind wb)) reject mjs env req (wb, s) = (resp, wb', s') \<and>
     app_ok mjs wa' \<and> app_ok mjs wb' \<and> wa_kind wa' = wa_kind wa \<and> wa_kind wb' = wa_kind wb"
proof -
  have step: "\<exists>w'. app_step (fws (wa_kind w)) reject mjs env req (w, s) =
      (case route of None \<Rightarrow> (NotServed, w', s) | Some (ApiRoute r, ps) \<Rightarrow> (case answer reject r ps req env s of (resp, s') \<Rightarrow> (resp, w', s'))
        | Some (OpenapiPage, ps) \<Rightarrow> (SpecResponse spec, w', s) | Some (ScalarPage, ps) \<Rightarrow> (HtmlResponse reference_html, w', s)) \<and>
      app_ok mjs w' \<and> wa_kind w' = wa_kind w"
    if w: "app_ok mjs w" and route: "routed (fws (wa_kind w)) w req = route" for w route
  proof -
    have "native_endpoint (wa_kind w) (fws (wa_kind w)) reject r ps req env s = answer reject r ps req env s" for r ps
      using endpoints_agree [of "fws (wa_kind w)" req "wa_kind w" reject r ps env s] assms(1,3) by (simp add: plain_request_def)
    moreover obtain w' where "custom_openapi mjs w = (Inr spec, w')" "app_ok mjs w'" "wa_kind w' = wa_kind w" using custom_openapi_ok [OF w assms(2)] .
    moreover have "wa_html w = reference_html" using w by (simp add: app_ok_def)
    ultimately show ?thesis using w route by (auto simp: app_step_def split: option.split page_kind.split prod.split)
  qed
  have "routed (fws (wa_kind wa)) wa req = routed (fws (wa_kind wb)) wb req"
    using routed_serves [OF _ assms(3,4)] routed_serves [OF _ assms(3,5)] assms(1) by (metis not_None_eq surj_pair)
  then show ?thesis
    using step [OF assms(4) refl] step [OF assms(5) refl] by (fastforce split: option.split page_kind.split prod.split)
qed

lemma app_steps_agree:
  assumes "\<forall>k. router_laws (param_style k) (fws k) \<and> getone_laws (fws k)" and "openapi_spec mjs = Inr spec" and "\<forall>(env, req) \<in> set reqs. plain_request req"
    and "app_ok mjs wa" and "app_ok mjs wb"
  shows "\<exists>resps wa' wb' s'. app_steps (fws (wa_kind wa)) reject mjs reqs (wa, s) = (resps, wa', s') \<and> app_steps (fws (wa_kind wb)) reject mjs reqs (wb, s) = (resps, wb', s')"
  using assms(3-5)
proof (induction reqs arbitrary: wa wb s)
  case (Cons er reqs)
  obtain env req where er: "er = (env, req)" by (cases er)
  then have "plain_request req" "\<forall>(env, req) \<in> set reqs. plain_request req" using Cons.prems by auto
  moreover from app_step_agree [OF assms(1,2) this(1) Cons.prems(2,3), of reject env s] obtain resp wa' wb' s' where
    st: "app_step (fws (wa_kind wa)) reject mjs env req (wa, s) = (resp, wa', s')" "app_step (fws (wa_kind wb)) reject mjs env req (wb, s) = (resp, wb', s')"
      "app_ok mjs wa'" "app_ok mjs wb'" "wa_kind wa' = wa_kind wa" "wa_kind wb' = wa_kind wb" by blast
  moreover from Cons.IH [OF _ st(3,4), of s'] calculation(2) obtain resps wa2 wb2 s2 where
    "app_steps (fws (wa_kind wa')) reject mjs reqs (wa', s') = (resps, wa2, s2)" "app_steps (fws (wa_kind wb')) reject mjs reqs (wb', s') = (resps, wb2, s2)" by blast
  ultimately show ?case by (simp add: er)
qed simp

lemma openapi_spec_ok: "covers mjs \<Longrightarrow> \<exists>spec. openapi_spec mjs = Inr spec"
  unfolding openapi_spec_def using openapi_built [OF _ routes_distinct, of mjs "''claude-gateway''" "''1.0.0''"] by metis


fun first_match :: "(string \<Rightarrow> string option) \<Rightarrow> nat \<Rightarrow> (string \<times> string) list \<Rightarrow> string \<Rightarrow> string \<Rightarrow> (nat \<times> string dict) option" where
  "first_match par i [] m path = None"
| "first_match par i ((m', p) # table) m path =
     (case (if m' = m then match_segs par (segments p) (segments path) else None) of
        Some ps \<Rightarrow> Some (i, ps)
      | None \<Rightarrow> first_match par (Suc i) table m path)"

lemma first_match_laws:
  "case first_match par i table m path of
     None \<Rightarrow> \<forall>(m', p) \<in> set table. m' = m \<longrightarrow> match_segs par (segments p) (segments path) = None
   | Some (j, ps) \<Rightarrow> i \<le> j \<and> j - i < length table \<and> fst (table ! (j - i)) = m \<and> match_segs par (segments (snd (table ! (j - i)))) (segments path) = Some ps"
proof (induction par i table m path rule: first_match.induct)
  case (2 par i m' p table m path)
  then show ?case by (cases "if m' = m then match_segs par (segments p) (segments path) else None") (auto split: option.splits if_splits simp: nth_Cons')
qed simp

definition demo_framework :: "server_kind \<Rightarrow> framework" where
  \<comment> \<open>aiohttp and Litestar return the first value of a repeated query key, Starlette the last\<close>
  "demo_framework k = \<lparr>fw_router = first_match (param_style k) 0, fw_getone = (\<lambda>items. map_of (if k = SRV_FASTAPI then rev items else items))\<rparr>"

lemma demo_framework_laws: "router_laws (param_style k) (demo_framework k) \<and> getone_laws (demo_framework k)"
proof
  show "router_laws (param_style k) (demo_framework k)"
    unfolding router_laws_def
  proof (intro allI impI)
    fix table req
    show "case fw_router (demo_framework k) table (nq_method req) (nq_path req) of
        None \<Rightarrow> \<forall>(m, p) \<in> set table. m = nq_method req \<longrightarrow> match_segs (param_style k) (segments p) (segments (nq_path req)) = None
      | Some (i, ps) \<Rightarrow> i < length table \<and> fst (table ! i) = nq_method req \<and> match_segs (param_style k) (segments (snd (table ! i))) (segments (nq_path req)) = Some ps"
      using first_match_laws [where par = "param_style k" and i = 0 and table = table and m = "nq_method req" and path = "nq_path req"] by (simp add: demo_framework_def split: option.splits prod.splits)
  qed
  have "\<exists>w. map_of xs x = Some w \<and> (x, w) \<in> set xs" if "(x, v) \<in> set xs" for x v and xs :: "(string \<times> string) list"
    using that by (metis map_of_SomeD not_None_eq weak_map_of_SomeI)
  then show "getone_laws (demo_framework k)" unfolding getone_laws_def demo_framework_def by (simp, metis set_rev)
qed

definition demo_lifecycle :: "mem_storage orch_pool lifecycle" where
  "demo_lifecycle = \<lparr>lc_create_all = None, lc_start = (\<lambda>p. (Inr (), p)), lc_stop = (\<lambda>(o', cs). (Inr (), (or_close o', []))), lc_db_close = None\<rparr>"

definition demo_requests :: "((mem_storage orch_pool, unit) gw_env \<times> native_request) list" where
  "demo_requests =
     [(demo_gateway, \<lparr>nq_method = ''GET'', nq_path = ''/health'', nq_query = [], nq_headers = [], nq_body = None\<rparr>),
      (demo_gateway, \<lparr>nq_method = ''POST'', nq_path = ''/system/keys/revoke'', nq_query = [], nq_headers = [(''X-Admin-Token'', ''secret'')], nq_body = Some (JObj [])\<rparr>)]"

abbreviation demo_run :: "server_kind \<Rightarrow> ((gexn + unit) \<times> native_response list \<times> mem_storage orch_pool gateway) option" where
  "demo_run kind \<equiv> run_app demo_framework (\<lambda>r j. Validation []) demo_schemas demo_lifecycle 3 kind demo_gateway demo_requests demo_state"


lemma repeated_query_differs:
  \<comment> \<open>with a repeated query key the servers see different parameters\<close>
  "query_dict (fw_getone (demo_framework SRV_FASTAPI)) [(''limit'', ''1''), (''limit'', ''2'')] = [(''limit'', ''2'')]"
  "query_dict (fw_getone (demo_framework SRV_AIOHTTP)) [(''limit'', ''1''), (''limit'', ''2'')] = [(''limit'', ''1'')]"
  by code_simp+

subsection \<open>Settings and lifecycle\<close>

lemma stores_of_settings:
  \<comment> \<open>settings that passed their validator, with whatever the command line overrides, never reach the assertion; without a key the cookies stay plain\<close>
  assumes "require_database_url st = Inr st"
  shows "build_stores mk (settings_from_cli args st) =
      (if gs_db st = DB_MEMORY then Inr MemoryStores else map_ok (PostgresStores (or_default (gs_database_url st) [])) (build_cipher mk st))"
    and "gs_cookie_encryption_key st \<in> {None, Some []} \<Longrightarrow> build_cipher mk st = Inr None"
  using assms
  by (cases "gs_db st"; auto simp: build_stores_def build_cipher_def require_database_url_def settings_from_cli_def or_default_def split: option.splits if_splits)+

lemma container_closed_for_good:
  \<comment> \<open>the pool's bus cannot be started again, so a container that was closed cannot be opened\<close>
  assumes "create_all = None \<or> create_all = Some (Inr ())"
  shows "container_open create_all (\<lambda>p. case or_start fr st (fst p) of (r, o') \<Rightarrow> (r, (o', snd p))) fuel env
       (snd (container_close db_close (\<lambda>p. (Inr (), (or_close (fst p), []))) s)) =
     Some (Inl (Sdk (EventBusClosedError ''bus already closed'' [])), snd (container_close db_close (\<lambda>p. (Inr (), (or_close (fst p), []))) s))"
  using assms by (auto simp: container_open_def container_close_def or_start_def or_close_def)

lemma find_after_update:
  \<comment> \<open>a change of one entry that the test does not see\<close>
  assumes "\<And>k. P (f k) = P k" and "dict_get s i = Some k"
  shows "find P (map snd (AList.update i (f k) s)) = find P (map snd s) \<or>
    (find P (map snd s) = Some k \<and> find P (map snd (AList.update i (f k) s)) = Some (f k))"
  using assms(2) by (induction s) (auto simp: assms(1) split: if_splits)

lemma background_keeps_authentication:
  \<comment> \<open>whenever the pending touches run, in whatever order, every header authenticates as before\<close>
  "authenticate sha (mks_ops other) header (gw_keys (run_background env n s)) = authenticate sha (mks_ops other) header (gw_keys s)"
proof (cases "n < length (gw_touches s) \<and> dict_get (gw_keys s) (gw_touches s ! n) \<noteq> None")
  case True
  let ?i = "gw_touches s ! n" and ?f = "\<lambda>k. k\<lparr>ak_last_used_at := Some (en_now env)\<rparr>"
  obtain k where k: "dict_get (gw_keys s) ?i = Some k" using True by blast
  have "find (\<lambda>k. ak_key_hash k = h) (map snd (AList.update ?i (?f k) (gw_keys s))) = find (\<lambda>k. ak_key_hash k = h) (map snd (gw_keys s)) \<or>
     find (\<lambda>k. ak_key_hash k = h) (map snd (gw_keys s)) = Some k \<and> find (\<lambda>k. ak_key_hash k = h) (map snd (AList.update ?i (?f k) (gw_keys s))) = Some (?f k)" for h
    by (rule find_after_update [OF _ k]) simp
  note this [of "sha (strip_bearer (or_default header []))"]
  then show ?thesis
    using True k by (auto simp: run_background_def service_touch_def authenticate_def mks_ops_def mks_touch_def mks_get_by_hash_def Let_def)
qed (auto simp: run_background_def service_touch_def mks_ops_def mks_touch_def)

end
