(* ===== verification/Spec2Isabelle.thy ===== *)
theory Spec2Isabelle
  imports Affinity Availability Trackers Middleware Routing Pool_Work Session_Laws Client_Laws Transport_Laws Login Chat File_Storage Db_Cache Db_Events Gateway_Apps
begin

section \<open>Verification of the claude-webapi SDK and its gateway\<close>

text \<open>
  The program is an asynchronous Python client for the web API of claude.ai (\<^verbatim>\<open>src/claude_ai\<close>) and an HTTP gateway in front of it
  (\<^verbatim>\<open>src/gateway\<close>). This root theory imports the whole library; the theories are listed here in the order of the code, with the files they
  model and what is proved about them.

  \<^bold>\<open>How the parts interact.\<close> A \<^verbatim>\<open>ClaudeAIClient\<close> (theory \<open>Client\<close>) turns a call into an API method (\<open>Methods\<close>), which its
  \<^verbatim>\<open>HttpSession\<close> (\<open>Http_Session\<close>) sends through a middleware chain (\<open>Middleware\<close>) and a transport (\<open>Transport\<close>); the session keeps the
  cookies (\<open>Cookies\<close>), parses server-sent events (\<open>Streaming\<close>) and publishes what it sees on the event bus (\<open>Bus_Registry\<close>, \<open>Bus_Store\<close>,
  \<open>Bus_Dispatch\<close>, \<open>Bus_Worker\<close>, \<open>Bus_Memory\<close>). The \<^verbatim>\<open>ClaudeOrchestrator\<close> (\<open>Orchestrator\<close>) owns many clients, listens to that bus
  through its trackers (\<open>Trackers\<close>, \<open>Availability\<close>, \<open>Affinity\<close>), which save their state in a key-value storage (\<open>Storage_KV\<close>), and picks
  a client for each piece of work with a selector (\<open>Selector\<close>). The bulk executor (\<open>Executor\<close>) and the resumable batches (\<open>Batch\<close>) run many items
  over the pool. The gateway (\<open>Gateway_Base\<close>, \<open>Gateway_Auth\<close>, \<open>Gateway_Completion\<close>, \<open>Gateway_Server\<close>, \<open>Gateway_Postgres\<close>, \<open>Gateway_Apps\<close>) puts API keys, rate limits, an
  OpenAI-style completion endpoint and admin routes in front of such a pool.

  \<^bold>\<open>Conventions.\<close>
  \<^item> An operation is a function on an explicit state (a record, or a pair of a state and a world \<open>'w\<close> that stands for everything else the
    code may change). It returns \<open>exn + 'a\<close> where the code may raise; every \<^verbatim>\<open>raise\<close> and early return of the code is a branch. Code
    between two \<^verbatim>\<open>await\<close> points is one atomic step. Where tasks really interleave (the workers of the bus, the bulk executor), the
    model is an inductive step relation and the properties are proved by rule induction over its reachable states.
  \<^item> A clock reading, a generated identifier and a random number are arguments of the operation that takes them.
  \<^item> Strings are Latin-1, floats are rationals (no rounding, NaN or infinity), Python integers are \<^typ>\<open>int\<close>, dictionaries are association
    lists in insertion order, dynamic values are the datatype \<open>json\<close> (\<open>Prelude\<close>).
  \<^item> Third-party code is an argument: pydantic's validation and dumps, the HTTP libraries, the cipher, the web frameworks. A property that
    relies on its behaviour states that as a hypothesis, and its witness instantiates the argument.
  \<^item> An interface that one component offers another is a locale (\<open>base_storage\<close>, \<open>cookie_storage\<close>, \<open>event_store\<close>, \<open>response_cache\<close>,
    \<open>proxy_pool\<close>, \<open>api_key_store\<close>, \<open>account_pool\<close>). Each is interpreted on the model of the implementation, and the clients are verified from its laws alone.

  \<^bold>\<open>Bounds and fuel.\<close> \<open>json_loads\<close> runs its parser with fuel \<open>2 * length s + 1\<close>; every recursive call uses up a character or
  a nesting level, and the round trip \<open>json_loads (json_dumps v) = Some v\<close> is proved for it for every value without floats, of any size. The cursor scan of the gateway
  gets fuel one larger than the table, and it is proved that the scan ends within it. The executor and the worker have no fuel: a bound on the number
  of their steps and the existence of a next step until they are finished are theorems (\<open>map_terminates\<close>, \<open>worker_drains\<close>).

  \<^bold>\<open>The SDK, theory by theory.\<close>
  \<^item> \<open>Prelude\<close>, \<open>Errors\<close> (\<^verbatim>\<open>exceptions.py\<close>), \<open>Json_Text\<close> (the text form of \<^verbatim>\<open>json\<close>): shared notions, the exception classes, printing
    and parsing of JSON.
  \<^item> \<open>Storage_KV\<close>, \<open>File_Storage\<close> (\<^verbatim>\<open>storage/kv\<close>, \<^verbatim>\<open>storage/cookies/file.py\<close>): the storage contract, the memory storage and the storages in JSON
    files, which answer like the memory storages over any history; also what a crash during a write loses.
  \<^item> \<open>Databases\<close>, \<open>Db_Storage\<close>, \<open>Db_Cache\<close>, \<open>Db_Events\<close> (\<^verbatim>\<open>storage/kv\<close>, \<^verbatim>\<open>storage/cookies\<close>, \<^verbatim>\<open>storage/cache\<close>, \<^verbatim>\<open>bus/store\<close>): the backends on SQLite, MongoDB and
    Redis, statement by statement, with their connections. The databases are arguments; \<open>connection_laws\<close>, \<open>mongo_laws\<close> and \<open>redis_laws\<close> state what their documentation says. Over any
    history the storages, caches and event stores answer what the memory ones answer; lemmas show where they do not: ids that collide, repeated saves, dead letters that were never saved, a limit of zero.
  \<^item> \<open>Affinity\<close>, \<open>Availability\<close>, \<open>Trackers\<close>, \<open>Selector\<close> (\<^verbatim>\<open>orchestrator/affinity.py\<close>, \<^verbatim>\<open>scheduling.py\<close>, \<^verbatim>\<open>handlers.py\<close>,
    \<^verbatim>\<open>selector.py\<close>): pins, parking and quarantine, metrics and limits. Over any history, the trackers implement finite maps with expiry, and
    a restart through the storage restores what is still valid.
  \<^item> \<open>Orchestrator\<close>, \<open>Routing\<close> (\<^verbatim>\<open>orchestrator/orchestrator.py\<close>): \<^verbatim>\<open>pick\<close> returns only accounts that are in the pool, not excluded, available and of
    sufficient tier, raises exactly if there is none, honours pins, and every operation keeps the tables of the pool consistent.
  \<^item> \<open>Executor\<close> (\<^verbatim>\<open>orchestrator/executor.py\<close>): at most the configured number of tasks runs on one account, attempts are bounded, \<^verbatim>\<open>map\<close>
    returns one result per item in order, and it returns; also the case in which it does not.
  \<^item> \<open>Batch\<close> (\<^verbatim>\<open>orchestrator/batch.py\<close>): an interrupted batch that is resumed keeps finished items and redoes the others; also the crash that loses
    items.
  \<^item> \<open>Pool_Work\<close> (\<^verbatim>\<open>orchestrator/orchestrator.py\<close>, \<^verbatim>\<open>bus/base.py\<close>): the operations of the orchestrator that start the executor and the batches, with the bounds of the former, and the
    decorator with which a handler subscribes.
  \<^item> \<open>Events\<close>, \<open>Stream_Model\<close> (\<^verbatim>\<open>events\<close>, \<^verbatim>\<open>models/streaming.py\<close>), \<open>Middleware\<close> (\<^verbatim>\<open>middleware\<close>): event classes; the retry
    middleware calls the next handler as often as it should, and the rate limiter spaces requests.
  \<^item> \<open>Bus_Registry\<close>, \<open>Bus_Store\<close>, \<open>Bus_Dispatch\<close>, \<open>Bus_Worker\<close>, \<open>Bus_Memory\<close> (\<^verbatim>\<open>bus\<close>): globs and subscriptions, the contract of an event
    store, dispatch with handlers isolated from each other, and the worker pool: no envelope is lost, each ends completed or among the dead letters, the pool
    drains; also the deadlock of a full queue and the retry that a graceful stop strands.
  \<^item> \<open>Cookies\<close> (\<^verbatim>\<open>session/auth.py\<close>, \<^verbatim>\<open>auth\<close>, \<^verbatim>\<open>storage/cookies\<close>): headers, \<^verbatim>\<open>Set-Cookie\<close>, and the shared snapshot as the merge of all updates.
  \<^item> \<open>Streaming\<close>, \<open>Http_Session\<close>, \<open>Session_Laws\<close> (\<^verbatim>\<open>streaming\<close>, \<^verbatim>\<open>session/http.py\<close>): the incremental loop of the session and the
    whole-text parser yield the same events, the completion notice agrees with the collector, and an error status raises the exception of the table.
  \<^item> \<open>Methods\<close> (\<^verbatim>\<open>methods\<close>): the base class and every method class, with the catalogue \<open>api_method\<close>; the URL of a method is its template with
    the parameters in their segments.
  \<^item> \<open>Client\<close>, \<open>Client_Laws\<close> (\<^verbatim>\<open>client.py\<close>, \<^verbatim>\<open>models/_object.py\<close>, \<^verbatim>\<open>storage/cache\<close>): the facade with its wrappers, the organization default, the binding
    of results and the cached operations on conversations; over any history a read asks the server or answers the last value this client learned.
  \<^item> \<open>Transport\<close>, \<open>Transport_Laws\<close> (\<^verbatim>\<open>transport\<close>): proxy resolvers and both transports; the proxy a request takes and how its outcome counts, the
    fairness of the rotation, and that a transport with a proxy list never connects directly.
  \<^item> \<open>Login\<close> (\<^verbatim>\<open>login\<close>), \<open>Chat\<close> (\<^verbatim>\<open>helpers.py\<close>): a magic link is read back into the address and nonce it was made of and logs
    in with them; the three forms of a chat agree.

  \<^bold>\<open>The gateway.\<close>
  \<^item> \<open>Gateway_Base\<close> (\<^verbatim>\<open>base\<close>, \<^verbatim>\<open>shared\<close>): token buckets; in any window a key gets at most its quota plus the refill.
  \<^item> \<open>Pagination\<close> (\<^verbatim>\<open>shared/schemas/pagination.py\<close>): timestamps, base64, cursors and the scan.
  \<^item> \<open>Gateway_Auth\<close> (\<^verbatim>\<open>features/auth\<close>): keys, accounts, provisioning and the pool; a header authenticates exactly if it belongs to a live key, the
    scan of the accounts misses none, and a restart restores the pool.
  \<^item> \<open>Gateway_Completion\<close> (\<^verbatim>\<open>features/completion\<close>): tool calls survive printing and parsing, and the streamed completion adds up to the buffered one.
  \<^item> \<open>Gateway_Server\<close> (\<^verbatim>\<open>servers/routes.py\<close>, \<^verbatim>\<open>handlers.py\<close>, \<^verbatim>\<open>dispatch.py\<close>, \<^verbatim>\<open>features/methods\<close>): the request pipeline behind the frameworks; what changes the tables needs the admin
    token, what uses an account needs a live key bound to it.
  \<^item> \<open>Gateway_Docs\<close> (\<^verbatim>\<open>features/methods/introspect.py\<close>, \<^verbatim>\<open>docgen_service.py\<close>, \<^verbatim>\<open>servers/openapi.py\<close>): every exported method is listed once, and the
    OpenAPI document has exactly the routes of the server and tells the truth about the credentials they need.
  \<^item> \<open>Gateway_Postgres\<close> (\<^verbatim>\<open>features/auth/store/postgres.py\<close>, \<^verbatim>\<open>shared/db/repo.py\<close>, \<^verbatim>\<open>features/auth/cipher.py\<close>): the stores in Postgres with encrypted cookies. With \<open>table_laws\<close> for
    the SQLAlchemy session and a cipher that opens what it sealed, accounts and keys are answered like those of the memory stores over any history, pages and scans included.
  \<^item> \<open>Gateway_Apps\<close> (\<^verbatim>\<open>servers/fastapi_app.py\<close>, \<^verbatim>\<open>litestar_app.py\<close>, \<^verbatim>\<open>aiohttp_app.py\<close>, \<^verbatim>\<open>run.py\<close>, \<^verbatim>\<open>shared/container.py\<close>, \<^verbatim>\<open>shared/config.py\<close>): the three servers, for any routers that serve
    a request with an entry that fits, give the same responses and leave the same state from startup to shutdown; background touches do not change who is authenticated.

  \<^bold>\<open>Not modelled.\<close> The field lists of the pydantic response models, whose validation is a parameter; the engine behind the SQLAlchemy session; reading settings from the environment,
  logging, the command line of the documentation generator, and re-exports. Cancellation of a task in the middle of an operation, rounding of floats and what a database
  does when it fails in the middle of a statement are outside the model.
\<close>

end
